(* ===== verification/JS_Prelude.thy ===== *)
theory JS_Prelude
  imports Complex_Main "HOL-Library.Word" "HOL-Library.Char_ord" "HOL-Library.List_Lexorder"
begin

text \<open>
  The shared vocabulary of the development: what the components use of JavaScript's strings,
  numbers, typed arrays and \<open>Map\<close> objects, and the generic lemmas their proofs rest on.

  \<^item> A string is a \<^typ>\<open>string\<close>, a list of code units; HOL's \<^typ>\<open>char\<close> covers the code
    units below 256, and \<open>trim\<close> and \<open>toLowerCase\<close> are those of the Latin-1 range.
  \<^item> A finite number is a \<^typ>\<open>rat\<close> where the value may come from a peer (every finite double is
    rational), an \<^typ>\<open>int\<close> or \<^typ>\<open>nat\<close> where the code only counts. Rounding to 53 bits
    is not modelled.
  \<^item> A value that may be absent (\<open>undefined\<close>, \<open>null\<close>) is an \<open>option\<close>; \<open>truthy\<close> and
    \<open>js_or\<close> are JavaScript's \<open>!!x\<close> and \<open>x || y\<close> on it.
  \<^item> A \<open>Uint8Array\<close> is a list of \<open>8 word\<close>.
  \<^item> A \<open>Map\<close> keeps the insertion order of its keys, so it is an association list, read by
    \<^term>\<open>map_of\<close> and written by \<open>AList.update\<close> and \<open>AList.delete\<close>, which keep that order.
\<close>

named_theorems js_simps \<open>unfolding rules of the JavaScript vocabulary\<close>

type_synonym byte = "8 word"
type_synonym bytes = "8 word list"
type_synonym ms = rat

section \<open>Strings\<close>

definition js_space :: "char \<Rightarrow> bool" where
  "js_space c \<longleftrightarrow> (let n = (of_char c :: nat) in (9 \<le> n \<and> n \<le> 13) \<or> n = 32 \<or> n = 160)"

definition js_trim :: "string \<Rightarrow> string" where
  "js_trim s = rev (dropWhile js_space (rev (dropWhile js_space s)))"

definition js_lower_char :: "char \<Rightarrow> char" where
  "js_lower_char c =
     (let n = (of_char c :: nat)
      in if (65 \<le> n \<and> n \<le> 90) \<or> (192 \<le> n \<and> n \<le> 222 \<and> n \<noteq> 215) then char_of (n + 32) else c)"

definition js_toLowerCase :: "string \<Rightarrow> string" where
  "js_toLowerCase s = map js_lower_char s"

definition js_startsWith :: "string \<Rightarrow> string \<Rightarrow> bool" where
  "js_startsWith s p \<longleftrightarrow> take (length p) s = p"

text \<open>A string with no white space at either end is what \<open>trim\<close> leaves alone.\<close>

definition trimmed :: "string \<Rightarrow> bool" where
  "trimmed s \<longleftrightarrow> s = [] \<or> (\<not> js_space (hd s) \<and> \<not> js_space (last s))"

lemma last_dropWhile_eq: "dropWhile P xs \<noteq> [] \<Longrightarrow> last (dropWhile P xs) = last xs"
  by (induction xs) (auto split: if_splits)

lemma hd_rev_dropWhile_rev:
  assumes "\<not> P (hd xs)" "xs \<noteq> []"
  shows "hd (rev (dropWhile P (rev xs))) = hd xs" "dropWhile P (rev xs) \<noteq> []"
proof -
  have "hd xs \<in> set (rev xs)" using assms(2) by simp
  then show ne: "dropWhile P (rev xs) \<noteq> []" using assms(1) by (metis dropWhile_eq_Nil_conv)
  have "last (dropWhile P (rev xs)) = last (rev xs)" using last_dropWhile_eq [OF ne] .
  then show "hd (rev (dropWhile P (rev xs))) = hd xs"
    using assms(2) ne by (simp add: hd_rev last_rev)
qed

lemma trimmed_js_trim [simp]: "trimmed (js_trim s)"
proof (cases "dropWhile js_space s = []")
  case True
  then have "js_trim s = []" by (simp only: js_trim_def) simp
  then show ?thesis by (simp add: trimmed_def)
next
  case False
  define t where "t = dropWhile js_space s"
  have t: "t \<noteq> []" "\<not> js_space (hd t)" unfolding t_def using False hd_dropWhile [OF False] by blast+
  note h = hd_rev_dropWhile_rev [of js_space, OF t(2) t(1)]
  have "\<not> js_space (hd (dropWhile js_space (rev t)))" using h(2) hd_dropWhile by blast
  then have "\<not> js_space (last (rev (dropWhile js_space (rev t))))" by (simp add: h(2) last_rev)
  then show ?thesis using h t by (simp add: js_trim_def trimmed_def t_def [symmetric])
qed

lemma dropWhile_hd: "xs = [] \<or> \<not> P (hd xs) \<Longrightarrow> dropWhile P xs = xs"
  by (cases xs) auto

lemma js_trim_trimmed [simp]: "trimmed s \<Longrightarrow> js_trim s = s"
  by (auto simp: trimmed_def js_trim_def dropWhile_hd hd_rev)

lemma js_trim_idem: "js_trim (js_trim s) = js_trim s"
  by simp

lemma length_js_trim: "length (js_trim s) \<le> length s"
  by (metis js_trim_def length_dropWhile_le length_rev order.trans)

section \<open>Absent values\<close>

definition truthy :: "string option \<Rightarrow> bool" where
  "truthy v \<longleftrightarrow> (case v of None \<Rightarrow> False | Some s \<Rightarrow> s \<noteq> [])"

definition js_or :: "string option \<Rightarrow> string option \<Rightarrow> string option" where
  "js_or a b = (if truthy a then a else b)"

lemma truthy_simps [simp]:
  "\<not> truthy None" "truthy (Some s) \<longleftrightarrow> s \<noteq> []"
  by (simp_all add: truthy_def)

lemma js_or_simps [simp]:
  "js_or None b = b" "js_or (Some s) b = (if s = [] then b else Some s)"
  by (simp_all add: js_or_def)

lemma truthyE: "truthy v \<Longrightarrow> (\<And>s. v = Some s \<Longrightarrow> s \<noteq> [] \<Longrightarrow> P) \<Longrightarrow> P"
  by (cases v) auto

section \<open>Lists without repetition, kept in the order of first occurrence\<close>

text \<open>
  The loop \<open>for (x of list) if (ok(x) && !out.includes(x)) out.push(x)\<close> appears all over the
  program; \<open>push_new\<close> is one turn of it and \<open>collect_new\<close> the loop, with \<open>f\<close> the
  normalisation of an element (\<open>None\<close>: skip it).
\<close>

definition push_new :: "'a \<Rightarrow> 'a list \<Rightarrow> 'a list" where
  "push_new x out = (if x \<in> set out then out else out @ [x])"

fun collect_new :: "('b \<Rightarrow> 'a option) \<Rightarrow> 'b list \<Rightarrow> 'a list \<Rightarrow> 'a list" where
  "collect_new f [] out = out"
| "collect_new f (x # xs) out =
     collect_new f xs (case f x of None \<Rightarrow> out | Some y \<Rightarrow> push_new y out)"

lemma set_push_new [simp]: "set (push_new x out) = insert x (set out)"
  by (auto simp: push_new_def)

lemma distinct_push_new [simp]: "distinct (push_new x out) = distinct out"
  by (auto simp: push_new_def)

lemma set_collect_new: "set (collect_new f xs out) = set out \<union> {y. \<exists>x \<in> set xs. f x = Some y}"
  by (induction xs arbitrary: out) (auto split: option.splits)

lemma distinct_collect_new: "distinct (collect_new f xs out) = distinct out"
  by (induction xs arbitrary: out) (auto split: option.splits)

lemma collect_new_fixed:
  "distinct (out @ xs) \<Longrightarrow> (\<And>x. x \<in> set xs \<Longrightarrow> f x = Some x) \<Longrightarrow> collect_new f xs out = out @ xs"
  by (induction xs arbitrary: out) (auto simp: push_new_def)

lemma collect_new_append:
  "collect_new f (xs @ ys) out = collect_new f ys (collect_new f xs out)"
  by (induction xs arbitrary: out) auto

lemma collect_new_map: "collect_new f (map g xs) out = collect_new (f \<circ> g) xs out"
  by (induction xs arbitrary: out) auto

lemma collect_new_idem:
  assumes "\<And>x y. f x = Some y \<Longrightarrow> f y = Some y"
  shows "collect_new f (collect_new f xs []) [] = collect_new f xs []"
proof -
  have "f y = Some y" if "y \<in> set (collect_new f xs [])" for y
    using that assms by (auto simp: set_collect_new)
  then show ?thesis
    using collect_new_fixed [of "[]" "collect_new f xs []" f] by (simp add: distinct_collect_new)
qed

section \<open>The end of a list\<close>

definition keep_last :: "nat \<Rightarrow> 'a list \<Rightarrow> 'a list" where
  "keep_last k xs = drop (length xs - k) xs"

lemma keep_last_rev: "keep_last k xs = rev (take k (rev xs))"
  by (simp add: keep_last_def rev_take)

lemma keep_last_append_keep: "k \<le> m \<Longrightarrow> keep_last k (keep_last m xs @ ys) = keep_last k (xs @ ys)"
  by (auto simp: keep_last_rev min_def)

lemma keep_last_keep: "k \<le> m \<Longrightarrow> keep_last k (keep_last m xs) = keep_last k xs"
  by (simp add: keep_last_rev min_def)

lemma length_keep_last [simp]: "length (keep_last k xs) = min k (length xs)"
  by (auto simp: keep_last_def)

lemma keep_last_all [simp]: "length xs \<le> k \<Longrightarrow> keep_last k xs = xs"
  by (simp add: keep_last_def)

lemma keep_last_tl: "k < length xs \<Longrightarrow> keep_last k xs = keep_last k (tl xs)"
  by (cases xs) (auto simp: keep_last_def Suc_diff_le)

section \<open>\<open>findIndex\<close>\<close>

primrec findIndex :: "('a \<Rightarrow> bool) \<Rightarrow> 'a list \<Rightarrow> nat option" where
  "findIndex P [] = None"
| "findIndex P (x # xs) = (if P x then Some 0 else map_option Suc (findIndex P xs))"

lemma findIndex_Some:
  "findIndex P xs = Some i \<longleftrightarrow> i < length xs \<and> P (xs ! i) \<and> (\<forall>j < i. \<not> P (xs ! j))"
proof (induction xs arbitrary: i)
  case (Cons x xs)
  show ?case
  proof (cases i)
    case 0
    then show ?thesis by (auto simp: map_option_case split: option.splits)
  next
    case (Suc k)
    then show ?thesis using Cons by (auto simp: less_Suc_eq_0_disj)
  qed
qed simp

lemma findIndex_None: "findIndex P xs = None \<longleftrightarrow> (\<forall>x \<in> set xs. \<not> P x)"
  by (induction xs) auto

lemma findIndex_split: "findIndex P xs = Some i \<Longrightarrow> \<exists>ys x zs. xs = ys @ x # zs \<and> length ys = i \<and> P x \<and> (\<forall>y \<in> set ys. \<not> P y)"
proof (induction xs arbitrary: i)
  case (Cons x xs)
  show ?case
  proof (cases "P x")
    case True
    then show ?thesis using Cons.prems by (intro exI [of _ "[]"]) auto
  next
    case False
    then obtain k where k: "findIndex P xs = Some k" "i = Suc k" using Cons.prems by auto
    then obtain ys y zs where "xs = ys @ y # zs" "length ys = k" "P y" "\<forall>y \<in> set ys. \<not> P y" using Cons.IH by blast
    then show ?thesis using k False by (intro exI [of _ "x # ys"] exI [of _ y] exI [of _ zs]) auto
  qed
qed simp

text \<open>A list searched for the first element with a key, after the element found was replaced or removed.\<close>

lemma find_append: "find P (xs @ ys) = (case find P xs of None \<Rightarrow> find P ys | Some x \<Rightarrow> Some x)"
  by (induction xs) simp_all

lemma find_key_split:
  assumes "findIndex (\<lambda>c. g c = p) cs = Some i"
  obtains ys x zs where "cs = ys @ x # zs" "length ys = i" "g x = p" "find (\<lambda>c. g c = p) ys = None"
  using findIndex_split [OF assms] by (auto simp: find_None_iff)

lemma find_key_update:
  assumes "findIndex (\<lambda>c. g c = p) cs = Some i" "g c' = p"
  shows "find (\<lambda>c. g c = q) (cs[i := c']) = (if q = p then Some c' else find (\<lambda>c. g c = q) cs)"
proof -
  obtain ys x zs where "cs = ys @ x # zs" "length ys = i" "g x = p" "find (\<lambda>c. g c = p) ys = None"
    by (rule find_key_split [OF assms(1)])
  then show ?thesis using assms(2) by (auto simp: find_append list_update_append split: option.splits)
qed

lemma find_key_remove:
  assumes "findIndex (\<lambda>c. g c = p) cs = Some i" "distinct (filter (\<lambda>k. k = p) (map g cs))"
  shows "find (\<lambda>c. g c = q) (take i cs @ drop (Suc i) cs) = (if q = p then None else find (\<lambda>c. g c = q) cs)"
proof -
  obtain ys x zs where cs: "cs = ys @ x # zs" "length ys = i" "g x = p" "find (\<lambda>c. g c = p) ys = None"
    by (rule find_key_split [OF assms(1)])
  then have "p \<notin> g ` set zs" using assms(2) by auto
  then have "find (\<lambda>c. g c = p) zs = None" by (force simp: find_None_iff)
  then show ?thesis using cs by (auto simp: find_append split: option.splits)
qed

lemma find_key_None: "find (\<lambda>c. g c = p) cs = None \<longleftrightarrow> p \<notin> g ` set cs"
  by (induction cs) auto

lemma find_key_filter:
  "distinct (map g cs) \<Longrightarrow> find (\<lambda>c. g c = p) (filter Q cs) =
     (case find (\<lambda>c. g c = p) cs of None \<Rightarrow> None | Some c \<Rightarrow> if Q c then Some c else None)"
proof (induction cs)
  case (Cons c cs)
  have "g c \<notin> g ` set (filter Q cs)" using Cons.prems by auto
  then have "find (\<lambda>x. g x = g c) (filter Q cs) = None" by (rule iffD2 [OF find_key_None [of g "g c"]])
  then show ?case using Cons by auto
qed simp

lemma find_key: "find (\<lambda>c. g c = p) cs = Some c \<Longrightarrow> g c = p \<and> c \<in> set cs"
  by (induction cs) (auto split: if_splits)

lemma findIndex_find: "findIndex P xs = Some i \<Longrightarrow> find P xs = Some (xs ! i)"
  by (induction xs arbitrary: i) (auto split: if_splits)

lemma findIndex_find_None: "findIndex P xs = None \<longleftrightarrow> find P xs = None"
  by (auto simp: findIndex_None find_None_iff)

end
