(* ===== verification/Call_Devices.thy ===== *)
theory Call_Devices
  imports JS_Prelude
begin

text \<open>
  Device binding of a call, \<open>src/renderer/calls/callDevices.js\<close>: an offer rings on every device
  of the callee, the device that accepts is the one the call is bound to, and a \<open>busy\<close> ends the
  call only when every ringing device has reported it. Device keys are strings; an absent key is
  \<open>None\<close> (or the empty string, which JavaScript treats alike).
\<close>

section \<open>Definitions\<close>

text \<open>\<open>uniqueDevices\<close>: the trimmed, non-empty string entries, first occurrences only.\<close>

definition device_key :: "string option \<Rightarrow> string option" where
  "device_key d = (case d of None \<Rightarrow> None
     | Some s \<Rightarrow> (let key = js_trim s in if key = [] then None else Some key))"

definition uniqueDevices :: "string option list \<Rightarrow> string list" where
  "uniqueDevices ds = collect_new device_key ds []"

definition shouldDropBoundMessage :: "string option \<Rightarrow> string option \<Rightarrow> bool" where
  "shouldDropBoundMessage remoteDevice fromDevice =
     (if \<not> truthy remoteDevice then False
      else if \<not> truthy fromDevice then False
      else fromDevice \<noteq> remoteDevice)"

record busy_result =
  br_ringing :: "string list"
  br_busy :: "string list"
  br_endBusy :: bool

definition applyRemoteBusy :: "string list \<Rightarrow> string list \<Rightarrow> string option \<Rightarrow> busy_result" where
  "applyRemoteBusy ringingDevices busyDevices fromDevice =
     (let ringing = uniqueDevices (map Some ringingDevices) in
      if \<not> truthy fromDevice
      then \<lparr>br_ringing = ringing, br_busy = uniqueDevices (map Some busyDevices), br_endBusy = True\<rparr>
      else
        let busy = uniqueDevices (map Some busyDevices @ [fromDevice]);
            waiting = filter (\<lambda>d. d \<notin> set busy) ringing
        in \<lparr>br_ringing = ringing, br_busy = busy,
            br_endBusy = (ringing \<noteq> [] \<and> waiting = [])\<rparr>)"

definition devicesToCancel :: "string list \<Rightarrow> string option \<Rightarrow> string list" where
  "devicesToCancel ringingDevices exceptDevice =
     filter (\<lambda>d. Some d \<noteq> exceptDevice) (uniqueDevices (map Some ringingDevices))"

definition isAnsweredElsewhere :: "string option \<Rightarrow> bool" where
  "isAnsweredElsewhere reason \<longleftrightarrow> reason = Some ''answered-elsewhere''"

section \<open>Lemmas\<close>

text \<open>Well-formed device lists: what \<open>uniqueDevices\<close> produces and keeps.\<close>

definition device_list :: "string list \<Rightarrow> bool" where
  "device_list ds \<longleftrightarrow> distinct ds \<and> (\<forall>d \<in> set ds. trimmed d \<and> d \<noteq> [])"

lemma device_key_Some:
  "device_key d = Some k \<longleftrightarrow> (\<exists>s. d = Some s \<and> k = js_trim s \<and> k \<noteq> [])"
  by (auto simp: device_key_def Let_def split: option.splits)

lemma device_key_fixed [simp]: "trimmed d \<Longrightarrow> d \<noteq> [] \<Longrightarrow> device_key (Some d) = Some d"
  by (simp add: device_key_def)

lemma set_uniqueDevices:
  "set (uniqueDevices ds) = {k. \<exists>s. Some s \<in> set ds \<and> k = js_trim s \<and> k \<noteq> []}"
  by (auto simp: uniqueDevices_def set_collect_new device_key_Some)

lemma device_list_uniqueDevices [simp]: "device_list (uniqueDevices ds)"
  by (auto simp: device_list_def set_uniqueDevices) (simp add: uniqueDevices_def distinct_collect_new)

lemma uniqueDevices_fixed [simp]: "device_list ds \<Longrightarrow> uniqueDevices (map Some ds) = ds"
proof -
  assume ds: "device_list ds"
  have "collect_new device_key (map Some ds) out = out @ ds"
    if "distinct (out @ ds)" "\<forall>d \<in> set ds. trimmed d \<and> d \<noteq> []" for out
    using that by (induction ds arbitrary: out) (auto simp: push_new_def)
  from this [of "[]"] ds show ?thesis by (simp add: uniqueDevices_def device_list_def)
qed

lemma device_list_Nil [simp]: "device_list []"
  by (simp add: device_list_def)

text \<open>
  A busy report of a named device ends the call exactly when all ringing devices are now in the
  busy list.
\<close>

lemma applyRemoteBusy_end_iff:
  assumes "truthy from"
  shows "br_endBusy (applyRemoteBusy rs bs from) \<longleftrightarrow>
     uniqueDevices (map Some rs) \<noteq> [] \<and>
     set (uniqueDevices (map Some rs)) \<subseteq> set (uniqueDevices (map Some bs @ [from]))"
  using assms by (auto simp: applyRemoteBusy_def Let_def filter_empty_conv)

lemma devicesToCancel_set:
  "set (devicesToCancel rs ex) = {d \<in> set (uniqueDevices (map Some rs)). Some d \<noteq> ex}"
  by (auto simp: devicesToCancel_def)

end
