(* ===== verification/Video_Caps.thy ===== *)
theory Video_Caps
  imports JS_Prelude
begin

text \<open>
  Video codecs, \<open>src/renderer/calls/videoCaps.js\<close>: the encoder and decoder configurations, the
  negotiation of a common codec, the normalisation of a capability list and the probe of what the
  platform supports. Lists hold the strings the code compares (\<open>String(item)\<close>); a missing list is
  empty. The WebCodecs probes are parameters: \<open>None\<close> is a call that throws.
\<close>

section \<open>Definitions\<close>

definition VIDEO_CODEC_VP8 :: string where "VIDEO_CODEC_VP8 = ''vp8''"
definition VIDEO_CODEC_AVC1 :: string where "VIDEO_CODEC_AVC1 = ''avc1''"
definition VIDEO_AVC_PROFILE :: string where "VIDEO_AVC_PROFILE = ''avc1.42E01F''"

record encoder_config =
  ec_width :: nat
  ec_height :: nat
  ec_bitrate :: nat
  ec_framerate :: nat
  ec_latencyMode :: string
  ec_codec :: string
  ec_avcFormat :: "string option"

text \<open>\<open>x || d\<close> on a number that may be missing (\<open>0\<close> stands for both).\<close>

definition num_or :: "nat \<Rightarrow> nat \<Rightarrow> nat" where
  "num_or n d = (if n = 0 then d else n)"

definition encoderConfigFor :: "string \<Rightarrow> nat \<Rightarrow> nat \<Rightarrow> nat \<Rightarrow> nat \<Rightarrow> encoder_config" where
  "encoderConfigFor codec width height bitrate framerate =
     (let common = \<lparr>ec_width = num_or width 640, ec_height = num_or height 360,
                    ec_bitrate = num_or bitrate 600000, ec_framerate = num_or framerate 24,
                    ec_latencyMode = ''realtime'', ec_codec = VIDEO_CODEC_VP8, ec_avcFormat = None\<rparr>
      in if codec = VIDEO_CODEC_AVC1 \<or> js_startsWith codec ''avc1''
         then common\<lparr>ec_codec := VIDEO_AVC_PROFILE, ec_avcFormat := Some ''annexb''\<rparr>
         else common)"

definition decoderConfigFor :: "string \<Rightarrow> string" where
  "decoderConfigFor codec =
     (if codec = VIDEO_CODEC_AVC1 \<or> js_startsWith codec ''avc1'' then VIDEO_AVC_PROFILE
      else VIDEO_CODEC_VP8)"

definition codec_has :: "string list \<Rightarrow> string \<Rightarrow> bool" where
  "codec_has list name \<longleftrightarrow> (\<exists>item \<in> set list. js_startsWith (js_toLowerCase item) name)"

definition pickVideoCodec :: "string list \<Rightarrow> string list \<Rightarrow> string option" where
  "pickVideoCodec local remote =
     (if codec_has local ''vp8'' \<and> codec_has remote ''vp8'' then Some VIDEO_CODEC_VP8
      else if codec_has local ''avc1'' \<and> codec_has remote ''avc1'' then Some VIDEO_CODEC_AVC1
      else None)"

definition isAllowedVideoCodec :: "string \<Rightarrow> bool" where
  "isAllowedVideoCodec codec =
     (let value = js_toLowerCase codec in js_startsWith value ''vp8'' \<or> js_startsWith value ''avc1'')"

fun normalizeCapabilityLoop :: "string list \<Rightarrow> string list \<Rightarrow> string list" where
  "normalizeCapabilityLoop [] out = out"
| "normalizeCapabilityLoop (item # items) out =
     (let value = js_toLowerCase item
      in normalizeCapabilityLoop items
           (if js_startsWith value ''vp8'' \<and> VIDEO_CODEC_VP8 \<notin> set out then out @ [VIDEO_CODEC_VP8]
            else if js_startsWith value ''avc1'' \<and> VIDEO_CODEC_AVC1 \<notin> set out then out @ [VIDEO_CODEC_AVC1]
            else out))"

definition normalizeCapabilityList :: "string list \<Rightarrow> string list" where
  "normalizeCapabilityList list = normalizeCapabilityLoop list []"

record capabilities =
  cap_video :: "string list"
  cap_screen :: bool

definition codec_supported ::
  "(encoder_config \<Rightarrow> bool option) \<Rightarrow> (string \<Rightarrow> bool option) \<Rightarrow> string \<Rightarrow> bool" where
  "codec_supported encFn decFn codec =
     (case encFn (encoderConfigFor codec 0 0 0 0) of
        None \<Rightarrow> False
      | Some enc \<Rightarrow> (case decFn (decoderConfigFor codec) of None \<Rightarrow> False | Some dec \<Rightarrow> enc \<and> dec))"

definition probeVideoCodecs ::
  "bool \<Rightarrow> (encoder_config \<Rightarrow> bool option) \<Rightarrow> (string \<Rightarrow> bool option) \<Rightarrow> capabilities" where
  "probeVideoCodecs hasApi encFn decFn =
     (if \<not> hasApi then \<lparr>cap_video = [], cap_screen = False\<rparr>
      else let video = (if codec_supported encFn decFn VIDEO_CODEC_VP8 then [VIDEO_CODEC_VP8] else [])
                     @ (if codec_supported encFn decFn VIDEO_CODEC_AVC1 then [VIDEO_CODEC_AVC1] else [])
           in \<lparr>cap_video = video, cap_screen = (video \<noteq> [])\<rparr>)"

section \<open>Lemmas\<close>

lemmas codec_names [simp] = VIDEO_CODEC_VP8_def VIDEO_CODEC_AVC1_def VIDEO_AVC_PROFILE_def

definition capability_list :: "string list \<Rightarrow> bool" where
  "capability_list cs \<longleftrightarrow> distinct cs \<and> set cs \<subseteq> {VIDEO_CODEC_VP8, VIDEO_CODEC_AVC1}"

lemma starts_vp8_not_avc1 [simp]: "js_startsWith v ''vp8'' \<Longrightarrow> \<not> js_startsWith v ''avc1''"
  by (cases v) (auto simp: js_startsWith_def)

lemma normalizeCapabilityLoop_keeps:
  "capability_list out \<Longrightarrow> capability_list (normalizeCapabilityLoop items out)"
  by (induction items arbitrary: out) (auto simp: capability_list_def Let_def)

lemma capability_list_normalize [simp]: "capability_list (normalizeCapabilityList items)"
  unfolding normalizeCapabilityList_def
  by (rule normalizeCapabilityLoop_keeps) (simp add: capability_list_def)

lemma set_normalizeCapabilityLoop:
  "set (normalizeCapabilityLoop items out) = set out \<union>
     (if codec_has items ''vp8'' then {VIDEO_CODEC_VP8} else {}) \<union>
     (if codec_has items ''avc1'' then {VIDEO_CODEC_AVC1} else {})"
  by (induction items arbitrary: out) (auto simp: Let_def codec_has_def)

lemma set_normalizeCapabilityList:
  "set (normalizeCapabilityList items) =
     (if codec_has items ''vp8'' then {VIDEO_CODEC_VP8} else {}) \<union>
     (if codec_has items ''avc1'' then {VIDEO_CODEC_AVC1} else {})"
  by (simp add: normalizeCapabilityList_def set_normalizeCapabilityLoop)

lemma lower_literals [simp]:
  "js_toLowerCase ''vp8'' = ''vp8''" "js_toLowerCase ''avc1'' = ''avc1''"
  by code_simp+

lemma codec_has_capability_list:
  "capability_list cs \<Longrightarrow> codec_has cs ''vp8'' \<longleftrightarrow> ''vp8'' \<in> set cs"
  "capability_list cs \<Longrightarrow> codec_has cs ''avc1'' \<longleftrightarrow> ''avc1'' \<in> set cs"
  by (auto simp: codec_has_def capability_list_def js_startsWith_def
      intro: bexI [of _ "''vp8''"] bexI [of _ "''avc1''"])

text \<open>Negotiation sees only the normalised lists, whichever side normalises.\<close>

lemma codec_has_normalize [simp]:
  "codec_has (normalizeCapabilityList cs) ''vp8'' = codec_has cs ''vp8''"
  "codec_has (normalizeCapabilityList cs) ''avc1'' = codec_has cs ''avc1''"
  by (simp_all add: codec_has_capability_list set_normalizeCapabilityList)

lemma pickVideoCodec_normalize [simp]:
  "pickVideoCodec (normalizeCapabilityList l) (normalizeCapabilityList r) = pickVideoCodec l r"
  by (simp add: pickVideoCodec_def)

lemma pickVideoCodec_comm: "pickVideoCodec l r = pickVideoCodec r l"
  by (auto simp: pickVideoCodec_def)

lemma normalizeCapabilityList_Nil_iff:
  "normalizeCapabilityList cs = [] \<longleftrightarrow> \<not> (\<exists>c \<in> set cs. isAllowedVideoCodec c)"
proof -
  have "normalizeCapabilityList cs = [] \<longleftrightarrow> set (normalizeCapabilityList cs) = {}" by simp
  also have "\<dots> \<longleftrightarrow> \<not> codec_has cs ''vp8'' \<and> \<not> codec_has cs ''avc1''"
    by (simp add: set_normalizeCapabilityList)
  also have "\<dots> \<longleftrightarrow> \<not> (\<exists>c \<in> set cs. isAllowedVideoCodec c)"
    by (auto simp: codec_has_def isAllowedVideoCodec_def Let_def)
  finally show ?thesis .
qed

lemma normalizeCapabilityLoop_fixed:
  "capability_list (out @ cs) \<Longrightarrow> normalizeCapabilityLoop cs out = out @ cs"
  by (induction cs arbitrary: out) (auto simp: capability_list_def Let_def js_startsWith_def)

lemma normalizeCapabilityList_fixed [simp]:
  "capability_list cs \<Longrightarrow> normalizeCapabilityList cs = cs"
  by (simp add: normalizeCapabilityList_def normalizeCapabilityLoop_fixed)

lemma pickVideoCodec_common:
  "pickVideoCodec l r = Some c \<Longrightarrow>
     c \<in> set (normalizeCapabilityList l) \<and> c \<in> set (normalizeCapabilityList r)"
  by (auto simp: pickVideoCodec_def set_normalizeCapabilityList split: if_splits)

end
