(* ===== verification/Call_State.thy ===== *)
theory Call_State
  imports Call_Devices Video_Caps
begin

text \<open>
  The call state machine, \<open>src/renderer/calls/callState.js\<close>. \<open>reduceCall\<close> is the pure
  reducer: it takes the state and an event and returns the new state and the effects the call
  manager runs. The \<open>switch\<close> over \<open>event.type\<close> is a case distinction over
  \<open>event_type\<close>; the handlers keep the names and the order of the source. \<open>Date.now()\<close> is the
  argument \<open>clock\<close>, and \<open>event.now || Date.now()\<close> is \<open>ev_time\<close> (an absent \<open>now\<close> is 0).
\<close>

named_theorems call_defs \<open>definitions of the call reducer and its handlers\<close>

section \<open>State, events, effects\<close>

datatype call_phase = Idle | Outgoing | Incoming | Active

datatype call_role = Caller | Callee

definition RING_TIMEOUT_MS :: ms where "RING_TIMEOUT_MS = 45000"
definition CALL_WATCHDOG_MS :: ms where "CALL_WATCHDOG_MS = 15000"
definition CALL_PING_MS :: ms where "CALL_PING_MS = 2000"
definition CALL_OFFER_MAX_AGE_MS :: ms where "CALL_OFFER_MAX_AGE_MS = 60000"

record call_state =
  cs_phase :: call_phase
  cs_callId :: "string option"
  cs_peerId :: "string option"
  cs_role :: "call_role option"
  cs_callKeyB64 :: string
  cs_codecs :: "string list"
  cs_codec :: "string option"
  cs_muted :: bool
  cs_ringingAt :: ms
  cs_connectedAt :: ms
  cs_rttMs :: "ms option"
  cs_lastHeardAt :: ms
  cs_peerRinging :: bool
  cs_remoteDevice :: "string option"
  cs_ringingDevices :: "string list"
  cs_busyDevices :: "string list"
  cs_mediaVideo :: bool
  cs_capabilities :: capabilities
  cs_remoteCapabilities :: capabilities
  cs_videoCodec :: "string option"
  cs_localCamera :: bool
  cs_localScreen :: bool
  cs_remoteCamera :: bool
  cs_remoteScreen :: bool
  cs_hadVideo :: bool

definition no_capabilities :: capabilities where
  "no_capabilities = \<lparr>cap_video = [], cap_screen = False\<rparr>"

definition default_codecs :: "string list" where
  "default_codecs = [''opus'', ''pcm16'']"

definition createIdleCallState :: call_state where
  "createIdleCallState = \<lparr>
     cs_phase = Idle, cs_callId = None, cs_peerId = None, cs_role = None, cs_callKeyB64 = [],
     cs_codecs = default_codecs, cs_codec = None, cs_muted = False, cs_ringingAt = 0,
     cs_connectedAt = 0, cs_rttMs = None, cs_lastHeardAt = 0, cs_peerRinging = False,
     cs_remoteDevice = None, cs_ringingDevices = [], cs_busyDevices = [], cs_mediaVideo = False,
     cs_capabilities = no_capabilities, cs_remoteCapabilities = no_capabilities,
     cs_videoCodec = None, cs_localCamera = False, cs_localScreen = False,
     cs_remoteCamera = False, cs_remoteScreen = False, cs_hadVideo = False\<rparr>"

datatype event_type =
    LocalStart | RemoteOffer | RemoteRinging | LocalAccept | RemoteAccept | LocalReject
  | RemoteReject | LocalCancel | RemoteCancel | LocalEnd | RemoteEnd | RemoteBusy | OfferFailed
  | RingTimeout | ConnectionLost | ToggleMute | LocalCamera | LocalScreen | RemoteCamera
  | RemoteScreen | LocalKeyframe | Pong | Heard | OtherEvent

text \<open>Capabilities as an event carries them: \<open>screen\<close> may be missing.\<close>

record offered_caps =
  oc_video :: "string list"
  oc_screen :: "bool option"

record call_event =
  ev_type :: event_type
  ev_callId :: "string option"
  ev_peerId :: "string option"
  ev_now :: ms
  ev_fromDevice :: "string option"
  ev_callKeyB64 :: string
  ev_codecs :: "string list option"
  ev_codec :: "string option"
  ev_timestamp :: "ms option"
  ev_blocked :: bool
  ev_mediaVideo :: bool
  ev_capabilities :: "offered_caps option"
  ev_camera :: bool
  ev_localVideoCodecs :: "string list option"
  ev_on :: "bool option"
  ev_reason :: "string option"
  ev_t :: "ms option"
  ev_stream :: "string option"

record signal =
  sg_op :: string
  sg_peerId :: "string option"
  sg_callId :: "string option"
  sg_deviceKey :: "string option"
  sg_codec :: "string option"
  sg_stream :: "string option"
  sg_reason :: "string option"

record call_log =
  cl_peerId :: "string option"
  cl_direction :: string
  cl_outcome :: string
  cl_durationMs :: ms
  cl_video :: bool

datatype effect =
    SendOffer | StartRingback | ArmRingTimeout | SendSignal signal | NotifyIncoming
  | StartRingtone | StopRingtone | StartMedia | StopMedia | ArmWatchdog | StartPing | ClearTimers
  | StartStream string | StopStream string | ApplyMute
  | CancelOtherDevices "string option" "string option" "string option" "string list"
  | Toast string | CallLog call_log

section \<open>Helpers\<close>

definition ev_time :: "ms \<Rightarrow> call_event \<Rightarrow> ms" where
  "ev_time clock ev = (if ev_now ev = 0 then clock else ev_now ev)"

definition isStaleCallOffer :: "call_event \<Rightarrow> ms \<Rightarrow> bool" where
  "isStaleCallOffer ev now =
     (case ev_timestamp ev of
        None \<Rightarrow> False
      | Some ts \<Rightarrow> if ts \<le> 0 then False else now - ts > CALL_OFFER_MAX_AGE_MS)"

definition callHasVideo :: "call_state \<Rightarrow> bool" where
  "callHasVideo s \<longleftrightarrow> cs_localCamera s \<or> cs_localScreen s \<or> cs_remoteCamera s \<or> cs_remoteScreen s"

definition peerSupportsVideo :: "capabilities \<Rightarrow> bool" where
  "peerSupportsVideo c \<longleftrightarrow> normalizeCapabilityList (cap_video c) \<noteq> []"

definition VIDEO_LOCAL_UNSUPPORTED_HINT :: string where
  "VIDEO_LOCAL_UNSUPPORTED_HINT =
     ''Video auf diesem Ger'' @ [CHR 0xE4] @ ''t nicht verf'' @ [CHR 0xFC] @ ''gbar''"

definition VIDEO_PEER_UNSUPPORTED_HINT :: string where
  "VIDEO_PEER_UNSUPPORTED_HINT =
     ''Gegen'' @ [CHR 0xFC] @ ''ber unterst'' @ [CHR 0xFC] @ ''tzt kein Video ('' @ [CHR 0xE4] @
     ''ltere Version)''"

definition videoControlHint :: "bool \<Rightarrow> bool \<Rightarrow> string" where
  "videoControlHint localCapable remoteCapable =
     (if \<not> localCapable then VIDEO_LOCAL_UNSUPPORTED_HINT
      else if \<not> remoteCapable then VIDEO_PEER_UNSUPPORTED_HINT else [])"

definition ignore :: "call_state \<Rightarrow> call_state \<times> effect list" where
  "ignore s = (s, [])"

definition sameCall :: "call_state \<Rightarrow> call_event \<Rightarrow> bool" where
  "sameCall s ev =
     (if cs_phase s = Idle then False
      else if truthy (ev_callId ev) \<and> ev_callId ev \<noteq> cs_callId s then False
      else if truthy (ev_peerId ev) \<and> ev_peerId ev \<noteq> cs_peerId s then False
      else True)"

definition idleWith :: "effect list \<Rightarrow> call_state \<times> effect list" where
  "idleWith effs = (createIdleCallState, effs)"

definition offerCodecs :: "call_event \<Rightarrow> string list" where
  "offerCodecs ev = (case ev_codecs ev of
       Some cs \<Rightarrow> if cs \<noteq> [] then cs else default_codecs | None \<Rightarrow> default_codecs)"

definition offerCapabilities :: "call_event \<Rightarrow> capabilities" where
  "offerCapabilities ev = (case ev_capabilities ev of
       None \<Rightarrow> no_capabilities
     | Some c \<Rightarrow> (let video = normalizeCapabilityList (oc_video c)
                 in \<lparr>cap_video = video, cap_screen = (oc_screen c \<noteq> Some False \<and> video \<noteq> [])\<rparr>))"

record signal_extra =
  ex_peerId :: "string option"
  ex_callId :: "string option"
  ex_deviceKey :: "string option option"
  ex_codec :: "string option"
  ex_stream :: "string option"
  ex_reason :: "string option"

definition no_extra :: signal_extra where
  "no_extra = \<lparr>ex_peerId = None, ex_callId = None, ex_deviceKey = None, ex_codec = None,
               ex_stream = None, ex_reason = None\<rparr>"

definition keep_truthy :: "string option \<Rightarrow> string option" where
  "keep_truthy v = (if truthy v then v else None)"

text \<open>The three fields of the state that \<open>signalEffect\<close> reads.\<close>

definition signalEffect ::
  "string option \<Rightarrow> string option \<Rightarrow> string option \<Rightarrow> string \<Rightarrow> signal_extra \<Rightarrow> effect" where
  "signalEffect st_peerId st_callId st_remoteDevice op extra =
     SendSignal \<lparr>
       sg_op = op,
       sg_peerId = (case ex_peerId extra of None \<Rightarrow> st_peerId | Some p \<Rightarrow> Some p),
       sg_callId = (case ex_callId extra of None \<Rightarrow> st_callId | Some c \<Rightarrow> Some c),
       sg_deviceKey = keep_truthy (case ex_deviceKey extra of None \<Rightarrow> st_remoteDevice | Some d \<Rightarrow> d),
       sg_codec = keep_truthy (ex_codec extra),
       sg_stream = keep_truthy (ex_stream extra),
       sg_reason = keep_truthy (ex_reason extra)\<rparr>"

definition state_signal :: "call_state \<Rightarrow> string \<Rightarrow> signal_extra \<Rightarrow> effect" where
  "state_signal s = signalEffect (cs_peerId s) (cs_callId s) (cs_remoteDevice s)"

definition callLogEffect :: "ms \<Rightarrow> call_state \<Rightarrow> string \<Rightarrow> ms \<Rightarrow> effect" where
  "callLogEffect clock s outcome now =
     (let ts = (if now = 0 then clock else now);
          durationMs = (if cs_connectedAt s \<noteq> 0 then max 0 (ts - cs_connectedAt s) else 0)
      in CallLog \<lparr>cl_peerId = cs_peerId s,
                  cl_direction = (if cs_role s = Some Caller then ''out'' else ''in''),
                  cl_outcome = outcome, cl_durationMs = durationMs,
                  cl_video = (cs_hadVideo s \<or> callHasVideo s)\<rparr>)"

section \<open>Handlers\<close>

definition reduceLocalStart :: "ms \<Rightarrow> call_state \<Rightarrow> call_event \<Rightarrow> call_state \<times> effect list" where
  "reduceLocalStart clock s ev =
     (if cs_phase s \<noteq> Idle then (s, [])
      else let now = ev_time clock ev
           in (createIdleCallState\<lparr>
                 cs_phase := Outgoing,
                 cs_callId := ev_callId ev,
                 cs_peerId := ev_peerId ev,
                 cs_role := Some Caller,
                 cs_callKeyB64 := ev_callKeyB64 ev,
                 cs_codecs := (case ev_codecs ev of None \<Rightarrow> default_codecs | Some cs \<Rightarrow> cs),
                 cs_ringingAt := now,
                 cs_lastHeardAt := now,
                 cs_mediaVideo := ev_mediaVideo ev,
                 cs_capabilities := offerCapabilities ev\<rparr>,
               [SendOffer, StartRingback, ArmRingTimeout]))"

definition beginIncoming :: "ms \<Rightarrow> call_event \<Rightarrow> call_state \<times> effect list" where
  "beginIncoming clock ev =
     (let now = ev_time clock ev;
          remoteDevice = keep_truthy (ev_fromDevice ev)
      in (createIdleCallState\<lparr>
            cs_phase := Incoming,
            cs_callId := ev_callId ev,
            cs_peerId := ev_peerId ev,
            cs_role := Some Callee,
            cs_callKeyB64 := ev_callKeyB64 ev,
            cs_codecs := offerCodecs ev,
            cs_ringingAt := now,
            cs_lastHeardAt := now,
            cs_mediaVideo := ev_mediaVideo ev,
            cs_remoteCapabilities := offerCapabilities ev,
            cs_remoteDevice := remoteDevice\<rparr>,
          [signalEffect (ev_peerId ev) (ev_callId ev) remoteDevice ''ringing'' no_extra,
           ArmRingTimeout, NotifyIncoming, StartRingtone]))"

definition js_string :: "string option \<Rightarrow> string" where
  "js_string v = (case v of None \<Rightarrow> [] | Some s \<Rightarrow> s)"

definition reduceGlare :: "ms \<Rightarrow> call_state \<Rightarrow> call_event \<Rightarrow> call_state \<times> effect list" where
  "reduceGlare clock s ev =
     (let incomingId = js_string (ev_callId ev);
          outgoingId = js_string (cs_callId s)
      in if incomingId = [] \<or> outgoingId = [] \<or> incomingId = outgoingId then ignore s
         else if outgoingId < incomingId then ignore s
         else let incoming = beginIncoming clock ev
              in (fst incoming,
                  [state_signal s ''cancel'' (no_extra\<lparr>ex_peerId := cs_peerId s, ex_callId := cs_callId s\<rparr>),
                   StopRingtone] @ snd incoming))"

definition reduceRemoteOffer :: "ms \<Rightarrow> call_state \<Rightarrow> call_event \<Rightarrow> call_state \<times> effect list" where
  "reduceRemoteOffer clock s ev =
     (if ev_blocked ev then ignore s
      else if isStaleCallOffer ev (ev_time clock ev) then ignore s
      else if cs_phase s = Outgoing \<and> ev_peerId ev = cs_peerId s then reduceGlare clock s ev
      else if cs_phase s \<noteq> Idle then
        (s, [state_signal s ''busy''
               (no_extra\<lparr>ex_peerId := ev_peerId ev, ex_callId := ev_callId ev,
                         ex_deviceKey := Some (keep_truthy (ev_fromDevice ev))\<rparr>)])
      else beginIncoming clock ev)"

definition reduceRemoteRinging :: "ms \<Rightarrow> call_state \<Rightarrow> call_event \<Rightarrow> call_state \<times> effect list" where
  "reduceRemoteRinging clock s ev =
     (if \<not> sameCall s ev \<or> cs_phase s \<noteq> Outgoing then ignore s
      else (s\<lparr>cs_lastHeardAt := ev_time clock ev,
              cs_peerRinging := True,
              cs_ringingDevices := uniqueDevices (map Some (cs_ringingDevices s) @ [ev_fromDevice ev]),
              cs_remoteCapabilities :=
                (if ev_capabilities ev \<noteq> None then offerCapabilities ev else cs_remoteCapabilities s)\<rparr>,
            []))"

definition plain_caps :: "offered_caps \<Rightarrow> capabilities" where
  "plain_caps c = \<lparr>cap_video = oc_video c, cap_screen = (oc_screen c = Some True)\<rparr>"

definition reduceLocalAccept :: "ms \<Rightarrow> call_state \<Rightarrow> call_event \<Rightarrow> call_state \<times> effect list" where
  "reduceLocalAccept clock s ev =
     (if cs_phase s \<noteq> Incoming then ignore s
      else let now = ev_time clock ev;
               codec = js_or (ev_codec ev) (Some ''pcm16'');
               camera = (ev_camera ev \<and> peerSupportsVideo (cs_remoteCapabilities s));
               videoCodec = pickVideoCodec
                 (case ev_localVideoCodecs ev of None \<Rightarrow> cap_video (cs_capabilities s) | Some l \<Rightarrow> l)
                 (cap_video (cs_remoteCapabilities s))
           in (s\<lparr>cs_phase := Active,
                 cs_codec := codec,
                 cs_connectedAt := now,
                 cs_lastHeardAt := now,
                 cs_muted := False,
                 cs_localCamera := camera,
                 cs_hadVideo := (camera \<or> cs_mediaVideo s),
                 cs_videoCodec := videoCodec,
                 cs_capabilities := (case ev_capabilities ev of
                   None \<Rightarrow> cs_capabilities s | Some c \<Rightarrow> plain_caps c)\<rparr>,
               [StopRingtone, state_signal s ''accept'' (no_extra\<lparr>ex_codec := codec\<rparr>),
                StartMedia, ArmWatchdog, StartPing] @ (if camera then [StartStream ''camera''] else [])))"

definition reduceRemoteAccept :: "ms \<Rightarrow> call_state \<Rightarrow> call_event \<Rightarrow> call_state \<times> effect list" where
  "reduceRemoteAccept clock s ev =
     (if \<not> sameCall s ev \<or> cs_phase s \<noteq> Outgoing then ignore s
      else let now = ev_time clock ev;
               codec = (if ev_codec ev = Some ''opus'' \<or> ev_codec ev = Some ''pcm16'' then ev_codec ev
                        else Some ''pcm16'');
               remoteDevice = js_or (ev_fromDevice ev) (cs_remoteDevice s);
               remoteCapabilities = (if ev_capabilities ev \<noteq> None then offerCapabilities ev
                                     else cs_remoteCapabilities s);
               videoCodec = pickVideoCodec (cap_video (cs_capabilities s)) (cap_video remoteCapabilities);
               startCamera = (cs_mediaVideo s \<and> peerSupportsVideo remoteCapabilities)
           in (s\<lparr>cs_phase := Active,
                 cs_codec := codec,
                 cs_connectedAt := now,
                 cs_lastHeardAt := now,
                 cs_remoteDevice := remoteDevice,
                 cs_remoteCapabilities := remoteCapabilities,
                 cs_videoCodec := videoCodec,
                 cs_localCamera := startCamera,
                 cs_hadVideo := startCamera\<rparr>,
               [StopRingtone, StartMedia, ArmWatchdog, StartPing,
                CancelOtherDevices (cs_peerId s) (cs_callId s) remoteDevice (cs_ringingDevices s)]
               @ (if startCamera then [StartStream ''camera''] else [])))"

definition reduceLocalReject :: "ms \<Rightarrow> call_state \<Rightarrow> call_event \<Rightarrow> call_state \<times> effect list" where
  "reduceLocalReject clock s ev =
     (if cs_phase s \<noteq> Incoming then ignore s
      else idleWith [StopRingtone, state_signal s ''reject'' no_extra, StopMedia, ClearTimers,
                     callLogEffect clock s ''rejected'' (ev_now ev)])"

definition reduceLocalCancel :: "ms \<Rightarrow> call_state \<Rightarrow> call_event \<Rightarrow> call_state \<times> effect list" where
  "reduceLocalCancel clock s ev =
     (if cs_phase s \<noteq> Outgoing then ignore s
      else idleWith [state_signal s ''cancel'' no_extra, StopRingtone, ClearTimers,
                     callLogEffect clock s ''failed'' (ev_now ev)])"

definition reduceRemoteCancel :: "ms \<Rightarrow> call_state \<Rightarrow> call_event \<Rightarrow> call_state \<times> effect list" where
  "reduceRemoteCancel clock s ev =
     (if \<not> sameCall s ev then ignore s
      else if isAnsweredElsewhere (ev_reason ev) then
        (if cs_phase s = Incoming then idleWith [StopRingtone, ClearTimers] else ignore s)
      else if cs_phase s = Incoming then
        idleWith [StopRingtone, ClearTimers, callLogEffect clock s ''missed'' (ev_now ev)]
      else if cs_phase s = Outgoing then
        idleWith [ClearTimers, callLogEffect clock s ''failed'' (ev_now ev)]
      else if cs_phase s = Active then
        idleWith [StopMedia, ClearTimers, callLogEffect clock s ''completed'' (ev_now ev)]
      else ignore s)"

definition reduceLocalEnd :: "ms \<Rightarrow> call_state \<Rightarrow> call_event \<Rightarrow> call_state \<times> effect list" where
  "reduceLocalEnd clock s ev =
     (if cs_phase s \<noteq> Active then ignore s
      else idleWith [state_signal s ''end'' no_extra, StopMedia, ClearTimers,
                     callLogEffect clock s ''completed'' (ev_now ev)])"

definition reduceRemoteEnd :: "ms \<Rightarrow> call_state \<Rightarrow> call_event \<Rightarrow> call_state \<times> effect list" where
  "reduceRemoteEnd clock s ev =
     (if \<not> sameCall s ev then ignore s
      else if cs_phase s = Active then
        idleWith [StopMedia, ClearTimers, callLogEffect clock s ''completed'' (ev_now ev)]
      else if cs_phase s = Incoming then
        idleWith [StopRingtone, ClearTimers, callLogEffect clock s ''missed'' (ev_now ev)]
      else if cs_phase s = Outgoing then
        idleWith [ClearTimers, callLogEffect clock s ''failed'' (ev_now ev)]
      else ignore s)"

definition reduceRemoteBusy :: "ms \<Rightarrow> call_state \<Rightarrow> call_event \<Rightarrow> call_state \<times> effect list" where
  "reduceRemoteBusy clock s ev =
     (if \<not> sameCall s ev \<or> cs_phase s \<noteq> Outgoing then ignore s
      else let r = applyRemoteBusy (cs_ringingDevices s) (cs_busyDevices s) (ev_fromDevice ev)
           in if \<not> br_endBusy r then
                (s\<lparr>cs_busyDevices := br_busy r, cs_ringingDevices := br_ringing r,
                   cs_lastHeardAt := ev_time clock ev\<rparr>, [])
              else idleWith [ClearTimers, callLogEffect clock s ''busy'' (ev_now ev)])"

definition reduceOfferFailed :: "ms \<Rightarrow> call_state \<Rightarrow> call_event \<Rightarrow> call_state \<times> effect list" where
  "reduceOfferFailed clock s ev =
     (if cs_phase s \<noteq> Outgoing \<or> \<not> sameCall s ev then ignore s
      else idleWith [ClearTimers, Toast ''Nicht erreichbar'',
                     callLogEffect clock s ''failed'' (ev_now ev)])"

definition reduceHangup :: "ms \<Rightarrow> call_state \<Rightarrow> call_event \<Rightarrow> string \<Rightarrow> call_state \<times> effect list" where
  "reduceHangup clock s ev outcome =
     (if \<not> sameCall s ev \<or> cs_phase s \<noteq> Outgoing then ignore s
      else idleWith [ClearTimers, callLogEffect clock s outcome (ev_now ev)])"

definition reduceRingTimeout :: "ms \<Rightarrow> call_state \<Rightarrow> call_event \<Rightarrow> call_state \<times> effect list" where
  "reduceRingTimeout clock s ev =
     (if cs_phase s = Outgoing \<and> sameCall s ev then
        idleWith [state_signal s ''cancel'' no_extra, ClearTimers,
                  callLogEffect clock s ''failed'' (ev_now ev)]
      else if cs_phase s = Incoming \<and> sameCall s ev then
        idleWith [StopRingtone, ClearTimers, callLogEffect clock s ''missed'' (ev_now ev)]
      else ignore s)"

definition reduceConnectionLost :: "ms \<Rightarrow> call_state \<Rightarrow> call_event \<Rightarrow> call_state \<times> effect list" where
  "reduceConnectionLost clock s ev =
     (if cs_phase s \<noteq> Active \<or> \<not> sameCall s ev then ignore s
      else idleWith [state_signal s ''end'' no_extra, StopMedia, ClearTimers,
                     Toast ''Verbindung verloren'', callLogEffect clock s ''failed'' (ev_now ev)])"

definition reducePong :: "ms \<Rightarrow> call_state \<Rightarrow> call_event \<Rightarrow> call_state \<times> effect list" where
  "reducePong clock s ev =
     (if \<not> sameCall s ev \<or> cs_phase s \<noteq> Active then ignore s
      else let now = ev_time clock ev
           in (s\<lparr>cs_rttMs := (case ev_t ev of None \<Rightarrow> cs_rttMs s | Some sentAt \<Rightarrow> Some (max 0 (now - sentAt))),
                 cs_lastHeardAt := now\<rparr>, []))"

datatype media_stream = Camera | Screen

definition stream_name :: "media_stream \<Rightarrow> string" where
  "stream_name m = (case m of Camera \<Rightarrow> ''camera'' | Screen \<Rightarrow> ''screen'')"

text \<open>\<open>state[flag]\<close> and \<open>{...state, [flag]: on}\<close> for the four media flags.\<close>

definition local_flag :: "media_stream \<Rightarrow> call_state \<Rightarrow> bool" where
  "local_flag m s = (case m of Camera \<Rightarrow> cs_localCamera s | Screen \<Rightarrow> cs_localScreen s)"

definition set_local_flag :: "media_stream \<Rightarrow> bool \<Rightarrow> call_state \<Rightarrow> call_state" where
  "set_local_flag m on s =
     (case m of Camera \<Rightarrow> s\<lparr>cs_localCamera := on\<rparr> | Screen \<Rightarrow> s\<lparr>cs_localScreen := on\<rparr>)"

definition remote_flag :: "media_stream \<Rightarrow> call_state \<Rightarrow> bool" where
  "remote_flag m s = (case m of Camera \<Rightarrow> cs_remoteCamera s | Screen \<Rightarrow> cs_remoteScreen s)"

definition set_remote_flag :: "media_stream \<Rightarrow> bool \<Rightarrow> call_state \<Rightarrow> call_state" where
  "set_remote_flag m on s =
     (case m of Camera \<Rightarrow> s\<lparr>cs_remoteCamera := on\<rparr> | Screen \<Rightarrow> s\<lparr>cs_remoteScreen := on\<rparr>)"

definition reduceLocalMediaFlag ::
  "call_state \<Rightarrow> call_event \<Rightarrow> media_stream \<Rightarrow> call_state \<times> effect list" where
  "reduceLocalMediaFlag s ev m =
     (if cs_phase s \<noteq> Active then ignore s
      else let on = (ev_on ev \<noteq> Some False)
           in if on \<and> \<not> peerSupportsVideo (cs_remoteCapabilities s) then ignore s
              else if local_flag m s = on then ignore s
              else let op = (if m = Screen then (if on then ''screen-on'' else ''screen-off'')
                             else (if on then ''video-on'' else ''video-off''))
                   in ((set_local_flag m on s)\<lparr>cs_hadVideo := (cs_hadVideo s \<or> on)\<rparr>,
                       [state_signal s op (no_extra\<lparr>ex_stream := Some (stream_name m)\<rparr>),
                        if on then StartStream (stream_name m) else StopStream (stream_name m)]))"

definition reduceRemoteMediaFlag ::
  "ms \<Rightarrow> call_state \<Rightarrow> call_event \<Rightarrow> media_stream \<Rightarrow> call_state \<times> effect list" where
  "reduceRemoteMediaFlag clock s ev m =
     (if \<not> sameCall s ev \<or> cs_phase s \<noteq> Active then ignore s
      else let on = (ev_on ev \<noteq> Some False)
           in if remote_flag m s = on then ignore s
              else ((set_remote_flag m on s)\<lparr>cs_hadVideo := (cs_hadVideo s \<or> on),
                                             cs_lastHeardAt := ev_time clock ev\<rparr>, []))"

definition reduceLocalKeyframe :: "call_state \<Rightarrow> call_event \<Rightarrow> call_state \<times> effect list" where
  "reduceLocalKeyframe s ev =
     (if cs_phase s \<noteq> Active then ignore s
      else let stream = (if ev_stream ev = Some ''screen'' then ''screen'' else ''camera'')
           in (s, [state_signal s ''keyframe'' (no_extra\<lparr>ex_stream := Some stream\<rparr>)]))"

definition reduceCall :: "ms \<Rightarrow> call_state \<Rightarrow> call_event \<Rightarrow> call_state \<times> effect list" where
  "reduceCall clock s ev = (case ev_type ev of
       LocalStart \<Rightarrow> reduceLocalStart clock s ev
     | RemoteOffer \<Rightarrow> reduceRemoteOffer clock s ev
     | RemoteRinging \<Rightarrow> reduceRemoteRinging clock s ev
     | LocalAccept \<Rightarrow> reduceLocalAccept clock s ev
     | RemoteAccept \<Rightarrow> reduceRemoteAccept clock s ev
     | LocalReject \<Rightarrow> reduceLocalReject clock s ev
     | RemoteReject \<Rightarrow> reduceHangup clock s ev ''rejected''
     | LocalCancel \<Rightarrow> reduceLocalCancel clock s ev
     | RemoteCancel \<Rightarrow> reduceRemoteCancel clock s ev
     | LocalEnd \<Rightarrow> reduceLocalEnd clock s ev
     | RemoteEnd \<Rightarrow> reduceRemoteEnd clock s ev
     | RemoteBusy \<Rightarrow> reduceRemoteBusy clock s ev
     | OfferFailed \<Rightarrow> reduceOfferFailed clock s ev
     | RingTimeout \<Rightarrow> reduceRingTimeout clock s ev
     | ConnectionLost \<Rightarrow> reduceConnectionLost clock s ev
     | ToggleMute \<Rightarrow> (if cs_phase s = Active then (s\<lparr>cs_muted := \<not> cs_muted s\<rparr>, [ApplyMute]) else ignore s)
     | LocalCamera \<Rightarrow> reduceLocalMediaFlag s ev Camera
     | LocalScreen \<Rightarrow> reduceLocalMediaFlag s ev Screen
     | RemoteCamera \<Rightarrow> reduceRemoteMediaFlag clock s ev Camera
     | RemoteScreen \<Rightarrow> reduceRemoteMediaFlag clock s ev Screen
     | LocalKeyframe \<Rightarrow> reduceLocalKeyframe s ev
     | Pong \<Rightarrow> reducePong clock s ev
     | Heard \<Rightarrow> (if sameCall s ev then (s\<lparr>cs_lastHeardAt := ev_time clock ev\<rparr>, []) else ignore s)
     | OtherEvent \<Rightarrow> ignore s)"

section \<open>Automation\<close>

lemmas call_handler_defs [call_defs] =
  reduceLocalStart_def reduceRemoteOffer_def reduceGlare_def beginIncoming_def
  reduceRemoteRinging_def reduceLocalAccept_def reduceRemoteAccept_def reduceLocalReject_def
  reduceLocalCancel_def reduceRemoteCancel_def reduceLocalEnd_def reduceRemoteEnd_def
  reduceRemoteBusy_def reduceOfferFailed_def reduceHangup_def reduceRingTimeout_def
  reduceConnectionLost_def reducePong_def reduceLocalMediaFlag_def reduceRemoteMediaFlag_def
  reduceLocalKeyframe_def ignore_def idleWith_def

lemma idle_fields [simp]:
  "cs_phase createIdleCallState = Idle" "cs_callId createIdleCallState = None"
  "cs_peerId createIdleCallState = None" "cs_role createIdleCallState = None"
  "cs_muted createIdleCallState = False" "cs_codec createIdleCallState = None"
  "cs_connectedAt createIdleCallState = 0" "cs_remoteDevice createIdleCallState = None"
  "cs_ringingDevices createIdleCallState = []" "cs_busyDevices createIdleCallState = []"
  "cs_remoteCapabilities createIdleCallState = no_capabilities"
  "cs_videoCodec createIdleCallState = None" "cs_localCamera createIdleCallState = False"
  "cs_localScreen createIdleCallState = False" "cs_remoteCamera createIdleCallState = False"
  "cs_remoteScreen createIdleCallState = False" "cs_hadVideo createIdleCallState = False"
  by (simp_all add: createIdleCallState_def)

lemma local_flag_fields [simp]:
  "cs_phase (set_local_flag m b s) = cs_phase s" "cs_role (set_local_flag m b s) = cs_role s"
  "cs_codec (set_local_flag m b s) = cs_codec s" "cs_hadVideo (set_local_flag m b s) = cs_hadVideo s"
  "cs_callId (set_local_flag m b s) = cs_callId s" "cs_peerId (set_local_flag m b s) = cs_peerId s"
  "cs_remoteCapabilities (set_local_flag m b s) = cs_remoteCapabilities s"
  "cs_ringingDevices (set_local_flag m b s) = cs_ringingDevices s"
  "cs_busyDevices (set_local_flag m b s) = cs_busyDevices s"
  "cs_remoteCamera (set_local_flag m b s) = cs_remoteCamera s"
  "cs_remoteScreen (set_local_flag m b s) = cs_remoteScreen s"
  "cs_callKeyB64 (set_local_flag m b s) = cs_callKeyB64 s"
  by (simp_all add: set_local_flag_def split: media_stream.splits)

lemma remote_flag_fields [simp]:
  "cs_phase (set_remote_flag m b s) = cs_phase s" "cs_role (set_remote_flag m b s) = cs_role s"
  "cs_codec (set_remote_flag m b s) = cs_codec s" "cs_hadVideo (set_remote_flag m b s) = cs_hadVideo s"
  "cs_callId (set_remote_flag m b s) = cs_callId s" "cs_peerId (set_remote_flag m b s) = cs_peerId s"
  "cs_remoteCapabilities (set_remote_flag m b s) = cs_remoteCapabilities s"
  "cs_ringingDevices (set_remote_flag m b s) = cs_ringingDevices s"
  "cs_busyDevices (set_remote_flag m b s) = cs_busyDevices s"
  "cs_localCamera (set_remote_flag m b s) = cs_localCamera s"
  "cs_localScreen (set_remote_flag m b s) = cs_localScreen s"
  "cs_callKeyB64 (set_remote_flag m b s) = cs_callKeyB64 s"
  by (simp_all add: set_remote_flag_def split: media_stream.splits)

lemma sameCall_not_idle: "sameCall s ev \<Longrightarrow> cs_phase s \<noteq> Idle"
  by (simp add: sameCall_def split: if_splits)

lemma keep_truthy_simps [simp]:
  "keep_truthy None = None" "keep_truthy (Some s) = (if s = [] then None else Some s)"
  by (simp_all add: keep_truthy_def)

section \<open>The invariant of the machine\<close>

text \<open>
  Before a call is active nothing of the media is on, no codec is chosen and the connection time is
  unset; an idle state is the initial one, so nothing of an earlier call survives in it.
\<close>

definition pre_call :: "call_state \<Rightarrow> bool" where
  "pre_call s \<longleftrightarrow> \<not> cs_muted s \<and> cs_connectedAt s = 0 \<and> cs_codec s = None \<and> cs_videoCodec s = None \<and>
     \<not> callHasVideo s \<and> \<not> cs_hadVideo s"

definition call_inv :: "call_state \<Rightarrow> bool" where
  "call_inv s \<longleftrightarrow>
     device_list (cs_ringingDevices s) \<and> device_list (cs_busyDevices s) \<and>
     capability_list (cap_video (cs_remoteCapabilities s)) \<and>
     (case cs_phase s of
        Idle \<Rightarrow> s = createIdleCallState
      | Outgoing \<Rightarrow> cs_role s = Some Caller \<and> pre_call s \<and> cs_remoteDevice s = None
      | Incoming \<Rightarrow> cs_role s = Some Callee \<and> pre_call s
      | Active \<Rightarrow> cs_role s \<noteq> None \<and> truthy (cs_codec s) \<and>
          (cs_localCamera s \<or> cs_localScreen s \<longrightarrow> peerSupportsVideo (cs_remoteCapabilities s)) \<and>
          (callHasVideo s \<longrightarrow> cs_hadVideo s))"

lemma capability_list_offer [simp]: "capability_list (cap_video (offerCapabilities ev))"
  by (simp add: offerCapabilities_def no_capabilities_def capability_list_def Let_def split: option.splits)
     (metis capability_list_def capability_list_normalize codec_names(1) codec_names(2))

lemma call_inv_idle [simp]: "call_inv createIdleCallState"
  by (simp add: call_inv_def no_capabilities_def capability_list_def)

lemma call_inv_beginIncoming: "call_inv (fst (beginIncoming clock ev))"
  by (simp add: beginIncoming_def Let_def call_inv_def pre_call_def callHasVideo_def)

lemma call_inv_reduceGlare: "call_inv s \<Longrightarrow> call_inv (fst (reduceGlare clock s ev))"
  by (simp add: reduceGlare_def Let_def ignore_def call_inv_beginIncoming)

lemma call_inv_reduceRemoteOffer: "call_inv s \<Longrightarrow> call_inv (fst (reduceRemoteOffer clock s ev))"
  by (simp add: reduceRemoteOffer_def ignore_def call_inv_reduceGlare call_inv_beginIncoming)

lemma call_inv_reduceLocalStart: "call_inv s \<Longrightarrow> call_inv (fst (reduceLocalStart clock s ev))"
  by (simp add: reduceLocalStart_def Let_def)
     (simp add: call_inv_def pre_call_def callHasVideo_def no_capabilities_def capability_list_def)

lemma call_inv_ringing_busy:
  "call_inv s \<Longrightarrow> call_inv (fst (reduceRemoteRinging clock s ev))"
  "call_inv s \<Longrightarrow> call_inv (fst (reduceRemoteBusy clock s ev))"
  by (simp_all add: reduceRemoteRinging_def reduceRemoteBusy_def ignore_def idleWith_def Let_def)
     (auto simp: call_inv_def pre_call_def callHasVideo_def applyRemoteBusy_def Let_def)

lemma call_inv_accept:
  "call_inv s \<Longrightarrow> call_inv (fst (reduceLocalAccept clock s ev))"
  "call_inv s \<Longrightarrow> call_inv (fst (reduceRemoteAccept clock s ev))"
  by (simp_all add: reduceLocalAccept_def reduceRemoteAccept_def ignore_def Let_def)
     (auto simp: call_inv_def pre_call_def callHasVideo_def js_or_def)

lemma call_inv_media_flag:
  "call_inv s \<Longrightarrow> call_inv (fst (reduceLocalMediaFlag s ev m))"
  "call_inv s \<Longrightarrow> call_inv (fst (reduceRemoteMediaFlag clock s ev m))"
  by (simp_all add: reduceLocalMediaFlag_def reduceRemoteMediaFlag_def ignore_def Let_def)
     (auto simp: call_inv_def callHasVideo_def set_local_flag_def set_remote_flag_def
        local_flag_def remote_flag_def split: media_stream.splits)

lemma call_inv_hangups:
  "call_inv s \<Longrightarrow> call_inv (fst (reduceLocalReject clock s ev))"
  "call_inv s \<Longrightarrow> call_inv (fst (reduceLocalCancel clock s ev))"
  "call_inv s \<Longrightarrow> call_inv (fst (reduceRemoteCancel clock s ev))"
  "call_inv s \<Longrightarrow> call_inv (fst (reduceLocalEnd clock s ev))"
  "call_inv s \<Longrightarrow> call_inv (fst (reduceRemoteEnd clock s ev))"
  "call_inv s \<Longrightarrow> call_inv (fst (reduceOfferFailed clock s ev))"
  "call_inv s \<Longrightarrow> call_inv (fst (reduceHangup clock s ev outcome))"
  "call_inv s \<Longrightarrow> call_inv (fst (reduceRingTimeout clock s ev))"
  "call_inv s \<Longrightarrow> call_inv (fst (reduceConnectionLost clock s ev))"
  by (simp_all add: call_defs)

lemma call_inv_heard:
  assumes "call_inv s" "cs_phase s \<noteq> Idle"
  shows "call_inv (s\<lparr>cs_lastHeardAt := t\<rparr>)" "call_inv (s\<lparr>cs_rttMs := r, cs_lastHeardAt := t\<rparr>)"
  using assms by (cases "cs_phase s"; simp add: call_inv_def pre_call_def callHasVideo_def)+

lemma call_inv_small_steps:
  "call_inv s \<Longrightarrow> call_inv (fst (reducePong clock s ev))"
  "call_inv s \<Longrightarrow> call_inv (fst (reduceLocalKeyframe s ev))"
  "call_inv s \<Longrightarrow> sameCall s ev \<Longrightarrow> call_inv (s\<lparr>cs_lastHeardAt := t\<rparr>)"
  "call_inv s \<Longrightarrow> cs_phase s = Active \<Longrightarrow> call_inv (s\<lparr>cs_muted := b\<rparr>)"
  by (simp_all add: reducePong_def reduceLocalKeyframe_def ignore_def Let_def call_inv_heard sameCall_not_idle)
     (simp add: call_inv_def callHasVideo_def)

lemmas call_inv_steps = call_inv_reduceRemoteOffer call_inv_reduceLocalStart call_inv_ringing_busy
  call_inv_accept call_inv_media_flag call_inv_hangups call_inv_small_steps

lemma call_inv_step: "call_inv s \<Longrightarrow> call_inv (fst (reduceCall clock s ev))"
  by (cases "ev_type ev") (simp_all add: reduceCall_def call_inv_steps ignore_def)

section \<open>Reachable states and transitions\<close>

inductive call_reachable :: "call_state \<Rightarrow> bool" where
  reach_init: "call_reachable createIdleCallState"
| reach_step: "call_reachable s \<Longrightarrow> call_reachable (fst (reduceCall clock s ev))"

lemma call_reachable_inv: "call_reachable s \<Longrightarrow> call_inv s"
  by (induction rule: call_reachable.induct) (simp_all add: call_inv_step)

text \<open>The transition table of the machine: every change of phase, with the event that makes it.\<close>

definition call_transitions :: "(call_phase \<times> event_type \<times> call_phase) set" where
  "call_transitions =
     {(Idle, LocalStart, Outgoing), (Idle, RemoteOffer, Incoming), (Outgoing, RemoteOffer, Incoming),
      (Incoming, LocalAccept, Active), (Outgoing, RemoteAccept, Active)} \<union>
     {Outgoing} \<times> {RemoteReject, LocalCancel, RemoteCancel, RemoteEnd, RemoteBusy, OfferFailed, RingTimeout} \<times> {Idle} \<union>
     {Incoming} \<times> {LocalReject, RemoteCancel, RemoteEnd, RingTimeout} \<times> {Idle} \<union>
     {Active} \<times> {RemoteCancel, LocalEnd, RemoteEnd, ConnectionLost} \<times> {Idle}"

lemma phase_step_table:
  "cs_phase (fst (reduceCall clock s ev)) \<noteq> cs_phase s \<Longrightarrow>
     (cs_phase s, ev_type ev, cs_phase (fst (reduceCall clock s ev))) \<in> call_transitions"
  by (cases "ev_type ev"; cases "cs_phase s")
     (simp_all add: reduceCall_def call_defs call_transitions_def Let_def split: if_splits)

definition call_logs :: "effect list \<Rightarrow> call_log list" where
  "call_logs effs = concat (map (\<lambda>e. case e of CallLog l \<Rightarrow> [l] | _ \<Rightarrow> []) effs)"

definition signals :: "effect list \<Rightarrow> signal list" where
  "signals effs = concat (map (\<lambda>e. case e of SendSignal g \<Rightarrow> [g] | _ \<Rightarrow> []) effs)"

lemma call_logs_simps [simp]:
  "call_logs [] = []" "call_logs (CallLog l # es) = l # call_logs es"
  "call_logs (SendSignal g # es) = call_logs es" "call_logs (StopRingtone # es) = call_logs es"
  "call_logs (StopMedia # es) = call_logs es" "call_logs (ClearTimers # es) = call_logs es"
  "call_logs (Toast t # es) = call_logs es"
  by (simp_all add: call_logs_def)

lemma signals_simps [simp]:
  "signals [] = []" "signals (CallLog l # es) = signals es"
  "signals (SendSignal g # es) = g # signals es" "signals (StopRingtone # es) = signals es"
  "signals (StopMedia # es) = signals es" "signals (ClearTimers # es) = signals es"
  "signals (Toast t # es) = signals es"
  by (simp_all add: signals_def)

text \<open>What the log of an ended call says, apart from its outcome.\<close>

definition log_of :: "ms \<Rightarrow> call_state \<Rightarrow> string \<Rightarrow> ms \<Rightarrow> call_log" where
  "log_of clock s outcome now =
     \<lparr>cl_peerId = cs_peerId s, cl_direction = (if cs_role s = Some Caller then ''out'' else ''in''),
      cl_outcome = outcome,
      cl_durationMs = (if cs_connectedAt s \<noteq> 0 then max 0 ((if now = 0 then clock else now) - cs_connectedAt s) else 0),
      cl_video = (cs_hadVideo s \<or> callHasVideo s)\<rparr>"

lemma callLogEffect_log_of: "callLogEffect clock s outcome now = CallLog (log_of clock s outcome now)"
  by (simp add: callLogEffect_def log_of_def Let_def)

lemma state_signal_plain:
  "state_signal s op no_extra = SendSignal \<lparr>sg_op = op, sg_peerId = cs_peerId s, sg_callId = cs_callId s,
     sg_deviceKey = keep_truthy (cs_remoteDevice s), sg_codec = None, sg_stream = None, sg_reason = None\<rparr>"
  by (simp add: state_signal_def signalEffect_def no_extra_def)

text \<open>Which outcome each way of ending a call is logged with, for the phase it ends in.\<close>

definition end_outcome :: "call_phase \<Rightarrow> event_type \<Rightarrow> string" where
  "end_outcome p t =
     (if t = RemoteReject \<or> t = LocalReject then ''rejected''
      else if t = RemoteBusy then ''busy''
      else if p = Incoming then ''missed''
      else if p = Active \<and> t \<noteq> ConnectionLost then ''completed''
      else ''failed'')"

lemma teardown_step:
  assumes "cs_phase s \<noteq> Idle" "cs_phase (fst (reduceCall clock s ev)) = Idle"
  defines "effs \<equiv> snd (reduceCall clock s ev)"
  shows "fst (reduceCall clock s ev) = createIdleCallState"
    and "ClearTimers \<in> set effs"
    and "cs_phase s = Active \<Longrightarrow> StopMedia \<in> set effs"
    and "cs_phase s = Incoming \<Longrightarrow> StopRingtone \<in> set effs"
    and "call_logs effs = (if ev_type ev = RemoteCancel \<and> isAnsweredElsewhere (ev_reason ev) then []
           else [log_of clock s (end_outcome (cs_phase s) (ev_type ev)) (ev_now ev)])"
    and "g \<in> set (signals effs) \<Longrightarrow> sg_peerId g = cs_peerId s \<and> sg_callId g = cs_callId s"
  using assms(1,2) unfolding effs_def
  by (cases "ev_type ev"; cases "cs_phase s";
      simp add: reduceCall_def call_defs Let_def callLogEffect_log_of state_signal_plain end_outcome_def
        split: if_splits)+

text \<open>Events that carry a message of the other side, or a timer of a particular call.\<close>

definition bound_events :: "event_type set" where
  "bound_events = {RemoteRinging, RemoteAccept, RemoteReject, RemoteCancel, RemoteEnd, RemoteBusy,
     OfferFailed, RingTimeout, ConnectionLost, RemoteCamera, RemoteScreen, Pong, Heard}"

lemma foreign_event_ignored:
  "\<not> sameCall s ev \<Longrightarrow> ev_type ev \<in> bound_events \<Longrightarrow> reduceCall clock s ev = (s, [])"
  by (auto simp: bound_events_def reduceCall_def call_defs)

section \<open>Properties\<close>

text \<open>An event with every optional field missing, and sample states for the witnesses.\<close>

definition blank_event :: "event_type \<Rightarrow> call_event" where
  "blank_event t = \<lparr>ev_type = t, ev_callId = None, ev_peerId = None, ev_now = 0, ev_fromDevice = None,
     ev_callKeyB64 = [], ev_codecs = None, ev_codec = None, ev_timestamp = None, ev_blocked = False,
     ev_mediaVideo = False, ev_capabilities = None, ev_camera = False, ev_localVideoCodecs = None,
     ev_on = None, ev_reason = None, ev_t = None, ev_stream = None\<rparr>"

definition call_event_to :: "event_type \<Rightarrow> string \<Rightarrow> string \<Rightarrow> call_event" where
  "call_event_to t peer call = (blank_event t)\<lparr>ev_peerId := Some peer, ev_callId := Some call\<rparr>"

definition sample_outgoing :: call_state where
  "sample_outgoing = fst (reduceCall 5 createIdleCallState (call_event_to LocalStart ''bob'' ''b''))"

definition sample_incoming :: call_state where
  "sample_incoming = fst (reduceCall 5 createIdleCallState (call_event_to RemoteOffer ''bob'' ''b''))"

definition sample_active :: call_state where
  "sample_active = fst (reduceCall 9 sample_incoming (blank_event LocalAccept))"

lemma sample_reachable:
  "call_reachable sample_outgoing" "call_reachable sample_incoming" "call_reachable sample_active"
  unfolding sample_outgoing_def sample_incoming_def sample_active_def
  by (intro call_reachable.intros)+

text \<open>
  C1. Every state the reducer can reach, whatever the events and in whatever order, satisfies the
  machine's invariant: an idle state is the initial one, before a call is active no media runs and
  nothing is logged as connected, an active call has a role and a codec, a local stream runs only
  towards a peer that supports video, and any running stream is remembered in \<open>hadVideo\<close>.
\<close>

theorem call_machine_invariant: "call_reachable s \<Longrightarrow> call_inv s"
  by (rule call_reachable_inv)

theorem call_machine_invariant_witness: "cs_phase sample_active = Active \<and> call_inv sample_active"
  using call_machine_invariant [OF sample_reachable(3)]
  by (simp add: sample_active_def sample_incoming_def reduceCall_def call_defs blank_event_def
      call_event_to_def Let_def isStaleCallOffer_def)

lemmas sample_simps = sample_active_def sample_incoming_def sample_outgoing_def reduceCall_def
  call_handler_defs blank_event_def call_event_to_def Let_def isStaleCallOffer_def sameCall_def
  isAnsweredElsewhere_def applyRemoteBusy_def js_string_def

lemma transitions_occur:
  assumes "(p, t, q) \<in> call_transitions"
  shows "\<exists>s clock ev. call_reachable s \<and> cs_phase s = p \<and> ev_type ev = t \<and>
           cs_phase (fst (reduceCall clock s ev)) = q \<and> p \<noteq> q"
proof -
  define w where "w = (\<lambda>s ev. call_reachable s \<and> cs_phase s = p \<and> ev_type ev = t \<and>
      cs_phase (fst (reduceCall 5 s ev)) = q \<and> p \<noteq> q)"
  have "w createIdleCallState (blank_event t) \<or> w sample_outgoing (blank_event t) \<or>
        w sample_outgoing (call_event_to RemoteOffer ''bob'' ''a'') \<or>
        w sample_incoming (blank_event t) \<or> w sample_active (blank_event t)"
    using assms unfolding call_transitions_def
    by (elim UnE insertE SigmaE; simp add: w_def sample_reachable call_reachable.reach_init;
        simp add: sample_simps less_list_code)
  then show ?thesis unfolding w_def by metis
qed

text \<open>
  C2. The phases change exactly along the transition table: a triple is in the table if and only if
  some event of that type takes some reachable state from the first phase to the second. In
  particular a call becomes active only by accepting an incoming one or by the acceptance of an
  outgoing one.
\<close>

theorem call_transition_table:
  "(\<exists>s clock ev. call_reachable s \<and> cs_phase s = p \<and> ev_type ev = t \<and>
      cs_phase (fst (reduceCall clock s ev)) = q \<and> p \<noteq> q) \<longleftrightarrow> (p, t, q) \<in> call_transitions"
proof
  assume "\<exists>s clock ev. call_reachable s \<and> cs_phase s = p \<and> ev_type ev = t \<and>
      cs_phase (fst (reduceCall clock s ev)) = q \<and> p \<noteq> q"
  then show "(p, t, q) \<in> call_transitions" using phase_step_table by metis
qed (rule transitions_occur)

text \<open>
  C3. Whatever ends a call puts the machine back into the initial state, clears the timers, stops
  the media of an active call and the ringtone of an incoming one, logs the call exactly once (with
  the peer, direction and duration of the ended call; not at all when another device answered), and
  addresses every signal to the peer and call that just ended.
\<close>

theorem call_teardown:
  assumes "cs_phase s \<noteq> Idle" "reduceCall clock s ev = (s', effs)" "cs_phase s' = Idle"
  shows "s' = createIdleCallState \<and> ClearTimers \<in> set effs \<and>
    (cs_phase s = Active \<longrightarrow> StopMedia \<in> set effs) \<and>
    (cs_phase s = Incoming \<longrightarrow> StopRingtone \<in> set effs) \<and>
    call_logs effs = (if ev_type ev = RemoteCancel \<and> isAnsweredElsewhere (ev_reason ev) then []
       else [log_of clock s (end_outcome (cs_phase s) (ev_type ev)) (ev_now ev)]) \<and>
    (\<forall>g \<in> set (signals effs). sg_peerId g = cs_peerId s \<and> sg_callId g = cs_callId s)"
  using teardown_step [of s clock ev] assms by simp

theorem call_teardown_witness:
  "call_logs (snd (reduceCall 20 sample_active (blank_event LocalEnd))) =
     [\<lparr>cl_peerId = Some ''bob'', cl_direction = ''in'', cl_outcome = ''completed'',
       cl_durationMs = 11, cl_video = False\<rparr>]"
proof -
  have ph: "cs_phase sample_active = Active" and
    fin: "cs_phase (fst (reduceCall 20 sample_active (blank_event LocalEnd))) = Idle" and
    ev: "ev_type (blank_event LocalEnd) = LocalEnd" "ev_now (blank_event LocalEnd) = 0"
    by (simp_all add: sample_simps)
  have log: "log_of 20 sample_active ''completed'' 0 =
      \<lparr>cl_peerId = Some ''bob'', cl_direction = ''in'', cl_outcome = ''completed'',
       cl_durationMs = 11, cl_video = False\<rparr>"
    by (simp add: log_of_def sample_simps callHasVideo_def ev_time_def)
  show ?thesis
    using call_teardown [OF _ surjective_pairing fin] by (simp add: ph ev log end_outcome_def)
qed

text \<open>
  C4. A third party cannot disturb a call: while a call is on, an offer or any message of another
  peer leaves the state as it is; an offer is at most answered with \<open>busy\<close>, sent to the peer and
  for the call that made it, and the other messages have no effect at all.
\<close>

theorem third_party_cannot_disturb:
  assumes "cs_phase s \<noteq> Idle" "ev_peerId ev = Some q" "q \<noteq> []" "cs_peerId s \<noteq> Some q"
    and "ev_type ev \<in> insert RemoteOffer bound_events"
  shows "fst (reduceCall clock s ev) = s \<and>
    (ev_type ev \<noteq> RemoteOffer \<longrightarrow> snd (reduceCall clock s ev) = []) \<and>
    (\<forall>e \<in> set (snd (reduceCall clock s ev)).
       \<exists>g. e = SendSignal g \<and> sg_op g = ''busy'' \<and> sg_peerId g = Some q \<and>
           (ev_callId ev \<noteq> None \<longrightarrow> sg_callId g = ev_callId ev))"
proof (cases "ev_type ev = RemoteOffer")
  case True
  then show ?thesis using assms
    by (auto simp: reduceCall_def reduceRemoteOffer_def ignore_def state_signal_def signalEffect_def no_extra_def)
next
  case False
  moreover have "\<not> sameCall s ev" using assms(2-4) by (auto simp: sameCall_def)
  ultimately show ?thesis using assms(5) foreign_event_ignored [of s ev clock] by auto
qed

theorem third_party_cannot_disturb_witness:
  "fst (reduceCall 7 sample_active (call_event_to RemoteEnd ''eve'' ''b'')) = sample_active \<and>
   snd (reduceCall 7 sample_active (call_event_to RemoteEnd ''eve'' ''b'')) = []"
proof -
  have "cs_phase sample_active \<noteq> Idle" "cs_peerId sample_active \<noteq> Some ''eve''"
    by (simp_all add: sample_simps)
  then show ?thesis
    using third_party_cannot_disturb [of sample_active "call_event_to RemoteEnd ''eve'' ''b''" "''eve''" 7]
    by (simp add: call_event_to_def blank_event_def bound_events_def)
qed

text \<open>A call offer that is neither blocked nor too old, with its peer and call id.\<close>

definition live_offer :: "ms \<Rightarrow> call_event \<Rightarrow> string \<Rightarrow> string \<Rightarrow> bool" where
  "live_offer clock ev peer call \<longleftrightarrow> ev_type ev = RemoteOffer \<and> ev_peerId ev = Some peer \<and>
     ev_callId ev = Some call \<and> \<not> ev_blocked ev \<and> \<not> isStaleCallOffer ev (ev_time clock ev)"

lemma glare_parts:
  assumes a: "cs_phase sa = Outgoing" "cs_peerId sa = Some pb" "cs_callId sa = Some ca"
    and b: "cs_phase sb = Outgoing" "cs_peerId sb = Some pa" "cs_callId sb = Some cb"
    and ids: "ca \<noteq> []" "ca < cb"
    and oa: "live_offer clock oa pa ca" and ob: "live_offer clock ob pb cb"
    and cancel: "ev_type cev = RemoteCancel" "ev_callId cev = Some cb"
  shows "reduceCall clock sa ob = (sa, [])"
    and "cs_phase (fst (reduceCall clock sb oa)) = Incoming"
    and "cs_callId (fst (reduceCall clock sb oa)) = Some ca"
    and "cs_peerId (fst (reduceCall clock sb oa)) = Some pa"
    and "cs_callKeyB64 (fst (reduceCall clock sb oa)) = ev_callKeyB64 oa"
    and "map (\<lambda>g. (sg_op g, sg_peerId g, sg_callId g)) (signals (snd (reduceCall clock sb oa))) =
           [(''cancel'', Some pa, Some cb), (''ringing'', Some pa, Some ca)]"
    and "reduceCall clock' (fst (reduceCall clock sa ob)) cev = (sa, [])"
proof -
  have nb: "cb \<noteq> []" and ne: "ca \<noteq> cb" and ng: "\<not> cb < ca" using ids by auto
  show win: "reduceCall clock sa ob = (sa, [])"
    using a ob ids nb by (simp add: live_offer_def reduceCall_def reduceRemoteOffer_def reduceGlare_def
        js_string_def ignore_def)
  show "reduceCall clock' (fst (reduceCall clock sa ob)) cev = (sa, [])"
    using win a nb ne cancel
    by (simp add: reduceCall_def reduceRemoteCancel_def sameCall_def ignore_def)
  have lose: "reduceCall clock sb oa = (fst (beginIncoming clock oa),
      [state_signal sb ''cancel'' (no_extra\<lparr>ex_peerId := cs_peerId sb, ex_callId := cs_callId sb\<rparr>), StopRingtone]
      @ snd (beginIncoming clock oa))"
    using b oa ids nb ne ng by (simp add: live_offer_def reduceCall_def reduceRemoteOffer_def reduceGlare_def
        js_string_def Let_def)
  show "cs_phase (fst (reduceCall clock sb oa)) = Incoming" "cs_callId (fst (reduceCall clock sb oa)) = Some ca"
    "cs_peerId (fst (reduceCall clock sb oa)) = Some pa"
    "cs_callKeyB64 (fst (reduceCall clock sb oa)) = ev_callKeyB64 oa"
    "map (\<lambda>g. (sg_op g, sg_peerId g, sg_callId g)) (signals (snd (reduceCall clock sb oa))) =
       [(''cancel'', Some pa, Some cb), (''ringing'', Some pa, Some ca)]"
    using oa b by (simp_all add: lose beginIncoming_def Let_def live_offer_def state_signal_def signalEffect_def
        no_extra_def signals_def)
qed

text \<open>
  C5. Glare is resolved the same way on both sides. When two peers call each other at the same time
  and the offers cross, the side with the smaller call id keeps its outgoing call unchanged, the
  other side withdraws its own offer and has the winning call incoming (with the winner's key),
  without accepting it; and the withdrawal, when it arrives, does not touch the winning call.
\<close>

theorem glare_resolution:
  assumes a: "cs_phase sa = Outgoing" "cs_peerId sa = Some pb" "cs_callId sa = Some ca"
    and b: "cs_phase sb = Outgoing" "cs_peerId sb = Some pa" "cs_callId sb = Some cb"
    and ids: "ca \<noteq> []" "ca < cb"
    and oa: "live_offer clock oa pa ca" and ob: "live_offer clock ob pb cb"
    and cancel: "ev_type cev = RemoteCancel" "ev_callId cev = Some cb"
  shows "reduceCall clock sa ob = (sa, []) \<and>
    cs_phase (fst (reduceCall clock sb oa)) = Incoming \<and>
    cs_callId (fst (reduceCall clock sb oa)) = Some ca \<and>
    cs_peerId (fst (reduceCall clock sb oa)) = Some pa \<and>
    cs_callKeyB64 (fst (reduceCall clock sb oa)) = ev_callKeyB64 oa \<and>
    map (\<lambda>g. (sg_op g, sg_peerId g, sg_callId g)) (signals (snd (reduceCall clock sb oa))) =
           [(''cancel'', Some pa, Some cb), (''ringing'', Some pa, Some ca)] \<and>
    reduceCall clock' (fst (reduceCall clock sa ob)) cev = (sa, [])"
  using glare_parts [OF a b ids oa ob cancel] by blast

theorem glare_resolution_witness:
  "(let sa = fst (reduceCall 5 createIdleCallState (call_event_to LocalStart ''bob'' ''a''));
        sb = fst (reduceCall 5 createIdleCallState (call_event_to LocalStart ''ann'' ''b''))
    in reduceCall 6 sa (call_event_to RemoteOffer ''bob'' ''b'') = (sa, []) \<and>
       cs_callId (fst (reduceCall 6 sb (call_event_to RemoteOffer ''ann'' ''a''))) = Some ''a'')"
proof -
  define sa where "sa = fst (reduceCall 5 createIdleCallState (call_event_to LocalStart ''bob'' ''a''))"
  define sb where "sb = fst (reduceCall 5 createIdleCallState (call_event_to LocalStart ''ann'' ''b''))"
  have a: "cs_phase sa = Outgoing" "cs_peerId sa = Some ''bob''" "cs_callId sa = Some ''a''"
    and b: "cs_phase sb = Outgoing" "cs_peerId sb = Some ''ann''" "cs_callId sb = Some ''b''"
    by (simp_all add: sa_def sb_def sample_simps)
  have lt: "''a'' < ''b''" by code_simp
  have offers: "live_offer 6 (call_event_to RemoteOffer ''ann'' ''a'') ''ann'' ''a''"
    "live_offer 6 (call_event_to RemoteOffer ''bob'' ''b'') ''bob'' ''b''"
    by (simp_all add: live_offer_def sample_simps)
  have cev: "ev_type (call_event_to RemoteCancel ''bob'' ''b'') = RemoteCancel"
    "ev_callId (call_event_to RemoteCancel ''bob'' ''b'') = Some ''b''"
    by (simp_all add: sample_simps)
  show ?thesis
    using glare_resolution [OF a b _ lt offers cev] by (simp add: sa_def sb_def)
qed

end
