(* ===== verification/JS_Values.thy ===== *)
theory JS_Values
  imports JS_Prelude "HOL-Library.AList"
begin

text \<open>
  JavaScript values, for the parts of the program that read data a peer or the store controls.

  \<^item> \<open>jsv\<close> is a value: the primitive types, arrays, plain objects (own properties in order),
    \<open>Uint8Array\<close>s, and \<open>Fn\<close> for the functions an object inherits from \<open>Object.prototype\<close>,
    which a lookup with a computed key can reach.
  \<^item> \<open>js_Number\<close>, \<open>js_String\<close> and \<open>js_Boolean\<close> are the conversions the code calls, with the
    grammar of numeric strings written out; a number is a rational, an infinity or \<open>NaN\<close>
    (rounding and negative zero are not modelled; \<open>String\<close> prints at most 17 decimals and no exponent).
  \<^item> \<open>get\<close> is \<open>x?.f\<close> for a fixed field name, \<open>index\<close> is \<open>x[k]\<close> for a computed key,
    \<open>spread\<close> is \<open>{...x, ...y}\<close>.
  \<^item> A plain object is assumed to have no own \<open>toString\<close> or \<open>valueOf\<close> property.
\<close>

section \<open>Values\<close>

datatype jsnum = NaN | PosInf | NegInf | Fin rat

datatype jsv =
    Undef
  | Null
  | Bool bool
  | Num jsnum
  | Str string
  | Bytes bytes
  | Fn string
  | Arr "jsv list"
  | Obj "(string \<times> jsv) list"

abbreviation JInt :: "int \<Rightarrow> jsv" where
  "JInt n \<equiv> Num (Fin (of_int n))"

definition js_Boolean :: "jsv \<Rightarrow> bool" where
  "js_Boolean v = (case v of Undef \<Rightarrow> False | Null \<Rightarrow> False | Bool b \<Rightarrow> b
     | Num n \<Rightarrow> n \<noteq> NaN \<and> n \<noteq> Fin 0 | Str s \<Rightarrow> s \<noteq> [] | _ \<Rightarrow> True)"

definition js_orv :: "jsv \<Rightarrow> jsv \<Rightarrow> jsv" where
  "js_orv a b = (if js_Boolean a then a else b)"

definition nullish :: "jsv \<Rightarrow> bool" where
  "nullish v \<longleftrightarrow> v = Undef \<or> v = Null"

definition js_coalesce :: "jsv \<Rightarrow> jsv \<Rightarrow> jsv" where
  "js_coalesce a b = (if nullish a then b else a)"

definition is_object :: "jsv \<Rightarrow> bool" where
  "is_object v = (case v of Null \<Rightarrow> True | Bytes _ \<Rightarrow> True | Arr _ \<Rightarrow> True | Obj _ \<Rightarrow> True | _ \<Rightarrow> False)"

definition is_string :: "jsv \<Rightarrow> bool" where
  "is_string v = (case v of Str _ \<Rightarrow> True | _ \<Rightarrow> False)"

definition is_number :: "jsv \<Rightarrow> bool" where
  "is_number v = (case v of Num _ \<Rightarrow> True | _ \<Rightarrow> False)"

definition arr_or_empty :: "jsv \<Rightarrow> jsv list" where
  "arr_or_empty v = (case v of Arr xs \<Rightarrow> xs | _ \<Rightarrow> [])"

lemma js_Boolean_simps [simp]:
  "\<not> js_Boolean Undef" "\<not> js_Boolean Null" "js_Boolean (Bool b) = b" "js_Boolean (Str s) = (s \<noteq> [])"
  "js_Boolean (Num n) = (n \<noteq> NaN \<and> n \<noteq> Fin 0)" "js_Boolean (Arr xs)" "js_Boolean (Obj fs)"
  "js_Boolean (Bytes bs)" "js_Boolean (Fn f)"
  by (simp_all add: js_Boolean_def)

lemma js_value_tests [simp]:
  "nullish Undef" "nullish Null" "\<not> nullish (Str s)" "\<not> nullish (Num n)" "\<not> nullish (Bool b)"
  "\<not> nullish (Obj fs)" "\<not> nullish (Arr xs)" "\<not> nullish (Bytes bs)" "\<not> nullish (Fn f)"
  "is_string (Str s)" "is_object (Obj fs)" "is_number (Num n)" "\<not> is_string Undef" "\<not> is_number Undef"
  "arr_or_empty (Arr xs) = xs" "arr_or_empty Undef = []"
  by (simp_all add: nullish_def is_string_def is_object_def is_number_def arr_or_empty_def)

lemma js_orv_simps [simp]:
  "js_orv (Str s) b = (if s = [] then b else Str s)" "js_orv Undef b = b" "js_orv Null b = b"
  "js_orv (Obj fs) b = Obj fs"
  by (simp_all add: js_orv_def)

lemma is_stringE: "is_string v \<Longrightarrow> (\<And>s. v = Str s \<Longrightarrow> P) \<Longrightarrow> P"
  by (cases v) (auto simp: is_string_def)

section \<open>Properties\<close>

definition get :: "jsv \<Rightarrow> string \<Rightarrow> jsv" where
  "get v f = (case v of Obj fs \<Rightarrow> (case map_of fs f of Some x \<Rightarrow> x | None \<Rightarrow> Undef) | _ \<Rightarrow> Undef)"

definition object_prototype :: "string list" where
  "object_prototype = [''constructor'', ''toString'', ''toLocaleString'', ''valueOf'', ''hasOwnProperty'',
     ''isPrototypeOf'', ''propertyIsEnumerable'', ''__defineGetter__'', ''__defineSetter__'',
     ''__lookupGetter__'', ''__lookupSetter__'', ''__proto__'']"

definition index :: "jsv \<Rightarrow> string \<Rightarrow> jsv" where
  "index v k = (case v of
     Obj fs \<Rightarrow> (case map_of fs k of Some x \<Rightarrow> x | None \<Rightarrow> if k \<in> set object_prototype then Fn k else Undef)
   | _ \<Rightarrow> Undef)"

definition own_fields :: "jsv \<Rightarrow> (string \<times> jsv) list" where
  "own_fields v = (case v of Obj fs \<Rightarrow> fs | _ \<Rightarrow> [])"

definition set_fields :: "(string \<times> jsv) list \<Rightarrow> (string \<times> jsv) list \<Rightarrow> (string \<times> jsv) list" where
  "set_fields base extra = fold (\<lambda>(k, x). AList.update k x) extra base"

definition spread :: "jsv \<Rightarrow> (string \<times> jsv) list \<Rightarrow> jsv" where
  "spread v extra = Obj (set_fields (own_fields v) extra)"

lemma update_elem: "x \<in> set (AList.update k v al) \<Longrightarrow> x = (k, v) \<or> x \<in> set al"
  by (induction al) (auto split: if_splits)

lemma delete_elem: "x \<in> set (AList.delete k al) \<longleftrightarrow> x \<in> set al \<and> fst x \<noteq> k"
  by (auto simp: AList.delete_eq)

lemma get_simps [simp]:
  "get Undef f = Undef" "get Null f = Undef" "get (Str s) f = Undef" "get (Num n) f = Undef"
  "get (Bool b) f = Undef" "get (Arr xs) f = Undef" "get (Bytes bs) f = Undef" "get (Fn g) f = Undef"
  "get (Obj []) f = Undef" "get (Obj ((k, x) # fs)) f = (if k = f then x else get (Obj fs) f)"
  by (simp_all add: get_def)

lemma own_fields_Obj [simp]: "own_fields (Obj fs) = fs"
  by (simp add: own_fields_def)

lemma map_of_set_fields:
  "map_of (set_fields base extra) f = (case map_of (rev extra) f of Some x \<Rightarrow> Some x | None \<Rightarrow> map_of base f)"
  unfolding set_fields_def
  by (induction extra arbitrary: base) (auto simp: update_conv' map_add_def split: option.splits)

lemma get_spread:
  "get (spread v extra) f = (case map_of (rev extra) f of Some x \<Rightarrow> x | None \<Rightarrow> get v f)"
  by (cases v) (auto simp: spread_def get_def map_of_set_fields own_fields_def split: option.splits)

text \<open>
  \<open>o[k] = x\<close>, \<open>delete o[k]\<close> and \<open>hasOwnProperty.call(o, k)\<close> on the own properties of a plain object: an
  assignment to \<open>__proto__\<close> sets the prototype unless the object has an own property of that name.
\<close>

definition js_assign :: "string \<Rightarrow> jsv \<Rightarrow> (string \<times> jsv) list \<Rightarrow> (string \<times> jsv) list" where
  "js_assign k x fs = (if k = ''__proto__'' \<and> map_of fs k = None then fs else AList.update k x fs)"

definition hasOwn :: "(string \<times> jsv) list \<Rightarrow> string \<Rightarrow> bool" where
  "hasOwn fs k \<longleftrightarrow> map_of fs k \<noteq> None"

lemma map_of_js_assign:
  "map_of (js_assign k x fs) l = (if l = k \<and> (k \<noteq> ''__proto__'' \<or> hasOwn fs k) then Some x else map_of fs l)"
  by (auto simp: js_assign_def hasOwn_def update_conv')

lemma distinct_js_assign: "distinct (map fst fs) \<Longrightarrow> distinct (map fst (js_assign k x fs))"
  by (simp add: js_assign_def distinct_update)

definition opt_field :: "string \<Rightarrow> ('a \<Rightarrow> jsv) \<Rightarrow> 'a option \<Rightarrow> (string \<times> jsv) list" where
  "opt_field k f v = (case v of None \<Rightarrow> [] | Some x \<Rightarrow> [(k, f x)])"

definition field_or :: "jsv \<Rightarrow> ('a \<Rightarrow> jsv) \<Rightarrow> 'a option \<Rightarrow> jsv" where
  "field_or d f v = (case v of None \<Rightarrow> d | Some x \<Rightarrow> f x)"

lemma field_or_simps [simp]: "field_or d f None = d" "field_or d f (Some x) = f x"
  by (simp_all add: field_or_def)

lemma get_opt_field [simp]:
  "get (Obj (opt_field k f v @ gs)) k' = (if k = k' then field_or (get (Obj gs) k') f v else get (Obj gs) k')"
  "get (Obj (opt_field k f v)) k' = (if k = k' then field_or Undef f v else Undef)"
  by (auto simp: opt_field_def split: option.splits)

section \<open>Numbers\<close>

definition is_digit :: "char \<Rightarrow> bool" where
  "is_digit c \<longleftrightarrow> (let n = (of_char c :: nat) in 48 \<le> n \<and> n \<le> 57)"

definition digit_value :: "char \<Rightarrow> nat" where
  "digit_value c =
     (let n = (of_char c :: nat)
      in if 48 \<le> n \<and> n \<le> 57 then n - 48 else if 97 \<le> n \<and> n \<le> 122 then n - 87
         else if 65 \<le> n \<and> n \<le> 90 then n - 55 else 99)"

definition number_of_digits :: "nat \<Rightarrow> string \<Rightarrow> nat" where
  "number_of_digits base s = fold (\<lambda>c n. n * base + digit_value c) s 0"

text \<open>The greatest double is \<open>2^1024 - 2^971\<close>; what rounds beyond it is an infinity.\<close>

definition js_round :: "rat \<Rightarrow> jsnum" where
  "js_round r = (if r \<ge> 2 ^ 1024 - 2 ^ 970 then PosInf else if r \<le> - (2 ^ 1024 - 2 ^ 970) then NegInf else Fin r)"

definition parse_exponent :: "string \<Rightarrow> int option" where
  "parse_exponent s =
     (let (neg, t) = (case s of [] \<Rightarrow> (False, []) | c # r \<Rightarrow>
            if c = CHR ''-'' then (True, r) else if c = CHR ''+'' then (False, r) else (False, s))
      in if t = [] \<or> \<not> list_all is_digit t then None
         else Some ((if neg then - 1 else 1) * int (number_of_digits 10 t)))"

definition scale10 :: "rat \<Rightarrow> int \<Rightarrow> rat" where
  "scale10 r e = (if e \<ge> 0 then r * 10 ^ nat e else r / 10 ^ nat (- e))"

definition parse_decimal :: "string \<Rightarrow> rat option" where
  "parse_decimal s =
     (let ip = takeWhile is_digit s; r1 = dropWhile is_digit s;
          (fp, r2) = (case r1 of [] \<Rightarrow> ([], []) | c # t \<Rightarrow>
             if c = CHR ''.'' then (takeWhile is_digit t, dropWhile is_digit t) else ([], r1));
          m = of_nat (number_of_digits 10 (ip @ fp)) / 10 ^ length fp
      in if ip = [] \<and> fp = [] then None
         else case r2 of [] \<Rightarrow> Some m
           | c # t \<Rightarrow> if c = CHR ''e'' \<or> c = CHR ''E'' then map_option (scale10 m) (parse_exponent t) else None)"

definition parse_radix :: "nat \<Rightarrow> string \<Rightarrow> jsnum" where
  "parse_radix base s =
     (if s = [] \<or> \<not> list_all (\<lambda>c. digit_value c < base) s then NaN
      else js_round (of_nat (number_of_digits base s)))"

definition js_string_number :: "string \<Rightarrow> jsnum" where
  "js_string_number s0 =
     (let s = js_trim s0; p = take 2 s; t = drop 2 s
      in if s = [] then Fin 0
         else if p = ''0x'' \<or> p = ''0X'' then parse_radix 16 t
         else if p = ''0o'' \<or> p = ''0O'' then parse_radix 8 t
         else if p = ''0b'' \<or> p = ''0B'' then parse_radix 2 t
         else
           (let neg = (hd s = CHR ''-''); u = (if hd s = CHR ''-'' \<or> hd s = CHR ''+'' then tl s else s)
            in if u = ''Infinity'' then (if neg then NegInf else PosInf)
               else case parse_decimal u of None \<Rightarrow> NaN | Some r \<Rightarrow> js_round (if neg then - r else r)))"

section \<open>Strings\<close>

function nat_digits :: "nat \<Rightarrow> string" where
  "nat_digits n = (if n < 10 then [char_of (48 + n)] else nat_digits (n div 10) @ [char_of (48 + n mod 10)])"
  by pat_completeness auto
termination by (relation "measure id") auto

declare nat_digits.simps [simp del]

fun frac_digits :: "nat \<Rightarrow> rat \<Rightarrow> string" where
  "frac_digits 0 r = []"
| "frac_digits (Suc k) r =
     (if r = 0 then [] else char_of (48 + nat \<lfloor>r * 10\<rfloor>) # frac_digits k (r * 10 - of_int \<lfloor>r * 10\<rfloor>))"

definition js_number_string :: "jsnum \<Rightarrow> string" where
  "js_number_string n = (case n of NaN \<Rightarrow> ''NaN'' | PosInf \<Rightarrow> ''Infinity'' | NegInf \<Rightarrow> ''-Infinity''
     | Fin r \<Rightarrow> (if r < 0 then ''-'' else []) @ nat_digits (nat \<lfloor>\<bar>r\<bar>\<rfloor>) @
         (let f = \<bar>r\<bar> - of_int \<lfloor>\<bar>r\<bar>\<rfloor> in if f = 0 then [] else CHR ''.'' # frac_digits 17 f))"

fun join :: "string \<Rightarrow> string list \<Rightarrow> string" where
  "join sep [] = []"
| "join sep [x] = x"
| "join sep (x # y # xs) = x @ sep @ join sep (y # xs)"

fun js_String :: "jsv \<Rightarrow> string" where
  "js_String Undef = ''undefined''"
| "js_String Null = ''null''"
| "js_String (Bool b) = (if b then ''true'' else ''false'')"
| "js_String (Num n) = js_number_string n"
| "js_String (Str s) = s"
| "js_String (Bytes bs) = join '','' (map (\<lambda>b. nat_digits (unat b)) bs)"
| "js_String (Fn f) = ''function '' @ f @ ''() { [native code] }''"
| "js_String (Arr xs) = join '','' (map (\<lambda>x. if nullish x then [] else js_String x) xs)"
| "js_String (Obj fs) = ''[object Object]''"

definition js_Number :: "jsv \<Rightarrow> jsnum" where
  "js_Number v = (case v of Undef \<Rightarrow> NaN | Null \<Rightarrow> Fin 0 | Bool b \<Rightarrow> Fin (if b then 1 else 0) | Num n \<Rightarrow> n
     | Str s \<Rightarrow> js_string_number s | _ \<Rightarrow> js_string_number (js_String v))"

lemma js_Number_simps [simp]:
  "js_Number Undef = NaN" "js_Number Null = Fin 0" "js_Number (Num n) = n"
  "js_Number (Bool b) = Fin (if b then 1 else 0)"
  by (simp_all add: js_Number_def)

text \<open>
  \<open>Number.isFinite(x)\<close> and \<open>Number.isInteger(x)\<close> are false on anything that is not a number; the
  options below carry the number when the test holds.
\<close>

definition finite_num :: "jsnum \<Rightarrow> rat option" where
  "finite_num n = (case n of Fin r \<Rightarrow> Some r | _ \<Rightarrow> None)"

definition integer_num :: "jsnum \<Rightarrow> int option" where
  "integer_num n = (case n of Fin r \<Rightarrow> if of_int \<lfloor>r\<rfloor> = r then Some \<lfloor>r\<rfloor> else None | _ \<Rightarrow> None)"

definition isFinite :: "jsv \<Rightarrow> rat option" where
  "isFinite v = (case v of Num n \<Rightarrow> finite_num n | _ \<Rightarrow> None)"

definition isInteger :: "jsv \<Rightarrow> int option" where
  "isInteger v = (case v of Num n \<Rightarrow> integer_num n | _ \<Rightarrow> None)"

lemma finite_num_Some [simp]: "finite_num n = Some r \<longleftrightarrow> n = Fin r"
  by (cases n) (auto simp: finite_num_def)

lemma integer_num_Some [simp]: "integer_num n = Some k \<longleftrightarrow> n = Fin (of_int k)"
  by (cases n) (auto simp: integer_num_def)

lemma number_tests [simp]:
  "isFinite (Num (Fin r)) = Some r" "isFinite Undef = None" "isFinite Null = None"
  "isInteger (Num (Fin (of_int k))) = Some k" "isInteger Undef = None" "isFinite (Str s) = None"
  by (simp_all add: isFinite_def isInteger_def)

lemma integer_num_literals [simp]:
  "integer_num (Fin 0) = Some 0" "integer_num (Fin 1) = Some 1" "integer_num (Fin (numeral n)) = Some (numeral n)"
  "finite_num (Fin r) = Some r" "finite_num NaN = None" "integer_num NaN = None"
  by (simp_all add: finite_num_def integer_num_def)

lemma integer_literals [simp]:
  "isInteger (Num (Fin 0)) = Some 0" "isInteger (Num (Fin 1)) = Some 1"
  "isInteger (Num (Fin (numeral n))) = Some (numeral n)" "isInteger (Num (Fin (of_int k + 1))) = Some (k + 1)"
  using number_tests(4) [of 0] number_tests(4) [of 1] number_tests(4) [of "numeral n"] number_tests(4) [of "k + 1"]
  by simp_all

definition js_less :: "jsnum \<Rightarrow> jsnum \<Rightarrow> bool" where
  "js_less a b = (case (a, b) of
     (Fin x, Fin y) \<Rightarrow> x < y | (NegInf, Fin _) \<Rightarrow> True | (NegInf, PosInf) \<Rightarrow> True | (Fin _, PosInf) \<Rightarrow> True | _ \<Rightarrow> False)"

text \<open>\<open>Math.max(a, b)\<close> for operands that are not \<open>NaN\<close>, and \<open>Number(v) || d\<close>.\<close>

definition js_max :: "jsnum \<Rightarrow> jsnum \<Rightarrow> jsnum" where
  "js_max a b = (if js_less a b then b else a)"

definition number_or :: "jsv \<Rightarrow> rat \<Rightarrow> jsnum" where
  "number_or v d = (let n = js_Number v in if n = NaN \<or> n = Fin 0 then Fin d else n)"

lemma js_less_Fin [simp]: "js_less (Fin x) (Fin y) = (x < y)"
  by (simp add: js_less_def)

lemma js_less_trans: "js_less a b \<Longrightarrow> js_less b c \<Longrightarrow> js_less a c"
  by (cases a; cases b; cases c) (auto simp: js_less_def)

lemma number_or_not_NaN: "number_or v d \<noteq> NaN"
  by (simp add: number_or_def Let_def)

section \<open>Cleaning strings\<close>

definition js_slice :: "nat \<Rightarrow> string \<Rightarrow> string" where
  "js_slice n s = take n s"

fun js_includes :: "string \<Rightarrow> string \<Rightarrow> bool" where
  "js_includes [] p = (p = [])"
| "js_includes (c # s) p = (js_startsWith (c # s) p \<or> js_includes s p)"

lemma js_includes_iff: "js_includes s p \<longleftrightarrow> (\<exists>u v. s = u @ p @ v)"
proof (induction s)
  case (Cons c s)
  have "js_startsWith (c # s) p \<longleftrightarrow> (\<exists>v. c # s = p @ v)"
    by (metis append_eq_conv_conj append_take_drop_id js_startsWith_def)
  moreover have "(\<exists>u v. c # s = u @ p @ v) \<longleftrightarrow> (\<exists>v. c # s = p @ v) \<or> (\<exists>u v. s = u @ p @ v)"
    by (metis Cons_eq_append_conv append_Cons append_Nil)
  ultimately show ?case using Cons by simp
qed auto

end
