(* ===== verification/Call_Limits.thy ===== *)
theory Call_Limits
  imports JS_Values Video_Caps
begin

text \<open>
  Limits on inbound call messages, \<open>src/renderer/calls/callLimits.js\<close>: the sanitisers copy the known
  fields of a signal, an offer, an audio or a video packet that a peer sent, bound every length and
  number, and drop the rest. A message is a \<open>jsv\<close>; a sanitised message is a record (an absent field is
  \<open>None\<close>), and \<open>signal_obj\<close>, \<open>offer_obj\<close>, \<open>audio_obj\<close>, \<open>video_obj\<close> are the objects the code
  builds. \<open>Bytes\<close> stands for every binary view.
\<close>

section \<open>Limits\<close>

definition CALL_ID_MAX_LEN :: nat where "CALL_ID_MAX_LEN = 128"
definition CALL_REASON_MAX_LEN :: nat where "CALL_REASON_MAX_LEN = 64"
definition CALL_DEVICE_KEY_MAX_LEN :: nat where "CALL_DEVICE_KEY_MAX_LEN = 256"
definition CALL_SENDER_MAX_LEN :: nat where "CALL_SENDER_MAX_LEN = 128"
definition CALL_MAX_CODECS :: nat where "CALL_MAX_CODECS = 8"
definition CALL_MAX_CODEC_LEN :: nat where "CALL_MAX_CODEC_LEN = 32"
definition CALL_KEY_B64_MAX_LEN :: nat where "CALL_KEY_B64_MAX_LEN = 64"
definition AUDIO_MAX_PACKET_BYTES :: nat where "AUDIO_MAX_PACKET_BYTES = 8 * 1024"
definition AUDIO_GCM_OVERHEAD :: nat where "AUDIO_GCM_OVERHEAD = 16"

definition b64_limit :: "nat \<Rightarrow> nat" where
  "b64_limit n = (n * 4 + 2) div 3 + 8"

definition AUDIO_MAX_PACKET_B64 :: nat where
  "AUDIO_MAX_PACKET_B64 = b64_limit (AUDIO_MAX_PACKET_BYTES + AUDIO_GCM_OVERHEAD)"
definition VIDEO_MAX_FRAGMENT_BYTES :: nat where "VIDEO_MAX_FRAGMENT_BYTES = 24 * 1024"
definition VIDEO_FRAGMENT_OVERHEAD :: nat where "VIDEO_FRAGMENT_OVERHEAD = 64"
definition VIDEO_MAX_CIPHER_BYTES :: nat where
  "VIDEO_MAX_CIPHER_BYTES = VIDEO_MAX_FRAGMENT_BYTES + VIDEO_FRAGMENT_OVERHEAD"
definition VIDEO_MAX_PACKET_B64 :: nat where "VIDEO_MAX_PACKET_B64 = b64_limit VIDEO_MAX_CIPHER_BYTES"
definition VIDEO_MAX_FRAGS :: int where "VIDEO_MAX_FRAGS = 64"
definition VIDEO_MAX_OPEN_FRAMES :: nat where "VIDEO_MAX_OPEN_FRAMES = 8"
definition VIDEO_MAX_REASSEMBLY_BYTES :: nat where "VIDEO_MAX_REASSEMBLY_BYTES = 4 * 1024 * 1024"
definition VIDEO_MAX_WIDTH :: int where "VIDEO_MAX_WIDTH = 3840"
definition VIDEO_MAX_HEIGHT :: int where "VIDEO_MAX_HEIGHT = 2160"
definition VIDEO_MAX_DESC_BYTES :: nat where "VIDEO_MAX_DESC_BYTES = 8 * 1024"
definition VIDEO_MAX_DESC_B64 :: nat where "VIDEO_MAX_DESC_B64 = b64_limit VIDEO_MAX_DESC_BYTES"

definition CALL_SIGNAL_OPS :: "string list" where
  "CALL_SIGNAL_OPS = [''ringing'', ''accept'', ''reject'', ''busy'', ''cancel'', ''end'', ''video-on'', ''video-off'',
     ''screen-on'', ''screen-off'', ''keyframe'', ''ping'', ''pong'']"

definition CALL_AUDIO_CODECS :: "string list" where "CALL_AUDIO_CODECS = [''opus'', ''pcm16'']"

definition MAX_SAFE_INTEGER :: int where "MAX_SAFE_INTEGER = 2 ^ 53 - 1"

section \<open>Field tests\<close>

definition boundedString :: "jsv \<Rightarrow> nat \<Rightarrow> string" where
  "boundedString v maxLen = (case v of Str s \<Rightarrow> if s = [] \<or> length s > maxLen then [] else s | _ \<Rightarrow> [])"

definition bounded_field :: "jsv \<Rightarrow> nat \<Rightarrow> string option" where
  "bounded_field v maxLen = (let s = boundedString v maxLen in if s = [] then None else Some s)"

definition isSafeSeq :: "jsv \<Rightarrow> bool" where
  "isSafeSeq seq = (case integer_num (js_Number seq) of Some n \<Rightarrow> \<bar>n\<bar> \<le> MAX_SAFE_INTEGER \<and> n \<ge> 0 | None \<Rightarrow> False)"

definition isPlausibleVideoSize :: "jsv \<Rightarrow> jsv \<Rightarrow> bool" where
  "isPlausibleVideoSize width height =
     (if nullish width \<and> nullish height then True
      else case (integer_num (js_Number width), integer_num (js_Number height)) of
          (Some w, Some h) \<Rightarrow> if w < 1 \<or> h < 1 then False else w \<le> VIDEO_MAX_WIDTH \<and> h \<le> VIDEO_MAX_HEIGHT
        | _ \<Rightarrow> False)"

definition payloadByteLength :: "jsv \<Rightarrow> nat" where
  "payloadByteLength data = (case data of Str s \<Rightarrow> (length s * 3 + 3) div 4 | Bytes b \<Rightarrow> length b | _ \<Rightarrow> 0)"

definition payloadWithin :: "jsv \<Rightarrow> nat \<Rightarrow> nat \<Rightarrow> bool" where
  "payloadWithin data maxBytes maxB64 =
     (case data of Str s \<Rightarrow> length s > 0 \<and> length s \<le> maxB64
      | _ \<Rightarrow> let n = payloadByteLength data in n > 0 \<and> n \<le> maxBytes)"

definition item_string :: "jsv \<Rightarrow> string" where
  "item_string item = js_String (js_orv item (Str []))"

definition sanitizeCapabilities :: "jsv \<Rightarrow> capabilities" where
  "sanitizeCapabilities raw =
     (if \<not> js_Boolean raw \<or> \<not> is_object raw then \<lparr>cap_video = [], cap_screen = False\<rparr>
      else let video = normalizeCapabilityList (map item_string (take CALL_MAX_CODECS (arr_or_empty (get raw ''video''))))
           in \<lparr>cap_video = video, cap_screen = (get raw ''screen'' = Bool True \<and> video \<noteq> [])\<rparr>)"

definition codec_item :: "jsv \<Rightarrow> string option" where
  "codec_item item = (let v = item_string item
     in if v = [] \<or> length v > CALL_MAX_CODEC_LEN \<or> v \<notin> set CALL_AUDIO_CODECS then None else Some v)"

definition sanitizeCodecList :: "jsv \<Rightarrow> string list" where
  "sanitizeCodecList list = collect_new codec_item (take CALL_MAX_CODECS (arr_or_empty list)) []"

section \<open>Sanitisers\<close>

record clean_signal =
  csg_op :: string
  csg_callId :: string
  csg_fromDevice :: "string option"
  csg_codec :: "string option"
  csg_reason :: "string option"
  csg_t :: "rat option"
  csg_stream :: "string option"
  csg_capabilities :: "capabilities option"

definition stream_of :: "jsv \<Rightarrow> string" where
  "stream_of v = (if v = Str ''screen'' then ''screen'' else ''camera'')"

definition signal_codec :: "jsv \<Rightarrow> string option" where
  "signal_codec v = (case v of Str c \<Rightarrow>
     if c \<noteq> [] \<and> length c \<le> CALL_MAX_CODEC_LEN \<and> c \<in> set CALL_AUDIO_CODECS then Some c else None | _ \<Rightarrow> None)"

definition signal_capabilities :: "jsv \<Rightarrow> capabilities option" where
  "signal_capabilities c = (if js_Boolean c \<and> is_object c then Some (sanitizeCapabilities c) else None)"

definition signal_time :: "jsv \<Rightarrow> rat option" where
  "signal_time v = (case finite_num (js_Number v) of
     Some t \<Rightarrow> if \<bar>t\<bar> \<le> of_int MAX_SAFE_INTEGER then Some t else None | None \<Rightarrow> None)"

definition signal_fields :: "string \<Rightarrow> string \<Rightarrow> jsv \<Rightarrow> clean_signal" where
  "signal_fields op callId msg = \<lparr>csg_op = op, csg_callId = callId,
     csg_fromDevice = bounded_field (get msg ''fromDevice'') CALL_DEVICE_KEY_MAX_LEN,
     csg_codec = (if op = ''accept'' then signal_codec (get msg ''codec'') else None),
     csg_reason = (if op = ''cancel'' then bounded_field (get msg ''reason'') CALL_REASON_MAX_LEN else None),
     csg_t = (if op \<in> {''ping'', ''pong''} then signal_time (get msg ''t'') else None),
     csg_stream = (if op \<in> {''video-on'', ''video-off'', ''screen-on'', ''screen-off'', ''keyframe''}
        then Some (stream_of (get msg ''stream'')) else None),
     csg_capabilities = (if op \<in> {''ringing'', ''accept''} then signal_capabilities (get msg ''capabilities'') else None)\<rparr>"

definition sanitizeCallSignal :: "jsv \<Rightarrow> clean_signal option" where
  "sanitizeCallSignal msg =
     (if \<not> js_Boolean msg \<or> \<not> is_object msg then None else
      let op = (case get msg ''op'' of Str s \<Rightarrow> s | _ \<Rightarrow> [])
      in if op \<notin> set CALL_SIGNAL_OPS then None else
        let callId = boundedString (get msg ''callId'') CALL_ID_MAX_LEN
        in if callId = [] then None else Some (signal_fields op callId msg))"

record clean_offer =
  co_callId :: string
  co_callKeyB64 :: string
  co_codecs :: "string list"
  co_mediaVideo :: bool
  co_capabilities :: capabilities
  co_timestamp :: "rat option"
  co_sender :: "string option"
  co_fromDevice :: "string option"

definition sanitizeCallOffer :: "jsv \<Rightarrow> clean_offer option" where
  "sanitizeCallOffer msg =
     (if \<not> js_Boolean msg \<or> \<not> is_object msg then None else
      let callId = boundedString (get msg ''callId'') CALL_ID_MAX_LEN;
          callKeyB64 = boundedString (get msg ''callKeyB64'') CALL_KEY_B64_MAX_LEN
      in if callId = [] \<or> callKeyB64 = [] then None else
        Some \<lparr>co_callId = callId, co_callKeyB64 = callKeyB64, co_codecs = sanitizeCodecList (get msg ''codecs''),
          co_mediaVideo = (get (get msg ''media'') ''video'' = Bool True),
          co_capabilities = sanitizeCapabilities (get msg ''capabilities''),
          co_timestamp = (case finite_num (js_Number (get msg ''timestamp'')) of
             Some ts \<Rightarrow> if ts \<ge> 0 then Some ts else None | None \<Rightarrow> None),
          co_sender = bounded_field (get msg ''sender'') CALL_SENDER_MAX_LEN,
          co_fromDevice = bounded_field (get msg ''fromDevice'') CALL_DEVICE_KEY_MAX_LEN\<rparr>)"

record clean_audio =
  ca_callId :: string
  ca_seq :: int
  ca_data :: jsv
  ca_fromDevice :: "string option"

definition seq_number :: "jsv \<Rightarrow> int" where
  "seq_number v = (case integer_num (js_Number v) of Some n \<Rightarrow> n | None \<Rightarrow> 0)"

definition sanitizeCallAudio :: "jsv \<Rightarrow> clean_audio option" where
  "sanitizeCallAudio msg =
     (if \<not> js_Boolean msg \<or> \<not> is_object msg then None else
      let callId = boundedString (get msg ''callId'') CALL_ID_MAX_LEN
      in if callId = [] \<or> \<not> isSafeSeq (get msg ''seq'') then None
         else if \<not> payloadWithin (get msg ''data'') (AUDIO_MAX_PACKET_BYTES + AUDIO_GCM_OVERHEAD) AUDIO_MAX_PACKET_B64 then None
         else Some \<lparr>ca_callId = callId, ca_seq = seq_number (get msg ''seq''), ca_data = get msg ''data'',
                ca_fromDevice = bounded_field (get msg ''fromDevice'') CALL_DEVICE_KEY_MAX_LEN\<rparr>)"

record clean_video =
  cv_callId :: string
  cv_stream :: string
  cv_seq :: int
  cv_frag :: int
  cv_frags :: int
  cv_key :: bool
  cv_data :: jsv
  cv_codec :: "string option"
  cv_w :: "int option"
  cv_h :: "int option"
  cv_ts :: "rat option"
  cv_desc :: "jsv option"
  cv_fromDevice :: "string option"

definition desc_within :: "jsv \<Rightarrow> bool" where
  "desc_within desc = (if nullish desc then True else
     case desc of Str s \<Rightarrow> length s \<le> VIDEO_MAX_DESC_B64 | _ \<Rightarrow> payloadByteLength desc \<le> VIDEO_MAX_DESC_BYTES)"

definition video_codec_ok :: "jsv \<Rightarrow> bool" where
  "video_codec_ok codec \<longleftrightarrow> (nullish codec \<or> isAllowedVideoCodec (item_string codec)) \<and>
     length (item_string codec) \<le> CALL_MAX_CODEC_LEN"

definition sanitizeCallVideo :: "jsv \<Rightarrow> clean_video option" where
  "sanitizeCallVideo msg =
     (if \<not> js_Boolean msg \<or> \<not> is_object msg then None else
      let callId = boundedString (get msg ''callId'') CALL_ID_MAX_LEN
      in if callId = [] \<or> \<not> isSafeSeq (get msg ''seq'') then None else
         case (integer_num (js_Number (get msg ''frags'')), integer_num (js_Number (get msg ''frag''))) of
           (Some frags, Some frag) \<Rightarrow>
             if frags < 1 \<or> frags > VIDEO_MAX_FRAGS then None
             else if frag < 0 \<or> frag \<ge> frags then None
             else if \<not> payloadWithin (get msg ''data'') VIDEO_MAX_CIPHER_BYTES VIDEO_MAX_PACKET_B64 then None
             else if \<not> video_codec_ok (get msg ''codec'') then None
             else if \<not> isPlausibleVideoSize (get msg ''w'') (get msg ''h'') then None
             else if \<not> desc_within (get msg ''desc'') then None
             else Some \<lparr>cv_callId = callId, cv_stream = stream_of (get msg ''stream''), cv_seq = seq_number (get msg ''seq''),
                    cv_frag = frag, cv_frags = frags, cv_key = (get msg ''key'' = Bool True), cv_data = get msg ''data'',
                    cv_codec = (if nullish (get msg ''codec'') then None else Some (js_String (get msg ''codec''))),
                    cv_w = integer_num (js_Number (get msg ''w'')), cv_h = integer_num (js_Number (get msg ''h'')),
                    cv_ts = finite_num (js_Number (get msg ''ts'')),
                    cv_desc = (if nullish (get msg ''desc'') then None else Some (get msg ''desc'')),
                    cv_fromDevice = bounded_field (get msg ''fromDevice'') CALL_DEVICE_KEY_MAX_LEN\<rparr>
         | _ \<Rightarrow> None)"

section \<open>The objects the sanitisers build\<close>

definition caps_obj :: "capabilities \<Rightarrow> jsv" where
  "caps_obj c = Obj [(''video'', Arr (map Str (cap_video c))), (''screen'', Bool (cap_screen c))]"

definition num_field :: "rat \<Rightarrow> jsv" where "num_field r = Num (Fin r)"

definition signal_obj :: "clean_signal \<Rightarrow> jsv" where
  "signal_obj s = Obj ([(''kind'', Str ''call-signal''), (''op'', Str (csg_op s)), (''callId'', Str (csg_callId s))] @
     opt_field ''fromDevice'' Str (csg_fromDevice s) @ opt_field ''codec'' Str (csg_codec s) @
     opt_field ''reason'' Str (csg_reason s) @ opt_field ''t'' num_field (csg_t s) @
     opt_field ''stream'' Str (csg_stream s) @ opt_field ''capabilities'' caps_obj (csg_capabilities s))"

definition offer_obj :: "clean_offer \<Rightarrow> jsv" where
  "offer_obj s = Obj ([(''kind'', Str ''call-offer''), (''callId'', Str (co_callId s)), (''callKeyB64'', Str (co_callKeyB64 s)),
     (''codecs'', Arr (map Str (co_codecs s))), (''media'', Obj [(''video'', Bool (co_mediaVideo s))]),
     (''capabilities'', caps_obj (co_capabilities s))] @ opt_field ''timestamp'' num_field (co_timestamp s) @
     opt_field ''sender'' Str (co_sender s) @ opt_field ''fromDevice'' Str (co_fromDevice s))"

definition audio_obj :: "clean_audio \<Rightarrow> jsv" where
  "audio_obj s = Obj ([(''kind'', Str ''call-audio''), (''callId'', Str (ca_callId s)), (''seq'', JInt (ca_seq s)),
     (''data'', ca_data s)] @ opt_field ''fromDevice'' Str (ca_fromDevice s))"

definition video_obj :: "clean_video \<Rightarrow> jsv" where
  "video_obj s = Obj ([(''kind'', Str ''call-video''), (''callId'', Str (cv_callId s)), (''stream'', Str (cv_stream s)),
     (''seq'', JInt (cv_seq s)), (''frag'', JInt (cv_frag s)), (''frags'', JInt (cv_frags s)), (''key'', Bool (cv_key s)),
     (''data'', cv_data s)] @ opt_field ''codec'' Str (cv_codec s) @ opt_field ''w'' (\<lambda>n. JInt n) (cv_w s) @
     opt_field ''h'' (\<lambda>n. JInt n) (cv_h s) @ opt_field ''ts'' num_field (cv_ts s) @ opt_field ''desc'' id (cv_desc s) @
     opt_field ''fromDevice'' Str (cv_fromDevice s))"

section \<open>Bounds\<close>

definition string_ok :: "nat \<Rightarrow> string \<Rightarrow> bool" where
  "string_ok n s \<longleftrightarrow> s \<noteq> [] \<and> length s \<le> n"

definition caps_ok :: "capabilities \<Rightarrow> bool" where
  "caps_ok c \<longleftrightarrow> capability_list (cap_video c) \<and> (cap_screen c \<longrightarrow> cap_video c \<noteq> [])"

definition signal_ok :: "clean_signal \<Rightarrow> bool" where
  "signal_ok s \<longleftrightarrow> csg_op s \<in> set CALL_SIGNAL_OPS \<and> string_ok 128 (csg_callId s) \<and>
     pred_option (string_ok 256) (csg_fromDevice s) \<and> pred_option (\<lambda>c. c \<in> set CALL_AUDIO_CODECS) (csg_codec s) \<and>
     pred_option (string_ok 64) (csg_reason s) \<and> pred_option (\<lambda>t. \<bar>t\<bar> \<le> 2 ^ 53 - 1) (csg_t s) \<and>
     pred_option (\<lambda>st. st \<in> {''camera'', ''screen''}) (csg_stream s) \<and> pred_option caps_ok (csg_capabilities s) \<and>
     (csg_codec s \<noteq> None \<longrightarrow> csg_op s = ''accept'') \<and> (csg_reason s \<noteq> None \<longrightarrow> csg_op s = ''cancel'') \<and>
     (csg_t s \<noteq> None \<longrightarrow> csg_op s \<in> {''ping'', ''pong''}) \<and>
     (csg_stream s \<noteq> None) = (csg_op s \<in> {''video-on'', ''video-off'', ''screen-on'', ''screen-off'', ''keyframe''}) \<and>
     (csg_capabilities s \<noteq> None \<longrightarrow> csg_op s \<in> {''ringing'', ''accept''})"

definition offer_ok :: "clean_offer \<Rightarrow> bool" where
  "offer_ok s \<longleftrightarrow> string_ok 128 (co_callId s) \<and> string_ok 64 (co_callKeyB64 s) \<and>
     distinct (co_codecs s) \<and> set (co_codecs s) \<subseteq> set CALL_AUDIO_CODECS \<and> caps_ok (co_capabilities s) \<and>
     pred_option (\<lambda>t. 0 \<le> t) (co_timestamp s) \<and> pred_option (string_ok 128) (co_sender s) \<and>
     pred_option (string_ok 256) (co_fromDevice s)"

definition payload_ok :: "nat \<Rightarrow> nat \<Rightarrow> jsv \<Rightarrow> bool" where
  "payload_ok maxBytes maxB64 v \<longleftrightarrow>
     (\<exists>s. v = Str s \<and> s \<noteq> [] \<and> length s \<le> maxB64) \<or> (\<exists>b. v = Bytes b \<and> b \<noteq> [] \<and> length b \<le> maxBytes)"

definition audio_ok :: "clean_audio \<Rightarrow> bool" where
  "audio_ok s \<longleftrightarrow> string_ok 128 (ca_callId s) \<and> 0 \<le> ca_seq s \<and> ca_seq s < 2 ^ 53 \<and>
     payload_ok 8208 10952 (ca_data s) \<and> pred_option (string_ok 256) (ca_fromDevice s)"

definition video_ok :: "clean_video \<Rightarrow> bool" where
  "video_ok s \<longleftrightarrow> string_ok 128 (cv_callId s) \<and> cv_stream s \<in> {''camera'', ''screen''} \<and> 0 \<le> cv_seq s \<and> cv_seq s < 2 ^ 53 \<and>
     0 \<le> cv_frag s \<and> cv_frag s < cv_frags s \<and> cv_frags s \<le> 64 \<and> payload_ok 24640 32862 (cv_data s) \<and>
     pred_option (\<lambda>c. isAllowedVideoCodec c \<and> length c \<le> 32) (cv_codec s) \<and>
     pred_option (\<lambda>w. 0 \<le> w \<and> w \<le> 3840) (cv_w s) \<and> pred_option (\<lambda>h. 0 \<le> h \<and> h \<le> 2160) (cv_h s) \<and>
     pred_option (\<lambda>d. \<not> nullish d \<and> (case d of Str t \<Rightarrow> length t \<le> 10931 | Bytes b \<Rightarrow> length b \<le> 8192 | _ \<Rightarrow> True)) (cv_desc s) \<and>
     pred_option (string_ok 256) (cv_fromDevice s)"

lemmas limit_values [simp] = CALL_ID_MAX_LEN_def CALL_REASON_MAX_LEN_def CALL_DEVICE_KEY_MAX_LEN_def CALL_SENDER_MAX_LEN_def
  CALL_MAX_CODECS_def CALL_MAX_CODEC_LEN_def CALL_KEY_B64_MAX_LEN_def AUDIO_MAX_PACKET_BYTES_def AUDIO_GCM_OVERHEAD_def
  AUDIO_MAX_PACKET_B64_def b64_limit_def VIDEO_MAX_FRAGMENT_BYTES_def VIDEO_FRAGMENT_OVERHEAD_def VIDEO_MAX_CIPHER_BYTES_def
  VIDEO_MAX_PACKET_B64_def VIDEO_MAX_FRAGS_def VIDEO_MAX_WIDTH_def VIDEO_MAX_HEIGHT_def VIDEO_MAX_DESC_BYTES_def
  VIDEO_MAX_DESC_B64_def MAX_SAFE_INTEGER_def

lemma boundedString_ok: "boundedString v n \<noteq> [] \<Longrightarrow> string_ok n (boundedString v n)"
  by (auto simp: boundedString_def string_ok_def split: jsv.splits if_splits)

lemma string_ok_nonempty: "string_ok n s \<Longrightarrow> s \<noteq> []"
  by (simp add: string_ok_def)

lemma boundedString_Str [simp]: "string_ok n s \<Longrightarrow> boundedString (Str s) n = s"
  by (simp add: boundedString_def string_ok_def)

lemma bounded_field_ok: "pred_option (string_ok n) (bounded_field v n)"
  using boundedString_ok by (simp add: bounded_field_def Let_def)

lemma bounded_field_opt [simp]:
  "pred_option (string_ok n) v \<Longrightarrow> bounded_field (field_or Undef Str (v)) n = v"
  by (cases v) (auto simp: bounded_field_def boundedString_def string_ok_def)

lemma item_string_simps [simp]: "item_string (Str s) = s" "item_string Undef = []" "item_string Null = []"
  by (simp_all add: item_string_def)

lemma capability_list_length: "capability_list cs \<Longrightarrow> length cs \<le> 2"
proof -
  assume c: "capability_list cs"
  have "length cs = card (set cs)" using c by (simp add: capability_list_def distinct_card)
  also have "\<dots> \<le> card {VIDEO_CODEC_VP8, VIDEO_CODEC_AVC1}" using c by (intro card_mono) (auto simp: capability_list_def)
  finally show ?thesis by simp
qed

lemma sanitizeCapabilities_ok: "caps_ok (sanitizeCapabilities raw)"
  by (auto simp: sanitizeCapabilities_def caps_ok_def Let_def) (simp_all add: capability_list_def)

lemma caps_obj_truthy [simp]: "js_Boolean (caps_obj c)" "is_object (caps_obj c)"
  by (simp_all add: caps_obj_def)

lemma sanitizeCapabilities_obj [simp]: "caps_ok c \<Longrightarrow> sanitizeCapabilities (caps_obj c) = c"
  using capability_list_length [of "cap_video c"]
  by (cases c) (auto simp: sanitizeCapabilities_def caps_obj_def caps_ok_def Let_def o_def)

lemma sanitizeCodecList_ok: "distinct (sanitizeCodecList v)" "set (sanitizeCodecList v) \<subseteq> set CALL_AUDIO_CODECS"
  by (auto simp: sanitizeCodecList_def distinct_collect_new set_collect_new codec_item_def Let_def split: if_splits)

lemma sanitizeCodecList_obj:
  assumes "distinct cs" "set cs \<subseteq> set CALL_AUDIO_CODECS"
  shows "sanitizeCodecList (Arr (map Str cs)) = cs"
proof -
  have "length cs = card (set cs)" using assms by (simp add: distinct_card)
  also have "\<dots> \<le> card (set CALL_AUDIO_CODECS)" using assms by (intro card_mono) auto
  finally have len: "length cs \<le> 8" by (simp add: CALL_AUDIO_CODECS_def)
  have "(codec_item \<circ> Str) c = Some c" if "c \<in> set cs" for c
    using that assms(2) by (auto simp: codec_item_def CALL_AUDIO_CODECS_def)
  then show ?thesis
    using assms len collect_new_fixed [of "[]" cs "codec_item \<circ> Str"]
    by (simp add: sanitizeCodecList_def collect_new_map take_map)
qed

lemma num_field_opt [simp]:
  "finite_num (js_Number (field_or Undef num_field (v))) = v"
  by (cases v) (auto simp: num_field_def finite_num_def)

lemma int_field_opt [simp]:
  "integer_num (js_Number (field_or Undef (\<lambda>n. Num (Fin (of_int n))) (v))) = v"
  by (cases v) (auto simp: integer_num_def)

lemma signal_codec_known: "pred_option (\<lambda>c. c \<in> set CALL_AUDIO_CODECS) (signal_codec v)"
  by (auto simp: signal_codec_def split: jsv.splits)

lemma signal_codec_field [simp]:
  "pred_option (\<lambda>c. c \<in> set CALL_AUDIO_CODECS) w \<Longrightarrow> signal_codec (field_or Undef Str w) = w"
  by (cases w) (auto simp: signal_codec_def CALL_AUDIO_CODECS_def)

lemma signal_time_bounded: "pred_option (\<lambda>t. \<bar>t\<bar> \<le> 2 ^ 53 - 1) (signal_time v)"
  by (auto simp: signal_time_def split: option.splits)

lemma signal_time_field [simp]:
  "pred_option (\<lambda>t. \<bar>t\<bar> \<le> 2 ^ 53 - 1) w \<Longrightarrow> signal_time (field_or Undef num_field w) = w"
  by (cases w) (auto simp: signal_time_def num_field_def finite_num_def)

lemma stream_of_facts: "stream_of v \<in> {''camera'', ''screen''}" "st \<in> {''camera'', ''screen''} \<Longrightarrow> stream_of (Str st) = st"
  by (auto simp: stream_of_def)

lemma signal_capabilities_ok: "pred_option caps_ok (signal_capabilities c)"
  by (simp add: signal_capabilities_def sanitizeCapabilities_ok)

lemma signal_capabilities_field [simp]:
  "pred_option caps_ok w \<Longrightarrow> signal_capabilities (field_or Undef caps_obj w) = w"
  by (cases w) (simp_all add: signal_capabilities_def)

lemma pred_option_if [simp]: "pred_option P (if c then x else None) \<longleftrightarrow> (c \<longrightarrow> pred_option P x)"
  by simp

lemma if_None_iff: "((if c then x else None) \<noteq> None \<longrightarrow> c)"
  by simp

lemma if_Some_iff: "((if c then Some x else None) \<noteq> None) = c"
  by simp

lemma signal_fields_ok:
  assumes "op \<in> set CALL_SIGNAL_OPS" "string_ok 128 callId"
  shows "signal_ok (signal_fields op callId msg)"
  unfolding signal_ok_def signal_fields_def clean_signal.simps limit_values
  using assms by (intro conjI if_None_iff if_Some_iff) (simp_all add: bounded_field_ok signal_codec_known signal_time_bounded [simplified]
      signal_capabilities_ok stream_of_def)

lemma sanitizeCallSignal_Some:
  assumes "sanitizeCallSignal msg = Some s"
  shows "\<exists>op callId. op \<in> set CALL_SIGNAL_OPS \<and> string_ok 128 callId \<and> s = signal_fields op callId msg"
  using assms boundedString_ok [of "get msg ''callId''" 128]
  unfolding sanitizeCallSignal_def Let_def limit_values by (metis option.distinct(1) option.inject)

lemma sanitizeCallSignal_bounded: "sanitizeCallSignal msg = Some s \<Longrightarrow> signal_ok s"
  using sanitizeCallSignal_Some signal_fields_ok by blast

lemma signal_obj_get:
  "js_Boolean (signal_obj s)" "is_object (signal_obj s)"
  "get (signal_obj s) ''op'' = Str (csg_op s)" "get (signal_obj s) ''callId'' = Str (csg_callId s)"
  "get (signal_obj s) ''fromDevice'' = field_or Undef Str (csg_fromDevice s)"
  "get (signal_obj s) ''codec'' = field_or Undef Str (csg_codec s)"
  "get (signal_obj s) ''reason'' = field_or Undef Str (csg_reason s)"
  "get (signal_obj s) ''t'' = field_or Undef num_field (csg_t s)"
  "get (signal_obj s) ''stream'' = field_or Undef Str (csg_stream s)"
  "get (signal_obj s) ''capabilities'' = field_or Undef caps_obj (csg_capabilities s)"
  by (simp_all add: signal_obj_def)

lemma if_field: "(x \<noteq> None \<longrightarrow> c) \<Longrightarrow> f = x \<Longrightarrow> (if c then f else None) = x"
  by auto

lemma sanitizeCallSignal_obj:
  assumes "signal_ok s"
  shows "sanitizeCallSignal (signal_obj s) = Some s"
proof -
  note ok = assms [unfolded signal_ok_def]
  have st: "pred_option (\<lambda>st. st \<in> {''camera'', ''screen''}) (csg_stream s)"
    "(csg_stream s \<noteq> None) = (csg_op s \<in> {''video-on'', ''video-off'', ''screen-on'', ''screen-off'', ''keyframe''})"
    using ok by - (elim conjE, assumption)+
  have "(if csg_op s \<in> {''video-on'', ''video-off'', ''screen-on'', ''screen-off'', ''keyframe''}
      then Some (stream_of (field_or Undef Str (csg_stream s))) else None) = csg_stream s"
    using st by (cases "csg_stream s") (auto simp: stream_of_def)
  then have "signal_fields (csg_op s) (csg_callId s) (signal_obj s) = s"
    unfolding signal_fields_def signal_obj_get limit_values
    using ok by (intro clean_signal.equality) (simp_all add: if_field)
  moreover have "csg_callId s \<noteq> []" "boundedString (Str (csg_callId s)) 128 = csg_callId s" "csg_op s \<in> set CALL_SIGNAL_OPS"
    using ok string_ok_nonempty boundedString_Str by blast+
  ultimately show ?thesis by (simp add: sanitizeCallSignal_def signal_obj_get)
qed

lemma sanitizeCallOffer_bounded: "sanitizeCallOffer msg = Some s \<Longrightarrow> offer_ok s"
  using boundedString_ok [of "get msg ''callId''" 128] boundedString_ok [of "get msg ''callKeyB64''" 64]
    sanitizeCodecList_ok [of "get msg ''codecs''"] sanitizeCapabilities_ok [of "get msg ''capabilities''"]
    bounded_field_ok [of 128 "get msg ''sender''"] bounded_field_ok [of 256 "get msg ''fromDevice''"]
  unfolding sanitizeCallOffer_def offer_ok_def Let_def by (auto split: if_splits option.splits)

lemma sanitizeCallOffer_obj: "offer_ok s \<Longrightarrow> sanitizeCallOffer (offer_obj s) = Some s"
  using sanitizeCodecList_obj [of "co_codecs s"]
  unfolding sanitizeCallOffer_def offer_obj_def offer_ok_def
  by (cases s; cases "co_timestamp s") (auto simp: Let_def num_field_def finite_num_def dest: string_ok_nonempty)

lemma payloadWithin_iff: "payloadWithin v m n \<longleftrightarrow> payload_ok m n v"
  by (cases v) (auto simp: payloadWithin_def payload_ok_def payloadByteLength_def)

lemma isSafeSeq_number: "isSafeSeq v \<Longrightarrow> 0 \<le> seq_number v \<and> seq_number v < 2 ^ 53 \<and> integer_num (js_Number v) = Some (seq_number v)"
  by (auto simp: isSafeSeq_def seq_number_def integer_num_def split: option.splits jsnum.splits if_splits)

lemma isSafeSeq_JInt: "0 \<le> n \<Longrightarrow> n < 2 ^ 53 \<Longrightarrow> isSafeSeq (JInt n) \<and> seq_number (JInt n) = n"
  by (simp add: isSafeSeq_def seq_number_def integer_num_def)

lemma sanitizeCallAudio_bounded: "sanitizeCallAudio msg = Some s \<Longrightarrow> audio_ok s"
  using boundedString_ok [of "get msg ''callId''" 128] bounded_field_ok [of 256 "get msg ''fromDevice''"]
    isSafeSeq_number [of "get msg ''seq''"]
  unfolding sanitizeCallAudio_def audio_ok_def Let_def by (auto simp: payloadWithin_iff split: if_splits)

lemma sanitizeCallAudio_obj: "audio_ok s \<Longrightarrow> sanitizeCallAudio (audio_obj s) = Some s"
  using isSafeSeq_JInt [of "ca_seq s"]
  unfolding sanitizeCallAudio_def audio_obj_def audio_ok_def
  by (cases s) (auto simp: Let_def payloadWithin_iff dest: string_ok_nonempty)

lemma plausible_size:
  assumes "isPlausibleVideoSize w h"
  shows "pred_option (\<lambda>n. 0 \<le> n \<and> n \<le> 3840) (integer_num (js_Number w))"
    and "pred_option (\<lambda>n. 0 \<le> n \<and> n \<le> 2160) (integer_num (js_Number h))"
    and "integer_num (js_Number w) \<noteq> Some 0 \<Longrightarrow> integer_num (js_Number h) \<noteq> Some 0 \<Longrightarrow>
      isPlausibleVideoSize (field_or Undef (\<lambda>n. Num (Fin (of_int n))) (integer_num (js_Number w)))
        (field_or Undef (\<lambda>n. Num (Fin (of_int n))) (integer_num (js_Number h)))"
proof -
  consider (null) "nullish w" "nullish h" | (size) a b where "integer_num (js_Number w) = Some a"
      "integer_num (js_Number h) = Some b" "1 \<le> a" "1 \<le> b" "a \<le> 3840" "b \<le> 2160"
    using assms by (auto simp: isPlausibleVideoSize_def split: if_splits option.splits)
  then show "pred_option (\<lambda>n. 0 \<le> n \<and> n \<le> 3840) (integer_num (js_Number w))"
    "pred_option (\<lambda>n. 0 \<le> n \<and> n \<le> 2160) (integer_num (js_Number h))"
    "integer_num (js_Number w) \<noteq> Some 0 \<Longrightarrow> integer_num (js_Number h) \<noteq> Some 0 \<Longrightarrow>
      isPlausibleVideoSize (field_or Undef (\<lambda>n. Num (Fin (of_int n))) (integer_num (js_Number w)))
        (field_or Undef (\<lambda>n. Num (Fin (of_int n))) (integer_num (js_Number h)))"
    by (cases; auto simp: nullish_def integer_num_def isPlausibleVideoSize_def)+
qed

lemma video_codec_kept:
  "video_codec_ok v \<Longrightarrow> \<not> nullish v \<Longrightarrow> isAllowedVideoCodec (js_String v) \<and> length (js_String v) \<le> 32"
proof -
  assume v: "video_codec_ok v" "\<not> nullish v"
  then have a: "isAllowedVideoCodec (item_string v)" "length (item_string v) \<le> 32" by (simp_all add: video_codec_ok_def)
  then have "js_Boolean v"
    by (cases "js_Boolean v") (simp_all add: item_string_def js_orv_def isAllowedVideoCodec_def js_startsWith_def js_toLowerCase_def)
  then show ?thesis using a by (simp add: item_string_def js_orv_def)
qed

lemma sanitizeCallVideo_Some:
  assumes "sanitizeCallVideo msg = Some s"
  shows "boundedString (get msg ''callId'') 128 = cv_callId s" "cv_callId s \<noteq> []" "isSafeSeq (get msg ''seq'')"
    "cv_seq s = seq_number (get msg ''seq'')" "1 \<le> cv_frags s" "cv_frags s \<le> 64" "0 \<le> cv_frag s" "cv_frag s < cv_frags s"
    "payload_ok 24640 32862 (cv_data s)" "video_codec_ok (get msg ''codec'')" "isPlausibleVideoSize (get msg ''w'') (get msg ''h'')"
    "desc_within (get msg ''desc'')" "cv_stream s = stream_of (get msg ''stream'')"
    "cv_codec s = (if nullish (get msg ''codec'') then None else Some (js_String (get msg ''codec'')))"
    "cv_w s = integer_num (js_Number (get msg ''w''))" "cv_h s = integer_num (js_Number (get msg ''h''))"
    "cv_desc s = (if nullish (get msg ''desc'') then None else Some (get msg ''desc''))"
    "cv_fromDevice s = bounded_field (get msg ''fromDevice'') 256"
  using assms unfolding sanitizeCallVideo_def Let_def by (auto simp: payloadWithin_iff split: if_splits option.splits)

lemma sanitizeCallVideo_bounded:
  assumes "sanitizeCallVideo msg = Some s"
  shows "video_ok s"
proof -
  note f = sanitizeCallVideo_Some [OF assms]
  have "pred_option (\<lambda>c. isAllowedVideoCodec c \<and> length c \<le> 32) (cv_codec s)"
    using video_codec_kept [OF f(10)] by (simp add: f(14))
  moreover have "pred_option (\<lambda>d. \<not> nullish d \<and> (case d of Str t \<Rightarrow> length t \<le> 10931 | Bytes b \<Rightarrow> length b \<le> 8192 | _ \<Rightarrow> True)) (cv_desc s)"
    using f(12) by (auto simp: f(17) desc_within_def payloadByteLength_def split: jsv.splits)
  ultimately show ?thesis
    using f(1-9) boundedString_ok [of "get msg ''callId''" 128] isSafeSeq_number [OF f(3)] stream_of_facts(1)
      plausible_size [OF f(11)] bounded_field_ok [of 256]
    by (simp add: video_ok_def f(13) f(15) f(16) f(18))
qed

lemma sanitizeCallVideo_obj:
  assumes "video_ok s" "1 \<le> cv_frags s" "desc_within (field_or Undef id (cv_desc s))"
    and "isPlausibleVideoSize (field_or Undef (\<lambda>n. Num (Fin (of_int n))) (cv_w s))
        (field_or Undef (\<lambda>n. Num (Fin (of_int n))) (cv_h s))"
  shows "sanitizeCallVideo (video_obj s) = Some s"
proof -
  note ok = assms(1) [unfolded video_ok_def]
  have so: "string_ok 128 (cv_callId s)" "pred_option (\<lambda>c. isAllowedVideoCodec c \<and> length c \<le> 32) (cv_codec s)"
    "0 \<le> cv_seq s" "cv_seq s < 2 ^ 53" "cv_stream s \<in> {''camera'', ''screen''}" "0 \<le> cv_frag s" "cv_frag s < cv_frags s"
    "cv_frags s \<le> 64" "payload_ok 24640 32862 (cv_data s)" "pred_option (string_ok 256) (cv_fromDevice s)"
    using ok by - (elim conjE, assumption)+
  have dn: "pred_option (\<lambda>d. \<not> nullish d) (cv_desc s)"
    using ok by (elim conjE) (erule option.pred_mono_strong, simp)
  have id: "cv_callId s \<noteq> []" "boundedString (Str (cv_callId s)) 128 = cv_callId s"
    using so(1) by (simp_all add: string_ok_nonempty)
  have co: "video_codec_ok (field_or Undef Str (cv_codec s))"
    using so(2) by (cases "cv_codec s") (simp_all add: video_codec_ok_def)
  have seq: "isSafeSeq (Num (Fin (of_int (cv_seq s))))" "seq_number (Num (Fin (of_int (cv_seq s)))) = cv_seq s"
    using isSafeSeq_JInt [OF so(3,4)] by blast+
  have fr: "integer_num (Fin (of_int n)) = Some n" for n by simp
  show ?thesis
    unfolding sanitizeCallVideo_def video_obj_def
    using so id co dn seq assms(2-) stream_of_facts(2) [OF so(5)]
    by (cases s; cases "cv_codec s"; cases "cv_desc s") (simp_all add: Let_def payloadWithin_iff fr)
qed

lemma sanitizeCallVideo_again:
  assumes "sanitizeCallVideo msg = Some s" "cv_w s \<noteq> Some 0" "cv_h s \<noteq> Some 0"
  shows "sanitizeCallVideo (video_obj s) = Some s"
proof (rule sanitizeCallVideo_obj)
  note f = sanitizeCallVideo_Some [OF assms(1)]
  show "video_ok s" using sanitizeCallVideo_bounded [OF assms(1)] .
  show "1 \<le> cv_frags s" using f(5) .
  show "desc_within (field_or Undef id (cv_desc s))" using f(12) by (simp add: f(17)) (simp add: desc_within_def)
  show "isPlausibleVideoSize (field_or Undef (\<lambda>n. Num (Fin (of_int n))) (cv_w s)) (field_or Undef (\<lambda>n. Num (Fin (of_int n))) (cv_h s))"
    using plausible_size(3) [OF f(11)] assms(2,3) unfolding f(15) f(16) .
qed

text \<open>
  Whatever a peer sends, a message that passes a call sanitiser is within the limits: known
  operations, codecs and streams only, bounded strings, payloads, sequence numbers, fragment counts and
  video sizes, and fields only where their operation has them. And the sanitisers are projections: the
  sanitised message passes again unchanged (for video unless its size came out as zero).
\<close>

theorem call_sanitisers_project:
  "(sanitizeCallSignal msg = Some s \<longrightarrow> signal_ok s \<and> sanitizeCallSignal (signal_obj s) = Some s) \<and>
   (sanitizeCallOffer msg = Some f \<longrightarrow> offer_ok f \<and> sanitizeCallOffer (offer_obj f) = Some f) \<and>
   (sanitizeCallAudio msg = Some a \<longrightarrow> audio_ok a \<and> sanitizeCallAudio (audio_obj a) = Some a) \<and>
   (sanitizeCallVideo msg = Some v \<longrightarrow> video_ok v \<and>
      (cv_w v \<noteq> Some 0 \<and> cv_h v \<noteq> Some 0 \<longrightarrow> sanitizeCallVideo (video_obj v) = Some v))"
  using sanitizeCallSignal_bounded sanitizeCallSignal_obj sanitizeCallOffer_bounded sanitizeCallOffer_obj
    sanitizeCallAudio_bounded sanitizeCallAudio_obj sanitizeCallVideo_bounded sanitizeCallVideo_again by blast

theorem call_sanitisers_project_witness:
  "let msg = Obj [(''op'', Str ''ping''), (''callId'', Str ''c1''), (''t'', JInt 5), (''junk'', Arr [Null]), (''codec'', Str ''opus'')];
       s = \<lparr>csg_op = ''ping'', csg_callId = ''c1'', csg_fromDevice = None, csg_codec = None, csg_reason = None, csg_t = Some 5,
             csg_stream = None, csg_capabilities = None\<rparr>
   in sanitizeCallSignal msg = Some s \<and> sanitizeCallSignal (signal_obj s) = Some s"
proof -
  have "sanitizeCallSignal (Obj [(''op'', Str ''ping''), (''callId'', Str ''c1''), (''t'', JInt 5), (''junk'', Arr [Null]),
      (''codec'', Str ''opus'')]) = Some \<lparr>csg_op = ''ping'', csg_callId = ''c1'', csg_fromDevice = None, csg_codec = None,
        csg_reason = None, csg_t = Some 5, csg_stream = None, csg_capabilities = None\<rparr>"
    by (simp add: sanitizeCallSignal_def signal_fields_def CALL_SIGNAL_OPS_def boundedString_def bounded_field_def
        signal_time_def finite_num_def)
  then show ?thesis using call_sanitisers_project by (auto simp: Let_def)
qed

text \<open>
  Two gaps of the video sanitiser. A packet whose size fields are \<open>null\<close> passes, and comes out with
  width and height 0 (\<open>Number(null)\<close>), which the frame reassembler then refuses; and a \<open>desc\<close> that is
  neither a string nor binary passes whatever its size.
\<close>

definition sample_video :: "jsv \<Rightarrow> jsv \<Rightarrow> jsv" where
  "sample_video wh desc = Obj [(''callId'', Str ''k1''), (''seq'', JInt 1), (''frags'', JInt 1), (''frag'', JInt 0),
     (''data'', Str ''AAAA''), (''w'', wh), (''h'', wh), (''desc'', desc)]"

lemma sample_video_passes:
  assumes "desc_within desc" "isPlausibleVideoSize wh wh"
  shows "\<exists>v. sanitizeCallVideo (sample_video wh desc) = Some v \<and> cv_w v = integer_num (js_Number wh) \<and>
     cv_desc v = (if nullish desc then None else Some desc)"
  using assms
  by (simp add: sanitizeCallVideo_def sample_video_def boundedString_def isSafeSeq_def payloadWithin_def video_codec_ok_def Let_def)

lemma null_size_becomes_zero: "\<exists>v. sanitizeCallVideo (sample_video Null Undef) = Some v \<and> cv_w v = Some 0"
  using sample_video_passes [of Undef Null] by (auto simp: desc_within_def isPlausibleVideoSize_def)

lemma object_desc_unbounded: "\<exists>v. sanitizeCallVideo (sample_video Undef (Arr (replicate n (Str big)))) = Some v \<and>
    cv_desc v = Some (Arr (replicate n (Str big)))"
  using sample_video_passes [of "Arr (replicate n (Str big))" Undef]
  by (auto simp: desc_within_def isPlausibleVideoSize_def payloadByteLength_def)

end
