(* ===== verification/Byte_Codec.thy ===== *)
theory Byte_Codec
  imports JS_Prelude
begin

text \<open>
  Big-endian numbers in byte arrays (what \<open>DataView.setUint32\<close>, \<open>getUint32\<close> and the shifts of the
  framing code do), and the interface \<open>length_prefix\<close> of a length-prefixed framing: the audio packets of a
  call prefix two bytes (\<open>calls/frames.js\<close>), the records of a peer connection four
  (\<open>peerProtocol/frames.js\<close>). The lemmas of the locale say that a prefixed frame can be split off what
  follows it and that a sequence of frames is uniquely readable from its concatenation.
\<close>

section \<open>Big-endian numbers\<close>

fun be_bytes :: "nat \<Rightarrow> nat \<Rightarrow> bytes" where
  "be_bytes 0 n = []"
| "be_bytes (Suc k) n = be_bytes k (n div 256) @ [of_nat n]"

definition be_value :: "bytes \<Rightarrow> nat" where
  "be_value bs = fold (\<lambda>b acc. acc * 256 + unat b) bs 0"

lemma length_be_bytes [simp]: "length (be_bytes k n) = k"
  by (induction k arbitrary: n) auto

lemma be_value_append_single [simp]: "be_value (bs @ [b]) = be_value bs * 256 + unat b"
  by (simp add: be_value_def)

lemma be_value_Nil [simp]: "be_value [] = 0"
  by (simp add: be_value_def)

lemma unat_byte: "unat (of_nat n :: byte) = n mod 256"
  by (simp add: unat_of_nat)

lemma unat_byte_less: "unat (b :: byte) < 256"
  using unsigned_less [of b] by simp

lemma be_value_be_bytes_mod: "be_value (be_bytes k n) = n mod 256 ^ k"
proof (induction k arbitrary: n)
  case (Suc k)
  have "n mod 256 ^ Suc k = (n div 256 mod 256 ^ k) * 256 + n mod 256"
    by (simp add: mod_mult2_eq mult.commute)
  then show ?case using Suc by (simp add: unat_byte)
qed simp

lemma be_value_be_bytes [simp]: "n < 256 ^ k \<Longrightarrow> be_value (be_bytes k n) = n"
  by (simp add: be_value_be_bytes_mod)

lemma be_value_less: "be_value bs < 256 ^ length bs"
proof (induction bs rule: rev_induct)
  case (snoc b bs)
  have "unat b < 256" by (rule unat_byte_less)
  then have "be_value bs * 256 + unat b < Suc (be_value bs) * 256" by simp
  also have "\<dots> \<le> 256 ^ length bs * 256" using snoc by (intro mult_right_mono) simp_all
  finally show ?case by (simp add: mult.commute)
qed simp

lemma be_bytes_be_value: "be_bytes (length bs) (be_value bs) = bs"
proof (induction bs rule: rev_induct)
  case (snoc b bs)
  have "unat b < 256" by (rule unat_byte_less)
  then have "(be_value bs * 256 + unat b) div 256 = be_value bs" by simp
  moreover have "(of_nat (be_value bs * 256 + unat b) :: byte) = b"
  proof (rule word_unat_eq_iff [THEN iffD2])
    show "unat (of_nat (be_value bs * 256 + unat b) :: byte) = unat b"
      unfolding unat_byte using unat_byte_less [of b] by simp
  qed
  ultimately show ?case using snoc by simp
qed simp

lemma be_bytes_inj: "be_bytes k m = be_bytes k n \<Longrightarrow> m < 256 ^ k \<Longrightarrow> n < 256 ^ k \<Longrightarrow> m = n"
  by (metis be_value_be_bytes)

lemma be_bytes_mod: "be_bytes k (n mod 256 ^ k) = be_bytes k n"
  by (metis be_bytes_be_value be_value_be_bytes_mod length_be_bytes)

section \<open>Length-prefixed frames\<close>

locale length_prefix =
  fixes hdr :: "nat \<Rightarrow> bytes" and len :: "bytes \<Rightarrow> nat" and width :: nat and bound :: nat
  assumes hdr_length: "length (hdr n) = width"
    and len_hdr: "n \<le> bound \<Longrightarrow> len (hdr n) = n"
    and width_pos: "0 < width"
begin

lemma frame_split:
  assumes "length b \<le> bound"
  shows "len (take width (hdr (length b) @ b @ rest)) = length b"
    and "take (length b) (drop width (hdr (length b) @ b @ rest)) = b"
    and "drop (width + length b) (hdr (length b) @ b @ rest) = rest"
  using assms by (simp_all add: hdr_length len_hdr)

lemma frames_unique:
  assumes "concat (map (\<lambda>b. hdr (length b) @ b) xs) = concat (map (\<lambda>b. hdr (length b) @ b) ys)"
    and "\<forall>b \<in> set xs \<union> set ys. length b \<le> bound"
  shows "xs = ys"
  using assms
proof (induction xs arbitrary: ys)
  case Nil
  then have "ys = []" using hdr_length width_pos by (cases ys) (auto dest: arg_cong [of _ _ length])
  then show ?case by simp
next
  case (Cons x xs)
  obtain y ys' where ys: "ys = y # ys'"
    using Cons.prems(1) hdr_length width_pos by (cases ys) (auto dest: arg_cong [of _ _ length])
  have eq: "hdr (length x) @ x @ concat (map (\<lambda>b. hdr (length b) @ b) xs) =
      hdr (length y) @ y @ concat (map (\<lambda>b. hdr (length b) @ b) ys')"
    using Cons.prems(1) ys by simp
  then have "take width (hdr (length x) @ x @ concat (map (\<lambda>b. hdr (length b) @ b) xs)) =
      take width (hdr (length y) @ y @ concat (map (\<lambda>b. hdr (length b) @ b) ys'))" by (rule arg_cong)
  then have h: "hdr (length x) = hdr (length y)" by (simp add: hdr_length)
  have "length x \<le> bound" "length y \<le> bound" using Cons.prems(2) ys by auto
  then have l: "length x = length y" using h len_hdr by metis
  then have "x = y" "concat (map (\<lambda>b. hdr (length b) @ b) xs) = concat (map (\<lambda>b. hdr (length b) @ b) ys')"
    using eq h l by simp_all
  then show ?case using Cons.IH [of ys'] Cons.prems(2) ys by simp
qed

end

text \<open>Every big-endian width is such a framing.\<close>

lemma be_length_prefix: "0 < k \<Longrightarrow> b < 256 ^ k \<Longrightarrow> length_prefix (be_bytes k) be_value k b"
  by unfold_locales simp_all

end
