(* ===== verification/Call_Wire.thy ===== *)
theory Call_Wire
  imports Byte_Codec JS_Values
begin

text \<open>
  What a call puts on the wire: the initialisation vectors of the encrypted media packets
  (\<open>src/renderer/calls/iv.js\<close>) and the packing of several Opus frames into one packet
  (\<open>src/renderer/calls/frames.js\<close>). \<open>DataView\<close> accesses are big-endian; \<open>>>> 0\<close> is reduction modulo \<open>2^32\<close>.
\<close>

section \<open>Initialisation vectors\<close>

definition CALL_DIR_OUT :: int where "CALL_DIR_OUT = 0x00000001"
definition CALL_DIR_IN :: int where "CALL_DIR_IN = 0x00000002"
definition CALL_IV_CAM_OUT :: int where "CALL_IV_CAM_OUT = 0x00000011"
definition CALL_IV_CAM_IN :: int where "CALL_IV_CAM_IN = 0x00000012"
definition CALL_IV_SCREEN_OUT :: int where "CALL_IV_SCREEN_OUT = 0x00000021"
definition CALL_IV_SCREEN_IN :: int where "CALL_IV_SCREEN_IN = 0x00000022"

definition callVideoIvDirection :: "string \<Rightarrow> string \<Rightarrow> bool \<Rightarrow> int" where
  "callVideoIvDirection stream role sending =
     (let isCaller = (role = ''caller''); callerToCallee = (if sending then isCaller else \<not> isCaller)
      in if stream = ''screen'' then (if callerToCallee then CALL_IV_SCREEN_OUT else CALL_IV_SCREEN_IN)
         else if callerToCallee then CALL_IV_CAM_OUT else CALL_IV_CAM_IN)"

text \<open>The audio pipeline's choice of direction for a role (\<open>audioPipeline.js\<close>).\<close>

definition callAudioIvDirection :: "string \<Rightarrow> bool \<Rightarrow> int" where
  "callAudioIvDirection role sending =
     (if sending then (if role = ''caller'' then CALL_DIR_OUT else CALL_DIR_IN)
      else (if role = ''caller'' then CALL_DIR_IN else CALL_DIR_OUT))"

definition to_uint32 :: "int \<Rightarrow> nat" where
  "to_uint32 n = nat (n mod 2 ^ 32)"

text \<open>\<open>Number(x) >>> 0\<close>: the integer part modulo \<open>2^32\<close>, 0 for what is not finite.\<close>

definition number_to_uint32 :: "jsnum \<Rightarrow> nat" where
  "number_to_uint32 n = (case n of Fin r \<Rightarrow> to_uint32 (if r < 0 then \<lceil>r\<rceil> else \<lfloor>r\<rfloor>) | _ \<Rightarrow> 0)"

definition toUint64Parts :: "jsv \<Rightarrow> nat \<times> nat" where
  "toUint64Parts seq =
     (case js_Number seq of
        Fin v \<Rightarrow> if v \<le> 0 then (0, 0) else (to_uint32 (\<lfloor>v\<rfloor> div 0x100000000), to_uint32 \<lfloor>v\<rfloor>)
      | _ \<Rightarrow> (0, 0))"

definition fromUint64Parts :: "nat \<Rightarrow> nat \<Rightarrow> nat" where
  "fromUint64Parts hi lo = hi * 0x100000000 + lo"

definition buildCallIv :: "jsv \<Rightarrow> jsv \<Rightarrow> bytes" where
  "buildCallIv direction seq =
     (let dir = number_to_uint32 (js_Number direction); (hi, lo) = toUint64Parts seq
      in be_bytes 4 dir @ be_bytes 4 hi @ be_bytes 4 lo)"

definition parseCallIv :: "bytes \<Rightarrow> (nat \<times> nat) option" where
  "parseCallIv iv =
     (if length iv \<noteq> 12 then None
      else Some (be_value (take 4 iv), fromUint64Parts (be_value (take 4 (drop 4 iv))) (be_value (take 4 (drop 8 iv)))))"

section \<open>Packed frames\<close>

definition OPUS_FRAME_MS :: int where "OPUS_FRAME_MS = 20"
definition CALL_PACKET_MS :: int where "CALL_PACKET_MS = 60"
definition AUDIO_MAX_PACKED_FRAMES :: nat where "AUDIO_MAX_PACKED_FRAMES = 8"
definition AUDIO_MAX_PACKED_FRAME_BYTES :: nat where "AUDIO_MAX_PACKED_FRAME_BYTES = 4 * 1024"

definition opusFrameTimestampUs :: "int \<Rightarrow> int \<Rightarrow> int" where
  "opusFrameTimestampUs seq frameIndex =
     (let s = max 0 seq; i = max 0 frameIndex in (s * CALL_PACKET_MS + i * OPUS_FRAME_MS) * 1000)"

definition u16_header :: "nat \<Rightarrow> bytes" where
  "u16_header n = [of_nat (n div 256), of_nat n]"

definition u16_value :: "bytes \<Rightarrow> nat" where
  "u16_value bs = (case bs of b0 # b1 # _ \<Rightarrow> unat b0 * 256 + unat b1 | _ \<Rightarrow> 0)"

definition packLengthPrefixedFrames :: "bytes list \<Rightarrow> string + bytes" where
  "packLengthPrefixedFrames chunks =
     (if \<exists>b \<in> set chunks. length b > 0xffff then Inl ''frame_too_long''
      else Inr (concat (map (\<lambda>b. u16_header (length b) @ b) chunks)))"

function unpackLoop :: "nat \<Rightarrow> nat \<Rightarrow> bytes \<Rightarrow> bytes list \<Rightarrow> bytes list" where
  "unpackLoop maxFrames maxFrameBytes bytes frames =
     (if 2 \<le> length bytes \<and> length frames < maxFrames then
        let len = u16_value bytes; rest = drop 2 bytes
        in if len > maxFrameBytes \<or> len > length rest then frames
           else unpackLoop maxFrames maxFrameBytes (drop len rest) (frames @ [take len rest])
      else frames)"
  by pat_completeness auto
termination by (relation "measure (\<lambda>(_, _, bytes, _). length bytes)") auto

declare unpackLoop.simps [simp del]

text \<open>An absent option is 0, as \<open>Number(undefined) || d\<close> is \<open>d\<close>.\<close>

definition unpackLengthPrefixedFrames :: "bytes \<Rightarrow> nat \<Rightarrow> nat \<Rightarrow> bytes list" where
  "unpackLengthPrefixedFrames packed optFrames optBytes =
     (let maxFrames = max 1 (if optFrames = 0 then AUDIO_MAX_PACKED_FRAMES else optFrames);
          maxFrameBytes = max 1 (if optBytes = 0 then AUDIO_MAX_PACKED_FRAME_BYTES else optBytes)
      in unpackLoop maxFrames maxFrameBytes packed [])"

section \<open>Lemmas and properties\<close>

lemma to_uint32_less: "to_uint32 n < 256 ^ 4"
  by (simp add: to_uint32_def nat_less_iff)

lemma to_uint32_id: "0 \<le> n \<Longrightarrow> n < 2 ^ 32 \<Longrightarrow> int (to_uint32 n) = n"
  by (simp add: to_uint32_def)

lemma number_to_uint32_less: "number_to_uint32 n < 256 ^ 4"
  using to_uint32_less by (auto simp: number_to_uint32_def split: jsnum.splits)

lemma uint64_parts:
  assumes "0 \<le> n" "n < 2 ^ 64"
  shows "int (fromUint64Parts (fst (toUint64Parts (JInt n))) (snd (toUint64Parts (JInt n)))) = n"
proof (cases "n = 0")
  case False
  then have "toUint64Parts (JInt n) = (to_uint32 (n div 2 ^ 32), to_uint32 n)" using assms by (simp add: toUint64Parts_def)
  moreover have "int (to_uint32 (n div 2 ^ 32)) = n div 2 ^ 32" using assms by (intro to_uint32_id) simp_all
  moreover have "int (to_uint32 n) = n mod 2 ^ 32" by (simp add: to_uint32_def)
  ultimately show ?thesis by (simp add: fromUint64Parts_def)
qed (simp add: toUint64Parts_def fromUint64Parts_def)

lemma toUint64Parts_less: "fst (toUint64Parts v) < 256 ^ 4" "snd (toUint64Parts v) < 256 ^ 4"
  using to_uint32_less by (auto simp: toUint64Parts_def split: jsnum.splits)

lemma parse_build:
  "parseCallIv (buildCallIv d v) =
     Some (number_to_uint32 (js_Number d), fromUint64Parts (fst (toUint64Parts v)) (snd (toUint64Parts v)))"
proof -
  obtain hi lo where p: "toUint64Parts v = (hi, lo)" by fastforce
  have less: "number_to_uint32 (js_Number d) < 256 ^ 4" "hi < 256 ^ 4" "lo < 256 ^ 4"
    using number_to_uint32_less toUint64Parts_less [of v] p by simp_all
  show ?thesis
    unfolding buildCallIv_def Let_def p prod.case parseCallIv_def fst_conv snd_conv using less by simp
qed

text \<open>
  The initialisation vector of a media packet determines its direction and sequence number (every
  direction below \<open>2^32\<close>, every sequence number below \<open>2^64\<close>): parsing gives both back. Hence no two
  packets of a call share one under the call key: audio and the two video streams use six different
  directions, and what the sender of a stream uses is what its receiver expects.
\<close>

theorem call_iv_unique:
  fixes d :: int and n :: int
  shows "(0 \<le> d \<and> d < 2 ^ 32 \<and> 0 \<le> n \<and> n < 2 ^ 64 \<longrightarrow> length (buildCallIv (JInt d) (JInt n)) = 12 \<and>
      parseCallIv (buildCallIv (JInt d) (JInt n)) = Some (nat d, nat n)) \<and>
    (callVideoIvDirection st ''caller'' True = callVideoIvDirection st ''callee'' False \<and>
     callVideoIvDirection st ''callee'' True = callVideoIvDirection st ''caller'' False \<and>
     callAudioIvDirection ''caller'' True = callAudioIvDirection ''callee'' False \<and>
     callAudioIvDirection ''callee'' True = callAudioIvDirection ''caller'' False) \<and>
    distinct [callAudioIvDirection ''caller'' True, callAudioIvDirection ''callee'' True, callVideoIvDirection ''camera'' ''caller'' True,
      callVideoIvDirection ''camera'' ''callee'' True, callVideoIvDirection ''screen'' ''caller'' True,
      callVideoIvDirection ''screen'' ''callee'' True]"
proof (intro conjI impI)
  assume b: "0 \<le> d \<and> d < 2 ^ 32 \<and> 0 \<le> n \<and> n < 2 ^ 64"
  have "number_to_uint32 (Fin (of_int d)) = nat d" using b to_uint32_id [of d] by (simp add: number_to_uint32_def)
  moreover have "fromUint64Parts (fst (toUint64Parts (JInt n))) (snd (toUint64Parts (JInt n))) = nat n"
    using uint64_parts [of n] b by (metis nat_int)
  ultimately show "parseCallIv (buildCallIv (JInt d) (JInt n)) = Some (nat d, nat n)" by (simp add: parse_build)
  show "length (buildCallIv (JInt d) (JInt n)) = 12" by (simp add: buildCallIv_def Let_def case_prod_beta)
qed (simp_all add: callVideoIvDirection_def callAudioIvDirection_def CALL_DIR_OUT_def CALL_DIR_IN_def CALL_IV_CAM_OUT_def CALL_IV_CAM_IN_def
      CALL_IV_SCREEN_OUT_def CALL_IV_SCREEN_IN_def)

theorem call_iv_unique_witness:
  "parseCallIv (buildCallIv (JInt 0x21) (JInt 0x1234567890)) = Some (0x21, 0x1234567890)"
  using call_iv_unique [where d = "0x21" and n = "0x1234567890"] by simp

interpretation audio_prefix: length_prefix u16_header u16_value 2 "0xffff"
proof
  show "u16_value (u16_header n) = n" if "n \<le> 0xffff" for n
  proof -
    have "unat (of_nat (n div 256) :: byte) = n div 256" "unat (of_nat n :: byte) = n mod 256"
      using that by (simp_all add: unat_byte)
    then show ?thesis by (simp add: u16_value_def u16_header_def)
  qed
qed (simp_all add: u16_header_def)

lemma u16_value_prefix: "u16_value (u16_header n @ rest) = u16_value (u16_header n)"
  by (simp add: u16_value_def u16_header_def)

lemma unpackLoop_bounds:
  "(\<forall>f \<in> set frames. length f \<le> mb) \<Longrightarrow> length frames \<le> mf \<Longrightarrow>
     length (unpackLoop mf mb bytes frames) \<le> mf \<and> (\<forall>f \<in> set (unpackLoop mf mb bytes frames). length f \<le> mb)"
proof (induction mf mb bytes frames rule: unpackLoop.induct)
  case (1 mf mb bytes frames)
  then show ?case by (subst (1 2) unpackLoop.simps) (auto simp: Let_def)
qed

lemma unpackLoop_packed:
  assumes "\<forall>b \<in> set xs. length b \<le> mb \<and> length b \<le> 0xffff" "length frames + length xs \<le> mf"
  shows "unpackLoop mf mb (concat (map (\<lambda>b. u16_header (length b) @ b) xs)) frames = frames @ xs"
  using assms
proof (induction xs arbitrary: frames)
  case (Cons x xs)
  define rest where "rest = concat (map (\<lambda>b. u16_header (length b) @ b) xs)"
  have v: "u16_value (u16_header (length x) @ x @ rest) = length x"
    using Cons.prems by (simp add: u16_value_prefix audio_prefix.len_hdr)
  have "unpackLoop mf mb (u16_header (length x) @ x @ rest) frames = unpackLoop mf mb rest (frames @ [x])"
    by (subst unpackLoop.simps, unfold Let_def v)
      (use Cons.prems in \<open>simp add: audio_prefix.hdr_length\<close>)
  also have "\<dots> = frames @ [x] @ xs" using Cons.IH [of "frames @ [x]"] Cons.prems by (simp add: rest_def)
  finally show ?case by (simp add: rest_def)
qed (simp add: unpackLoop.simps)

text \<open>
  Packing Opus frames is faithful and unpacking is bounded: packing fails exactly when a frame exceeds
  65535 bytes; frames within the receiver's limits are unpacked as they were packed; two different frame
  lists never give the same packet; and no input, however malformed, makes the receiver produce more
  than its maximum number of frames or a frame larger than its limit (8 frames of 4096 bytes by default).
\<close>

theorem packed_frames_roundtrip:
  "((\<exists>e. packLengthPrefixedFrames xs = Inl e) = (\<exists>b \<in> set xs. length b > 0xffff)) \<and>
   (packLengthPrefixedFrames xs = Inr p \<and> length xs \<le> 8 \<and> (\<forall>b \<in> set xs. length b \<le> 4096) \<longrightarrow>
      unpackLengthPrefixedFrames p 0 0 = xs) \<and>
   (packLengthPrefixedFrames xs = Inr p \<and> packLengthPrefixedFrames ys = Inr p \<longrightarrow> xs = ys) \<and>
   length (unpackLengthPrefixedFrames q mf mb) \<le> max 1 (if mf = 0 then 8 else mf) \<and>
   (\<forall>f \<in> set (unpackLengthPrefixedFrames q mf mb). length f \<le> max 1 (if mb = 0 then 4096 else mb))"
proof (intro conjI impI)
  show "(\<exists>e. packLengthPrefixedFrames xs = Inl e) = (\<exists>b \<in> set xs. length b > 0xffff)"
    by (simp add: packLengthPrefixedFrames_def)
next
  assume a: "packLengthPrefixedFrames xs = Inr p \<and> length xs \<le> 8 \<and> (\<forall>b \<in> set xs. length b \<le> 4096)"
  then have "p = concat (map (\<lambda>b. u16_header (length b) @ b) xs)"
    by (simp add: packLengthPrefixedFrames_def split: if_splits)
  then show "unpackLengthPrefixedFrames p 0 0 = xs"
    using unpackLoop_packed [of xs 4096 "[]" 8] a
    by (force simp: unpackLengthPrefixedFrames_def AUDIO_MAX_PACKED_FRAMES_def AUDIO_MAX_PACKED_FRAME_BYTES_def)
next
  assume "packLengthPrefixedFrames xs = Inr p \<and> packLengthPrefixedFrames ys = Inr p"
  then have eq: "concat (map (\<lambda>b. u16_header (length b) @ b) xs) = concat (map (\<lambda>b. u16_header (length b) @ b) ys)"
    and len: "\<forall>b \<in> set xs \<union> set ys. length b \<le> 0xffff"
    by (auto simp: packLengthPrefixedFrames_def not_less split: if_splits)
  show "xs = ys" using audio_prefix.frames_unique [OF eq len] .
next
  show "length (unpackLengthPrefixedFrames q mf mb) \<le> max 1 (if mf = 0 then 8 else mf)"
    "\<forall>f \<in> set (unpackLengthPrefixedFrames q mf mb). length f \<le> max 1 (if mb = 0 then 4096 else mb)"
    using unpackLoop_bounds [of "[]" "max 1 (if mb = 0 then 4096 else mb)" "max 1 (if mf = 0 then 8 else mf)" q]
    unfolding unpackLengthPrefixedFrames_def AUDIO_MAX_PACKED_FRAMES_def AUDIO_MAX_PACKED_FRAME_BYTES_def Let_def
    by (cases "mf = 0"; cases "mb = 0"; simp)+
qed

theorem packed_frames_roundtrip_witness:
  "unpackLengthPrefixedFrames (u16_header 2 @ [1, 2] @ u16_header 0) 0 0 = [[1, 2], []]"
  using packed_frames_roundtrip [of "[[1, 2], []]" "u16_header 2 @ [1, 2] @ u16_header 0" "[]" "[]" 0 0]
  by (simp add: packLengthPrefixedFrames_def numeral_2_eq_2)

text \<open>
  Decode times grow with the sequence number and the index of a frame as long as a packet holds at
  most three frames; a packet with more frames, which the limit of eight allows, reaches into the time
  of its successor.
\<close>

lemma opusFrameTimestampUs_mono:
  assumes "0 \<le> s" "0 \<le> i" "i < 3" "0 \<le> j" "s < t \<or> (s = t \<and> i < j)"
  shows "opusFrameTimestampUs s i < opusFrameTimestampUs t j"
  using assms by (auto simp: opusFrameTimestampUs_def CALL_PACKET_MS_def OPUS_FRAME_MS_def)

lemma opusFrameTimestampUs_overlap: "opusFrameTimestampUs 0 3 = opusFrameTimestampUs 1 0"
  by (simp add: opusFrameTimestampUs_def CALL_PACKET_MS_def OPUS_FRAME_MS_def)

end
