(* ===== verification/Jitter_Buffer.thy ===== *)
theory Jitter_Buffer
  imports JS_Values "HOL-Library.Multiset"
begin

text \<open>
  The reordering buffer of received audio packets, \<open>src/renderer/calls/jitterBuffer.js\<close>. The closure's
  variables are the record \<open>jitter\<close>; \<open>jb_push\<close>, \<open>jb_pull\<close>, \<open>msUntilDecision\<close>, \<open>jb_size\<close> and
  \<open>jb_reset\<close> are its methods, and the clock is an argument. Sequence numbers are rationals; the audio
  path only pushes the integers that \<open>isSafeSeq\<close> let through.
\<close>

section \<open>Definitions\<close>

definition JITTER_PACKET_MS :: rat where "JITTER_PACKET_MS = 60"

record 'p jitter =
  jb_packetMs :: rat
  jb_waitMs :: rat
  jb_maxQueued :: nat
  jb_queue :: "(rat \<times> 'p) list"
  jb_nextSeq :: "rat option"
  jb_gapSince :: "rat option"

text \<open>The options: \<open>packetMs\<close> and \<open>maxQueued\<close> (0 when absent), \<open>waitMs\<close> (\<open>None\<close> when not finite).\<close>

definition createJitterBuffer :: "rat \<Rightarrow> rat option \<Rightarrow> nat \<Rightarrow> 'p jitter" where
  "createJitterBuffer packetMs waitMs maxQueued =
     (let p = max 1 (if packetMs = 0 then JITTER_PACKET_MS else packetMs)
      in \<lparr>jb_packetMs = p, jb_waitMs = (case waitMs of Some w \<Rightarrow> max 0 w | None \<Rightarrow> p),
          jb_maxQueued = max 2 (if maxQueued = 0 then 16 else maxQueued),
          jb_queue = [], jb_nextSeq = None, jb_gapSince = None\<rparr>)"

definition jb_push :: "'p jitter \<Rightarrow> jsv \<Rightarrow> 'p \<Rightarrow> 'p jitter \<times> bool" where
  "jb_push b seq payload =
     (case js_Number seq of
        Fin n \<Rightarrow>
          if n < 0 then (b, False)
          else if (case jb_nextSeq b of Some s \<Rightarrow> n < s | None \<Rightarrow> False) then (b, False)
          else if list_ex (\<lambda>item. fst item = n) (jb_queue b) then (b, False)
          else (b\<lparr>jb_queue := take (jb_maxQueued b) (sort_key fst (jb_queue b @ [(n, payload)]))\<rparr>, True)
      | _ \<Rightarrow> (b, False))"

datatype 'p jitter_out = Packet rat 'p | Loss rat

fun out_seq :: "'p jitter_out \<Rightarrow> rat" where
  "out_seq (Packet s p) = s"
| "out_seq (Loss s) = s"

definition jb_later :: "'p jitter \<Rightarrow> rat \<Rightarrow> bool" where
  "jb_later b s \<longleftrightarrow> (case jb_queue b of [] \<Rightarrow> False | item # _ \<Rightarrow> fst item > s)"

definition jb_decide :: "'p jitter \<Rightarrow> rat \<Rightarrow> rat \<Rightarrow> 'p jitter \<times> 'p jitter_out option" where
  "jb_decide b s now =
     (case find (\<lambda>item. fst item = s) (jb_queue b) of
        Some item \<Rightarrow> (b\<lparr>jb_queue := remove1 item (jb_queue b), jb_nextSeq := Some (s + 1), jb_gapSince := None\<rparr>,
                       Some (Packet s (snd item)))
      | None \<Rightarrow>
          if \<not> jb_later b s then (b, None)
          else let since = (case jb_gapSince b of Some g \<Rightarrow> g | None \<Rightarrow> now)
               in if now - since \<ge> jb_waitMs b
                  then (b\<lparr>jb_nextSeq := Some (s + 1), jb_gapSince := None\<rparr>, Some (Loss s))
                  else (b\<lparr>jb_gapSince := Some since\<rparr>, None))"

definition jb_pull :: "'p jitter \<Rightarrow> rat \<Rightarrow> 'p jitter \<times> 'p jitter_out option" where
  "jb_pull b now =
     (case jb_nextSeq b of
        Some s \<Rightarrow> jb_decide b s now
      | None \<Rightarrow> (case jb_queue b of [] \<Rightarrow> (b, None)
                 | item # _ \<Rightarrow> jb_decide (b\<lparr>jb_nextSeq := Some (fst item)\<rparr>) (fst item) now))"

definition msUntilDecision :: "'p jitter \<Rightarrow> rat \<Rightarrow> rat" where
  "msUntilDecision b now =
     (case jb_nextSeq b of None \<Rightarrow> 0
      | Some s \<Rightarrow>
          if list_ex (\<lambda>item. fst item = s) (jb_queue b) then 0
          else (case jb_gapSince b of None \<Rightarrow> 0
                | Some g \<Rightarrow> if \<not> jb_later b s then 0 else max 0 (jb_waitMs b - (now - g))))"

definition jb_size :: "'p jitter \<Rightarrow> nat" where
  "jb_size b = length (jb_queue b)"

definition jb_reset :: "'p jitter \<Rightarrow> 'p jitter" where
  "jb_reset b = b\<lparr>jb_queue := [], jb_nextSeq := None, jb_gapSince := None\<rparr>"

section \<open>Runs\<close>

datatype 'p jitter_op = Push int 'p | Pull rat

fun jb_step :: "'p jitter \<Rightarrow> 'p jitter_op \<Rightarrow> 'p jitter \<times> 'p jitter_out list" where
  "jb_step b (Push n p) = (fst (jb_push b (JInt n) p), [])"
| "jb_step b (Pull now) = (case jb_pull b now of (b', r) \<Rightarrow> (b', case r of None \<Rightarrow> [] | Some e \<Rightarrow> [e]))"

fun jb_run :: "'p jitter \<Rightarrow> 'p jitter_op list \<Rightarrow> 'p jitter \<times> 'p jitter_out list" where
  "jb_run b [] = (b, [])"
| "jb_run b (op # ops) = (case jb_step b op of (b', out) \<Rightarrow> case jb_run b' ops of (b'', outs) \<Rightarrow> (b'', out @ outs))"

section \<open>Invariant\<close>

definition jb_inv :: "'p jitter \<Rightarrow> bool" where
  "jb_inv b \<longleftrightarrow> sorted (map fst (jb_queue b)) \<and> distinct (map fst (jb_queue b)) \<and> length (jb_queue b) \<le> jb_maxQueued b \<and>
     2 \<le> jb_maxQueued b \<and> 0 \<le> jb_waitMs b \<and>
     (\<forall>s. jb_nextSeq b = Some s \<longrightarrow> (\<forall>item \<in> set (jb_queue b). s \<le> fst item)) \<and>
     (\<forall>item \<in> set (jb_queue b). fst item \<in> \<int>) \<and> (\<forall>s. jb_nextSeq b = Some s \<longrightarrow> s \<in> \<int>)"

lemma jb_inv_create: "0 \<le> packetMs \<Longrightarrow> jb_inv (createJitterBuffer packetMs waitMs maxQueued)"
  by (auto simp: jb_inv_def createJitterBuffer_def Let_def split: option.splits)

lemma distinct_map_sort_key: "distinct (map f (sort_key g xs)) = distinct (map f xs)"
  by (rule mset_eq_imp_distinct_iff) simp

lemma jb_invD:
  assumes "jb_inv b"
  shows "sorted (map fst (jb_queue b))" "distinct (map fst (jb_queue b))" "length (jb_queue b) \<le> jb_maxQueued b"
    and "jb_nextSeq b = Some s \<Longrightarrow> item \<in> set (jb_queue b) \<Longrightarrow> s \<le> fst item"
    and "item \<in> set (jb_queue b) \<Longrightarrow> fst item \<in> \<int>" "jb_nextSeq b = Some s \<Longrightarrow> s \<in> \<int>" "0 \<le> jb_waitMs b" "2 \<le> jb_maxQueued b"
  using assms unfolding jb_inv_def by blast+

lemma push_queue:
  "jb_push b (JInt n) p = (b, False) \<or>
   ((\<forall>s. jb_nextSeq b = Some s \<longrightarrow> s \<le> of_int n) \<and> of_int n \<notin> fst ` set (jb_queue b) \<and>
    fst (jb_push b (JInt n) p) = b\<lparr>jb_queue := take (jb_maxQueued b) (sort_key fst (jb_queue b @ [(of_int n, p)]))\<rparr>)"
  by (auto simp: jb_push_def list_ex_iff not_less split: option.splits)

lemma push_keeps_inv:
  assumes b: "jb_inv b"
  shows "jb_inv (fst (jb_push b (JInt n) p))"
  using push_queue [of b n p]
proof (elim disjE conjE)
  let ?q = "sort_key fst (jb_queue b @ [(of_int n, p)])"
  assume s: "\<forall>s. jb_nextSeq b = Some s \<longrightarrow> s \<le> of_int n" and n: "of_int n \<notin> fst ` set (jb_queue b)"
    and r: "fst (jb_push b (JInt n) p) = b\<lparr>jb_queue := take (jb_maxQueued b) ?q\<rparr>"
  have "sorted (map fst ?q)" by simp
  moreover have "distinct (map fst ?q)" using jb_invD(2) [OF b] n by (simp only: distinct_map_sort_key) auto
  moreover have "fst i \<in> \<int>" "\<And>s. jb_nextSeq b = Some s \<Longrightarrow> s \<le> fst i" if "i \<in> set (take (jb_maxQueued b) ?q)" for i
  proof -
    have "i = (of_int n, p) \<or> i \<in> set (jb_queue b)" using in_set_takeD [OF that] by auto
    then show "fst i \<in> \<int>" "\<And>s. jb_nextSeq b = Some s \<Longrightarrow> s \<le> fst i"
      using jb_invD(4,5) [OF b] s by (cases i, auto)+
  qed
  ultimately show ?thesis
    using jb_invD(6-8) [OF b] unfolding r jb_inv_def by (simp add: take_map [symmetric] sorted_wrt_take distinct_take)
qed (use b in simp)

lemma decide_cases:
  fixes b :: "'p jitter"
  obtains (packet) item where "item \<in> set (jb_queue b)" "fst item = s"
      "jb_decide b s now = (b\<lparr>jb_queue := remove1 item (jb_queue b), jb_nextSeq := Some (s + 1), jb_gapSince := None\<rparr>,
         Some (Packet s (snd item)))"
  | (wait) g where "\<forall>item \<in> set (jb_queue b). fst item \<noteq> s" "jb_decide b s now = (b\<lparr>jb_gapSince := g\<rparr>, None)"
  | (loss) "\<forall>item \<in> set (jb_queue b). fst item \<noteq> s" "jb_later b s"
      "jb_decide b s now = (b\<lparr>jb_nextSeq := Some (s + 1), jb_gapSince := None\<rparr>, Some (Loss s))"
proof (cases "find (\<lambda>item. fst item = s) (jb_queue b)")
  case None
  then have noitem: "\<forall>item \<in> set (jb_queue b). fst item \<noteq> s" by (auto simp: find_None_iff)
  define since where "since = (case jb_gapSince b of Some g \<Rightarrow> g | None \<Rightarrow> now)"
  have d: "jb_decide b s now = (if \<not> jb_later b s then (b\<lparr>jb_gapSince := jb_gapSince b\<rparr>, None)
      else if now - since \<ge> jb_waitMs b then (b\<lparr>jb_nextSeq := Some (s + 1), jb_gapSince := None\<rparr>, Some (Loss s))
      else (b\<lparr>jb_gapSince := Some since\<rparr>, None))"
    using None by (simp add: jb_decide_def Let_def since_def)
  show ?thesis
  proof (cases "jb_later b s")
    case False
    then show ?thesis using wait [OF noitem, of "jb_gapSince b"] d by simp
  next
    case True
    then show ?thesis using wait [OF noitem] loss [OF noitem] d by (cases "now - since \<ge> jb_waitMs b") simp_all
  qed
next
  case (Some item)
  then have "item \<in> set (jb_queue b)" "fst item = s" by (auto simp: find_Some_iff)
  then show ?thesis using packet [of item] Some by (simp add: jb_decide_def)
qed

lemma int_next:
  assumes "x \<in> \<int>" "s \<in> \<int>" "s \<le> (x :: rat)" "x \<noteq> s"
  shows "s + 1 \<le> x"
proof -
  obtain i j where "x = of_int i" "s = of_int j" using assms(1,2) by (auto elim!: Ints_cases)
  with assms(3,4) show ?thesis by simp
qed

lemma decide_keeps_inv:
  assumes b: "jb_inv b" and s: "jb_nextSeq b = Some s"
  shows "jb_inv (fst (jb_decide b s now))"
proof (cases rule: decide_cases [of b s now])
  case (packet item)
  have "x \<noteq> s" if "x \<in> fst ` set (remove1 item (jb_queue b))" for x
    using that packet(1,2) jb_invD(2) [OF b] by (auto simp: distinct_map inj_on_def set_remove1_eq)
  then have "\<forall>i \<in> set (remove1 item (jb_queue b)). s + 1 \<le> fst i"
    using int_next jb_invD(4-6) [OF b] s by (metis image_eqI notin_set_remove1)
  moreover have "sorted (map fst (remove1 item (jb_queue b)))" "distinct (map fst (remove1 item (jb_queue b)))"
    using jb_invD(1,2) [OF b] by (simp_all add: sorted_map_remove1 distinct_map inj_on_def)
  moreover have "length (remove1 item (jb_queue b)) \<le> jb_maxQueued b"
    using jb_invD(3) [OF b] by (auto simp: length_remove1)
  ultimately show ?thesis
    using b s jb_invD(6) [OF b s] unfolding packet(3) jb_inv_def by (auto dest: notin_set_remove1)
next
  case (wait g)
  then show ?thesis using b by (simp add: jb_inv_def)
next
  case loss
  then have "\<forall>i \<in> set (jb_queue b). s + 1 \<le> fst i" using int_next jb_invD(4-6) [OF b] s by blast
  then show ?thesis using b jb_invD(6) [OF b s] unfolding loss(3) jb_inv_def by auto
qed

lemma start_inv: "jb_inv b \<Longrightarrow> jb_queue b = item # q \<Longrightarrow> jb_inv (b\<lparr>jb_nextSeq := Some (fst item)\<rparr>)"
  by (auto simp: jb_inv_def)

lemma pull_keeps_inv:
  assumes "jb_inv b"
  shows "jb_inv (fst (jb_pull b now))"
proof (cases "jb_nextSeq b")
  case None
  show ?thesis
  proof (cases "jb_queue b")
    case (Cons item q)
    have "jb_inv (fst (jb_decide (b\<lparr>jb_nextSeq := Some (fst item)\<rparr>) (fst item) now))"
      by (rule decide_keeps_inv) (use start_inv [OF assms Cons] in simp_all)
    then show ?thesis using None Cons by (simp add: jb_pull_def)
  qed (use assms None in \<open>simp add: jb_pull_def\<close>)
qed (use decide_keeps_inv [OF assms] in \<open>simp add: jb_pull_def\<close>)

section \<open>Delivery\<close>

lemma set_remove1_sub: "x \<in> set (remove1 y xs) \<Longrightarrow> x \<in> set xs"
  using set_remove1_subset by fastforce

lemma decide_result:
  assumes "jb_decide b s now = (b', r)"
  shows "set (jb_queue b') \<subseteq> set (jb_queue b)"
    and "r = None \<Longrightarrow> jb_nextSeq b' = jb_nextSeq b \<and> (\<forall>item \<in> set (jb_queue b). fst item \<noteq> s)"
    and "r = Some e \<Longrightarrow> out_seq e = s \<and> jb_nextSeq b' = Some (s + 1)" "r = Some (Packet n p) \<Longrightarrow> (n, p) \<in> set (jb_queue b)"
  using assms by (cases rule: decide_cases [of b s now]; force dest: set_remove1_sub)+

lemma pull_cases:
  obtains (empty) "jb_nextSeq b = None" "jb_queue b = []" "jb_pull b now = (b, None)"
  | (decide) s where "jb_pull b now = jb_decide (b\<lparr>jb_nextSeq := Some s\<rparr>) s now"
      "jb_nextSeq b = Some s \<or> jb_nextSeq b = None \<and> (\<exists>p. (s, p) \<in> set (jb_queue b))"
proof (cases "jb_nextSeq b")
  case None
  show ?thesis
  proof (cases "jb_queue b")
    case (Cons item q)
    then have "(fst item, snd item) \<in> set (jb_queue b)" by simp
    then have "\<exists>p. (fst item, p) \<in> set (jb_queue b)" by blast
    then show ?thesis by (rule decide [of "fst item", rotated, OF disjI2 [OF conjI [OF None]]]) (simp add: jb_pull_def None Cons)
  qed (use empty None in \<open>simp add: jb_pull_def\<close>)
next
  case (Some s)
  have eq: "b\<lparr>jb_nextSeq := Some s\<rparr> = b" using Some by (cases b) simp
  show ?thesis by (rule decide [of s], unfold eq) (simp_all add: jb_pull_def Some)
qed

lemma pull_result:
  assumes "jb_pull b now = (b', r)"
  shows "set (jb_queue b') \<subseteq> set (jb_queue b)" "r = None \<Longrightarrow> jb_nextSeq b' = jb_nextSeq b"
    and "r = Some e \<Longrightarrow> jb_nextSeq b' = Some (out_seq e + 1)"
    and "r = Some e \<Longrightarrow> jb_nextSeq b = Some s \<Longrightarrow> out_seq e = s" "r = Some (Packet n p) \<Longrightarrow> (n, p) \<in> set (jb_queue b)"
proof -
  have "set (jb_queue b') \<subseteq> set (jb_queue b) \<and> (r = None \<longrightarrow> jb_nextSeq b' = jb_nextSeq b) \<and>
      (\<forall>e. r = Some e \<longrightarrow> jb_nextSeq b' = Some (out_seq e + 1) \<and> (\<forall>s. jb_nextSeq b = Some s \<longrightarrow> out_seq e = s)) \<and>
      (\<forall>n p. r = Some (Packet n p) \<longrightarrow> (n, p) \<in> set (jb_queue b))"
  proof (cases rule: pull_cases [of b now])
    case (decide t)
    note d = decide_result [of "b\<lparr>jb_nextSeq := Some t\<rparr>" t now b' r, folded decide(1), OF assms]
    have "r \<noteq> None \<or> jb_nextSeq b = Some t" using decide(2) d(2) by (cases r) fastforce+
    then show ?thesis using d decide(2) by auto
  qed (use assms in auto)
  then show "set (jb_queue b') \<subseteq> set (jb_queue b)" "r = None \<Longrightarrow> jb_nextSeq b' = jb_nextSeq b"
    "r = Some e \<Longrightarrow> jb_nextSeq b' = Some (out_seq e + 1)"
    "r = Some e \<Longrightarrow> jb_nextSeq b = Some s \<Longrightarrow> out_seq e = s" "r = Some (Packet n p) \<Longrightarrow> (n, p) \<in> set (jb_queue b)"
    by blast+
qed

lemma push_result:
  "set (jb_queue (fst (jb_push b (JInt n) p))) \<subseteq> insert (of_int n, p) (set (jb_queue b))"
  "jb_nextSeq (fst (jb_push b (JInt n) p)) = jb_nextSeq b"
  using push_queue [of b n p] by (auto dest!: in_set_takeD)

lemma step_keeps_inv: "jb_inv b \<Longrightarrow> jb_inv (fst (jb_step b op))"
  using push_keeps_inv pull_keeps_inv by (cases op) (auto simp: case_prod_beta)

lemma run_inv: "jb_inv b \<Longrightarrow> jb_inv (fst (jb_run b ops))"
  by (induction ops arbitrary: b) (auto simp: case_prod_beta step_keeps_inv)

definition consecutive :: "rat \<Rightarrow> 'p jitter_out list \<Rightarrow> bool" where
  "consecutive s outs \<longleftrightarrow> map out_seq outs = map (\<lambda>i. s + of_nat i) [0..<length outs]"

lemma consecutive_Nil [simp]: "consecutive s []"
  by (simp add: consecutive_def)

lemma consecutive_Cons: "consecutive s (e # outs) \<longleftrightarrow> out_seq e = s \<and> consecutive (s + 1) outs"
proof -
  have "map (\<lambda>i. s + of_nat i) [0..<Suc n] = s # map (\<lambda>i. s + 1 + of_nat i) [0..<n]" for n
    by (simp add: map_Suc_upt [symmetric] upt_conv_Cons del: upt_Suc)
  then show ?thesis by (auto simp: consecutive_def)
qed

lemma run_consecutive:
  assumes "jb_run b ops = (b', outs)" "\<And>t. jb_nextSeq b = Some t \<Longrightarrow> t = s"
    "jb_nextSeq b = None \<Longrightarrow> outs \<noteq> [] \<Longrightarrow> s = out_seq (hd outs)"
  shows "consecutive s outs"
  using assms
proof (induction ops arbitrary: b s b' outs)
  case (Cons op ops)
  obtain c o1 where c: "jb_step b op = (c, o1)" by fastforce
  obtain outs' where r: "jb_run c ops = (b', outs')" "outs = o1 @ outs'" using Cons.prems(1) c by (auto split: prod.splits)
  show ?case
  proof (cases o1)
    case Nil
    have "jb_nextSeq c = jb_nextSeq b"
      using c Nil pull_result(2) push_result(2) by (cases op) (auto split: prod.splits option.splits)
    then show ?thesis using Cons.IH [OF r(1), of s] Cons.prems(2,3) r Nil by simp
  next
    case (Cons e rest)
    obtain now where p: "op = Pull now" "jb_pull b now = (c, Some e)" "o1 = [e]"
      using c Cons by (cases op) (auto split: prod.splits option.splits)
    have n: "jb_nextSeq c = Some (out_seq e + 1)" using pull_result(3) [OF p(2)] by simp
    have "out_seq e = s"
    proof (cases "jb_nextSeq b")
      case None
      then show ?thesis using Cons.prems(3) r(2) p(3) by simp
    next
      case (Some t)
      then show ?thesis using pull_result(4) [OF p(2) _ Some] Cons.prems(2) by simp
    qed
    then show ?thesis using Cons.IH [OF r(1), of "s + 1"] n r(2) p(3) by (simp add: consecutive_Cons)
  qed
qed simp

lemma run_payload:
  assumes "jb_run b ops = (b', outs)" "Packet n p \<in> set outs"
  shows "(n, p) \<in> set (jb_queue b) \<or> (\<exists>k. Push k p \<in> set ops \<and> n = of_int k)"
  using assms
proof (induction ops arbitrary: b b' outs)
  case (Cons op ops)
  obtain c o1 where c: "jb_step b op = (c, o1)" by fastforce
  obtain outs' where r: "jb_run c ops = (b', outs')" "outs = o1 @ outs'" using Cons.prems(1) c by (auto split: prod.splits)
  show ?case
  proof (cases "Packet n p \<in> set o1")
    case True
    then show ?thesis using c by (cases op) (auto split: prod.splits option.splits dest: pull_result(5))
  next
    case False
    then have "(n, p) \<in> set (jb_queue c) \<or> (\<exists>k. Push k p \<in> set ops \<and> n = of_int k)" using Cons.IH [OF r(1)] Cons.prems(2) r(2) by simp
    moreover have "(n, p) \<in> set (jb_queue c) \<Longrightarrow> (n, p) \<in> set (jb_queue b) \<or> (\<exists>k. op = Push k p \<and> n = of_int k)"
      using c push_result(1) [of b _ _] by (cases op) (auto split: prod.splits dest: pull_result(1) [THEN subsetD])
    ultimately show ?thesis by auto
  qed
qed simp

text \<open>
  C39. The jitter buffer delivers in order, whatever the order of arrival. Over any sequence of pushes and
  pulls on a fresh buffer, the sequence numbers it gives out, as packets or as losses, are consecutive
  without repetition; every packet given out was pushed with that number and payload; and the queue
  never holds more than its maximum.
\<close>

theorem jitter_in_order:
  assumes "jb_run (createJitterBuffer packetMs waitMs maxQueued) ops = (b, outs)" "0 \<le> packetMs"
  shows "map out_seq outs = map (\<lambda>i. out_seq (hd outs) + of_nat i) [0..<length outs] \<and>
    (\<forall>n p. Packet n p \<in> set outs \<longrightarrow> (\<exists>k. Push k p \<in> set ops \<and> n = of_int k)) \<and>
    jb_size b \<le> max 2 (if maxQueued = 0 then 16 else maxQueued) \<and> sorted (map fst (jb_queue b))"
proof -
  have fresh: "jb_nextSeq (createJitterBuffer packetMs waitMs maxQueued) = None"
    "jb_queue (createJitterBuffer packetMs waitMs maxQueued) = []" by (simp_all add: createJitterBuffer_def Let_def)
  have "consecutive (out_seq (hd outs)) outs" by (rule run_consecutive [OF assms(1)]) (simp_all add: fresh)
  moreover have "jb_inv b" using run_inv [OF jb_inv_create [OF assms(2)], of waitMs maxQueued ops] assms(1) by simp
  moreover have "jb_maxQueued (fst (jb_run c ops)) = jb_maxQueued c" for c :: "'a jitter"
  proof (induction ops arbitrary: c)
    case (Cons op ops)
    have d: "jb_maxQueued (fst (jb_decide c s now)) = jb_maxQueued c" for c :: "'a jitter" and s now
      by (cases rule: decide_cases [of c s now]) simp_all
    have "jb_maxQueued (fst (jb_step c op)) = jb_maxQueued c"
    proof (cases op)
      case (Push n p)
      then show ?thesis using push_queue [of c n p] by auto
    next
      case (Pull now)
      have "jb_maxQueued (fst (jb_pull c now)) = jb_maxQueued c"
        by (cases rule: pull_cases [of c now]) (simp_all add: d)
      then show ?thesis using Pull by (simp add: case_prod_beta)
    qed
    then show ?case using Cons by (simp add: case_prod_beta)
  qed simp
  then have "jb_maxQueued b = max 2 (if maxQueued = 0 then 16 else maxQueued)"
    using arg_cong [OF assms(1), of "\<lambda>r. jb_maxQueued (fst r)"] by (simp add: createJitterBuffer_def Let_def)
  moreover have pay: "\<forall>n p. Packet n p \<in> set outs \<longrightarrow> (\<exists>k. Push k p \<in> set ops \<and> n = of_int k)"
    using run_payload [OF assms(1), unfolded fresh(2)] by simp
  ultimately show ?thesis
    using jb_invD(1,3) [of b] by (simp add: consecutive_def jb_size_def)
qed

theorem jitter_in_order_witness:
  "map out_seq (snd (jb_run (createJitterBuffer 0 None 0) [Push 5 ''b'', Push 4 ''a'', Pull 0, Pull 1])) = [4, 5]"
proof -
  obtain b outs where r: "jb_run (createJitterBuffer 0 None 0) [Push 5 ''b'', Push 4 ''a'', Pull 0, Pull 1] = (b, outs)"
    by fastforce
  have "outs = [Packet 4 ''a'', Packet 5 ''b'']"
    using r by (auto simp: createJitterBuffer_def jb_push_def jb_pull_def jb_decide_def JITTER_PACKET_MS_def)
  then show ?thesis using jitter_in_order [OF r] r by simp
qed

text \<open>
  A missing packet holds up playback for at most the waiting time: if the buffer is not empty, then of
  two pulls at least \<open>waitMs\<close> apart one gives something out. Between them, \<open>msUntilDecision\<close>
  is exactly the time that remains.
\<close>

theorem jitter_decides:
  assumes inv: "jb_inv b" "jb_queue b \<noteq> []" and g: "\<forall>g. jb_gapSince b = Some g \<longrightarrow> g \<le> t1" and t: "t1 + jb_waitMs b \<le> t2"
    and p: "jb_pull b t1 = (b1, r1)" "jb_pull b1 t2 = (b2, r2)"
  shows "r1 \<noteq> None \<or> (r2 \<noteq> None \<and> (\<forall>t. (snd (jb_pull b1 t) = None) = (0 < msUntilDecision b1 t)))"
proof (cases r1)
  case None
  obtain s where s: "jb_nextSeq b = Some s"
    using p(1) None inv(2) pull_result(2) [OF p(1)]
    by (cases rule: pull_cases [of b t1]) (auto dest: decide_result(2))
  have d: "jb_decide b s t1 = (b1, None)" using p(1) None s by (simp add: jb_pull_def)
  then have no: "\<forall>item \<in> set (jb_queue b). fst item \<noteq> s" using decide_result(2) by blast
  then have f: "find (\<lambda>item. fst item = s) (jb_queue b) = None" "\<not> list_ex (\<lambda>item. fst item = s) (jb_queue b)"
    by (auto simp: find_None_iff list_ex_iff)
  have "s < fst (hd (jb_queue b))" using no jb_invD(4) [OF inv(1) s] inv(2) by (metis hd_in_set order_le_less)
  then have l: "jb_later b s" using inv(2) by (cases "jb_queue b") (simp_all add: jb_later_def)
  define since where "since = (case jb_gapSince b of Some g \<Rightarrow> g | None \<Rightarrow> t1)"
  have since: "since \<le> t1" using g by (simp add: since_def split: option.splits)
  have b1: "b1 = b\<lparr>jb_gapSince := Some since\<rparr>"
    using d f l by (simp add: jb_decide_def Let_def since_def split: if_splits)
  have l1: "jb_later b1 s" using l by (simp add: jb_later_def b1)
  have pull: "jb_pull b1 u = (if u - since \<ge> jb_waitMs b then (b1\<lparr>jb_nextSeq := Some (s + 1), jb_gapSince := None\<rparr>, Some (Loss s))
      else (b1, None))" for u
    using f l1 s by (simp add: jb_pull_def jb_decide_def Let_def b1)
  have "msUntilDecision b1 u = max 0 (jb_waitMs b - (u - since))" for u
    using f l1 s by (simp add: msUntilDecision_def b1)
  then show ?thesis using pull p(2) t since by auto
qed simp

theorem jitter_decides_witness:
  "snd (jb_pull (fst (jb_pull (fst (jb_run (createJitterBuffer 0 None 0) [Push 4 ''a'', Pull 0, Push 6 ''c''])) 10)) 70) \<noteq> None"
proof -
  define b where "b = fst (jb_run (createJitterBuffer 0 None 0) [Push 4 ''a'', Pull 0, Push 6 ''c''])"
  have b: "jb_queue b = [(6, ''c'')]" "jb_nextSeq b = Some 5" "jb_gapSince b = None" "jb_waitMs b = 60"
    by (simp_all add: b_def createJitterBuffer_def jb_push_def jb_pull_def jb_decide_def JITTER_PACKET_MS_def)
  have inv: "jb_inv b" unfolding b_def by (rule run_inv) (simp add: jb_inv_create)
  have none: "snd (jb_pull b 10) = None" by (simp add: jb_pull_def jb_decide_def b jb_later_def)
  show ?thesis
    unfolding b_def [symmetric]
    using jitter_decides [OF inv _ _ _ prod.collapse [symmetric] prod.collapse [symmetric], of 10 70, unfolded b, simplified] none
    by (metis option.distinct(1))
qed

end
