(* ===== verification/Playback_Ring.thy ===== *)
theory Playback_Ring
  imports JS_Prelude
begin

text \<open>
  The sample ring buffer in front of the loudspeaker, \<open>src/renderer/calls/playbackBuffer.js\<close>: a ring of
  fixed capacity with a read and a write index, prefilled to a target level before playback starts
  and cut back to a maximum level. Samples are the elements of the \<open>Float32Array\<close>, of a type with 0
  for silence. The interface \<open>sample_queue\<close> says what the player relies on, a bounded first-in first-out
  queue; the ring implements it.
\<close>

section \<open>Definitions\<close>

definition PLAYBACK_SAMPLE_RATE :: nat where "PLAYBACK_SAMPLE_RATE = 48000"
definition JITTER_TARGET_MS :: nat where "JITTER_TARGET_MS = 80"
definition JITTER_MAX_MS :: nat where "JITTER_MAX_MS = 300"
definition PLAYBACK_TARGET_SAMPLES :: nat where "PLAYBACK_TARGET_SAMPLES = PLAYBACK_SAMPLE_RATE * JITTER_TARGET_MS div 1000"
definition PLAYBACK_MAX_SAMPLES :: nat where "PLAYBACK_MAX_SAMPLES = PLAYBACK_SAMPLE_RATE * JITTER_MAX_MS div 1000"

record 'a ring =
  rg_target :: nat
  rg_max :: nat
  rg_sampleRate :: nat
  rg_buffer :: "'a list"
  rg_read :: nat
  rg_write :: nat
  rg_filled :: nat
  rg_playing :: bool

text \<open>An absent option is 0.\<close>

definition opt_or :: "nat \<Rightarrow> nat \<Rightarrow> nat" where
  "opt_or n d = (if n = 0 then d else n)"

definition createPlaybackRing :: "nat \<Rightarrow> nat \<Rightarrow> nat \<Rightarrow> nat \<Rightarrow> 'a :: zero ring" where
  "createPlaybackRing targetSamples maxSamples capacity sampleRate =
     (let target = max 1 (opt_or targetSamples PLAYBACK_TARGET_SAMPLES);
          mx = max target (opt_or maxSamples PLAYBACK_MAX_SAMPLES);
          cap = max mx (opt_or capacity PLAYBACK_SAMPLE_RATE)
      in \<lparr>rg_target = target, rg_max = mx, rg_sampleRate = max 1 (opt_or sampleRate PLAYBACK_SAMPLE_RATE),
          rg_buffer = replicate cap 0, rg_read = 0, rg_write = 0, rg_filled = 0, rg_playing = False\<rparr>)"

definition rg_drop :: "'a ring \<Rightarrow> 'a ring" where
  "rg_drop r = r\<lparr>rg_read := (rg_read r + 1) mod length (rg_buffer r), rg_filled := rg_filled r - 1\<rparr>"

definition rg_push1 :: "'a ring \<Rightarrow> 'a \<Rightarrow> 'a ring" where
  "rg_push1 r0 x =
     (let r = (if rg_filled r0 \<ge> length (rg_buffer r0) then rg_drop r0 else r0)
      in r\<lparr>rg_buffer := (rg_buffer r)[rg_write r := x], rg_write := (rg_write r + 1) mod length (rg_buffer r),
           rg_filled := rg_filled r + 1\<rparr>)"

fun rg_pushes :: "'a ring \<Rightarrow> 'a list \<Rightarrow> 'a ring" where
  "rg_pushes r [] = r"
| "rg_pushes r (x # xs) = rg_pushes (rg_push1 r x) xs"

function rg_trim :: "'a ring \<Rightarrow> 'a ring" where
  "rg_trim r = (if rg_filled r > rg_max r then rg_trim (rg_drop r) else r)"
  by pat_completeness auto
termination by (relation "measure rg_filled") (auto simp: rg_drop_def)

declare rg_trim.simps [simp del]

definition rg_push :: "'a ring \<Rightarrow> 'a list \<Rightarrow> 'a ring" where
  "rg_push r samples = (if samples = [] then r else rg_trim (rg_pushes r samples))"

fun rg_take :: "'a :: zero ring \<Rightarrow> nat \<Rightarrow> 'a list \<times> bool \<times> 'a ring" where
  "rg_take r 0 = ([], False, r)"
| "rg_take r (Suc n) =
     (if rg_filled r > 0 then
        (case rg_take (rg_drop r) n of (xs, underrun, r') \<Rightarrow> (rg_buffer r ! rg_read r # xs, underrun, r'))
      else (case rg_take r n of (xs, _, r') \<Rightarrow> (0 # xs, True, r')))"

record pull_result =
  pr_playing :: bool
  pr_underrun :: bool
  pr_filled :: nat

definition rg_pull :: "'a :: zero ring \<Rightarrow> nat \<Rightarrow> 'a list \<times> pull_result \<times> 'a ring" where
  "rg_pull r n =
     (if \<not> rg_playing r \<and> rg_filled r < rg_target r
      then (replicate n 0, \<lparr>pr_playing = False, pr_underrun = False, pr_filled = rg_filled r\<rparr>, r)
      else case rg_take (r\<lparr>rg_playing := True\<rparr>) n of (xs, underrun, r') \<Rightarrow>
        let r'' = (if underrun then r'\<lparr>rg_playing := False\<rparr> else r')
        in (xs, \<lparr>pr_playing = rg_playing r'', pr_underrun = underrun, pr_filled = rg_filled r''\<rparr>, r''))"

definition rg_fillMs :: "'a ring \<Rightarrow> rat" where
  "rg_fillMs r = of_nat (rg_filled r) / of_nat (rg_sampleRate r) * 1000"

definition rg_reset :: "'a ring \<Rightarrow> 'a ring" where
  "rg_reset r = r\<lparr>rg_read := 0, rg_write := 0, rg_filled := 0, rg_playing := False\<rparr>"

section \<open>The interface\<close>

text \<open>
  A player's view of a sample store: \<open>content\<close> lists the samples it holds, oldest first. Pushing appends
  and keeps the newest \<open>limit\<close> samples; taking \<open>n\<close> removes the oldest \<open>n\<close> and pads with silence.
\<close>

locale sample_queue =
  fixes ok :: "'s \<Rightarrow> bool" and content :: "'s \<Rightarrow> 'a :: zero list" and limit :: "'s \<Rightarrow> nat"
    and push :: "'s \<Rightarrow> 'a list \<Rightarrow> 's" and taken :: "'s \<Rightarrow> nat \<Rightarrow> 'a list \<times> bool \<times> 's"
  assumes ok_push: "ok s \<Longrightarrow> ok (push s xs) \<and> limit (push s xs) = limit s"
    and ok_taken: "ok s \<Longrightarrow> taken s n = (ys, u, s') \<Longrightarrow> ok s' \<and> limit s' = limit s"
    and push_content: "ok s \<Longrightarrow> content (push s xs) = keep_last (limit s) (content s @ xs)"
    and taken_out: "ok s \<Longrightarrow> taken s n = (ys, u, s') \<Longrightarrow>
      ys = take n (content s) @ replicate (n - length (content s)) 0 \<and> u = (length (content s) < n) \<and>
      content s' = drop n (content s)"
begin

lemma content_bounded: "ok s \<Longrightarrow> length (content (push s xs)) \<le> limit s"
  by (simp add: push_content)

lemma push_push: "ok s \<Longrightarrow> content (push (push s xs) ys) = content (push s (xs @ ys))"
  by (simp add: push_content ok_push keep_last_append_keep)

text \<open>What goes in below the limit comes out unchanged, however it is cut into pieces.\<close>

lemma fifo:
  assumes "ok s" "content s = []" "length xs \<le> limit s" "n \<le> length xs" "taken (push s xs) n = (ys, u, s')"
  shows "ys = take n xs \<and> \<not> u \<and> content s' = drop n xs"
  using taken_out [OF conjunct1 [OF ok_push [OF assms(1)]] assms(5)] assms by (simp add: push_content)

end

section \<open>The ring implements it\<close>

definition rg_content :: "'a ring \<Rightarrow> 'a list" where
  "rg_content r = map (\<lambda>i. rg_buffer r ! ((rg_read r + i) mod length (rg_buffer r))) [0..<rg_filled r]"

definition ring_wf :: "'a ring \<Rightarrow> bool" where
  "ring_wf r \<longleftrightarrow> rg_read r < length (rg_buffer r) \<and> rg_write r = (rg_read r + rg_filled r) mod length (rg_buffer r) \<and>
     rg_filled r \<le> length (rg_buffer r) \<and> rg_max r \<le> length (rg_buffer r) \<and> 1 \<le> rg_target r \<and> rg_target r \<le> rg_max r"

definition ring_ok :: "'a ring \<Rightarrow> bool" where
  "ring_ok r \<longleftrightarrow> ring_wf r \<and> rg_filled r \<le> rg_max r"

lemma length_rg_content [simp]: "length (rg_content r) = rg_filled r"
  by (simp add: rg_content_def)

lemma ring_ok_create: "ring_ok (createPlaybackRing t m c s)" "rg_content (createPlaybackRing t m c s) = []"
  by (auto simp: createPlaybackRing_def ring_ok_def ring_wf_def Let_def rg_content_def)

lemma rg_drop_fields [simp]:
  "rg_buffer (rg_drop r) = rg_buffer r" "rg_max (rg_drop r) = rg_max r" "rg_filled (rg_drop r) = rg_filled r - 1"
  "rg_target (rg_drop r) = rg_target r" "rg_playing (rg_drop r) = rg_playing r"
  by (simp_all add: rg_drop_def)

lemma ring_wf_drop:
  assumes "ring_wf r" "0 < rg_filled r"
  shows "ring_wf (rg_drop r)"
proof -
  have "(Suc (rg_read r) mod length (rg_buffer r) + (rg_filled r - 1)) mod length (rg_buffer r) =
      (Suc (rg_read r) + (rg_filled r - 1)) mod length (rg_buffer r)" by (rule mod_add_left_eq)
  also have "Suc (rg_read r) + (rg_filled r - 1) = rg_read r + rg_filled r" using assms(2) by simp
  finally have "(Suc (rg_read r) mod length (rg_buffer r) + (rg_filled r - 1)) mod length (rg_buffer r) =
      (rg_read r + rg_filled r) mod length (rg_buffer r)" .
  moreover have "Suc (rg_read r) mod length (rg_buffer r) < length (rg_buffer r)"
    using assms(1) by (intro mod_less_divisor) (auto simp: ring_wf_def)
  ultimately show ?thesis using assms by (auto simp: ring_wf_def rg_drop_def)
qed

lemma content_drop:
  assumes "0 < rg_filled r"
  shows "rg_content (rg_drop r) = tl (rg_content r)"
proof -
  obtain k where k: "rg_filled r = Suc k" using assms gr0_implies_Suc by blast
  have "tl (map f [0..<Suc k]) = map (\<lambda>i. f (Suc i)) [0..<k]" for f :: "nat \<Rightarrow> 'a"
    by (simp add: map_upt_Suc del: upt_Suc)
  then show ?thesis
    by (simp add: rg_content_def rg_drop_def k mod_add_left_eq del: upt_Suc)
qed

lemma hd_content: "ring_wf r \<Longrightarrow> 0 < rg_filled r \<Longrightarrow> rg_buffer r ! rg_read r = hd (rg_content r)"
  by (simp add: rg_content_def ring_wf_def hd_map upt_conv_Cons)

lemma mod_add_inj:
  assumes "(a + i) mod m = (a + j) mod m" "i < m" "j < (m :: nat)"
  shows "i = j"
proof -
  have le: "x = y" if "(a + x) mod m = (a + y) mod m" "x \<le> y" "y < m" for x y
  proof -
    have "m dvd (a + y) - (a + x)" using that by (intro mod_eq_dvd_iff_nat [THEN iffD1]) simp_all
    then show ?thesis using that(2,3) by (auto dest: dvd_imp_le)
  qed
  show ?thesis using le [of i j] le [of j i] assms by (cases "i \<le> j") simp_all
qed

lemma push1_room:
  assumes w: "ring_wf r" and room: "rg_filled r < length (rg_buffer r)"
  shows "ring_wf (rg_push1 r x) \<and> rg_content (rg_push1 r x) = rg_content r @ [x]"
proof
  define m where "m = length (rg_buffer r)"
  have wr: "rg_write r = (rg_read r + rg_filled r) mod m" "rg_write r < m"
    using w room by (auto simp: ring_wf_def m_def intro!: mod_less_divisor)
  have p: "rg_push1 r x = r\<lparr>rg_buffer := (rg_buffer r)[rg_write r := x], rg_write := (rg_write r + 1) mod m, rg_filled := rg_filled r + 1\<rparr>"
    using room by (simp add: rg_push1_def Let_def m_def)
  show "ring_wf (rg_push1 r x)"
    using w room wr(2) by (auto simp: p ring_wf_def m_def mod_Suc_eq)
  have old: "(rg_read r + i) mod m \<noteq> rg_write r" if "i < rg_filled r" for i
    using mod_add_inj [of "rg_read r" i m "rg_filled r"] that room unfolding wr(1) m_def by force
  have "map (\<lambda>i. (rg_buffer r)[rg_write r := x] ! ((rg_read r + i) mod m)) [0..<rg_filled r] = rg_content r"
    unfolding rg_content_def m_def [symmetric] by (rule map_cong [OF refl]) (use old in \<open>simp add: nth_list_update_neq [OF not_sym]\<close>)
  then show "rg_content (rg_push1 r x) = rg_content r @ [x]"
    using wr by (simp add: p rg_content_def m_def)
qed

lemma push1_content:
  assumes w: "ring_wf r"
  shows "ring_wf (rg_push1 r x) \<and> rg_content (rg_push1 r x) = keep_last (length (rg_buffer r)) (rg_content r @ [x])"
proof (cases "rg_filled r < length (rg_buffer r)")
  case True
  then show ?thesis using push1_room [OF w] by simp
next
  case False
  then have full: "rg_filled r = length (rg_buffer r)" "0 < rg_filled r" using w by (auto simp: ring_wf_def)
  have d: "ring_wf (rg_drop r)" "rg_filled (rg_drop r) < length (rg_buffer (rg_drop r))"
    using ring_wf_drop [OF w full(2)] full by simp_all
  have "rg_push1 r x = rg_push1 (rg_drop r) x"
    using full d(2) unfolding rg_push1_def by (simp only: if_True if_False not_le [symmetric] le_refl simp_thms)
  moreover have "keep_last (length (rg_buffer r)) (rg_content r @ [x]) = tl (rg_content r) @ [x]"
    using full by (cases "rg_content r") (simp_all add: keep_last_def flip: full(1) length_rg_content)
  ultimately show ?thesis using push1_room [OF d] content_drop [OF full(2)] by simp
qed

lemma push1_fields [simp]: "length (rg_buffer (rg_push1 r x)) = length (rg_buffer r)" "rg_max (rg_push1 r x) = rg_max r"
  by (simp_all add: rg_push1_def Let_def)

lemma pushes_content:
  assumes "ring_wf r"
  shows "ring_wf (rg_pushes r xs) \<and> rg_content (rg_pushes r xs) = keep_last (length (rg_buffer r)) (rg_content r @ xs) \<and>
     length (rg_buffer (rg_pushes r xs)) = length (rg_buffer r) \<and> rg_max (rg_pushes r xs) = rg_max r"
  using assms
proof (induction xs arbitrary: r)
  case (Cons x xs)
  then show ?case using Cons.IH [of "rg_push1 r x"] push1_content [OF Cons.prems, of x] by (simp add: keep_last_append_keep)
qed (simp add: ring_wf_def)

lemma trim_content:
  assumes "ring_wf r"
  shows "ring_ok (rg_trim r) \<and> rg_content (rg_trim r) = keep_last (rg_max r) (rg_content r) \<and> rg_max (rg_trim r) = rg_max r"
  using assms
proof (induction r rule: rg_trim.induct)
  case (1 r)
  show ?case
  proof (cases "rg_filled r > rg_max r")
    case True
    have w: "ring_wf (rg_drop r)" using 1(2) True by (intro ring_wf_drop) simp_all
    show ?thesis
      using 1(1) [OF True w] True keep_last_tl [of "rg_max r" "rg_content r"] content_drop [of r]
      by (subst (1 2 3) rg_trim.simps) simp
  next
    case False
    then show ?thesis using 1(2) by (subst (1 2 3) rg_trim.simps) (simp add: ring_ok_def)
  qed
qed

lemma take_content:
  assumes "ring_ok r" "rg_take r n = (ys, u, r')"
  shows "ring_ok r' \<and> rg_max r' = rg_max r \<and> rg_content r' = drop n (rg_content r) \<and>
     ys = take n (rg_content r) @ replicate (n - rg_filled r) 0 \<and> u = (rg_filled r < n)"
  using assms
proof (induction r n arbitrary: ys u r' rule: rg_take.induct)
  case (2 r n)
  show ?case
  proof (cases "rg_filled r > 0")
    case True
    obtain zs v where z: "rg_take (rg_drop r) n = (zs, v, r')" "ys = rg_buffer r ! rg_read r # zs" "u = v"
      using 2(4) True by (auto split: prod.splits)
    have ok: "ring_ok (rg_drop r)" using 2(3) True ring_wf_drop [of r] by (auto simp: ring_ok_def)
    obtain c cs where c: "rg_content r = c # cs" using True by (metis length_rg_content list.exhaust list.size(3) less_irrefl)
    have "rg_buffer r ! rg_read r = c" using hd_content [of r] 2(3) True c by (simp add: ring_ok_def)
    then show ?thesis using 2(1) [OF True ok z(1)] z(2,3) content_drop [OF True] c True by auto
  next
    case False
    obtain zs v where z: "rg_take r n = (zs, v, r')" "ys = 0 # zs" "u" using 2(4) False by (auto split: prod.splits)
    then show ?thesis using 2(2) [OF False 2(3) z(1)] False by (auto simp: rg_content_def)
  qed
qed simp

interpretation playback: sample_queue ring_ok rg_content rg_max rg_push rg_take
proof
  fix s :: "'a :: zero ring" and xs n ys u s'
  assume ok: "ring_ok s"
  then have w: "ring_wf s" by (simp add: ring_ok_def)
  note p = pushes_content [OF w, of xs] trim_content [of "rg_pushes s xs"]
  show "ring_ok (rg_push s xs) \<and> rg_max (rg_push s xs) = rg_max s" using ok p by (simp add: rg_push_def)
  show "rg_content (rg_push s xs) = keep_last (rg_max s) (rg_content s @ xs)"
    using ok p w by (auto simp: rg_push_def keep_last_keep ring_wf_def ring_ok_def)
  assume t: "rg_take s n = (ys, u, s')"
  show "ring_ok s' \<and> rg_max s' = rg_max s" "ys = take n (rg_content s) @ replicate (n - length (rg_content s)) 0 \<and>
      u = (length (rg_content s) < n) \<and> rg_content s' = drop n (rg_content s)"
    using take_content [OF ok t] by simp_all
qed

lemma pushes_playing: "rg_playing (rg_pushes r xs) = rg_playing r"
  by (induction xs arbitrary: r) (simp_all add: rg_push1_def Let_def)

lemma trim_playing: "rg_playing (rg_trim r) = rg_playing r"
proof (induction r rule: rg_trim.induct)
  case (1 r)
  then show ?case by (subst rg_trim.simps) simp
qed

lemma take_playing: "rg_take r n = (ys, u, r') \<Longrightarrow> rg_playing r' = rg_playing r"
  by (induction r n arbitrary: ys u r' rule: rg_take.induct) (auto split: if_splits prod.splits)

text \<open>
  The playback ring is a bounded first-in first-out queue, whatever the position of its indices: pushing
  appends and keeps the newest samples up to the maximum level, and cutting the input into different
  pieces makes no difference. Pulling gives silence and takes nothing while playback has not started
  and the level is below the target; otherwise it gives the oldest samples in order, padded with
  silence only when they run out, which is exactly when an underrun is reported and playback stops.
\<close>

theorem playback_ring_is_queue:
  assumes "ring_ok r"
  shows "ring_ok (rg_push r xs) \<and> rg_content (rg_push r xs) = keep_last (rg_max r) (rg_content r @ xs) \<and>
    rg_content (rg_push (rg_push r xs) ys) = rg_content (rg_push r (xs @ ys)) \<and> rg_playing (rg_push r xs) = rg_playing r \<and>
    (case rg_pull r n of (out, res, r') \<Rightarrow> ring_ok r' \<and>
      (if \<not> rg_playing r \<and> length (rg_content r) < rg_target r
       then out = replicate n 0 \<and> rg_content r' = rg_content r \<and> \<not> pr_underrun res \<and> \<not> rg_playing r'
       else out = take n (rg_content r) @ replicate (n - length (rg_content r)) 0 \<and>
         rg_content r' = drop n (rg_content r) \<and> pr_underrun res = (length (rg_content r) < n) \<and>
         rg_playing r' = (n \<le> length (rg_content r))) \<and>
      pr_filled res = length (rg_content r') \<and> pr_playing res = rg_playing r')"
proof -
  define s where "s = r\<lparr>rg_playing := True\<rparr>"
  have s: "ring_ok s" "rg_content s = rg_content r" "rg_filled s = rg_filled r"
    using assms by (simp_all add: s_def ring_ok_def ring_wf_def rg_content_def)
  obtain zs u t where t: "rg_take s n = (zs, u, t)" by (metis prod_cases3)
  have upd: "ring_ok (t\<lparr>rg_playing := False\<rparr>) = ring_ok t" "rg_content (t\<lparr>rg_playing := False\<rparr>) = rg_content t"
    by (simp_all add: ring_ok_def ring_wf_def rg_content_def)
  note q = take_content [OF s(1) t] take_playing [OF t]
  have "rg_filled t = length (rg_content r) - n" using q s(2) by (metis length_drop length_rg_content)
  then have "case rg_pull r n of (out, res, r') \<Rightarrow> ring_ok r' \<and>
      (if \<not> rg_playing r \<and> length (rg_content r) < rg_target r
       then out = replicate n 0 \<and> rg_content r' = rg_content r \<and> \<not> pr_underrun res \<and> \<not> rg_playing r'
       else out = take n (rg_content r) @ replicate (n - length (rg_content r)) 0 \<and>
         rg_content r' = drop n (rg_content r) \<and> pr_underrun res = (length (rg_content r) < n) \<and>
         rg_playing r' = (n \<le> length (rg_content r))) \<and>
      pr_filled res = length (rg_content r') \<and> pr_playing res = rg_playing r'"
    using assms q s upd by (simp add: rg_pull_def t Let_def s_def [symmetric]) (simp add: s_def not_less)
  moreover have "rg_playing (rg_push r xs) = rg_playing r" by (simp add: rg_push_def trim_playing pushes_playing)
  ultimately show ?thesis
    using playback.ok_push [OF assms] playback.push_content [OF assms] playback.push_push [OF assms] by blast
qed

theorem playback_ring_is_queue_witness:
  "fst (rg_pull (rg_push (createPlaybackRing 2 3 3 1) [1, 2, 3, 4 :: int]) 2) = [2, 3]"
proof -
  define r :: "int ring" where "r = createPlaybackRing 2 3 3 1"
  have r: "ring_ok r" "rg_content r = []" "rg_max r = 3" "rg_target r = 2" "\<not> rg_playing r"
    by (simp_all add: r_def ring_ok_create) (simp_all add: createPlaybackRing_def opt_or_def)
  define p where "p = rg_push r [1, 2, 3, 4]"
  have p: "ring_ok p" "rg_content p = [2, 3, 4]" "\<not> rg_playing p"
    using playback_ring_is_queue [OF r(1), of "[1, 2, 3, 4]"] r by (simp_all add: p_def keep_last_def)
  have t: "rg_target p = 2" by (simp add: p_def r_def createPlaybackRing_def opt_or_def rg_push_def rg_push1_def rg_drop_def rg_trim.simps)
  show ?thesis
    unfolding r_def [symmetric] p_def [symmetric]
    using playback_ring_is_queue [OF p(1), of "[]" "[]" 2] p t by (simp add: case_prod_beta)
qed

end
