(* ===== verification/Video_Fragments.thy ===== *)
theory Video_Fragments
  imports Call_Limits
begin

text \<open>
  Video frames in fragments, \<open>src/renderer/calls/videoFragments.js\<close>: \<open>splitVideoFrame\<close> cuts an encoded frame,
  \<open>createFrameReassembler\<close> puts the fragments that arrive together again. The reassembler's \<open>Map\<close> is an
  association list in insertion order; its key, the string \<open>stream:startSeq\<close>, is the pair of both. A
  message is a \<open>jsv\<close> with its decrypted payload in \<open>data\<close>, the time is an argument.
\<close>

section \<open>Splitting\<close>

definition VIDEO_REASSEMBLY_TTL_MS :: rat where "VIDEO_REASSEMBLY_TTL_MS = 1000"

function splitLoop :: "nat \<Rightarrow> bytes \<Rightarrow> bytes list" where
  "splitLoop sz data = (if data = [] \<or> sz = 0 then [] else take sz data # splitLoop sz (drop sz data))"
  by pat_completeness auto
termination by (relation "measure (\<lambda>(_, data). length data)") auto

declare splitLoop.simps [simp del]

text \<open>An absent \<open>maxBytes\<close> is 0.\<close>

definition splitVideoFrame :: "bytes \<Rightarrow> nat \<Rightarrow> bytes list" where
  "splitVideoFrame data maxBytes =
     (let n = max 1 (if maxBytes = 0 then VIDEO_MAX_FRAGMENT_BYTES else maxBytes)
      in if data = [] then [[]] else splitLoop n data)"

section \<open>Field tests\<close>

definition toBytes :: "jsv \<Rightarrow> bytes" where
  "toBytes v = (case v of Bytes b \<Rightarrow> b | _ \<Rightarrow> [])"

definition toFragCount :: "jsv \<Rightarrow> nat" where
  "toFragCount v = (case integer_num (js_Number v) of Some n \<Rightarrow> if n < 1 \<or> n > VIDEO_MAX_FRAGS then 0 else nat n | None \<Rightarrow> 0)"

definition toFragIndex :: "jsv \<Rightarrow> nat \<Rightarrow> nat option" where
  "toFragIndex v frags = (case integer_num (js_Number v) of
     Some n \<Rightarrow> if n < 0 \<or> n \<ge> int frags then None else Some (nat n) | None \<Rightarrow> None)"

datatype video_stream = Camera | Screen

definition streamKey :: "jsv \<Rightarrow> video_stream" where
  "streamKey v = (if v = Str ''screen'' then Screen else Camera)"

text \<open>\<open>boundedDesc\<close> of a value that is not nullish; \<open>None\<close> is its \<open>null\<close>.\<close>

definition boundedDesc :: "jsv \<Rightarrow> bytes option" where
  "boundedDesc v = (let b = toBytes v in if b = [] \<or> length b > VIDEO_MAX_DESC_BYTES then None else Some b)"

definition validSize :: "jsv \<Rightarrow> jsv \<Rightarrow> bool" where
  "validSize w h = (if \<not> nullish w \<or> \<not> nullish h then
       (case (integer_num (js_Number w), integer_num (js_Number h)) of
          (Some width, Some height) \<Rightarrow>
            \<not> (width < 1 \<or> height < 1 \<or> width > VIDEO_MAX_WIDTH \<or> height > VIDEO_MAX_HEIGHT)
        | _ \<Rightarrow> False)
     else True)"

definition validMeta :: "jsv \<Rightarrow> bool" where
  "validMeta msg =
     (if \<not> nullish (get msg ''codec'') \<and> \<not> isAllowedVideoCodec (item_string (get msg ''codec'')) then False
      else if \<not> validSize (get msg ''w'') (get msg ''h'') then False
      else if \<not> nullish (get msg ''desc'') \<and> boundedDesc (get msg ''desc'') = None then False
      else True)"

section \<open>The reassembler\<close>

record frame_entry =
  fe_parts :: "bytes option list"
  fe_got :: nat
  fe_frags :: nat
  fe_createdAt :: rat
  fe_key :: bool
  fe_ts :: jsv
  fe_codec :: jsv
  fe_w :: jsv
  fe_h :: jsv
  fe_stream :: video_stream
  fe_desc :: "bytes option"

type_synonym frame_id = "video_stream \<times> rat"

record reassembler =
  ra_ttlMs :: rat
  ra_maxOpenFrames :: nat
  ra_maxBytes :: nat
  ra_pending :: "(frame_id \<times> frame_entry) list"

definition createFrameReassembler :: "rat \<Rightarrow> nat \<Rightarrow> nat \<Rightarrow> reassembler" where
  "createFrameReassembler ttlMs maxOpenFrames maxBytes =
     \<lparr>ra_ttlMs = ttlMs, ra_maxOpenFrames = maxOpenFrames, ra_maxBytes = maxBytes, ra_pending = []\<rparr>"

definition part_length :: "bytes option \<Rightarrow> nat" where
  "part_length p = (case p of None \<Rightarrow> 0 | Some b \<Rightarrow> length b)"

definition entryBytes :: "frame_entry \<Rightarrow> nat" where
  "entryBytes entry = sum_list (map part_length (fe_parts entry))"

definition totalBytes :: "(frame_id \<times> frame_entry) list \<Rightarrow> nat" where
  "totalBytes pending = sum_list (map (\<lambda>(_, entry). entryBytes entry) pending)"

definition streamCount :: "video_stream \<Rightarrow> (frame_id \<times> frame_entry) list \<Rightarrow> nat" where
  "streamCount stream pending = length (filter (\<lambda>(_, entry). fe_stream entry = stream) pending)"

fun oldestKey :: "video_stream option \<Rightarrow> (frame_id \<times> frame_entry) list \<Rightarrow> (frame_id \<times> rat) option \<Rightarrow> (frame_id \<times> rat) option" where
  "oldestKey stream [] best = best"
| "oldestKey stream ((key, entry) # rest) best =
     (if (case stream of Some s \<Rightarrow> fe_stream entry \<noteq> s | None \<Rightarrow> False) then oldestKey stream rest best
      else if (case best of None \<Rightarrow> True | Some (_, tm) \<Rightarrow> fe_createdAt entry < tm)
      then oldestKey stream rest (Some (key, fe_createdAt entry))
      else oldestKey stream rest best)"

definition dropOldest :: "video_stream option \<Rightarrow> (frame_id \<times> frame_entry) list \<Rightarrow> (frame_id \<times> frame_entry) list option" where
  "dropOldest stream pending =
     (case oldestKey stream pending None of None \<Rightarrow> None | Some (key, _) \<Rightarrow> Some (AList.delete key pending))"

definition ra_gc :: "reassembler \<Rightarrow> rat \<Rightarrow> reassembler" where
  "ra_gc r tm = r\<lparr>ra_pending := filter (\<lambda>(_, entry). \<not> tm - fe_createdAt entry > ra_ttlMs r) (ra_pending r)\<rparr>"

lemma oldestKey_mem:
  "oldestKey stream pending best = Some (key, tm) \<Longrightarrow> best = Some (key, tm) \<or> key \<in> fst ` set pending"
  by (induction stream pending best rule: oldestKey.induct) (auto split: if_splits)

lemma dropOldest_smaller: "dropOldest stream pending = Some q \<Longrightarrow> length q < length pending"
proof -
  assume "dropOldest stream pending = Some q"
  then obtain key tm where k: "oldestKey stream pending None = Some (key, tm)" "q = AList.delete key pending"
    by (auto simp: dropOldest_def split: option.splits)
  then have "key \<in> fst ` set pending" using oldestKey_mem by fastforce
  then show ?thesis unfolding k(2) AList.delete_eq by (induction pending) (auto simp: le_imp_less_Suc)
qed

function dropStream :: "nat \<Rightarrow> video_stream \<Rightarrow> (frame_id \<times> frame_entry) list \<Rightarrow> (frame_id \<times> frame_entry) list" where
  "dropStream maxOpen stream pending =
     (if streamCount stream pending \<ge> maxOpen
      then (case dropOldest (Some stream) pending of None \<Rightarrow> pending | Some q \<Rightarrow> dropStream maxOpen stream q)
      else pending)"
  by pat_completeness auto
termination by (relation "measure (\<lambda>(_, _, pending). length pending)") (auto dest: dropOldest_smaller)

function dropBytes :: "nat \<Rightarrow> nat \<Rightarrow> (frame_id \<times> frame_entry) list \<Rightarrow> (frame_id \<times> frame_entry) list" where
  "dropBytes maxBytes extra pending =
     (if totalBytes pending + extra > maxBytes
      then (case dropOldest None pending of None \<Rightarrow> pending | Some q \<Rightarrow> dropBytes maxBytes extra q)
      else pending)"
  by pat_completeness auto
termination by (relation "measure (\<lambda>(_, _, pending). length pending)") (auto dest: dropOldest_smaller)

declare dropStream.simps [simp del] dropBytes.simps [simp del]

definition ensureBudget :: "reassembler \<Rightarrow> nat \<Rightarrow> video_stream \<Rightarrow> reassembler \<times> bool" where
  "ensureBudget r extraBytes stream =
     (let pending = dropBytes (ra_maxBytes r) extraBytes (dropStream (ra_maxOpenFrames r) stream (ra_pending r))
      in (r\<lparr>ra_pending := pending\<rparr>, totalBytes pending + extraBytes \<le> ra_maxBytes r))"

record video_frame =
  vf_bytes :: bytes
  vf_key :: bool
  vf_ts :: jsv
  vf_codec :: jsv
  vf_w :: jsv
  vf_h :: jsv
  vf_stream :: jsv
  vf_desc :: jsv

fun stream_name :: "video_stream \<Rightarrow> string" where
  "stream_name Camera = ''camera''"
| "stream_name Screen = ''screen''"

definition complete_msg :: "jsv \<Rightarrow> bytes \<Rightarrow> video_frame" where
  "complete_msg msg bytes = \<lparr>vf_bytes = bytes, vf_key = js_Boolean (get msg ''key''), vf_ts = get msg ''ts'',
     vf_codec = get msg ''codec'', vf_w = get msg ''w'', vf_h = get msg ''h'', vf_stream = get msg ''stream'',
     vf_desc = get msg ''desc''\<rparr>"

definition complete_entry :: "frame_entry \<Rightarrow> bytes \<Rightarrow> video_frame" where
  "complete_entry e bytes = \<lparr>vf_bytes = bytes, vf_key = fe_key e, vf_ts = fe_ts e, vf_codec = fe_codec e,
     vf_w = fe_w e, vf_h = fe_h e, vf_stream = Str (stream_name (fe_stream e)),
     vf_desc = (case fe_desc e of None \<Rightarrow> Undef | Some b \<Rightarrow> Bytes b)\<rparr>"

definition new_entry :: "jsv \<Rightarrow> nat \<Rightarrow> rat \<Rightarrow> frame_entry" where
  "new_entry msg frags tm = \<lparr>fe_parts = replicate frags None, fe_got = 0, fe_frags = frags, fe_createdAt = tm,
     fe_key = js_Boolean (get msg ''key''), fe_ts = get msg ''ts'', fe_codec = get msg ''codec'', fe_w = get msg ''w'',
     fe_h = get msg ''h'', fe_stream = streamKey (get msg ''stream''),
     fe_desc = (if nullish (get msg ''desc'') then None else boundedDesc (get msg ''desc''))\<rparr>"

definition add_part :: "jsv \<Rightarrow> frame_entry \<Rightarrow> nat \<Rightarrow> bytes \<Rightarrow> frame_entry" where
  "add_part msg e frag payload = e\<lparr>fe_got := (if fe_parts e ! frag = None then fe_got e + 1 else fe_got e),
     fe_parts := (fe_parts e)[frag := Some payload], fe_key := (js_Boolean (get msg ''key'') \<or> fe_key e),
     fe_desc := (if js_Boolean (get msg ''desc'')
        then (case boundedDesc (get msg ''desc'') of Some d \<Rightarrow> Some d | None \<Rightarrow> fe_desc e) else fe_desc e)\<rparr>"

definition finishPart :: "reassembler \<Rightarrow> jsv \<Rightarrow> frame_id \<Rightarrow> frame_entry \<Rightarrow> nat \<Rightarrow> bytes \<Rightarrow> reassembler \<times> video_frame option" where
  "finishPart r msg key entry frag payload =
     (let previous = part_length (fe_parts entry ! frag)
      in if length payload > previous \<and> totalBytes (ra_pending r) + (length payload - previous) > ra_maxBytes r then (r, None)
         else let e = add_part msg entry frag payload
              in if fe_got e < fe_frags e then (r\<lparr>ra_pending := AList.update key e (ra_pending r)\<rparr>, None)
                 else (r\<lparr>ra_pending := AList.delete key (ra_pending r)\<rparr>,
                       if None \<in> set (fe_parts e) then None
                       else Some (complete_entry e (concat (map the (fe_parts e))))))"

definition pushFragment :: "reassembler \<Rightarrow> jsv \<Rightarrow> rat \<Rightarrow> nat \<Rightarrow> nat \<Rightarrow> bytes \<Rightarrow> rat \<Rightarrow> reassembler \<times> video_frame option" where
  "pushFragment r msg startSeq frags frag payload tm =
     (let stream = streamKey (get msg ''stream''); key = (stream, startSeq)
      in case map_of (ra_pending r) key of
          Some entry \<Rightarrow>
            if fe_frags entry = frags then finishPart r msg key entry frag payload
            else (case ensureBudget r (length payload) stream of (r', ok) \<Rightarrow>
              if \<not> ok then (r', None)
              else let entry' = new_entry msg frags tm
                   in finishPart (r'\<lparr>ra_pending := AList.update key entry' (ra_pending r')\<rparr>) msg key entry' frag payload)
        | None \<Rightarrow>
            (case ensureBudget r (length payload) stream of (r', ok) \<Rightarrow>
              if \<not> ok then (r', None)
              else let entry' = new_entry msg frags tm
                   in finishPart (r'\<lparr>ra_pending := AList.update key entry' (ra_pending r')\<rparr>) msg key entry' frag payload))"

definition ra_push :: "reassembler \<Rightarrow> jsv \<Rightarrow> rat \<Rightarrow> reassembler \<times> video_frame option" where
  "ra_push r0 msg tm =
     (let r = ra_gc r0 tm; frags = toFragCount (js_coalesce (get msg ''frags'') (JInt 1))
      in if frags = 0 then (r, None) else
        case toFragIndex (js_coalesce (get msg ''frag'') (JInt 0)) frags of
          None \<Rightarrow> (r, None)
        | Some frag \<Rightarrow>
            if \<not> validMeta msg then (r, None) else
            let payload = toBytes (get msg ''data'')
            in if payload = [] \<or> length payload > VIDEO_MAX_FRAGMENT_BYTES then (r, None)
               else if frags = 1 then (r, Some (complete_msg msg payload))
               else case js_Number (get msg ''seq'') of
                   Fin seq \<Rightarrow> pushFragment r msg (seq - of_nat frag) frags frag payload tm
                 | _ \<Rightarrow> (r, None))"

definition ra_clear :: "reassembler \<Rightarrow> reassembler" where
  "ra_clear r = r\<lparr>ra_pending := []\<rparr>"

definition ra_size :: "reassembler \<Rightarrow> nat" where
  "ra_size r = length (ra_pending r)"

definition bufferedBytes :: "reassembler \<Rightarrow> nat" where
  "bufferedBytes r = totalBytes (ra_pending r)"

section \<open>Bounded memory\<close>

definition parts_got :: "bytes option list \<Rightarrow> nat" where
  "parts_got parts = length (filter (\<lambda>p. p \<noteq> None) parts)"

definition entry_ok :: "frame_id \<times> frame_entry \<Rightarrow> bool" where
  "entry_ok ke = (case ke of (k, e) \<Rightarrow> fst k = fe_stream e \<and> length (fe_parts e) = fe_frags e \<and> 2 \<le> fe_frags e \<and>
     int (fe_frags e) \<le> VIDEO_MAX_FRAGS \<and> fe_got e = parts_got (fe_parts e) \<and> fe_got e < fe_frags e)"

definition pend_ok :: "nat \<Rightarrow> nat \<Rightarrow> (frame_id \<times> frame_entry) list \<Rightarrow> bool" where
  "pend_ok maxOpen maxBytes p \<longleftrightarrow> distinct (map fst p) \<and> list_all entry_ok p \<and> totalBytes p \<le> maxBytes \<and>
     (\<forall>st. streamCount st p \<le> maxOpen)"

definition ra_ok :: "reassembler \<Rightarrow> bool" where
  "ra_ok r \<longleftrightarrow> pend_ok (ra_maxOpenFrames r) (ra_maxBytes r) (ra_pending r)"

lemma totalBytes_simps [simp]:
  "totalBytes [] = 0" "totalBytes ((k, e) # p) = entryBytes e + totalBytes p" "totalBytes (p @ q) = totalBytes p + totalBytes q"
  by (simp_all add: totalBytes_def)

lemma streamCount_simps [simp]:
  "streamCount st [] = 0" "streamCount st ((k, e) # p) = (if fe_stream e = st then 1 else 0) + streamCount st p"
  "streamCount st (p @ q) = streamCount st p + streamCount st q"
  by (simp_all add: streamCount_def)

lemma totalBytes_filter: "totalBytes (filter P p) \<le> totalBytes p"
  by (induction p) auto

lemma streamCount_filter: "streamCount st (filter P p) \<le> streamCount st p"
  by (induction p) auto

lemma pend_ok_filter: "pend_ok mo mb p \<Longrightarrow> pend_ok mo mb (filter P p)"
  using totalBytes_filter [of P p] streamCount_filter [of _ P p]
  by (auto simp: pend_ok_def distinct_map_filter list_all_iff dest: order_trans)

lemma dropOldest_filter: "dropOldest st p = Some q \<Longrightarrow> \<exists>P. q = filter P p"
  by (auto simp: dropOldest_def AList.delete_eq split: option.splits)

lemma dropStream_filter: "\<exists>P. dropStream mo st p = filter P p"
proof (induction mo st p rule: dropStream.induct)
  case (1 mo st p)
  show ?case
  proof (cases "streamCount st p \<ge> mo \<and> dropOldest (Some st) p \<noteq> None")
    case True
    then obtain q where q: "dropOldest (Some st) p = Some q" by blast
    then obtain P Q where "q = filter P p" "dropStream mo st q = filter Q q" using 1 True dropOldest_filter by blast
    then show ?thesis using True q by (subst dropStream.simps) auto
  next
    case False
    then have "dropStream mo st p = filter (\<lambda>_. True) p" by (subst dropStream.simps) (auto split: option.splits)
    then show ?thesis by blast
  qed
qed

lemma dropBytes_filter: "\<exists>P. dropBytes mb x p = filter P p"
proof (induction mb x p rule: dropBytes.induct)
  case (1 mb x p)
  show ?case
  proof (cases "totalBytes p + x > mb \<and> dropOldest None p \<noteq> None")
    case True
    then obtain q where q: "dropOldest None p = Some q" by blast
    then obtain P Q where "q = filter P p" "dropBytes mb x q = filter Q q" using 1 True dropOldest_filter by blast
    then show ?thesis using True q by (subst dropBytes.simps) auto
  next
    case False
    then have "dropBytes mb x p = filter (\<lambda>_. True) p" by (subst dropBytes.simps) (auto split: option.splits)
    then show ?thesis by blast
  qed
qed

lemma oldestKey_Some: "oldestKey st p (Some b) \<noteq> None"
  by (induction p arbitrary: b) (auto split: if_splits)

lemma dropOldest_None: "dropOldest (Some st) p = None \<Longrightarrow> streamCount st p = 0"
proof -
  have "oldestKey (Some st) p None = None \<Longrightarrow> streamCount st p = 0"
    by (induction p) (auto simp: oldestKey_Some split: if_splits)
  then show "dropOldest (Some st) p = None \<Longrightarrow> streamCount st p = 0" by (auto simp: dropOldest_def split: option.splits)
qed

lemma dropStream_count: "1 \<le> mo \<Longrightarrow> streamCount st (dropStream mo st p) < mo"
proof (induction mo st p rule: dropStream.induct)
  case (1 mo st p)
  show ?case
  proof (cases "streamCount st p \<ge> mo")
    case True
    then obtain q where q: "dropOldest (Some st) p = Some q" using dropOldest_None [of st p] 1(2) by fastforce
    show ?thesis using 1(1) [OF True q 1(2)] True q by (subst dropStream.simps) simp
  qed (subst dropStream.simps, simp)
qed

lemma ensureBudget_result:
  assumes "ensureBudget r x st = (r', ok)" "ra_ok r" "1 \<le> ra_maxOpenFrames r"
  shows "\<exists>P. r' = r\<lparr>ra_pending := filter P (ra_pending r)\<rparr>" "ra_ok r'" "streamCount st (ra_pending r') < ra_maxOpenFrames r"
    and "ok \<Longrightarrow> totalBytes (ra_pending r') + x \<le> ra_maxBytes r"
proof -
  define p where "p = dropStream (ra_maxOpenFrames r) st (ra_pending r)"
  have r': "r' = r\<lparr>ra_pending := dropBytes (ra_maxBytes r) x p\<rparr>" "ok = (totalBytes (ra_pending r') + x \<le> ra_maxBytes r)"
    using assms(1) by (auto simp: ensureBudget_def Let_def p_def)
  obtain P Q where PQ: "p = filter P (ra_pending r)" "dropBytes (ra_maxBytes r) x p = filter Q p"
    using dropStream_filter dropBytes_filter p_def by meson
  show "\<exists>P. r' = r\<lparr>ra_pending := filter P (ra_pending r)\<rparr>" unfolding r' PQ(2) unfolding PQ(1) by auto
  then show "ra_ok r'" using assms(2) pend_ok_filter by (auto simp: ra_ok_def)
  have "streamCount st (filter Q p) \<le> streamCount st p" by (rule streamCount_filter)
  then show "streamCount st (ra_pending r') < ra_maxOpenFrames r"
    using dropStream_count [OF assms(3), of st "ra_pending r"] unfolding r'(1) p_def [symmetric] PQ(2) by simp
  show "ok \<Longrightarrow> totalBytes (ra_pending r') + x \<le> ra_maxBytes r" using r'(2) by simp
qed

lemma update_member:
  assumes "distinct (map fst p)" "map_of p k = Some e0"
  shows "totalBytes (AList.update k e p) + entryBytes e0 = totalBytes p + entryBytes e"
    and "fe_stream e = fe_stream e0 \<Longrightarrow> streamCount st (AList.update k e p) = streamCount st p"
  using assms by (induction p) (auto split: if_splits)

lemma update_new: "map_of p k = None \<Longrightarrow> AList.update k e p = p @ [(k, e)]"
  by (induction p) (auto split: if_splits)

lemma list_all_update: "list_all P p \<Longrightarrow> P (k, e) \<Longrightarrow> list_all P (AList.update k e p)"
  by (induction p) auto

lemma sum_list_part_update:
  assumes "i < length ps"
  shows "sum_list (map part_length (ps[i := Some b])) + part_length (ps ! i) = sum_list (map part_length ps) + length b"
  using assms by (induction ps arbitrary: i) (auto simp: part_length_def split: nat.splits)

lemma parts_got_update:
  "i < length ps \<Longrightarrow> parts_got (ps[i := Some b]) = (if ps ! i = None then parts_got ps + 1 else parts_got ps)"
  by (induction ps arbitrary: i) (auto simp: parts_got_def split: nat.splits)

lemma parts_got_le: "parts_got ps \<le> length ps"
  by (simp add: parts_got_def)

lemma add_part_fields [simp]:
  "fe_frags (add_part m e i b) = fe_frags e" "fe_stream (add_part m e i b) = fe_stream e"
  "fe_parts (add_part m e i b) = (fe_parts e)[i := Some b]" "fe_createdAt (add_part m e i b) = fe_createdAt e"
  "fe_got (add_part m e i b) = (if fe_parts e ! i = None then fe_got e + 1 else fe_got e)"
  by (simp_all add: add_part_def)

lemma finishPart_ok:
  assumes r: "ra_ok r" and e: "map_of (ra_pending r) k = Some e" and i: "i < fe_frags e"
  shows "ra_ok (fst (finishPart r m k e i b))"
proof -
  note p = r [unfolded ra_ok_def pend_ok_def]
  have "(k, e) \<in> set (ra_pending r)" using e by (rule map_of_SomeD)
  then have eok: "entry_ok (k, e)" using p by (simp add: list_all_iff)
  define e' where "e' = add_part m e i b"
  have len: "i < length (fe_parts e)" using eok i by (simp add: entry_ok_def)
  have bytes: "entryBytes e' + part_length (fe_parts e ! i) = entryBytes e + length b"
    using sum_list_part_update [OF len, of b] by (simp add: e'_def entryBytes_def)
  have "totalBytes (AList.update k e' (ra_pending r)) \<le> ra_maxBytes r"
    if "\<not> (length b > part_length (fe_parts e ! i) \<and> totalBytes (ra_pending r) + (length b - part_length (fe_parts e ! i)) > ra_maxBytes r)"
    using that update_member(1) [of "ra_pending r" k e e'] e p bytes by auto
  moreover have "entry_ok (k, e')" if "fe_got e' < fe_frags e'"
    using that eok parts_got_update [OF len, of b] by (auto simp: entry_ok_def e'_def)
  moreover have "pend_ok (ra_maxOpenFrames r) (ra_maxBytes r) (AList.delete k (ra_pending r))"
    using r pend_ok_filter by (auto simp: ra_ok_def AList.delete_eq)
  ultimately show ?thesis
    using r update_member(2) [of "ra_pending r" k e e'] e p list_all_update [of entry_ok "ra_pending r" k e']
    by (auto simp: finishPart_def Let_def e'_def [symmetric] ra_ok_def pend_ok_def AList.distinct_update) (simp_all add: e'_def)
qed

lemma finishPart_fields [simp]:
  "ra_maxOpenFrames (fst (finishPart r m k e i b)) = ra_maxOpenFrames r"
  "ra_maxBytes (fst (finishPart r m k e i b)) = ra_maxBytes r"
  by (simp_all add: finishPart_def Let_def)

lemma new_entry_ok:
  assumes "2 \<le> n" "int n \<le> VIDEO_MAX_FRAGS"
  shows "entry_ok ((streamKey (get m ''stream''), s), new_entry m n tm)" "entryBytes (new_entry m n tm) = 0"
  using assms by (simp_all add: entry_ok_def new_entry_def parts_got_def entryBytes_def part_length_def sum_list_replicate)

lemma open_entry_ok:
  assumes r: "ensureBudget r (length b) st = (r', True)" "ra_ok r" "1 \<le> ra_maxOpenFrames r"
    and n: "2 \<le> n" "int n \<le> VIDEO_MAX_FRAGS" and st: "st = streamKey (get m ''stream'')"
  shows "ra_ok (r'\<lparr>ra_pending := AList.update (st, s) (new_entry m n tm) (ra_pending r')\<rparr>)"
proof -
  note b = ensureBudget_result [OF r]
  define p where "p = ra_pending r'"
  have ok: "pend_ok (ra_maxOpenFrames r') (ra_maxBytes r') p" using b(2) by (simp add: ra_ok_def p_def)
  have same: "ra_maxOpenFrames r' = ra_maxOpenFrames r" using b(1) by auto
  have ne: "entry_ok ((st, s), new_entry m n tm)" "entryBytes (new_entry m n tm) = 0" "fe_stream (new_entry m n tm) = st"
    using new_entry_ok [OF n] by (simp_all add: st new_entry_def)
  have "pend_ok (ra_maxOpenFrames r') (ra_maxBytes r') (AList.update (st, s) (new_entry m n tm) p)"
  proof (cases "map_of p (st, s)")
    case None
    have "(st, s) \<notin> fst ` set p" using None by (simp add: map_of_eq_None_iff)
    then show ?thesis
      using ok b(3) ne same unfolding pend_ok_def update_new [OF None] by (auto simp: p_def)
  next
    case (Some e0)
    have "entry_ok ((st, s), e0)" using ok map_of_SomeD [OF Some] by (auto simp: pend_ok_def list_all_iff)
    then have "fe_stream e0 = st" by (simp add: entry_ok_def)
    then show ?thesis
      using ok ne update_member [of p "(st, s)" e0] Some list_all_update [of entry_ok p]
      unfolding pend_ok_def by (simp add: AList.distinct_update) (metis add_leD1 le_trans add.right_neutral)
  qed
  then show ?thesis by (simp add: ra_ok_def p_def)
qed

lemma pushFragment_ok:
  assumes r: "ra_ok r" "1 \<le> ra_maxOpenFrames r" and n: "2 \<le> n" "int n \<le> VIDEO_MAX_FRAGS" "i < n"
  shows "ra_ok (fst (pushFragment r m s n i b tm))"
proof -
  define st where "st = streamKey (get m ''stream'')"
  obtain r' ok where e: "ensureBudget r (length b) st = (r', ok)" by fastforce
  define r2 where "r2 = r'\<lparr>ra_pending := AList.update (st, s) (new_entry m n tm) (ra_pending r')\<rparr>"
  have fresh: "ra_ok (fst (if \<not> ok then (r', None) else finishPart r2 m (st, s) (new_entry m n tm) i b))"
  proof (cases ok)
    case True
    then have "ra_ok r2" using open_entry_ok [OF _ r n(1,2) st_def, of b r' s tm] e by (simp add: r2_def)
    then show ?thesis
      using True n(3) by (auto simp: r2_def update_conv' new_entry_def intro!: finishPart_ok)
  qed (use ensureBudget_result(2) [OF e r] in simp)
  show ?thesis
  proof (cases "map_of (ra_pending r) (st, s)")
    case None
    then show ?thesis using fresh by (cases ok) (simp_all add: pushFragment_def Let_def st_def [symmetric] e r2_def)
  next
    case (Some entry)
    show ?thesis
    proof (cases "fe_frags entry = n")
      case True
      then show ?thesis
        using finishPart_ok [OF r(1) Some, of i m b] n(3) by (simp add: pushFragment_def Let_def st_def [symmetric] Some)
    next
      case False
      then show ?thesis
        using fresh by (cases ok) (simp_all add: pushFragment_def Let_def st_def [symmetric] Some e r2_def)
    qed
  qed
qed

lemma gc_ok: "ra_ok r \<Longrightarrow> ra_ok (ra_gc r tm)"
  using pend_ok_filter by (auto simp: ra_gc_def ra_ok_def)

lemma toFragCount_range: "toFragCount v = n \<Longrightarrow> n \<noteq> 0 \<Longrightarrow> int n \<le> VIDEO_MAX_FRAGS"
  by (auto simp: toFragCount_def split: option.splits if_splits)

lemma toFragIndex_range: "toFragIndex v n = Some i \<Longrightarrow> i < n"
  by (auto simp: toFragIndex_def split: option.splits if_splits)

lemma pushFragment_fields:
  "ra_maxOpenFrames (fst (pushFragment r m s n i b tm)) = ra_maxOpenFrames r"
  "ra_maxBytes (fst (pushFragment r m s n i b tm)) = ra_maxBytes r"
  by (auto simp: pushFragment_def Let_def ensureBudget_def split: option.splits prod.splits if_splits)

lemma ra_push_cases:
  obtains (other) out where "ra_push r m tm = (ra_gc r tm, out)"
  | (frag) s n i b where "ra_push r m tm = pushFragment (ra_gc r tm) m s n i b tm" "2 \<le> n" "int n \<le> VIDEO_MAX_FRAGS" "i < n"
proof -
  define n where "n = toFragCount (js_coalesce (get m ''frags'') (Num (Fin 1)))"
  define b where "b = toBytes (get m ''data'')"
  show thesis
  proof (cases "n = 0 \<or> toFragIndex (js_coalesce (get m ''frag'') (Num (Fin 0))) n = None \<or> \<not> validMeta m \<or> b = [] \<or>
      length b > VIDEO_MAX_FRAGMENT_BYTES \<or> n = 1 \<or> (\<forall>q. js_Number (get m ''seq'') \<noteq> Fin q)")
    case True
    then have "\<exists>out. ra_push r m tm = (ra_gc r tm, out)"
      by (auto simp: ra_push_def Let_def n_def [symmetric] b_def [symmetric] split: option.splits jsnum.splits)
    then show ?thesis using other by blast
  next
    case False
    then obtain i q where i: "toFragIndex (js_coalesce (get m ''frag'') (Num (Fin 0))) n = Some i" "js_Number (get m ''seq'') = Fin q"
      by auto
    have "ra_push r m tm = pushFragment (ra_gc r tm) m (q - of_nat i) n i b tm"
      using False i by (simp add: ra_push_def Let_def n_def [symmetric] b_def [symmetric])
    then show ?thesis
      using frag [of "q - of_nat i" n i b] False toFragCount_range n_def toFragIndex_range [OF i(1)] by auto
  qed
qed

lemma ra_push_ok:
  assumes "ra_ok r" "1 \<le> ra_maxOpenFrames r"
  shows "ra_ok (fst (ra_push r m tm)) \<and> ra_maxOpenFrames (fst (ra_push r m tm)) = ra_maxOpenFrames r \<and>
     ra_maxBytes (fst (ra_push r m tm)) = ra_maxBytes r"
proof -
  have g: "ra_maxOpenFrames (ra_gc r tm) = ra_maxOpenFrames r" "ra_maxBytes (ra_gc r tm) = ra_maxBytes r"
    by (simp_all add: ra_gc_def)
  show ?thesis
  proof (cases rule: ra_push_cases [of r m tm])
    case (other out)
    then show ?thesis using gc_ok [OF assms(1)] g by simp
  next
    case (frag s n i b)
    then show ?thesis
      using pushFragment_ok [OF gc_ok [OF assms(1)] _ frag(2-4)] assms(2) g by (simp add: pushFragment_fields)
  qed
qed

fun ra_run :: "reassembler \<Rightarrow> (jsv \<times> rat) list \<Rightarrow> reassembler \<times> video_frame option list" where
  "ra_run r [] = (r, [])"
| "ra_run r ((m, tm) # rest) =
     (case ra_push r m tm of (r', out) \<Rightarrow> case ra_run r' rest of (r'', outs) \<Rightarrow> (r'', out # outs))"

lemma ra_run_ok:
  assumes "ra_ok r" "1 \<le> ra_maxOpenFrames r"
  shows "ra_ok (fst (ra_run r ms)) \<and> ra_maxOpenFrames (fst (ra_run r ms)) = ra_maxOpenFrames r \<and>
     ra_maxBytes (fst (ra_run r ms)) = ra_maxBytes r"
  using assms
proof (induction ms arbitrary: r)
  case (Cons a ms)
  then show ?case using ra_push_ok [OF Cons.prems] by (cases a) (simp add: case_prod_beta)
qed simp

text \<open>
  A peer cannot make the reassembler grow: whatever fragments arrive in whatever order, the bytes it
  buffers stay within its budget, and the frames it keeps open stay within the limit of each stream.
\<close>

theorem reassembler_bounded:
  assumes "1 \<le> maxOpen" "ra_run (createFrameReassembler ttl maxOpen maxBytes) ms = (r, outs)"
  shows "bufferedBytes r \<le> maxBytes \<and> (\<forall>st. streamCount st (ra_pending r) \<le> maxOpen) \<and> ra_size r \<le> 2 * maxOpen"
proof -
  have "ra_ok (createFrameReassembler ttl maxOpen maxBytes)"
    by (simp add: createFrameReassembler_def ra_ok_def pend_ok_def)
  then have ok: "ra_ok r" "ra_maxOpenFrames r = maxOpen" "ra_maxBytes r = maxBytes"
    using ra_run_ok [of "createFrameReassembler ttl maxOpen maxBytes" ms] assms by (simp_all add: createFrameReassembler_def)
  have "length p = streamCount Camera p + streamCount Screen p" for p
  proof (induction p)
    case (Cons a p)
    then show ?case by (cases a; cases "fe_stream (snd a)") simp_all
  qed simp
  moreover have "streamCount Camera (ra_pending r) \<le> maxOpen" "streamCount Screen (ra_pending r) \<le> maxOpen"
    using ok by (simp_all add: ra_ok_def pend_ok_def)
  ultimately have "ra_size r \<le> 2 * maxOpen" unfolding ra_size_def by (metis add_mono mult_2)
  then show ?thesis using ok by (simp add: ra_ok_def pend_ok_def bufferedBytes_def)
qed

theorem reassembler_bounded_witness:
  "bufferedBytes (fst (ra_run (createFrameReassembler 1000 8 4194304) [(Str ''junk'', 0), (Obj [], 1)])) \<le> 4194304"
  using reassembler_bounded [OF _ prod.collapse [symmetric], of 8 1000 4194304 "[(Str ''junk'', 0), (Obj [], 1)]"]
  by (simp del: ra_run.simps)

section \<open>Round trip\<close>

lemma splitLoop_parts:
  "0 < n \<Longrightarrow> concat (splitLoop n d) = d \<and> (\<forall>p \<in> set (splitLoop n d). p \<noteq> [] \<and> length p \<le> n) \<and> (d \<noteq> [] \<longrightarrow> splitLoop n d \<noteq> [])"
proof (induction n d rule: splitLoop.induct)
  case (1 n d)
  then show ?case by (subst (1 2 3) splitLoop.simps) auto
qed

definition mask :: "bytes list \<Rightarrow> nat set \<Rightarrow> bytes option list" where
  "mask ps S = map (\<lambda>j. if j \<in> S then Some (ps ! j) else None) [0..<length ps]"

lemma length_mask [simp]: "length (mask ps S) = length ps"
  by (simp add: mask_def)

lemma nth_mask: "j < length ps \<Longrightarrow> mask ps S ! j = (if j \<in> S then Some (ps ! j) else None)"
  by (simp add: mask_def)

lemma mask_empty: "mask ps {} = replicate (length ps) None"
  by (simp add: mask_def map_replicate_const)

lemma mask_insert: "i < length ps \<Longrightarrow> (mask ps S)[i := Some (ps ! i)] = mask ps (insert i S)"
  by (rule nth_equalityI) (auto simp: nth_mask nth_list_update)

lemma None_in_mask: "None \<in> set (mask ps S) \<longleftrightarrow> \<not> {..<length ps} \<subseteq> S"
  by (auto simp: mask_def)

lemma concat_mask: "{..<length ps} \<subseteq> S \<Longrightarrow> concat (map the (mask ps S)) = concat ps"
  by (rule arg_cong [of _ _ concat], rule nth_equalityI) (auto simp: nth_mask subset_iff)

lemma mask_bytes: "sum_list (map part_length (mask ps S)) \<le> length (concat ps)"
proof -
  have "sum_list (map part_length (mask ps S)) \<le> sum_list (map (\<lambda>j. length (ps ! j)) [0..<length ps])"
    unfolding mask_def map_map by (rule sum_list_mono) (simp add: part_length_def)
  also have "map (\<lambda>j. length (ps ! j)) [0..<length ps] = map length ps" by (rule nth_equalityI) simp_all
  finally show ?thesis by (simp add: length_concat)
qed

definition is_fragment :: "bytes list \<Rightarrow> video_stream \<Rightarrow> int \<Rightarrow> nat \<Rightarrow> jsv \<Rightarrow> bool" where
  "is_fragment ps st seq i m \<longleftrightarrow> get m ''frags'' = JInt (int (length ps)) \<and> get m ''frag'' = JInt (int i) \<and>
     get m ''seq'' = JInt (seq + int i) \<and> get m ''data'' = Bytes (ps ! i) \<and> streamKey (get m ''stream'') = st \<and> validMeta m"

definition part_ok :: "bytes list \<Rightarrow> bool" where
  "part_ok ps \<longleftrightarrow> int (length ps) \<le> VIDEO_MAX_FRAGS \<and> (\<forall>p \<in> set ps. p \<noteq> [] \<and> length p \<le> VIDEO_MAX_FRAGMENT_BYTES)"

lemma toFragCount_JInt: "1 \<le> n \<Longrightarrow> int n \<le> VIDEO_MAX_FRAGS \<Longrightarrow> toFragCount (js_coalesce (JInt (int n)) d) = n"
  by (simp add: toFragCount_def js_coalesce_def integer_num_def)

lemma toFragIndex_JInt: "i < n \<Longrightarrow> toFragIndex (js_coalesce (JInt (int i)) d) n = Some i"
  by (simp add: toFragIndex_def js_coalesce_def integer_num_def)

lemma push_is_fragment:
  assumes f: "is_fragment ps st seq i m" and ps: "part_ok ps" "2 \<le> length ps" and i: "i < length ps"
  shows "ra_push r m tm = pushFragment (ra_gc r tm) m (of_int seq) (length ps) i (ps ! i) tm"
proof -
  have n: "toFragCount (js_coalesce (get m ''frags'') (JInt 1)) = length ps"
    using f ps toFragCount_JInt [of "length ps"] by (simp add: is_fragment_def part_ok_def)
  have k: "toFragIndex (js_coalesce (get m ''frag'') (JInt 0)) (length ps) = Some i"
    using f i toFragIndex_JInt [of i] by (simp add: is_fragment_def)
  have b: "ps ! i \<noteq> []" "length (ps ! i) \<le> VIDEO_MAX_FRAGMENT_BYTES" using ps(1) i by (auto simp: part_ok_def)
  have d: "toBytes (get m ''data'') = ps ! i" "js_Number (get m ''seq'') = Fin (of_int seq + of_nat i)" "validMeta m"
    using f by (simp_all add: is_fragment_def toBytes_def)
  show ?thesis
    unfolding ra_push_def Let_def n k d option.case using ps(2) b d(3) by (auto simp: Suc_le_eq)
qed

text \<open>The reassembler between the first and the last fragment of one frame.\<close>

definition waiting :: "reassembler \<Rightarrow> bytes list \<Rightarrow> video_stream \<Rightarrow> int \<Rightarrow> rat \<Rightarrow> nat set \<Rightarrow> bool" where
  "waiting r ps st seq t0 S \<longleftrightarrow> (if S = {} then ra_pending r = []
     else \<exists>e. ra_pending r = [((st, of_int seq), e)] \<and> fe_parts e = mask ps S \<and> fe_got e = card S \<and>
       fe_frags e = length ps \<and> fe_createdAt e = t0)"

lemma finish_step:
  assumes p: "ra_pending r = [(k, e)]" and e: "fe_parts e = mask ps S" "fe_got e = card S" "fe_frags e = length ps"
    and S: "S \<subseteq> {..<length ps}" "i < length ps" "i \<notin> S" and mb: "length (concat ps) \<le> ra_maxBytes r"
  shows "insert i S \<noteq> {..<length ps} \<Longrightarrow> finishPart r m k e i (ps ! i) = (r\<lparr>ra_pending := [(k, add_part m e i (ps ! i))]\<rparr>, None)"
    and "insert i S = {..<length ps} \<Longrightarrow> \<exists>f. finishPart r m k e i (ps ! i) = (r\<lparr>ra_pending := []\<rparr>, Some f) \<and> vf_bytes f = concat ps"
proof -
  have fin: "finite S" using S(1) finite_subset by blast
  have prev: "fe_parts e ! i = None" using S e by (simp add: nth_mask)
  define e' where "e' = add_part m e i (ps ! i)"
  have e': "fe_parts e' = mask ps (insert i S)" "fe_got e' = card (insert i S)" "fe_frags e' = length ps"
    using e prev S fin by (simp_all add: e'_def mask_insert)
  have "sum_list (map part_length (mask ps (insert i S))) = sum_list (map part_length (mask ps S)) + length (ps ! i)"
    using sum_list_part_update [of i "mask ps S" "ps ! i"] S by (simp add: mask_insert nth_mask part_length_def)
  then have bytes: "totalBytes (ra_pending r) + length (ps ! i) \<le> ra_maxBytes r"
    using mask_bytes [of ps "insert i S"] mb by (simp add: p entryBytes_def e)
  have lt: "card (insert i S) < length ps \<longleftrightarrow> insert i S \<noteq> {..<length ps}"
  proof
    assume "insert i S \<noteq> {..<length ps}"
    then have "insert i S \<subset> {..<length ps}" using S by blast
    then show "card (insert i S) < length ps" using psubset_card_mono [OF finite_lessThan] by (metis card_lessThan)
  qed (metis card_lessThan less_irrefl)
  have fp: "finishPart r m k e i (ps ! i) = (if fe_got e' < fe_frags e' then (r\<lparr>ra_pending := [(k, e')]\<rparr>, None)
      else (r\<lparr>ra_pending := []\<rparr>, if None \<in> set (fe_parts e') then None else Some (complete_entry e' (concat (map the (fe_parts e'))))))"
    using bytes prev by (simp add: finishPart_def Let_def e'_def [symmetric] part_length_def p)
  show "insert i S \<noteq> {..<length ps} \<Longrightarrow> finishPart r m k e i (ps ! i) = (r\<lparr>ra_pending := [(k, add_part m e i (ps ! i))]\<rparr>, None)"
    unfolding e'_def [symmetric] fp e'(2,3) using lt by simp
  assume all: "insert i S = {..<length ps}"
  then show "\<exists>f. finishPart r m k e i (ps ! i) = (r\<lparr>ra_pending := []\<rparr>, Some f) \<and> vf_bytes f = concat ps"
    unfolding fp e'(1-3) None_in_mask using lt concat_mask [of ps "insert i S"] by (simp add: complete_entry_def)
qed

lemma fragment_step:
  assumes w: "waiting r ps st seq t0 S" and S: "S \<subseteq> {..<length ps}" "i < length ps" "i \<notin> S"
    and f: "is_fragment ps st seq i m" and ps: "part_ok ps" "2 \<le> length ps"
    and mb: "length (concat ps) \<le> ra_maxBytes r" and mo: "1 \<le> ra_maxOpenFrames r"
    and tm: "if S = {} then tm = t0 else tm - t0 \<le> ra_ttlMs r"
  shows "\<exists>r' out. ra_push r m tm = (r', out) \<and> ra_maxBytes r' = ra_maxBytes r \<and> ra_maxOpenFrames r' = ra_maxOpenFrames r \<and>
     ra_ttlMs r' = ra_ttlMs r \<and>
     (if insert i S = {..<length ps} then ra_pending r' = [] \<and> (\<exists>f. out = Some f \<and> vf_bytes f = concat ps)
      else out = None \<and> waiting r' ps st seq t0 (insert i S))"
proof -
  define k where "k = (st, of_int seq :: rat)"
  define n where "n = length ps"
  have st: "streamKey (get m ''stream'') = st" using f by (simp add: is_fragment_def)
  have "\<exists>e c. ra_push r m tm = finishPart c m k e i (ps ! i) \<and> ra_pending c = [(k, e)] \<and> fe_parts e = mask ps S \<and>
      fe_got e = card S \<and> fe_frags e = n \<and> fe_createdAt e = t0 \<and> ra_maxBytes c = ra_maxBytes r \<and>
      ra_maxOpenFrames c = ra_maxOpenFrames r \<and> ra_ttlMs c = ra_ttlMs r"
  proof (cases "S = {}")
    case True
    have g: "ra_gc r tm = r" using w True by (simp add: waiting_def ra_gc_def)
    have "length (ps ! i) \<le> length (concat ps)" 
      unfolding length_concat by (rule member_le_sum_list) (use S(2) in simp_all)
    then have "ensureBudget r (length (ps ! i)) st = (r, True)"
      using w True mo mb by (simp add: ensureBudget_def Let_def waiting_def dropStream.simps dropBytes.simps)
    then have "ra_push r m tm = finishPart (r\<lparr>ra_pending := [(k, new_entry m n tm)]\<rparr>) m k (new_entry m n tm) i (ps ! i)"
      using w True unfolding push_is_fragment [OF f ps S(2)] g pushFragment_def Let_def st k_def [symmetric]
      by (simp add: waiting_def n_def)
    then show ?thesis
      using True tm by (intro exI [of _ "new_entry m n tm"] exI [of _ "r\<lparr>ra_pending := [(k, new_entry m n tm)]\<rparr>"])
        (simp add: new_entry_def mask_empty n_def)
  next
    case False
    then obtain e where e: "ra_pending r = [(k, e)]" "fe_parts e = mask ps S" "fe_got e = card S" "fe_frags e = n" "fe_createdAt e = t0"
      using w by (auto simp: waiting_def k_def n_def)
    have g: "ra_gc r tm = r" using e tm False by (simp add: ra_gc_def)
    have "ra_push r m tm = finishPart r m k e i (ps ! i)"
      unfolding push_is_fragment [OF f ps S(2)] g pushFragment_def Let_def st k_def [symmetric] by (simp add: e n_def)
    then show ?thesis using e by blast
  qed
  then obtain e c where c: "ra_push r m tm = finishPart c m k e i (ps ! i)" "ra_pending c = [(k, e)]" "fe_parts e = mask ps S"
      "fe_got e = card S" "fe_frags e = length ps" "fe_createdAt e = t0" "ra_maxBytes c = ra_maxBytes r"
      "ra_maxOpenFrames c = ra_maxOpenFrames r" "ra_ttlMs c = ra_ttlMs r" unfolding n_def by blast
  have mbc: "length (concat ps) \<le> ra_maxBytes c" using mb c(7) by simp
  note step = finish_step [OF c(2-5) S mbc, of m]
  show ?thesis
  proof (cases "insert i S = {..<length ps}")
    case True
    then show ?thesis using step(2) c by fastforce
  next
    case False
    have "fe_got (add_part m e i (ps ! i)) = card (insert i S)" "fe_parts (add_part m e i (ps ! i)) = mask ps (insert i S)"
      using c S finite_subset [OF S(1)] by (simp_all add: nth_mask mask_insert)
    then have "waiting (c\<lparr>ra_pending := [(k, add_part m e i (ps ! i))]\<rparr>) ps st seq t0 (insert i S)"
      using c by (simp add: waiting_def k_def)
    then show ?thesis using step(1) [OF False] c False by auto
  qed
qed

lemma fragments_run:
  assumes "waiting r ps st seq t0 S" "S \<subseteq> {..<length ps}" "set is = {..<length ps} - S" "distinct is" "is \<noteq> []"
    and "length tms = length is" "\<forall>i \<in> set is. is_fragment ps st seq i (ms i)"
    and "part_ok ps" "2 \<le> length ps" "length (concat ps) \<le> ra_maxBytes r" "1 \<le> ra_maxOpenFrames r"
    and "S = {} \<longrightarrow> hd tms = t0" "\<forall>tm \<in> set tms. tm - t0 \<le> ra_ttlMs r"
  shows "\<exists>r' f. ra_run r (zip (map ms is) tms) = (r', replicate (length is - 1) None @ [Some f]) \<and>
     vf_bytes f = concat ps \<and> ra_pending r' = []"
  using assms
proof (induction "is" arbitrary: r S tms)
  case (Cons i rest)
  obtain tm tms' where tms: "tms = tm # tms'" "length tms' = length rest" using Cons.prems(6) by (cases tms) auto
  have i: "i < length ps" "i \<notin> S" "is_fragment ps st seq i (ms i)" using Cons.prems(3,7) by auto
  have tmok: "if S = {} then tm = t0 else tm - t0 \<le> ra_ttlMs r" using Cons.prems(12,13) tms by simp
  obtain r' out where p: "ra_push r (ms i) tm = (r', out)" "ra_maxBytes r' = ra_maxBytes r" "ra_maxOpenFrames r' = ra_maxOpenFrames r"
      "ra_ttlMs r' = ra_ttlMs r"
      "if insert i S = {..<length ps} then ra_pending r' = [] \<and> (\<exists>f. out = Some f \<and> vf_bytes f = concat ps)
       else out = None \<and> waiting r' ps st seq t0 (insert i S)"
    using fragment_step [OF Cons.prems(1,2) i(1,2,3) Cons.prems(8-11) tmok] by auto
  have rest: "set rest = {..<length ps} - insert i S" using Cons.prems(3,4) by auto
  have iff: "insert i S = {..<length ps} \<longleftrightarrow> rest = []" using rest i(1) Cons.prems(2) by auto
  show ?case
  proof (cases "rest = []")
    case True
    then show ?thesis using p(1,5) iff tms by auto
  next
    case False
    then have w: "out = None" "waiting r' ps st seq t0 (insert i S)" using p(5) iff by auto
    have "\<exists>r'' f. ra_run r' (zip (map ms rest) tms') = (r'', replicate (length rest - 1) None @ [Some f]) \<and>
        vf_bytes f = concat ps \<and> ra_pending r'' = []"
      by (rule Cons.IH [OF w(2) _ rest _ False tms(2)]) (use Cons.prems i(1) p(2-4) tms(1) in auto)
    then obtain r'' f where q: "ra_run r' (zip (map ms rest) tms') = (r'', replicate (length rest - 1) None @ [Some f])"
        "vf_bytes f = concat ps" "ra_pending r'' = []" by blast
    have "length rest = Suc (length rest - 1)" using False by (cases rest) simp_all
    then have "replicate (length rest) None = None # replicate (length rest - 1) (None :: video_frame option)"
      by (metis replicate_Suc)
    then show ?thesis using p(1) w(1) q tms by simp
  qed
qed simp

text \<open>
  C38. A frame survives the network: cut by \<open>splitVideoFrame\<close> into at most 64 fragments and delivered to an
  empty reassembler in any order within its time to live, every fragment but the last to arrive gives
  nothing, the last gives back exactly the bytes of the frame, and nothing stays behind.
\<close>

theorem frame_roundtrip:
  assumes "ps = splitVideoFrame data maxFrag" "data \<noteq> []" "2 \<le> length ps" "length ps \<le> 64" "maxFrag \<le> 24576"
    and "set is = {..<length ps}" "distinct is" "length tms = length is" "\<forall>i \<in> set is. is_fragment ps st seq i (ms i)"
    and "length data \<le> maxBytes" "1 \<le> maxOpen" "\<forall>tm \<in> set tms. tm - hd tms \<le> ttl"
  shows "\<exists>r f. ra_run (createFrameReassembler ttl maxOpen maxBytes) (zip (map ms is) tms) =
       (r, replicate (length ps - 1) None @ [Some f]) \<and> vf_bytes f = data \<and> ra_size r = 0"
proof -
  define r0 where "r0 = createFrameReassembler ttl maxOpen maxBytes"
  define n where "n = max 1 (if maxFrag = 0 then VIDEO_MAX_FRAGMENT_BYTES else maxFrag)"
  have n: "0 < n" "n \<le> VIDEO_MAX_FRAGMENT_BYTES" using assms(5) by (auto simp: n_def)
  have ps: "ps = splitLoop n data" using assms(1,2) by (simp add: splitVideoFrame_def Let_def n_def)
  have parts: "concat ps = data" "\<forall>p \<in> set ps. p \<noteq> [] \<and> length p \<le> n" using splitLoop_parts [OF n(1), of data] ps by auto
  have ok: "part_ok ps" using parts(2) n(2) assms(4) unfolding part_ok_def by (auto simp del: limit_values intro: order_trans) (simp add: VIDEO_MAX_FRAGS_def)
  have len: "length is = length ps" using assms(6,7) by (metis card_lessThan distinct_card)
  have r0: "ra_pending r0 = []" "ra_maxBytes r0 = maxBytes" "ra_maxOpenFrames r0 = maxOpen" "ra_ttlMs r0 = ttl"
    by (simp_all add: r0_def createFrameReassembler_def)
  have w: "waiting r0 ps st seq (hd tms) {}" by (simp add: waiting_def r0)
  have "\<exists>r f. ra_run r0 (zip (map ms is) tms) = (r, replicate (length is - 1) None @ [Some f]) \<and>
      vf_bytes f = concat ps \<and> ra_pending r = []"
    by (rule fragments_run [OF w]) (use assms ok parts(1) r0 len in auto)
  then show ?thesis unfolding r0_def [symmetric] len parts(1) ra_size_def by auto
qed

definition sample_fragment :: "bytes list \<Rightarrow> nat \<Rightarrow> jsv" where
  "sample_fragment ps i = Obj [(''frags'', JInt (int (length ps))), (''frag'', JInt (int i)), (''seq'', JInt (7 + int i)),
     (''data'', Bytes (ps ! i))]"

theorem frame_roundtrip_witness:
  "\<exists>r f. ra_run (createFrameReassembler 1000 8 4194304)
       [(sample_fragment [[1, 2], [3]] 1, 10), (sample_fragment [[1, 2], [3]] 0, 20)] = (r, [None, Some f]) \<and>
     vf_bytes f = [1, 2, 3] \<and> ra_size r = 0"
proof -
  have ps: "[[1, 2], [3]] = splitVideoFrame [1, 2, 3 :: byte] 2" by (simp add: splitVideoFrame_def splitLoop.simps)
  have fr: "\<forall>i \<in> set [1, 0]. is_fragment [[1, 2], [3]] Camera 7 i (sample_fragment [[1, 2], [3]] i)"
    by (simp add: is_fragment_def sample_fragment_def streamKey_def validMeta_def validSize_def)
  have set: "set [1, 0] = {..<length [[1, 2], [3 :: byte]]}" by auto
  show ?thesis
    using frame_roundtrip [OF ps _ _ _ _ set _ _ fr, of "[10, 20]" 4194304 8 1000] by (simp del: ra_run.simps)
qed

end
