(* ===== verification/Video_Control.thy ===== *)
theory Video_Control
  imports JS_Values
begin

text \<open>
  Pacing of the video streams: the congestion controller (\<open>src/renderer/calls/videoCongestion.js\<close>), which limits
  the frames on their way and lowers the bit rate, and the key frame controller
  (\<open>src/renderer/calls/videoKeyframe.js\<close>), which drops delta frames after a gap and limits how often a
  key frame is asked for. The fields of the two-entry objects \<open>inFlight\<close> and \<open>bitrate\<close> are functions
  of the stream; \<open>audioBusy()\<close> is an argument.
\<close>

section \<open>Congestion\<close>

definition VIDEO_MAX_IN_FLIGHT :: nat where "VIDEO_MAX_IN_FLIGHT = 5"
definition CAMERA_BITRATE_BPS :: int where "CAMERA_BITRATE_BPS = 600000"
definition SCREEN_BITRATE_BPS :: int where "SCREEN_BITRATE_BPS = 1200000"
definition MIN_VIDEO_BITRATE_BPS :: int where "MIN_VIDEO_BITRATE_BPS = 80000"

datatype stream_key = CameraKey | ScreenKey

definition keyOf :: "string \<Rightarrow> stream_key" where
  "keyOf stream = (if stream = ''screen'' then ScreenKey else CameraKey)"

record congestion =
  cg_maxInFlight :: nat
  cg_inFlight :: "stream_key \<Rightarrow> nat"
  cg_bitrate :: "stream_key \<Rightarrow> int"

definition createCongestionController :: "nat \<Rightarrow> int \<Rightarrow> int \<Rightarrow> congestion" where
  "createCongestionController maxInFlight cameraBitrate screenBitrate =
     \<lparr>cg_maxInFlight = maxInFlight, cg_inFlight = (\<lambda>_. 0),
      cg_bitrate = (\<lambda>k. case k of CameraKey \<Rightarrow> cameraBitrate | ScreenKey \<Rightarrow> screenBitrate)\<rparr>"

definition canSend :: "congestion \<Rightarrow> bool \<Rightarrow> string \<Rightarrow> bool" where
  "canSend c audioBusy stream = (if audioBusy then False else cg_inFlight c (keyOf stream) < cg_maxInFlight c)"

definition onQueued :: "congestion \<Rightarrow> string \<Rightarrow> congestion" where
  "onQueued c stream = (let k = keyOf stream in c\<lparr>cg_inFlight := (cg_inFlight c)(k := cg_inFlight c k + 1)\<rparr>)"

definition onDone :: "congestion \<Rightarrow> string \<Rightarrow> congestion" where
  "onDone c stream = (let k = keyOf stream in c\<lparr>cg_inFlight := (cg_inFlight c)(k := cg_inFlight c k - 1)\<rparr>)"

text \<open>\<open>Math.round(b * 0.75)\<close> is \<open>\<lfloor>3b/4 + 1/2\<rfloor>\<close>.\<close>

definition onCongested :: "congestion \<Rightarrow> string \<Rightarrow> congestion \<times> int" where
  "onCongested c stream =
     (let k = keyOf stream; b = max MIN_VIDEO_BITRATE_BPS ((cg_bitrate c k * 3 + 2) div 4)
      in (c\<lparr>cg_bitrate := (cg_bitrate c)(k := b)\<rparr>, b))"

definition currentBitrate :: "congestion \<Rightarrow> string \<Rightarrow> int" where
  "currentBitrate c stream = cg_bitrate c (keyOf stream)"

section \<open>Key frames\<close>

definition KEYFRAME_REQUEST_MIN_INTERVAL_MS :: rat where "KEYFRAME_REQUEST_MIN_INTERVAL_MS = 1000"

record keyframe_ctl =
  kf_minInterval :: rat
  kf_waiting :: bool
  kf_lastRequestAt :: rat

definition createKeyframeController :: "rat \<Rightarrow> keyframe_ctl" where
  "createKeyframeController minIntervalMs = \<lparr>kf_minInterval = minIntervalMs, kf_waiting = False, kf_lastRequestAt = 0\<rparr>"

text \<open>\<open>Number(now) || 0\<close>; a time that is not finite is not modelled.\<close>

definition onGap :: "keyframe_ctl \<Rightarrow> rat \<Rightarrow> keyframe_ctl \<times> bool" where
  "onGap c t =
     (let c1 = c\<lparr>kf_waiting := True\<rparr>
      in if t - kf_lastRequestAt c < kf_minInterval c then (c1, False) else (c1\<lparr>kf_lastRequestAt := t\<rparr>, True))"

definition shouldDropDelta :: "keyframe_ctl \<Rightarrow> bool" where
  "shouldDropDelta c = kf_waiting c"

definition onKeyframe :: "keyframe_ctl \<Rightarrow> keyframe_ctl" where
  "onKeyframe c = c\<lparr>kf_waiting := False\<rparr>"

section \<open>Properties\<close>

text \<open>
  The sender's use of the controller: a frame is queued only after \<open>canSend\<close> allowed it; completions and
  congestion reports come in any order, also more often than they should.
\<close>

inductive congestion_step :: "congestion \<Rightarrow> congestion \<Rightarrow> bool" where
  queued: "canSend c busy stream \<Longrightarrow> congestion_step c (onQueued c stream)"
| finished: "congestion_step c (onDone c stream)"
| congested: "congestion_step c (fst (onCongested c stream))"

lemma rounded_down: "MIN_VIDEO_BITRATE_BPS \<le> b \<Longrightarrow> max MIN_VIDEO_BITRATE_BPS ((b * 3 + 2) div 4) \<le> b"
  by (auto simp: MIN_VIDEO_BITRATE_BPS_def)

definition congestion_ok :: "nat \<Rightarrow> (stream_key \<Rightarrow> int) \<Rightarrow> congestion \<Rightarrow> bool" where
  "congestion_ok m ceil c \<longleftrightarrow> cg_maxInFlight c = m \<and> (\<forall>k. cg_inFlight c k \<le> m) \<and>
     (\<forall>k. MIN_VIDEO_BITRATE_BPS \<le> cg_bitrate c k \<and> cg_bitrate c k \<le> ceil k)"

lemma congestion_step_ok: "congestion_step c c' \<Longrightarrow> congestion_ok m ceil c \<Longrightarrow> congestion_ok m ceil c'"
proof (induction rule: congestion_step.induct)
  case (queued c busy stream)
  then show ?case by (auto simp: canSend_def congestion_ok_def onQueued_def Let_def split: if_splits)
next
  case (finished c stream)
  then show ?case by (auto simp: congestion_ok_def onDone_def Let_def intro: diff_le_self le_trans)
next
  case (congested c stream)
  then have "max MIN_VIDEO_BITRATE_BPS ((cg_bitrate c (keyOf stream) * 3 + 2) div 4) \<le> ceil (keyOf stream)"
    using rounded_down order_trans by (metis congestion_ok_def)
  then show ?case using congested by (auto simp: congestion_ok_def onCongested_def Let_def)
qed

text \<open>
  Video never exceeds its budget: as long as the sender asks before it queues, no stream has more than
  the maximum number of frames on their way, bit rates stay between the minimum and their initial
  value whatever is reported, and every report of congestion lowers a rate that is above the minimum.
\<close>

theorem congestion_bounded:
  assumes "congestion_step\<^sup>*\<^sup>* (createCongestionController m cam scr) c" "80000 \<le> cam" "80000 \<le> scr"
  shows "cg_inFlight c k \<le> m \<and> 80000 \<le> currentBitrate c st \<and> currentBitrate c st \<le> (if st = ''screen'' then scr else cam) \<and>
    (80000 < currentBitrate c st \<longrightarrow> snd (onCongested c st) < currentBitrate c st)"
proof -
  define ceil where "ceil k = (case k of CameraKey \<Rightarrow> cam | ScreenKey \<Rightarrow> scr)" for k
  have "congestion_ok m ceil c"
    using assms(1)
  proof (induction rule: rtranclp_induct)
    case base
    then show ?case
      using assms(2,3) by (auto simp: congestion_ok_def createCongestionController_def ceil_def MIN_VIDEO_BITRATE_BPS_def split: stream_key.splits)
  qed (rule congestion_step_ok)
  moreover have "ceil (keyOf st) = (if st = ''screen'' then scr else cam)" by (simp add: ceil_def keyOf_def)
  ultimately show ?thesis
    by (auto simp: congestion_ok_def currentBitrate_def MIN_VIDEO_BITRATE_BPS_def onCongested_def Let_def)
qed

theorem congestion_bounded_witness:
  "cg_inFlight (onQueued (createCongestionController 1 600000 1200000) ''screen'') ScreenKey \<le> 1"
proof -
  have "congestion_step (createCongestionController 1 600000 1200000) (onQueued (createCongestionController 1 600000 1200000) ''screen'')"
    by (rule congestion_step.queued [of _ False]) (simp add: canSend_def createCongestionController_def)
  then show ?thesis using congestion_bounded [OF r_into_rtranclp] by simp
qed

datatype keyframe_op = Gap rat | Keyframe

fun kf_run :: "keyframe_ctl \<Rightarrow> keyframe_op list \<Rightarrow> keyframe_ctl \<times> rat list" where
  "kf_run c [] = (c, [])"
| "kf_run c (Gap t # ops) = (case onGap c t of (c', req) \<Rightarrow> case kf_run c' ops of (c'', rs) \<Rightarrow> (c'', (if req then [t] else []) @ rs))"
| "kf_run c (Keyframe # ops) = kf_run (onKeyframe c) ops"

fun spaced :: "rat \<Rightarrow> rat \<Rightarrow> rat list \<Rightarrow> bool" where
  "spaced d prev [] = True"
| "spaced d prev (t # ts) = (d \<le> t - prev \<and> spaced d t ts)"

lemma kf_run_spaced: "spaced (kf_minInterval c) (kf_lastRequestAt c) (snd (kf_run c ops))"
proof (induction c ops rule: kf_run.induct)
  case (2 c t ops)
  then show ?case by (cases "t - kf_lastRequestAt c < kf_minInterval c") (auto simp: onGap_def Let_def case_prod_beta)
qed (auto simp: onKeyframe_def)

lemma kf_run_waiting:
  "kf_waiting (fst (kf_run c ops)) =
     (case rev ops of [] \<Rightarrow> kf_waiting c | Gap _ # _ \<Rightarrow> True | Keyframe # _ \<Rightarrow> False)"
proof (induction ops rule: rev_induct)
  case (snoc op ops)
  have "kf_run c (ops @ [op]) = (case kf_run c ops of (c', rs) \<Rightarrow> case kf_run c' [op] of (c'', rs') \<Rightarrow> (c'', rs @ rs'))" for c
  proof (induction ops arbitrary: c)
    case (Cons a ops)
    then show ?case by (cases a) (simp_all add: case_prod_beta)
  qed simp
  then show ?case by (cases op) (auto simp: case_prod_beta onGap_def onKeyframe_def Let_def)
qed simp

text \<open>
  Key frames are asked for at most once per interval: over any sequence of gaps and key frames, at any
  times, each request comes at least the minimum interval after the one before it. And delta frames are
  dropped exactly while the last event was a gap.
\<close>

theorem keyframe_requests_spaced:
  "spaced d 0 (snd (kf_run (createKeyframeController d) ops)) \<and>
   shouldDropDelta (fst (kf_run (createKeyframeController d) ops)) =
     (case rev ops of [] \<Rightarrow> False | Gap _ # _ \<Rightarrow> True | Keyframe # _ \<Rightarrow> False)"
  using kf_run_spaced [of "createKeyframeController d" ops] kf_run_waiting [of "createKeyframeController d" ops]
  by (auto simp: createKeyframeController_def shouldDropDelta_def split: list.splits keyframe_op.splits)

end
