(* ===== verification/Group_Chat.thy ===== *)
theory Group_Chat
  imports JS_Values
begin

text \<open>
  Group chats (\<open>src/shared/group-chat.js\<close>): the normal form of a group and its members, the events
  by which members invite, accept, update and leave, and the rules by which a receiving peer applies an
  event to its own copy of the group or accepts a group message.

  A normalised group is the record \<open>group\<close>; what comes from a peer or from the store is a \<open>jsv\<close>,
  and \<open>group_obj\<close> is the object a normalised group is stored and sent as. The clock and the
  random ids are arguments. A thrown error is \<open>Inl\<close>.
\<close>

section \<open>Constants and data\<close>

definition GROUP_PROTOCOL_VERSION :: int where "GROUP_PROTOCOL_VERSION = 1"
definition GROUP_ID_PREFIX :: string where "GROUP_ID_PREFIX = ''group:''"
definition GROUP_EVENT_KIND :: string where "GROUP_EVENT_KIND = ''group-event-v1''"
definition GROUP_MESSAGE_KIND :: string where "GROUP_MESSAGE_KIND = ''group-message-v1''"
definition GROUP_MAX_NAME_CHARS :: nat where "GROUP_MAX_NAME_CHARS = 80"
definition GROUP_MAX_IMAGE_CHARS :: nat where "GROUP_MAX_IMAGE_CHARS = 520 * 1024"
definition GROUP_EVENT_HISTORY_LIMIT :: int where "GROUP_EVENT_HISTORY_LIMIT = 512"

datatype member_state = MInvited | MActive | MLeft | MRemoved
datatype member_role = RAdmin | RMember

definition GROUP_MEMBER_STATES :: "(string \<times> member_state) list" where
  "GROUP_MEMBER_STATES = [(''invited'', MInvited), (''active'', MActive), (''left'', MLeft), (''removed'', MRemoved)]"

definition GROUP_MEMBER_ROLES :: "(string \<times> member_role) list" where
  "GROUP_MEMBER_ROLES = [(''admin'', RAdmin), (''member'', RMember)]"

definition GROUP_EVENT_ACTIONS :: "string list" where
  "GROUP_EVENT_ACTIONS = [''invite'', ''accept'', ''update'', ''leave'']"

fun state_name :: "member_state \<Rightarrow> string" where
  "state_name MInvited = ''invited''"
| "state_name MActive = ''active''"
| "state_name MLeft = ''left''"
| "state_name MRemoved = ''removed''"

fun role_name :: "member_role \<Rightarrow> string" where
  "role_name RAdmin = ''admin''"
| "role_name RMember = ''member''"

definition parse_state :: "jsv \<Rightarrow> member_state option" where
  "parse_state v = (case v of Str s \<Rightarrow> map_of GROUP_MEMBER_STATES s | _ \<Rightarrow> None)"

definition parse_role :: "jsv \<Rightarrow> member_role option" where
  "parse_role v = (case v of Str s \<Rightarrow> map_of GROUP_MEMBER_ROLES s | _ \<Rightarrow> None)"

record group_member =
  mb_peerId :: string
  mb_displayName :: string
  mb_role :: member_role
  mb_state :: member_state
  mb_addedAt :: rat
  mb_joinedAt :: "rat option"
  mb_removedAt :: "rat option"

record group =
  gr_id :: string
  gr_revision :: int
  gr_name :: string
  gr_image :: string
  gr_createdAt :: rat
  gr_createdBy :: string
  gr_updatedAt :: rat
  gr_members :: "group_member list"

definition opt_num :: "rat option \<Rightarrow> jsv" where
  "opt_num v = (case v of None \<Rightarrow> Undef | Some r \<Rightarrow> Num (Fin r))"

definition member_obj :: "group_member \<Rightarrow> jsv" where
  "member_obj m = Obj [(''peerId'', Str (mb_peerId m)), (''displayName'', Str (mb_displayName m)),
     (''role'', Str (role_name (mb_role m))), (''state'', Str (state_name (mb_state m))),
     (''addedAt'', Num (Fin (mb_addedAt m))), (''joinedAt'', opt_num (mb_joinedAt m)),
     (''removedAt'', opt_num (mb_removedAt m))]"

definition group_obj :: "group \<Rightarrow> jsv" where
  "group_obj g = Obj [(''id'', Str (gr_id g)), (''type'', Str ''group''),
     (''protocolVersion'', JInt GROUP_PROTOCOL_VERSION), (''revision'', JInt (gr_revision g)),
     (''name'', Str (gr_name g)), (''image'', Str (gr_image g)), (''createdAt'', Num (Fin (gr_createdAt g))),
     (''createdBy'', Str (gr_createdBy g)), (''updatedAt'', Num (Fin (gr_updatedAt g))),
     (''members'', Arr (map member_obj (gr_members g)))]"

section \<open>Identifiers\<close>

text \<open>\<open>uuid\<close> is what the platform's random source returns.\<close>

definition randomId :: "string \<Rightarrow> string \<Rightarrow> string" where
  "randomId prefix uuid = prefix @ uuid"

definition createGroupId :: "string \<Rightarrow> string" where
  "createGroupId uuid = randomId GROUP_ID_PREFIX uuid"

definition id_char :: "char \<Rightarrow> bool" where
  "id_char c \<longleftrightarrow> (let n = (of_char c :: nat)
     in (65 \<le> n \<and> n \<le> 90) \<or> (97 \<le> n \<and> n \<le> 122) \<or> (48 \<le> n \<and> n \<le> 57) \<or> n = 95 \<or> n = 45)"

definition valid_group_id :: "string \<Rightarrow> bool" where
  "valid_group_id s \<longleftrightarrow> js_startsWith s ''group:'' \<and> list_all id_char (drop 6 s) \<and>
     8 \<le> length (drop 6 s) \<and> length (drop 6 s) \<le> 128"

definition isGroupChatId :: "jsv \<Rightarrow> bool" where
  "isGroupChatId v = (case v of Str s \<Rightarrow> valid_group_id s | _ \<Rightarrow> False)"

datatype chat_ref = GroupRef string | DirectRef string | PlainRef string

definition createChatRef :: "jsv \<Rightarrow> jsv \<Rightarrow> string + chat_ref" where
  "createChatRef ty i =
     (if i = Undef \<and> is_string ty then Inr (PlainRef (js_String ty))
      else if ty = Str ''group'' then
        (if \<not> isGroupChatId i then Inl ''invalid_group_chat_id'' else Inr (GroupRef (js_String i)))
      else if ty = Str ''direct'' \<and> is_string i \<and> js_String i \<noteq> [] then Inr (DirectRef (js_String i))
      else Inl ''invalid_chat_ref'')"

definition parseChatRef :: "jsv \<Rightarrow> string + chat_ref" where
  "parseChatRef i = createChatRef (Str (if isGroupChatId i then ''group'' else ''direct'')) i"

section \<open>Normal form\<close>

definition cleanString :: "jsv \<Rightarrow> nat \<Rightarrow> string" where
  "cleanString v maxChars = js_slice maxChars (js_trim (js_String (js_orv v (Str []))))"

definition normalizeMember :: "rat \<Rightarrow> jsv \<Rightarrow> group_member option" where
  "normalizeMember fallbackNow raw =
     (let peerId = cleanString (js_orv (get raw ''peerId'') (get raw ''id'')) 96
      in if peerId = [] then None else
        let state = (case parse_state (get raw ''state'') of Some st \<Rightarrow> st | None \<Rightarrow> MInvited);
            role = (case parse_role (get raw ''role'') of Some r \<Rightarrow> r | None \<Rightarrow> RMember)
        in Some \<lparr>mb_peerId = peerId,
             mb_displayName = cleanString (js_orv (js_orv (get raw ''displayName'') (get raw ''name'')) (Str peerId)) 80,
             mb_role = role, mb_state = state,
             mb_addedAt = (case isFinite (get raw ''addedAt'') of Some t \<Rightarrow> t | None \<Rightarrow> fallbackNow),
             mb_joinedAt = (case isFinite (get raw ''joinedAt'') of Some t \<Rightarrow> Some t
                | None \<Rightarrow> if state = MActive then Some fallbackNow else None),
             mb_removedAt = isFinite (get raw ''removedAt'')\<rparr>)"

fun normalizeMembers :: "rat \<Rightarrow> jsv list \<Rightarrow> group_member list \<Rightarrow> group_member list" where
  "normalizeMembers now [] members = members"
| "normalizeMembers now (candidate # rest) members =
     (case normalizeMember now candidate of
        None \<Rightarrow> normalizeMembers now rest members
      | Some m \<Rightarrow> if mb_peerId m \<in> mb_peerId ` set members then normalizeMembers now rest members
                  else normalizeMembers now rest (members @ [m]))"

definition promoteCreator :: "group_member \<Rightarrow> group_member" where
  "promoteCreator m = m\<lparr>mb_role := RAdmin, mb_state := (if mb_state m = MInvited then MActive else mb_state m)\<rparr>"

fun update_first :: "('a \<Rightarrow> bool) \<Rightarrow> ('a \<Rightarrow> 'a) \<Rightarrow> 'a list \<Rightarrow> 'a list" where
  "update_first P f [] = []"
| "update_first P f (x # xs) = (if P x then f x # xs else x # update_first P f xs)"

definition normalizeGroup :: "rat \<Rightarrow> jsv \<Rightarrow> string + group" where
  "normalizeGroup now raw =
     (if \<not> js_Boolean raw \<or> \<not> isGroupChatId (get raw ''id'') then Inl ''invalid_group'' else
      let createdAt = (case isFinite (get raw ''createdAt'') of Some t \<Rightarrow> t | None \<Rightarrow> now);
          members = normalizeMembers createdAt (arr_or_empty (get raw ''members'')) [];
          createdBy = cleanString (get raw ''createdBy'') 96
      in if createdBy = [] \<or> createdBy \<notin> mb_peerId ` set members then Inl ''invalid_group_creator'' else
        let name = cleanString (get raw ''name'') GROUP_MAX_NAME_CHARS
        in Inr \<lparr>gr_id = js_String (get raw ''id''),
             gr_revision = max 1 (case isInteger (get raw ''revision'') of Some r \<Rightarrow> r | None \<Rightarrow> 1),
             gr_name = (if name = [] then ''Neue Gruppe'' else name),
             gr_image = cleanString (get raw ''image'') GROUP_MAX_IMAGE_CHARS,
             gr_createdAt = createdAt, gr_createdBy = createdBy,
             gr_updatedAt = (case isFinite (get raw ''updatedAt'') of Some t \<Rightarrow> t | None \<Rightarrow> createdAt),
             gr_members = update_first (\<lambda>m. mb_peerId m = createdBy) promoteCreator members\<rparr>)"

definition creator_row :: "jsv \<Rightarrow> rat \<Rightarrow> jsv" where
  "creator_row creator now = Obj [(''peerId'', get creator ''peerId''),
     (''displayName'', js_orv (get creator ''displayName'') (get creator ''peerId'')),
     (''role'', Str ''admin''), (''state'', Str ''active''), (''addedAt'', Num (Fin now)), (''joinedAt'', Num (Fin now))]"

definition member_row :: "rat \<Rightarrow> jsv \<Rightarrow> jsv" where
  "member_row now m = Obj [(''peerId'', js_orv (get m ''peerId'') (get m ''id'')),
     (''displayName'', js_orv (js_orv (js_orv (get m ''displayName'') (get m ''name'')) (get m ''peerId'')) (get m ''id'')),
     (''role'', Str (if get m ''role'' = Str ''admin'' then ''admin'' else ''member'')),
     (''state'', Str (if get m ''state'' = Str ''active'' then ''active'' else ''invited'')),
     (''addedAt'', Num (Fin now)),
     (''joinedAt'', if get m ''state'' = Str ''active'' then Num (Fin now) else Undef)]"

definition createGroup :: "string \<Rightarrow> jsv \<Rightarrow> jsv \<Rightarrow> jsv \<Rightarrow> jsv list \<Rightarrow> rat \<Rightarrow> string + group" where
  "createGroup gid name img creator members now =
     (if \<not> js_Boolean (get creator ''peerId'') then Inl ''creator_required''
      else if list_ex nullish members then Inl ''TypeError''
      else case normalizeGroup now (Obj [(''id'', Str gid), (''name'', name), (''image'', img),
             (''createdAt'', Num (Fin now)), (''updatedAt'', Num (Fin now)), (''createdBy'', get creator ''peerId''),
             (''revision'', JInt 1), (''members'', Arr (creator_row creator now # map (member_row now) members))])
        of Inl e \<Rightarrow> Inl e
         | Inr g \<Rightarrow> if length (gr_members g) < 2 then Inl ''group_member_required'' else Inr g)"

section \<open>Queries\<close>

definition getGroupMember :: "group \<Rightarrow> jsv \<Rightarrow> group_member option" where
  "getGroupMember g p = find (\<lambda>m. Str (mb_peerId m) = p) (gr_members g)"

definition isActiveGroupMember :: "group \<Rightarrow> jsv \<Rightarrow> bool" where
  "isActiveGroupMember g p = (case getGroupMember g p of Some m \<Rightarrow> mb_state m = MActive | None \<Rightarrow> False)"

definition isGroupAdmin :: "group \<Rightarrow> jsv \<Rightarrow> bool" where
  "isGroupAdmin g p = (case getGroupMember g p of Some m \<Rightarrow> mb_state m = MActive \<and> mb_role m = RAdmin | None \<Rightarrow> False)"

definition groupPeerIds :: "group \<Rightarrow> bool \<Rightarrow> string \<Rightarrow> string list" where
  "groupPeerIds g includeInvited excludePeerId =
     collect_new Some (map mb_peerId (filter (\<lambda>m. mb_state m = MActive \<or> includeInvited \<and> mb_state m = MInvited)
       (filter (\<lambda>m. mb_peerId m \<noteq> excludePeerId) (gr_members g)))) []"

record group_route =
  rt_recipients :: "string list"
  rt_chat :: chat_ref
  rt_transport :: string

definition buildTargetedGroupRoute :: "group \<Rightarrow> string \<Rightarrow> bool option \<Rightarrow> string + group_route" where
  "buildTargetedGroupRoute g senderPeerId includeInvited =
     (case createChatRef (Str ''group'') (Str (gr_id g)) of Inl e \<Rightarrow> Inl e
      | Inr chat \<Rightarrow> Inr \<lparr>rt_recipients = groupPeerIds g (includeInvited \<noteq> Some False) senderPeerId,
                         rt_chat = chat, rt_transport = ''pairwise-e2ee''\<rparr>)"

section \<open>Events\<close>

text \<open>
  An event is created from a group of the caller's, or, for the calls that pass the older
  one-argument form, from an object naming the group and the actor (\<open>Legacy\<close>, an object without
  \<open>members\<close>).
\<close>

datatype event_source = Legacy jsv | Snapshot group

definition source_member :: "event_source \<Rightarrow> jsv \<Rightarrow> group_member option" where
  "source_member src p = (case src of Legacy _ \<Rightarrow> None | Snapshot g \<Rightarrow> getGroupMember g p)"

definition source_admin :: "event_source \<Rightarrow> jsv \<Rightarrow> bool" where
  "source_admin src p = (case src of Legacy _ \<Rightarrow> False | Snapshot g \<Rightarrow> isGroupAdmin g p)"

definition source_obj :: "event_source \<Rightarrow> jsv" where
  "source_obj src = (case src of Legacy v \<Rightarrow> v | Snapshot g \<Rightarrow> group_obj g)"

definition eventBase ::
    "string \<Rightarrow> jsv \<Rightarrow> jsv \<Rightarrow> string \<Rightarrow> jsv \<Rightarrow> string + (string \<times> jsv) list" where
  "eventBase action groupId actorId uuid now =
     (if action \<notin> set GROUP_EVENT_ACTIONS then Inl ''invalid_group_action''
      else Inr [(''kind'', Str GROUP_EVENT_KIND), (''protocolVersion'', JInt GROUP_PROTOCOL_VERSION),
        (''eventId'', Str (randomId ''group-event:'' uuid)), (''action'', Str action), (''groupId'', groupId),
        (''actorId'', actorId), (''timestamp'', now)])"

definition event_with :: "string + (string \<times> jsv) list \<Rightarrow> (string \<times> jsv) list \<Rightarrow> string + jsv" where
  "event_with base extra = (case base of Inl e \<Rightarrow> Inl e | Inr fs \<Rightarrow> Inr (Obj (fs @ extra)))"

definition legacy_call :: "event_source \<Rightarrow> string \<Rightarrow> bool" where
  "legacy_call src f = (let v = source_obj src
     in js_Boolean (get v ''groupId'') \<and> js_Boolean (get v ''actorId'') \<and> js_Boolean (get v f))"

definition legacyBase :: "string \<Rightarrow> event_source \<Rightarrow> string \<Rightarrow> rat \<Rightarrow> string + (string \<times> jsv) list" where
  "legacyBase action src uuid clock = (let v = source_obj src
     in eventBase action (get v ''groupId'') (get v ''actorId'') uuid (js_orv (get v ''timestamp'') (Num (Fin clock))))"

definition createGroupInviteEvent :: "rat \<Rightarrow> string \<Rightarrow> event_source \<Rightarrow> string \<Rightarrow> string \<Rightarrow> rat \<Rightarrow> string + jsv" where
  "createGroupInviteEvent clock uuid src actorId recipientId now =
     (if legacy_call src ''invitee'' then
        event_with (legacyBase ''invite'' src uuid clock)
          [(''invitee'', case normalizeMember clock (get (source_obj src) ''invitee'') of Some m \<Rightarrow> member_obj m | None \<Rightarrow> Null),
           (''legacyMutation'', Bool True)]
      else if \<not> source_admin src (Str actorId) then Inl ''admin_required''
      else case source_member src (Str recipientId) of
          None \<Rightarrow> Inl ''invalid_invitee''
        | Some m \<Rightarrow> if mb_state m \<noteq> MInvited \<and> mb_state m \<noteq> MActive then Inl ''invalid_invitee'' else
            (case normalizeGroup clock (source_obj src) of Inl e \<Rightarrow> Inl e
             | Inr g \<Rightarrow> event_with (eventBase ''invite'' (get (source_obj src) ''id'') (Str actorId) uuid (Num (Fin now)))
                 [(''recipientId'', Str recipientId), (''group'', group_obj g)]))"

definition createGroupAcceptEvent :: "rat \<Rightarrow> string \<Rightarrow> event_source \<Rightarrow> string \<Rightarrow> rat \<Rightarrow> string + jsv" where
  "createGroupAcceptEvent clock uuid src actorId now =
     (let v = source_obj src
      in if js_Boolean (get v ''groupId'') \<and> js_Boolean (get v ''actorId'') \<and> \<not> js_Boolean (get v ''members'') then
           event_with (legacyBase ''accept'' src uuid clock) [(''legacyMutation'', Bool True)]
         else case source_member src (Str actorId) of
             None \<Rightarrow> Inl ''not_invited''
           | Some m \<Rightarrow> if mb_state m \<noteq> MInvited \<and> mb_state m \<noteq> MActive then Inl ''not_invited''
               else event_with (eventBase ''accept'' (get v ''id'') (Str actorId) uuid (Num (Fin now)))
                      [(''inviteRevision'', get v ''revision'')])"

definition createGroupUpdateEvent ::
    "rat \<Rightarrow> string \<Rightarrow> event_source \<Rightarrow> jsv \<Rightarrow> string \<Rightarrow> jsv \<Rightarrow> rat \<Rightarrow> string + jsv" where
  "createGroupUpdateEvent clock uuid src nextGroup actorId reason now =
     (if legacy_call src ''patch'' then
        event_with (legacyBase ''update'' src uuid clock)
          [(''patch'', get (source_obj src) ''patch''), (''legacyMutation'', Bool True)]
      else if \<not> source_admin src (Str actorId) then Inl ''admin_required''
      else case normalizeGroup clock nextGroup of
          Inl e \<Rightarrow> Inl e
        | Inr g \<Rightarrow>
            (case src of Legacy _ \<Rightarrow> Inl ''group_id_mismatch''
             | Snapshot previous \<Rightarrow>
                 if gr_id g \<noteq> gr_id previous then Inl ''group_id_mismatch''
                 else if gr_revision g \<le> gr_revision previous then Inl ''stale_group_revision''
                 else event_with (eventBase ''update'' (Str (gr_id g)) (Str actorId) uuid (Num (Fin now)))
                   [(''reason'', Str (let r = cleanString reason 40 in if r = [] then ''metadata'' else r)),
                    (''group'', group_obj g)]))"

definition createGroupLeaveEvent :: "string \<Rightarrow> group \<Rightarrow> string \<Rightarrow> rat \<Rightarrow> string + jsv" where
  "createGroupLeaveEvent uuid g actorId now =
     (if \<not> isActiveGroupMember g (Str actorId) then Inl ''active_member_required''
      else event_with (eventBase ''leave'' (Str (gr_id g)) (Str actorId) uuid (Num (Fin now)))
             [(''knownRevision'', JInt (gr_revision g))])"

definition withMembers :: "rat \<Rightarrow> group \<Rightarrow> jsv \<Rightarrow> (group_member \<Rightarrow> jsv) \<Rightarrow> string + group" where
  "withMembers clock g now row =
     normalizeGroup clock (spread (group_obj g) [(''revision'', JInt (gr_revision g + 1)), (''updatedAt'', now),
       (''members'', Arr (map row (gr_members g)))])"

definition withAcceptedMember :: "rat \<Rightarrow> group \<Rightarrow> jsv \<Rightarrow> jsv \<Rightarrow> string + group" where
  "withAcceptedMember clock g peerId now = withMembers clock g now (\<lambda>m.
     if Str (mb_peerId m) = peerId then spread (member_obj m)
       [(''state'', Str ''active''), (''joinedAt'', js_orv (opt_num (mb_joinedAt m)) now), (''removedAt'', Undef)]
     else member_obj m)"

definition withDepartedMember :: "rat \<Rightarrow> group \<Rightarrow> jsv \<Rightarrow> member_state \<Rightarrow> jsv \<Rightarrow> string + group" where
  "withDepartedMember clock g peerId state now = withMembers clock g now (\<lambda>m.
     if Str (mb_peerId m) = peerId then spread (member_obj m)
       [(''state'', Str (state_name state)), (''removedAt'', now)]
     else member_obj m)"

text \<open>
  The answer of \<open>applyGroupEvent\<close>: an error code, or the group with the flags \<open>duplicate\<close>,
  \<open>shouldAccept\<close> and \<open>shouldBroadcast\<close>.
\<close>

datatype group_result = Rejected string | Applied group bool bool bool

definition rethrow :: "string + group \<Rightarrow> (group \<Rightarrow> string + group_result) \<Rightarrow> string + group_result" where
  "rethrow r k = (case r of Inl e \<Rightarrow> Inl e | Inr g \<Rightarrow> k g)"

definition fresh_result :: "string + group \<Rightarrow> bool \<Rightarrow> bool \<Rightarrow> string + group_result" where
  "fresh_result r accept broadcast = rethrow r (\<lambda>g. Inr (Applied g False accept broadcast))"

definition joinable_state :: "member_state \<Rightarrow> bool" where
  "joinable_state st \<longleftrightarrow> st = MInvited \<or> st = MActive"

definition applyLegacyInvite :: "rat \<Rightarrow> jsv \<Rightarrow> jsv \<Rightarrow> string \<Rightarrow> string + group_result" where
  "applyLegacyInvite clock localGroup event selfPeerId =
     rethrow (normalizeGroup clock localGroup) (\<lambda>current.
       if \<not> isGroupAdmin current (get event ''actorId'') \<or> Str selfPeerId \<noteq> get event ''actorId''
       then Inr (Rejected ''admin_required'')
       else if getGroupMember current (get (get event ''invitee'') ''peerId'') \<noteq> None
       then Inr (Applied current True False False)
       else fresh_result (normalizeGroup clock (spread (group_obj current)
              [(''revision'', JInt (gr_revision current + 1)), (''updatedAt'', get event ''timestamp''),
               (''members'', Arr (map member_obj (gr_members current) @
                  [spread (get event ''invitee'') [(''state'', Str ''invited''), (''role'', Str ''member'')]]))]))
              False False)"

definition inviteSelf :: "group \<Rightarrow> string \<Rightarrow> string + group_result" where
  "inviteSelf invited selfPeerId =
     (case getGroupMember invited (Str selfPeerId) of
        None \<Rightarrow> Inr (Rejected ''not_invited'')
      | Some self \<Rightarrow> if \<not> joinable_state (mb_state self) then Inr (Rejected ''not_invited'')
                     else Inr (Applied invited False (mb_state self \<noteq> MActive) False))"

definition applyInvite :: "rat \<Rightarrow> jsv \<Rightarrow> jsv \<Rightarrow> string \<Rightarrow> string + group_result" where
  "applyInvite clock localGroup event selfPeerId =
     (if js_Boolean (get event ''legacyMutation'') \<and> js_Boolean (get event ''invitee'') \<and> js_Boolean localGroup
      then applyLegacyInvite clock localGroup event selfPeerId
      else if get event ''recipientId'' \<noteq> Str selfPeerId then Inr (Rejected ''wrong_invitee'')
      else case normalizeGroup clock (get event ''group'') of
          Inl _ \<Rightarrow> Inr (Rejected ''invalid_group_snapshot'')
        | Inr invited \<Rightarrow>
            if Str (gr_id invited) \<noteq> get event ''groupId'' \<or> \<not> isGroupAdmin invited (get event ''actorId'')
            then Inr (Rejected ''unauthorized_invite'')
            else if js_Boolean localGroup then
              rethrow (normalizeGroup clock localGroup) (\<lambda>current.
                if \<not> isGroupAdmin current (get event ''actorId'') then Inr (Rejected ''admin_required'')
                else if gr_revision invited \<le> gr_revision current then Inr (Applied current True False False)
                else inviteSelf invited selfPeerId)
            else inviteSelf invited selfPeerId)"

definition applyAccept :: "rat \<Rightarrow> group \<Rightarrow> jsv \<Rightarrow> string \<Rightarrow> string + group_result" where
  "applyAccept clock current event selfPeerId =
     (let actorId = get event ''actorId'' in
      if js_Boolean (get event ''legacyMutation'') \<and> actorId = Str selfPeerId then
        (case getGroupMember current actorId of
           None \<Rightarrow> Inr (Rejected ''not_invited'')
         | Some m \<Rightarrow>
             if \<not> joinable_state (mb_state m) then Inr (Rejected ''not_invited'')
             else if mb_state m = MActive then Inr (Applied current True False False)
             else fresh_result (withAcceptedMember clock current actorId (get event ''timestamp'')) False False)
      else if actorId = Str selfPeerId then Inr (Rejected ''self_accept_echo'')
      else if \<not> isGroupAdmin current (Str selfPeerId) then Inr (Rejected ''admin_required'')
      else case getGroupMember current actorId of
          None \<Rightarrow> Inr (Rejected ''not_invited'')
        | Some m \<Rightarrow>
            if \<not> joinable_state (mb_state m) then Inr (Rejected ''not_invited'')
            else if mb_state m = MActive then Inr (Applied current True False False)
            else fresh_result (withAcceptedMember clock current actorId (get event ''timestamp'')) False True)"

definition patched_group :: "group \<Rightarrow> jsv \<Rightarrow> jsv" where
  "patched_group current event = spread (spread (group_obj current) (own_fields (get event ''patch'')))
     [(''id'', Str (gr_id current)), (''createdBy'', Str (gr_createdBy current)),
      (''members'', Arr (map member_obj (gr_members current))), (''revision'', JInt (gr_revision current + 1)),
      (''updatedAt'', get event ''timestamp'')]"

definition applyUpdate :: "rat \<Rightarrow> group \<Rightarrow> jsv \<Rightarrow> string \<Rightarrow> string + group_result" where
  "applyUpdate clock current event selfPeerId =
     (if js_Boolean (get event ''legacyMutation'') \<and> js_Boolean (get event ''patch'') then
        (if \<not> isGroupAdmin current (get event ''actorId'') \<or> Str selfPeerId \<noteq> get event ''actorId''
         then Inr (Rejected ''admin_required'')
         else fresh_result (normalizeGroup clock (patched_group current event)) False False)
      else if \<not> isGroupAdmin current (get event ''actorId'') then Inr (Rejected ''admin_required'')
      else case normalizeGroup clock (get event ''group'') of
          Inl _ \<Rightarrow> Inr (Rejected ''invalid_group_snapshot'')
        | Inr nextGroup \<Rightarrow>
            if gr_id nextGroup \<noteq> gr_id current \<or> gr_createdBy nextGroup \<noteq> gr_createdBy current
            then Inr (Rejected ''group_identity_changed'')
            else if gr_revision nextGroup \<le> gr_revision current then Inr (Applied current True False False)
            else Inr (Applied nextGroup False False False))"

definition applyLeave :: "rat \<Rightarrow> group \<Rightarrow> jsv \<Rightarrow> string \<Rightarrow> string + group_result" where
  "applyLeave clock current event selfPeerId =
     (if get event ''actorId'' = Str selfPeerId then Inr (Rejected ''self_leave_echo'')
      else if \<not> isGroupAdmin current (Str selfPeerId) then Inr (Rejected ''admin_required'')
      else if \<not> isActiveGroupMember current (get event ''actorId'') then Inr (Rejected ''active_member_required'')
      else fresh_result (withDepartedMember clock current (get event ''actorId'') MLeft (get event ''timestamp'')) False True)"

definition applyGroupEvent :: "rat \<Rightarrow> jsv \<Rightarrow> jsv \<Rightarrow> string \<Rightarrow> string + group_result" where
  "applyGroupEvent clock localGroup event selfPeerId =
     (let action = get event ''action'' in
      if \<not> js_Boolean event \<or> get event ''kind'' \<noteq> Str GROUP_EVENT_KIND
         \<or> get event ''protocolVersion'' \<noteq> JInt GROUP_PROTOCOL_VERSION
      then Inr (Rejected ''invalid_group_event'')
      else if \<not> isGroupChatId (get event ''groupId'') \<or> \<not> js_Boolean (get event ''eventId'')
              \<or> \<not> js_Boolean (get event ''actorId'')
      then Inr (Rejected ''invalid_group_event'')
      else if action = Str ''invite'' then applyInvite clock localGroup event selfPeerId
      else if \<not> js_Boolean localGroup \<or> get localGroup ''id'' \<noteq> get event ''groupId''
      then Inr (Rejected ''unknown_group'')
      else rethrow (normalizeGroup clock localGroup) (\<lambda>current.
        if action = Str ''accept'' then applyAccept clock current event selfPeerId
        else if action = Str ''update'' then applyUpdate clock current event selfPeerId
        else if action = Str ''leave'' then applyLeave clock current event selfPeerId
        else Inr (Rejected ''unsupported_group_action'')))"

section \<open>Messages and delivery\<close>

definition validateIncomingGroupMessage :: "group option \<Rightarrow> jsv \<Rightarrow> string \<Rightarrow> string \<Rightarrow> string + unit" where
  "validateIncomingGroupMessage grp envelope transportPeerId selfPeerId =
     (case grp of None \<Rightarrow> Inl ''invalid_group_message''
      | Some g \<Rightarrow>
        if \<not> js_Boolean envelope \<or> get envelope ''kind'' \<noteq> Str GROUP_MESSAGE_KIND then Inl ''invalid_group_message''
        else if get envelope ''protocolVersion'' \<noteq> JInt GROUP_PROTOCOL_VERSION
                \<or> get envelope ''groupId'' \<noteq> Str (gr_id g) then Inl ''group_mismatch''
        else if \<not> js_Boolean (get envelope ''messageId'') \<or> get envelope ''senderPeerId'' \<noteq> Str transportPeerId
        then Inl ''sender_mismatch''
        else if \<not> isActiveGroupMember g (Str transportPeerId) then Inl ''sender_not_member''
        else if \<not> isActiveGroupMember g (Str selfPeerId) then Inl ''recipient_not_member''
        else if \<not> js_Boolean (get envelope ''payload'')
                \<or> get (get envelope ''payload'') ''kind'' \<notin>
                   Str ` set [''chat'', ''file'', ''sticker'', ''contact-share'', ''reaction'']
        then Inl ''unsupported_group_payload''
        else Inr ())"

definition unique_recipients :: "string list \<Rightarrow> string list" where
  "unique_recipients recipientIds = collect_new Some (filter (\<lambda>p. p \<noteq> []) recipientIds) []"

definition delivery_state :: "jsv \<Rightarrow> string \<Rightarrow> jsv" where
  "delivery_state delivery peerId =
     js_orv (js_orv (get (index delivery peerId) ''status'') (index delivery peerId)) (Str ''offline'')"

definition is_delivered :: "jsv \<Rightarrow> bool" where
  "is_delivered status \<longleftrightarrow> status = Str ''delivered'' \<or> status = Str ''seen''"

definition is_pending :: "jsv \<Rightarrow> bool" where
  "is_pending status \<longleftrightarrow> status = Str ''sent'' \<or> status = Str ''pending''"

definition deriveGroupDeliveryStatus :: "jsv \<Rightarrow> string list \<Rightarrow> string" where
  "deriveGroupDeliveryStatus delivery recipientIds =
     (let recipients = unique_recipients recipientIds
      in if recipients = [] then ''delivered'' else
        let states = map (delivery_state delivery) recipients;
            delivered = length (filter is_delivered states)
        in if delivered = length recipients then ''delivered''
           else if delivered > 0 then ''partial''
           else if list_ex is_pending states then ''pending''
           else ''scheduled'')"

record delivery_summary =
  ds_total :: nat
  ds_delivered :: nat
  ds_pending :: nat
  ds_offline :: nat

fun summarizeLoop :: "jsv \<Rightarrow> string list \<Rightarrow> delivery_summary \<Rightarrow> delivery_summary" where
  "summarizeLoop delivery [] s = s"
| "summarizeLoop delivery (p # ps) s =
     (let status = delivery_state delivery p
      in summarizeLoop delivery ps
           (if is_delivered status then s\<lparr>ds_delivered := ds_delivered s + 1\<rparr>
            else if is_pending status then s\<lparr>ds_pending := ds_pending s + 1\<rparr>
            else s\<lparr>ds_offline := ds_offline s + 1\<rparr>))"

definition summarizeGroupDelivery :: "jsv \<Rightarrow> string list \<Rightarrow> delivery_summary" where
  "summarizeGroupDelivery delivery recipientIds =
     (let recipients = unique_recipients recipientIds
      in summarizeLoop delivery recipients
           \<lparr>ds_total = length recipients, ds_delivered = 0, ds_pending = 0, ds_offline = 0\<rparr>)"

text \<open>The two-argument form \<open>deriveGroupDeliveryStatus(group, delivery)\<close>.\<close>

definition deriveGroupDeliveryReport :: "group \<Rightarrow> jsv \<Rightarrow> string \<times> delivery_summary" where
  "deriveGroupDeliveryReport g delivery =
     (let recipients = groupPeerIds g True (gr_createdBy g)
      in (deriveGroupDeliveryStatus delivery recipients, summarizeGroupDelivery delivery recipients))"

definition rememberGroupEventId :: "jsv \<Rightarrow> string \<Rightarrow> int \<Rightarrow> bool \<times> string list" where
  "rememberGroupEventId eventIds eventId limit =
     (let xs = map js_String (filter is_string (arr_or_empty eventIds))
      in if eventId = [] \<or> eventId \<in> set xs then (eventId \<noteq> [] \<and> eventId \<in> set xs, xs)
         else (False, let all = xs @ [eventId] in drop (length all - nat (max 1 limit)) all))"

section \<open>The normal form\<close>

definition member_ok :: "group_member \<Rightarrow> bool" where
  "member_ok m \<longleftrightarrow> mb_peerId m \<noteq> [] \<and> length (mb_peerId m) \<le> 96 \<and> length (mb_displayName m) \<le> 80"

definition wf_group :: "group \<Rightarrow> bool" where
  "wf_group g \<longleftrightarrow> valid_group_id (gr_id g) \<and> 1 \<le> gr_revision g \<and>
     gr_name g \<noteq> [] \<and> length (gr_name g) \<le> GROUP_MAX_NAME_CHARS \<and> length (gr_image g) \<le> GROUP_MAX_IMAGE_CHARS \<and>
     list_all member_ok (gr_members g) \<and> distinct (map mb_peerId (gr_members g)) \<and>
     list_ex (\<lambda>m. mb_peerId m = gr_createdBy g \<and> mb_role m = RAdmin \<and> mb_state m \<noteq> MInvited) (gr_members g)"

text \<open>
  A group is stable when, on top of that, its strings have no white space at the ends, no name is empty
  and an active member has a joining time: this is what a group created by the program from proper
  names looks like.
\<close>

definition stable_member :: "group_member \<Rightarrow> bool" where
  "stable_member m \<longleftrightarrow> trimmed (mb_peerId m) \<and> trimmed (mb_displayName m) \<and> mb_displayName m \<noteq> [] \<and>
     (mb_state m = MActive \<longrightarrow> mb_joinedAt m \<noteq> None)"

definition stable_group :: "group \<Rightarrow> bool" where
  "stable_group g \<longleftrightarrow> wf_group g \<and> trimmed (gr_name g) \<and> trimmed (gr_image g) \<and>
     list_all stable_member (gr_members g)"

lemma length_cleanString: "length (cleanString v n) \<le> n"
  by (simp add: cleanString_def js_slice_def)

lemma cleanString_stable [simp]: "trimmed s \<Longrightarrow> length s \<le> n \<Longrightarrow> cleanString (Str s) n = s"
  by (auto simp: cleanString_def js_slice_def)

lemma parse_names [simp]:
  "parse_state (Str (state_name st)) = Some st" "parse_role (Str (role_name r)) = Some r"
  by (cases st; simp add: parse_state_def GROUP_MEMBER_STATES_def)
    (cases r; simp add: parse_role_def GROUP_MEMBER_ROLES_def)

lemma isFinite_opt_num [simp]: "isFinite (opt_num t) = t"
  by (cases t) (simp_all add: opt_num_def)

lemma normalizeMember_ok: "normalizeMember now raw = Some m \<Longrightarrow> member_ok m"
  by (auto simp: normalizeMember_def Let_def member_ok_def length_cleanString split: if_splits)

lemma normalizeMembers_ok:
  assumes "list_all member_ok acc" "distinct (map mb_peerId acc)"
  shows "list_all member_ok (normalizeMembers now rows acc)"
    and "distinct (map mb_peerId (normalizeMembers now rows acc))"
  using assms
  by (induction now rows acc rule: normalizeMembers.induct)
    (auto split: option.splits simp: normalizeMember_ok)

lemma map_update_first: "(\<And>x. g (f x) = g x) \<Longrightarrow> map g (update_first P f xs) = map g xs"
  by (induction xs) auto

lemma list_all_update_first: "list_all Q xs \<Longrightarrow> (\<And>x. Q x \<Longrightarrow> Q (f x)) \<Longrightarrow> list_all Q (update_first P f xs)"
  by (induction xs) auto

lemma list_ex_update_first: "\<exists>x \<in> set xs. P x \<Longrightarrow> (\<And>x. P x \<Longrightarrow> Q (f x)) \<Longrightarrow> list_ex Q (update_first P f xs)"
  by (induction xs) auto

lemma update_first_same: "(\<And>x. x \<in> set xs \<Longrightarrow> P x \<Longrightarrow> f x = x) \<Longrightarrow> update_first P f xs = xs"
  by (induction xs) auto

lemma promoteCreator_facts [simp]:
  "mb_peerId (promoteCreator m) = mb_peerId m" "member_ok (promoteCreator m) = member_ok m"
  "mb_role (promoteCreator m) = RAdmin" "mb_state (promoteCreator m) \<noteq> MInvited"
  by (simp_all add: promoteCreator_def member_ok_def)

lemma normalizeGroup_wf:
  assumes "normalizeGroup now raw = Inr g"
  shows "wf_group g"
proof -
  obtain s where i: "get raw ''id'' = Str s" "valid_group_id s"
    using assms by (cases "get raw ''id''") (auto simp: normalizeGroup_def isGroupChatId_def split: if_splits)
  define createdAt where "createdAt = (case isFinite (get raw ''createdAt'') of Some t \<Rightarrow> t | None \<Rightarrow> now)"
  define ms where "ms = normalizeMembers createdAt (arr_or_empty (get raw ''members'')) []"
  have ok: "list_all member_ok ms" "distinct (map mb_peerId ms)"
    by (simp_all add: ms_def normalizeMembers_ok)
  have g: "gr_id g = s" "gr_members g = update_first (\<lambda>m. mb_peerId m = gr_createdBy g) promoteCreator ms"
    "gr_createdBy g \<in> mb_peerId ` set ms" "1 \<le> gr_revision g" "gr_name g \<noteq> []"
    "length (gr_name g) \<le> GROUP_MAX_NAME_CHARS" "length (gr_image g) \<le> GROUP_MAX_IMAGE_CHARS"
    using assms i by (auto simp: normalizeGroup_def Let_def ms_def createdAt_def GROUP_MAX_NAME_CHARS_def
        GROUP_MAX_IMAGE_CHARS_def length_cleanString split: if_splits)
  have ids: "map mb_peerId (gr_members g) = map mb_peerId ms"
    unfolding g(2) by (rule map_update_first) simp
  have all: "list_all member_ok (gr_members g)"
    unfolding g(2) by (rule list_all_update_first [OF ok(1)]) simp
  have "list_ex (\<lambda>m. mb_peerId m = gr_createdBy g \<and> mb_role m = RAdmin \<and> mb_state m \<noteq> MInvited) (gr_members g)"
    unfolding g(2) by (rule list_ex_update_first) (use g(3) in auto)
  then show ?thesis using i g ok ids all by (simp add: wf_group_def)
qed

lemma normalizeMembers_rows:
  assumes "list_all2 (\<lambda>r m. normalizeMember now r = Some m) rows ms" "distinct (map mb_peerId (acc @ ms))"
  shows "normalizeMembers now rows acc = acc @ ms"
  using assms
proof (induction arbitrary: acc rule: list_all2_induct)
  case (Cons r rows m ms)
  then have "mb_peerId m \<notin> mb_peerId ` set acc" by auto
  moreover have "distinct (map mb_peerId ((acc @ [m]) @ ms))" using Cons.prems by simp
  ultimately show ?case using Cons.hyps(1) Cons.IH [of "acc @ [m]"] by simp
qed simp

lemma normalizeMember_obj:
  assumes "member_ok m" "stable_member m"
  shows "normalizeMember now (member_obj m) = Some m"
  using assms by (cases m) (auto simp: normalizeMember_def member_obj_def member_ok_def stable_member_def Let_def
      split: option.splits)

text \<open>
  The shape of every change of a group: the object of a stable group with a new revision, a new time
  and new member rows normalises to the group with exactly these changes, when the rows keep the ids and
  the creator's row keeps its privileges.
\<close>

definition creator_kept :: "group \<Rightarrow> group_member list \<Rightarrow> bool" where
  "creator_kept g ms \<longleftrightarrow> (\<forall>m \<in> set ms. mb_peerId m = gr_createdBy g \<longrightarrow> mb_role m = RAdmin \<and> mb_state m \<noteq> MInvited)"

lemma promoteCreator_same: "mb_role m = RAdmin \<Longrightarrow> mb_state m \<noteq> MInvited \<Longrightarrow> promoteCreator m = m"
  by (cases m) (simp add: promoteCreator_def)

lemma stable_group_facts:
  assumes "stable_group g"
  shows "valid_group_id (gr_id g)" "1 \<le> gr_revision g" "distinct (map mb_peerId (gr_members g))"
    and "m \<in> set (gr_members g) \<Longrightarrow> member_ok m" "m \<in> set (gr_members g) \<Longrightarrow> stable_member m"
    and "gr_createdBy g \<in> mb_peerId ` set (gr_members g)" "gr_createdBy g \<noteq> []"
    and "cleanString (Str (gr_createdBy g)) 96 = gr_createdBy g" "creator_kept g (gr_members g)"
proof -
  note d = assms [unfolded stable_group_def wf_group_def list_all_iff list_ex_iff]
  obtain c where c: "c \<in> set (gr_members g)" "mb_peerId c = gr_createdBy g" "mb_role c = RAdmin" "mb_state c \<noteq> MInvited"
    using d by blast
  show "valid_group_id (gr_id g)" "1 \<le> gr_revision g" "distinct (map mb_peerId (gr_members g))" using d by blast+
  show "m \<in> set (gr_members g) \<Longrightarrow> member_ok m" "m \<in> set (gr_members g) \<Longrightarrow> stable_member m" using d by blast+
  have "member_ok c" "stable_member c" using d c by blast+
  then show "gr_createdBy g \<noteq> []" "cleanString (Str (gr_createdBy g)) 96 = gr_createdBy g"
    by (auto simp: member_ok_def stable_member_def c(2) [symmetric])
  show "gr_createdBy g \<in> mb_peerId ` set (gr_members g)" using c by force
  have inj: "inj_on mb_peerId (set (gr_members g))" using d by (simp only: distinct_map)
  have "m = c" if "m \<in> set (gr_members g)" "mb_peerId m = gr_createdBy g" for m
    using inj_onD [OF inj _ that(1) c(1)] that(2) c(2) by simp
  then show "creator_kept g (gr_members g)" using c(3,4) unfolding creator_kept_def by blast
qed

lemma isGroupChatId_Str [simp]: "isGroupChatId (Str s) = valid_group_id s"
  by (simp add: isGroupChatId_def)

lemma group_obj_get [simp]:
  "get (group_obj g) ''id'' = Str (gr_id g)" "get (group_obj g) ''name'' = Str (gr_name g)"
  "get (group_obj g) ''image'' = Str (gr_image g)" "get (group_obj g) ''createdAt'' = Num (Fin (gr_createdAt g))"
  "get (group_obj g) ''createdBy'' = Str (gr_createdBy g)" "get (group_obj g) ''revision'' = JInt (gr_revision g)"
  "get (group_obj g) ''updatedAt'' = Num (Fin (gr_updatedAt g))" "js_Boolean (group_obj g)"
  "get (group_obj g) ''members'' = Arr (map member_obj (gr_members g))"
  by (simp_all add: group_obj_def)

lemma normalizeGroup_same_shape:
  assumes g: "stable_group g" and fields: "get v ''id'' = Str (gr_id g)" "js_Boolean v"
      "get v ''createdAt'' = Num (Fin (gr_createdAt g))" "get v ''createdBy'' = Str (gr_createdBy g)"
      "get v ''name'' = Str (gr_name g)" "get v ''image'' = Str (gr_image g)" "get v ''revision'' = JInt r"
      "get v ''members'' = Arr rows"
    and rows: "list_all2 (\<lambda>row m. normalizeMember (gr_createdAt g) row = Some m) rows ms"
    and ids: "distinct (map mb_peerId ms)" "gr_createdBy g \<in> mb_peerId ` set ms" and kept: "creator_kept g ms"
    and r: "1 \<le> r"
  shows "normalizeGroup clock v = Inr (g\<lparr>gr_revision := r,
      gr_updatedAt := (case isFinite (get v ''updatedAt'') of Some t \<Rightarrow> t | None \<Rightarrow> gr_createdAt g), gr_members := ms\<rparr>)"
proof -
  have names: "cleanString (Str (gr_name g)) GROUP_MAX_NAME_CHARS = gr_name g" "gr_name g \<noteq> []"
    "cleanString (Str (gr_image g)) GROUP_MAX_IMAGE_CHARS = gr_image g"
    using g by (auto simp: stable_group_def wf_group_def)
  have ms: "normalizeMembers (gr_createdAt g) rows [] = ms"
    using normalizeMembers_rows [OF rows, of "[]"] ids by simp
  have up: "update_first (\<lambda>m. mb_peerId m = gr_createdBy g) promoteCreator ms = ms"
    by (rule update_first_same) (use kept in \<open>auto simp: creator_kept_def intro: promoteCreator_same\<close>)
  show ?thesis
    using stable_group_facts [OF g] names ms up ids r by (simp add: normalizeGroup_def fields Let_def)
qed

lemma members_same_rows:
  "stable_group g \<Longrightarrow> list_all2 (\<lambda>row m. normalizeMember now row = Some m) (map member_obj (gr_members g)) (gr_members g)"
  by (auto simp: list_all2_conv_all_nth stable_group_facts intro!: normalizeMember_obj)

lemma normalizeGroup_obj:
  assumes "stable_group g"
  shows "normalizeGroup clock (group_obj g) = Inr g"
  using normalizeGroup_same_shape [OF assms, of "group_obj g" "gr_revision g" "map member_obj (gr_members g)" "gr_members g"]
    stable_group_facts [OF assms] members_same_rows [OF assms] by simp

lemma withMembers_rows:
  assumes g: "stable_group g" and row: "\<And>m. m \<in> set (gr_members g) \<Longrightarrow> normalizeMember (gr_createdAt g) (row m) = Some (f m)"
    and keep: "\<And>m. m \<in> set (gr_members g) \<Longrightarrow> mb_peerId (f m) = mb_peerId m" and "creator_kept g (map f (gr_members g))"
  shows "withMembers clock g now row = Inr (g\<lparr>gr_revision := gr_revision g + 1,
     gr_updatedAt := (case isFinite now of Some t \<Rightarrow> t | None \<Rightarrow> gr_createdAt g), gr_members := map f (gr_members g)\<rparr>)"
proof -
  have ids: "map mb_peerId (map f (gr_members g)) = map mb_peerId (gr_members g)" using keep by simp
  have rows: "list_all2 (\<lambda>r m. normalizeMember (gr_createdAt g) r = Some m) (map row (gr_members g)) (map f (gr_members g))"
    using row by (auto simp: list_all2_conv_all_nth)
  have "distinct (map mb_peerId (map f (gr_members g)))" unfolding ids by (rule stable_group_facts [OF g])
  moreover have "gr_createdBy g \<in> mb_peerId ` set (map f (gr_members g))"
    using stable_group_facts(6) [OF g] ids by (metis list.set_map)
  ultimately show ?thesis
    unfolding withMembers_def
    by (subst normalizeGroup_same_shape [OF g _ _ _ _ _ _ _ _ rows])
      (use stable_group_facts [OF g] assms(4) in \<open>simp_all add: get_spread\<close>, simp add: spread_def)
qed

definition accepted_member :: "group \<Rightarrow> jsv \<Rightarrow> group_member \<Rightarrow> group_member" where
  "accepted_member g now m = m\<lparr>mb_state := MActive, mb_removedAt := None,
     mb_joinedAt := Some (case mb_joinedAt m of Some t \<Rightarrow> if t \<noteq> 0 then t else (case isFinite now of Some u \<Rightarrow> u | None \<Rightarrow> gr_createdAt g)
        | None \<Rightarrow> (case isFinite now of Some u \<Rightarrow> u | None \<Rightarrow> gr_createdAt g))\<rparr>"

definition departed_member :: "member_state \<Rightarrow> jsv \<Rightarrow> group_member \<Rightarrow> group_member" where
  "departed_member st now m = m\<lparr>mb_state := st, mb_removedAt := isFinite now\<rparr>"

definition replace_member :: "group \<Rightarrow> string \<Rightarrow> jsv \<Rightarrow> (group_member \<Rightarrow> group_member) \<Rightarrow> group" where
  "replace_member g p now f = g\<lparr>gr_revision := gr_revision g + 1,
     gr_updatedAt := (case isFinite now of Some t \<Rightarrow> t | None \<Rightarrow> gr_createdAt g),
     gr_members := map (\<lambda>m. if mb_peerId m = p then f m else m) (gr_members g)\<rparr>"

lemma member_obj_get [simp]:
  "get (member_obj m) ''peerId'' = Str (mb_peerId m)" "get (member_obj m) ''displayName'' = Str (mb_displayName m)"
  "get (member_obj m) ''role'' = Str (role_name (mb_role m))" "get (member_obj m) ''state'' = Str (state_name (mb_state m))"
  "get (member_obj m) ''addedAt'' = Num (Fin (mb_addedAt m))" "get (member_obj m) ''joinedAt'' = opt_num (mb_joinedAt m)"
  "get (member_obj m) ''removedAt'' = opt_num (mb_removedAt m)"
  by (simp_all add: member_obj_def)

lemma normalizeMember_accepted:
  assumes "member_ok m" "stable_member m"
  shows "normalizeMember (gr_createdAt g) (spread (member_obj m)
       [(''state'', Str ''active''), (''joinedAt'', js_orv (opt_num (mb_joinedAt m)) now), (''removedAt'', Undef)])
     = Some (accepted_member g now m)"
  using assms parse_names(1) [of MActive]
  by (cases m) (auto simp: normalizeMember_def get_spread member_ok_def stable_member_def Let_def accepted_member_def
      js_orv_def opt_num_def split: option.splits)

lemma normalizeMember_departed:
  assumes "member_ok m" "stable_member m" "st \<noteq> MActive"
  shows "normalizeMember now0 (spread (member_obj m) [(''state'', Str (state_name st)), (''removedAt'', now)])
     = Some (departed_member st now m)"
  using assms
  by (cases m) (auto simp: normalizeMember_def get_spread member_ok_def stable_member_def Let_def departed_member_def
      split: option.splits)

lemma withAcceptedMember_spec:
  assumes g: "stable_group g"
  shows "withAcceptedMember clock g (Str p) now = Inr (replace_member g p now (accepted_member g now))"
  unfolding withAcceptedMember_def replace_member_def
proof (rule withMembers_rows [OF g])
  show "creator_kept g (map (\<lambda>m. if mb_peerId m = p then accepted_member g now m else m) (gr_members g))"
    using stable_group_facts(9) [OF g] by (auto simp: creator_kept_def accepted_member_def)
qed (use stable_group_facts [OF g] in \<open>auto simp: normalizeMember_accepted accepted_member_def normalizeMember_obj\<close>)

lemma withDepartedMember_spec:
  assumes g: "stable_group g" and st: "st \<noteq> MActive" "st \<noteq> MInvited"
  shows "withDepartedMember clock g (Str p) st now = Inr (replace_member g p now (departed_member st now))"
  unfolding withDepartedMember_def replace_member_def
proof (rule withMembers_rows [OF g])
  show "creator_kept g (map (\<lambda>m. if mb_peerId m = p then departed_member st now m else m) (gr_members g))"
    using stable_group_facts(9) [OF g] st by (auto simp: creator_kept_def departed_member_def)
qed (use stable_group_facts [OF g] st in \<open>auto simp: normalizeMember_departed departed_member_def normalizeMember_obj\<close>)

section \<open>Properties of the normal form\<close>

text \<open>
  The normal form of a group. Whatever object \<open>normalizeGroup\<close> accepts, its result has a valid
  id, a positive revision, bounded names and image, members with distinct bounded ids, and a creator
  among the members who is an admin and no mere invitee; and a group in proper shape (no white space
  at the ends, no empty names) is read back unchanged from the object it is stored or sent as.
\<close>

theorem normalizeGroup_normal_form:
  "(normalizeGroup now raw = Inr g \<longrightarrow> wf_group g) \<and>
   (stable_group g \<longrightarrow> normalizeGroup now (group_obj g) = Inr g)"
  using normalizeGroup_wf normalizeGroup_obj by blast

definition sample_group :: group where
  "sample_group = \<lparr>gr_id = ''group:12345678'', gr_revision = 3, gr_name = ''Team'', gr_image = [], gr_createdAt = 10,
     gr_createdBy = ''ann'', gr_updatedAt = 20, gr_members =
       [\<lparr>mb_peerId = ''ann'', mb_displayName = ''Ann'', mb_role = RAdmin, mb_state = MActive, mb_addedAt = 10,
          mb_joinedAt = Some 10, mb_removedAt = None\<rparr>,
        \<lparr>mb_peerId = ''bob'', mb_displayName = ''Bob'', mb_role = RMember, mb_state = MInvited, mb_addedAt = 10,
          mb_joinedAt = None, mb_removedAt = None\<rparr>,
        \<lparr>mb_peerId = ''cyd'', mb_displayName = ''Cyd'', mb_role = RMember, mb_state = MActive, mb_addedAt = 10,
          mb_joinedAt = Some 11, mb_removedAt = None\<rparr>]\<rparr>"

lemma sample_group_stable: "stable_group sample_group"
proof -
  have "valid_group_id ''group:12345678''" by code_simp
  moreover have "trimmed ''Team''" "trimmed ''ann''" "trimmed ''bob''" "trimmed ''cyd''" "trimmed ''Ann''" "trimmed ''Bob''"
    "trimmed ''Cyd''" by code_simp+
  ultimately show ?thesis
    by (simp add: stable_group_def wf_group_def sample_group_def stable_member_def member_ok_def
        GROUP_MAX_NAME_CHARS_def GROUP_MAX_IMAGE_CHARS_def trimmed_def [of "[]"])
qed

theorem normalizeGroup_normal_form_witness:
  "normalizeGroup 99 (group_obj sample_group) = Inr sample_group \<and> wf_group sample_group"
  using normalizeGroup_normal_form [of 99 "group_obj sample_group" sample_group] sample_group_stable by blast

lemma normalizeGroup_fields:
  assumes "normalizeGroup now v = Inr g"
  shows "Str (gr_id g) = get v ''id''" "gr_createdBy g = cleanString (get v ''createdBy'') 96"
    and "gr_revision g = max 1 (case isInteger (get v ''revision'') of Some r \<Rightarrow> r | None \<Rightarrow> 1)"
  using assms
  by (cases "get v ''id''"; auto simp: normalizeGroup_def isGroupChatId_def Let_def split: if_splits)+

lemma normalizeGroup_revision_clock:
  "normalizeGroup now v = Inr g \<Longrightarrow> normalizeGroup now' v = Inr h \<Longrightarrow> gr_revision g = gr_revision h"
  using normalizeGroup_fields(3) by metis

section \<open>Members after an event\<close>

lemma getGroupMember_replace:
  assumes "\<And>m. mb_peerId (f m) = mb_peerId m"
  shows "getGroupMember (replace_member g p now f) (Str q) =
     map_option (if q = p then f else id) (getGroupMember g (Str q))"
proof -
  have "find (\<lambda>m. mb_peerId m = q) (map (\<lambda>m. if mb_peerId m = p then f m else m) ms) =
      map_option (if q = p then f else id) (find (\<lambda>m. mb_peerId m = q) ms)" for ms
    using assms by (induction ms) auto
  then show ?thesis by (simp add: getGroupMember_def replace_member_def)
qed

lemma getGroupMember_replace_state [simp]:
  "getGroupMember (replace_member g p now (accepted_member h now)) (Str q) =
     map_option (if q = p then accepted_member h now else id) (getGroupMember g (Str q))"
  "getGroupMember (replace_member g p now (departed_member st now)) (Str q) =
     map_option (if q = p then departed_member st now else id) (getGroupMember g (Str q))"
  by (simp_all add: getGroupMember_replace accepted_member_def departed_member_def)

lemma getGroupMember_Str: "getGroupMember g v = Some m \<Longrightarrow> v = Str (mb_peerId m) \<and> m \<in> set (gr_members g)"
  by (auto simp: getGroupMember_def find_Some_iff)

lemma set_groupPeerIds:
  "set (groupPeerIds g inc ex) =
     {mb_peerId m | m. m \<in> set (gr_members g) \<and> mb_peerId m \<noteq> ex \<and> (mb_state m = MActive \<or> inc \<and> mb_state m = MInvited)}"
  by (auto simp: groupPeerIds_def set_collect_new)

lemma replace_member_members:
  "k \<in> set (gr_members (replace_member g p now f)) \<longleftrightarrow>
     (\<exists>m \<in> set (gr_members g). k = (if mb_peerId m = p then f m else m))"
  by (simp add: replace_member_def image_iff del: if_image_distrib)

lemma departed_not_routed: "p \<notin> set (groupPeerIds (replace_member g p now (departed_member MLeft now)) inc ex)"
proof
  assume "p \<in> set (groupPeerIds (replace_member g p now (departed_member MLeft now)) inc ex)"
  then obtain k where k: "k \<in> set (gr_members (replace_member g p now (departed_member MLeft now)))" "mb_peerId k = p"
      "mb_state k = MActive \<or> mb_state k = MInvited"
    unfolding set_groupPeerIds by blast
  from k(1) obtain m where "k = (if mb_peerId m = p then departed_member MLeft now m else m)"
    unfolding replace_member_members by blast
  with k(2,3) show False by (cases "mb_peerId m = p") (simp_all add: departed_member_def)
qed

lemma accepted_routed:
  assumes "m \<in> set (gr_members g)" "mb_peerId m = p" "p \<noteq> ex"
  shows "p \<in> set (groupPeerIds (replace_member g p now (accepted_member h now)) inc ex)"
proof -
  have "accepted_member h now m \<in> set (gr_members (replace_member g p now (accepted_member h now)))"
    unfolding replace_member_members using assms(1,2) by (intro bexI [of _ m]) simp_all
  moreover have "mb_peerId (accepted_member h now m) = p" "mb_state (accepted_member h now m) = MActive"
    using assms(2) by (simp_all add: accepted_member_def)
  ultimately show ?thesis unfolding set_groupPeerIds using assms(3) by blast
qed

lemma getGroupMember_distinct:
  assumes "stable_group g" "m \<in> set (gr_members g)"
  shows "getGroupMember g (Str (mb_peerId m)) = Some m"
proof -
  have inj: "inj_on mb_peerId (set (gr_members g))" using stable_group_facts(3) [OF assms(1)] by (simp add: distinct_map)
  obtain k where k: "getGroupMember g (Str (mb_peerId m)) = Some k"
    using assms(2) by (fastforce simp: getGroupMember_def find_None_iff)
  then have "k = m" using getGroupMember_Str [OF k] inj assms(2) by (auto dest: inj_onD)
  then show ?thesis using k by simp
qed

section \<open>Authorisation\<close>

lemma fresh_result_Applied:
  "fresh_result r a b = Inr (Applied g d a' b') \<longleftrightarrow> r = Inr g \<and> \<not> d \<and> a' = a \<and> b' = b"
  by (cases r) (auto simp: fresh_result_def rethrow_def)

lemma applyAccept_Applied:
  assumes g: "stable_group g" and r: "applyAccept clock g ev self = Inr (Applied g' dup acc bc)"
  shows "(dup \<and> g' = g) \<or> (\<not> dup \<and> (\<exists>m. getGroupMember g (get ev ''actorId'') = Some m \<and> mb_state m = MInvited \<and>
     (isGroupAdmin g (Str self) \<or> mb_peerId m = self) \<and> withAcceptedMember clock g (Str (mb_peerId m)) (get ev ''timestamp'') = Inr g' \<and>
     g' = replace_member g (mb_peerId m) (get ev ''timestamp'') (accepted_member g (get ev ''timestamp''))))"
proof (cases "getGroupMember g (get ev ''actorId'')")
  case (Some m)
  then have a: "get ev ''actorId'' = Str (mb_peerId m)" using getGroupMember_Str by blast
  show ?thesis
    using r Some withAcceptedMember_spec [OF g, of clock "mb_peerId m" "get ev ''timestamp''"]
    by (cases "mb_state m")
      (auto simp: applyAccept_def Let_def a joinable_state_def fresh_result_Applied split: if_splits)
qed (use r in \<open>auto simp: applyAccept_def Let_def split: if_splits\<close>)

lemma applyLeave_Applied:
  assumes g: "stable_group g" and r: "applyLeave clock g ev self = Inr (Applied g' dup acc bc)"
  shows "\<not> dup \<and> isGroupAdmin g (Str self) \<and> (\<exists>m. getGroupMember g (get ev ''actorId'') = Some m \<and> mb_state m = MActive \<and>
     mb_peerId m \<noteq> self \<and> withDepartedMember clock g (Str (mb_peerId m)) MLeft (get ev ''timestamp'') = Inr g' \<and>
     g' = replace_member g (mb_peerId m) (get ev ''timestamp'') (departed_member MLeft (get ev ''timestamp'')))"
proof (cases "getGroupMember g (get ev ''actorId'')")
  case (Some m)
  then have a: "get ev ''actorId'' = Str (mb_peerId m)" using getGroupMember_Str by blast
  show ?thesis
    using r Some withDepartedMember_spec [OF g, of MLeft clock "mb_peerId m" "get ev ''timestamp''"]
    by (auto simp: applyLeave_def a isActiveGroupMember_def fresh_result_Applied split: if_splits)
qed (use r in \<open>auto simp: applyLeave_def isActiveGroupMember_def split: if_splits\<close>)

lemma applyUpdate_Applied:
  assumes g: "stable_group g" and r: "applyUpdate clock g ev self = Inr (Applied g' dup acc bc)"
  shows "isGroupAdmin g (get ev ''actorId'') \<and> gr_id g' = gr_id g \<and> gr_createdBy g' = gr_createdBy g \<and>
     ((dup \<and> g' = g) \<or> (\<not> dup \<and> gr_revision g < gr_revision g' \<and> wf_group g'))"
proof (cases "js_Boolean (get ev ''legacyMutation'') \<and> js_Boolean (get ev ''patch'')")
  case True
  then have n: "normalizeGroup clock (patched_group g ev) = Inr g'" "\<not> dup" "isGroupAdmin g (get ev ''actorId'')"
    using r by (auto simp: applyUpdate_def fresh_result_Applied split: if_splits)
  then show ?thesis
    using normalizeGroup_fields [OF n(1)] normalizeGroup_wf [OF n(1)] stable_group_facts [OF g]
    by (simp add: patched_group_def get_spread)
next
  case False
  then show ?thesis
    using r stable_group_facts [OF g]
    by (auto simp: applyUpdate_def normalizeGroup_wf split: if_splits sum.splits)
qed

lemma inviteSelf_Applied:
  "inviteSelf h self = Inr (Applied g' dup acc bc) \<Longrightarrow> g' = h \<and> \<not> dup \<and>
     (\<exists>m. getGroupMember h (Str self) = Some m \<and> joinable_state (mb_state m))"
  by (auto simp: inviteSelf_def split: option.splits if_splits)

lemma applyInvite_Applied:
  assumes g: "stable_group g" and r: "applyInvite clock (group_obj g) ev self = Inr (Applied g' dup acc bc)"
  shows "isGroupAdmin g (get ev ''actorId'') \<and>
     ((dup \<and> g' = g) \<or> (\<not> dup \<and> gr_revision g < gr_revision g' \<and> wf_group g'))"
proof (cases "js_Boolean (get ev ''legacyMutation'') \<and> js_Boolean (get ev ''invitee'')")
  case True
  then have l: "applyLegacyInvite clock (group_obj g) ev self = Inr (Applied g' dup acc bc)"
    using r by (simp add: applyInvite_def)
  show ?thesis
  proof (cases "getGroupMember g (get (get ev ''invitee'') ''peerId'') = None")
    case True
    then obtain v where n: "normalizeGroup clock v = Inr g'" "get v ''revision'' = JInt (gr_revision g + 1)" "\<not> dup"
        "isGroupAdmin g (get ev ''actorId'')"
      using l by (auto simp: applyLegacyInvite_def rethrow_def normalizeGroup_obj [OF g] fresh_result_Applied get_spread
          split: if_splits)
    then show ?thesis
      using normalizeGroup_fields(3) [OF n(1)] normalizeGroup_wf [OF n(1)] stable_group_facts(2) [OF g] by simp
  qed (use l in \<open>auto simp: applyLegacyInvite_def rethrow_def normalizeGroup_obj [OF g] split: if_splits\<close>)
next
  case False
  then show ?thesis
    using r by (auto simp: applyInvite_def normalizeGroup_obj [OF g] rethrow_def normalizeGroup_wf
        split: if_splits sum.splits dest!: inviteSelf_Applied)
qed

lemma applyGroupEvent_cases:
  assumes r: "applyGroupEvent clock v ev self = Inr (Applied g' dup acc bc)"
  obtains (invite) "get ev ''action'' = Str ''invite''" "applyInvite clock v ev self = Inr (Applied g' dup acc bc)"
  | (local) g where "get ev ''action'' \<noteq> Str ''invite''" "normalizeGroup clock v = Inr g"
      "get ev ''action'' = Str ''accept'' \<and> applyAccept clock g ev self = Inr (Applied g' dup acc bc) \<or>
       get ev ''action'' = Str ''update'' \<and> applyUpdate clock g ev self = Inr (Applied g' dup acc bc) \<or>
       get ev ''action'' = Str ''leave'' \<and> applyLeave clock g ev self = Inr (Applied g' dup acc bc)"
  using r by (cases "normalizeGroup clock v") (auto simp: applyGroupEvent_def Let_def rethrow_def split: if_splits)

text \<open>
  C10. Only authorised events change a group. When a peer applies an event to its copy of a group, the
  copy stays as it is (a duplicate) or moves to a strictly larger revision in normal form; the latter
  happens only if the event's actor is an active admin of the copy, or if the event changes the actor's
  own row and nothing else (an invited actor becomes active, an active one leaves) and the receiver
  is an admin of the group or the actor himself. Except through an invitation, a group never changes
  its id or its creator.
\<close>

theorem group_event_authorised:
  assumes g: "stable_group g" and r: "applyGroupEvent clock (group_obj g) ev self = Inr (Applied g' dup acc bc)"
  shows "(get ev ''action'' \<noteq> Str ''invite'' \<longrightarrow> gr_id g' = gr_id g \<and> gr_createdBy g' = gr_createdBy g) \<and>
    ((dup \<and> g' = g) \<or>
     (\<not> dup \<and> gr_revision g < gr_revision g' \<and> wf_group g' \<and>
      (isGroupAdmin g (get ev ''actorId'') \<or>
       (\<exists>m. getGroupMember g (get ev ''actorId'') = Some m \<and> (isGroupAdmin g (Str self) \<or> mb_peerId m = self) \<and>
          (get ev ''action'' = Str ''accept'' \<and> mb_state m = MInvited \<and>
             g' = replace_member g (mb_peerId m) (get ev ''timestamp'') (accepted_member g (get ev ''timestamp'')) \<or>
           get ev ''action'' = Str ''leave'' \<and> mb_state m = MActive \<and>
             g' = replace_member g (mb_peerId m) (get ev ''timestamp'') (departed_member MLeft (get ev ''timestamp'')))))))"
  using r
proof (cases rule: applyGroupEvent_cases)
  case invite
  then show ?thesis using applyInvite_Applied [OF g invite(2)] by blast
next
  case (local h)
  then have h: "h = g" using normalizeGroup_obj [OF g] by simp
  have inc: "gr_revision g < gr_revision (replace_member g p now f)" "gr_id (replace_member g p now f) = gr_id g"
    "gr_createdBy (replace_member g p now f) = gr_createdBy g" for p now f
    by (simp_all add: replace_member_def)
  have wf: "withMembers clock g now row = Inr g' \<Longrightarrow> wf_group g'" for now row
    unfolding withMembers_def by (rule normalizeGroup_wf)
  from local(3) show ?thesis
  proof (elim disjE conjE)
    assume "get ev ''action'' = Str ''accept''" "applyAccept clock h ev self = Inr (Applied g' dup acc bc)"
    then show ?thesis
      using applyAccept_Applied [OF g, of clock ev self] inc wf unfolding h withAcceptedMember_def by blast
  next
    assume "get ev ''action'' = Str ''update''" "applyUpdate clock h ev self = Inr (Applied g' dup acc bc)"
    then show ?thesis using applyUpdate_Applied [OF g, of clock ev self] unfolding h by blast
  next
    assume "get ev ''action'' = Str ''leave''" "applyLeave clock h ev self = Inr (Applied g' dup acc bc)"
    then show ?thesis
      using applyLeave_Applied [OF g, of clock ev self] inc wf unfolding h withDepartedMember_def by blast
  qed
qed

definition sample_event :: "string \<Rightarrow> string \<Rightarrow> jsv" where
  "sample_event action actor = Obj [(''kind'', Str ''group-event-v1''), (''protocolVersion'', JInt 1),
     (''eventId'', Str ''e1''), (''action'', Str action), (''groupId'', Str ''group:12345678''), (''actorId'', Str actor),
     (''timestamp'', JInt 50)]"

lemma sample_group_id: "valid_group_id ''group:12345678''"
  by code_simp

lemma sample_group_facts:
  "gr_id sample_group = ''group:12345678''" "isGroupAdmin sample_group (Str ''ann'')"
  "isActiveGroupMember sample_group (Str ''cyd'')"
  "map_option mb_state (getGroupMember sample_group (Str ''bob'')) = Some MInvited"
  by (simp_all add: sample_group_def isGroupAdmin_def getGroupMember_def isActiveGroupMember_def)

lemmas apply_event_simps = applyGroupEvent_def sample_event_def GROUP_EVENT_KIND_def GROUP_PROTOCOL_VERSION_def
  sample_group_id sample_group_facts sample_group_stable normalizeGroup_obj rethrow_def fresh_result_def Let_def

lemma sample_accept:
  "applyGroupEvent 0 (group_obj sample_group) (sample_event ''accept'' ''bob'') ''ann'' =
     Inr (Applied (replace_member sample_group ''bob'' (JInt 50) (accepted_member sample_group (JInt 50))) False False True)"
proof -
  obtain m where "getGroupMember sample_group (Str ''bob'') = Some m" "mb_state m = MInvited"
    using sample_group_facts(4) by blast
  then show ?thesis
    by (simp add: apply_event_simps applyAccept_def withAcceptedMember_spec joinable_state_def)
qed

lemma sample_leave:
  "applyGroupEvent 0 (group_obj sample_group) (sample_event ''leave'' ''cyd'') ''ann'' =
     Inr (Applied (replace_member sample_group ''cyd'' (JInt 50) (departed_member MLeft (JInt 50))) False False True)"
  by (simp add: apply_event_simps applyLeave_def withDepartedMember_spec)

theorem group_event_authorised_witness:
  "gr_revision sample_group <
     gr_revision (replace_member sample_group ''bob'' (JInt 50) (accepted_member sample_group (JInt 50)))"
  using group_event_authorised [OF sample_group_stable sample_accept] by blast

lemma replay_local:
  assumes g: "stable_group g" and g': "stable_group g'" and nl: "\<not> js_Boolean (get ev ''legacyMutation'')"
  shows "applyAccept clock g ev self = Inr (Applied g' False acc bc) \<Longrightarrow>
      applyAccept clock' g' ev self = Inr (Applied g' True False False)"
    and "applyLeave clock g ev self = Inr (Applied g' False acc bc) \<Longrightarrow>
      \<exists>e. applyLeave clock' g' ev self = Inr (Rejected e)"
    and "applyUpdate clock g ev self = Inr (Applied g' False acc bc) \<Longrightarrow>
      applyUpdate clock' g' ev self = Inr (Applied g' True False False) \<or> (\<exists>e. applyUpdate clock' g' ev self = Inr (Rejected e))"
proof -
  assume a: "applyAccept clock g ev self = Inr (Applied g' False acc bc)"
  obtain m where m: "getGroupMember g (get ev ''actorId'') = Some m" "mb_state m = MInvited"
      "g' = replace_member g (mb_peerId m) (get ev ''timestamp'') (accepted_member g (get ev ''timestamp''))"
    using applyAccept_Applied [OF g a] by blast
  then have ev: "get ev ''actorId'' = Str (mb_peerId m)" using getGroupMember_Str by blast
  have ns: "mb_peerId m \<noteq> self" and adm: "isGroupAdmin g (Str self)" using a nl m ev
    by (auto simp: applyAccept_def Let_def split: if_splits)
  have "isGroupAdmin g' (Str self)" using adm ns by (simp add: isGroupAdmin_def m(3) split: option.splits)
  then show "applyAccept clock' g' ev self = Inr (Applied g' True False False)"
    using ns nl m(1) by (simp add: applyAccept_def ev m(3) accepted_member_def joinable_state_def)
next
  assume a: "applyLeave clock g ev self = Inr (Applied g' False acc bc)"
  obtain m where m: "getGroupMember g (get ev ''actorId'') = Some m"
      "g' = replace_member g (mb_peerId m) (get ev ''timestamp'') (departed_member MLeft (get ev ''timestamp''))"
    using applyLeave_Applied [OF g a] by blast
  then have ev: "get ev ''actorId'' = Str (mb_peerId m)" using getGroupMember_Str by blast
  show "\<exists>e. applyLeave clock' g' ev self = Inr (Rejected e)"
    using m(1) by (simp add: applyLeave_def ev m(2) isActiveGroupMember_def departed_member_def)
next
  assume a: "applyUpdate clock g ev self = Inr (Applied g' False acc bc)"
  then have n: "normalizeGroup clock (get ev ''group'') = Inr g'"
    using nl by (auto simp: applyUpdate_def split: if_splits sum.splits)
  show "applyUpdate clock' g' ev self = Inr (Applied g' True False False) \<or> (\<exists>e. applyUpdate clock' g' ev self = Inr (Rejected e))"
    using nl normalizeGroup_revision_clock [OF n, of clock'] by (auto simp: applyUpdate_def split: sum.splits)
qed

lemma applyInvite_snapshot:
  assumes "\<not> js_Boolean (get ev ''legacyMutation'')" "applyInvite clock v ev self = Inr (Applied g' False acc bc)"
  shows "normalizeGroup clock (get ev ''group'') = Inr g'"
  using assms by (auto simp: applyInvite_def rethrow_def split: if_splits sum.splits dest!: inviteSelf_Applied)

lemma replay_invite:
  assumes g': "stable_group g'" and nl: "\<not> js_Boolean (get ev ''legacyMutation'')"
    and r: "applyInvite clock v ev self = Inr (Applied g' False acc bc)"
  shows "applyInvite clock' (group_obj g') ev self = Inr (Applied g' True False False) \<or>
     (\<exists>e. applyInvite clock' (group_obj g') ev self = Inr (Rejected e))"
  using nl normalizeGroup_revision_clock [OF applyInvite_snapshot [OF nl r], of clock']
  by (auto simp: applyInvite_def normalizeGroup_obj [OF g'] rethrow_def split: sum.splits)

lemma reject_or:
  "(\<exists>e. x = Inr (Rejected e)) \<or> x = y \<Longrightarrow>
   (\<exists>e. (if c then Inr (Rejected s) else x) = Inr (Rejected e)) \<or> (if c then Inr (Rejected s) else x) = y"
  by auto

lemma applyGroupEvent_local:
  assumes g: "stable_group g" and "get ev ''action'' \<noteq> Str ''invite''"
  shows "(\<exists>e. applyGroupEvent clock (group_obj g) ev self = Inr (Rejected e)) \<or>
     applyGroupEvent clock (group_obj g) ev self =
        (if get ev ''action'' = Str ''accept'' then applyAccept clock g ev self
         else if get ev ''action'' = Str ''update'' then applyUpdate clock g ev self
         else if get ev ''action'' = Str ''leave'' then applyLeave clock g ev self
         else Inr (Rejected ''unsupported_group_action''))"
  unfolding applyGroupEvent_def Let_def if_not_P [OF assms(2)]
  by (intro reject_or) (simp only: rethrow_def normalizeGroup_obj [OF g] sum.case simp_thms)

text \<open>
  C11. A replayed event does nothing. Once a peer has applied an event that another peer sent, applying the
  very same event to the resulting group either reports a duplicate with the group unchanged or rejects
  the event, also when the first application created the local copy from an invitation.
\<close>

theorem group_event_replay:
  assumes v: "v = Undef \<or> (\<exists>g. stable_group g \<and> v = group_obj g)" and g': "stable_group g'"
    and nl: "\<not> js_Boolean (get ev ''legacyMutation'')"
    and r: "applyGroupEvent clock v ev self = Inr (Applied g' False acc bc)"
  shows "applyGroupEvent clock' (group_obj g') ev self = Inr (Applied g' True False False) \<or>
     (\<exists>e. applyGroupEvent clock' (group_obj g') ev self = Inr (Rejected e))"
  using r
proof (cases rule: applyGroupEvent_cases)
  case invite
  show ?thesis
    using replay_invite [OF g' nl invite(2), of clock'] invite(1) by (auto simp: applyGroupEvent_def Let_def)
next
  case (local g)
  then have "v \<noteq> Undef" by (auto simp: normalizeGroup_def)
  then have g: "stable_group g" using v local(2) normalizeGroup_obj by fastforce
  note rep = replay_local [OF g g' nl, where clock = clock and clock' = clock' and self = self and acc = acc and bc = bc]
  show ?thesis
  proof (cases "\<exists>e. applyGroupEvent clock' (group_obj g') ev self = Inr (Rejected e)")
    case False
    note applyGroupEvent_local [OF g' local(1), of clock' self]
    with False show ?thesis using local(3) rep by (elim disjE conjE) simp_all
  qed simp
qed

lemma sample_after_accept:
  "stable_group (replace_member sample_group ''bob'' (JInt 50) (accepted_member sample_group (JInt 50)))"
proof -
  have "trimmed ''Team''" "trimmed ''ann''" "trimmed ''bob''" "trimmed ''cyd''" "trimmed ''Ann''" "trimmed ''Bob''"
    "trimmed ''Cyd''" by code_simp+
  then show ?thesis
    using sample_group_id
    by (simp add: stable_group_def wf_group_def sample_group_def stable_member_def member_ok_def accepted_member_def
        replace_member_def GROUP_MAX_NAME_CHARS_def GROUP_MAX_IMAGE_CHARS_def trimmed_def [of "[]"])
qed

theorem group_event_replay_witness:
  "let g = replace_member sample_group ''bob'' (JInt 50) (accepted_member sample_group (JInt 50));
       again = applyGroupEvent 7 (group_obj g) (sample_event ''accept'' ''bob'') ''ann''
   in again = Inr (Applied g True False False) \<or> (\<exists>e. again = Inr (Rejected e))"
proof -
  have "\<not> js_Boolean (get (sample_event ''accept'' ''bob'') ''legacyMutation'')" by (simp add: sample_event_def)
  then show ?thesis
    unfolding Let_def
    by (intro group_event_replay [OF _ sample_after_accept _ sample_accept] disjI2) (use sample_group_stable in blast)
qed

text \<open>
  Membership has effect. When an admin applies a member's leave event, from then on every group message
  that member sends is refused whatever its contents, and messages of the group are no longer routed
  to it; when an admin applies the acceptance of an invited peer, the peer is routed to, even without
  invitees, and its well-formed messages are accepted.
\<close>

theorem membership_takes_effect:
  assumes g: "stable_group g" and ev: "get ev ''actorId'' = Str p" and act: "action = get ev ''action''"
    and r: "applyGroupEvent clock (group_obj g) ev self = Inr (Applied g' False acc bc)"
  shows "(action = Str ''leave'' \<longrightarrow>
       (\<forall>env me. \<exists>e. validateIncomingGroupMessage (Some g') env p me = Inl e) \<and> (\<forall>inc ex. p \<notin> set (groupPeerIds g' inc ex))) \<and>
     (action = Str ''accept'' \<longrightarrow> (\<forall>inc ex. p \<noteq> ex \<longrightarrow> p \<in> set (groupPeerIds g' inc ex)) \<and>
       (\<forall>body mid me. isActiveGroupMember g' (Str me) \<and> mid \<noteq> [] \<longrightarrow>
          validateIncomingGroupMessage (Some g') (Obj [(''kind'', Str GROUP_MESSAGE_KIND),
            (''protocolVersion'', JInt GROUP_PROTOCOL_VERSION), (''groupId'', Str (gr_id g')), (''messageId'', Str mid),
            (''senderPeerId'', Str p), (''payload'', Obj ((''kind'', Str ''chat'') # body))]) p me = Inr ()))"
proof -
  have inactive: "\<not> isActiveGroupMember g' (Str p) \<and> (\<forall>inc ex. p \<notin> set (groupPeerIds g' inc ex))" if l: "action = Str ''leave''"
  proof -
    have ap: "applyLeave clock g ev self = Inr (Applied g' False acc bc)"
      using r by (rule applyGroupEvent_cases) (use l act normalizeGroup_obj [OF g] in auto)
    from applyLeave_Applied [OF g ap] obtain m where m0: "getGroupMember g (Str p) = Some m"
        "g' = replace_member g (mb_peerId m) (get ev ''timestamp'') (departed_member MLeft (get ev ''timestamp''))"
      unfolding ev by blast
    have "mb_peerId m = p" using getGroupMember_Str [OF m0(1)] by simp
    note m = m0 [unfolded this]
    have "\<not> isActiveGroupMember g' (Str p)" unfolding isActiveGroupMember_def m(2) using m(1) by (simp add: departed_member_def)
    moreover have "p \<notin> set (groupPeerIds g' inc ex)" for inc ex
      unfolding m(2) by (rule departed_not_routed)
    ultimately show ?thesis by blast
  qed
  have active: "isActiveGroupMember g' (Str p) \<and> (\<forall>inc ex. p \<noteq> ex \<longrightarrow> p \<in> set (groupPeerIds g' inc ex))" if a: "action = Str ''accept''"
  proof -
    have ap: "applyAccept clock g ev self = Inr (Applied g' False acc bc)"
      using r by (rule applyGroupEvent_cases) (use a act normalizeGroup_obj [OF g] in auto)
    from applyAccept_Applied [OF g ap] obtain m where m0: "getGroupMember g (Str p) = Some m"
        "g' = replace_member g (mb_peerId m) (get ev ''timestamp'') (accepted_member g (get ev ''timestamp''))"
      unfolding ev by blast
    have "mb_peerId m = p" using getGroupMember_Str [OF m0(1)] by simp
    note m = m0 [unfolded this]
    have "isActiveGroupMember g' (Str p)" unfolding isActiveGroupMember_def m(2) using m(1) by (simp add: accepted_member_def)
    moreover have "p \<in> set (groupPeerIds g' inc ex)" if "p \<noteq> ex" for inc ex
      unfolding m(2) by (rule accepted_routed) (use getGroupMember_Str [OF m(1)] that in auto)
    ultimately show ?thesis by blast
  qed
  show ?thesis using inactive active by (auto simp: validateIncomingGroupMessage_def)
qed

theorem membership_takes_effect_witness:
  "\<exists>e. validateIncomingGroupMessage
     (Some (replace_member sample_group ''cyd'' (JInt 50) (departed_member MLeft (JInt 50)))) Undef ''cyd'' ''ann'' = Inl e"
proof -
  have ev: "get (sample_event ''leave'' ''cyd'') ''actorId'' = Str ''cyd''"
    "Str ''leave'' = get (sample_event ''leave'' ''cyd'') ''action''" by (simp_all add: sample_event_def)
  show ?thesis using membership_takes_effect [OF sample_group_stable ev sample_leave] by blast
qed

section \<open>Delivery\<close>

lemma summarizeLoop_counts:
  "ds_delivered (summarizeLoop d ps s) = ds_delivered s + length (filter (\<lambda>p. is_delivered (delivery_state d p)) ps) \<and>
   ds_pending (summarizeLoop d ps s) =
     ds_pending s + length (filter (\<lambda>p. \<not> is_delivered (delivery_state d p) \<and> is_pending (delivery_state d p)) ps) \<and>
   ds_offline (summarizeLoop d ps s) =
     ds_offline s + length (filter (\<lambda>p. \<not> is_delivered (delivery_state d p) \<and> \<not> is_pending (delivery_state d p)) ps) \<and>
   ds_total (summarizeLoop d ps s) = ds_total s"
  by (induction d ps s rule: summarizeLoop.induct) (simp_all add: Let_def)

text \<open>
  The delivery status shown for a group message agrees with the counts shown next to it: every distinct
  recipient is counted once as delivered, pending or offline, and the status is ''delivered'' exactly
  when everybody has the message, ''partial'' when some have it, ''pending'' when nobody has it and
  somebody is being sent to, and ''scheduled'' otherwise.
\<close>

theorem delivery_status_matches_summary:
  "let s = summarizeGroupDelivery delivery recipientIds; status = deriveGroupDeliveryStatus delivery recipientIds
   in ds_total s = card (set recipientIds - {[]}) \<and>
      ds_delivered s + ds_pending s + ds_offline s = ds_total s \<and>
      status = (if ds_delivered s = ds_total s then ''delivered'' else if ds_delivered s > 0 then ''partial''
                else if ds_pending s > 0 then ''pending'' else ''scheduled'')"
proof -
  define ps where "ps = unique_recipients recipientIds"
  define D where "D = (\<lambda>p. is_delivered (delivery_state delivery p))"
  define P where "P = (\<lambda>p. is_pending (delivery_state delivery p))"
  have ps: "distinct ps" "set ps = set recipientIds - {[]}"
    by (auto simp: ps_def unique_recipients_def distinct_collect_new set_collect_new)
  have excl: "P p \<Longrightarrow> \<not> D p" for p by (auto simp: D_def P_def is_delivered_def is_pending_def)
  have c: "length (filter D ps) + length (filter (\<lambda>p. \<not> D p \<and> P p) ps) + length (filter (\<lambda>p. \<not> D p \<and> \<not> P p) ps) = length ps"
    by (induction ps) auto
  have pend: "(length (filter (\<lambda>p. \<not> D p \<and> P p) ps) > 0) = (\<exists>p \<in> set ps. P p)"
    using excl by (auto simp: filter_empty_conv)
  have t: "length ps = card (set recipientIds - {[]})" using distinct_card [OF ps(1)] ps(2) by simp
  have sum: "ds_total s = length ps \<and> ds_delivered s = length (filter D ps) \<and>
      ds_pending s = length (filter (\<lambda>p. \<not> D p \<and> P p) ps) \<and> ds_offline s = length (filter (\<lambda>p. \<not> D p \<and> \<not> P p) ps)"
    if "s = summarizeGroupDelivery delivery recipientIds" for s
    unfolding that by (simp add: summarizeGroupDelivery_def Let_def summarizeLoop_counts ps_def D_def P_def)
  have st: "deriveGroupDeliveryStatus delivery recipientIds = (if ps = [] then ''delivered''
      else if length (filter D ps) = length ps then ''delivered'' else if length (filter D ps) > 0 then ''partial''
      else if \<exists>p \<in> set ps. P p then ''pending'' else ''scheduled'')"
    by (simp add: deriveGroupDeliveryStatus_def Let_def ps_def [symmetric] filter_map o_def list_ex_iff D_def P_def)
  show ?thesis
    unfolding Let_def st using sum [OF refl] c t pend by (cases ps) auto
qed

text \<open>
  The history of group event ids is a bounded duplicate filter: remembering a new id reports no
  duplicate, keeps the list within its limit and without repetitions, and makes the same id a duplicate
  afterwards; remembering a known id changes nothing.
\<close>

theorem rememberGroupEventId_filter:
  assumes "distinct ids" "length ids \<le> nat (max 1 limit)" "eventId \<noteq> []"
  shows "case rememberGroupEventId (Arr (map Str ids)) eventId limit of (dup, ids') \<Rightarrow>
     dup = (eventId \<in> set ids) \<and> (dup \<longrightarrow> ids' = ids) \<and> distinct ids' \<and> length ids' \<le> nat (max 1 limit) \<and>
     rememberGroupEventId (Arr (map Str ids')) eventId limit = (True, ids')"
proof -
  have strs: "filter is_string (map Str xs) = map Str xs" "map (js_String \<circ> Str) xs = xs" for xs
    by (induction xs) auto
  define n where "n = nat (max 1 limit)"
  have n: "1 \<le> n" by (simp add: n_def)
  have "eventId \<in> set (drop (length (ids @ [eventId]) - n) (ids @ [eventId]))"
    using n by (simp add: drop_append Suc_diff_le)
  then show ?thesis
    using assms n by (auto simp: rememberGroupEventId_def strs Let_def n_def [symmetric] distinct_drop
        simp del: drop_append dest: in_set_dropD)
qed

theorem rememberGroupEventId_filter_witness:
  "rememberGroupEventId (Arr (map Str [''b'', ''c''])) ''c'' 2 = (True, [''b'', ''c''])"
  using rememberGroupEventId_filter [of "[''a'', ''b'']" 2 "''c''"] by (simp add: rememberGroupEventId_def)

section \<open>Two places where the code falls short\<close>

text \<open>
  \<open>cleanString\<close> trims before it cuts, so a cut that falls after a space leaves a string that the next
  normalisation changes again: the normal form is not a fixed point for such names and ids.
\<close>

lemma cleanString_not_idempotent: "cleanString (Str (cleanString (Str ''a b'') 2)) 2 \<noteq> cleanString (Str ''a b'') 2"
  by code_simp

text \<open>
  An update that changes the creator of a group is refused as \<open>group_identity_changed\<close>; an invitation
  carrying the same snapshot is not, so an admin who did not create a group can replace its creator in the
  copy of any member.
\<close>

lemma invite_can_replace_creator:
  assumes "stable_group g" "stable_group h" "gr_id h = gr_id g" "gr_revision g < gr_revision h"
    and "isGroupAdmin g (Str p)" "isGroupAdmin h (Str p)" "isActiveGroupMember h (Str self)" "p \<noteq> []"
  shows "applyGroupEvent clock (group_obj g) (Obj [(''kind'', Str GROUP_EVENT_KIND),
      (''protocolVersion'', JInt GROUP_PROTOCOL_VERSION), (''eventId'', Str ''e''), (''action'', Str ''invite''),
      (''groupId'', Str (gr_id g)), (''actorId'', Str p), (''recipientId'', Str self), (''group'', group_obj h)]) self
    = Inr (Applied h False False False)"
  using assms stable_group_facts(1) [OF assms(1)]
  by (auto simp: applyGroupEvent_def Let_def applyInvite_def normalizeGroup_obj rethrow_def inviteSelf_def
      isActiveGroupMember_def joinable_state_def split: option.splits)

end
