(* ===== verification/Chat_Features.thy ===== *)
theory Chat_Features
  imports JS_Values "HOL-Library.Multiset"
begin

text \<open>
  The chat logic shared by all front ends, \<open>src/shared/chat-features.js\<close>: the features peers announce,
  editing of messages, mentions, search, drafts, unread markers and pins. Messages, members and drafts
  are \<open>jsv\<close> objects, the clock is an argument. Local dates (\<open>startOfLocalDay\<close>) are a parameter; the texts with
  characters beyond Latin-1 and the opening of links are not modelled.
\<close>

section \<open>Features of a peer\<close>

definition MESSAGE_EDIT_KIND :: string where "MESSAGE_EDIT_KIND = ''message-edit''"
definition MESSAGE_EDIT_WINDOW_MS :: rat where "MESSAGE_EDIT_WINDOW_MS = 24 * 60 * 60 * 1000"

definition OWN_PEER_FEATURES :: "string list" where
  "OWN_PEER_FEATURES = [''message-edit'', ''mentions'', ''pins'', ''video-call'']"

definition feature_id :: "jsv \<Rightarrow> string option" where
  "feature_id item = (let i = js_trim (js_String (js_orv item (Str []))) in if i \<in> set OWN_PEER_FEATURES then Some i else None)"

definition normalizePeerFeatures :: "jsv \<Rightarrow> string list" where
  "normalizePeerFeatures v = (case v of Arr xs \<Rightarrow> collect_new feature_id xs [] | _ \<Rightarrow> [])"

definition contactHasPeerFeature :: "jsv \<Rightarrow> string \<Rightarrow> bool" where
  "contactHasPeerFeature contact feature \<longleftrightarrow> feature \<in> set (normalizePeerFeatures (get contact ''features''))"

text \<open>The \<open>Map\<close> from ids to contacts: a later contact of the same id replaces an earlier one.\<close>

definition contacts_by_id :: "jsv \<Rightarrow> (jsv \<times> jsv) list" where
  "contacts_by_id contacts = fold (\<lambda>row m. AList.update (get row ''id'') row m)
     (filter (\<lambda>row. js_Boolean (get row ''id'')) (arr_or_empty contacts)) []"

definition selectFeatureCapablePeerIds :: "jsv \<Rightarrow> jsv \<Rightarrow> string \<Rightarrow> jsv list" where
  "selectFeatureCapablePeerIds peerIds contacts feature =
     filter (\<lambda>i. contactHasPeerFeature (case map_of (contacts_by_id contacts) i of Some row \<Rightarrow> row | None \<Rightarrow> Undef) feature)
       (arr_or_empty peerIds)"

definition STOREABLE_CHAT_KINDS :: "string list" where
  "STOREABLE_CHAT_KINDS = [''chat'', ''file'', ''sticker'', ''contact-share'']"

definition isStoreableChatKind :: "jsv \<Rightarrow> bool" where
  "isStoreableChatKind kind \<longleftrightarrow> kind \<in> Str ` set STOREABLE_CHAT_KINDS"

section \<open>Editing\<close>

definition positive_number :: "jsv \<Rightarrow> rat option" where
  "positive_number v = (case finite_num (js_Number v) of Some t \<Rightarrow> if t \<le> 0 then None else Some t | None \<Rightarrow> None)"

definition canEditOwnTextMessage :: "jsv \<Rightarrow> rat \<Rightarrow> bool option \<Rightarrow> bool" where
  "canEditOwnTextMessage message now isSelf =
     (if \<not> js_Boolean message \<or> get message ''kind'' \<noteq> Str ''chat'' then False
      else let own = (case isSelf of Some b \<Rightarrow> b | None \<Rightarrow> get message ''from'' = Str ''self'')
           in if \<not> own then False
              else if \<not> js_Boolean (get message ''messageId'') then False
              else case positive_number (get message ''timestamp'') of
                  None \<Rightarrow> False | Some ts \<Rightarrow> \<not> now - ts > MESSAGE_EDIT_WINDOW_MS)"

definition findLastEditableOwnMessage :: "jsv \<Rightarrow> rat \<Rightarrow> jsv option" where
  "findLastEditableOwnMessage messages now =
     find (\<lambda>m. canEditOwnTextMessage m now (Some (get m ''from'' = Str ''self''))) (rev (arr_or_empty messages))"

record edit_payload =
  ep_refMessageId :: string
  ep_content :: string
  ep_editedAt :: rat

definition validateMessageEditPayload :: "jsv \<Rightarrow> nat \<Rightarrow> string + edit_payload" where
  "validateMessageEditPayload payload maxChars =
     (if \<not> js_Boolean payload \<or> get payload ''kind'' \<noteq> Str MESSAGE_EDIT_KIND then Inl ''invalid_kind'' else
      let refMessageId = js_trim (js_String (js_orv (get payload ''refMessageId'') (Str [])))
      in if refMessageId = [] then Inl ''missing_ref'' else
        case get payload ''content'' of
          Str content \<Rightarrow>
            if js_trim content = [] then Inl ''empty''
            else if length content > maxChars then Inl ''too_long''
            else (case positive_number (get payload ''editedAt'') of
                None \<Rightarrow> Inl ''invalid_edited_at''
              | Some editedAt \<Rightarrow> Inr \<lparr>ep_refMessageId = refMessageId, ep_content = content, ep_editedAt = editedAt\<rparr>)
        | _ \<Rightarrow> Inl ''invalid_content'')"

datatype edit_result = EditError string | EditSkipped string | EditPatch string string rat

definition applyInboundMessageEdit :: "jsv \<Rightarrow> jsv \<Rightarrow> rat \<Rightarrow> bool \<Rightarrow> edit_result" where
  "applyInboundMessageEdit existing payload now editorIsOriginalSender =
     (case validateMessageEditPayload payload (128 * 1024) of
        Inl e \<Rightarrow> EditError e
      | Inr v \<Rightarrow>
          if \<not> editorIsOriginalSender then EditError ''sender_mismatch'' else
          let patch = (if ep_editedAt v > now + 5 * 60 * 1000 then EditError ''edited_in_future''
                       else EditPatch (ep_refMessageId v) (ep_content v) (ep_editedAt v))
          in if js_Boolean existing then
               (if get existing ''kind'' \<noteq> Str ''chat'' then EditError ''not_text'' else
                case positive_number (get existing ''timestamp'') of
                  None \<Rightarrow> EditError ''no_timestamp''
                | Some originalTs \<Rightarrow>
                    if ep_editedAt v - originalTs > MESSAGE_EDIT_WINDOW_MS then EditError ''window_expired''
                    else (case positive_number (get existing ''editedAt'') of
                        Some prevEdited \<Rightarrow> if ep_editedAt v \<le> prevEdited then EditSkipped (ep_refMessageId v) else patch
                      | None \<Rightarrow> patch))
             else patch)"

definition buildMessageEditInner :: "jsv \<Rightarrow> jsv \<Rightarrow> rat \<Rightarrow> jsv \<Rightarrow> jsv \<Rightarrow> jsv" where
  "buildMessageEditInner refMessageId content editedAt sender messageId =
     Obj [(''kind'', Str MESSAGE_EDIT_KIND), (''refMessageId'', refMessageId), (''content'', content),
       (''editedAt'', Num (Fin editedAt)), (''sender'', sender), (''messageId'', messageId), (''timestamp'', Num (Fin editedAt))]"

section \<open>Mentions\<close>

definition space_or_open :: "char \<Rightarrow> bool" where
  "space_or_open c \<longleftrightarrow> js_space c \<or> c \<in> set ''([{''"

definition end_mark :: "char \<Rightarrow> bool" where
  "end_mark c \<longleftrightarrow> js_space c \<or> c \<in> set ''.,!?;:)]}''"

text \<open>
  The pattern \<open>(^|[\\s([{])@([^\\s@]*)$\<close> on the text before the cursor: the longest ending without white space
  and \<open>@\<close>, preceded by an \<open>@\<close> that starts the text or follows a space or an opening bracket.
\<close>

definition getMentionQueryAtCursor :: "jsv \<Rightarrow> nat \<Rightarrow> (string \<times> nat \<times> nat) option" where
  "getMentionQueryAtCursor text cursor =
     (let v = js_String (js_orv text (Str [])); pos = min cursor (length v); before = take pos v;
          query = rev (takeWhile (\<lambda>c. \<not> js_space c \<and> c \<noteq> CHR ''@'') (rev before));
          front = take (length before - length query) before
      in if front \<noteq> [] \<and> last front = CHR ''@'' \<and> (butlast front = [] \<or> space_or_open (last (butlast front)))
         then Some (query, length before - length query - 1, pos) else None)"

definition filterMentionMembers :: "jsv \<Rightarrow> jsv \<Rightarrow> string \<Rightarrow> jsv list" where
  "filterMentionMembers members query ownPeerId =
     (let q = js_toLowerCase (js_trim (js_String (js_orv query (Str []))))
      in filter (\<lambda>m. q = [] \<or>
             js_includes (js_toLowerCase (js_String (js_orv (js_orv (get m ''displayName'') (get m ''name'')) (Str [])))) q \<or>
             js_includes (js_toLowerCase (js_String (get m ''peerId''))) q)
          (filter (\<lambda>m. get m ''state'' \<noteq> Str ''left'' \<and> get m ''state'' \<noteq> Str ''removed'')
            (filter (\<lambda>m. js_Boolean (get m ''peerId'') \<and> get m ''peerId'' \<noteq> Str ownPeerId) (arr_or_empty members))))"

definition mentionBoundaryOk :: "string \<Rightarrow> nat \<Rightarrow> nat \<Rightarrow> bool" where
  "mentionBoundaryOk text i tokenLength =
     (if i > 0 \<and> \<not> space_or_open (text ! (i - 1)) then False
      else \<not> i + tokenLength < length text \<or> end_mark (text ! (i + tokenLength)))"

fun indexOf_from :: "string \<Rightarrow> string \<Rightarrow> nat \<Rightarrow> nat option" where
  "indexOf_from [] token n = (if token = [] then Some n else None)"
| "indexOf_from (c # s) token n = (if js_startsWith (c # s) token then Some n else indexOf_from s token (n + 1))"

text \<open>\<open>str.indexOf(token, idx)\<close>.\<close>

definition js_indexOf :: "string \<Rightarrow> string \<Rightarrow> nat \<Rightarrow> nat option" where
  "js_indexOf str token idx = indexOf_from (drop idx str) token idx"

lemma indexOf_from_ge: "indexOf_from s token n = Some k \<Longrightarrow> n \<le> k \<and> js_startsWith (drop (k - n) s) token"
proof (induction s token n rule: indexOf_from.induct)
  case (1 token n)
  then show ?case by (auto split: if_splits simp: js_startsWith_def)
next
  case (2 c s token n)
  show ?case
  proof (cases "js_startsWith (c # s) token")
    case True
    with "2.prems" show ?thesis by simp
  next
    case False
    with 2 have "Suc n \<le> k" "js_startsWith (drop (k - Suc n) s) token" by auto
    moreover from this have "k - n = Suc (k - Suc n)" by linarith
    ultimately show ?thesis by simp
  qed
qed

record mention =
  mn_peerId :: jsv
  mn_name :: string
  mn_index :: nat

text \<open>The loop over the occurrences of one member's token; \<open>found\<close> doubles as the set \<open>seen\<close>.\<close>

function mentionLoop :: "string \<Rightarrow> jsv \<Rightarrow> string \<Rightarrow> nat \<Rightarrow> mention list \<Rightarrow> mention list" where
  "mentionLoop str peerId name idx found =
     (if idx < length str then
        (case js_indexOf str (CHR ''@'' # name) idx of
           None \<Rightarrow> found
         | Some k \<Rightarrow> mentionLoop str peerId name (k + length (CHR ''@'' # name))
             (if mentionBoundaryOk str k (length (CHR ''@'' # name)) \<and> peerId \<notin> mn_peerId ` set found
              then found @ [\<lparr>mn_peerId = peerId, mn_name = name, mn_index = k\<rparr>] else found))
      else found)"
  by pat_completeness auto
termination
  by (relation "measure (\<lambda>(str, _, _, idx, _). length str - idx)")
    (auto simp: js_indexOf_def dest!: indexOf_from_ge)

declare mentionLoop.simps [simp del]

definition mention_names :: "jsv \<Rightarrow> (jsv \<times> string) list" where
  "mention_names members =
     sort_key (\<lambda>(_, name). - int (length name))
       (filter (\<lambda>(p, name). js_Boolean p \<and> name \<noteq> [])
         (map (\<lambda>m. (get m ''peerId'', js_trim (js_String (js_orv (js_orv (get m ''displayName'') (get m ''name'')) (Str [])))))
           (arr_or_empty members)))"

definition parseMentions :: "jsv \<Rightarrow> jsv \<Rightarrow> mention list" where
  "parseMentions text members =
     fold (\<lambda>(p, name) found. mentionLoop (js_String (js_orv text (Str []))) p name 0 found) (mention_names members) []"

definition applyMentionReplacement :: "jsv \<Rightarrow> int \<Rightarrow> int \<Rightarrow> string \<Rightarrow> string \<times> nat" where
  "applyMentionReplacement text start end name =
     (let v = js_String (js_orv text (Str [])); from = nat (max 0 start); to = max from (nat end);
          insertion = CHR ''@'' # name @ '' ''
      in (take from v @ insertion @ drop to v, from + length insertion))"

definition messageMentionsPeer :: "jsv \<Rightarrow> jsv \<Rightarrow> jsv \<Rightarrow> bool" where
  "messageMentionsPeer text members peerId =
     (if \<not> js_Boolean peerId then False else list_ex (\<lambda>m. mn_peerId m = peerId) (parseMentions text members))"

definition collectMentionPeerIds :: "jsv \<Rightarrow> jsv \<Rightarrow> jsv list \<Rightarrow> jsv list" where
  "collectMentionPeerIds text members extraIds =
     collect_new Some (map (\<lambda>i. Str (js_String i)) (filter js_Boolean extraIds) @ map mn_peerId (parseMentions text members)) []"

section \<open>Search\<close>

definition normalizeSearchQuery :: "jsv \<Rightarrow> string" where
  "normalizeSearchQuery query = js_toLowerCase (js_trim (js_String (js_orv query (Str []))))"

definition messageSearchHaystack :: "jsv \<Rightarrow> string" where
  "messageSearchHaystack message =
     (if \<not> js_Boolean message then [] else
      js_toLowerCase (join [CHR 0x0A] (map js_String (filter js_Boolean
        [get message ''content'', get message ''fileName'', get message ''sender'', get (get message ''replyTo'') ''preview'',
         get (get message ''sharedContact'') ''displayName'']))))"

definition findSearchHits :: "jsv \<Rightarrow> jsv \<Rightarrow> (jsv \<times> nat) list" where
  "findSearchHits messages query =
     (let q = normalizeSearchQuery query
      in if q = [] then []
         else map (\<lambda>(m, i). (get m ''messageId'', i))
           (filter (\<lambda>(m, i). js_Boolean (get m ''messageId'') \<and> js_includes (messageSearchHaystack m) q)
             (zip (arr_or_empty messages) [0..<length (arr_or_empty messages)])))"

text \<open>\<open>currentIndex\<close> is \<open>None\<close> when it is not an integer.\<close>

definition stepSearchHit :: "nat \<Rightarrow> int option \<Rightarrow> int \<Rightarrow> int" where
  "stepSearchHit len currentIndex direction =
     (if len = 0 then - 1 else
      let dir = (if direction < 0 then - 1 else 1)
      in case currentIndex of
          None \<Rightarrow> if dir > 0 then 0 else int len - 1
        | Some cur \<Rightarrow>
            if cur < 0 then (if dir > 0 then 0 else int len - 1)
            else let next = cur + dir
                 in if next < 0 then int len - 1 else if next \<ge> int len then 0 else next)"

section \<open>Drafts\<close>

text \<open>A draft map is an object from peer ids to \<open>{text, updatedAt}\<close>.\<close>

definition draft_row :: "string \<Rightarrow> rat \<Rightarrow> jsv" where
  "draft_row text updatedAt = Obj [(''text'', Str text), (''updatedAt'', Num (Fin updatedAt))]"

definition draft_text :: "jsv \<Rightarrow> string" where
  "draft_text v = (case v of Str s \<Rightarrow> s | _ \<Rightarrow> (if js_Boolean v then (case get v ''text'' of Str s \<Rightarrow> s | _ \<Rightarrow> []) else []))"

definition draft_time :: "jsv \<Rightarrow> rat" where
  "draft_time v = (if is_object v then (case finite_num (js_Number (get v ''updatedAt'')) of Some t \<Rightarrow> t | None \<Rightarrow> 0) else 0)"

definition normalizeDraftMap :: "jsv \<Rightarrow> (string \<times> jsv) list" where
  "normalizeDraftMap stored = (case stored of
     Obj fs \<Rightarrow> fold (\<lambda>(peerId, v) next. if peerId = [] then next
         else if js_trim (draft_text v) = [] then next
         else AList.update peerId (draft_row (draft_text v) (draft_time v)) next) fs []
   | _ \<Rightarrow> [])"

definition setDraftInMap :: "(string \<times> jsv) list \<Rightarrow> string \<Rightarrow> jsv \<Rightarrow> rat \<Rightarrow> (string \<times> jsv) list" where
  "setDraftInMap drafts peerId text now =
     (if peerId = [] then drafts
      else if js_trim (js_String (js_orv text (Str []))) = [] then AList.delete peerId drafts
      else AList.update peerId (draft_row (js_String text) now) drafts)"

definition getDraftText :: "(string \<times> jsv) list \<Rightarrow> string \<Rightarrow> string" where
  "getDraftText drafts peerId =
     (case index (Obj drafts) peerId of Str s \<Rightarrow> s
      | row \<Rightarrow> if js_Boolean row then js_String (js_orv (get row ''text'') (Str [])) else [])"

section \<open>Days, unread messages, pins\<close>

definition isNewLocalDay :: "(jsnum \<Rightarrow> rat) \<Rightarrow> jsv \<Rightarrow> jsv \<Rightarrow> bool" where
  "isNewLocalDay startOfLocalDay prevTs ts =
     (if finite_num (js_Number ts) = None then False
      else if finite_num (js_Number prevTs) = None then True
      else startOfLocalDay (js_Number prevTs) \<noteq> startOfLocalDay (js_Number ts))"

definition firstUnreadIndex :: "jsv \<Rightarrow> jsv \<Rightarrow> int" where
  "firstUnreadIndex messages lastViewedTs =
     (let bound = (case lastViewedTs of Num n \<Rightarrow> n | _ \<Rightarrow> Fin 0);
          unread = (\<lambda>m. js_Boolean m \<and> get m ''from'' \<noteq> Str ''self'' \<and>
             (case get m ''timestamp'' of Num n \<Rightarrow> js_less bound n | _ \<Rightarrow> False));
          before = takeWhile (\<lambda>m. \<not> unread m) (arr_or_empty messages)
      in if length before = length (arr_or_empty messages) then - 1 else int (length before))"

text \<open>
  The comparison by \<open>Number(pinnedAt) || 0\<close>: the infinities go to the ends and are equal among themselves (their
  difference is \<open>NaN\<close>, which \<open>sort\<close> reads as 0), so that the stable sort is one by time and then one by class.
\<close>

definition pinned_time :: "jsv \<Rightarrow> rat" where
  "pinned_time m = (case js_Number (get m ''pinnedAt'') of Fin t \<Rightarrow> t | _ \<Rightarrow> 0)"

definition pinned_class :: "jsv \<Rightarrow> int" where
  "pinned_class m = (case js_Number (get m ''pinnedAt'') of PosInf \<Rightarrow> 1 | NegInf \<Rightarrow> - 1 | _ \<Rightarrow> 0)"

definition collectPinnedMessages :: "jsv \<Rightarrow> jsv list" where
  "collectPinnedMessages messages =
     sort_key pinned_class (sort_key pinned_time
       (filter (\<lambda>m. js_Boolean m \<and> get m ''pinned'' = Bool True \<and> js_Boolean (get m ''messageId'')) (arr_or_empty messages)))"

text \<open>\<open>%\<close> keeps the sign of the dividend.\<close>

definition js_mod :: "int \<Rightarrow> int \<Rightarrow> int" where
  "js_mod a b = a - b * (if a \<ge> 0 then a div b else - ((- a) div b))"

definition nextPinnedIndex :: "int \<Rightarrow> int option \<Rightarrow> int \<Rightarrow> int" where
  "nextPinnedIndex len current direction =
     (if len \<le> 0 then 0 else
      let dir = (if direction < 0 then - 1 else 1); from = (case current of Some c \<Rightarrow> c | None \<Rightarrow> 0)
      in js_mod (from + dir + len) len)"

section \<open>Edits in a chat\<close>

text \<open>
  \<open>src/renderer/app/applyInboundChatEdit.js\<close>. The state is the list of messages of the chat (the React state
  and its cache, which the code keeps equal) and the last message of the chat's summary; \<open>batch\<close> is what
  \<open>messages.getBatch\<close> reads from disk when the message is not cached, and the patch the code hands to
  \<open>applyMessagePatch\<close> for the disk is part of the result. Messages are objects. The code updates state and cache in
  \<open>startTransition\<close>, after it has returned; here that is part of the same step, so an edit that reads a cache which an
  earlier one has yet to update is not represented.
\<close>

record chat_view =
  cv_messages :: "jsv list"
  cv_lastMessage :: jsv

definition editorOwnsOriginal :: "jsv \<Rightarrow> string \<Rightarrow> bool \<Rightarrow> bool" where
  "editorOwnsOriginal existing fromId isGroup =
     (if \<not> js_Boolean existing \<or> fromId = [] then False
      else if get existing ''from'' = Str ''self'' then False
      else if isGroup then get existing ''senderPeerId'' = Str fromId \<or> get existing ''from'' = Str fromId
      else get existing ''from'' = Str fromId)"

definition edit_patch :: "string \<Rightarrow> rat \<Rightarrow> (string \<times> jsv) list" where
  "edit_patch content editedAt = [(''content'', Str content), (''editedAt'', Num (Fin editedAt)), (''edited'', Bool True)]"

definition has_id :: "string \<Rightarrow> jsv \<Rightarrow> bool" where
  "has_id messageId m \<longleftrightarrow> get m ''messageId'' = Str messageId"

fun patch_first :: "string \<Rightarrow> (string \<times> jsv) list \<Rightarrow> jsv list \<Rightarrow> jsv list" where
  "patch_first messageId patch [] = []"
| "patch_first messageId patch (m # ms) =
     (if has_id messageId m then spread m patch # ms else m # patch_first messageId patch ms)"

definition patchChatMetaLastMessage :: "string \<Rightarrow> (string \<times> jsv) list \<Rightarrow> jsv \<Rightarrow> jsv" where
  "patchChatMetaLastMessage messageId patch lastMessage =
     (if \<not> js_Boolean lastMessage \<or> \<not> has_id messageId lastMessage then lastMessage else spread lastMessage patch)"

definition findMessageForReaction :: "jsv list \<Rightarrow> jsv list \<Rightarrow> string \<Rightarrow> jsv option" where
  "findMessageForReaction cached batch messageId =
     (case find (has_id messageId) cached of Some m \<Rightarrow> Some m | None \<Rightarrow> find (has_id messageId) batch)"

definition applyInboundChatEdit ::
  "rat \<Rightarrow> string \<Rightarrow> jsv \<Rightarrow> bool \<Rightarrow> jsv list \<Rightarrow> chat_view \<Rightarrow> bool \<times> (string \<times> (string \<times> jsv) list) option \<times> chat_view" where
  "applyInboundChatEdit now fromId payload isGroup batch v =
     (let refused = (False, None, v); patched = (\<lambda>ref. case findMessageForReaction (cv_messages v) batch ref of
            None \<Rightarrow> refused
          | Some existing \<Rightarrow>
              (case applyInboundMessageEdit existing payload now (editorOwnsOriginal existing fromId isGroup) of
                 EditError _ \<Rightarrow> refused
               | EditSkipped _ \<Rightarrow> (True, None, v)
               | EditPatch refMessageId content editedAt \<Rightarrow>
                   let patch = edit_patch content editedAt
                   in (True, Some (refMessageId, patch),
                       \<lparr>cv_messages = patch_first refMessageId patch (cv_messages v),
                        cv_lastMessage = patchChatMetaLastMessage refMessageId patch (cv_lastMessage v)\<rparr>)))
      in case applyInboundMessageEdit Null payload now True of
           EditError _ \<Rightarrow> refused | EditSkipped ref \<Rightarrow> patched ref | EditPatch ref _ _ \<Rightarrow> patched ref)"

subsection \<open>What an edit does to the messages\<close>

fun map_first :: "('a \<Rightarrow> bool) \<Rightarrow> ('a \<Rightarrow> 'a) \<Rightarrow> 'a list \<Rightarrow> 'a list" where
  "map_first P g [] = []"
| "map_first P g (m # ms) = (if P m then g m # ms else m # map_first P g ms)"

lemma patch_first_map_first: "patch_first i patch ms = map_first (has_id i) (\<lambda>m. spread m patch) ms"
  by (induction ms) simp_all

lemma map_first_cong_found: "find P ms = Some m \<Longrightarrow> g m = h m \<Longrightarrow> map_first P g ms = map_first P h ms"
  by (induction ms) (auto split: if_splits)

lemma map_first_id: "map_first P (\<lambda>x. x) ms = ms"
  by (induction ms) simp_all

lemma map_first_none: "find P ms = None \<Longrightarrow> map_first P g ms = ms"
  by (induction ms) (auto split: if_splits)

text \<open>Two conditional updates commute up to a relation when they do on the elements both select.\<close>

lemma map_first_commute:
  assumes keep: "\<And>m. P (h m) = P m" "\<And>m. Q (g m) = Q m"
    and both: "\<And>m. P m \<Longrightarrow> Q m \<Longrightarrow> R (h (g m)) (g (h m))" and refl: "\<And>m. R m m"
  shows "list_all2 R (map_first Q h (map_first P g ms)) (map_first P g (map_first Q h ms))"
  by (induction ms) (auto simp: keep both refl list.rel_refl)

text \<open>When a valid edit \<open>e\<close> takes effect on the message \<open>m\<close>.\<close>

definition edit_accepted :: "rat \<Rightarrow> bool \<Rightarrow> edit_payload \<Rightarrow> jsv \<Rightarrow> bool" where
  "edit_accepted now own e m \<longleftrightarrow> own \<and> ep_editedAt e \<le> now + 5 * 60 * 1000 \<and> get m ''kind'' = Str ''chat'' \<and>
     (case positive_number (get m ''timestamp'') of None \<Rightarrow> False | Some t \<Rightarrow> ep_editedAt e - t \<le> MESSAGE_EDIT_WINDOW_MS) \<and>
     (case positive_number (get m ''editedAt'') of None \<Rightarrow> True | Some t \<Rightarrow> t < ep_editedAt e)"

definition edited_message :: "rat \<Rightarrow> string \<Rightarrow> bool \<Rightarrow> edit_payload \<Rightarrow> jsv \<Rightarrow> jsv" where
  "edited_message now fromId isGroup e m =
     (if edit_accepted now (editorOwnsOriginal m fromId isGroup) e m then spread m (edit_patch (ep_content e) (ep_editedAt e)) else m)"

lemma has_id_truthy: "has_id i m \<Longrightarrow> js_Boolean m"
  by (cases m) (auto simp: has_id_def)

lemma applyInbound_truthy:
  assumes "js_Boolean m" "validateMessageEditPayload p (128 * 1024) = Inr e"
  shows "case applyInboundMessageEdit m p now own of
      EditPatch i c t \<Rightarrow> edit_accepted now own e m \<and> i = ep_refMessageId e \<and> c = ep_content e \<and> t = ep_editedAt e
    | _ \<Rightarrow> \<not> edit_accepted now own e m"
  using assms by (auto simp: applyInboundMessageEdit_def edit_accepted_def Let_def split: option.splits)

lemma deliver_messages:
  "cv_messages (snd (snd (applyInboundChatEdit now fromId p isGroup batch v))) =
     (case validateMessageEditPayload p (128 * 1024) of
        Inl _ \<Rightarrow> cv_messages v
      | Inr e \<Rightarrow> if ep_editedAt e > now + 5 * 60 * 1000 then cv_messages v
          else map_first (has_id (ep_refMessageId e)) (edited_message now fromId isGroup e) (cv_messages v))"
proof (cases "validateMessageEditPayload p (128 * 1024)")
  case (Inl err)
  then show ?thesis by (simp add: applyInboundChatEdit_def applyInboundMessageEdit_def)
next
  case (Inr e)
  let ?ref = "ep_refMessageId e" and ?ms = "cv_messages v"
  have first: "applyInboundMessageEdit Null p now True =
      (if ep_editedAt e > now + 5 * 60 * 1000 then EditError ''edited_in_future''
       else EditPatch ?ref (ep_content e) (ep_editedAt e))"
    using Inr by (simp add: applyInboundMessageEdit_def)
  show ?thesis
  proof (cases "find (has_id ?ref) ?ms")
    case None
    show ?thesis
    proof (cases "find (has_id ?ref) batch")
      case None
      then show ?thesis using \<open>find _ ?ms = None\<close> Inr first
        by (simp add: applyInboundChatEdit_def findMessageForReaction_def map_first_none Let_def)
    next
      case (Some m)
      then have "has_id ?ref m" by (auto simp: find_Some_iff)
      note app = applyInbound_truthy [OF has_id_truthy [OF this] Inr, of now "editorOwnsOriginal m fromId isGroup"]
      show ?thesis using Some app \<open>find _ ?ms = None\<close> Inr first
        by (simp add: applyInboundChatEdit_def findMessageForReaction_def map_first_none patch_first_map_first Let_def
            split: edit_result.splits)
    qed
  next
    case (Some m)
    have "has_id ?ref m" using Some by (auto simp: find_Some_iff)
    note app = applyInbound_truthy [OF has_id_truthy [OF this] Inr, of now "editorOwnsOriginal m fromId isGroup"]
    show ?thesis
    proof (cases "edit_accepted now (editorOwnsOriginal m fromId isGroup) e m")
      case True
      then have "map_first (has_id ?ref) (edited_message now fromId isGroup e) ?ms =
          map_first (has_id ?ref) (\<lambda>m. spread m (edit_patch (ep_content e) (ep_editedAt e))) ?ms"
        by (intro map_first_cong_found [OF Some]) (simp add: edited_message_def)
      then show ?thesis using app Inr Some True first
        by (simp add: applyInboundChatEdit_def findMessageForReaction_def patch_first_map_first Let_def split: edit_result.splits)
    next
      case False
      then have "map_first (has_id ?ref) (edited_message now fromId isGroup e) ?ms = map_first (has_id ?ref) (\<lambda>m. m) ?ms"
        by (intro map_first_cong_found [OF Some]) (simp add: edited_message_def)
      then show ?thesis using app Inr Some False first
        by (simp add: applyInboundChatEdit_def findMessageForReaction_def map_first_id Let_def split: edit_result.splits)
    qed
  qed
qed

lemma valid_edit_positive: "validateMessageEditPayload p n = Inr e \<Longrightarrow> 0 < ep_editedAt e"
  by (auto simp: validateMessageEditPayload_def positive_number_def Let_def split: if_splits jsv.splits option.splits)

lemma get_patched [simp]:
  "get (spread m (edit_patch c t)) f = (if f = ''edited'' then Bool True else if f = ''editedAt'' then Num (Fin t)
     else if f = ''content'' then Str c else get m f)"
  by (simp add: get_spread edit_patch_def)

lemma js_Boolean_spread [simp]: "js_Boolean (spread m xs)"
  by (simp add: spread_def)

lemma positive_number_Fin [simp]: "positive_number (Num (Fin t)) = (if t \<le> 0 then None else Some t)"
  by (simp add: positive_number_def)

lemma editorOwns_patched: "js_Boolean m \<Longrightarrow> editorOwnsOriginal (spread m (edit_patch c t)) u g = editorOwnsOriginal m u g"
  by (simp add: editorOwnsOriginal_def)

lemma has_id_edited [simp]: "has_id i (edited_message now u g e m) = has_id i m"
  by (simp add: has_id_def edited_message_def)

lemma edits_commute:
  assumes "js_Boolean m" "0 < ep_editedAt d" "0 < ep_editedAt e" "ep_editedAt d \<noteq> ep_editedAt e"
  shows "get (edited_message now u g e (edited_message now w g d m)) f = get (edited_message now w g d (edited_message now u g e m)) f"
proof -
  have acc: "edit_accepted now own x (spread m (edit_patch c t)) \<longleftrightarrow>
      own \<and> ep_editedAt x \<le> now + 5 * 60 * 1000 \<and> get m ''kind'' = Str ''chat'' \<and>
      (case positive_number (get m ''timestamp'') of None \<Rightarrow> False | Some s \<Rightarrow> ep_editedAt x - s \<le> MESSAGE_EDIT_WINDOW_MS) \<and>
      t < ep_editedAt x" if "0 < t" for own x c t
    using that by (simp add: edit_accepted_def)
  show ?thesis
    using assms(2-4) editorOwns_patched [OF assms(1)]
    by (auto simp: edited_message_def acc edit_accepted_def split: option.splits)
qed

text \<open>
  C40. Edits reach every copy of a chat in some order, and all orders lead to the same messages: two deliveries with
  different edit times, from any senders and for any messages, commute on every field of every message. Both are handled at the
  same clock time, and each is complete, its update of the cache included, before the other starts.
\<close>

theorem message_edits_converge:
  assumes "\<forall>d e. validateMessageEditPayload p (128 * 1024) = Inr d \<longrightarrow> validateMessageEditPayload q (128 * 1024) = Inr e \<longrightarrow>
      ep_refMessageId d = ep_refMessageId e \<longrightarrow> ep_editedAt d \<noteq> ep_editedAt e"
  shows "list_all2 (\<lambda>m n. \<forall>f. get m f = get n f)
     (cv_messages (snd (snd (applyInboundChatEdit now u q g batch (snd (snd (applyInboundChatEdit now w p g batch v)))))))
     (cv_messages (snd (snd (applyInboundChatEdit now w p g batch (snd (snd (applyInboundChatEdit now u q g batch v)))))))"
proof (cases "validateMessageEditPayload p (128 * 1024)")
  case (Inl err)
  then show ?thesis by (simp add: deliver_messages list.rel_refl split: sum.splits)
next
  case (Inr d)
  show ?thesis
  proof (cases "validateMessageEditPayload q (128 * 1024)")
    case (Inl err)
    then show ?thesis by (simp add: deliver_messages list.rel_refl split: sum.splits)
  next
    case q: (Inr e)
    have "list_all2 (\<lambda>m n. \<forall>f. get m f = get n f)
        (map_first (has_id (ep_refMessageId e)) (edited_message now u g e)
          (map_first (has_id (ep_refMessageId d)) (edited_message now w g d) (cv_messages v)))
        (map_first (has_id (ep_refMessageId d)) (edited_message now w g d)
          (map_first (has_id (ep_refMessageId e)) (edited_message now u g e) (cv_messages v)))"
    proof (rule map_first_commute; simp?)
      fix m assume ids: "has_id (ep_refMessageId d) m" "has_id (ep_refMessageId e) m"
      then have "ep_editedAt d \<noteq> ep_editedAt e" using assms Inr q by (auto simp: has_id_def)
      then show "\<forall>f. get (edited_message now u g e (edited_message now w g d m)) f =
          get (edited_message now w g d (edited_message now u g e m)) f"
        using edits_commute [OF has_id_truthy [OF ids(1)] valid_edit_positive [OF Inr] valid_edit_positive [OF q]] by blast
    qed
    then show ?thesis using Inr q by (simp add: deliver_messages list.rel_refl)
  qed
qed

definition sample_edit :: "string \<Rightarrow> rat \<Rightarrow> jsv" where
  "sample_edit content t = buildMessageEditInner (Str ''m1'') (Str content) t (Str ''Bob'') (Str ''e'')"

definition sample_view :: chat_view where
  "sample_view = \<lparr>cv_messages = [Obj [(''messageId'', Str ''m0'')],
     Obj [(''messageId'', Str ''m1''), (''from'', Str ''bob''), (''kind'', Str ''chat''), (''content'', Str ''helo''), (''timestamp'', JInt 100)]],
     cv_lastMessage = Null\<rparr>"

lemma sample_edit_valid:
  "content \<noteq> [] \<Longrightarrow> js_trim content = content \<Longrightarrow> length content \<le> 10 \<Longrightarrow> 0 < t \<Longrightarrow>
   validateMessageEditPayload (sample_edit content t) (128 * 1024) = Inr \<lparr>ep_refMessageId = ''m1'', ep_content = content, ep_editedAt = t\<rparr>"
  by (simp add: sample_edit_def buildMessageEditInner_def validateMessageEditPayload_def MESSAGE_EDIT_KIND_def Let_def
      js_trim_def js_space_def)

theorem message_edits_converge_witness:
  "list_all2 (\<lambda>m n. \<forall>f. get m f = get n f)
     (cv_messages (snd (snd (applyInboundChatEdit 900 ''bob'' (sample_edit ''hello'' 300) False []
       (snd (snd (applyInboundChatEdit 900 ''bob'' (sample_edit ''hallo'' 200) False [] sample_view)))))))
     (cv_messages (snd (snd (applyInboundChatEdit 900 ''bob'' (sample_edit ''hallo'' 200) False []
       (snd (snd (applyInboundChatEdit 900 ''bob'' (sample_edit ''hello'' 300) False [] sample_view)))))))"
  by (rule message_edits_converge) (simp add: sample_edit_valid [simplified] js_trim_def js_space_def)

text \<open>The change of a message \<open>m\<close> to \<open>n\<close> that the peer \<open>u\<close> may cause at the time \<open>now\<close>.\<close>

definition authorised_edit :: "rat \<Rightarrow> string \<Rightarrow> bool \<Rightarrow> jsv \<Rightarrow> jsv \<Rightarrow> bool" where
  "authorised_edit now u g m n \<longleftrightarrow>
     get m ''from'' \<noteq> Str ''self'' \<and> (get m ''from'' = Str u \<or> (g \<and> get m ''senderPeerId'' = Str u)) \<and> get m ''kind'' = Str ''chat'' \<and>
     (\<forall>f. f \<notin> {''content'', ''editedAt'', ''edited''} \<longrightarrow> get n f = get m f) \<and> get n ''edited'' = Bool True \<and>
     (\<exists>c t sent. get n ''content'' = Str c \<and> js_trim c \<noteq> [] \<and> length c \<le> 128 * 1024 \<and> get n ''editedAt'' = Num (Fin t) \<and>
        positive_number (get m ''timestamp'') = Some sent \<and> t \<le> sent + MESSAGE_EDIT_WINDOW_MS \<and> t \<le> now + 5 * 60 * 1000 \<and>
        (\<forall>prev. positive_number (get m ''editedAt'') = Some prev \<longrightarrow> prev < t))"

lemma edited_message_authorised:
  assumes "js_trim (ep_content e) \<noteq> []" "length (ep_content e) \<le> 128 * 1024"
  shows "edited_message now u g e m = m \<or> authorised_edit now u g m (edited_message now u g e m)"
proof (cases "edit_accepted now (editorOwnsOriginal m u g) e m")
  case True
  then obtain sent where "positive_number (get m ''timestamp'') = Some sent" "ep_editedAt e \<le> sent + MESSAGE_EDIT_WINDOW_MS"
    by (auto simp: edit_accepted_def split: option.splits)
  moreover have "\<forall>prev. positive_number (get m ''editedAt'') = Some prev \<longrightarrow> prev < ep_editedAt e"
    using True by (auto simp: edit_accepted_def)
  moreover have "get m ''from'' \<noteq> Str ''self''" "get m ''from'' = Str u \<or> (g \<and> get m ''senderPeerId'' = Str u)"
    using True by (auto simp: edit_accepted_def editorOwnsOriginal_def split: if_splits)
  moreover have "get m ''kind'' = Str ''chat''" "ep_editedAt e \<le> now + 5 * 60 * 1000"
    using True by (auto simp: edit_accepted_def)
  ultimately show ?thesis using True assms unfolding authorised_edit_def edited_message_def by simp
qed (simp add: edited_message_def)

text \<open>
  Only the author of a message can edit it: whatever payload a peer sends, a delivery leaves each message as it is
  unless the message is a text whose author the peer is (never the local user's own); then it changes nothing but the
  text and the edit mark, to an edit time that is later than the previous one, at most a day after the message and
  at most five minutes ahead of the clock.
\<close>

theorem message_edit_authorised:
  "list_all2 (\<lambda>m n. n = m \<or> authorised_edit now u g m n)
     (cv_messages v) (cv_messages (snd (snd (applyInboundChatEdit now u p g batch v))))"
proof (cases "validateMessageEditPayload p (128 * 1024)")
  case (Inl err)
  then show ?thesis by (simp add: deliver_messages list.rel_refl)
next
  case (Inr e)
  have "js_trim (ep_content e) \<noteq> []" "length (ep_content e) \<le> 128 * 1024"
    using Inr by (auto simp: validateMessageEditPayload_def Let_def split: if_splits jsv.splits option.splits)
  note step = edited_message_authorised [OF this]
  have "list_all2 (\<lambda>m n. n = m \<or> authorised_edit now u g m n) ms (map_first (has_id i) (edited_message now u g e) ms)" for i ms
    by (induction ms) (use step in \<open>auto simp: list.rel_refl\<close>)
  then show ?thesis using Inr by (simp add: deliver_messages list.rel_refl)
qed

section \<open>Drafts, search and pins\<close>

lemma draft_row_text: "s \<noteq> [] \<Longrightarrow> js_String (js_orv (get (draft_row s t) ''text'') (Str [])) = s"
  by (simp add: draft_row_def)

lemma getDraftText_row [simp]: "map_of drafts p = Some (draft_row s t) \<Longrightarrow> s \<noteq> [] \<Longrightarrow> getDraftText drafts p = s"
  by (simp add: getDraftText_def index_def draft_row_def)

text \<open>
  A draft that is set reads back for its peer, a blank one reads back as the empty text, and every other peer's draft
  is untouched (for peer ids that are not names of \<open>Object.prototype\<close>, as no peer id is).
\<close>

theorem draft_roundtrip:
  assumes "peerId \<noteq> []" "peerId \<notin> set object_prototype"
  shows "getDraftText (setDraftInMap drafts peerId (Str text) now) peerId = (if js_trim text = [] then [] else text) \<and>
    (\<forall>other. other \<noteq> peerId \<longrightarrow> getDraftText (setDraftInMap drafts peerId (Str text) now) other = getDraftText drafts other)"
proof -
  have "js_trim [] = []" by (simp add: js_trim_def)
  then show ?thesis using assms
    by (auto simp: setDraftInMap_def delete_conv' getDraftText_def index_def update_conv' draft_row_def split: if_splits)
qed

theorem draft_roundtrip_witness:
  "getDraftText (setDraftInMap [] ''bob'' (Str ''hi'') 5) ''bob'' = (if js_trim ''hi'' = [] then [] else ''hi'') \<and>
    (\<forall>other. other \<noteq> ''bob'' \<longrightarrow> getDraftText (setDraftInMap [] ''bob'' (Str ''hi'') 5) other = getDraftText [] other)"
  by (rule draft_roundtrip) (simp_all add: object_prototype_def)

text \<open>
  Stepping through search hits and pinned messages stays within the list, visits the next entry and wraps around,
  and a step back undoes a step forward.
\<close>

theorem stepping_in_range:
  assumes "0 \<le> cur" "cur < int len"
  shows "stepSearchHit len (Some cur) 1 = (cur + 1) mod int len \<and> stepSearchHit len (Some cur) (- 1) = (cur - 1) mod int len \<and>
    nextPinnedIndex (int len) (Some cur) 1 = (cur + 1) mod int len \<and> nextPinnedIndex (int len) (Some cur) (- 1) = (cur - 1) mod int len \<and>
    stepSearchHit len (Some (stepSearchHit len (Some cur) 1)) (- 1) = cur \<and>
    nextPinnedIndex (int len) (Some (nextPinnedIndex (int len) (Some cur) 1)) (- 1) = cur"
proof -
  have fwd: "stepSearchHit len (Some c) 1 = (c + 1) mod int len" "stepSearchHit len (Some c) (- 1) = (c - 1) mod int len"
    "nextPinnedIndex (int len) (Some c) 1 = (c + 1) mod int len" "nextPinnedIndex (int len) (Some c) (- 1) = (c - 1) mod int len"
    if "0 \<le> c" "c < int len" for c
  proof -
    have m: "js_mod a (int len) = a mod int len" if "0 \<le> a" for a
      using that by (simp add: js_mod_def minus_mult_div_eq_mod)
    have w: "(c + 1) mod int len = (if c + 1 = int len then 0 else c + 1)" "(c - 1) mod int len = (if c = 0 then int len - 1 else c - 1)"
      using that by (auto simp: mod_pos_pos_trivial zmod_minus1)
    show "stepSearchHit len (Some c) 1 = (c + 1) mod int len" "stepSearchHit len (Some c) (- 1) = (c - 1) mod int len"
      using that by (auto simp: stepSearchHit_def w)
    show "nextPinnedIndex (int len) (Some c) 1 = (c + 1) mod int len" "nextPinnedIndex (int len) (Some c) (- 1) = (c - 1) mod int len"
      using that by (auto simp: nextPinnedIndex_def m)
  qed
  have "0 \<le> (cur + 1) mod int len" "(cur + 1) mod int len < int len" using assms by simp_all
  moreover have "((cur + 1) mod int len - 1) mod int len = cur" using assms by (simp add: mod_diff_left_eq mod_pos_pos_trivial)
  ultimately show ?thesis using fwd assms by simp
qed

theorem stepping_in_range_witness:
  "stepSearchHit 3 (Some 2) 1 = (2 + 1) mod int 3 \<and> stepSearchHit 3 (Some 2) (- 1) = (2 - 1) mod int 3 \<and>
    nextPinnedIndex (int 3) (Some 2) 1 = (2 + 1) mod int 3 \<and> nextPinnedIndex (int 3) (Some 2) (- 1) = (2 - 1) mod int 3 \<and>
    stepSearchHit 3 (Some (stepSearchHit 3 (Some 2) 1)) (- 1) = 2 \<and>
    nextPinnedIndex (int 3) (Some (nextPinnedIndex (int 3) (Some 2) 1)) (- 1) = 2"
  by (rule stepping_in_range) simp_all

section \<open>Mentions that are found\<close>

definition mention_ok :: "string \<Rightarrow> (jsv \<times> string) set \<Rightarrow> mention \<Rightarrow> bool" where
  "mention_ok str names m \<longleftrightarrow> (mn_peerId m, mn_name m) \<in> names \<and> js_startsWith (drop (mn_index m) str) (CHR ''@'' # mn_name m) \<and>
     mentionBoundaryOk str (mn_index m) (length (mn_name m) + 1)"

lemma js_indexOf_Some: "js_indexOf str token idx = Some k \<Longrightarrow> idx \<le> k \<and> js_startsWith (drop k str) token"
  unfolding js_indexOf_def by (auto dest: indexOf_from_ge)

definition mentions_ok :: "string \<Rightarrow> (jsv \<times> string) set \<Rightarrow> mention list \<Rightarrow> bool" where
  "mentions_ok str names found \<longleftrightarrow> list_all (mention_ok str names) found \<and> distinct (map mn_peerId found)"

lemma mentions_ok_snoc:
  "mentions_ok str names found \<Longrightarrow> mention_ok str names m \<Longrightarrow> mn_peerId m \<notin> mn_peerId ` set found \<Longrightarrow> mentions_ok str names (found @ [m])"
  by (simp add: mentions_ok_def)

lemma mentionLoop_ok:
  assumes "mentions_ok str names found" "(p, name) \<in> names"
  shows "mentions_ok str names (mentionLoop str p name idx found)"
  using assms
proof (induction str p name idx found rule: mentionLoop.induct)
  case (1 str p name idx found)
  show ?case
  proof (cases "idx < length str \<and> js_indexOf str (CHR ''@'' # name) idx \<noteq> None")
    case True
    then obtain k where k: "js_indexOf str (CHR ''@'' # name) idx = Some k" by auto
    let ?m = "\<lparr>mn_peerId = p, mn_name = name, mn_index = k\<rparr>"
    let ?found = "if mentionBoundaryOk str k (length (CHR ''@'' # name)) \<and> p \<notin> mn_peerId ` set found then found @ [?m] else found"
    have "mentions_ok str names ?found"
      using mentions_ok_snoc [OF "1.prems"(1), of ?m] js_indexOf_Some [OF k] "1.prems" by (simp add: mention_ok_def)
    then have "mentions_ok str names (mentionLoop str p name (k + length (CHR ''@'' # name)) ?found)"
      by (rule "1.IH" [OF conjunct1 [OF True] k _ "1.prems"(2)])
    then show ?thesis using k True by (subst mentionLoop.simps) simp
  next
    case False
    then show ?thesis using "1.prems" by (subst mentionLoop.simps) auto
  qed
qed

lemma mentionLoops_ok:
  assumes "mentions_ok str names found" "set ns \<subseteq> names"
  shows "mentions_ok str names (fold (\<lambda>(p, name) found. mentionLoop str p name 0 found) ns found)"
  using assms by (induction ns arbitrary: found) (auto intro: mentionLoop_ok)

text \<open>
  Mentions are real: every mention \<open>parseMentions\<close> reports names a member with an id and stands in the text as
  \<open>@name\<close> between the boundaries of a word, and no member is reported twice.
\<close>

theorem mentions_sound:
  "mentions_ok (js_String (js_orv text (Str []))) (set (mention_names members)) (parseMentions text members)"
  unfolding parseMentions_def by (rule mentionLoops_ok) (simp_all add: mentions_ok_def)

lemma mentions_sample:
  "map mn_index (parseMentions (Str ''hi @bob!'') (Arr [Obj [(''peerId'', Str ''b''), (''name'', Str ''bob'')]])) = [3]"
  by (simp add: parseMentions_def mention_names_def mentionLoop.simps js_indexOf_def js_startsWith_def mentionBoundaryOk_def
      space_or_open_def end_mark_def js_space_def js_trim_def js_orv_def)

end
