(* ===== verification/JSON_Text.thy ===== *)
theory JSON_Text
  imports JS_Values
begin

text \<open>
  What the program uses of \<open>JSON.stringify\<close>, \<open>JSON.parse\<close>, \<open>TextEncoder\<close> and \<open>TextDecoder\<close>: the texts a
  value is sent as, and the values read back from the bytes a peer sent. Strings are those of \<open>JS_Values\<close>, so texts
  with characters beyond Latin-1 are outside the model: the decoder has no value for them, as for invalid bytes.

  The main result, \<open>json_roundtrip\<close>, is that a plain value (no \<open>undefined\<close>, function, byte array or fraction)
  reads back from the bytes it is printed as.
\<close>

section \<open>UTF-8\<close>

definition char_code :: "char \<Rightarrow> nat" where
  "char_code c = of_char c"

definition utf8_char :: "char \<Rightarrow> bytes" where
  "utf8_char c = (let n = char_code c in if n < 128 then [of_nat n] else [of_nat (192 + n div 64), of_nat (128 + n mod 64)])"

definition utf8 :: "string \<Rightarrow> bytes" where
  "utf8 text = concat (map utf8_char text)"

fun utf8_decode :: "bytes \<Rightarrow> string option" where
  "utf8_decode [] = Some []"
| "utf8_decode (b # bs) =
     (if unat b < 128 then map_option ((#) (char_of (unat b))) (utf8_decode bs)
      else case bs of
          [] \<Rightarrow> None
        | c # cs \<Rightarrow>
            if 194 \<le> unat b \<and> unat b \<le> 195 \<and> 128 \<le> unat c \<and> unat c < 192
            then map_option ((#) (char_of ((unat b - 192) * 64 + (unat c - 128)))) (utf8_decode cs)
            else None)"

text \<open>\<open>TextDecoder\<close> with \<open>fatal: true\<close>; it drops a leading byte order mark.\<close>

definition utf8Decode :: "bytes \<Rightarrow> string option" where
  "utf8Decode bs = utf8_decode (if take 3 bs = [239, 187, 191] then drop 3 bs else bs)"

lemma char_code_less: "char_code c < 256"
  by (simp add: char_code_def)

lemma char_of_code [simp]: "char_of (char_code c) = c"
  by (simp add: char_code_def)

lemma utf8_two_bytes:
  assumes "128 \<le> n" "n < 256"
  shows "unat (of_nat (192 + n div 64) :: byte) = 192 + n div 64" "unat (of_nat (128 + n mod 64) :: byte) = 128 + n mod 64"
    "2 \<le> n div 64" "n div 64 \<le> 3"
proof -
  show q: "2 \<le> n div 64" "n div 64 \<le> 3" using assms by simp_all
  show "unat (of_nat (192 + n div 64) :: byte) = 192 + n div 64" "unat (of_nat (128 + n mod 64) :: byte) = 128 + n mod 64"
    using q by (simp_all only: unat_of_nat) simp_all
qed

lemma utf8_decode_char: "utf8_decode (utf8_char c @ bs) = map_option ((#) c) (utf8_decode bs)"
proof (cases "char_code c < 128")
  case True
  then have "unat (of_nat (char_code c) :: byte) = char_code c" by (simp add: unat_of_nat)
  then show ?thesis using True by (simp add: utf8_char_def)
next
  case False
  define n where "n = char_code c"
  have "128 \<le> n" "n < 256" using False char_code_less [of c] by (simp_all add: n_def)
  note u = utf8_two_bytes [OF this]
  have "n div 64 * 64 + n mod 64 = n" by simp
  then have "utf8_decode (utf8_char c @ bs) = map_option ((#) (char_of n)) (utf8_decode bs)"
    using False u by (simp add: utf8_char_def n_def [symmetric] Let_def)
  then show ?thesis by (simp add: n_def)
qed

lemma utf8_decode_utf8: "utf8_decode (utf8 s) = Some s"
  by (induction s) (simp_all add: utf8_def utf8_decode_char)

lemma utf8_char_no_bom: "hd (utf8_char c) \<noteq> 239" "utf8_char c \<noteq> []"
proof -
  have "unat (hd (utf8_char c)) < 196"
  proof (cases "char_code c < 128")
    case True
    then show ?thesis by (simp add: utf8_char_def unat_of_nat)
  next
    case False
    then show ?thesis using utf8_two_bytes [of "char_code c"] char_code_less [of c] by (simp add: utf8_char_def Let_def del: of_nat_add)
  qed
  then show "hd (utf8_char c) \<noteq> 239" by auto
qed (simp add: utf8_char_def Let_def)

lemma utf8Decode_utf8 [simp]: "utf8Decode (utf8 s) = Some s"
proof -
  have "take 3 (utf8 s) \<noteq> [239, 187, 191]"
  proof (cases s)
    case (Cons c t)
    then have "hd (utf8 s) \<noteq> 239" using utf8_char_no_bom [of c] by (simp add: utf8_def)
    then show ?thesis by (cases "utf8 s") auto
  qed (simp add: utf8_def)
  then show ?thesis by (simp add: utf8Decode_def utf8_decode_utf8)
qed

lemma utf8_inj: "utf8 s = utf8 t \<Longrightarrow> s = t"
  by (metis utf8_decode_utf8 option.inject)

section \<open>\<open>JSON.stringify\<close>\<close>

definition hex_digit :: "nat \<Rightarrow> char" where
  "hex_digit n = char_of (if n < 10 then 48 + n else 87 + n)"

definition quote_char :: "char \<Rightarrow> string" where
  "quote_char c =
     (let n = char_code c
      in if n = 34 then [CHR 0x5C, CHR 0x22] else if n = 92 then [CHR 0x5C, CHR 0x5C]
         else if n = 8 then [CHR 0x5C, CHR ''b''] else if n = 12 then [CHR 0x5C, CHR ''f'']
         else if n = 10 then [CHR 0x5C, CHR ''n''] else if n = 13 then [CHR 0x5C, CHR ''r'']
         else if n = 9 then [CHR 0x5C, CHR ''t'']
         else if n < 32 then [CHR 0x5C, CHR ''u'', CHR ''0'', CHR ''0'', hex_digit (n div 16), hex_digit (n mod 16)]
         else [c])"

definition quote :: "string \<Rightarrow> string" where
  "quote s = CHR 0x22 # concat (map quote_char s) @ [CHR 0x22]"

text \<open>Values without a text (\<open>undefined\<close>, functions): left out of objects, \<open>null\<close> in arrays.\<close>

definition unprintable :: "jsv \<Rightarrow> bool" where
  "unprintable v = (case v of Undef \<Rightarrow> True | Fn _ \<Rightarrow> True | _ \<Rightarrow> False)"

fun json :: "jsv \<Rightarrow> string" where
  "json Undef = ''null''"
| "json Null = ''null''"
| "json (Bool b) = (if b then ''true'' else ''false'')"
| "json (Num n) = (case n of Fin _ \<Rightarrow> js_number_string n | _ \<Rightarrow> ''null'')"
| "json (Str s) = quote s"
| "json (Bytes bs) = ''{'' @ join '','' (map (\<lambda>(i, b). quote (nat_digits i) @ '':'' @ nat_digits (unat b)) (zip [0..<length bs] bs)) @ ''}''"
| "json (Fn f) = ''null''"
| "json (Arr xs) = ''['' @ join '','' (map json xs) @ '']''"
| "json (Obj fs) = ''{'' @ join '','' (map (\<lambda>(k, v). quote k @ '':'' @ json v) (filter (\<lambda>(k, v). \<not> unprintable v) fs)) @ ''}''"

section \<open>\<open>JSON.parse\<close>\<close>

definition json_ws :: "char \<Rightarrow> bool" where
  "json_ws c \<longleftrightarrow> char_code c \<in> {9, 10, 13, 32}"

definition skip_ws :: "string \<Rightarrow> string" where
  "skip_ws s = dropWhile json_ws s"

definition unescape :: "char \<Rightarrow> char option" where
  "unescape d =
     (if d = CHR 0x22 \<or> d = CHR 0x5C \<or> d = CHR ''/'' then Some d
      else if d = CHR ''b'' then Some (CHR 0x08) else if d = CHR ''f'' then Some (CHR 0x0C)
      else if d = CHR ''n'' then Some (CHR 0x0A) else if d = CHR ''r'' then Some (CHR 0x0D)
      else if d = CHR ''t'' then Some (CHR 0x09) else None)"

text \<open>A character escaped as four hexadecimal digits.\<close>

definition unescape_hex :: "string \<Rightarrow> char option" where
  "unescape_hex h =
     (if length h = 4 \<and> list_all (\<lambda>c. digit_value c < 16) h \<and> number_of_digits 16 h < 256
      then Some (char_of (number_of_digits 16 h)) else None)"

fun parse_str :: "string \<Rightarrow> (string \<times> string) option" where
  "parse_str [] = None"
| "parse_str (c # s) =
     (if c = CHR 0x22 then Some ([], s)
      else if c = CHR 0x5C then
        (case s of
           [] \<Rightarrow> None
         | d # t \<Rightarrow>
             if d = CHR ''u'' then
               (case unescape_hex (take 4 t) of None \<Rightarrow> None
                | Some x \<Rightarrow> map_option (\<lambda>(y, r). (x # y, r)) (parse_str (drop 4 t)))
             else
               (case unescape d of None \<Rightarrow> None
                | Some x \<Rightarrow> map_option (\<lambda>(y, r). (x # y, r)) (parse_str t)))
      else if char_code c < 32 then None
      else map_option (\<lambda>(y, r). (c # y, r)) (parse_str s))"

text \<open>The sign, the digits before and after the point, and the exponent of a number.\<close>

definition parse_fraction :: "string \<Rightarrow> (string \<times> string) option" where
  "parse_fraction s = (case s of [] \<Rightarrow> Some ([], [])
     | c # t \<Rightarrow> if c = CHR ''.'' then
           (if takeWhile is_digit t = [] then None else Some (takeWhile is_digit t, dropWhile is_digit t))
         else Some ([], s))"

definition parse_power :: "string \<Rightarrow> (int \<times> string) option" where
  "parse_power s = (case s of [] \<Rightarrow> Some (0, [])
     | c # t \<Rightarrow> if c = CHR ''e'' \<or> c = CHR ''E'' then
           (let sign = takeWhile (\<lambda>d. d = CHR ''+'' \<or> d = CHR ''-'') (take 1 t); u = drop (length sign) t
            in case parse_exponent (sign @ takeWhile is_digit u) of None \<Rightarrow> None
               | Some e \<Rightarrow> Some (e, dropWhile is_digit u))
         else Some (0, s))"

definition parse_number :: "string \<Rightarrow> (jsv \<times> string) option" where
  "parse_number s =
     (let neg = (s \<noteq> [] \<and> hd s = CHR ''-''); t = (if neg then tl s else s); ip = takeWhile is_digit t
      in if ip = [] \<or> (hd ip = CHR ''0'' \<and> length ip > 1) then None
         else case parse_fraction (dropWhile is_digit t) of
           None \<Rightarrow> None
         | Some (fp, r) \<Rightarrow>
             (case parse_power r of
                None \<Rightarrow> None
              | Some (e, r') \<Rightarrow>
                  let m = scale10 (of_nat (number_of_digits 10 (ip @ fp)) / 10 ^ length fp) e
                  in Some (Num (js_round (if neg then - m else m)), r')))"

definition parse_word :: "string \<Rightarrow> jsv \<Rightarrow> string \<Rightarrow> (jsv \<times> string) option" where
  "parse_word w v s = (if js_startsWith s w then Some (v, drop (length w) s) else None)"

text \<open>
  The recursive descent. The fuel bounds the depth of the calls; \<open>parse_fuel\<close> below shows that one more than the number
  of characters read is always enough.
\<close>

fun parse_value :: "nat \<Rightarrow> string \<Rightarrow> (jsv \<times> string) option"
  and parse_elements :: "nat \<Rightarrow> string \<Rightarrow> (jsv list \<times> string) option"
  and parse_members :: "nat \<Rightarrow> string \<Rightarrow> ((string \<times> jsv) list \<times> string) option" where
  "parse_value 0 s = None"
| "parse_value (Suc n) s =
     (case skip_ws s of
        [] \<Rightarrow> None
      | c # t \<Rightarrow>
          if c = CHR ''{'' then
            (if take 1 (skip_ws t) = ''}'' then Some (Obj [], drop 1 (skip_ws t))
             else map_option (\<lambda>(fs, r). (Obj (set_fields [] fs), r)) (parse_members n t))
          else if c = CHR ''['' then
            (if take 1 (skip_ws t) = '']'' then Some (Arr [], drop 1 (skip_ws t))
             else map_option (\<lambda>(xs, r). (Arr xs, r)) (parse_elements n t))
          else if c = CHR 0x22 then map_option (\<lambda>(x, r). (Str x, r)) (parse_str t)
          else if c = CHR ''t'' then parse_word ''true'' (Bool True) (c # t)
          else if c = CHR ''f'' then parse_word ''false'' (Bool False) (c # t)
          else if c = CHR ''n'' then parse_word ''null'' Null (c # t)
          else parse_number (c # t))"
| "parse_elements 0 s = None"
| "parse_elements (Suc n) s =
     (case parse_value n s of
        None \<Rightarrow> None
      | Some (v, r) \<Rightarrow>
          (case skip_ws r of
             [] \<Rightarrow> None
           | c # u \<Rightarrow>
               if c = CHR '','' then map_option (\<lambda>(vs, r'). (v # vs, r')) (parse_elements n u)
               else if c = CHR '']'' then Some ([v], u)
               else None))"
| "parse_members 0 s = None"
| "parse_members (Suc n) s =
     (case skip_ws s of
        [] \<Rightarrow> None
      | q # t \<Rightarrow>
          if q \<noteq> CHR 0x22 then None
          else (case parse_str t of
             None \<Rightarrow> None
           | Some (k, r) \<Rightarrow>
               (case skip_ws r of
                  [] \<Rightarrow> None
                | c # u \<Rightarrow>
                    if c \<noteq> CHR '':'' then None
                    else (case parse_value n u of
                       None \<Rightarrow> None
                     | Some (v, r2) \<Rightarrow>
                         (case skip_ws r2 of
                            [] \<Rightarrow> None
                          | d # w \<Rightarrow>
                              if d = CHR '','' then map_option (\<lambda>(fs, r'). ((k, v) # fs, r')) (parse_members n w)
                              else if d = CHR ''}'' then Some ([(k, v)], w)
                              else None)))))"

definition JSON_parse :: "string \<Rightarrow> jsv option" where
  "JSON_parse s = (case parse_value (length s + 1) s of
     None \<Rightarrow> None | Some (v, r) \<Rightarrow> if skip_ws r = [] then Some v else None)"

text \<open>\<open>JSON.parse(utf8Decode(bytes))\<close> and \<open>utf8(JSON.stringify(value))\<close>.\<close>

definition parse_json :: "bytes \<Rightarrow> jsv option" where
  "parse_json bs = (case utf8Decode bs of None \<Rightarrow> None | Some s \<Rightarrow> JSON_parse s)"

definition json_bytes :: "jsv \<Rightarrow> bytes" where
  "json_bytes v = utf8 (json v)"

section \<open>The fuel is enough\<close>

lemma skip_ws_le: "length (skip_ws s) \<le> length s"
  by (simp add: skip_ws_def length_dropWhile_le)

lemma skip_ws_Cons: "skip_ws s = c # t \<Longrightarrow> length t < length s"
  using skip_ws_le [of s] by simp

lemma parse_str_step:
  assumes "parse_str (c # s) = Some (x, r)"
  shows "r = s \<or> (\<exists>u y. length u \<le> length s \<and> parse_str u = Some (y, r))"
proof (cases "c = CHR 0x5C")
  case True
  then obtain d t where s: "s = d # t" using assms by (cases s) simp_all
  have "\<exists>y. parse_str (drop 4 t) = Some (y, r) \<or> parse_str t = Some (y, r)"
    using assms True s by (auto split: if_splits option.splits)
  moreover have "length (drop 4 t) \<le> length s" "length t \<le> length s" by (simp_all add: s)
  ultimately show ?thesis by blast
next
  case False
  then show ?thesis using assms by (auto split: if_splits)
qed

lemma parse_str_shorter: "parse_str s = Some (x, r) \<Longrightarrow> length r < length s"
proof (induction "length s" arbitrary: s x rule: less_induct)
  case less
  obtain c t where s: "s = c # t" using less.prems by (cases s) simp_all
  from parse_str_step [OF less.prems [unfolded s]] show ?case
  proof (elim disjE exE conjE)
    fix u y assume "length u \<le> length t" "parse_str u = Some (y, r)"
    then have "length r < length u" using less.hyps [of u y] by (simp add: s)
    then show ?thesis using \<open>length u \<le> length t\<close> by (simp add: s)
  qed (simp add: s)
qed

lemma parse_word_shorter: "parse_word w v s = Some (x, r) \<Longrightarrow> w \<noteq> [] \<Longrightarrow> length r < length s"
  by (cases s) (auto simp: parse_word_def js_startsWith_def split: if_splits)

lemma parse_fraction_le: "parse_fraction s = Some (f, r) \<Longrightarrow> length r \<le> length s"
  by (auto simp: parse_fraction_def length_dropWhile_le le_SucI split: list.splits if_splits)

lemma parse_power_le: "parse_power s = Some (e, r) \<Longrightarrow> length r \<le> length s"
proof (cases s)
  case (Cons c t)
  assume "parse_power s = Some (e, r)"
  then have "r = s \<or> (\<exists>k. r = dropWhile is_digit (drop k t))"
    using Cons by (auto simp: parse_power_def Let_def split: if_splits option.splits)
  then show ?thesis using Cons length_dropWhile_le [of is_digit] le_trans [OF length_dropWhile_le [of is_digit]]
    by (auto simp: le_SucI)
qed (simp add: parse_power_def)

lemma parse_number_shorter: "parse_number s = Some (v, r) \<Longrightarrow> length r < length s"
proof -
  assume a: "parse_number s = Some (v, r)"
  define t where "t = (if s \<noteq> [] \<and> hd s = CHR ''-'' then tl s else s)"
  from a obtain f r1 e where ip: "takeWhile is_digit t \<noteq> []" and "parse_fraction (dropWhile is_digit t) = Some (f, r1)" "parse_power r1 = Some (e, r)"
    by (auto simp: parse_number_def Let_def t_def split: if_splits option.splits)
  then have "length r \<le> length (dropWhile is_digit t)" using parse_fraction_le parse_power_le le_trans by blast
  moreover have "length (takeWhile is_digit t) + length (dropWhile is_digit t) = length t"
    by (metis length_append takeWhile_dropWhile_id)
  moreover have "length t \<le> length s" by (simp add: t_def)
  moreover have "0 < length (takeWhile is_digit t)" using ip by simp
  ultimately show "length r < length s" by linarith
qed

text \<open>
  What some amount of fuel reads is read with any amount above the number of characters consumed, so that \<open>JSON_parse\<close>
  never fails for lack of fuel.
\<close>

definition stable_parse :: "(nat \<Rightarrow> string \<Rightarrow> ('a \<times> string) option) \<Rightarrow> string \<Rightarrow> 'a \<times> string \<Rightarrow> bool" where
  "stable_parse p s x \<longleftrightarrow> length (snd x) < length s \<and> (\<forall>n > length s - length (snd x). p n s = Some x)"

lemma stable_parseI:
  assumes "length (snd x) < length s" "\<And>m. length s - length (snd x) \<le> m \<Longrightarrow> p (Suc m) s = Some x"
  shows "stable_parse p s x"
  unfolding stable_parse_def using assms by (metis less_eq_Suc_le less_imp_Suc_add Suc_leD Suc_le_lessD not0_implies_Suc not_less0 less_Suc_eq_le)

lemma stable_parseD: "stable_parse p s x \<Longrightarrow> length s - length (snd x) < n \<Longrightarrow> p n s = Some x"
  by (simp add: stable_parse_def)

lemma stable_parse_less: "stable_parse p s x \<Longrightarrow> length (snd x) < length s"
  by (simp add: stable_parse_def)

lemma parse_value_stable:
  assumes "parse_value (Suc n) s = Some (v, r)"
    and elems: "\<And>t xs r. parse_elements n t = Some (xs, r) \<Longrightarrow> stable_parse parse_elements t (xs, r)"
    and membs: "\<And>t fs r. parse_members n t = Some (fs, r) \<Longrightarrow> stable_parse parse_members t (fs, r)"
  shows "stable_parse parse_value s (v, r)"
proof -
  obtain c t where ct: "skip_ws s = c # t" using assms(1) by (auto split: list.splits)
  note less = skip_ws_Cons [OF ct]
  have sub: "length u \<le> length t" if "u = drop 1 (skip_ws t)" for u using that skip_ws_le [of t] by simp
  consider (obj) fs where "c = CHR ''{''" "take 1 (skip_ws t) \<noteq> ''}''" "parse_members n t = Some (fs, r)" "v = Obj (set_fields [] fs)"
    | (arr) xs where "c = CHR ''[''" "take 1 (skip_ws t) \<noteq> '']''" "parse_elements n t = Some (xs, r)" "v = Arr xs"
    | (flat) "length r < length s" "\<forall>m. parse_value (Suc m) s = parse_value (Suc n) s"
    using assms(1) ct less sub [OF refl]
    by (auto split: if_splits dest: parse_str_shorter parse_word_shorter parse_number_shorter)
  then show ?thesis
  proof cases
    case obj
    note st = membs [OF obj(3)]
    show ?thesis
    proof (rule stable_parseI)
      show "length (snd (v, r)) < length s" using stable_parse_less [OF st] less by simp
      show "parse_value (Suc m) s = Some (v, r)" if "length s - length (snd (v, r)) \<le> m" for m
        using stable_parseD [OF st, of m] stable_parse_less [OF st] that less obj ct by simp
    qed
  next
    case arr
    note st = elems [OF arr(3)]
    show ?thesis
    proof (rule stable_parseI)
      show "length (snd (v, r)) < length s" using stable_parse_less [OF st] less by simp
      show "parse_value (Suc m) s = Some (v, r)" if "length s - length (snd (v, r)) \<le> m" for m
        using stable_parseD [OF st, of m] stable_parse_less [OF st] that less arr ct by simp
    qed
  next
    case flat
    then show ?thesis using assms(1) by (intro stable_parseI) (simp_all del: parse_value.simps)
  qed
qed

lemma parse_elements_stable:
  assumes "parse_elements (Suc n) s = Some (vs, r)"
    and vals: "\<And>t v r. parse_value n t = Some (v, r) \<Longrightarrow> stable_parse parse_value t (v, r)"
    and elems: "\<And>t xs r. parse_elements n t = Some (xs, r) \<Longrightarrow> stable_parse parse_elements t (xs, r)"
  shows "stable_parse parse_elements s (vs, r)"
proof -
  obtain v r1 c u where v: "parse_value n s = Some (v, r1)" and cu: "skip_ws r1 = c # u"
    using assms(1) by (auto split: option.splits list.splits)
  note st = vals [OF v] and less = skip_ws_Cons [OF cu]
  consider (more) ws where "c = CHR '',''" "parse_elements n u = Some (ws, r)" "vs = v # ws"
    | (one) "c \<noteq> CHR '',''" "c = CHR '']''" "vs = [v]" "r = u"
    using assms(1) v cu by (auto split: if_splits)
  then show ?thesis
  proof cases
    case more
    note st2 = elems [OF more(2)]
    have le: "length r < length u" "length r1 < length s" using stable_parse_less [OF st2] stable_parse_less [OF st] by simp_all
    show ?thesis
    proof (rule stable_parseI)
      show "length (snd (vs, r)) < length s" using le less by simp
      show "parse_elements (Suc m) s = Some (vs, r)" if "length s - length (snd (vs, r)) \<le> m" for m
        using stable_parseD [OF st, of m] stable_parseD [OF st2, of m] le less that more cu by simp
    qed
  next
    case one
    have le: "length r1 < length s" using stable_parse_less [OF st] by simp
    show ?thesis
    proof (rule stable_parseI)
      show "length (snd (vs, r)) < length s" using le less one by simp
      show "parse_elements (Suc m) s = Some (vs, r)" if "length s - length (snd (vs, r)) \<le> m" for m
        using stable_parseD [OF st, of m] le less that one cu by simp
    qed
  qed
qed

lemma parse_members_stable:
  assumes "parse_members (Suc n) s = Some (fs, r)"
    and vals: "\<And>t v r. parse_value n t = Some (v, r) \<Longrightarrow> stable_parse parse_value t (v, r)"
    and membs: "\<And>t fs r. parse_members n t = Some (fs, r) \<Longrightarrow> stable_parse parse_members t (fs, r)"
  shows "stable_parse parse_members s (fs, r)"
proof -
  obtain t k r0 u v r1 d w where t: "skip_ws s = CHR 0x22 # t" and k: "parse_str t = Some (k, r0)" and u: "skip_ws r0 = CHR '':'' # u"
    and v: "parse_value n u = Some (v, r1)" and dw: "skip_ws r1 = d # w"
    using assms(1) by (auto split: option.splits list.splits if_splits)
  note st = vals [OF v]
  have less: "length t < length s" "length r0 < length t" "length u < length r0" "length r1 < length u" "length w < length r1"
    using skip_ws_Cons [OF t] skip_ws_Cons [OF u] skip_ws_Cons [OF dw] parse_str_shorter [OF k] stable_parse_less [OF st] by simp_all
  consider (more) gs where "d = CHR '',''" "parse_members n w = Some (gs, r)" "fs = (k, v) # gs"
    | (one) "d \<noteq> CHR '',''" "d = CHR ''}''" "fs = [(k, v)]" "r = w"
    using assms(1) t k u v dw by (auto split: if_splits)
  then show ?thesis
  proof cases
    case more
    note st2 = membs [OF more(2)]
    have le: "length r < length w" using stable_parse_less [OF st2] by simp
    show ?thesis
    proof (rule stable_parseI)
      show "length (snd (fs, r)) < length s" using le less by simp
      show "parse_members (Suc m) s = Some (fs, r)" if "length s - length (snd (fs, r)) \<le> m" for m
        using stable_parseD [OF st, of m] stable_parseD [OF st2, of m] le less that more t k u dw by simp
    qed
  next
    case one
    show ?thesis
    proof (rule stable_parseI)
      show "length (snd (fs, r)) < length s" using less one by simp
      show "parse_members (Suc m) s = Some (fs, r)" if "length s - length (snd (fs, r)) \<le> m" for m
        using stable_parseD [OF st, of m] less that one t k u dw by simp
    qed
  qed
qed

lemma parse_stable:
  "(\<forall>s v r. parse_value n s = Some (v, r) \<longrightarrow> stable_parse parse_value s (v, r)) \<and>
   (\<forall>s xs r. parse_elements n s = Some (xs, r) \<longrightarrow> stable_parse parse_elements s (xs, r)) \<and>
   (\<forall>s fs r. parse_members n s = Some (fs, r) \<longrightarrow> stable_parse parse_members s (fs, r))"
proof (induction n)
  case (Suc n)
  then show ?case
    using parse_value_stable [of n] parse_elements_stable [of n] parse_members_stable [of n] by (auto simp del: parse_value.simps parse_elements.simps parse_members.simps)
qed simp

lemma parse_fuel: "parse_value n s = Some (v, r) \<Longrightarrow> parse_value (length s + 1) s = Some (v, r)"
  using parse_stable [of n] stable_parseD [of parse_value s "(v, r)" "length s + 1"] by (auto simp del: parse_value.simps)

section \<open>Reading back what was printed\<close>

definition delimiter :: "string \<Rightarrow> bool" where
  "delimiter s \<longleftrightarrow> s = [] \<or> hd s \<in> {CHR '','', CHR '']'', CHR ''}''}"

fun json_plain :: "jsv \<Rightarrow> bool" where
  "json_plain Null = True"
| "json_plain (Bool b) = True"
| "json_plain (Num n) = (case n of Fin r \<Rightarrow> r = of_int \<lfloor>r\<rfloor> \<and> \<bar>r\<bar> \<le> 2 ^ 53 | _ \<Rightarrow> False)"
| "json_plain (Str s) = True"
| "json_plain (Arr xs) = list_all json_plain xs"
| "json_plain (Obj fs) = (distinct (map fst fs) \<and> list_all (\<lambda>(k, v). json_plain v) fs)"
| "json_plain _ = False"

lemma hex_digit_value: "n < 16 \<Longrightarrow> digit_value (hex_digit n) = n"
  by (auto simp: digit_value_def hex_digit_def Let_def)

lemma char_of_literals:
  "char_of (8 :: nat) = CHR 0x08" "char_of (9 :: nat) = CHR 0x09" "char_of (10 :: nat) = CHR 0x0A" "char_of (12 :: nat) = CHR 0x0C"
  "char_of (13 :: nat) = CHR 0x0D" "char_of (34 :: nat) = CHR 0x22" "char_of (92 :: nat) = CHR 0x5C" "char_of (48 :: nat) = CHR ''0''"
  by (simp_all add: char_of_eq_iff)

lemma parse_quoted_char: "parse_str (quote_char c @ s) = map_option (\<lambda>(y, r). (c # y, r)) (parse_str s)"
proof -
  define n where "n = char_code c"
  have c: "c = char_of n" by (simp add: n_def)
  show ?thesis
  proof (cases "n < 32 \<and> n \<notin> {8, 9, 10, 12, 13}")
    case True
    have "n div 16 < 16" "n < 256" using True by auto
    moreover have "digit_value (hex_digit (n mod 16)) = n mod 16" by (simp add: hex_digit_value)
    ultimately have "unescape_hex [CHR ''0'', CHR ''0'', hex_digit (n div 16), hex_digit (n mod 16)] = Some c"
      using hex_digit_value [of "n div 16"]
      by (simp add: unescape_hex_def number_of_digits_def digit_value_def [of "CHR ''0''"] c)
    moreover have "quote_char c = [CHR 0x5C, CHR ''u'', CHR ''0'', CHR ''0'', hex_digit (n div 16), hex_digit (n mod 16)]"
      using True by (auto simp: quote_char_def n_def [symmetric])
    ultimately show ?thesis by simp
  next
    case False
    then consider "n = 8" | "n = 9" | "n = 10" | "n = 12" | "n = 13" | "n = 34" | "n = 92" | "32 \<le> n" "n \<noteq> 34" "n \<noteq> 92" by force
    then show ?thesis
    proof cases
      case 8
      then have "c \<noteq> CHR 0x22" "c \<noteq> CHR 0x5C" by (auto simp: n_def char_code_def)
      then show ?thesis using 8 by (simp add: quote_char_def n_def [symmetric])
    qed (simp_all add: c char_of_literals quote_char_def unescape_def char_code_def)
  qed
qed

lemma parse_quoted: "parse_str (concat (map quote_char s) @ CHR 0x22 # r) = Some (s, r)"
  by (induction s) (simp_all add: parse_quoted_char)

lemma is_digit_char_of: "n < 10 \<Longrightarrow> is_digit (char_of (48 + n)) \<and> digit_value (char_of (48 + n)) = n"
  by (simp add: is_digit_def digit_value_def)

lemma nat_digits_facts:
  "list_all is_digit (nat_digits n) \<and> nat_digits n \<noteq> [] \<and> number_of_digits 10 (nat_digits n) = n \<and>
   (hd (nat_digits n) = CHR ''0'' \<longrightarrow> n = 0) \<and> (n = 0 \<longrightarrow> nat_digits n = ''0'')"
proof (induction n rule: nat_digits.induct)
  case (1 n)
  show ?case
  proof (cases "n < 10")
    case True
    have "char_of (48 + n) = CHR ''0'' \<longrightarrow> n = 0"
    proof
      assume "char_of (48 + n) = CHR ''0''"
      then have "digit_value (char_of (48 + n)) = digit_value (CHR ''0'')" by simp
      then show "n = 0" using is_digit_char_of [OF True] by (simp add: digit_value_def)
    qed
    moreover have "nat_digits n = [char_of (48 + n)]" using True by (subst nat_digits.simps) simp
    ultimately show ?thesis using is_digit_char_of [OF True] by (auto simp: number_of_digits_def char_of_literals)
  next
    case False
    have "nat_digits n = nat_digits (n div 10) @ [char_of (48 + n mod 10)]" using False by (subst nat_digits.simps) simp
    then show ?thesis using 1 [OF False] is_digit_char_of [of "n mod 10"] False by (auto simp: number_of_digits_def)
  qed
qed

lemma takeWhile_digits:
  assumes "list_all is_digit ds" "delimiter rest"
  shows "takeWhile is_digit (ds @ rest) = ds" "dropWhile is_digit (ds @ rest) = rest"
proof -
  have "\<not> is_digit (CHR '','')" "\<not> is_digit (CHR '']'')" "\<not> is_digit (CHR ''}'')" by (simp_all add: is_digit_def)
  then have "takeWhile is_digit rest = []" "dropWhile is_digit rest = rest" using assms(2) by (cases rest; auto simp: delimiter_def)+
  moreover have "\<forall>x \<in> set ds. is_digit x" using assms(1) by (simp add: list_all_iff)
  ultimately show "takeWhile is_digit (ds @ rest) = ds" "dropWhile is_digit (ds @ rest) = rest"
    by (simp_all add: takeWhile_append2 dropWhile_append2)
qed

lemma js_round_safe: "\<bar>r\<bar> \<le> 2 ^ 53 \<Longrightarrow> js_round r = Fin r"
proof -
  assume "\<bar>r\<bar> \<le> 2 ^ 53"
  moreover define b where "b = (2 :: rat) ^ 1024 - 2 ^ 970"
  moreover have "(2 :: rat) ^ 53 < b" by (simp add: b_def)
  ultimately have "\<not> b \<le> r" "\<not> r \<le> - b" by linarith+
  then show ?thesis by (simp only: js_round_def b_def if_False)
qed

lemma parse_number_string:
  assumes "\<bar>k\<bar> \<le> 2 ^ 53" "delimiter rest"
  shows "parse_number (js_number_string (Fin (of_int k)) @ rest) = Some (Num (Fin (of_int k)), rest)"
proof -
  define n where "n = nat \<bar>k\<bar>"
  let ?ds = "nat_digits n"
  have str: "js_number_string (Fin (of_int k)) = (if k < 0 then ''-'' else []) @ ?ds"
    by (simp add: js_number_string_def n_def of_int_abs [symmetric] del: of_int_abs)
  note ds = nat_digits_facts [of n]
  have dig: "is_digit (hd ?ds)" using ds by (cases ?ds) auto
  then have minus: "hd (?ds @ rest) \<noteq> CHR ''-''" using ds by (auto simp: is_digit_def)
  note tw = takeWhile_digits [OF _ assms(2), of ?ds]
  have frac: "parse_fraction rest = Some ([], rest)" "parse_power rest = Some (0, rest)"
    using assms(2) by (cases rest; auto simp: delimiter_def parse_fraction_def parse_power_def)+
  have one: "\<not> (hd ?ds = CHR ''0'' \<and> length ?ds > 1)" using ds by auto
  have "of_int \<bar>k\<bar> \<le> (of_int (2 ^ 53) :: rat)" using assms(1) by (simp only: of_int_le_iff)
  then have bound: "\<bar>of_int k :: rat\<bar> \<le> 2 ^ 53" by (simp only: of_int_abs of_int_power of_int_numeral)
  have val: "of_nat n = (if k < 0 then - of_int k else of_int k :: rat)" by (simp add: n_def)
  show ?thesis
  proof (cases "k < 0")
    case True
    then show ?thesis using str tw ds frac one val js_round_safe [OF bound]
      by (simp add: parse_number_def scale10_def Let_def)
  next
    case False
    then show ?thesis using str tw ds frac one val minus js_round_safe [OF bound]
      by (simp add: parse_number_def scale10_def Let_def)
  qed
qed

text \<open>The first character of a printed value selects the right branch of the parser.\<close>

lemma number_head:
  "\<exists>c t. js_number_string (Fin (of_int k)) = c # t \<and> (is_digit c \<or> c = CHR ''-'')"
proof -
  have "js_number_string (Fin (of_int k)) = (if k < 0 then ''-'' else []) @ nat_digits (nat \<bar>k\<bar>)"
    by (simp add: js_number_string_def of_int_abs [symmetric] del: of_int_abs)
  then show ?thesis using nat_digits_facts [of "nat \<bar>k\<bar>"] by (cases "nat_digits (nat \<bar>k\<bar>)") auto
qed

lemma digit_not_special:
  "is_digit c \<or> c = CHR ''-'' \<Longrightarrow> \<not> json_ws c \<and> c \<notin> {CHR ''{'', CHR ''['', CHR 0x22, CHR ''t'', CHR ''f'', CHR ''n'', CHR '']'', CHR ''}''}"
  by (auto simp: is_digit_def json_ws_def char_code_def)

lemma skip_ws_nonspace [simp]: "\<not> json_ws c \<Longrightarrow> skip_ws (c # s) = c # s"
  by (simp add: skip_ws_def)

lemma json_ws_literals [simp]:
  "\<not> json_ws (CHR ''{'')" "\<not> json_ws (CHR ''}'')" "\<not> json_ws (CHR ''['')" "\<not> json_ws (CHR '']'')" "\<not> json_ws (CHR 0x22)"
  "\<not> json_ws (CHR '','')" "\<not> json_ws (CHR '':'')" "\<not> json_ws (CHR ''t'')" "\<not> json_ws (CHR ''f'')" "\<not> json_ws (CHR ''n'')"
  by (simp_all add: json_ws_def char_code_def)

lemma json_head:
  "json_plain v \<Longrightarrow> \<exists>c t. json v = c # t \<and> \<not> json_ws c \<and> c \<noteq> CHR '']''"
proof (cases v)
  case (Num x)
  assume "json_plain v"
  then obtain r where r: "x = Fin r" "r = of_int \<lfloor>r\<rfloor>" using Num by (auto split: jsnum.splits)
  then have "json v = js_number_string (Fin (of_int \<lfloor>r\<rfloor>))" using Num by simp
  then show ?thesis using number_head [of "\<lfloor>r\<rfloor>"] digit_not_special by auto
qed (auto simp: quote_def)

lemma parse_json_number:
  assumes "json_plain (Num x)" "delimiter rest"
  shows "parse_value (Suc n) (json (Num x) @ rest) = Some (Num x, rest)"
proof -
  obtain r where r: "x = Fin r" "r = of_int \<lfloor>r\<rfloor>" "\<bar>r\<bar> \<le> 2 ^ 53" using assms(1) by (auto split: jsnum.splits)
  define k where "k = \<lfloor>r\<rfloor>"
  have x: "x = Fin (of_int k)" using r k_def by simp
  have "\<bar>k\<bar> \<le> 2 ^ 53"
  proof -
    have "of_int \<bar>k\<bar> \<le> (of_int (2 ^ 53) :: rat)" using r by (simp add: k_def)
    then show ?thesis by (simp only: of_int_le_iff)
  qed
  note num = parse_number_string [OF this assms(2)]
  obtain c t where c: "js_number_string (Fin (of_int k)) = c # t" "is_digit c \<or> c = CHR ''-''" using number_head by blast
  then show ?thesis using num digit_not_special [OF c(2)] by (auto simp: x)
qed

lemma join_Cons: "join sep (x # xs) = x @ (if xs = [] then [] else sep @ join sep xs)"
  by (cases xs) simp_all

lemma parse_elements_join:
  assumes "xs \<noteq> []" "\<And>v n rest. v \<in> set xs \<Longrightarrow> length (json v) < n \<Longrightarrow> delimiter rest \<Longrightarrow> parse_value n (json v @ rest) = Some (v, rest)"
    and "length (join '','' (map json xs)) + 1 < n"
  shows "parse_elements n (join '','' (map json xs) @ CHR '']'' # rest) = Some (xs, rest)"
  using assms
proof (induction xs arbitrary: n)
  case (Cons v vs)
  obtain m where n: "n = Suc m" using Cons.prems(3) by (cases n) auto
  show ?case
  proof (cases "vs = []")
    case True
    have "parse_value m (json v @ CHR '']'' # rest) = Some (v, CHR '']'' # rest)"
      using Cons.prems True n by (intro Cons.prems(2)) (simp_all add: delimiter_def)
    then show ?thesis using True n by simp
  next
    case False
    let ?tail = "join '','' (map json vs) @ CHR '']'' # rest"
    have "parse_value m (json v @ CHR '','' # ?tail) = Some (v, CHR '','' # ?tail)"
      using Cons.prems(3) False n by (intro Cons.prems(2)) (simp_all add: delimiter_def join_Cons)
    moreover have "parse_elements m ?tail = Some (vs, rest)"
      using Cons.prems(2,3) False n by (intro Cons.IH) (simp_all add: join_Cons)
    ultimately show ?thesis using False n by (simp add: join_Cons)
  qed
qed simp

lemma parse_members_join:
  assumes "fs \<noteq> []" "\<And>k v n rest. (k, v) \<in> set fs \<Longrightarrow> length (json v) < n \<Longrightarrow> delimiter rest \<Longrightarrow> parse_value n (json v @ rest) = Some (v, rest)"
    and "length (join '','' (map (\<lambda>(k, v). quote k @ '':'' @ json v) fs)) + 1 < n"
  shows "parse_members n (join '','' (map (\<lambda>(k, v). quote k @ '':'' @ json v) fs) @ CHR ''}'' # rest) = Some (fs, rest)"
  using assms
proof (induction fs arbitrary: n)
  case (Cons f gs)
  obtain k v where f: "f = (k, v)" by (cases f)
  obtain m where n: "n = Suc m" using Cons.prems(3) by (cases n) auto
  show ?case
  proof (cases "gs = []")
    case True
    have "parse_value m (json v @ CHR ''}'' # rest) = Some (v, CHR ''}'' # rest)"
      using Cons.prems True n f by (intro Cons.prems(2) [of k]) (simp_all add: delimiter_def)
    then show ?thesis using True n f by (simp add: quote_def parse_quoted)
  next
    case False
    let ?tail = "join '','' (map (\<lambda>(k, v). quote k @ '':'' @ json v) gs) @ CHR ''}'' # rest"
    have "parse_value m (json v @ CHR '','' # ?tail) = Some (v, CHR '','' # ?tail)"
      using Cons.prems(3) False n f by (intro Cons.prems(2) [of k]) (simp_all add: delimiter_def join_Cons)
    moreover have "parse_members m ?tail = Some (gs, rest)"
    proof (rule Cons.IH [OF False])
      show "parse_value i (json x @ r) = Some (x, r)" if "(j, x) \<in> set gs" "length (json x) < i" "delimiter r" for j x i r
        using that by (intro Cons.prems(2) [of j x i r]) simp_all
      show "length (join '','' (map (\<lambda>(k, v). quote k @ '':'' @ json v) gs)) + 1 < m"
        using Cons.prems(3) False n f by (simp add: join_Cons)
    qed
    ultimately show ?thesis using False n f by (simp add: join_Cons quote_def parse_quoted)
  qed
qed simp

lemma set_fields_distinct: "distinct (map fst fs) \<Longrightarrow> set_fields [] fs = fs"
proof (induction fs rule: rev_induct)
  case (snoc f fs)
  have "AList.update k v gs = gs @ [(k, v)]" if "k \<notin> fst ` set gs" for k v and gs :: "(string \<times> jsv) list"
    using that by (induction gs) auto
  then show ?case using snoc by (cases f) (auto simp: set_fields_def)
qed (simp add: set_fields_def)

lemma plain_printable: "json_plain v \<Longrightarrow> \<not> unprintable v"
  by (cases v) (simp_all add: unprintable_def)

lemma parse_json_value:
  "json_plain v \<Longrightarrow> length (json v) < n \<Longrightarrow> delimiter rest \<Longrightarrow> parse_value n (json v @ rest) = Some (v, rest)"
proof (induction v arbitrary: n rest)
  case (Num x)
  then show ?case using parse_json_number [of x rest "n - 1"] by (cases n) simp_all
next
  case (Bool b)
  then show ?case by (cases n) (simp_all add: parse_word_def js_startsWith_def)
next
  case Null
  then show ?case by (cases n) (simp_all add: parse_word_def js_startsWith_def)
next
  case (Str x)
  then show ?case by (cases n) (simp_all add: quote_def parse_quoted)
next
  case (Arr xs)
  obtain m where n: "n = Suc m" using Arr.prems(2) by (cases n) auto
  show ?case
  proof (cases "xs = []")
    case True
    then show ?thesis using n by simp
  next
    case False
    then obtain y ys where xs: "xs = y # ys" by (cases xs) auto
    have "json_plain y" using Arr.prems(1) xs by simp
    then obtain c t where "json y = c # t" "\<not> json_ws c" "c \<noteq> CHR '']''" using json_head by blast
    then have head: "take 1 (skip_ws (join '','' (map json xs) @ CHR '']'' # rest)) \<noteq> '']''" by (simp add: xs join_Cons)
    have "parse_elements m (join '','' (map json xs) @ CHR '']'' # rest) = Some (xs, rest)"
    proof (rule parse_elements_join [OF False])
      show "parse_value i (json v @ r) = Some (v, r)" if "v \<in> set xs" "length (json v) < i" "delimiter r" for v i r
        using that Arr.prems(1) by (intro Arr.IH) (auto simp: list_all_iff)
      show "length (join '','' (map json xs)) + 1 < m" using Arr.prems(2) n by simp
    qed
    then show ?thesis using n head by simp
  qed
next
  case (Obj fs)
  obtain m where n: "n = Suc m" using Obj.prems(2) by (cases n) auto
  have "filter (\<lambda>(k, v). \<not> unprintable v) fs = fs"
    using Obj.prems(1) plain_printable by (auto simp: list_all_iff intro!: filter_True)
  then have str: "json (Obj fs) = ''{'' @ join '','' (map (\<lambda>(k, v). quote k @ '':'' @ json v) fs) @ ''}''" by simp
  show ?case
  proof (cases "fs = []")
    case True
    then show ?thesis using n by simp
  next
    case False
    then obtain k v gs where fs: "fs = (k, v) # gs" by (cases fs) auto
    have head: "take 1 (skip_ws (join '','' (map (\<lambda>(k, v). quote k @ '':'' @ json v) fs) @ CHR ''}'' # rest)) \<noteq> ''}''"
      by (simp add: fs join_Cons quote_def)
    have "parse_members m (join '','' (map (\<lambda>(k, v). quote k @ '':'' @ json v) fs) @ CHR ''}'' # rest) = Some (fs, rest)"
    proof (rule parse_members_join [OF False])
      show "parse_value i (json x @ r) = Some (x, r)" if "(j, x) \<in> set fs" "length (json x) < i" "delimiter r" for j x i r
        using that Obj.prems(1) by (intro Obj.IH [OF that(1)]) (auto simp: list_all_iff)
      show "length (join '','' (map (\<lambda>(k, v). quote k @ '':'' @ json v) fs)) + 1 < m" using Obj.prems(2) n unfolding str by simp
    qed
    moreover have "set_fields [] fs = fs" using Obj.prems(1) by (intro set_fields_distinct) simp
    ultimately show ?thesis using n head unfolding str by simp
  qed
qed simp_all

lemma json_roundtrip [simp]: "json_plain v \<Longrightarrow> parse_json (json_bytes v) = Some v"
  using parse_json_value [of v "length (json v) + 1" "[]"]
  by (simp add: parse_json_def json_bytes_def JSON_parse_def delimiter_def skip_ws_def)

end
