(* ===== verification/Peer_Bytes.thy ===== *)
theory Peer_Bytes
  imports Byte_Codec JSON_Text
begin

text \<open>
  The byte helpers of the peer protocol, \<open>src/bridge/webBridge/peerProtocol/bytes.js\<close>: hexadecimal and base64 texts,
  big-endian integers and the comparison of byte arrays. A function that throws returns \<open>Inl\<close>. The shifts and masks
  of the base64 code are written as arithmetic on numbers below \<open>2^24\<close>, where they agree; \<open>parseInt\<close> is that of the
  language, which skips white space, takes a sign and stops at the first character that is no digit.
\<close>

datatype peer_error =
    InvalidHex | InvalidBase64
  | FrameTooLarge nat nat
  | InvalidWireFrame string
  | TooLongField string
  | SequenceExhausted | ShortRecord | UnexpectedSequence nat nat | DecryptFailed
  | InvalidKeyLength string nat nat | LowOrderKey | SeedLength
  | InvalidHello string | NotBound | BadSignature string | PeerMismatch string string
  | FinishedMismatch | InvalidFinished
  | ConnectionClosed | ConnectionFailed string

section \<open>Hexadecimal\<close>

definition concatBytes :: "bytes list \<Rightarrow> bytes" where
  "concatBytes parts = concat parts"

definition bytesToHex :: "bytes \<Rightarrow> string" where
  "bytesToHex bs = concat (map (\<lambda>b. [hex_digit (unat b div 16), hex_digit (unat b mod 16)]) bs)"

text \<open>\<open>Number.parseInt(s, 16)\<close>; \<open>None\<close> is \<open>NaN\<close>.\<close>

definition parseInt16 :: "string \<Rightarrow> int option" where
  "parseInt16 s =
     (let t = dropWhile js_space s; neg = (t \<noteq> [] \<and> hd t = CHR ''-'');
          u = (if t \<noteq> [] \<and> hd t \<in> {CHR ''-'', CHR ''+''} then tl t else t);
          v = (if take 2 u \<in> {''0x'', ''0X''} then drop 2 u else u);
          ds = takeWhile (\<lambda>c. digit_value c < 16) v
      in if ds = [] then None else Some ((if neg then - 1 else 1) * int (number_of_digits 16 ds)))"

fun hexPairs :: "string \<Rightarrow> peer_error + bytes" where
  "hexPairs (a # b # s) =
     (case parseInt16 [a, b] of
        None \<Rightarrow> Inl InvalidHex
      | Some n \<Rightarrow> (case hexPairs s of Inl e \<Rightarrow> Inl e | Inr bs \<Rightarrow> Inr (of_int n # bs)))"
| "hexPairs _ = Inr []"

definition hexToBytes :: "jsv \<Rightarrow> peer_error + bytes" where
  "hexToBytes hex = (let v = js_String (js_orv hex (Str []))
     in if length v mod 2 \<noteq> 0 then Inl InvalidHex else hexPairs v)"

section \<open>Base64\<close>

definition B64_TABLE :: string where
  "B64_TABLE = ''ABCDEFGHIJKLMNOPQRSTUVWXYZabcdefghijklmnopqrstuvwxyz0123456789+/''"

definition b64_char :: "nat \<Rightarrow> char" where
  "b64_char n = B64_TABLE ! (n mod 64)"

definition b64_triple :: "byte \<Rightarrow> byte \<Rightarrow> byte \<Rightarrow> nat" where
  "b64_triple a b c = unat a * 65536 + unat b * 256 + unat c"

fun bytesToB64 :: "bytes \<Rightarrow> string" where
  "bytesToB64 [] = []"
| "bytesToB64 [a] =
     (let t = b64_triple a 0 0 in [b64_char (t div 2 ^ 18), b64_char (t div 2 ^ 12), CHR ''='', CHR ''=''])"
| "bytesToB64 [a, b] =
     (let t = b64_triple a b 0 in [b64_char (t div 2 ^ 18), b64_char (t div 2 ^ 12), b64_char (t div 2 ^ 6), CHR ''=''])"
| "bytesToB64 (a # b # c # bs) =
     (let t = b64_triple a b c
      in [b64_char (t div 2 ^ 18), b64_char (t div 2 ^ 12), b64_char (t div 2 ^ 6), b64_char t] @ bytesToB64 bs)"

definition b64Value :: "char \<Rightarrow> nat option" where
  "b64Value c =
     (let n = char_code c
      in if n \<ge> 65 \<and> n \<le> 90 then Some (n - 65)
         else if n \<ge> 97 \<and> n \<le> 122 then Some (n - 71)
         else if n \<ge> 48 \<and> n \<le> 57 then Some (n + 4)
         else if n = 43 then Some 62 else if n = 47 then Some 63 else None)"

definition b64Padded :: "char \<Rightarrow> nat option" where
  "b64Padded c = (if c = CHR ''='' then Some 0 else b64Value c)"

definition triple_bytes :: "nat \<Rightarrow> bytes" where
  "triple_bytes t = [of_nat (t div 65536), of_nat (t div 256), of_nat t]"

fun b64Quads :: "string \<Rightarrow> peer_error + bytes" where
  "b64Quads (w # x # y # z # s) =
     (case (b64Value w, b64Value x, b64Padded y, b64Padded z) of
        (Some n0, Some n1, Some n2, Some n3) \<Rightarrow>
          (case b64Quads s of
             Inl e \<Rightarrow> Inl e
           | Inr bs \<Rightarrow> Inr (triple_bytes (n0 * 2 ^ 18 + n1 * 2 ^ 12 + n2 * 2 ^ 6 + n3) @ bs))
      | _ \<Rightarrow> Inl InvalidBase64)"
| "b64Quads _ = Inr []"

definition b64Padding :: "string \<Rightarrow> nat" where
  "b64Padding s = (if js_startsWith (rev s) ''=='' then 2 else if js_startsWith (rev s) ''='' then 1 else 0)"

definition b64ToBytes :: "jsv \<Rightarrow> peer_error + bytes" where
  "b64ToBytes encoded =
     (let cleaned = filter (\<lambda>c. \<not> js_space c) (js_String (js_orv encoded (Str [])))
      in if cleaned = [] then Inr []
         else if length cleaned mod 4 \<noteq> 0 then Inl InvalidBase64
         else map_sum id (take (length cleaned div 4 * 3 - b64Padding cleaned)) (b64Quads cleaned))"

section \<open>Integers and comparison\<close>

definition u32Be :: "nat \<Rightarrow> bytes" where
  "u32Be value = be_bytes 4 value"

definition u64Be :: "nat \<Rightarrow> bytes" where
  "u64Be value = be_bytes 4 (value div 2 ^ 32) @ be_bytes 4 (value mod 2 ^ 32)"

definition readU32Be :: "bytes \<Rightarrow> nat" where
  "readU32Be bs = be_value (take 4 bs)"

definition readU64Be :: "bytes \<Rightarrow> nat" where
  "readU64Be bs = be_value (take 4 bs) * 2 ^ 32 + be_value (take 4 (drop 4 bs))"

unbundle bit_operations_syntax

definition equalBytes :: "bytes \<Rightarrow> bytes \<Rightarrow> bool" where
  "equalBytes a b = (if length a \<noteq> length b then False
     else fold (\<lambda>(x, y) diff. diff OR (x XOR y)) (zip a b) 0 = 0)"

section \<open>Round trips\<close>

lemma hex_digit_facts:
  assumes "n < 16"
  shows "digit_value (hex_digit n) = n" "\<not> js_space (hex_digit n)" "hex_digit n \<notin> {CHR ''-'', CHR ''+'', CHR ''x'', CHR ''X''}"
proof -
  have "(of_char (hex_digit n) :: nat) = (if n < 10 then 48 + n else 87 + n)" using assms by (simp add: hex_digit_def)
  then show "\<not> js_space (hex_digit n)" "hex_digit n \<notin> {CHR ''-'', CHR ''+'', CHR ''x'', CHR ''X''}"
    using assms by (auto simp: js_space_def Let_def split: if_splits)
qed (rule hex_digit_value [OF assms])

lemma parseInt16_pair:
  assumes "m < 16" "n < 16"
  shows "parseInt16 [hex_digit m, hex_digit n] = Some (int (m * 16 + n))"
proof -
  have "take 2 [hex_digit m, hex_digit n] \<notin> {''0x'', ''0X''}" using hex_digit_facts(3) [OF assms(2)] by auto
  then show ?thesis using hex_digit_facts [OF assms(1)] hex_digit_facts [OF assms(2)] assms
    by (simp add: parseInt16_def number_of_digits_def Let_def)
qed

lemma byte_halves: "unat (b :: byte) div 16 < 16" "unat b div 16 * 16 + unat b mod 16 = unat b"
  using unat_byte_less [of b] by simp_all

lemma hexPairs_bytesToHex: "hexPairs (bytesToHex bs) = Inr bs"
proof (induction bs)
  case (Cons b bs)
  have "parseInt16 [hex_digit (unat b div 16), hex_digit (unat b mod 16)] = Some (int (unat b))"
    using parseInt16_pair [of "unat b div 16" "unat b mod 16"] byte_halves [of b] by simp
  moreover have "of_int (int (unat b)) = b" by simp
  ultimately show ?case using Cons by (simp add: bytesToHex_def)
qed (simp add: bytesToHex_def)

lemma length_bytesToHex [simp]: "length (bytesToHex bs) = 2 * length bs"
  by (induction bs) (simp_all add: bytesToHex_def)

lemma js_String_orv_Str [simp]: "js_String (js_orv (Str s) (Str [])) = s"
  by simp

lemma hexToBytes_bytesToHex: "hexToBytes (Str (bytesToHex bs)) = Inr bs"
  unfolding hexToBytes_def by (simp add: hexPairs_bytesToHex del: js_orv_simps)

lemma bytesToHex_inj: "bytesToHex a = bytesToHex b \<Longrightarrow> a = b"
  by (metis hexPairs_bytesToHex sum.inject(2))

text \<open>The base64 alphabet and its inverse, checked entry by entry.\<close>

lemma b64_table_entries:
  "list_all (\<lambda>(i, c). b64Value c = Some i \<and> \<not> js_space c \<and> c \<noteq> CHR ''='') (List.enumerate 0 B64_TABLE)" "length B64_TABLE = 64"
  by (simp_all add: B64_TABLE_def b64Value_def char_code_def js_space_def)

lemma b64_table_entry:
  "i < 64 \<Longrightarrow> b64Value (B64_TABLE ! i) = Some i \<and> \<not> js_space (B64_TABLE ! i) \<and> B64_TABLE ! i \<noteq> CHR ''=''"
  using b64_table_entries by (simp add: list_all_length nth_enumerate_eq)

lemma b64_char_facts [simp]: "b64Value (b64_char n) = Some (n mod 64)" "\<not> js_space (b64_char n)" "b64_char n \<noteq> CHR ''=''"
  "b64Padded (b64_char n) = Some (n mod 64)"
proof -
  show a: "b64Value (b64_char n) = Some (n mod 64)" "\<not> js_space (b64_char n)" "b64_char n \<noteq> CHR ''=''"
    using b64_table_entry [of "n mod 64"] by (simp_all add: b64_char_def)
  then show "b64Padded (b64_char n) = Some (n mod 64)" by (simp add: b64Padded_def)
qed

lemma triple_split:
  assumes "t < 2 ^ 24"
  shows "(t div 2 ^ 18 mod 64) * 2 ^ 18 + (t div 2 ^ 12 mod 64) * 2 ^ 12 + (t div 2 ^ 6 mod 64) * 2 ^ 6 + t mod 64 = (t :: nat)"
proof -
  define q p x y z w where "q = t div 64" and "p = q div 64" and "x = p div 64" and "y = p mod 64" and "z = q mod 64" and "w = t mod 64"
  note defs = q_def p_def x_def y_def z_def w_def
  have d: "t div 2 ^ 12 = p" "t div 2 ^ 18 = x" "t div 2 ^ 6 = q" by (simp_all add: defs div_mult2_eq [symmetric])
  have "x < 64" using assms by (simp add: d(2) [symmetric] less_mult_imp_div_less)
  then have "x mod 64 = x" by simp
  moreover have "t = q * 64 + w" "q = p * 64 + z" "p = x * 64 + y" by (simp_all add: defs)
  ultimately show ?thesis unfolding d y_def [symmetric] z_def [symmetric] w_def [symmetric] by simp
qed

lemma b64_triple_less: "b64_triple a b c < 2 ^ 24"
  using unat_byte_less [of a] unat_byte_less [of b] unat_byte_less [of c] by (simp add: b64_triple_def)

lemma triple_bytes_triple: "triple_bytes (b64_triple a b c) = [a, b, c]"
proof -
  define t where "t = unat a * 65536 + unat b * 256 + unat c"
  have t: "t = (unat a * 256 + unat b) * 256 + unat c" by (simp add: t_def)
  have q: "t div 256 = unat a * 256 + unat b" using unat_byte_less [of c] unfolding t by simp
  have "t div 65536 = t div 256 div 256" by (simp add: div_mult2_eq [symmetric])
  then have "t div 65536 mod 256 = unat a" using unat_byte_less [of a] unat_byte_less [of b] unfolding q by simp
  moreover have "t div 256 mod 256 = unat b" using unat_byte_less [of b] unfolding q by simp
  moreover have "t mod 256 = unat c" using unat_byte_less [of c] unfolding t by (metis mod_less mod_mult_self3)
  moreover have "(of_nat n :: byte) = x" if "n mod 256 = unat x" for n x
    using that by (intro word_unat_eq_iff [THEN iffD2]) (simp add: unat_byte)
  ultimately show ?thesis by (simp add: triple_bytes_def b64_triple_def t_def [symmetric])
qed

definition b64_pad :: "bytes \<Rightarrow> nat" where
  "b64_pad bs = (3 - length bs mod 3) mod 3"

lemma b64Quads_bytesToB64: "b64Quads (bytesToB64 bs) = Inr (bs @ replicate (b64_pad bs) 0)"
proof (induction bs rule: bytesToB64.induct)
  case (2 a)
  let ?t = "b64_triple a 0 0"
  have "?t div 2 ^ 6 mod 64 = 0" "?t mod 64 = 0" by (simp_all add: b64_triple_def mult.assoc [of _ 64, symmetric] mod_mult_self2_is_0)
  then show ?case using triple_split [OF b64_triple_less [of a 0 0]] triple_bytes_triple [of a 0 0]
    by (simp add: Let_def b64Padded_def b64_pad_def numeral_2_eq_2 del: power_numeral)
next
  case (3 a b)
  let ?t = "b64_triple a b 0"
  have "?t mod 64 = 0" by (simp add: b64_triple_def)
  then show ?case using triple_split [OF b64_triple_less [of a b 0]] triple_bytes_triple [of a b 0]
    by (simp add: Let_def b64Padded_def b64_pad_def del: power_numeral)
next
  case (4 a b c bs)
  then show ?case using triple_split [OF b64_triple_less [of a b c]] triple_bytes_triple [of a b c]
    by (simp add: Let_def b64_pad_def del: power_numeral)
qed (simp add: b64_pad_def)

lemma b64Padding_append: "2 \<le> length t \<Longrightarrow> b64Padding (s @ t) = b64Padding t"
proof -
  assume "2 \<le> length t"
  then obtain x y r where "rev t = x # y # r" by (metis One_nat_def Suc_1 Suc_le_length_iff length_rev)
  then show ?thesis by (simp add: b64Padding_def js_startsWith_def)
qed

lemma bytesToB64_facts:
  "b64Padding (bytesToB64 bs) = b64_pad bs \<and> length (bytesToB64 bs) = 4 * ((length bs + 2) div 3) \<and>
   filter (\<lambda>c. \<not> js_space c) (bytesToB64 bs) = bytesToB64 bs"
proof (induction bs rule: bytesToB64.induct)
  case (4 a b c bs)
  have "b64Padding (bytesToB64 (a # b # c # bs)) = b64_pad bs"
  proof (cases "bs = []")
    case True
    then show ?thesis by (simp add: Let_def b64Padding_def js_startsWith_def b64_pad_def)
  next
    case False
    then have "2 \<le> length (bytesToB64 bs)" using 4 by (cases bs) auto
    then show ?thesis using 4 by (simp add: Let_def b64Padding_append del: append_Cons append_Nil add: append_Cons [symmetric])
  qed
  moreover have "b64_pad (a # b # c # bs) = b64_pad bs" by (simp add: b64_pad_def)
  moreover have "(5 + length bs) div 3 = Suc (Suc (Suc (length bs)) div 3)" by presburger
  ultimately show ?case using 4 by (simp add: Let_def)
qed (simp_all add: Let_def b64Padding_def js_startsWith_def b64_pad_def js_space_def [of "CHR ''=''"])

lemma b64_pad_length: "(length bs + 2) div 3 * 3 - b64_pad bs = length bs"
proof -
  define q r where "q = length bs div 3" and "r = length bs mod 3"
  have n: "length bs = 3 * q + r" and r: "r = 0 \<or> r = 1 \<or> r = 2" by (auto simp: q_def r_def)
  have m: "length bs mod 3 = r" by (simp add: r_def)
  have "(3 * q + 2) div 3 = q" "(3 * q + 1 + 2) div 3 = q + 1" "(3 * q + 2 + 2) div 3 = q + 1" by presburger+
  then show ?thesis using r n unfolding b64_pad_def m by (elim disjE) (simp_all add: n)
qed

lemma b64ToBytes_bytesToB64: "b64ToBytes (Str (bytesToB64 bs)) = Inr bs"
proof (cases "bs = []")
  case False
  note f = bytesToB64_facts [of bs]
  have "bytesToB64 bs \<noteq> []" using f False by (cases bs) auto
  then show ?thesis using f b64_pad_length [of bs] unfolding b64ToBytes_def
    by (simp add: b64Quads_bytesToB64 Let_def del: js_orv_simps)
qed (simp add: b64ToBytes_def)

lemma length_u32Be [simp]: "length (u32Be n) = 4"
  by (simp add: u32Be_def)

lemma length_u64Be [simp]: "length (u64Be n) = 8"
  by (simp add: u64Be_def)

lemma readU32Be_u32Be: "readU32Be (u32Be n @ r) = n mod 2 ^ 32"
  by (simp add: readU32Be_def u32Be_def be_value_be_bytes_mod)

lemma readU64Be_u64Be: "readU64Be (u64Be n @ r) = n mod 2 ^ 64"
proof -
  have "n mod 2 ^ 64 = (n div 2 ^ 32 mod 2 ^ 32) * 2 ^ 32 + n mod 2 ^ 32"
    by (simp add: mod_mult2_eq [of n "2 ^ 32" "2 ^ 32", simplified] mult.commute)
  then show ?thesis by (simp add: readU64Be_def u64Be_def be_value_be_bytes_mod)
qed

lemma u64Be_inj: "u64Be m = u64Be n \<Longrightarrow> m < 2 ^ 64 \<Longrightarrow> n < 2 ^ 64 \<Longrightarrow> m = n"
  by (metis mod_less readU64Be_u64Be)

lemma u64Be_readU64Be: "length bs = 8 \<Longrightarrow> u64Be (readU64Be bs) = bs"
proof -
  assume l: "length bs = 8"
  let ?a = "take 4 bs" and ?b = "drop 4 bs"
  have b: "be_value ?b < 2 ^ 32" "length ?a = 4" "length ?b = 4" using be_value_less [of ?b] l by simp_all
  have v: "readU64Be bs = be_value ?a * 2 ^ 32 + be_value ?b" using b(3) by (simp add: readU64Be_def)
  have "readU64Be bs div 2 ^ 32 = be_value ?a" "readU64Be bs mod 2 ^ 32 = be_value ?b" unfolding v using b(1) by simp_all
  then have "u64Be (readU64Be bs) = be_bytes (length ?a) (be_value ?a) @ be_bytes (length ?b) (be_value ?b)"
    unfolding u64Be_def using b(2,3) by simp
  then show ?thesis unfolding be_bytes_be_value by simp
qed

lemma fold_or_zero: "fold (\<lambda>(x, y) diff. diff OR (x XOR y)) ps d = (0 :: byte) \<longleftrightarrow> d = 0 \<and> (\<forall>(x, y) \<in> set ps. x = y)"
proof (induction ps arbitrary: d)
  case (Cons p ps)
  obtain x y where p: "p = (x, y)" by (cases p)
  have "d OR (x XOR y) = 0 \<longleftrightarrow> d = 0 \<and> x = y" by (metis or_eq_0_iff xor_self_eq bit.xor_left_self xor.right_neutral)
  then show ?case using Cons p by auto
qed simp

lemma equalBytes_eq: "equalBytes a b = (a = b)"
proof (cases "length a = length b")
  case True
  then have "(\<forall>(x, y) \<in> set (zip a b). x = y) \<longleftrightarrow> a = b"
    by (induction a b rule: list_induct2) auto
  then show ?thesis using True by (simp add: equalBytes_def fold_or_zero)
qed (auto simp: equalBytes_def)

text \<open>
  The texts and numbers of the peer protocol lose nothing: bytes read back from their hexadecimal and base64 texts, a
  number reads back from its four or eight bytes (modulo the width), and the comparison that looks at every byte is equality.
\<close>

theorem peer_bytes_roundtrip:
  "hexToBytes (Str (bytesToHex bs)) = Inr bs \<and> b64ToBytes (Str (bytesToB64 bs)) = Inr bs \<and>
   readU32Be (u32Be n @ rest) = n mod 2 ^ 32 \<and> readU64Be (u64Be n @ rest) = n mod 2 ^ 64 \<and>
   (equalBytes bs cs \<longleftrightarrow> bs = cs)"
  by (intro conjI hexToBytes_bytesToHex b64ToBytes_bytesToB64 readU32Be_u32Be readU64Be_u64Be equalBytes_eq)

text \<open>What the decoders accept beyond their grammar.\<close>

lemma hexToBytes_accepts_garbage: "hexToBytes (Str ''1g'') = Inr [1]" "hexToBytes (Str ''-1'') = Inr [255]"
  by (simp_all add: hexToBytes_def parseInt16_def js_space_def digit_value_def number_of_digits_def)

end
