(* ===== verification/Peer_Frames.thy ===== *)
theory Peer_Frames
  imports Peer_Bytes
begin

text \<open>
  Framing of a peer connection: \<open>peerProtocol/frames.js\<close> and the stream transport of \<open>peerProtocol/handshake.js\<close>.

  \<^item> \<open>encodePrefixed\<close> and \<open>tryReadPrefixed\<close> put a four-byte length before a frame and split it off again;
    they implement the interface \<open>length_prefix\<close> of \<open>Byte_Codec\<close>.
  \<^item> \<open>encodeWireFrame\<close> and \<open>decodeWireFrame\<close> are the JSON frames inside a record.
  \<^item> \<open>transport\<close> is \<open>createStreamTransport\<close>: bytes arrive in chunks of any size, readers wait for frames. A promise is
    the number of its reader; the operations return the promises they settle, in order.
\<close>

section \<open>Length-prefixed frames\<close>

definition encodePrefixed :: "bytes \<Rightarrow> nat \<Rightarrow> peer_error + bytes" where
  "encodePrefixed bs maximum =
     (if length bs > maximum \<or> length bs > 0xffffffff then Inl (FrameTooLarge (length bs) maximum)
      else Inr (u32Be (length bs) @ bs))"

definition tryReadPrefixed :: "bytes \<Rightarrow> nat \<Rightarrow> peer_error + (bytes \<times> bytes) option" where
  "tryReadPrefixed buffer maximum =
     (if length buffer < 4 then Inr None
      else let len = readU32Be buffer
           in if len > maximum then Inl (FrameTooLarge len maximum)
              else if length buffer < 4 + len then Inr None
              else Inr (Some (take len (drop 4 buffer), drop (4 + len) buffer)))"

record byte_assembler =
  ba_buffer :: bytes

definition new_assembler :: byte_assembler where
  "new_assembler = \<lparr>ba_buffer = []\<rparr>"

definition ba_push :: "bytes \<Rightarrow> byte_assembler \<Rightarrow> byte_assembler" where
  "ba_push chunk a = (if chunk = [] then a else a\<lparr>ba_buffer := ba_buffer a @ chunk\<rparr>)"

definition nextFrame :: "nat \<Rightarrow> byte_assembler \<Rightarrow> peer_error + (bytes option \<times> byte_assembler)" where
  "nextFrame maximum a =
     (case tryReadPrefixed (ba_buffer a) maximum of
        Inl e \<Rightarrow> Inl e
      | Inr None \<Rightarrow> Inr (None, a)
      | Inr (Some (frame, rest)) \<Rightarrow> Inr (Some frame, a\<lparr>ba_buffer := rest\<rparr>))"

section \<open>Wire frames\<close>

definition wireFrameJson :: "jsv \<Rightarrow> peer_error + jsv" where
  "wireFrameJson frame =
     (let t = get frame ''type''
      in if t = Str ''message'' then
           Inr (Obj [(''type'', Str ''message''),
             (''message_id'', js_coalesce (get frame ''messageId'') (get frame ''message_id'')),
             (''sent_at_ms'', js_coalesce (get frame ''sentAtMs'') (get frame ''sent_at_ms'')),
             (''payload'', get frame ''payload'')])
         else if t = Str ''ping'' \<or> t = Str ''pong'' then Inr (Obj [(''type'', t), (''nonce'', get frame ''nonce'')])
         else if t = Str ''close'' then Inr (Obj [(''type'', Str ''close''), (''reason'', get frame ''reason'')])
         else Inl (InvalidWireFrame ''type''))"

definition encodeWireFrame :: "jsv \<Rightarrow> nat \<Rightarrow> peer_error + bytes" where
  "encodeWireFrame frame maximum =
     (case wireFrameJson frame of
        Inl e \<Rightarrow> Inl e
      | Inr j \<Rightarrow> if length (json_bytes j) > maximum then Inl (FrameTooLarge (length (json_bytes j)) maximum)
                else Inr (json_bytes j))"

definition field_length :: "jsv \<Rightarrow> nat" where
  "field_length v = length (js_String (js_orv v (Str [])))"

definition decodeWireFrame :: "bytes \<Rightarrow> nat \<Rightarrow> peer_error + jsv" where
  "decodeWireFrame bs maximum =
     (if length bs > maximum then Inl (FrameTooLarge (length bs) maximum)
      else case parse_json bs of
          None \<Rightarrow> Inl (InvalidWireFrame ''json'')
        | Some parsed \<Rightarrow>
            let t = get parsed ''type''
            in if \<not> js_Boolean parsed \<or> \<not> is_object parsed \<or> \<not> is_string t then Inl (InvalidWireFrame ''missing type'')
               else if t = Str ''message'' then
                 (let messageId = js_coalesce (get parsed ''message_id'') (get parsed ''messageId'');
                      sentAtMs = js_coalesce (get parsed ''sent_at_ms'') (get parsed ''sentAtMs'')
                  in if field_length messageId > 128 then Inl (TooLongField ''message id'')
                     else Inr (Obj [(''type'', Str ''message''), (''messageId'', messageId), (''sentAtMs'', sentAtMs),
                        (''payload'', get parsed ''payload'')]))
               else if t = Str ''ping'' \<or> t = Str ''pong'' then
                 (if field_length (get parsed ''nonce'') > 128 then Inl (TooLongField ''nonce'')
                  else Inr (Obj [(''type'', t), (''nonce'', get parsed ''nonce'')]))
               else if t = Str ''close'' then
                 (if field_length (get parsed ''reason'') > 512 then Inl (TooLongField ''reason'')
                  else Inr (Obj [(''type'', Str ''close''), (''reason'', get parsed ''reason'')]))
               else Inl (InvalidWireFrame ''unknown type''))"

section \<open>The stream transport\<close>

record transport =
  tr_assembler :: byte_assembler
  tr_pending :: "(nat \<times> nat) list"
  tr_failed :: "string option"
  tr_closed :: bool

type_synonym settled = "(nat \<times> (peer_error + bytes)) list"

definition createStreamTransport :: transport where
  "createStreamTransport = \<lparr>tr_assembler = new_assembler, tr_pending = [], tr_failed = None, tr_closed = False\<rparr>"

text \<open>The loop of \<open>push\<close> over the waiting readers.\<close>

fun serve :: "(nat \<times> nat) list \<Rightarrow> byte_assembler \<Rightarrow> settled \<times> (nat \<times> nat) list \<times> byte_assembler" where
  "serve [] a = ([], [], a)"
| "serve ((reader, maximum) # waiters) a =
     (case nextFrame maximum a of
        Inr (None, _) \<Rightarrow> ([], (reader, maximum) # waiters, a)
      | Inr (Some frame, a') \<Rightarrow> (let (out, ws, a'') = serve waiters a' in ((reader, Inr frame) # out, ws, a''))
      | Inl e \<Rightarrow> (let (out, ws, a'') = serve waiters a in ((reader, Inl e) # out, ws, a'')))"

definition tr_push :: "bytes \<Rightarrow> transport \<Rightarrow> settled \<times> transport" where
  "tr_push chunk t =
     (let (out, ws, a) = serve (tr_pending t) (ba_push chunk (tr_assembler t))
      in (out, t\<lparr>tr_assembler := a, tr_pending := ws\<rparr>))"

definition readPrefixed :: "nat \<Rightarrow> nat \<Rightarrow> transport \<Rightarrow> settled \<times> transport" where
  "readPrefixed reader maximum t =
     (case nextFrame maximum (tr_assembler t) of
        Inl e \<Rightarrow> ([(reader, Inl e)], t)
      | Inr (Some frame, a) \<Rightarrow> ([(reader, Inr frame)], t\<lparr>tr_assembler := a\<rparr>)
      | Inr (None, a) \<Rightarrow>
          (case tr_failed t of
             Some e \<Rightarrow> ([(reader, Inl (ConnectionFailed e))], t)
           | None \<Rightarrow> if tr_closed t then ([(reader, Inl ConnectionClosed)], t)
                     else ([], t\<lparr>tr_pending := tr_pending t @ [(reader, maximum)]\<rparr>)))"

definition settle :: "transport \<Rightarrow> settled \<times> transport" where
  "settle t =
     (if tr_pending t = [] then ([], t)
      else case tr_failed t of
          Some e \<Rightarrow> (map (\<lambda>(reader, _). (reader, Inl (ConnectionFailed e))) (tr_pending t), t\<lparr>tr_pending := []\<rparr>)
        | None \<Rightarrow> if tr_closed t \<and> ba_buffer (tr_assembler t) = []
                  then (map (\<lambda>(reader, _). (reader, Inl ConnectionClosed)) (tr_pending t), t\<lparr>tr_pending := []\<rparr>)
                  else ([], t))"

definition tr_fail :: "string \<Rightarrow> transport \<Rightarrow> settled \<times> transport" where
  "tr_fail e t = settle (t\<lparr>tr_failed := Some e\<rparr>)"

definition tr_close :: "transport \<Rightarrow> settled \<times> transport" where
  "tr_close t = settle (t\<lparr>tr_closed := True\<rparr>)"

section \<open>Frames of a byte stream\<close>

lemma tryReadPrefixed_shorter: "tryReadPrefixed buffer maximum = Inr (Some (f, r)) \<Longrightarrow> length r < length buffer"
  by (auto simp: tryReadPrefixed_def Let_def split: if_splits)

text \<open>All complete frames at the start of a buffer, and what is left.\<close>

function all_frames :: "nat \<Rightarrow> bytes \<Rightarrow> bytes list \<times> bytes" where
  "all_frames maximum buffer =
     (case tryReadPrefixed buffer maximum of
        Inr (Some (f, r)) \<Rightarrow> (let (fs, rest) = all_frames maximum r in (f # fs, rest))
      | _ \<Rightarrow> ([], buffer))"
  by pat_completeness auto
termination
  by (relation "measure (\<lambda>(_, buffer). length buffer)") (auto dest: tryReadPrefixed_shorter)

declare all_frames.simps [simp del]

definition framed :: "bytes \<Rightarrow> bytes" where
  "framed b = u32Be (length b) @ b"

interpretation peer_prefix: length_prefix u32Be readU32Be 4 "0xffffffff"
proof unfold_locales
  show "readU32Be (u32Be n) = n" if "n \<le> 0xffffffff" for n using readU32Be_u32Be [of n "[]"] that by simp
qed simp_all

definition frame_ok :: "nat \<Rightarrow> bytes \<Rightarrow> bool" where
  "frame_ok maximum b \<longleftrightarrow> length b \<le> maximum \<and> length b \<le> 0xffffffff"

lemma encodePrefixed_framed: "encodePrefixed b maximum = (if frame_ok maximum b then Inr (framed b) else Inl (FrameTooLarge (length b) maximum))"
  by (simp add: encodePrefixed_def frame_ok_def framed_def)

lemma tryRead_framed:
  assumes "frame_ok maximum b"
  shows "tryReadPrefixed (framed b @ rest) maximum = Inr (Some (b, rest))"
  using assms readU32Be_u32Be [of "length b" "b @ rest"]
  by (simp add: tryReadPrefixed_def framed_def frame_ok_def)

lemma all_frames_step:
  "tryReadPrefixed buffer m = Inr (Some (f, r)) \<Longrightarrow> all_frames m buffer = (f # fst (all_frames m r), snd (all_frames m r))"
  "tryReadPrefixed buffer m = Inr None \<Longrightarrow> all_frames m buffer = ([], buffer)"
  by (subst all_frames.simps, simp add: case_prod_unfold Let_def)+

lemma tryRead_append:
  "tryReadPrefixed buffer m = Inr (Some (f, r)) \<Longrightarrow> tryReadPrefixed (buffer @ x) m = Inr (Some (f, r @ x))"
  by (auto simp: tryReadPrefixed_def readU32Be_def Let_def split: if_splits)

lemma all_frames_append:
  "all_frames m (s @ x) = (fst (all_frames m s) @ fst (all_frames m (snd (all_frames m s) @ x)), snd (all_frames m (snd (all_frames m s) @ x)))"
proof (induction m s rule: all_frames.induct)
  case (1 m s)
  show ?case
  proof (cases "tryReadPrefixed s m")
    case (Inl e)
    then have "all_frames m s = ([], s)" by (subst all_frames.simps) simp
    then show ?thesis by simp
  next
    case (Inr q)
    show ?thesis
    proof (cases q)
      case None
      then show ?thesis using all_frames_step(2) [of s m] Inr by simp
    next
      case (Some fr)
      obtain f r where fr: "fr = (f, r)" by (cases fr)
      have t: "tryReadPrefixed s m = Inr (Some (f, r))" using Inr Some fr by simp
      show ?thesis using 1 [OF Inr Some fr [symmetric]] all_frames_step(1) [OF t] all_frames_step(1) [OF tryRead_append [OF t, of x]] by simp
    qed
  qed
qed

lemma all_frames_rest: "all_frames m s = ([], r) \<Longrightarrow> r = s"
  by (subst (asm) all_frames.simps) (auto split: sum.splits option.splits simp: case_prod_unfold Let_def)

lemma all_frames_Cons:
  "all_frames m s = (f # fs, r) \<Longrightarrow> \<exists>t. tryReadPrefixed s m = Inr (Some (f, t)) \<and> all_frames m t = (fs, r)"
  by (subst (asm) all_frames.simps) (auto split: sum.splits option.splits simp: case_prod_unfold Let_def prod_eq_iff)

text \<open>A prefix of a stream of good frames never shows a wrong length.\<close>

lemma stream_prefix_clean:
  assumes "list_all (frame_ok m) fs" "s @ x = concat (map framed fs)"
  shows "tryReadPrefixed (snd (all_frames m s)) m = Inr None"
  using assms
proof (induction fs arbitrary: s)
  case Nil
  then show ?case using all_frames_step(2) [of "[]" m] by (simp add: tryReadPrefixed_def)
next
  case (Cons f fs)
  let ?stream = "concat (map framed fs)"
  have ok: "frame_ok m f" using Cons.prems(1) by simp
  show ?case
  proof (cases "length s < length (framed f)")
    case True
    have "s = take (length s) (framed f @ ?stream)" using Cons.prems(2) by (metis append_eq_conv_conj concat.simps(2) list.simps(9))
    then have s: "s = take (length s) (framed f)" using True by simp
    have "tryReadPrefixed s m = Inr None"
    proof (cases "length s < 4")
      case False
      then have "take 4 s = u32Be (length f)" by (subst s) (simp add: framed_def min_def)
      then have "readU32Be s = length f" using readU32Be_u32Be [of "length f" "[]"] ok by (simp add: readU32Be_def frame_ok_def)
      then show ?thesis using True ok False by (simp add: tryReadPrefixed_def framed_def frame_ok_def)
    qed (simp add: tryReadPrefixed_def)
    then show ?thesis using all_frames_step(2) by simp
  next
    case False
    have "take (length (framed f)) (s @ x) = framed f" using Cons.prems(2) by simp
    then have "take (length (framed f)) s = framed f" using False by simp
    then obtain t where t: "s = framed f @ t" by (metis append_take_drop_id)
    then have "t @ x = ?stream" using Cons.prems(2) by simp
    then show ?thesis using Cons.IH [of t] Cons.prems(1) all_frames_step(1) [OF tryRead_framed [OF ok, of t]] t by simp
  qed
qed

lemma all_frames_stream: "list_all (frame_ok m) fs \<Longrightarrow> all_frames m (concat (map framed fs)) = (fs, [])"
proof (induction fs)
  case (Cons f fs)
  then show ?case using all_frames_step(1) [OF tryRead_framed, of m f "concat (map framed fs)"] by simp
qed (simp add: all_frames_step(2) tryReadPrefixed_def)

section \<open>Runs of the transport\<close>

text \<open>Chunks arrive and readers (all with the limit \<open>m\<close>) ask for frames, in any order.\<close>

datatype stream_event = Push bytes | Read nat

fun stream_step :: "nat \<Rightarrow> stream_event \<Rightarrow> transport \<Rightarrow> settled \<times> transport" where
  "stream_step m (Push chunk) t = tr_push chunk t"
| "stream_step m (Read reader) t = readPrefixed reader m t"

fun stream_run :: "nat \<Rightarrow> stream_event list \<Rightarrow> transport \<Rightarrow> settled \<times> transport" where
  "stream_run m [] t = ([], t)"
| "stream_run m (e # es) t =
     (let (out, t1) = stream_step m e t; (outs, t2) = stream_run m es t1 in (out @ outs, t2))"

fun received :: "stream_event list \<Rightarrow> bytes" where
  "received [] = []"
| "received (Push chunk # es) = chunk @ received es"
| "received (Read _ # es) = received es"

fun readers :: "stream_event list \<Rightarrow> nat list" where
  "readers [] = []"
| "readers (Push _ # es) = readers es"
| "readers (Read reader # es) = reader # readers es"

lemma received_append [simp]: "received (es @ fs) = received es @ received fs" "readers (es @ fs) = readers es @ readers fs"
  by (induction es rule: received.induct) simp_all

lemma stream_run_append:
  "stream_run m (es @ fs) t = (let (out, t1) = stream_run m es t; (outs, t2) = stream_run m fs t1 in (out @ outs, t2))"
  by (induction es arbitrary: t) (simp_all add: case_prod_unfold Let_def)

lemma nextFrame_cases:
  "tryReadPrefixed (ba_buffer a) m = Inr None \<Longrightarrow> nextFrame m a = Inr (None, a)"
  "tryReadPrefixed (ba_buffer a) m = Inr (Some (f, r)) \<Longrightarrow> nextFrame m a = Inr (Some f, \<lparr>ba_buffer = r\<rparr>)"
  by (simp_all add: nextFrame_def)

lemma serve_frames:
  assumes "all_frames m (ba_buffer a) = (fs, rest)" "tryReadPrefixed rest m = Inr None"
  shows "\<exists>a'. serve (map (\<lambda>r. (r, m)) ws) a = (zip ws (map Inr fs), map (\<lambda>r. (r, m)) (drop (length fs) ws), a') \<and>
     all_frames m (ba_buffer a') = (drop (length ws) fs, rest)"
  using assms
proof (induction ws arbitrary: a fs)
  case (Cons w ws)
  show ?case
  proof (cases fs)
    case Nil
    then have "ba_buffer a = rest" using all_frames_rest [OF Cons.prems(1) [unfolded Nil]] by simp
    then show ?thesis using nextFrame_cases(1) [of a m] Cons.prems Nil by simp
  next
    case (Cons f gs)
    then obtain t where t: "tryReadPrefixed (ba_buffer a) m = Inr (Some (f, t))" "all_frames m t = (gs, rest)"
      using all_frames_Cons Cons.prems(1) by blast
    then obtain a' where "serve (map (\<lambda>r. (r, m)) ws) \<lparr>ba_buffer = t\<rparr> = (zip ws (map Inr gs), map (\<lambda>r. (r, m)) (drop (length gs) ws), a')"
        "all_frames m (ba_buffer a') = (drop (length ws) gs, rest)"
      using Cons.IH [of "\<lparr>ba_buffer = t\<rparr>" gs] Cons.prems(2) by auto
    then show ?thesis using nextFrame_cases(2) [OF t(1)] Cons by simp
  qed
qed simp

text \<open>
  The transport after a run: the settled readers are the first ones paired with the frames received, the others wait, and
  the buffer holds the frames nobody asked for.
\<close>

definition stream_inv :: "nat \<Rightarrow> bytes list \<Rightarrow> bytes \<Rightarrow> nat list \<Rightarrow> settled \<times> transport \<Rightarrow> bool" where
  "stream_inv m fs rest rs st \<longleftrightarrow> fst st = zip rs (map Inr fs) \<and>
     tr_pending (snd st) = map (\<lambda>r. (r, m)) (drop (length fs) rs) \<and>
     all_frames m (ba_buffer (tr_assembler (snd st))) = (drop (length rs) fs, rest) \<and>
     tr_failed (snd st) = None \<and> \<not> tr_closed (snd st)"

lemma ba_push_buffer [simp]: "ba_buffer (ba_push c a) = ba_buffer a @ c"
  by (simp add: ba_push_def)

lemma zip_take_length: "zip (take (length ys) xs) ys = zip xs ys"
proof (induction xs arbitrary: ys)
  case (Cons x xs)
  then show ?case by (cases ys) simp_all
qed simp

lemma zip_take_length2: "zip xs (take (length xs) ys) = zip xs ys"
proof (induction xs arbitrary: ys)
  case (Cons x xs)
  then show ?case by (cases ys) simp_all
qed simp

lemma stream_push:
  assumes inv: "stream_inv m fs rest rs (out, t)" and clean: "tryReadPrefixed (snd (all_frames m (rest @ chunk))) m = Inr None"
  shows "stream_inv m (fs @ fst (all_frames m (rest @ chunk))) (snd (all_frames m (rest @ chunk))) rs
     (let (o1, t1) = tr_push chunk t in (out @ o1, t1))"
proof -
  define gs r where "gs = fst (all_frames m (rest @ chunk))" and "r = snd (all_frames m (rest @ chunk))"
  have b: "all_frames m (ba_buffer (ba_push chunk (tr_assembler t))) = (drop (length rs) fs @ gs, r)"
    using inv all_frames_append [of m "ba_buffer (tr_assembler t)" chunk] by (simp add: stream_inv_def gs_def r_def)
  obtain a' where a': "serve (map (\<lambda>r. (r, m)) (drop (length fs) rs)) (ba_push chunk (tr_assembler t)) =
        (zip (drop (length fs) rs) (map Inr (drop (length rs) fs @ gs)),
         map (\<lambda>r. (r, m)) (drop (length (drop (length rs) fs @ gs)) (drop (length fs) rs)), a')"
      "all_frames m (ba_buffer a') = (drop (length (drop (length fs) rs)) (drop (length rs) fs @ gs), r)"
    using serve_frames [OF b clean [folded r_def], of "drop (length fs) rs"] by blast
  have z: "zip rs (map Inr fs) @ zip (drop (length fs) rs) (map Inr (drop (length rs) fs @ gs)) = zip rs (map Inr (fs @ gs))"
    by (cases "length fs \<le> length rs") (simp_all add: zip_append2 zip_take_length [of "map Inr fs", simplified])
  have p: "tr_pending t = map (\<lambda>r. (r, m)) (drop (length fs) rs)" "out = zip rs (map Inr fs)" using inv by (simp_all add: stream_inv_def)
  have "tr_push chunk t = (zip (drop (length fs) rs) (map Inr (drop (length rs) fs @ gs)),
      t\<lparr>tr_assembler := a', tr_pending := map (\<lambda>r. (r, m)) (drop (length (drop (length rs) fs @ gs)) (drop (length fs) rs))\<rparr>)"
    unfolding tr_push_def p(1) a'(1) by simp
  then show ?thesis using inv a'(2) z p(2) unfolding gs_def [symmetric] r_def [symmetric]
    by (cases "length fs \<le> length rs") (simp_all add: stream_inv_def add.commute)
qed

lemma stream_read:
  assumes inv: "stream_inv m fs rest rs (out, t)" and clean: "tryReadPrefixed rest m = Inr None"
  shows "stream_inv m fs rest (rs @ [r]) (let (o1, t1) = readPrefixed r m t in (out @ o1, t1))"
proof (cases "drop (length rs) fs")
  case Nil
  then have "all_frames m (ba_buffer (tr_assembler t)) = ([], rest)" using inv by (simp add: stream_inv_def)
  then have "ba_buffer (tr_assembler t) = rest" by (rule all_frames_rest [symmetric])
  then have "readPrefixed r m t = ([], t\<lparr>tr_pending := tr_pending t @ [(r, m)]\<rparr>)"
    using nextFrame_cases(1) [of "tr_assembler t" m] clean inv by (simp add: readPrefixed_def stream_inv_def)
  then show ?thesis using inv Nil by (simp add: stream_inv_def zip_append1)
next
  case (Cons f gs)
  then obtain b where b: "tryReadPrefixed (ba_buffer (tr_assembler t)) m = Inr (Some (f, b))" "all_frames m b = (gs, rest)"
    using inv all_frames_Cons [of m "ba_buffer (tr_assembler t)" f gs rest] by (auto simp: stream_inv_def)
  then have "readPrefixed r m t = ([(r, Inr f)], t\<lparr>tr_assembler := \<lparr>ba_buffer = b\<rparr>\<rparr>)"
    using nextFrame_cases(2) [OF b(1)] by (simp add: readPrefixed_def)
  moreover have "length rs < length fs" "drop (Suc (length rs)) fs = gs" using Cons by (auto simp: drop_Suc tl_drop [symmetric] intro: ccontr)
  ultimately show ?thesis using inv b(2) Cons by (simp add: stream_inv_def zip_append1 zip_take_length2 drop_map)
qed

lemma stream_run_clean:
  assumes "\<And>s x. s @ x = received es \<Longrightarrow> tryReadPrefixed (snd (all_frames m s)) m = Inr None"
  shows "stream_inv m (fst (all_frames m (received es))) (snd (all_frames m (received es))) (readers es) (stream_run m es createStreamTransport)"
  using assms
proof (induction es rule: rev_induct)
  case Nil
  show ?case using all_frames_step(2) [of "[]" m]
    by (simp add: stream_inv_def createStreamTransport_def new_assembler_def tryReadPrefixed_def)
next
  case (snoc e es)
  obtain out t where run: "stream_run m es createStreamTransport = (out, t)" by (cases "stream_run m es createStreamTransport")
  have all: "stream_run m (es @ [e]) createStreamTransport = (let (o1, t1) = stream_step m e t in (out @ o1, t1))"
    by (simp add: stream_run_append run case_prod_unfold Let_def)
  let ?fs = "fst (all_frames m (received es))" and ?rest = "snd (all_frames m (received es))"
  have inv: "stream_inv m ?fs ?rest (readers es) (out, t)"
    using snoc.IH snoc.prems [of _ "_ @ received [e]"] run by simp
  show ?case
  proof (cases e)
    case (Push chunk)
    note clean = snoc.prems [of "received es @ chunk" "[]"]
    have app: "all_frames m (received es @ chunk) = (?fs @ fst (all_frames m (?rest @ chunk)), snd (all_frames m (?rest @ chunk)))"
      by (rule all_frames_append)
    show ?thesis using stream_push [OF inv, of chunk] clean all Push by (simp add: app)
  next
    case (Read r)
    have "tryReadPrefixed ?rest m = Inr None" using snoc.prems [of "received es" "[]"] Read by simp
    then show ?thesis using stream_read [OF inv, of r] all Read by simp
  qed
qed

lemma stream_run_inv:
  assumes "list_all (frame_ok m) stream" "received es @ x = concat (map framed stream)"
  shows "stream_inv m (fst (all_frames m (received es))) (snd (all_frames m (received es))) (readers es) (stream_run m es createStreamTransport)"
proof (rule stream_run_clean)
  fix s y assume "s @ y = received es"
  then have "s @ (y @ x) = concat (map framed stream)" using assms(2) by (simp flip: append_assoc)
  then show "tryReadPrefixed (snd (all_frames m s)) m = Inr None" by (rule stream_prefix_clean [OF assms(1)])
qed

text \<open>
  However a stream of frames is cut into chunks and however the reads are interleaved with their arrival, the readers get
  exactly the frames, in order: after the last chunk the \<open>i\<close>-th reader has the \<open>i\<close>-th frame.
\<close>

theorem stream_delivery:
  assumes "list_all (frame_ok m) frames" "received es = concat (map framed frames)"
  shows "fst (stream_run m es createStreamTransport) = zip (readers es) (map Inr frames)"
proof -
  have "all_frames m (received es) = (frames, [])" using all_frames_stream [OF assms(1)] assms(2) by simp
  moreover have "received es @ [] = concat (map framed frames)" using assms(2) by simp
  note stream_run_inv [OF assms(1) this]
  ultimately show ?thesis by (simp add: stream_inv_def)
qed

lemma framed_samples: "framed [7] = [0, 0, 0, 1, 7]" "framed [8, 9] = [0, 0, 0, 2, 8, 9]" "u32Be 256 = [0, 0, 1, 0]"
proof -
  have "(4 :: nat) = Suc (Suc (Suc (Suc 0)))" by simp
  then have "u32Be n = [of_nat (n div 256 div 256 div 256), of_nat (n div 256 div 256), of_nat (n div 256), of_nat n]" for n
    by (simp only: u32Be_def be_bytes.simps append_Nil append_Cons)
  then show "framed [7] = [0, 0, 0, 1, 7]" "framed [8, 9] = [0, 0, 0, 2, 8, 9]" "u32Be 256 = [0, 0, 1, 0]" by (simp_all add: framed_def)
qed

theorem stream_delivery_witness:
  "fst (stream_run 10 [Read 0, Push [0, 0, 0], Read 1, Push [1, 7, 0, 0], Push [0, 2, 8, 9]] createStreamTransport) =
     zip [0, 1] (map Inr [[7], [8, 9]])"
  using stream_delivery [of 10 "[[7], [8, 9]]" "[Read 0, Push [0, 0, 0], Read 1, Push [1, 7, 0, 0], Push [0, 2, 8, 9]]"]
  by (simp add: frame_ok_def framed_samples)

text \<open>A header that announces too much stays in the buffer: every reader from then on is refused, whatever else arrives.\<close>

lemma zip_pad: "length rs \<le> length ys + k \<Longrightarrow> length rs \<le> length ys + k' \<Longrightarrow> zip rs (ys @ replicate k x) = zip rs (ys @ replicate k' x)"
  by (simp add: zip_append2 zip_replicate2)

lemma serve_refused:
  assumes "all_frames m (ba_buffer a) = (fs, rest)" "tryReadPrefixed rest m = Inl e"
  shows "\<exists>a'. serve (map (\<lambda>r. (r, m)) ws) a = (zip ws (map Inr fs @ replicate (length ws) (Inl e)), [], a') \<and>
     all_frames m (ba_buffer a') = (drop (length ws) fs, rest)"
  using assms
proof (induction ws arbitrary: a fs)
  case (Cons w ws)
  show ?case
  proof (cases fs)
    case Nil
    then have "ba_buffer a = rest" using all_frames_rest [OF Cons.prems(1) [unfolded Nil]] by simp
    then have "nextFrame m a = Inl e" using Cons.prems(2) by (simp add: nextFrame_def)
    then show ?thesis using Cons.IH [OF Cons.prems] Nil by (auto simp: Let_def)
  next
    case (Cons f gs)
    then obtain t where t: "tryReadPrefixed (ba_buffer a) m = Inr (Some (f, t))" "all_frames m t = (gs, rest)"
      using all_frames_Cons Cons.prems(1) by blast
    then obtain a' where "serve (map (\<lambda>r. (r, m)) ws) \<lparr>ba_buffer = t\<rparr> = (zip ws (map Inr gs @ replicate (length ws) (Inl e)), [], a')"
        "all_frames m (ba_buffer a') = (drop (length ws) gs, rest)"
      using Cons.IH [of "\<lparr>ba_buffer = t\<rparr>" gs] Cons.prems(2) by auto
    then show ?thesis using nextFrame_cases(2) [OF t(1)] Cons zip_pad [of ws "map Inr gs" "length ws" "Suc (length ws)" "Inl e"]
      by (simp del: replicate_Suc)
  qed
qed simp

lemma all_frames_stuck: "tryReadPrefixed s m = Inl e \<Longrightarrow> all_frames m s = ([], s)"
  by (subst all_frames.simps) simp

lemma tryRead_refused: "tryReadPrefixed s m = Inl e \<Longrightarrow> tryReadPrefixed (s @ x) m = Inl e"
  by (auto simp: tryReadPrefixed_def readU32Be_def Let_def split: if_splits)

definition refused_inv :: "nat \<Rightarrow> peer_error \<Rightarrow> bytes list \<Rightarrow> nat list \<Rightarrow> settled \<times> transport \<Rightarrow> bool" where
  "refused_inv m e fs rs st \<longleftrightarrow> fst st = zip rs (map Inr fs @ replicate (length rs) (Inl e)) \<and> tr_pending (snd st) = [] \<and>
     (\<exists>rest. all_frames m (ba_buffer (tr_assembler (snd st))) = (drop (length rs) fs, rest) \<and> tryReadPrefixed rest m = Inl e)"

lemma refused_push: "refused_inv m e fs rs (out, t) \<Longrightarrow> refused_inv m e fs rs (let (o1, t1) = tr_push chunk t in (out @ o1, t1))"
proof -
  assume inv: "refused_inv m e fs rs (out, t)"
  then obtain rest where r: "all_frames m (ba_buffer (tr_assembler t)) = (drop (length rs) fs, rest)" "tryReadPrefixed rest m = Inl e"
    by (auto simp: refused_inv_def)
  have bad: "tryReadPrefixed (rest @ chunk) m = Inl e" by (rule tryRead_refused [OF r(2)])
  then have "all_frames m (ba_buffer (tr_assembler t) @ chunk) = (drop (length rs) fs, rest @ chunk)"
    using all_frames_append [of m "ba_buffer (tr_assembler t)" chunk] all_frames_stuck [OF bad] r(1) by simp
  then show ?thesis using inv bad by (auto simp: refused_inv_def tr_push_def)
qed

lemma zip_refused: "zip rs (map Inr fs @ replicate (length rs) (Inl e)) @ [(r, if length rs < length fs then Inr (fs ! length rs) else Inl e)] =
    zip (rs @ [r]) (map Inr fs @ replicate (Suc (length rs)) (Inl e))"
proof -
  let ?ys = "map Inr fs @ replicate (Suc (length rs)) (Inl e)"
  have len: "length rs < length ?ys" by simp
  have nth: "?ys ! length rs = (if length rs < length fs then Inr (fs ! length rs) else Inl e)"
    by (auto simp: nth_append simp del: replicate_Suc)
  have "zip (rs @ [r]) ?ys = zip rs (take (length rs) ?ys) @ zip [r] (drop (length rs) ?ys)" by (simp only: zip_append1)
  moreover have "drop (length rs) ?ys = ?ys ! length rs # drop (Suc (length rs)) ?ys" by (rule Cons_nth_drop_Suc [OF len, symmetric])
  moreover have "zip rs (take (length rs) ?ys) = zip rs (map Inr fs @ replicate (length rs) (Inl e))"
    using zip_take_length2 [of rs ?ys] zip_pad [of rs "map Inr fs" "Suc (length rs)" "length rs" "Inl e"] by (simp only: length_map le_add2 le_SucI add_Suc_right)
  ultimately show ?thesis by (simp add: nth del: replicate_Suc)
qed

lemma refused_read: "refused_inv m e fs rs (out, t) \<Longrightarrow> refused_inv m e fs (rs @ [r]) (let (o1, t1) = readPrefixed r m t in (out @ o1, t1))"
proof -
  assume inv: "refused_inv m e fs rs (out, t)"
  then obtain rest where rest: "all_frames m (ba_buffer (tr_assembler t)) = (drop (length rs) fs, rest)" "tryReadPrefixed rest m = Inl e"
    by (auto simp: refused_inv_def)
  show ?thesis
  proof (cases "length rs < length fs")
    case True
    then have drop: "drop (length rs) fs = fs ! length rs # drop (Suc (length rs)) fs" by (rule Cons_nth_drop_Suc [symmetric])
    then obtain b where b: "tryReadPrefixed (ba_buffer (tr_assembler t)) m = Inr (Some (fs ! length rs, b))" "all_frames m b = (drop (Suc (length rs)) fs, rest)"
      using rest(1) all_frames_Cons by metis
    then have "readPrefixed r m t = ([(r, Inr (fs ! length rs))], t\<lparr>tr_assembler := \<lparr>ba_buffer = b\<rparr>\<rparr>)"
      using nextFrame_cases(2) [OF b(1)] by (simp add: readPrefixed_def)
    then show ?thesis using inv b(2) rest(2) zip_refused [of rs fs e r] True by (auto simp: refused_inv_def)
  next
    case False
    then have "ba_buffer (tr_assembler t) = rest" using rest(1) all_frames_rest [of m "ba_buffer (tr_assembler t)" rest] by simp
    then have "readPrefixed r m t = ([(r, Inl e)], t)" using rest(2) by (simp add: readPrefixed_def nextFrame_def)
    then show ?thesis using inv rest zip_refused [of rs fs e r] False by (auto simp: refused_inv_def)
  qed
qed

lemma refused_start:
  assumes "stream_inv m fs rest rs (out, t)" "tryReadPrefixed (snd (all_frames m (rest @ chunk))) m = Inl e"
  shows "refused_inv m e (fs @ fst (all_frames m (rest @ chunk))) rs (let (o1, t1) = tr_push chunk t in (out @ o1, t1))"
proof -
  define gs r where "gs = fst (all_frames m (rest @ chunk))" and "r = snd (all_frames m (rest @ chunk))"
  have b: "all_frames m (ba_buffer (ba_push chunk (tr_assembler t))) = (drop (length rs) fs @ gs, r)"
    using assms(1) all_frames_append [of m "ba_buffer (tr_assembler t)" chunk] by (simp add: stream_inv_def gs_def r_def)
  obtain a' where a': "serve (map (\<lambda>r. (r, m)) (drop (length fs) rs)) (ba_push chunk (tr_assembler t)) =
        (zip (drop (length fs) rs) (map Inr (drop (length rs) fs @ gs) @ replicate (length (drop (length fs) rs)) (Inl e)), [], a')"
      "all_frames m (ba_buffer a') = (drop (length (drop (length fs) rs)) (drop (length rs) fs @ gs), r)"
    using serve_refused [OF b assms(2) [folded r_def], of "drop (length fs) rs"] by blast
  have p: "tr_pending t = map (\<lambda>r. (r, m)) (drop (length fs) rs)" "out = zip rs (map Inr fs)" using assms(1) by (simp_all add: stream_inv_def)
  have push: "tr_push chunk t = (zip (drop (length fs) rs) (map Inr (drop (length rs) fs @ gs) @ replicate (length (drop (length fs) rs)) (Inl e)),
      t\<lparr>tr_assembler := a', tr_pending := []\<rparr>)" unfolding tr_push_def p(1) a'(1) by simp
  have z: "out @ zip (drop (length fs) rs) (map Inr (drop (length rs) fs @ gs) @ replicate (length (drop (length fs) rs)) (Inl e)) =
      zip rs (map Inr (fs @ gs) @ replicate (length rs) (Inl e))"
  proof (cases "length fs \<le> length rs")
    case True
    have "zip rs (map Inr fs @ ys) = zip rs (map Inr fs) @ zip (drop (length fs) rs) ys" for ys :: "(peer_error + bytes) list"
      using zip_take_length [of "map Inr fs" rs] by (simp add: zip_append2)
    moreover have "zip (drop (length fs) rs) (map Inr gs @ replicate (length rs) (Inl e)) =
        zip (drop (length fs) rs) (map Inr gs @ replicate (length (drop (length fs) rs)) (Inl e))"
      by (rule zip_pad) simp_all
    ultimately show ?thesis using True by (simp only: p(2) map_append append_assoc append_Nil drop_all list.map)
  next
    case False
    then show ?thesis using p(2) by (simp add: zip_append2)
  qed
  have tail: "drop (length (drop (length fs) rs)) (drop (length rs) fs @ gs) = drop (length rs) (fs @ gs)"
    by (cases "length fs \<le> length rs") simp_all
  show ?thesis using z a'(2) assms(2) tail unfolding gs_def [symmetric] r_def [symmetric] push by (auto simp: refused_inv_def)
qed

lemma refused_run:
  assumes "refused_inv m e fs rs (out, t)"
  shows "refused_inv m e fs (rs @ readers es) (let (o1, t1) = stream_run m es t in (out @ o1, t1))"
  using assms
proof (induction es arbitrary: rs out t)
  case (Cons ev es)
  define st where "st = (let (o1, t1) = stream_step m ev t in (out @ o1, t1))"
  have "refused_inv m e fs (rs @ readers [ev]) st"
    using refused_push [OF Cons.prems] refused_read [OF Cons.prems] by (cases ev) (simp_all add: st_def)
  then have "refused_inv m e fs ((rs @ readers [ev]) @ readers es) (let (o1, t1) = stream_run m es (snd st) in (fst st @ o1, t1))"
    using Cons.IH [of "rs @ readers [ev]" "fst st" "snd st"] by simp
  moreover have "readers (ev # es) = readers [ev] @ readers es" by (cases ev) simp_all
  ultimately show ?case by (simp add: st_def case_prod_unfold Let_def)
qed simp

lemma bad_header: "m < n \<Longrightarrow> n < 2 ^ 32 \<Longrightarrow> tryReadPrefixed (u32Be n @ tail) m = Inl (FrameTooLarge n m)"
  using readU32Be_u32Be [of n tail] by (simp add: tryReadPrefixed_def)

lemma all_frames_stream_rest:
  "list_all (frame_ok m) fs \<Longrightarrow> tryReadPrefixed s m = Inl e \<or> tryReadPrefixed s m = Inr None \<Longrightarrow> all_frames m (concat (map framed fs) @ s) = (fs, s)"
proof (induction fs)
  case Nil
  then show ?case using all_frames_step(2) all_frames_stuck by auto
next
  case (Cons f fs)
  then show ?case using all_frames_step(1) [OF tryRead_framed, of m f "concat (map framed fs) @ s"] by simp
qed

text \<open>Before the header is complete the stream looks like one of good frames.\<close>

lemma header_prefix_clean:
  assumes "list_all (frame_ok m) fs" "s @ x = concat (map framed fs) @ u32Be n @ tail" "length s < length (concat (map framed fs)) + 4"
  shows "tryReadPrefixed (snd (all_frames m s)) m = Inr None"
proof (cases "length s \<le> length (concat (map framed fs))")
  case True
  then have "s @ drop (length s) (concat (map framed fs)) = concat (map framed fs)"
    using assms(2) by (metis append_eq_append_conv_if append_take_drop_id)
  then show ?thesis using stream_prefix_clean assms(1) by blast
next
  case False
  then obtain h where h: "s = concat (map framed fs) @ h" using assms(2) by (auto simp: append_eq_append_conv2 dest: arg_cong [of _ _ length])
  then have "tryReadPrefixed h m = Inr None" using assms(3) by (simp add: tryReadPrefixed_def)
  then show ?thesis using all_frames_stream_rest [OF assms(1)] h by simp
qed

lemma push_reaching:
  "0 < k \<Longrightarrow> k \<le> length (received es) \<Longrightarrow>
     \<exists>before chunk later. es = before @ Push chunk # later \<and> length (received before) < k \<and> k \<le> length (received before @ chunk)"
proof (induction es rule: rev_induct)
  case (snoc e es)
  show ?case
  proof (cases "k \<le> length (received es)")
    case True
    then show ?thesis using snoc.IH [OF snoc.prems(1)] by fastforce
  next
    case False
    then show ?thesis using snoc.prems(2) by (cases e) (force intro: exI [of _ es])+
  qed
qed simp

text \<open>
  C37. A stream of good frames is followed by a frame whose header announces more than the readers' limit. However the bytes are cut
  into chunks and however the reads are interleaved with their arrival, the readers get the good frames in order, and every reader
  after them is refused with the announced length, the ones that were waiting and the ones that come later: as soon as the four bytes
  of the header are there, whatever follows it and however little of the frame has arrived. Nobody waits for the announced body, and
  no byte after the header is ever taken for a frame.
\<close>

theorem oversize_frames_refused:
  assumes "list_all (frame_ok m) frames" "m < n" "n < 2 ^ 32" "received es = concat (map framed frames) @ u32Be n @ tail"
  shows "fst (stream_run m es createStreamTransport) =
      zip (readers es) (map Inr frames @ replicate (length (readers es)) (Inl (FrameTooLarge n m))) \<and>
    tr_pending (snd (stream_run m es createStreamTransport)) = []"
proof -
  let ?k = "length (concat (map framed frames)) + 4"
  have "?k \<le> length (received es)" using assms(4) by simp
  then obtain before chunk later where es: "es = before @ Push chunk # later" "length (received before) < ?k" "?k \<le> length (received before @ chunk)"
    using push_reaching [of ?k es] by auto
  obtain out t where run: "stream_run m before createStreamTransport = (out, t)" by (cases "stream_run m before createStreamTransport")
  have clean: "tryReadPrefixed (snd (all_frames m s)) m = Inr None" if "s @ x = received before" for s x
  proof (rule header_prefix_clean [OF assms(1)])
    show "s @ (x @ chunk @ received later) = concat (map framed frames) @ u32Be n @ tail"
      using assms(4) es(1) by (simp add: that [symmetric])
    show "length s < ?k" using es(2) by (simp add: that [symmetric])
  qed
  have inv: "stream_inv m (fst (all_frames m (received before))) (snd (all_frames m (received before))) (readers before) (out, t)"
    using stream_run_clean [OF clean, of before] run by simp
  have "take ?k (received before @ chunk) = concat (map framed frames) @ u32Be n"
    using arg_cong [OF assms(4), of "take ?k"] es(1,3) by simp
  then obtain h where h: "received before @ chunk = concat (map framed frames) @ u32Be n @ h" by (metis append_assoc append_take_drop_id)
  have bad: "tryReadPrefixed (u32Be n @ h) m = Inl (FrameTooLarge n m)" by (rule bad_header [OF assms(2,3)])
  have all: "all_frames m (received before @ chunk) = (frames, u32Be n @ h)" using all_frames_stream_rest [OF assms(1)] bad h by simp
  note app = all_frames_append [of m "received before" chunk, unfolded all]
  have "refused_inv m (FrameTooLarge n m) frames (readers before) (let (o1, t1) = tr_push chunk t in (out @ o1, t1))"
    using refused_start [OF inv, of chunk "FrameTooLarge n m"] app bad by simp
  then have "refused_inv m (FrameTooLarge n m) frames (readers es) (stream_run m es createStreamTransport)"
    using refused_run [of m "FrameTooLarge n m" frames "readers before" "out @ fst (tr_push chunk t)" "snd (tr_push chunk t)" later] es(1)
    by (simp add: stream_run_append run case_prod_unfold Let_def)
  then show ?thesis by (simp add: refused_inv_def)
qed

theorem oversize_frames_refused_witness:
  "fst (stream_run 10 [Read 0, Push [0, 0, 0, 1, 7, 0], Read 1, Push [0, 1, 0, 5], Read 2] createStreamTransport) =
     [(0, Inr [7]), (1, Inl (FrameTooLarge 256 10)), (2, Inl (FrameTooLarge 256 10))]"
  using oversize_frames_refused [of 10 "[[7]]" 256 "[Read 0, Push [0, 0, 0, 1, 7, 0], Read 1, Push [0, 1, 0, 5], Read 2]" "[5]"]
  by (simp add: frame_ok_def framed_samples numeral_3_eq_3)

text \<open>A reader that waits when the connection closes in the middle of a frame is never settled.\<close>

lemma close_mid_frame_hangs:
  "stream_run 10 [Read 0, Push [0, 0]] createStreamTransport = ([], t) \<Longrightarrow> tr_close t = ([], t\<lparr>tr_closed := True\<rparr>) \<and> tr_pending t = [(0, 10)]"
  by (auto simp: createStreamTransport_def readPrefixed_def nextFrame_def new_assembler_def tryReadPrefixed_def tr_push_def ba_push_def
      tr_close_def settle_def)

section \<open>Wire frames read back\<close>

definition message_frame :: "string \<Rightarrow> int \<Rightarrow> jsv \<Rightarrow> jsv" where
  "message_frame messageId sentAtMs payload =
     Obj [(''type'', Str ''message''), (''messageId'', Str messageId), (''sentAtMs'', JInt sentAtMs), (''payload'', payload)]"

lemma plain_JInt: "\<bar>k\<bar> \<le> 2 ^ 53 \<Longrightarrow> json_plain (JInt k)"
proof -
  assume "\<bar>k\<bar> \<le> 2 ^ 53"
  then have "of_int \<bar>k\<bar> \<le> (of_int (2 ^ 53) :: rat)" by (simp only: of_int_le_iff)
  then show ?thesis by simp
qed

lemma wire_message_roundtrip:
  assumes "json_plain payload" "length i \<le> 128" "\<bar>k\<bar> \<le> 2 ^ 53" "encodeWireFrame (message_frame i k payload) m = Inr bs"
  shows "decodeWireFrame bs m = Inr (message_frame i k payload)"
proof -
  let ?j = "Obj [(''type'', Str ''message''), (''message_id'', Str i), (''sent_at_ms'', JInt k), (''payload'', payload)]"
  have "json_plain ?j" using assms(1) plain_JInt [OF assms(3)] by (simp del: json_plain.simps(3))
  moreover have "wireFrameJson (message_frame i k payload) = Inr ?j"
    by (simp add: wireFrameJson_def message_frame_def js_coalesce_def)
  ultimately have "parse_json bs = Some ?j" "length bs \<le> m"
    using assms(4) by (auto simp: encodeWireFrame_def simp del: json_plain.simps split: if_splits)
  then show ?thesis using assms(2) by (simp add: decodeWireFrame_def message_frame_def js_coalesce_def field_length_def Let_def)
qed

end
