(* ===== verification/Peer_Records.thy ===== *)
theory Peer_Records
  imports Peer_Frames
begin

text \<open>
  The encrypted records of a peer connection, \<open>peerProtocol/records.js\<close>, and the keys of an identity,
  \<open>peerProtocol/identity.js\<close>. The cryptographic primitives come from the \<open>@noble\<close> packages; they are the record
  \<open>crypto\<close> of functions every definition takes, and what is relied on of them are the predicates
  \<open>aead_laws\<close>, \<open>dh_laws\<close> and \<open>sign_laws\<close>. The random source is an argument.
\<close>

record crypto =
  cr_sha256 :: "bytes \<Rightarrow> bytes"
  cr_hkdf :: "bytes \<Rightarrow> bytes \<Rightarrow> bytes \<Rightarrow> nat \<Rightarrow> bytes"
  cr_seal :: "bytes \<Rightarrow> bytes \<Rightarrow> bytes \<Rightarrow> bytes \<Rightarrow> bytes"
  cr_open :: "bytes \<Rightarrow> bytes \<Rightarrow> bytes \<Rightarrow> bytes \<Rightarrow> bytes option"
  cr_x25519_public :: "bytes \<Rightarrow> bytes"
  cr_x25519_shared :: "bytes \<Rightarrow> bytes \<Rightarrow> bytes option"
  cr_ed_public :: "bytes \<Rightarrow> bytes"
  cr_ed_sign :: "bytes \<Rightarrow> bytes \<Rightarrow> bytes"
  cr_ed_verify :: "bytes \<Rightarrow> bytes \<Rightarrow> bytes \<Rightarrow> bool"

text \<open>
  ChaCha20-Poly1305: opening inverts sealing, the tag adds sixteen bytes, and what opens to \<open>p\<close> is the one sealing of \<open>p\<close>
  under that key, nonce and associated data.
\<close>

definition aead_laws :: "crypto \<Rightarrow> bool" where
  "aead_laws c \<longleftrightarrow>
     (\<forall>k n a p. cr_open c k n a (cr_seal c k n a p) = Some p \<and> length (cr_seal c k n a p) = length p + 16) \<and>
     (\<forall>k n a x p. cr_open c k n a x = Some p \<longrightarrow> x = cr_seal c k n a p)"

text \<open>X25519: both ends of an exchange get the same secret, public keys have 32 bytes.\<close>

definition dh_laws :: "crypto \<Rightarrow> bool" where
  "dh_laws c \<longleftrightarrow>
     (\<forall>s t. cr_x25519_shared c s (cr_x25519_public c t) = cr_x25519_shared c t (cr_x25519_public c s)) \<and>
     (\<forall>s. length (cr_x25519_public c s) = 32)"

text \<open>Ed25519: a signature verifies under the public key of its seed; keys have 32 bytes, signatures 64.\<close>

definition sign_laws :: "crypto \<Rightarrow> bool" where
  "sign_laws c \<longleftrightarrow>
     (\<forall>seed m. cr_ed_verify c (cr_ed_sign c m seed) m (cr_ed_public c seed) \<and> length (cr_ed_sign c m seed) = 64) \<and>
     (\<forall>seed. length (cr_ed_public c seed) = 32)"

section \<open>Constants\<close>

definition PROTOCOL_VERSION :: int where "PROTOCOL_VERSION = 2"
definition HANDSHAKE_MAGIC :: string where "HANDSHAKE_MAGIC = ''BLUETALK_SECURE_SESSION''"
definition HANDSHAKE_ENVELOPE_VERSION :: int where "HANDSHAKE_ENVELOPE_VERSION = 1"
definition MAX_HANDSHAKE_BYTES :: nat where "MAX_HANDSHAKE_BYTES = 64 * 1024"
definition MAX_HANDSHAKE_CLOCK_SKEW_MS :: rat where "MAX_HANDSHAKE_CLOCK_SKEW_MS = 5 * 60 * 1000"
definition MAX_FRAME_BYTES :: nat where "MAX_FRAME_BYTES = 8 * 1024 * 1024"
definition CLIENT_SIGNATURE_DOMAIN :: bytes where "CLIENT_SIGNATURE_DOMAIN = utf8 (''BlueTalk/v2/client-hello'' @ [CHR 0x00])"
definition SERVER_SIGNATURE_DOMAIN :: bytes where "SERVER_SIGNATURE_DOMAIN = utf8 (''BlueTalk/v2/server-hello'' @ [CHR 0x00])"
definition RECORD_AAD_DOMAIN :: bytes where "RECORD_AAD_DOMAIN = utf8 (''BlueTalk/v2/record'' @ [CHR 0x00])"
definition TRANSCRIPT_DOMAIN :: bytes where "TRANSCRIPT_DOMAIN = utf8 (''BlueTalk/v2/transcript/1'' @ [CHR 0x00])"
definition SESSION_KDF_INFO :: bytes where "SESSION_KDF_INFO = utf8 ''BlueTalk/v2/session-keys/1''"

section \<open>Identities\<close>

record identity =
  id_seed :: bytes
  id_publicKey :: bytes
  id_peerId :: string
  id_publicKeyB64 :: string
  id_seedB64 :: string

definition peerIdForPublicKey :: "crypto \<Rightarrow> bytes \<Rightarrow> string" where
  "peerIdForPublicKey c publicKey = ''bt2_'' @ bytesToHex (cr_sha256 c publicKey)"

definition identityFromSeed :: "crypto \<Rightarrow> bytes \<Rightarrow> peer_error + identity" where
  "identityFromSeed c seed =
     (if length seed \<noteq> 32 then Inl SeedLength
      else let publicKey = cr_ed_public c seed
           in Inr \<lparr>id_seed = seed, id_publicKey = publicKey, id_peerId = peerIdForPublicKey c publicKey,
                id_publicKeyB64 = bytesToB64 publicKey, id_seedB64 = bytesToB64 seed\<rparr>)"

definition id_sign :: "crypto \<Rightarrow> identity \<Rightarrow> bytes \<Rightarrow> bytes" where
  "id_sign c i message = cr_ed_sign c message (id_seed i)"

definition signRelayAuth :: "crypto \<Rightarrow> identity \<Rightarrow> string \<Rightarrow> string \<Rightarrow> bytes" where
  "signRelayAuth c i nonce host =
     id_sign c i (utf8 (''bluetalk-relay-auth-v1'' @ [CHR 0x0A] @ nonce @ [CHR 0x0A] @ host))"

definition verifySignature :: "crypto \<Rightarrow> bytes \<Rightarrow> bytes \<Rightarrow> bytes \<Rightarrow> bool" where
  "verifySignature c publicKey message signature = cr_ed_verify c signature message publicKey"

definition decodeB64Array :: "jsv \<Rightarrow> nat \<Rightarrow> string \<Rightarrow> peer_error + bytes" where
  "decodeB64Array encoded expected label =
     (case b64ToBytes encoded of
        Inl e \<Rightarrow> Inl e
      | Inr v \<Rightarrow> if length v \<noteq> expected then Inl (InvalidKeyLength label (length v) expected) else Inr v)"

section \<open>Session keys\<close>

definition ephemeralFromSeed :: "crypto \<Rightarrow> bytes \<Rightarrow> peer_error + bytes \<times> bytes" where
  "ephemeralFromSeed c seed = (if length seed \<noteq> 32 then Inl SeedLength else Inr (seed, cr_x25519_public c seed))"

definition sharedSecret :: "crypto \<Rightarrow> bytes \<Rightarrow> bytes \<Rightarrow> peer_error + bytes" where
  "sharedSecret c secret peerPublic =
     (case cr_x25519_shared c secret peerPublic of
        None \<Rightarrow> Inl LowOrderKey
      | Some s \<Rightarrow> if list_all (\<lambda>b. b = 0) s then Inl LowOrderKey else Inr s)"

definition transcript_input :: "bytes \<Rightarrow> bytes \<Rightarrow> bytes" where
  "transcript_input clientBytes serverBytes =
     concatBytes [TRANSCRIPT_DOMAIN, u64Be (length clientBytes), clientBytes, u64Be (length serverBytes), serverBytes]"

definition transcriptHash :: "crypto \<Rightarrow> bytes \<Rightarrow> bytes \<Rightarrow> bytes" where
  "transcriptHash c clientBytes serverBytes = cr_sha256 c (transcript_input clientBytes serverBytes)"

text \<open>\<open>SendCipher\<close> and \<open>ReceiveCipher\<close> have the same fields.\<close>

record record_cipher =
  rc_key :: bytes
  rc_noncePrefix :: bytes
  rc_transcriptHash :: bytes
  rc_maxPlaintextBytes :: nat
  rc_nextSequence :: nat

definition new_cipher :: "bytes \<Rightarrow> bytes \<Rightarrow> bytes \<Rightarrow> nat \<Rightarrow> record_cipher" where
  "new_cipher key noncePrefix transcript maxPlaintextBytes =
     \<lparr>rc_key = key, rc_noncePrefix = noncePrefix, rc_transcriptHash = transcript,
      rc_maxPlaintextBytes = maxPlaintextBytes, rc_nextSequence = 0\<rparr>"

definition deriveSessionCiphers :: "crypto \<Rightarrow> bytes \<Rightarrow> bytes \<Rightarrow> bool \<Rightarrow> nat \<Rightarrow> record_cipher \<times> record_cipher" where
  "deriveSessionCiphers c shared transcript initiator maxPlaintextBytes =
     (let material = cr_hkdf c shared transcript SESSION_KDF_INFO 72;
          initiatorKey = take 32 material; responderKey = take 32 (drop 32 material);
          initiatorPrefix = take 4 (drop 64 material); responderPrefix = take 4 (drop 68 material);
          sendKey = (if initiator then initiatorKey else responderKey);
          receiveKey = (if initiator then responderKey else initiatorKey);
          sendPrefix = (if initiator then initiatorPrefix else responderPrefix);
          receivePrefix = (if initiator then responderPrefix else initiatorPrefix)
      in (new_cipher sendKey sendPrefix transcript maxPlaintextBytes,
          new_cipher receiveKey receivePrefix transcript maxPlaintextBytes))"

section \<open>Records\<close>

definition makeNonce :: "bytes \<Rightarrow> nat \<Rightarrow> bytes" where
  "makeNonce prefix sequence = concatBytes [prefix, u64Be sequence]"

definition makeAad :: "bytes \<Rightarrow> nat \<Rightarrow> bytes" where
  "makeAad transcript sequence = concatBytes [RECORD_AAD_DOMAIN, transcript, u64Be sequence]"

definition seal_record :: "crypto \<Rightarrow> record_cipher \<Rightarrow> bytes \<Rightarrow> bytes" where
  "seal_record c s plaintext =
     u64Be (rc_nextSequence s) @ cr_seal c (rc_key s) (makeNonce (rc_noncePrefix s) (rc_nextSequence s))
       (makeAad (rc_transcriptHash s) (rc_nextSequence s)) plaintext"

definition encrypt :: "crypto \<Rightarrow> record_cipher \<Rightarrow> bytes \<Rightarrow> peer_error + bytes \<times> record_cipher" where
  "encrypt c s plaintext =
     (if length plaintext > rc_maxPlaintextBytes s then Inl (FrameTooLarge (length plaintext) (rc_maxPlaintextBytes s))
      else if rc_nextSequence s = 0xffffffffffffffff then Inl SequenceExhausted
      else Inr (seal_record c s plaintext, s\<lparr>rc_nextSequence := rc_nextSequence s + 1\<rparr>))"

definition maximumRecordBytes :: "record_cipher \<Rightarrow> nat" where
  "maximumRecordBytes r = rc_maxPlaintextBytes r + 8 + 16"

definition decrypt :: "crypto \<Rightarrow> record_cipher \<Rightarrow> bytes \<Rightarrow> peer_error + bytes \<times> record_cipher" where
  "decrypt c r rec =
     (if length rec < 8 + 16 then Inl ShortRecord
      else if length rec > rc_maxPlaintextBytes r + 8 + 16 then Inl (FrameTooLarge (length rec - 8 - 16) (rc_maxPlaintextBytes r))
      else let seq = readU64Be rec
           in if seq \<noteq> rc_nextSequence r then Inl (UnexpectedSequence seq (rc_nextSequence r))
              else case cr_open c (rc_key r) (makeNonce (rc_noncePrefix r) seq) (makeAad (rc_transcriptHash r) seq) (drop 8 rec) of
                  None \<Rightarrow> Inl DecryptFailed
                | Some plaintext \<Rightarrow> Inr (plaintext, r\<lparr>rc_nextSequence := rc_nextSequence r + 1\<rparr>))"

section \<open>The channel of records\<close>

fun encrypt_all :: "crypto \<Rightarrow> record_cipher \<Rightarrow> bytes list \<Rightarrow> peer_error + bytes list \<times> record_cipher" where
  "encrypt_all c s [] = Inr ([], s)"
| "encrypt_all c s (p # ps) =
     (case encrypt c s p of
        Inl e \<Rightarrow> Inl e
      | Inr (x, s') \<Rightarrow> (case encrypt_all c s' ps of Inl e \<Rightarrow> Inl e | Inr (xs, s'') \<Rightarrow> Inr (x # xs, s'')))"

text \<open>What a receiver accepts of the records somebody feeds it; refused ones leave it as it is.\<close>

fun accept_all :: "crypto \<Rightarrow> record_cipher \<Rightarrow> bytes list \<Rightarrow> (bytes \<times> bytes) list" where
  "accept_all c r [] = []"
| "accept_all c r (x # xs) =
     (case decrypt c r x of
        Inl _ \<Rightarrow> accept_all c r xs
      | Inr (p, r') \<Rightarrow> (x, p) # accept_all c r' xs)"

lemma length_seal_record: "aead_laws c \<Longrightarrow> length (seal_record c s p) = length p + 24"
  by (simp add: aead_laws_def seal_record_def)

lemma header_seal_record:
  "readU64Be (seal_record c s p) = rc_nextSequence s mod 2 ^ 64" "take 8 (seal_record c s p) = u64Be (rc_nextSequence s)"
  using readU64Be_u64Be [of "rc_nextSequence s"] by (simp_all add: seal_record_def)

lemma decrypt_sealed:
  assumes "aead_laws c" "length p \<le> rc_maxPlaintextBytes s" "rc_nextSequence s < 2 ^ 64"
  shows "decrypt c s (seal_record c s p) = Inr (p, s\<lparr>rc_nextSequence := rc_nextSequence s + 1\<rparr>)"
proof -
  have "readU64Be (seal_record c s p) = rc_nextSequence s" using header_seal_record(1) [of c s p] assms(3) by (simp only: mod_less)
  moreover have "drop 8 (seal_record c s p) = cr_seal c (rc_key s) (makeNonce (rc_noncePrefix s) (rc_nextSequence s))
      (makeAad (rc_transcriptHash s) (rc_nextSequence s)) p" by (simp add: seal_record_def)
  moreover note length_seal_record [OF assms(1), of s p]
  ultimately show ?thesis using assms by (simp add: decrypt_def aead_laws_def)
qed

lemma decrypt_sound:
  assumes "aead_laws c" "decrypt c r x = Inr (p, r')"
  shows "x = seal_record c r p \<and> length p \<le> rc_maxPlaintextBytes r \<and> rc_nextSequence r < 2 ^ 64 \<and> r' = r\<lparr>rc_nextSequence := rc_nextSequence r + 1\<rparr>"
proof -
  let ?seq = "readU64Be x"
  have len: "24 \<le> length x" "length x \<le> rc_maxPlaintextBytes r + 24" and seq: "?seq = rc_nextSequence r" and r': "r' = r\<lparr>rc_nextSequence := rc_nextSequence r + 1\<rparr>"
    and op: "cr_open c (rc_key r) (makeNonce (rc_noncePrefix r) ?seq) (makeAad (rc_transcriptHash r) ?seq) (drop 8 x) = Some p"
    using assms(2) by (auto simp: decrypt_def Let_def split: if_splits option.splits)
  have d: "drop 8 x = cr_seal c (rc_key r) (makeNonce (rc_noncePrefix r) ?seq) (makeAad (rc_transcriptHash r) ?seq) p"
    using op assms(1) by (simp add: aead_laws_def)
  have take: "take 8 x = u64Be ?seq"
  proof -
    have "readU64Be x = readU64Be (take 8 x)" by (simp add: readU64Be_def take_drop)
    then show ?thesis using u64Be_readU64Be [of "take 8 x"] len by simp
  qed
  have "?seq < 2 ^ 64"
  proof -
    have "?seq = readU64Be (u64Be ?seq @ [])" using take by (simp add: readU64Be_def take_drop)
    then show ?thesis using readU64Be_u64Be [of ?seq "[]"] by (metis mod_less_divisor zero_less_numeral zero_less_power)
  qed
  moreover have "x = seal_record c r p" using d take append_take_drop_id [of 8 x] seq by (simp add: seal_record_def)
  moreover have "length p \<le> rc_maxPlaintextBytes r" using length_seal_record [OF assms(1), of r p] len \<open>x = seal_record c r p\<close> by simp
  ultimately show ?thesis using r' seq by simp
qed

lemma accept_all_sealed:
  assumes "aead_laws c" "rc_nextSequence s \<le> 2 ^ 64 - 1" "encrypt_all c s ps = Inr (xs, s')"
  shows "accept_all c s xs = zip xs ps \<and> length xs = length ps"
  using assms
proof (induction ps arbitrary: s xs)
  case (Cons p ps)
  obtain ys where enc: "encrypt c s p = Inr (seal_record c s p, s\<lparr>rc_nextSequence := rc_nextSequence s + 1\<rparr>)"
      "encrypt_all c (s\<lparr>rc_nextSequence := rc_nextSequence s + 1\<rparr>) ps = Inr (ys, s')" "xs = seal_record c s p # ys"
    and ok: "length p \<le> rc_maxPlaintextBytes s" "rc_nextSequence s \<noteq> 2 ^ 64 - 1"
    using Cons.prems(3) by (auto simp: encrypt_def split: sum.splits if_splits)
  have "rc_nextSequence s < 2 ^ 64" using Cons.prems(2) by simp
  then show ?case using Cons.IH [OF assms(1) _ enc(2)] decrypt_sealed [OF assms(1) ok(1)] Cons.prems(2) ok(2) enc(3) by simp
qed simp

lemma accept_all_authentic:
  assumes "aead_laws c"
  shows "map fst (accept_all c r xs) =
    map (\<lambda>(i, p). seal_record c (r\<lparr>rc_nextSequence := rc_nextSequence r + i\<rparr>) p) (List.enumerate 0 (map snd (accept_all c r xs)))"
proof (induction xs arbitrary: r)
  case (Cons x xs)
  show ?case
  proof (cases "decrypt c r x")
    case (Inr q)
    obtain p r' where q: "q = (p, r')" by (cases q)
    note sound = decrypt_sound [OF assms Inr [unfolded q]]
    have "List.enumerate (Suc 0) ys = map (\<lambda>(i, y). (Suc i, y)) (List.enumerate 0 ys)" for ys :: "bytes list"
      by (simp add: enumerate_Suc_eq apfst_def map_prod_def)
    then show ?thesis using Cons.IH [of r'] Inr q sound by (simp add: case_prod_unfold comp_def)
  qed (use Cons.IH in simp)
qed simp

text \<open>
  The two ends of a session have matching ciphers, and a record channel delivers: what one end encrypts, in order and up to
  the exhaustion of the sequence numbers, the other end decrypts to the same plaintexts in the same order.
\<close>

theorem record_channel_delivers:
  assumes "aead_laws c" "encrypt_all c (fst (deriveSessionCiphers c shared transcript initiator m)) ps = Inr (xs, s')"
  shows "accept_all c (snd (deriveSessionCiphers c shared transcript (\<not> initiator) m)) xs = zip xs ps \<and> length xs = length ps"
proof -
  have "snd (deriveSessionCiphers c shared transcript (\<not> initiator) m) = fst (deriveSessionCiphers c shared transcript initiator m)"
    "rc_nextSequence (fst (deriveSessionCiphers c shared transcript initiator m)) = 0"
    by (simp_all add: deriveSessionCiphers_def new_cipher_def Let_def)
  then show ?thesis using accept_all_sealed [OF assms(1) _ assms(2)] by simp
qed

text \<open>
  C35. Nobody without the key can inject, repeat, reorder or drop: whatever records an attacker feeds to a receiver, the
  accepted ones are exactly the sealings of the accepted plaintexts under consecutive sequence numbers, starting at the
  receiver's; in particular no record is accepted twice.
\<close>

theorem record_channel_authentic:
  assumes "aead_laws c"
  shows "map fst (accept_all c r xs) =
      map (\<lambda>(i, p). seal_record c (r\<lparr>rc_nextSequence := rc_nextSequence r + i\<rparr>) p) (List.enumerate 0 (map snd (accept_all c r xs))) \<and>
    distinct (map fst (accept_all c r xs))"
proof -
  have seqs: "map (readU64Be \<circ> fst) (accept_all c r xs) = [rc_nextSequence r ..< rc_nextSequence r + length (accept_all c r xs)]"
  proof (induction xs arbitrary: r)
    case (Cons x xs)
    show ?case
    proof (cases "decrypt c r x")
      case (Inr q)
      obtain p r' where q: "q = (p, r')" by (cases q)
      have "readU64Be x = rc_nextSequence r" "rc_nextSequence r' = Suc (rc_nextSequence r)"
        using Inr q by (auto simp: decrypt_def Let_def split: if_splits option.splits)
      then show ?thesis using Cons.IH [of r'] Inr q by (simp add: upt_rec)
    qed (use Cons.IH in simp)
  qed simp
  have "distinct (map readU64Be (map fst (accept_all c r xs)))" using seqs by (metis distinct_upt map_map)
  then have "distinct (map fst (accept_all c r xs))" by (simp only: distinct_map)
  then show ?thesis using accept_all_authentic [OF assms] by blast
qed

text \<open>The nonce of the \<open>i\<close>-th record that a cipher in the state \<open>s\<close> is about to seal.\<close>

definition nonce_at :: "record_cipher \<Rightarrow> nat \<Rightarrow> bytes" where
  "nonce_at s i = rc_noncePrefix s @ u64Be (rc_nextSequence s + i)"

lemma encrypt_all_sealed:
  assumes "rc_nextSequence s < 2 ^ 64" "encrypt_all c s ps = Inr (xs, s')"
  shows "map (drop 8) xs = map (\<lambda>(i, p). cr_seal c (rc_key s) (nonce_at s i) (makeAad (rc_transcriptHash s) (rc_nextSequence s + i)) p) (List.enumerate 0 ps) \<and>
    rc_nextSequence s + length ps < 2 ^ 64"
  using assms
proof (induction ps arbitrary: s xs)
  case (Cons p ps)
  let ?s = "s\<lparr>rc_nextSequence := rc_nextSequence s + 1\<rparr>"
  obtain ys where enc: "encrypt_all c ?s ps = Inr (ys, s')" "xs = seal_record c s p # ys" and ne: "rc_nextSequence s \<noteq> 2 ^ 64 - 1"
    using Cons.prems(2) by (auto simp: encrypt_def split: sum.splits if_splits)
  have "rc_nextSequence ?s < 2 ^ 64" using Cons.prems(1) ne by simp
  note IH = Cons.IH [OF this enc(1)]
  have "List.enumerate (Suc 0) ps = map (\<lambda>(i, p). (Suc i, p)) (List.enumerate 0 ps)"
    by (simp add: enumerate_Suc_eq apfst_def map_prod_def)
  then show ?case using IH enc(2) by (simp add: seal_record_def makeNonce_def concatBytes_def nonce_at_def comp_def case_prod_unfold)
qed simp

text \<open>
  C36. A key never seals two records under the same nonce. The record after the sequence number is, for each plaintext in turn, what
  the AEAD returns for the cipher's key, a nonce and the plaintext; those nonces are pairwise different, because the cipher refuses
  to encrypt when its sequence numbers are exhausted.
\<close>

theorem nonces_never_repeat:
  assumes "rc_nextSequence s < 2 ^ 64" "encrypt_all c s ps = Inr (xs, s')"
  shows "map (drop 8) xs =
      map (\<lambda>(i, p). cr_seal c (rc_key s) (nonce_at s i) (makeAad (rc_transcriptHash s) (rc_nextSequence s + i)) p) (List.enumerate 0 ps) \<and>
    distinct (map (nonce_at s) [0..<length ps])"
proof -
  note sealed = encrypt_all_sealed [OF assms]
  have "inj_on (nonce_at s) (set [0..<length ps])"
    using sealed by (intro inj_onI) (auto simp: nonce_at_def dest!: u64Be_inj)
  then show ?thesis using sealed by (simp add: distinct_map)
qed

text \<open>
  The transcript a session is bound to determines both hellos: different pairs of hellos give different inputs of the hash.
\<close>

theorem transcript_injective:
  assumes "length cb < 2 ^ 64" "length cb' < 2 ^ 64" "transcript_input cb sb = transcript_input cb' sb'"
  shows "cb = cb' \<and> sb = sb'"
proof -
  have e: "u64Be (length cb) @ cb @ u64Be (length sb) @ sb = u64Be (length cb') @ cb' @ u64Be (length sb') @ sb'"
    using assms(3) by (simp add: transcript_input_def concatBytes_def)
  then have "length cb = length cb'" using u64Be_inj [OF _ assms(1,2)] by simp
  then show ?thesis using e by simp
qed

section \<open>An instance of the primitives\<close>

text \<open>Functions that satisfy the laws, to evaluate the definitions on.\<close>

definition sample_crypto :: crypto where
  "sample_crypto = \<lparr>cr_sha256 = (\<lambda>m. take 32 (m @ replicate 32 0)), cr_hkdf = (\<lambda>_ _ _ n. replicate n 3),
     cr_seal = (\<lambda>_ _ _ p. p @ replicate 16 0),
     cr_open = (\<lambda>_ _ _ x. if 16 \<le> length x \<and> drop (length x - 16) x = replicate 16 0 then Some (take (length x - 16) x) else None),
     cr_x25519_public = (\<lambda>s. take 32 (s @ replicate 32 0)), cr_x25519_shared = (\<lambda>_ _. Some [1]),
     cr_ed_public = (\<lambda>s. take 32 (s @ replicate 32 0)), cr_ed_sign = (\<lambda>_ _. replicate 64 5), cr_ed_verify = (\<lambda>_ _ _. True)\<rparr>"

lemma sample_crypto_laws: "aead_laws sample_crypto" "dh_laws sample_crypto" "sign_laws sample_crypto"
proof -
  have "x = take (length x - 16) x @ replicate 16 0" if "drop (length x - 16) x = replicate 16 0" for x :: bytes
    using that by (metis append_take_drop_id)
  then show "aead_laws sample_crypto" by (auto simp: aead_laws_def sample_crypto_def split: if_splits)
qed (auto simp: sample_crypto_def dh_laws_def sign_laws_def min_def)

abbreviation sample_sender :: record_cipher where
  "sample_sender \<equiv> fst (deriveSessionCiphers sample_crypto [] [] True 100)"

lemma sample_encrypt_all:
  "encrypt_all sample_crypto sample_sender [[1, 2], [3]] =
     Inr ([u64Be 0 @ [1, 2] @ replicate 16 0, u64Be 1 @ [3] @ replicate 16 0], sample_sender\<lparr>rc_nextSequence := 2\<rparr>)"
  by (simp add: encrypt_def seal_record_def deriveSessionCiphers_def new_cipher_def Let_def sample_crypto_def)

theorem record_channel_delivers_witness:
  "accept_all sample_crypto (snd (deriveSessionCiphers sample_crypto [] [] (\<not> True) 100))
     [u64Be 0 @ [1, 2] @ replicate 16 0, u64Be 1 @ [3] @ replicate 16 0] =
   zip [u64Be 0 @ [1, 2] @ replicate 16 0, u64Be 1 @ [3] @ replicate 16 0] [[1, 2], [3]] \<and>
   length [u64Be 0 @ [1, 2] @ replicate 16 0, u64Be 1 @ [3] @ replicate 16 0] = length [[1, 2 :: byte], [3]]"
  by (rule record_channel_delivers [OF sample_crypto_laws(1) sample_encrypt_all])

theorem record_channel_authentic_witness:
  "distinct (map fst (accept_all sample_crypto sample_sender
     [u64Be 0 @ [1, 2] @ replicate 16 0, u64Be 0 @ [1, 2] @ replicate 16 0, u64Be 1 @ [3] @ replicate 16 0]))"
  using record_channel_authentic [OF sample_crypto_laws(1)] by blast

theorem nonces_never_repeat_witness:
  "nonce_at sample_sender 0 \<noteq> nonce_at sample_sender 1"
  using nonces_never_repeat [OF _ sample_encrypt_all] by (simp add: deriveSessionCiphers_def new_cipher_def Let_def numeral_2_eq_2 upt_rec)

theorem transcript_injective_witness: "transcript_input [1] [2] \<noteq> transcript_input [1, 2] []"
  using transcript_injective [of "[1]" "[1, 2]" "[2]" "[]"] by auto

end
