(* ===== verification/Peer_Handshake.thy ===== *)
theory Peer_Handshake
  imports Peer_Records
begin

text \<open>
  The handshake of a peer connection, \<open>peerProtocol/handshake.js\<close>. The two asynchronous functions are split where they
  wait for bytes of the peer:

  \<^item> \<open>initiatorHandshake\<close> is \<open>ih_hello\<close> (up to the first read), \<open>ih_server\<close> (from the server hello to the finished
    record it sends) and \<open>ih_finish\<close> (the finished record of the responder);
  \<^item> \<open>responderHandshake\<close> is \<open>rh_client\<close> and \<open>rh_finish\<close>.

  The clock, the ephemeral seed, the nonce and the time stamp are arguments; hellos are JSON values.
\<close>

section \<open>Hellos\<close>

definition hello_common :: "string \<Rightarrow> string \<Rightarrow> string \<Rightarrow> int \<Rightarrow> string \<Rightarrow> (string \<times> jsv) list" where
  "hello_common identityKey ephemeralKey displayName timestampMs nonce =
     [(''magic'', Str HANDSHAKE_MAGIC), (''envelopeVersion'', JInt HANDSHAKE_ENVELOPE_VERSION),
      (''protocolVersion'', JInt PROTOCOL_VERSION), (''timestampMs'', JInt timestampMs), (''nonce'', Str nonce),
      (''identityKey'', Str identityKey), (''ephemeralKey'', Str ephemeralKey), (''displayName'', Str displayName)]"

definition copy_fields :: "string list \<Rightarrow> jsv \<Rightarrow> jsv" where
  "copy_fields names hello = Obj (map (\<lambda>f. (f, get hello f)) names)"

definition client_fields :: "string list" where
  "client_fields = [''magic'', ''envelopeVersion'', ''protocolVersion'', ''timestampMs'', ''nonce'', ''identityKey'', ''ephemeralKey'', ''displayName'']"

definition clientSignatureInput :: "jsv \<Rightarrow> bytes" where
  "clientSignatureInput hello = concatBytes [CLIENT_SIGNATURE_DOMAIN, json_bytes (copy_fields client_fields hello)]"

definition serverSignatureInput :: "jsv \<Rightarrow> bytes" where
  "serverSignatureInput hello = concatBytes [SERVER_SIGNATURE_DOMAIN, json_bytes (copy_fields (client_fields @ [''clientHelloHash'']) hello)]"

definition makeClientHello :: "crypto \<Rightarrow> identity \<Rightarrow> string \<Rightarrow> int \<Rightarrow> string \<Rightarrow> bytes \<Rightarrow> jsv" where
  "makeClientHello c i displayName timestampMs nonceHex ephemeralPublic =
     (let common = hello_common (id_publicKeyB64 i) (bytesToB64 ephemeralPublic) displayName timestampMs nonceHex;
          hello = Obj (common @ [(''signature'', Str [])])
      in Obj (common @ [(''signature'', Str (bytesToB64 (id_sign c i (clientSignatureInput hello))))]))"

definition makeServerHello :: "crypto \<Rightarrow> identity \<Rightarrow> string \<Rightarrow> bytes \<Rightarrow> int \<Rightarrow> string \<Rightarrow> bytes \<Rightarrow> jsv" where
  "makeServerHello c i displayName clientBytes timestampMs nonceHex ephemeralPublic =
     (let common = hello_common (id_publicKeyB64 i) (bytesToB64 ephemeralPublic) displayName timestampMs nonceHex @
            [(''clientHelloHash'', Str (bytesToHex (cr_sha256 c clientBytes)))];
          hello = Obj (common @ [(''signature'', Str [])])
      in Obj (common @ [(''signature'', Str (bytesToB64 (id_sign c i (serverSignatureInput hello))))]))"

definition clientHelloBytes :: "jsv \<Rightarrow> bytes" where
  "clientHelloBytes hello = json_bytes hello"

definition serverHelloBytes :: "jsv \<Rightarrow> bytes" where
  "serverHelloBytes hello = json_bytes hello"

section \<open>Checks\<close>

text \<open>\<open>TextEncoder.encode\<close> of a value: \<open>undefined\<close> is the empty text.\<close>

definition name_bytes :: "jsv \<Rightarrow> bytes" where
  "name_bytes v = (if v = Undef then [] else utf8 (js_String v))"

definition validateDisplayName :: "jsv \<Rightarrow> bool" where
  "validateDisplayName v \<longleftrightarrow> \<not> (length (name_bytes v) = 0 \<or> length (name_bytes v) > 128)"

definition hexToLen :: "string \<Rightarrow> int" where
  "hexToLen hex = (if length hex mod 2 \<noteq> 0 then - 1 else if \<not> list_all (\<lambda>ch. parseInt16 [ch] \<noteq> None) hex then - 1 else int (length hex div 2))"

text \<open>\<open>Math.abs(now - Number(t)) > limit\<close> is false when \<open>Number(t)\<close> is \<open>NaN\<close>.\<close>

definition clock_skewed :: "rat \<Rightarrow> jsv \<Rightarrow> bool" where
  "clock_skewed now t = (case js_Number t of NaN \<Rightarrow> False | Fin r \<Rightarrow> \<bar>now - r\<bar> > MAX_HANDSHAKE_CLOCK_SKEW_MS | _ \<Rightarrow> True)"

definition validateCommonHello :: "rat \<Rightarrow> jsv \<Rightarrow> bool \<Rightarrow> peer_error + unit" where
  "validateCommonHello now hello checkClock =
     (let nonce = js_String (js_orv (get hello ''nonce'') (Str []))
      in if get hello ''magic'' \<noteq> Str HANDSHAKE_MAGIC then Inl (InvalidHello ''magic'')
         else if get hello ''envelopeVersion'' \<noteq> JInt HANDSHAKE_ENVELOPE_VERSION then Inl (InvalidHello ''envelope'')
         else if get hello ''protocolVersion'' \<noteq> JInt PROTOCOL_VERSION then Inl (InvalidHello ''protocol version'')
         else if checkClock \<and> clock_skewed now (get hello ''timestampMs'') then Inl (InvalidHello ''clock skew'')
         else if length nonce \<noteq> 64 \<or> hexToLen nonce \<noteq> 32 then Inl (InvalidHello ''nonce'')
         else if \<not> validateDisplayName (get hello ''displayName'') then Inl (InvalidHello ''display name'')
         else Inr ())"

definition parseHello :: "bytes \<Rightarrow> string \<Rightarrow> peer_error + jsv" where
  "parseHello bs label = (case parse_json bs of None \<Rightarrow> Inl (InvalidHello label) | Some v \<Rightarrow> Inr v)"

section \<open>Sessions\<close>

record session =
  se_remotePeerId :: string
  se_remoteDisplayName :: jsv
  se_connectionId :: string
  se_transcriptHash :: bytes
  se_send :: record_cipher
  se_receive :: record_cipher

definition bindS :: "'e + 'a \<Rightarrow> ('a \<Rightarrow> 'e + 'b) \<Rightarrow> 'e + 'b" where
  "bindS m f = (case m of Inl e \<Rightarrow> Inl e | Inr x \<Rightarrow> f x)"

definition guardS :: "bool \<Rightarrow> 'e \<Rightarrow> 'e + unit" where
  "guardS b e = (if b then Inr () else Inl e)"

lemma bindS_simps [simp]: "bindS (Inl e) f = Inl e" "bindS (Inr x) f = f x" "guardS True e = Inr ()" "guardS False e = Inl e"
  by (simp_all add: bindS_def guardS_def)

lemma bindS_Inr [simp]: "bindS m f = Inr y \<longleftrightarrow> (\<exists>x. m = Inr x \<and> f x = Inr y)"
  by (cases m) auto

lemma guardS_Inr [simp]: "guardS b e = Inr u \<longleftrightarrow> b"
  by (simp add: guardS_def)

definition establishFromHellos :: "crypto \<Rightarrow> bytes \<Rightarrow> bytes \<Rightarrow> bytes \<Rightarrow> bool \<Rightarrow> nat \<Rightarrow> peer_error + session" where
  "establishFromHellos c clientBytes serverBytes localSecret initiator maxFrameBytes =
     bindS (parseHello clientBytes ''client hello'') (\<lambda>client.
     bindS (parseHello serverBytes ''server hello'') (\<lambda>server.
     let remoteHello = (if initiator then server else client)
     in bindS (decodeB64Array (get remoteHello ''identityKey'') 32 (if initiator then ''server identity key'' else ''client identity key'')) (\<lambda>remoteIdentity.
        bindS (decodeB64Array (get remoteHello ''ephemeralKey'') 32 (if initiator then ''server ephemeral key'' else ''client ephemeral key'')) (\<lambda>remoteEph.
        bindS (sharedSecret c localSecret remoteEph) (\<lambda>shared.
        let transcript = transcriptHash c clientBytes serverBytes;
            ciphers = deriveSessionCiphers c shared transcript initiator maxFrameBytes
        in Inr \<lparr>se_remotePeerId = peerIdForPublicKey c remoteIdentity, se_remoteDisplayName = get remoteHello ''displayName'',
             se_connectionId = bytesToHex (take 16 transcript), se_transcriptHash = transcript,
             se_send = fst ciphers, se_receive = snd ciphers\<rparr>)))))"

section \<open>Finished records\<close>

definition finished_json :: "string \<Rightarrow> bytes \<Rightarrow> jsv" where
  "finished_json role transcript =
     Obj [(''marker'', Str ''finished''), (''role'', Str role), (''transcriptHash'', Str (bytesToHex transcript))]"

definition sendFinished :: "crypto \<Rightarrow> record_cipher \<Rightarrow> string \<Rightarrow> bytes \<Rightarrow> nat \<Rightarrow> peer_error + bytes \<times> record_cipher" where
  "sendFinished c sendCipher role transcript maxFrameBytes =
     bindS (encrypt c sendCipher (json_bytes (finished_json role transcript))) (\<lambda>(rec, cipher).
     bindS (encodePrefixed rec (maxFrameBytes + 8 + 16)) (\<lambda>out. Inr (out, cipher)))"

definition receiveFinished :: "crypto \<Rightarrow> record_cipher \<Rightarrow> string \<Rightarrow> bytes \<Rightarrow> bytes \<Rightarrow> peer_error + record_cipher" where
  "receiveFinished c receiveCipher expectedRole transcript rec =
     bindS (decrypt c receiveCipher rec) (\<lambda>(bs, cipher).
       case parse_json bs of
         None \<Rightarrow> Inl InvalidFinished
       | Some finished \<Rightarrow>
           if get finished ''marker'' \<noteq> Str ''finished'' \<or> get finished ''role'' \<noteq> Str expectedRole \<or>
              get finished ''transcriptHash'' \<noteq> Str (bytesToHex transcript)
           then Inl FinishedMismatch else Inr cipher)"

section \<open>The initiator\<close>

record initiator =
  in_clientBytes :: bytes
  in_secret :: bytes

definition ih_hello :: "crypto \<Rightarrow> identity \<Rightarrow> string \<Rightarrow> bytes \<Rightarrow> int \<Rightarrow> string \<Rightarrow> peer_error + initiator \<times> bytes" where
  "ih_hello c i displayName ephemeralSeed timestampMs nonceHex =
     bindS (guardS (validateDisplayName (Str displayName)) (InvalidHello ''display name'')) (\<lambda>_.
     bindS (ephemeralFromSeed c ephemeralSeed) (\<lambda>(secret, publicKey).
     let clientBytes = clientHelloBytes (makeClientHello c i displayName timestampMs nonceHex publicKey)
     in bindS (encodePrefixed clientBytes MAX_HANDSHAKE_BYTES) (\<lambda>out.
        Inr (\<lparr>in_clientBytes = clientBytes, in_secret = secret\<rparr>, out))))"

definition ih_server :: "crypto \<Rightarrow> rat \<Rightarrow> bool \<Rightarrow> string \<Rightarrow> nat \<Rightarrow> initiator \<Rightarrow> bytes \<Rightarrow> peer_error + session \<times> bytes" where
  "ih_server c now skipClockCheck expectedPeerId maxFrameBytes st serverBytes =
     bindS (parseHello serverBytes ''server hello'') (\<lambda>server.
     bindS (validateCommonHello now server (\<not> skipClockCheck)) (\<lambda>_.
     bindS (decodeB64Array (get server ''identityKey'') 32 ''server identity key'') (\<lambda>serverIdentity.
     bindS (decodeB64Array (get server ''ephemeralKey'') 32 ''server ephemeral key'') (\<lambda>_.
     bindS (decodeB64Array (get server ''signature'') 64 ''server signature'') (\<lambda>serverSig.
     bindS (guardS (get server ''clientHelloHash'' = Str (bytesToHex (cr_sha256 c (in_clientBytes st)))) NotBound) (\<lambda>_.
     bindS (guardS (verifySignature c serverIdentity (serverSignatureInput server) serverSig) (BadSignature ''server'')) (\<lambda>_.
     let remotePeerId = peerIdForPublicKey c serverIdentity
     in bindS (guardS (\<not> (expectedPeerId \<noteq> [] \<and> expectedPeerId \<noteq> remotePeerId)) (PeerMismatch expectedPeerId remotePeerId)) (\<lambda>_.
     bindS (establishFromHellos c (in_clientBytes st) serverBytes (in_secret st) True maxFrameBytes) (\<lambda>session.
     bindS (sendFinished c (se_send session) ''initiator'' (se_transcriptHash session) maxFrameBytes) (\<lambda>(out, cipher).
     Inr (session\<lparr>se_send := cipher\<rparr>, out)))))))))))"

definition ih_finish :: "crypto \<Rightarrow> session \<Rightarrow> bytes \<Rightarrow> peer_error + session" where
  "ih_finish c session rec =
     bindS (receiveFinished c (se_receive session) ''responder'' (se_transcriptHash session) rec) (\<lambda>cipher.
     Inr (session\<lparr>se_receive := cipher\<rparr>))"

section \<open>The responder\<close>

definition rh_client ::
  "crypto \<Rightarrow> identity \<Rightarrow> string \<Rightarrow> rat \<Rightarrow> bool \<Rightarrow> bytes \<Rightarrow> int \<Rightarrow> string \<Rightarrow> nat \<Rightarrow> bytes \<Rightarrow> peer_error + session \<times> bytes \<times> bytes" where
  "rh_client c i displayName now skipClockCheck ephemeralSeed timestampMs nonceHex maxFrameBytes clientBytes =
     bindS (guardS (validateDisplayName (Str displayName)) (InvalidHello ''display name'')) (\<lambda>_.
     bindS (parseHello clientBytes ''client hello'') (\<lambda>client.
     bindS (validateCommonHello now client (\<not> skipClockCheck)) (\<lambda>_.
     bindS (decodeB64Array (get client ''identityKey'') 32 ''client identity key'') (\<lambda>clientIdentity.
     bindS (decodeB64Array (get client ''ephemeralKey'') 32 ''client ephemeral key'') (\<lambda>_.
     bindS (decodeB64Array (get client ''signature'') 64 ''client signature'') (\<lambda>clientSig.
     bindS (guardS (verifySignature c clientIdentity (clientSignatureInput client) clientSig) (BadSignature ''client'')) (\<lambda>_.
     bindS (ephemeralFromSeed c ephemeralSeed) (\<lambda>(secret, publicKey).
     let serverBytes = serverHelloBytes (makeServerHello c i displayName clientBytes timestampMs nonceHex publicKey)
     in bindS (encodePrefixed serverBytes MAX_HANDSHAKE_BYTES) (\<lambda>out.
        bindS (establishFromHellos c clientBytes serverBytes secret False maxFrameBytes) (\<lambda>session.
        Inr (session, serverBytes, out)))))))))))"

definition rh_finish :: "crypto \<Rightarrow> nat \<Rightarrow> session \<Rightarrow> bytes \<Rightarrow> peer_error + session \<times> bytes" where
  "rh_finish c maxFrameBytes session rec =
     bindS (receiveFinished c (se_receive session) ''initiator'' (se_transcriptHash session) rec) (\<lambda>receive.
     bindS (sendFinished c (se_send session) ''responder'' (se_transcriptHash session) maxFrameBytes) (\<lambda>(out, send).
     Inr (session\<lparr>se_receive := receive, se_send := send\<rparr>, out)))"

section \<open>Sizes\<close>

definition hash_laws :: "crypto \<Rightarrow> bool" where
  "hash_laws c \<longleftrightarrow> (\<forall>m. length (cr_sha256 c m) = 32)"

lemma length_utf8: "length s \<le> length (utf8 s)" "length (utf8 s) \<le> 2 * length s"
  by (induction s) (auto simp: utf8_def utf8_char_def Let_def)

lemma length_quote: "length (quote s) \<le> 6 * length s + 2"
proof -
  have "length (quote_char ch) \<le> 6" for ch by (simp add: quote_char_def Let_def)
  then have "length (concat (map quote_char s)) \<le> 6 * length s" by (induction s) (auto intro: add_mono)
  then show ?thesis by (simp add: quote_def)
qed

lemma length_nat_digits: "n < 10 ^ k \<Longrightarrow> 0 < k \<Longrightarrow> length (nat_digits n) \<le> k"
proof (induction n arbitrary: k rule: nat_digits.induct)
  case (1 n)
  show ?case
  proof (cases "n < 10")
    case True
    then show ?thesis using "1.prems" by (subst nat_digits.simps) simp
  next
    case False
    obtain j where k: "k = Suc j" using "1.prems"(2) by (cases k) auto
    have "0 < j" using "1.prems"(1) False k by (cases j) auto
    note j = k this
    have "n div 10 < 10 ^ j" using "1.prems"(1) j by (simp add: less_mult_imp_div_less mult.commute)
    then show ?thesis using "1.IH" [OF False _ j(2)] False j by (subst nat_digits.simps) simp
  qed
qed

lemma length_json_int: "\<bar>k\<bar> \<le> 2 ^ 53 \<Longrightarrow> length (json (JInt k)) \<le> 17"
proof -
  assume "\<bar>k\<bar> \<le> 2 ^ 53"
  then have "nat \<bar>k\<bar> < 10 ^ 16" by simp
  then have l: "length (nat_digits (nat \<bar>k\<bar>)) \<le> 16" by (rule length_nat_digits) simp
  have "json (JInt k) = (if k < 0 then ''-'' else []) @ nat_digits (nat \<bar>k\<bar>)"
    by (simp add: js_number_string_def of_int_abs [symmetric] del: of_int_abs)
  then have "length (json (JInt k)) \<le> 1 + length (nat_digits (nat \<bar>k\<bar>))" by (simp only: length_append) simp
  then show ?thesis using l by linarith
qed

lemma length_join: "length (join '','' xs) \<le> (\<Sum>x\<leftarrow>xs. length x + 1)"
  by (induction xs) (simp_all add: join_Cons)

lemma length_json_Obj: "length (json (Obj fs)) \<le> 2 + (\<Sum>(k, v)\<leftarrow>fs. 6 * length k + 4 + length (json v))"
proof -
  let ?gs = "filter (\<lambda>(k, v). \<not> unprintable v) fs"
  have "length (join '','' (map (\<lambda>(k, v). quote k @ '':'' @ json v) ?gs)) \<le> (\<Sum>x\<leftarrow>map (\<lambda>(k, v). quote k @ '':'' @ json v) ?gs. length x + 1)"
    by (rule length_join)
  also have "\<dots> \<le> (\<Sum>(k, v)\<leftarrow>?gs. 6 * length k + 4 + length (json v))"
  proof -
    have "(\<Sum>x\<leftarrow>map F ?gs. length x + 1) = (\<Sum>q\<leftarrow>?gs. length (F q) + 1)" for F :: "string \<times> jsv \<Rightarrow> string"
      by (simp add: comp_def)
    moreover have "length ((\<lambda>(k, v). quote k @ '':'' @ json v) q) + 1 \<le> (\<lambda>(k, v). 6 * length k + 4 + length (json v)) q" for q
      using length_quote [of "fst q"] by (cases q) simp
    ultimately show ?thesis by (simp only:) (rule sum_list_mono)
  qed
  also have "\<dots> \<le> (\<Sum>(k, v)\<leftarrow>fs. 6 * length k + 4 + length (json v))"
    by (induction fs) (auto simp: trans_le_add2)
  finally show ?thesis by simp
qed

lemma length_json_Str: "length (json (Str s)) \<le> 6 * length s + 2"
  by (simp only: json.simps length_quote)

lemma length_b64: "length bs = 32 \<Longrightarrow> length (bytesToB64 bs) = 44" "length bs = 64 \<Longrightarrow> length (bytesToB64 bs) = 88"
  using bytesToB64_facts [of bs] by simp_all

text \<open>The inputs of an end: its identity, name, time stamp, nonce and ephemeral seed.\<close>

record endpoint =
  ep_identity :: identity
  ep_name :: string
  ep_time :: int
  ep_nonce :: bytes
  ep_seed :: bytes

definition endpoint_ok :: "crypto \<Rightarrow> endpoint \<Rightarrow> bool" where
  "endpoint_ok c e \<longleftrightarrow> identityFromSeed c (id_seed (ep_identity e)) = Inr (ep_identity e) \<and>
     0 < length (utf8 (ep_name e)) \<and> length (utf8 (ep_name e)) \<le> 128 \<and> \<bar>ep_time e\<bar> \<le> 2 ^ 53 \<and>
     length (ep_nonce e) = 32 \<and> length (ep_seed e) = 32"

definition ep_public :: "crypto \<Rightarrow> endpoint \<Rightarrow> bytes" where
  "ep_public c e = cr_ed_public c (id_seed (ep_identity e))"

definition endpoint_client :: "crypto \<Rightarrow> endpoint \<Rightarrow> jsv" where
  "endpoint_client c e = makeClientHello c (ep_identity e) (ep_name e) (ep_time e) (bytesToHex (ep_nonce e)) (cr_x25519_public c (ep_seed e))"

definition endpoint_server :: "crypto \<Rightarrow> bytes \<Rightarrow> endpoint \<Rightarrow> jsv" where
  "endpoint_server c cb e = makeServerHello c (ep_identity e) (ep_name e) cb (ep_time e) (bytesToHex (ep_nonce e)) (cr_x25519_public c (ep_seed e))"

lemma endpoint_facts:
  assumes "endpoint_ok c e" "sign_laws c" "dh_laws c"
  shows "id_publicKeyB64 (ep_identity e) = bytesToB64 (ep_public c e)" "length (ep_public c e) = 32"
    "length (cr_x25519_public c (ep_seed e)) = 32" "length (bytesToB64 (ep_public c e)) = 44"
    "length (bytesToB64 (cr_x25519_public c (ep_seed e))) = 44" "length (ep_name e) \<le> 128"
    "id_peerId (ep_identity e) = peerIdForPublicKey c (ep_public c e)" "\<bar>ep_time e\<bar> \<le> 2 ^ 53"
    "length (bytesToB64 (id_sign c (ep_identity e) m)) = 88" "length (id_sign c (ep_identity e) m) = 64"
    "length (bytesToHex (ep_nonce e)) = 64"
proof -
  have i: "ep_identity e = \<lparr>id_seed = id_seed (ep_identity e), id_publicKey = ep_public c e, id_peerId = peerIdForPublicKey c (ep_public c e),
      id_publicKeyB64 = bytesToB64 (ep_public c e), id_seedB64 = bytesToB64 (id_seed (ep_identity e))\<rparr>"
    using assms(1) by (auto simp: endpoint_ok_def identityFromSeed_def ep_public_def Let_def split: if_splits)
  show "id_publicKeyB64 (ep_identity e) = bytesToB64 (ep_public c e)" "id_peerId (ep_identity e) = peerIdForPublicKey c (ep_public c e)"
    by (subst i, simp)+
  show l: "length (ep_public c e) = 32" "length (cr_x25519_public c (ep_seed e)) = 32" "length (id_sign c (ep_identity e) m) = 64"
    using assms(2,3) by (simp_all add: ep_public_def sign_laws_def dh_laws_def id_sign_def)
  show "length (bytesToB64 (ep_public c e)) = 44" "length (bytesToB64 (cr_x25519_public c (ep_seed e))) = 44"
    "length (bytesToB64 (id_sign c (ep_identity e) m)) = 88" using l length_b64 by simp_all
  show "length (ep_name e) \<le> 128" "\<bar>ep_time e\<bar> \<le> 2 ^ 53" "length (bytesToHex (ep_nonce e)) = 64"
    using assms(1) length_utf8(1) [of "ep_name e"] by (simp_all add: endpoint_ok_def)
qed

section \<open>The hellos of an end\<close>

lemmas hello_defs = makeClientHello_def makeServerHello_def hello_common_def endpoint_client_def endpoint_server_def Let_def

lemma get_client [simp]:
  "get (endpoint_client c e) ''magic'' = Str HANDSHAKE_MAGIC" "get (endpoint_client c e) ''envelopeVersion'' = JInt HANDSHAKE_ENVELOPE_VERSION"
  "get (endpoint_client c e) ''protocolVersion'' = JInt PROTOCOL_VERSION" "get (endpoint_client c e) ''timestampMs'' = JInt (ep_time e)"
  "get (endpoint_client c e) ''nonce'' = Str (bytesToHex (ep_nonce e))" "get (endpoint_client c e) ''identityKey'' = Str (id_publicKeyB64 (ep_identity e))"
  "get (endpoint_client c e) ''ephemeralKey'' = Str (bytesToB64 (cr_x25519_public c (ep_seed e)))"
  "get (endpoint_client c e) ''displayName'' = Str (ep_name e)"
  by (simp_all add: hello_defs)

lemma get_server [simp]:
  "get (endpoint_server c cb e) ''magic'' = Str HANDSHAKE_MAGIC" "get (endpoint_server c cb e) ''envelopeVersion'' = JInt HANDSHAKE_ENVELOPE_VERSION"
  "get (endpoint_server c cb e) ''protocolVersion'' = JInt PROTOCOL_VERSION" "get (endpoint_server c cb e) ''timestampMs'' = JInt (ep_time e)"
  "get (endpoint_server c cb e) ''nonce'' = Str (bytesToHex (ep_nonce e))" "get (endpoint_server c cb e) ''identityKey'' = Str (id_publicKeyB64 (ep_identity e))"
  "get (endpoint_server c cb e) ''ephemeralKey'' = Str (bytesToB64 (cr_x25519_public c (ep_seed e)))"
  "get (endpoint_server c cb e) ''displayName'' = Str (ep_name e)" "get (endpoint_server c cb e) ''clientHelloHash'' = Str (bytesToHex (cr_sha256 c cb))"
  by (simp_all add: hello_defs)

text \<open>The signature is over the hello itself without its signature.\<close>

lemma get_signature:
  "get (endpoint_client c e) ''signature'' = Str (bytesToB64 (id_sign c (ep_identity e) (clientSignatureInput (endpoint_client c e))))"
  "get (endpoint_server c cb e) ''signature'' = Str (bytesToB64 (id_sign c (ep_identity e) (serverSignatureInput (endpoint_server c cb e))))"
  by (simp_all add: hello_defs clientSignatureInput_def serverSignatureInput_def copy_fields_def client_fields_def)

lemma plain_versions: "json_plain (JInt HANDSHAKE_ENVELOPE_VERSION)" "json_plain (JInt PROTOCOL_VERSION)"
  by (simp_all add: HANDSHAKE_ENVELOPE_VERSION_def PROTOCOL_VERSION_def)

lemma plain_hello:
  assumes "\<bar>ep_time e\<bar> \<le> 2 ^ 53"
  shows "json_plain (endpoint_client c e)" "json_plain (endpoint_server c cb e)"
  using plain_JInt [OF assms] plain_versions by (simp_all add: hello_defs del: json_plain.simps(3))

lemma length_json_version: "length (json (JInt HANDSHAKE_ENVELOPE_VERSION)) \<le> 17" "length (json (JInt PROTOCOL_VERSION)) \<le> 17"
  by (rule length_json_int; simp add: HANDSHAKE_ENVELOPE_VERSION_def PROTOCOL_VERSION_def)+

lemma length_magic: "length HANDSHAKE_MAGIC = 23"
  by (simp add: HANDSHAKE_MAGIC_def)

lemma length_hello:
  assumes "endpoint_ok c e" "sign_laws c" "dh_laws c" "hash_laws c"
  shows "length (json_bytes (endpoint_client c e)) \<le> 8192" "length (json_bytes (endpoint_server c cb e)) \<le> 8192"
proof -
  note f = endpoint_facts [OF assms(1-3)]
  have str: "length (json (Str t)) \<le> 6 * length t + 2" for t by (rule length_json_Str)
  have time: "length (json (JInt (ep_time e))) \<le> 17" by (rule length_json_int [OF f(8)])
  have hash: "length (bytesToHex (cr_sha256 c cb)) = 64" using assms(4) by (simp add: hash_laws_def)
  note bounds = str [of HANDSHAKE_MAGIC] str [of "bytesToHex (ep_nonce e)"] str [of "id_publicKeyB64 (ep_identity e)"]
    str [of "bytesToB64 (cr_x25519_public c (ep_seed e))"] str [of "ep_name e"] str [of "bytesToHex (cr_sha256 c cb)"] time length_json_version
  let ?common = "hello_common (id_publicKeyB64 (ep_identity e)) (bytesToB64 (cr_x25519_public c (ep_seed e))) (ep_name e) (ep_time e) (bytesToHex (ep_nonce e))"
  obtain sig where c: "endpoint_client c e = Obj (?common @ [(''signature'', Str sig)])" "length sig = 88"
    using f(9) by (simp add: endpoint_client_def makeClientHello_def Let_def)
  obtain sig' where sv: "endpoint_server c cb e = Obj (?common @ [(''clientHelloHash'', Str (bytesToHex (cr_sha256 c cb))), (''signature'', Str sig')])"
    "length sig' = 88"
    using f(9) by (simp add: endpoint_server_def makeServerHello_def Let_def)
  have "length (json (endpoint_client c e)) \<le> 4096"
    unfolding c(1) by (rule order_trans [OF length_json_Obj])
      (use bounds f str [of sig] c(2) length_magic in \<open>simp add: hello_common_def del: json.simps\<close>)
  then show "length (json_bytes (endpoint_client c e)) \<le> 8192"
    using length_utf8(2) [of "json (endpoint_client c e)"] by (simp add: json_bytes_def)
  have "length (json (endpoint_server c cb e)) \<le> 4096"
    unfolding sv(1) by (rule order_trans [OF length_json_Obj])
      (use bounds f str [of sig'] sv(2) length_magic hash in \<open>simp add: hello_common_def del: json.simps\<close>)
  then show "length (json_bytes (endpoint_server c cb e)) \<le> 8192"
    using length_utf8(2) [of "json (endpoint_server c cb e)"] by (simp add: json_bytes_def)
qed

lemma decodeB64Array_bytes: "length bs = n \<Longrightarrow> decodeB64Array (Str (bytesToB64 bs)) n label = Inr bs"
  by (simp add: decodeB64Array_def b64ToBytes_bytesToB64)

lemma hexToLen_hex: "hexToLen (bytesToHex bs) = int (length bs)"
proof -
  have "parseInt16 [hex_digit n] \<noteq> None" if "n < 16" for n
    using hex_digit_facts [OF that] that by (simp add: parseInt16_def Let_def)
  then have "list_all (\<lambda>ch. parseInt16 [ch] \<noteq> None) (bytesToHex bs)"
    using byte_halves(1) by (induction bs) (simp_all add: bytesToHex_def)
  then show ?thesis by (simp add: hexToLen_def)
qed

section \<open>Agreement\<close>

definition clock_fine :: "rat \<Rightarrow> bool \<Rightarrow> endpoint \<Rightarrow> bool" where
  "clock_fine now skip e \<longleftrightarrow> skip \<or> \<bar>now - of_int (ep_time e)\<bar> \<le> MAX_HANDSHAKE_CLOCK_SKEW_MS"

lemma validate_hellos:
  assumes "endpoint_ok c e" "clock_fine now skip e"
  shows "validateCommonHello now (endpoint_client c e) (\<not> skip) = Inr ()" "validateCommonHello now (endpoint_server c cb e) (\<not> skip) = Inr ()"
proof -
  have n: "length (bytesToHex (ep_nonce e)) = 64" "hexToLen (bytesToHex (ep_nonce e)) = 32"
    using assms(1) by (simp_all add: endpoint_ok_def hexToLen_hex)
  have d: "validateDisplayName (Str (ep_name e))" using assms(1) by (simp add: endpoint_ok_def validateDisplayName_def name_bytes_def)
  have "\<not> (\<not> skip \<and> clock_skewed now (JInt (ep_time e)))" using assms(2) by (auto simp: clock_fine_def clock_skewed_def)
  then show "validateCommonHello now (endpoint_client c e) (\<not> skip) = Inr ()" "validateCommonHello now (endpoint_server c cb e) (\<not> skip) = Inr ()"
    using n d by (simp_all add: validateCommonHello_def js_String_orv_Str Let_def del: js_orv_simps)
qed

lemma verify_own: "sign_laws c \<Longrightarrow> verifySignature c (ep_public c e) m (id_sign c (ep_identity e) m)"
  by (simp add: sign_laws_def verifySignature_def ep_public_def id_sign_def)

text \<open>The session both ends derive from the hellos of \<open>i\<close> and \<open>r\<close>.\<close>

definition end_session :: "crypto \<Rightarrow> nat \<Rightarrow> bytes \<Rightarrow> endpoint \<Rightarrow> endpoint \<Rightarrow> bool \<Rightarrow> session" where
  "end_session c m shared i r initiator =
     (let cb = json_bytes (endpoint_client c i); t = transcriptHash c cb (json_bytes (endpoint_server c cb r));
          e = (if initiator then r else i); ciphers = deriveSessionCiphers c shared t initiator m
      in \<lparr>se_remotePeerId = peerIdForPublicKey c (ep_public c e), se_remoteDisplayName = Str (ep_name e),
          se_connectionId = bytesToHex (take 16 t), se_transcriptHash = t, se_send = fst ciphers, se_receive = snd ciphers\<rparr>)"

lemma establish_session:
  assumes "endpoint_ok c i" "endpoint_ok c r" "sign_laws c" "dh_laws c"
    and "sharedSecret c (ep_seed i) (cr_x25519_public c (ep_seed r)) = Inr shared"
  defines "cb \<equiv> json_bytes (endpoint_client c i)"
  shows "establishFromHellos c cb (json_bytes (endpoint_server c cb r)) (ep_seed i) True m = Inr (end_session c m shared i r True)"
    and "establishFromHellos c cb (json_bytes (endpoint_server c cb r)) (ep_seed r) False m = Inr (end_session c m shared i r False)"
proof -
  note fi = endpoint_facts [OF assms(1,3,4)] and fr = endpoint_facts [OF assms(2,3,4)]
  have p: "parseHello cb l = Inr (endpoint_client c i)" "parseHello (json_bytes (endpoint_server c cb r)) l = Inr (endpoint_server c cb r)" for l
    using plain_hello [of i] plain_hello [of r] fi(8) fr(8) by (simp_all add: parseHello_def cb_def)
  have "sharedSecret c (ep_seed r) (cr_x25519_public c (ep_seed i)) = Inr shared"
    using assms(4,5) by (simp add: sharedSecret_def dh_laws_def)
  note sh = assms(5) this
  show "establishFromHellos c cb (json_bytes (endpoint_server c cb r)) (ep_seed i) True m = Inr (end_session c m shared i r True)"
    using p sh fr decodeB64Array_bytes [OF fr(2)] decodeB64Array_bytes [OF fr(3)]
    by (simp add: establishFromHellos_def end_session_def cb_def Let_def)
  show "establishFromHellos c cb (json_bytes (endpoint_server c cb r)) (ep_seed r) False m = Inr (end_session c m shared i r False)"
    using p sh fi decodeB64Array_bytes [OF fi(2)] decodeB64Array_bytes [OF fi(3)]
    by (simp add: establishFromHellos_def end_session_def cb_def Let_def)
qed

lemma session_ciphers_match:
  "se_send (end_session c m shared i r True) = se_receive (end_session c m shared i r False)"
  "se_receive (end_session c m shared i r True) = se_send (end_session c m shared i r False)"
  "se_transcriptHash (end_session c m shared i r True) = se_transcriptHash (end_session c m shared i r False)"
  "se_connectionId (end_session c m shared i r True) = se_connectionId (end_session c m shared i r False)"
  "rc_nextSequence (se_send (end_session c m shared i r b)) = 0" "rc_nextSequence (se_receive (end_session c m shared i r b)) = 0"
  "rc_maxPlaintextBytes (se_send (end_session c m shared i r b)) = m" "rc_maxPlaintextBytes (se_receive (end_session c m shared i r b)) = m"
  by (simp_all add: end_session_def deriveSessionCiphers_def new_cipher_def Let_def)

lemma finished_exchange:
  assumes "aead_laws c" "length t = 32" "length role \<le> 10" "rc_nextSequence s = 0" "rc_maxPlaintextBytes s = m" "2048 \<le> m"
  defines "rec \<equiv> seal_record c s (json_bytes (finished_json role t))"
  shows "sendFinished c s role t m = Inr (framed rec, s\<lparr>rc_nextSequence := 1\<rparr>)"
    and "receiveFinished c s role t rec = Inr (s\<lparr>rc_nextSequence := 1\<rparr>)"
proof -
  let ?j = "finished_json role t"
  have str: "length (json (Str x)) \<le> 6 * length x + 2" for x by (rule length_json_Str)
  have "length (json ?j) \<le> 1024"
    unfolding finished_json_def by (rule order_trans [OF length_json_Obj])
      (use str [of "''finished''"] str [of role] str [of "bytesToHex t"] assms(2,3) in \<open>simp del: json.simps\<close>)
  then have l: "length (json_bytes ?j) \<le> 2048" using length_utf8(2) [of "json ?j"] by (simp add: json_bytes_def)
  have "json_plain ?j" by (simp add: finished_json_def)
  then have parse: "parse_json (json_bytes ?j) = Some ?j" by (rule json_roundtrip)
  have "frame_ok (m + 24) rec" using length_seal_record [OF assms(1), of s "json_bytes ?j"] l assms(6) by (simp add: frame_ok_def rec_def)
  then show "sendFinished c s role t m = Inr (framed rec, s\<lparr>rc_nextSequence := 1\<rparr>)"
    using l assms(4-6) by (simp add: sendFinished_def encrypt_def encodePrefixed_framed rec_def add.commute)
  have "decrypt c s rec = Inr (json_bytes ?j, s\<lparr>rc_nextSequence := 1\<rparr>)"
    using decrypt_sealed [OF assms(1), of "json_bytes ?j" s] l assms(4-6) by (simp add: rec_def)
  then show "receiveFinished c s role t rec = Inr (s\<lparr>rc_nextSequence := 1\<rparr>)"
    using parse by (simp add: receiveFinished_def) (simp add: finished_json_def)
qed

definition crypto_laws :: "crypto \<Rightarrow> bool" where
  "crypto_laws c \<longleftrightarrow> aead_laws c \<and> dh_laws c \<and> sign_laws c \<and> hash_laws c"

lemma frame_ok_hello: "length b \<le> 8192 \<Longrightarrow> encodePrefixed b MAX_HANDSHAKE_BYTES = Inr (framed b)"
  by (simp add: encodePrefixed_framed frame_ok_def MAX_HANDSHAKE_BYTES_def)

lemma initiator_hello_step:
  assumes "crypto_laws c" "endpoint_ok c i"
  defines "cb \<equiv> json_bytes (endpoint_client c i)"
  shows "ih_hello c (ep_identity i) (ep_name i) (ep_seed i) (ep_time i) (bytesToHex (ep_nonce i)) =
    Inr (\<lparr>in_clientBytes = cb, in_secret = ep_seed i\<rparr>, framed cb)"
proof -
  have "length cb \<le> 8192" unfolding cb_def using length_hello(1) assms(1,2) by (simp add: crypto_laws_def)
  moreover have "validateDisplayName (Str (ep_name i))" "length (ep_seed i) = 32"
    using assms(2) by (simp_all add: endpoint_ok_def validateDisplayName_def name_bytes_def)
  ultimately show ?thesis
    by (simp add: ih_hello_def ephemeralFromSeed_def clientHelloBytes_def endpoint_client_def [symmetric] cb_def frame_ok_hello Let_def)
qed

lemma responder_client_step:
  assumes "crypto_laws c" "endpoint_ok c i" "endpoint_ok c r" "clock_fine now skip i"
    and "sharedSecret c (ep_seed i) (cr_x25519_public c (ep_seed r)) = Inr shared"
  defines "cb \<equiv> json_bytes (endpoint_client c i)"
  shows "rh_client c (ep_identity r) (ep_name r) now skip (ep_seed r) (ep_time r) (bytesToHex (ep_nonce r)) m cb =
    Inr (end_session c m shared i r False, json_bytes (endpoint_server c cb r), framed (json_bytes (endpoint_server c cb r)))"
proof -
  have laws: "sign_laws c" "dh_laws c" "hash_laws c" using assms(1) by (simp_all add: crypto_laws_def)
  note fi = endpoint_facts [OF assms(2) laws(1,2)]
  have p: "parseHello cb l = Inr (endpoint_client c i)" for l using plain_hello(1) [OF fi(8)] by (simp add: parseHello_def cb_def)
  have v: "validateDisplayName (Str (ep_name r))" "length (ep_seed r) = 32"
    using assms(3) by (simp_all add: endpoint_ok_def validateDisplayName_def name_bytes_def)
  have l: "length (json_bytes (endpoint_server c cb r)) \<le> 8192" using length_hello(2) [OF assms(3) laws] .
  show ?thesis
    using p v frame_ok_hello [OF l] validate_hellos(1) [OF assms(2,4)] decodeB64Array_bytes [OF fi(2)] decodeB64Array_bytes [OF fi(3)] decodeB64Array_bytes [OF fi(10)]
      verify_own [OF laws(1)] establish_session(2) [OF assms(2,3) laws(1,2) assms(5), of m]
    by (simp add: rh_client_def get_signature fi(1) ephemeralFromSeed_def serverHelloBytes_def endpoint_server_def [symmetric] cb_def [symmetric] Let_def)
qed

lemma initiator_server_step:
  assumes "crypto_laws c" "endpoint_ok c i" "endpoint_ok c r" "clock_fine now skip r" "2048 \<le> m"
    and "sharedSecret c (ep_seed i) (cr_x25519_public c (ep_seed r)) = Inr shared"
    and "expected = [] \<or> expected = id_peerId (ep_identity r)"
  defines "cb \<equiv> json_bytes (endpoint_client c i)" and "se \<equiv> end_session c m shared i r True"
  shows "ih_server c now skip expected m \<lparr>in_clientBytes = cb, in_secret = ep_seed i\<rparr> (json_bytes (endpoint_server c cb r)) =
    Inr (se\<lparr>se_send := (se_send se)\<lparr>rc_nextSequence := 1\<rparr>\<rparr>,
      framed (seal_record c (se_send se) (json_bytes (finished_json ''initiator'' (se_transcriptHash se)))))"
proof -
  have laws: "sign_laws c" "dh_laws c" "hash_laws c" "aead_laws c" using assms(1) by (simp_all add: crypto_laws_def)
  note fr = endpoint_facts [OF assms(3) laws(1,2)]
  have p: "parseHello (json_bytes (endpoint_server c cb r)) l = Inr (endpoint_server c cb r)" for l
    using plain_hello(2) [OF fr(8)] by (simp add: parseHello_def)
  have t: "length (se_transcriptHash se) = 32" using laws(3) by (simp add: se_def end_session_def transcriptHash_def hash_laws_def Let_def)
  have fin: "sendFinished c (se_send se) ''initiator'' (se_transcriptHash se) m =
      Inr (framed (seal_record c (se_send se) (json_bytes (finished_json ''initiator'' (se_transcriptHash se)))), (se_send se)\<lparr>rc_nextSequence := 1\<rparr>)"
    using finished_exchange(1) [OF laws(4) t, of "''initiator''" "se_send se" m] assms(5) by (simp add: se_def session_ciphers_match)
  have e: "\<not> (expected \<noteq> [] \<and> expected \<noteq> peerIdForPublicKey c (ep_public c r))" using assms(7) fr(7) by auto
  have est: "establishFromHellos c cb (json_bytes (endpoint_server c cb r)) (ep_seed i) True m = Inr se"
    using establish_session(1) [OF assms(2,3) laws(1,2) assms(6), of m] by (simp add: cb_def se_def)
  show ?thesis
    using p validate_hellos(2) [OF assms(3,4)] decodeB64Array_bytes [OF fr(2)] decodeB64Array_bytes [OF fr(3)] decodeB64Array_bytes [OF fr(10)]
      verify_own [OF laws(1)] est e fin
    by (simp add: ih_server_def get_signature fr(1) Let_def)
qed

text \<open>
  C6. Two honest ends over a faithful connection agree: every step of the handshake succeeds, each end learns the other's peer
  id and name, both have the same transcript and connection id, and the cipher one sends with is the cipher the other
  receives with, in both directions.
\<close>

theorem handshake_agreement:
  assumes "crypto_laws c" "endpoint_ok c i" "endpoint_ok c r" "clock_fine nowR skipR i" "clock_fine nowI skipI r" "2048 \<le> m"
    and "sharedSecret c (ep_seed i) (cr_x25519_public c (ep_seed r)) = Inr shared"
    and "expected = [] \<or> expected = id_peerId (ep_identity r)"
  shows "\<exists>st rs sb si x rs' y si'.
    ih_hello c (ep_identity i) (ep_name i) (ep_seed i) (ep_time i) (bytesToHex (ep_nonce i)) = Inr (st, framed (in_clientBytes st)) \<and>
    rh_client c (ep_identity r) (ep_name r) nowR skipR (ep_seed r) (ep_time r) (bytesToHex (ep_nonce r)) m (in_clientBytes st) = Inr (rs, sb, framed sb) \<and>
    ih_server c nowI skipI expected m st sb = Inr (si, framed x) \<and>
    rh_finish c m rs x = Inr (rs', framed y) \<and>
    ih_finish c si y = Inr si' \<and>
    se_send si' = se_receive rs' \<and> se_receive si' = se_send rs' \<and>
    se_transcriptHash si' = se_transcriptHash rs' \<and> se_connectionId si' = se_connectionId rs' \<and>
    se_remotePeerId si' = id_peerId (ep_identity r) \<and> se_remotePeerId rs' = id_peerId (ep_identity i) \<and>
    se_remoteDisplayName si' = Str (ep_name r) \<and> se_remoteDisplayName rs' = Str (ep_name i)"
proof -
  have laws: "aead_laws c" "hash_laws c" "sign_laws c" "dh_laws c" using assms(1) by (simp_all add: crypto_laws_def)
  let ?si = "end_session c m shared i r True" and ?rs = "end_session c m shared i r False"
  let ?t = "se_transcriptHash ?rs"
  have t: "length ?t = 32" using laws(2) by (simp add: end_session_def transcriptHash_def hash_laws_def Let_def)
  note fin1 = finished_exchange [OF laws(1) t, of "''initiator''" "se_receive ?rs" m]
  note fin2 = finished_exchange [OF laws(1) t, of "''responder''" "se_send ?rs" m]
  define x where "x = seal_record c (se_send ?si) (json_bytes (finished_json ''initiator'' (se_transcriptHash ?si)))"
  define y where "y = seal_record c (se_send ?rs) (json_bytes (finished_json ''responder'' ?t))"
  have rf: "rh_finish c m ?rs x = Inr (?rs\<lparr>se_receive := (se_receive ?rs)\<lparr>rc_nextSequence := 1\<rparr>, se_send := (se_send ?rs)\<lparr>rc_nextSequence := 1\<rparr>\<rparr>, framed y)"
    using fin1 fin2 assms(6) by (simp add: rh_finish_def x_def y_def session_ciphers_match)
  have "ih_finish c (?si\<lparr>se_send := (se_send ?si)\<lparr>rc_nextSequence := 1\<rparr>\<rparr>) y =
      Inr (?si\<lparr>se_send := (se_send ?si)\<lparr>rc_nextSequence := 1\<rparr>, se_receive := (se_receive ?si)\<lparr>rc_nextSequence := 1\<rparr>\<rparr>)"
    using fin2 assms(6) by (simp add: ih_finish_def y_def session_ciphers_match)
  note steps = initiator_hello_step [OF assms(1,2)] responder_client_step [OF assms(1-4,7)] initiator_server_step [OF assms(1-3,5-8)] rf this
  have "se_remotePeerId ?si = id_peerId (ep_identity r)" "se_remotePeerId ?rs = id_peerId (ep_identity i)"
    "se_remoteDisplayName ?si = Str (ep_name r)" "se_remoteDisplayName ?rs = Str (ep_name i)"
    using endpoint_facts(7) [OF assms(2) laws(3,4)] endpoint_facts(7) [OF assms(3) laws(3,4)] by (simp_all add: end_session_def Let_def)
  note ids = this
  let ?cb = "json_bytes (endpoint_client c i)"
  show ?thesis
    by (rule exI [of _ "\<lparr>in_clientBytes = ?cb, in_secret = ep_seed i\<rparr>"], rule exI [of _ ?rs], rule exI [of _ "json_bytes (endpoint_server c ?cb r)"],
        rule exI [of _ "?si\<lparr>se_send := (se_send ?si)\<lparr>rc_nextSequence := 1\<rparr>\<rparr>"], rule exI [of _ x],
        rule exI [of _ "?rs\<lparr>se_receive := (se_receive ?rs)\<lparr>rc_nextSequence := 1\<rparr>, se_send := (se_send ?rs)\<lparr>rc_nextSequence := 1\<rparr>\<rparr>"],
        rule exI [of _ y],
        rule exI [of _ "?si\<lparr>se_send := (se_send ?si)\<lparr>rc_nextSequence := 1\<rparr>, se_receive := (se_receive ?si)\<lparr>rc_nextSequence := 1\<rparr>\<rparr>"])
      (use steps ids in \<open>simp add: session_ciphers_match x_def\<close>)
qed

definition sample_identity :: "byte \<Rightarrow> identity" where
  "sample_identity b = \<lparr>id_seed = replicate 32 b, id_publicKey = cr_ed_public sample_crypto (replicate 32 b),
     id_peerId = peerIdForPublicKey sample_crypto (cr_ed_public sample_crypto (replicate 32 b)),
     id_publicKeyB64 = bytesToB64 (cr_ed_public sample_crypto (replicate 32 b)), id_seedB64 = bytesToB64 (replicate 32 b)\<rparr>"

definition sample_endpoint :: "byte \<Rightarrow> string \<Rightarrow> endpoint" where
  "sample_endpoint b name = \<lparr>ep_identity = sample_identity b, ep_name = name, ep_time = 0, ep_nonce = replicate 32 b, ep_seed = replicate 32 b\<rparr>"

lemma sample_crypto_all_laws: "crypto_laws sample_crypto"
  using sample_crypto_laws by (auto simp: crypto_laws_def hash_laws_def sample_crypto_def min_def)

lemma sample_endpoints_ok: "endpoint_ok sample_crypto (sample_endpoint 1 ''ann'')" "endpoint_ok sample_crypto (sample_endpoint 2 ''bob'')"
  by (simp_all add: endpoint_ok_def sample_endpoint_def sample_identity_def identityFromSeed_def utf8_def utf8_char_def char_code_def Let_def)

lemma sample_clock: "clock_fine 0 False (sample_endpoint b n)"
  by (simp add: clock_fine_def sample_endpoint_def MAX_HANDSHAKE_CLOCK_SKEW_MS_def)

lemma sample_shared: "sharedSecret sample_crypto s p = Inr [1]"
  by (simp add: sharedSecret_def sample_crypto_def)

abbreviation "ann \<equiv> sample_endpoint 1 ''ann''"
abbreviation "bob \<equiv> sample_endpoint 2 ''bob''"

theorem handshake_agreement_witness:
  "\<exists>st rs sb si x rs' y si'.
     rh_client sample_crypto (ep_identity bob) (ep_name bob) 0 False (ep_seed bob) (ep_time bob) (bytesToHex (ep_nonce bob)) 4096 (in_clientBytes st) =
       Inr (rs, sb, framed sb) \<and>
     ih_server sample_crypto 0 False (id_peerId (ep_identity bob)) 4096 st sb = Inr (si, framed x) \<and>
     rh_finish sample_crypto 4096 rs x = Inr (rs', framed y) \<and> ih_finish sample_crypto si y = Inr si' \<and> se_send si' = se_receive rs'"
proof -
  have "(2048 :: nat) \<le> 4096" by simp
  from handshake_agreement [OF sample_crypto_all_laws sample_endpoints_ok sample_clock sample_clock this sample_shared disjI2 [OF refl]]
  show ?thesis by blast
qed

text \<open>
  C7. Whatever bytes arrive, a session comes only from a hello that its identity key signed, and the peer id of the session is
  the hash of that key: the initiator also insists on the answer to its own hello and on the peer it asked for. Both ends bind
  the session to the two hellos as they travelled.
\<close>

theorem handshake_authentic:
  "(ih_server c now skip expected m st sb = Inr (si, out) \<longrightarrow>
     (\<exists>server pk sig. parse_json sb = Some server \<and>
        decodeB64Array (get server ''identityKey'') 32 ''server identity key'' = Inr pk \<and>
        decodeB64Array (get server ''signature'') 64 ''server signature'' = Inr sig \<and>
        cr_ed_verify c sig (serverSignatureInput server) pk \<and>
        get server ''clientHelloHash'' = Str (bytesToHex (cr_sha256 c (in_clientBytes st))) \<and>
        se_remotePeerId si = peerIdForPublicKey c pk \<and> (expected \<noteq> [] \<longrightarrow> se_remotePeerId si = expected) \<and>
        se_transcriptHash si = transcriptHash c (in_clientBytes st) sb)) \<and>
   (rh_client c i name now skip seed time nonce m cb = Inr (rs, sb', out') \<longrightarrow>
     (\<exists>client pk sig. parse_json cb = Some client \<and>
        decodeB64Array (get client ''identityKey'') 32 ''client identity key'' = Inr pk \<and>
        decodeB64Array (get client ''signature'') 64 ''client signature'' = Inr sig \<and>
        cr_ed_verify c sig (clientSignatureInput client) pk \<and>
        se_remotePeerId rs = peerIdForPublicKey c pk \<and> se_transcriptHash rs = transcriptHash c cb sb'))"
proof (intro conjI impI)
  assume "ih_server c now skip expected m st sb = Inr (si, out)"
  then obtain server pk sig se cipher where *: "parseHello sb ''server hello'' = Inr server"
      "decodeB64Array (get server ''identityKey'') 32 ''server identity key'' = Inr pk"
      "decodeB64Array (get server ''signature'') 64 ''server signature'' = Inr sig"
      "get server ''clientHelloHash'' = Str (bytesToHex (cr_sha256 c (in_clientBytes st)))"
      "verifySignature c pk (serverSignatureInput server) sig" "expected = [] \<or> expected = peerIdForPublicKey c pk"
      "establishFromHellos c (in_clientBytes st) sb (in_secret st) True m = Inr se" "si = se\<lparr>se_send := cipher\<rparr>"
    by (auto simp: ih_server_def Let_def)
  from *(7) obtain sv pk' where e: "parseHello sb ''server hello'' = Inr sv" "decodeB64Array (get sv ''identityKey'') 32 ''server identity key'' = Inr pk'"
      "se_remotePeerId se = peerIdForPublicKey c pk'" "se_transcriptHash se = transcriptHash c (in_clientBytes st) sb"
    by (auto simp: establishFromHellos_def Let_def)
  have "sv = server" "pk' = pk" using e(1,2) *(1,2) by simp_all
  moreover have "parse_json sb = Some server" using *(1) by (simp add: parseHello_def split: option.splits)
  ultimately show "\<exists>server pk sig. parse_json sb = Some server \<and>
        decodeB64Array (get server ''identityKey'') 32 ''server identity key'' = Inr pk \<and>
        decodeB64Array (get server ''signature'') 64 ''server signature'' = Inr sig \<and>
        cr_ed_verify c sig (serverSignatureInput server) pk \<and>
        get server ''clientHelloHash'' = Str (bytesToHex (cr_sha256 c (in_clientBytes st))) \<and>
        se_remotePeerId si = peerIdForPublicKey c pk \<and> (expected \<noteq> [] \<longrightarrow> se_remotePeerId si = expected) \<and>
        se_transcriptHash si = transcriptHash c (in_clientBytes st) sb"
    using * e(3,4) by (intro exI [of _ server] exI [of _ pk] exI [of _ sig]) (auto simp: verifySignature_def)
next
  assume "rh_client c i name now skip seed time nonce m cb = Inr (rs, sb', out')"
  then obtain client pk sig secret where *: "parseHello cb ''client hello'' = Inr client"
      "decodeB64Array (get client ''identityKey'') 32 ''client identity key'' = Inr pk"
      "decodeB64Array (get client ''signature'') 64 ''client signature'' = Inr sig"
      "verifySignature c pk (clientSignatureInput client) sig" "establishFromHellos c cb sb' secret False m = Inr rs"
    by (auto simp: rh_client_def Let_def)
  from *(5) obtain cl pk' where e: "parseHello cb ''client hello'' = Inr cl" "decodeB64Array (get cl ''identityKey'') 32 ''client identity key'' = Inr pk'"
      "se_remotePeerId rs = peerIdForPublicKey c pk'" "se_transcriptHash rs = transcriptHash c cb sb'"
    by (auto simp: establishFromHellos_def Let_def)
  have "cl = client" "pk' = pk" using e(1,2) *(1,2) by simp_all
  moreover have "parse_json cb = Some client" using *(1) by (simp add: parseHello_def split: option.splits)
  ultimately show "\<exists>client pk sig. parse_json cb = Some client \<and>
        decodeB64Array (get client ''identityKey'') 32 ''client identity key'' = Inr pk \<and>
        decodeB64Array (get client ''signature'') 64 ''client signature'' = Inr sig \<and>
        cr_ed_verify c sig (clientSignatureInput client) pk \<and>
        se_remotePeerId rs = peerIdForPublicKey c pk \<and> se_transcriptHash rs = transcriptHash c cb sb'"
    using * e(3,4) by (intro exI [of _ client] exI [of _ pk] exI [of _ sig]) (auto simp: verifySignature_def)
qed

theorem handshake_authentic_witness:
  "\<exists>server pk. parse_json (json_bytes (endpoint_server sample_crypto (json_bytes (endpoint_client sample_crypto ann)) bob)) = Some server \<and>
     decodeB64Array (get server ''identityKey'') 32 ''server identity key'' = Inr pk"
proof -
  have "(2048 :: nat) \<le> 4096" by simp
  note step = initiator_server_step [OF sample_crypto_all_laws sample_endpoints_ok sample_clock this sample_shared disjI2 [OF refl]]
  from handshake_authentic [THEN conjunct1, rule_format, OF step] show ?thesis by blast
qed

text \<open>
  C8. The finished records confirm the keys: an end completes the handshake only on a record sealed under the key it shares with
  the other role, which names that role and the transcript of this very handshake.
\<close>

theorem finished_confirms_keys:
  assumes "aead_laws c" "receiveFinished c cipher role transcript rec = Inr cipher'"
  shows "\<exists>p finished. rec = seal_record c cipher p \<and> parse_json p = Some finished \<and> get finished ''role'' = Str role \<and>
     get finished ''transcriptHash'' = Str (bytesToHex transcript) \<and> cipher' = cipher\<lparr>rc_nextSequence := rc_nextSequence cipher + 1\<rparr>"
proof -
  obtain p finished where d: "decrypt c cipher rec = Inr (p, cipher')" "parse_json p = Some finished" "get finished ''role'' = Str role"
      "get finished ''transcriptHash'' = Str (bytesToHex transcript)"
    using assms(2) by (auto simp: receiveFinished_def split: option.splits if_splits)
  then show ?thesis using decrypt_sound [OF assms(1) d(1)] by blast
qed

theorem finished_confirms_keys_witness:
  "\<exists>p finished. parse_json p = Some finished \<and> get finished ''role'' = Str ''initiator''"
proof -
  let ?s = "new_cipher [] [] [] 4096" and ?t = "replicate 32 (0 :: byte)"
  have "receiveFinished sample_crypto ?s ''initiator'' ?t (seal_record sample_crypto ?s (json_bytes (finished_json ''initiator'' ?t))) = Inr (?s\<lparr>rc_nextSequence := 1\<rparr>)"
    by (rule finished_exchange(2) [OF sample_crypto_laws(1), where m = 4096]) (simp_all add: new_cipher_def)
  from finished_confirms_keys [OF sample_crypto_laws(1) this] show ?thesis by blast
qed

text \<open>The signatures of the two roles are over different domains, so a hello cannot be replayed in the other role.\<close>

lemma signature_domains_differ: "clientSignatureInput h \<noteq> serverSignatureInput h'"
proof
  assume "clientSignatureInput h = serverSignatureInput h'"
  then have "take (length CLIENT_SIGNATURE_DOMAIN) (clientSignatureInput h) = take (length SERVER_SIGNATURE_DOMAIN) (serverSignatureInput h')"
    by (simp add: CLIENT_SIGNATURE_DOMAIN_def SERVER_SIGNATURE_DOMAIN_def utf8_def utf8_char_def char_code_def)
  then have "CLIENT_SIGNATURE_DOMAIN = SERVER_SIGNATURE_DOMAIN" by (simp add: clientSignatureInput_def serverSignatureInput_def concatBytes_def)
  then show False unfolding CLIENT_SIGNATURE_DOMAIN_def SERVER_SIGNATURE_DOMAIN_def by (auto dest!: utf8_inj)
qed

text \<open>A hello without a time stamp, or with one that is no number, passes the check of the clock.\<close>

lemma missing_timestamp_passes: "\<not> clock_skewed now Undef"
  by (simp add: clock_skewed_def)

end
