(* ===== verification/Peer_Session.thy ===== *)
theory Peer_Session
  imports Peer_Handshake
begin

text \<open>
  An established connection, \<open>peerProtocol/session.js\<close>: sending payloads, the heartbeat, the read loop and closing. An
  operation returns what it does to the outside: bytes written, messages handed to \<open>onMessage\<close>, the transport closed and
  \<open>onClose\<close> called. \<open>ps_idle\<close> and \<open>ps_heartbeat\<close> say whether the two timers are set. Random ids, nonces and the clock
  are arguments. \<open>Write\<close> hands bytes to the transport; whether that succeeds matters to the heartbeat only, which takes
  it as an argument. An operation runs to its end before the next one starts.
\<close>

section \<open>State and effects\<close>

definition peerInfoFromSession :: "session \<Rightarrow> string \<Rightarrow> string \<Rightarrow> rat \<Rightarrow> jsv" where
  "peerInfoFromSession session remoteAddress direction now =
     Obj [(''id'', Str (se_remotePeerId session)), (''name'', se_remoteDisplayName session), (''address'', Str remoteAddress),
       (''port'', JInt 0), (''ports'', Arr []), (''connectedAt'', Num (Fin now)), (''direction'', Str direction),
       (''encrypted'', Bool True), (''supportsHeartbeat'', Bool True),
       (''transport'', Str (if js_startsWith remoteAddress ''relay://'' then ''relay'' else ''direct''))]"

record peer_session =
  ps_session :: session
  ps_info :: jsv
  ps_maxFrameBytes :: nat
  ps_closed :: bool
  ps_idle :: bool
  ps_heartbeat :: bool

datatype close_reason = Reason jsv | Failure peer_error

datatype effect =
    Write bytes
  | Deliver jsv
  | CloseTransport
  | OnClose close_reason

definition new_peer_session :: "session \<Rightarrow> jsv \<Rightarrow> nat \<Rightarrow> peer_session" where
  "new_peer_session session info maxFrameBytes =
     \<lparr>ps_session = session, ps_info = info, ps_maxFrameBytes = maxFrameBytes, ps_closed = False, ps_idle = True, ps_heartbeat = True\<rparr>"

section \<open>Sending\<close>

text \<open>Encode, encrypt and prefix a frame; the cipher has moved on even when the prefix refuses the record.\<close>

definition write_frame :: "crypto \<Rightarrow> jsv \<Rightarrow> peer_session \<Rightarrow> (peer_error + bytes) \<times> peer_session" where
  "write_frame c frame st =
     (case encodeWireFrame frame (ps_maxFrameBytes st) of
        Inl e \<Rightarrow> (Inl e, st)
      | Inr encoded \<Rightarrow>
          (case encrypt c (se_send (ps_session st)) encoded of
             Inl e \<Rightarrow> (Inl e, st)
           | Inr (rec, cipher) \<Rightarrow>
               (encodePrefixed rec (rc_maxPlaintextBytes (se_send (ps_session st)) + 8 + 16),
                st\<lparr>ps_session := (ps_session st)\<lparr>se_send := cipher\<rparr>\<rparr>)))"

definition sendFrame :: "crypto \<Rightarrow> jsv \<Rightarrow> peer_session \<Rightarrow> (peer_error + bool) \<times> effect list \<times> peer_session" where
  "sendFrame c frame st =
     (if ps_closed st then (Inr False, [], st)
      else case write_frame c frame st of
          (Inl e, st') \<Rightarrow> (Inl e, [], st')
        | (Inr out, st') \<Rightarrow> (Inr True, [Write out], st'))"

definition sendPayload :: "crypto \<Rightarrow> bytes \<Rightarrow> int \<Rightarrow> jsv \<Rightarrow> peer_session \<Rightarrow> (peer_error + bool) \<times> effect list \<times> peer_session" where
  "sendPayload c rnd now payload st =
     (if ps_closed st then (Inr False, [], st) else sendFrame c (message_frame (bytesToHex rnd) now payload) st)"

section \<open>Closing\<close>

definition close_frame :: "jsv \<Rightarrow> jsv" where
  "close_frame reason = Obj [(''type'', Str ''close''), (''reason'', reason)]"

definition reason_json :: "close_reason \<Rightarrow> jsv" where
  "reason_json r = (case r of Reason v \<Rightarrow> v | Failure _ \<Rightarrow> Str ''connection closed'')"

definition ps_close :: "crypto \<Rightarrow> close_reason \<Rightarrow> bool \<Rightarrow> peer_session \<Rightarrow> effect list \<times> peer_session" where
  "ps_close c reason notifyRemote st =
     (if ps_closed st then ([], st)
      else let st1 = st\<lparr>ps_closed := True, ps_idle := False, ps_heartbeat := False\<rparr>;
               (out, st2) = (if notifyRemote then write_frame c (close_frame (reason_json reason)) st1 else (Inl ConnectionClosed, st1))
           in ((case out of Inl _ \<Rightarrow> [] | Inr bs \<Rightarrow> [Write bs]) @ [CloseTransport, OnClose reason], st2))"

definition sendPing :: "crypto \<Rightarrow> bool \<Rightarrow> bytes \<Rightarrow> peer_session \<Rightarrow> effect list \<times> peer_session" where
  "sendPing c writeOk rnd st =
     (let (res, out, st') = sendFrame c (Obj [(''type'', Str ''ping''), (''nonce'', Str (bytesToHex rnd))]) st
      in if isl res \<or> (res = Inr True \<and> \<not> writeOk)
         then (let (outs, st'') = ps_close c (Reason (Str ''heartbeat write failed'')) True st' in (out @ outs, st''))
         else (out, st'))"

definition idleTimeout :: "crypto \<Rightarrow> peer_session \<Rightarrow> effect list \<times> peer_session" where
  "idleTimeout c st = ps_close c (Reason (Str ''idle timeout'')) True st"

section \<open>The read loop\<close>

definition message_event :: "peer_session \<Rightarrow> jsv \<Rightarrow> jsv" where
  "message_event st frame =
     Obj [(''fromPeerId'', get (ps_info st) ''id''), (''messageId'', get frame ''messageId''), (''sentAtMs'', get frame ''sentAtMs''),
       (''payload'', get frame ''payload'')]"

definition dispatch :: "crypto \<Rightarrow> jsv \<Rightarrow> peer_session \<Rightarrow> effect list \<times> peer_session" where
  "dispatch c frame st =
     (if get frame ''type'' = Str ''message'' then ([Deliver (message_event st frame)], st)
      else if get frame ''type'' = Str ''ping'' then
        (let (_, out, st') = sendFrame c (Obj [(''type'', Str ''pong''), (''nonce'', get frame ''nonce'')]) st in (out, st'))
      else if get frame ''type'' = Str ''pong'' then ([], st)
      else if get frame ''type'' = Str ''close'' then ps_close c (Reason (js_orv (get frame ''reason'') (Str ''closed by peer''))) False st
      else ([], st))"

text \<open>
  One record: the loop looks at \<open>closed\<close> before it waits for the record, not after. A record that arrives re-arms the idle
  timer.
\<close>

definition onRecord :: "crypto \<Rightarrow> bytes \<Rightarrow> peer_session \<Rightarrow> effect list \<times> peer_session" where
  "onRecord c rec st0 =
     (let st = st0\<lparr>ps_idle := True\<rparr>
      in case decrypt c (se_receive (ps_session st)) rec of
           Inl e \<Rightarrow> ps_close c (Failure e) False st
         | Inr (plaintext, cipher) \<Rightarrow>
             let st1 = st\<lparr>ps_session := (ps_session st)\<lparr>se_receive := cipher\<rparr>\<rparr>
             in case decodeWireFrame plaintext (ps_maxFrameBytes st) of
                  Inl e \<Rightarrow> ps_close c (Failure e) False st1
                | Inr frame \<Rightarrow> dispatch c frame st1)"

fun readLoop :: "crypto \<Rightarrow> bytes list \<Rightarrow> peer_session \<Rightarrow> effect list \<times> peer_session" where
  "readLoop c [] st = ([], st)"
| "readLoop c (rec # recs) st =
     (if ps_closed st then ([], st)
      else let (out, st1) = onRecord c rec st; (outs, st2) = readLoop c recs st1 in (out @ outs, st2))"

section \<open>Messages from end to end\<close>

type_synonym message = "bytes \<times> int \<times> jsv"

fun send_all :: "crypto \<Rightarrow> message list \<Rightarrow> peer_session \<Rightarrow> effect list \<times> peer_session" where
  "send_all c [] st = ([], st)"
| "send_all c ((rnd, now, payload) # ms) st =
     (let (_, out, st1) = sendPayload c rnd now payload st; (outs, st2) = send_all c ms st1 in (out @ outs, st2))"

definition written :: "effect list \<Rightarrow> bytes" where
  "written outs = concat (map (\<lambda>e. case e of Write bs \<Rightarrow> bs | _ \<Rightarrow> []) outs)"

fun sent_frame :: "message \<Rightarrow> jsv" where
  "sent_frame (rnd, now, payload) = message_frame (bytesToHex rnd) now payload"

fun message_ok :: "nat \<Rightarrow> message \<Rightarrow> bool" where
  "message_ok m (rnd, now, payload) \<longleftrightarrow> json_plain payload \<and> length rnd \<le> 64 \<and> \<bar>now\<bar> \<le> 2 ^ 53 \<and>
     (\<exists>bs. encodeWireFrame (message_frame (bytesToHex rnd) now payload) m = Inr bs)"

text \<open>Two open sessions, one sending with the cipher the other receives with.\<close>

definition linked :: "nat \<Rightarrow> peer_session \<Rightarrow> peer_session \<Rightarrow> bool" where
  "linked m a b \<longleftrightarrow> se_send (ps_session a) = se_receive (ps_session b) \<and> rc_maxPlaintextBytes (se_send (ps_session a)) = m \<and>
     ps_maxFrameBytes a = m \<and> ps_maxFrameBytes b = m \<and> \<not> ps_closed a \<and> \<not> ps_closed b"

lemma encodeWireFrame_le: "encodeWireFrame f m = Inr bs \<Longrightarrow> length bs \<le> m"
  by (auto simp: encodeWireFrame_def split: sum.splits if_splits)

lemma one_message:
  assumes "aead_laws c" "linked m a b" "message_ok m msg" "m + 24 \<le> 0xffffffff" "rc_nextSequence (se_send (ps_session a)) + 1 < 2 ^ 64"
    and msg: "msg = (rnd, now, payload)"
  shows "\<exists>rec a' b'. sendPayload c rnd now payload a = (Inr True, [Write (framed rec)], a') \<and> frame_ok (m + 24) rec \<and>
     onRecord c rec b = ([Deliver (message_event b (sent_frame msg))], b') \<and> linked m a' b' \<and> ps_info b' = ps_info b \<and>
     rc_nextSequence (se_send (ps_session a')) = rc_nextSequence (se_send (ps_session a)) + 1"
proof -
  let ?s = "se_send (ps_session a)" and ?f = "message_frame (bytesToHex rnd) now payload"
  have lk: "?s = se_receive (ps_session b)" "rc_maxPlaintextBytes ?s = m" "ps_maxFrameBytes a = m" "ps_maxFrameBytes b = m" "\<not> ps_closed a" "\<not> ps_closed b"
    using assms(2) unfolding linked_def by blast+
  obtain bs where bs: "encodeWireFrame ?f m = Inr bs" using assms(3) msg by auto
  note le = encodeWireFrame_le [OF bs]
  let ?rec = "seal_record c ?s bs" and ?s' = "?s\<lparr>rc_nextSequence := rc_nextSequence ?s + 1\<rparr>"
  have ok: "frame_ok (m + 24) ?rec" using length_seal_record [OF assms(1), of ?s bs] le assms(4) by (simp add: frame_ok_def)
  have enc: "encrypt c ?s bs = Inr (?rec, ?s')" using le lk(2) assms(5) by (simp add: encrypt_def)
  have snd: "sendPayload c rnd now payload a = (Inr True, [Write (framed ?rec)], a\<lparr>ps_session := (ps_session a)\<lparr>se_send := ?s'\<rparr>\<rparr>)"
    using lk bs enc ok by (simp add: sendPayload_def sendFrame_def write_frame_def encodePrefixed_framed add.commute)
  have "decrypt c ?s ?rec = Inr (bs, ?s')" using decrypt_sealed [OF assms(1), of bs ?s] le lk(2) assms(5) by simp
  moreover have "decodeWireFrame bs m = Inr ?f"
    using wire_message_roundtrip [OF _ _ _ bs] assms(3) msg by simp
  moreover have "get ?f ''type'' = Str ''message''" by (simp add: message_frame_def)
  ultimately have rcv: "onRecord c ?rec b = ([Deliver (message_event b ?f)], b\<lparr>ps_idle := True, ps_session := (ps_session b)\<lparr>se_receive := ?s'\<rparr>\<rparr>)"
    using lk by (simp add: onRecord_def dispatch_def message_event_def)
  show ?thesis
    by (rule exI [of _ ?rec], rule exI [of _ "a\<lparr>ps_session := (ps_session a)\<lparr>se_send := ?s'\<rparr>\<rparr>"],
        rule exI [of _ "b\<lparr>ps_idle := True, ps_session := (ps_session b)\<lparr>se_receive := ?s'\<rparr>\<rparr>"])
      (use snd ok rcv lk in \<open>simp add: linked_def msg\<close>)
qed

lemma all_messages:
  assumes "aead_laws c" "linked m a b" "list_all (message_ok m) ms" "m + 24 \<le> 0xffffffff"
    and "rc_nextSequence (se_send (ps_session a)) + length ms < 2 ^ 64"
  shows "\<exists>recs. fst (send_all c ms a) = map (Write \<circ> framed) recs \<and> list_all (frame_ok (m + 24)) recs \<and> length recs = length ms \<and>
     fst (readLoop c recs b) = map (\<lambda>msg. Deliver (message_event b (sent_frame msg))) ms"
  using assms(2,3,5)
proof (induction ms arbitrary: a b)
  case (Cons msg ms)
  obtain rnd now payload where msg: "msg = (rnd, now, payload)" by (cases msg)
  have ok: "message_ok m msg" "rc_nextSequence (se_send (ps_session a)) + 1 < 2 ^ 64" using Cons.prems by auto
  obtain rec a' b' where one: "sendPayload c rnd now payload a = (Inr True, [Write (framed rec)], a')" "frame_ok (m + 24) rec"
      "onRecord c rec b = ([Deliver (message_event b (sent_frame msg))], b')" "linked m a' b'" "ps_info b' = ps_info b"
      "rc_nextSequence (se_send (ps_session a')) = rc_nextSequence (se_send (ps_session a)) + 1"
    using one_message [OF assms(1) Cons.prems(1) ok(1) assms(4) ok(2) msg] by blast
  obtain recs where recs: "fst (send_all c ms a') = map (Write \<circ> framed) recs" "list_all (frame_ok (m + 24)) recs" "length recs = length ms"
      "fst (readLoop c recs b') = map (\<lambda>msg. Deliver (message_event b' (sent_frame msg))) ms"
  proof -
    have "list_all (message_ok m) ms" "rc_nextSequence (se_send (ps_session a')) + length ms < 2 ^ 64" using Cons.prems one(6) by simp_all
    from Cons.IH [OF one(4) this] show ?thesis using that by blast
  qed
  have "message_event b' f = message_event b f" for f by (simp add: message_event_def one(5))
  then show ?case using one recs msg Cons.prems(1)
    by (intro exI [of _ "rec # recs"]) (simp add: case_prod_unfold Let_def linked_def)
qed simp

lemma written_writes: "written (map (Write \<circ> framed) recs) = concat (map framed recs)"
  by (simp add: written_def comp_def)

text \<open>
  C9. Messages travel from end to end: whatever payloads one end sends, however the bytes it writes are cut into chunks and
  whenever the other end reads, the other end's read loop hands over exactly these messages, in order and unchanged, from the
  peer id of the session.
\<close>

theorem messages_delivered:
  assumes "aead_laws c" "linked m a b" "list_all (message_ok m) ms" "m + 24 \<le> 0xffffffff"
    and "rc_nextSequence (se_send (ps_session a)) + length ms < 2 ^ 64"
    and "received es = written (fst (send_all c ms a))" "length (readers es) = length ms"
  shows "\<exists>recs. map snd (fst (stream_run (m + 24) es createStreamTransport)) = map Inr recs \<and>
    fst (readLoop c recs b) = map (\<lambda>msg. Deliver (message_event b (sent_frame msg))) ms"
proof -
  obtain recs where recs: "fst (send_all c ms a) = map (Write \<circ> framed) recs" "list_all (frame_ok (m + 24)) recs" "length recs = length ms"
      "fst (readLoop c recs b) = map (\<lambda>msg. Deliver (message_event b (sent_frame msg))) ms"
    using all_messages [OF assms(1-5)] by blast
  have "received es @ [] = concat (map framed recs)" using assms(6) recs(1) written_writes by simp
  note stream_run_inv [OF recs(2) this]
  moreover have "all_frames (m + 24) (received es) = (recs, [])" using all_frames_stream [OF recs(2)] assms(6) recs(1) written_writes by simp
  ultimately have "fst (stream_run (m + 24) es createStreamTransport) = zip (readers es) (map Inr recs)" by (simp add: stream_inv_def)
  then have "map snd (fst (stream_run (m + 24) es createStreamTransport)) = map Inr recs" using assms(7) recs(3) by simp
  then show ?thesis using recs(4) by blast
qed

definition sample_session :: session where
  "sample_session = \<lparr>se_remotePeerId = ''bt2_00'', se_remoteDisplayName = Str ''bob'', se_connectionId = [], se_transcriptHash = [],
     se_send = new_cipher [] [] [] 4096, se_receive = new_cipher [] [] [] 4096\<rparr>"

abbreviation "sample_end \<equiv> new_peer_session sample_session (peerInfoFromSession sample_session ''relay://x'' ''inbound'' 0) 4096"

lemma sample_message_ok: "message_ok 4096 ([1], 5, Str ''hi'')"
proof -
  let ?j = "Obj [(''type'', Str ''message''), (''message_id'', Str (bytesToHex [1])), (''sent_at_ms'', JInt 5), (''payload'', Str ''hi'')]"
  have str: "length (json (Str x)) \<le> 6 * length x + 2" for x by (rule length_json_Str)
  have n: "length (json (JInt 5)) \<le> 17" by (rule length_json_int) simp
  have "length (json ?j) \<le> 1024"
    by (rule order_trans [OF length_json_Obj])
      (use str [of "''message''"] str [of "bytesToHex [1]"] str [of "''hi''"] n in \<open>simp del: json.simps\<close>)
  then have "length (json_bytes ?j) \<le> 4096" using length_utf8(2) [of "json ?j"] by (simp add: json_bytes_def)
  then show ?thesis by (simp add: encodeWireFrame_def wireFrameJson_def message_frame_def js_coalesce_def Let_def)
qed

theorem messages_delivered_witness:
  "\<exists>recs. fst (readLoop sample_crypto recs sample_end) = [Deliver (message_event sample_end (sent_frame ([1], 5, Str ''hi'')))]"
proof -
  let ?es = "[Read 0, Push (written (fst (send_all sample_crypto [([1], 5, Str ''hi'')] sample_end)))]"
  have "linked 4096 sample_end sample_end" by (simp add: linked_def new_peer_session_def sample_session_def new_cipher_def)
  from messages_delivered [OF sample_crypto_laws(1) this, of "[([1], 5, Str ''hi'')]" ?es] show ?thesis
    using sample_message_ok by (auto simp: new_peer_session_def sample_session_def new_cipher_def simp del: message_ok.simps sent_frame.simps)
qed

section \<open>A session closes once\<close>

datatype session_event =
    SendPayload bytes int jsv | Ping bool bytes | Record bytes | Idle | Close jsv

fun session_step :: "crypto \<Rightarrow> session_event \<Rightarrow> peer_session \<Rightarrow> effect list \<times> peer_session" where
  "session_step c (SendPayload rnd now payload) st = snd (sendPayload c rnd now payload st)"
| "session_step c (Ping writeOk rnd) st = sendPing c writeOk rnd st"
| "session_step c (Record rec) st = onRecord c rec st"
| "session_step c Idle st = idleTimeout c st"
| "session_step c (Close reason) st = ps_close c (Reason reason) True st"

fun session_run :: "crypto \<Rightarrow> session_event list \<Rightarrow> peer_session \<Rightarrow> effect list \<times> peer_session" where
  "session_run c [] st = ([], st)"
| "session_run c (e # es) st = (let (out, st1) = session_step c e st; (outs, st2) = session_run c es st1 in (out @ outs, st2))"

definition is_delivery :: "effect \<Rightarrow> bool" where
  "is_delivery e = (case e of Deliver _ \<Rightarrow> True | _ \<Rightarrow> False)"

definition is_close :: "effect \<Rightarrow> bool" where
  "is_close e = (case e of OnClose _ \<Rightarrow> True | _ \<Rightarrow> False)"

lemma effect_tests [simp]:
  "is_delivery (Deliver v)" "\<not> is_delivery (Write bs)" "\<not> is_delivery CloseTransport" "\<not> is_delivery (OnClose r)"
  "\<not> is_close (Deliver v)" "\<not> is_close (Write bs)" "\<not> is_close CloseTransport" "is_close (OnClose r)"
  by (simp_all add: is_delivery_def is_close_def)

text \<open>The effects of one step: nothing but deliveries from a closed session, and a close at the end at most.\<close>

definition step_shape :: "peer_session \<Rightarrow> effect list \<times> peer_session \<Rightarrow> bool" where
  "step_shape st r \<longleftrightarrow> (if ps_closed st then list_all is_delivery (fst r) \<and> ps_closed (snd r)
     else if ps_closed (snd r) then (\<exists>outs reason. fst r = outs @ [OnClose reason] \<and> list_all (\<lambda>e. \<not> is_close e) outs)
     else list_all (\<lambda>e. \<not> is_close e) (fst r))"

lemma write_frame_closed [simp]: "ps_closed (snd (write_frame c f st)) = ps_closed st"
  by (simp add: write_frame_def split: sum.splits prod.splits)

lemma shape_ps_close: "step_shape st (ps_close c reason notify st)"
proof (cases "ps_closed st")
  case False
  show ?thesis using False write_frame_closed [of c "close_frame (reason_json reason)" "st\<lparr>ps_closed := True, ps_idle := False, ps_heartbeat := False\<rparr>"]
    by (auto simp: step_shape_def ps_close_def Let_def case_prod_unfold split: sum.splits)
qed (simp add: step_shape_def ps_close_def)

lemma shape_sendFrame: "step_shape st (snd (sendFrame c f st))"
proof -
  obtain r st' where w: "write_frame c f st = (r, st')" by (cases "write_frame c f st")
  then have "ps_closed st' = ps_closed st" using write_frame_closed [of c f st] by simp
  then show ?thesis using w by (cases r) (simp_all add: step_shape_def sendFrame_def)
qed

lemma sendFrame_closed: "ps_closed (snd (snd (sendFrame c f st))) = ps_closed st" "fst (sendFrame c f st) = Inl e \<Longrightarrow> \<not> ps_closed st"
proof -
  obtain r st' where w: "write_frame c f st = (r, st')" by (cases "write_frame c f st")
  then have "ps_closed st' = ps_closed st" using write_frame_closed [of c f st] by simp
  then show "ps_closed (snd (snd (sendFrame c f st))) = ps_closed st" using w by (cases r) (simp_all add: sendFrame_def)
qed (auto simp: sendFrame_def)

lemma shape_quiet [simp]: "step_shape st ([], st)" "step_shape st ([Deliver v], st)"
  by (simp_all add: step_shape_def)

lemma shape_dispatch: "step_shape st (dispatch c frame st)"
  unfolding dispatch_def by (simp add: shape_ps_close shape_sendFrame case_prod_unfold del: get_simps)

lemma shape_cong: "ps_closed st' = ps_closed st \<Longrightarrow> step_shape st' r \<Longrightarrow> step_shape st r"
  by (simp add: step_shape_def)

lemma shape_onRecord: "step_shape st (onRecord c rec st)"
proof -
  let ?st = "st\<lparr>ps_idle := True\<rparr>"
  show ?thesis
  proof (cases "decrypt c (se_receive (ps_session ?st)) rec")
    case (Inl e)
    then show ?thesis using shape_cong [OF _ shape_ps_close [of ?st c "Failure e" False], of st] by (simp add: onRecord_def)
  next
    case (Inr q)
    obtain p cipher where q: "q = (p, cipher)" by (cases q)
    let ?st1 = "?st\<lparr>ps_session := (ps_session ?st)\<lparr>se_receive := cipher\<rparr>\<rparr>"
    show ?thesis using Inr q shape_cong [OF _ shape_ps_close [of ?st1 c _ False], of st] shape_cong [OF _ shape_dispatch [of ?st1 c], of st]
      by (simp add: onRecord_def Let_def split: sum.splits)
  qed
qed

lemma shape_session_step: "step_shape st (session_step c e st)"
proof (cases e)
  case (SendPayload rnd now payload)
  have "snd (sendPayload c rnd now payload st) = snd (sendFrame c (message_frame (bytesToHex rnd) now payload) st)"
    by (simp add: sendPayload_def sendFrame_def)
  then show ?thesis using SendPayload by (simp add: shape_sendFrame)
next
  case (Ping writeOk rnd)
  let ?f = "Obj [(''type'', Str ''ping''), (''nonce'', Str (bytesToHex rnd))]"
  obtain res out st' where sf: "sendFrame c ?f st = (res, out, st')" by (cases "sendFrame c ?f st")
  have eq: "ps_closed st' = ps_closed st" and quiet: "step_shape st (out, st')" using sendFrame_closed(1) [of c ?f st] shape_sendFrame [of st c ?f] sf by simp_all
  show ?thesis
  proof (cases "isl res \<or> (res = Inr True \<and> \<not> writeOk)")
    case True
    then have "\<not> ps_closed st" using sf by (auto simp: sendFrame_def isl_def split: if_splits)
    then show ?thesis using Ping True sf eq quiet shape_ps_close [of st' c "Reason (Str ''heartbeat write failed'')" True]
      by (auto simp: sendPing_def step_shape_def case_prod_unfold Let_def)
  next
    case False
    then show ?thesis using Ping sf quiet by (auto simp: sendPing_def)
  qed
next
  case (Record rec)
  then show ?thesis by (simp add: shape_onRecord)
next
  case Idle
  then show ?thesis by (simp add: idleTimeout_def shape_ps_close)
next
  case (Close reason)
  then show ?thesis by (simp add: shape_ps_close)
qed

text \<open>At most one call of \<open>onClose\<close>, as the last effect.\<close>

definition closes_last :: "effect list \<Rightarrow> bool" where
  "closes_last outs \<longleftrightarrow> list_all (\<lambda>e. \<not> is_close e) outs \<or> (\<exists>xs reason. outs = xs @ [OnClose reason] \<and> list_all (\<lambda>e. \<not> is_close e) xs)"

lemma closes_last_append: "list_all (\<lambda>e. \<not> is_close e) xs \<Longrightarrow> closes_last ys \<Longrightarrow> closes_last (xs @ ys)"
  unfolding closes_last_def by (elim disjE exE conjE) (simp, metis append_assoc list_all_append)

text \<open>
  A session closes at most once, and is silent afterwards: in any run of sends, heartbeats, records and closes the effects
  are those of the open session, then one \<open>onClose\<close> at most, and after it nothing is written and nothing closed again.
\<close>

theorem session_closes_once:
  "\<exists>before after. fst (session_run c es (new_peer_session se info m)) = before @ after \<and>
     list_all is_delivery after \<and> closes_last before"
proof -
  have closed: "ps_closed st \<Longrightarrow> list_all is_delivery (fst (session_run c es st))" for es st
  proof (induction es arbitrary: st)
    case (Cons e es)
    then show ?case using shape_session_step [of st c e] by (auto simp: case_prod_unfold Let_def step_shape_def)
  qed simp
  have "\<exists>before after. fst (session_run c es st) = before @ after \<and> list_all is_delivery after \<and> closes_last before"
    if "\<not> ps_closed st" for st
    using that
  proof (induction es arbitrary: st)
    case (Cons e es)
    let ?r = "session_step c e st"
    note shape = shape_session_step [of st c e]
    have run: "fst (session_run c (e # es) st) = fst ?r @ fst (session_run c es (snd ?r))" by (simp add: case_prod_unfold Let_def)
    show ?case
    proof (cases "ps_closed (snd ?r)")
      case True
      then show ?thesis using shape Cons.prems closed [OF True, of es] run
        by (intro exI [of _ "fst ?r"] exI [of _ "fst (session_run c es (snd ?r))"]) (simp add: step_shape_def closes_last_def)
    next
      case False
      obtain before after where ba: "fst (session_run c es (snd ?r)) = before @ after" "list_all is_delivery after" "closes_last before"
        using Cons.IH [OF False] by blast
      have "list_all (\<lambda>e. \<not> is_close e) (fst ?r)" using shape Cons.prems False by (simp add: step_shape_def)
      from closes_last_append [OF this ba(3)] show ?thesis using ba run
        by (intro exI [of _ "fst ?r @ before"] exI [of _ after]) simp
    qed
  qed (simp add: closes_last_def)
  then show ?thesis by (simp add: new_peer_session_def)
qed

text \<open>The read loop waits with a session that is open; a close while it waits does not keep the record from being delivered.\<close>

lemma message_after_close:
  assumes "decrypt c (se_receive (ps_session st)) rec = Inr (p, cipher)" "decodeWireFrame p (ps_maxFrameBytes st) = Inr (message_frame i k payload)" "ps_closed st"
  shows "\<exists>v. fst (onRecord c rec st) = [Deliver v]"
  using assms by (simp add: onRecord_def dispatch_def message_frame_def Let_def)

end
