(* ===== verification/Session_Map.thy ===== *)
theory Session_Map
  imports JS_Values Peer_Bytes
begin

text \<open>
  \<open>src/bridge/webBridge/sessionMap.js\<close>: the keys of a peer's devices, the rule which side of a pair of
  devices opens the relay tunnel, and the table of the open sessions. An \<open>entry\<close> keeps the fields
  the table reads; the session object it carries is the record's extension. The user agent of the
  browser and the random bytes of a new device id are arguments.
\<close>

section \<open>Device keys\<close>

definition LEGACY_DEVICE_KEY :: string where "LEGACY_DEVICE_KEY = ''legacy''"
definition DIRECT_DEVICE_KEY :: string where "DIRECT_DEVICE_KEY = ''direct''"
definition DEVICE_NAME_MAX :: nat where "DEVICE_NAME_MAX = 64"

definition device_char :: "char \<Rightarrow> bool" where
  "device_char c \<longleftrightarrow> (let n = (of_char c :: nat) in
     (65 \<le> n \<and> n \<le> 90) \<or> (97 \<le> n \<and> n \<le> 122) \<or> (48 \<le> n \<and> n \<le> 57) \<or> n = 95 \<or> n = 45)"

definition DEVICE_ID_RE :: "string \<Rightarrow> bool" where
  "DEVICE_ID_RE s \<longleftrightarrow> list_all device_char s \<and> 8 \<le> length s \<and> length s \<le> 64"

definition isValidDeviceId :: "jsv \<Rightarrow> bool" where
  "isValidDeviceId v = (case v of Str s \<Rightarrow> DEVICE_ID_RE s | _ \<Rightarrow> False)"

definition normalizeDeviceKey :: "jsv \<Rightarrow> string" where
  "normalizeDeviceKey v =
     (let i = js_trim (js_String (js_orv v (Str [])))
      in if i = [] \<or> i = LEGACY_DEVICE_KEY then LEGACY_DEVICE_KEY
         else if i = DIRECT_DEVICE_KEY then DIRECT_DEVICE_KEY
         else if DEVICE_ID_RE i then i
         else LEGACY_DEVICE_KEY)"

definition newDeviceId :: "bytes \<Rightarrow> string" where
  "newDeviceId rnd = concat (map (\<lambda>b. [hex_digit (unat b div 16), hex_digit (unat b mod 16)]) rnd)"

definition webDeviceName :: "jsv \<Rightarrow> jsv \<Rightarrow> string" where
  "webDeviceName userAgent navigatorAgent =
     (let ua = js_String (js_orv (js_orv userAgent navigatorAgent) (Str []));
          browser = (if js_includes ua ''Edg/'' then ''Edge''
            else if js_includes (js_toLowerCase ua) ''opr/'' \<or> js_includes (js_toLowerCase ua) ''opera'' then ''Opera''
            else if js_includes ua ''Chrome/'' \<or> js_includes ua ''CriOS/'' then ''Chrome''
            else if js_includes ua ''Firefox/'' \<or> js_includes ua ''FxiOS/'' then ''Firefox''
            else if js_includes ua ''Safari/'' then ''Safari''
            else ''Browser'')
      in js_slice DEVICE_NAME_MAX (''BlueTalk Web '' @ [CHR 0xB7] @ '' '' @ browser))"

definition sessionKey :: "jsv \<Rightarrow> jsv \<Rightarrow> string" where
  "sessionKey peerId deviceKey = js_String peerId @ [CHR 0x1F] @ normalizeDeviceKey deviceKey"

definition openerToken :: "jsv \<Rightarrow> jsv \<Rightarrow> string" where
  "openerToken peerId deviceKey = js_String peerId @ [CHR ''/''] @ normalizeDeviceKey deviceKey"

definition shouldOpenTunnel :: "jsv \<Rightarrow> jsv \<Rightarrow> jsv \<Rightarrow> jsv \<Rightarrow> bool" where
  "shouldOpenTunnel ourPeerId ourDeviceKey remotePeerId remoteDeviceKey =
     (let ours = js_String (js_orv ourPeerId (Str [])); theirs = js_String (js_orv remotePeerId (Str []))
      in if ours = [] \<or> theirs = [] \<or> ours = theirs then False
         else openerToken (Str ours) ourDeviceKey < openerToken (Str theirs) remoteDeviceKey)"

section \<open>Device lists\<close>

record device_name =
  dn_id :: string
  dn_name :: string

definition parse_device :: "jsv \<Rightarrow> device_name option" where
  "parse_device item =
     (let rawId = (if is_string item then item else get item ''id'');
          trimmed = js_trim (js_String (js_orv rawId (Str [])))
      in if \<not> isValidDeviceId (Str trimmed) \<and> trimmed \<noteq> LEGACY_DEVICE_KEY \<and> trimmed \<noteq> DIRECT_DEVICE_KEY then None
         else Some \<lparr>dn_id = normalizeDeviceKey (Str trimmed),
                    dn_name = (if is_object item \<and> js_Boolean item
                               then js_slice DEVICE_NAME_MAX (js_String (js_orv (get item ''name'') (Str []))) else [])\<rparr>)"

fun parse_devices :: "jsv list \<Rightarrow> string list \<Rightarrow> device_name list" where
  "parse_devices [] seen = []"
| "parse_devices (item # items) seen =
     (case parse_device item of None \<Rightarrow> parse_devices items seen
      | Some d \<Rightarrow> if dn_id d \<in> set seen then parse_devices items seen
                  else d # parse_devices items (dn_id d # seen))"

definition parseDeviceList :: "jsv \<Rightarrow> device_name list" where
  "parseDeviceList raw = parse_devices (arr_or_empty raw) []"

definition remoteDevicesFromPresence :: "jsv \<Rightarrow> device_name list" where
  "remoteDevicesFromPresence payload =
     (if \<not> js_Boolean (get payload ''online'') then []
      else let parsed = parseDeviceList (get payload ''devices'')
           in if parsed \<noteq> [] then parsed else [\<lparr>dn_id = LEGACY_DEVICE_KEY, dn_name = []\<rparr>])"

section \<open>The table of sessions\<close>

record session_entry =
  en_peerId :: jsv
  en_deviceKey :: jsv
  en_deviceName :: jsv
  en_transport :: jsv
  en_info :: jsv

definition device_obj :: "('a session_entry_scheme) \<Rightarrow> jsv" where
  "device_obj e = Obj [(''id'', Str (normalizeDeviceKey (en_deviceKey e))),
     (''name'', Str (js_String (js_orv (en_deviceName e) (Str [])))),
     (''transport'', js_orv (js_orv (en_transport e) (get (en_info e) ''transport'')) (Str ''relay''))]"

definition deviceListOfSessions :: "('a session_entry_scheme) list \<Rightarrow> jsv list" where
  "deviceListOfSessions sessions = map device_obj sessions"

definition aggregatePeerInfo :: "('a session_entry_scheme) list \<Rightarrow> jsv" where
  "aggregatePeerInfo sessions = (case sessions of [] \<Rightarrow> Null
     | primary # _ \<Rightarrow> spread (en_info primary) [(''devices'', Arr (deviceListOfSessions sessions))])"

type_synonym 'a session_table = "(string \<times> 'a session_entry_scheme) list"

definition st_get :: "'a session_table \<Rightarrow> jsv \<Rightarrow> jsv \<Rightarrow> ('a session_entry_scheme) option" where
  "st_get t peerId deviceKey = map_of t (sessionKey peerId deviceKey)"

definition st_has :: "'a session_table \<Rightarrow> jsv \<Rightarrow> jsv \<Rightarrow> bool" where
  "st_has t peerId deviceKey \<longleftrightarrow> st_get t peerId deviceKey \<noteq> None"

definition stored_entry :: "('a session_entry_scheme) \<Rightarrow> ('a session_entry_scheme)" where
  "stored_entry e = e\<lparr>en_peerId := js_orv (en_peerId e) (get (en_info e) ''id''),
     en_deviceKey := Str (normalizeDeviceKey (en_deviceKey e))\<rparr>"

definition st_set :: "('a session_entry_scheme) \<Rightarrow> 'a session_table \<Rightarrow> 'a session_table" where
  "st_set e t = AList.update (sessionKey (en_peerId (stored_entry e)) (en_deviceKey (stored_entry e))) (stored_entry e) t"

definition st_delete :: "jsv \<Rightarrow> jsv \<Rightarrow> 'a session_table \<Rightarrow> bool \<times> 'a session_table" where
  "st_delete peerId deviceKey t = (st_has t peerId deviceKey, AList.delete (sessionKey peerId deviceKey) t)"

definition st_size :: "'a session_table \<Rightarrow> nat" where
  "st_size t = length t"

definition st_values :: "'a session_table \<Rightarrow> ('a session_entry_scheme) list" where
  "st_values t = map snd t"

definition forPeer :: "'a session_table \<Rightarrow> jsv \<Rightarrow> ('a session_entry_scheme) list" where
  "forPeer t peerId = filter (\<lambda>e. en_peerId e = peerId) (st_values t)"

definition hasAny :: "'a session_table \<Rightarrow> jsv \<Rightarrow> bool" where
  "hasAny t peerId \<longleftrightarrow> length (forPeer t peerId) > 0"

definition peerIds :: "'a session_table \<Rightarrow> jsv list" where
  "peerIds t = collect_new Some (map en_peerId (st_values t)) []"

definition peerInfos :: "'a session_table \<Rightarrow> jsv list" where
  "peerInfos t = filter js_Boolean (map (\<lambda>i. aggregatePeerInfo (forPeer t i)) (peerIds t))"

definition devices :: "'a session_table \<Rightarrow> jsv \<Rightarrow> jsv list" where
  "devices t peerId = deviceListOfSessions (forPeer t peerId)"

section \<open>Keys of devices\<close>

lemma device_char_not: "device_char c \<Longrightarrow> c \<noteq> CHR ''/'' \<and> c \<noteq> CHR 0x1F \<and> \<not> js_space c"
  by (auto simp: device_char_def js_space_def Let_def)

lemma trim_id: "list_all (\<lambda>c. \<not> js_space c) s \<Longrightarrow> js_trim s = s"
  by (rule js_trim_trimmed) (auto simp: trimmed_def list_all_iff)

lemma normalizeDeviceKey_chars: "list_all device_char (normalizeDeviceKey v)"
  by (simp add: normalizeDeviceKey_def Let_def DEVICE_ID_RE_def LEGACY_DEVICE_KEY_def DIRECT_DEVICE_KEY_def device_char_def)

lemma normalizeDeviceKey_not_Nil: "normalizeDeviceKey v \<noteq> []"
  by (auto simp: normalizeDeviceKey_def Let_def LEGACY_DEVICE_KEY_def DIRECT_DEVICE_KEY_def)

lemma normalizeDeviceKey_cases:
  "normalizeDeviceKey v = LEGACY_DEVICE_KEY \<or> normalizeDeviceKey v = DIRECT_DEVICE_KEY \<or> DEVICE_ID_RE (normalizeDeviceKey v)"
  by (simp add: normalizeDeviceKey_def Let_def)

lemma normalizeDeviceKey_fixed:
  assumes "s = LEGACY_DEVICE_KEY \<or> s = DIRECT_DEVICE_KEY \<or> DEVICE_ID_RE s"
  shows "normalizeDeviceKey (Str s) = s"
proof -
  have "list_all device_char s" using assms
    by (auto simp: DEVICE_ID_RE_def LEGACY_DEVICE_KEY_def DIRECT_DEVICE_KEY_def device_char_def)
  then have "list_all (\<lambda>c. \<not> js_space c) s" using device_char_not by (auto simp: list_all_iff)
  then have "js_trim s = s" by (rule trim_id)
  moreover have "s \<noteq> []" using assms by (auto simp: DEVICE_ID_RE_def LEGACY_DEVICE_KEY_def DIRECT_DEVICE_KEY_def)
  ultimately show ?thesis using assms by (auto simp: normalizeDeviceKey_def Let_def)
qed

lemma normalizeDeviceKey_idem [simp]: "normalizeDeviceKey (Str (normalizeDeviceKey v)) = normalizeDeviceKey v"
  by (rule normalizeDeviceKey_fixed [OF normalizeDeviceKey_cases])

lemma split_last:
  "\<lbrakk>a @ [c] @ x = b @ [c] @ y; c \<notin> set x; c \<notin> set y\<rbrakk> \<Longrightarrow> a = b \<and> x = y"
proof (induction a arbitrary: b)
  case Nil
  then show ?case by (cases b) auto
next
  case (Cons h a)
  then show ?case by (cases b) auto
qed

lemma separator_not_in_key: "CHR ''/'' \<notin> set (normalizeDeviceKey v)" "CHR 0x1F \<notin> set (normalizeDeviceKey v)"
  using normalizeDeviceKey_chars [of v] device_char_not by (auto simp: list_all_iff)

lemma openerToken_inj:
  "openerToken p d = openerToken q e \<Longrightarrow> js_String p = js_String q \<and> normalizeDeviceKey d = normalizeDeviceKey e"
  unfolding openerToken_def by (rule split_last [OF _ separator_not_in_key(1) separator_not_in_key(1)])

lemma sessionKey_eq:
  "sessionKey p d = sessionKey q e \<longleftrightarrow> js_String p = js_String q \<and> normalizeDeviceKey d = normalizeDeviceKey e"
  unfolding sessionKey_def using split_last [of "js_String p" "CHR 0x1F" _ "js_String q"] separator_not_in_key by auto

lemma newDeviceId_valid: "length rnd = 16 \<Longrightarrow> isValidDeviceId (Str (newDeviceId rnd)) \<and> normalizeDeviceKey (Str (newDeviceId rnd)) = newDeviceId rnd"
proof -
  assume len: "length rnd = 16"
  have hex: "device_char (hex_digit n)" if "n < 16" for n
    using that by (auto simp: hex_digit_def device_char_def Let_def)
  have byte_div: "unat b div 16 < 16" for b :: byte
    by (rule byte_halves(1))
  have "list_all device_char (newDeviceId rnd)"
    by (induction rnd) (auto simp: newDeviceId_def intro!: hex simp: byte_div)
  moreover have "length (newDeviceId rnd) = 2 * length rnd"
    by (induction rnd) (simp_all add: newDeviceId_def)
  ultimately have "DEVICE_ID_RE (newDeviceId rnd)" using len by (simp add: DEVICE_ID_RE_def)
  then show ?thesis by (simp add: isValidDeviceId_def normalizeDeviceKey_fixed)
qed

text \<open>
  For every pair of devices of two different peers exactly one side opens the relay tunnel, whatever
  the two device keys are and whether a side knows the other's key as it was sent or normalised: the
  devices never both open a tunnel and never both wait.
\<close>

theorem exactly_one_opener:
  assumes "p \<noteq> []" "q \<noteq> []" "p \<noteq> q"
  shows "shouldOpenTunnel (Str p) d (Str q) (Str (normalizeDeviceKey e)) \<longleftrightarrow>
     \<not> shouldOpenTunnel (Str q) e (Str p) (Str (normalizeDeviceKey d))"
proof -
  have "openerToken (Str p) d \<noteq> openerToken (Str q) e" using openerToken_inj [of "Str p" d "Str q" e] assms(3) by auto
  moreover have "openerToken r (Str (normalizeDeviceKey f)) = openerToken r f" for r f by (simp add: openerToken_def)
  ultimately show ?thesis using assms by (auto simp: shouldOpenTunnel_def Let_def)
qed

theorem exactly_one_opener_witness:
  "shouldOpenTunnel (Str ''aa'') Undef (Str ''bb'') (Str (normalizeDeviceKey (Str ''device-01''))) \<longleftrightarrow>
     \<not> shouldOpenTunnel (Str ''bb'') (Str ''device-01'') (Str ''aa'') (Str (normalizeDeviceKey Undef))"
  by (rule exactly_one_opener) simp_all

section \<open>The table is a map from devices to sessions\<close>

text \<open>
  What a keyed store of entries promises: the laws of a finite map for its insertion, its removal and
  the list of its entries. A caller names an entry by a key of its own; \<open>canon\<close> tells which of
  those keys name the same entry, and an insertion stores the normal form of the entry.
\<close>

locale entry_store =
  fixes lookup :: "'t \<Rightarrow> 'k \<Rightarrow> 'e option"
    and put :: "'e \<Rightarrow> 't \<Rightarrow> 't"
    and remove :: "'k \<Rightarrow> 't \<Rightarrow> 't"
    and entries :: "'t \<Rightarrow> 'e list"
    and canon :: "'k \<Rightarrow> 'c"
    and key :: "'e \<Rightarrow> 'c"
    and normal :: "'e \<Rightarrow> 'e"
    and valid :: "'t \<Rightarrow> bool"
    and admissible :: "'e \<Rightarrow> bool"
    and initial :: 't
  assumes initial: "valid initial" "lookup initial k = None"
    and put: "valid t \<Longrightarrow> admissible e \<Longrightarrow> valid (put e t)"
      "valid t \<Longrightarrow> admissible e \<Longrightarrow> lookup (put e t) k = (if canon k = key e then Some (normal e) else lookup t k)"
    and remove: "valid t \<Longrightarrow> valid (remove k t)"
      "valid t \<Longrightarrow> lookup (remove k t) k' = (if canon k' = canon k then None else lookup t k')"
    and entries: "valid t \<Longrightarrow> e \<in> set (entries t) \<longleftrightarrow> (\<exists>k. lookup t k = Some e)" "valid t \<Longrightarrow> distinct (map key (entries t))"
    and named: "valid t \<Longrightarrow> lookup t k = Some e \<Longrightarrow> key e = canon k" "\<exists>k. canon k = key e"
      "admissible e \<Longrightarrow> key (normal e) = key e"
begin

fun run :: "('e + 'k) list \<Rightarrow> 't \<Rightarrow> 't" where
  "run [] t = t"
| "run (Inl e # ops) t = run ops (put e t)"
| "run (Inr k # ops) t = run ops (remove k t)"

fun spec :: "('e + 'k) list \<Rightarrow> ('c \<rightharpoonup> 'e) \<Rightarrow> ('c \<rightharpoonup> 'e)" where
  "spec [] m = m"
| "spec (Inl e # ops) m = spec ops (m(key e \<mapsto> normal e))"
| "spec (Inr k # ops) m = spec ops (m(canon k := None))"

definition ok_op :: "'e + 'k \<Rightarrow> bool" where
  "ok_op x = (case x of Inl e \<Rightarrow> admissible e | Inr _ \<Rightarrow> True)"

lemma run_spec:
  "valid t \<Longrightarrow> list_all ok_op ops \<Longrightarrow> (\<And>k. lookup t k = m (canon k)) \<Longrightarrow>
     valid (run ops t) \<and> lookup (run ops t) k = spec ops m (canon k)"
proof (induction ops t arbitrary: m rule: run.induct)
  case (2 e ops t)
  show ?case using 2(1) [of "m(key e \<mapsto> normal e)"] 2(2-4) by (simp add: put ok_op_def fun_upd_def)
next
  case (3 k ops t)
  show ?case using 3(1) [of "m(canon k := None)"] 3(2-4) by (simp add: remove fun_upd_def)
qed simp

lemma run_valid: "list_all ok_op ops \<Longrightarrow> valid (run ops initial)"
  and run_lookup: "list_all ok_op ops \<Longrightarrow> lookup (run ops initial) k = spec ops (\<lambda>_. None) (canon k)"
  using run_spec [OF initial(1), of ops "\<lambda>_. None"] initial(2) by auto

lemma run_distinct: "list_all ok_op ops \<Longrightarrow> distinct (map key (entries (run ops initial)))"
  by (rule entries(2) [OF run_valid])

lemma run_entries:
  assumes "list_all ok_op ops"
  shows "e \<in> set (entries (run ops initial)) \<longleftrightarrow> spec ops (\<lambda>_. None) (key e) = Some e"
  using entries(1) [OF run_valid [OF assms]] run_lookup [OF assms] named(1) [OF run_valid [OF assms]] named(2) [of e]
  by metis

lemma spec_keyed: "list_all ok_op ops \<Longrightarrow> (\<And>k e. m k = Some e \<Longrightarrow> key e = k) \<Longrightarrow> spec ops m k = Some e \<Longrightarrow> key e = k"
proof (induction ops m rule: spec.induct)
  case (2 e' ops m)
  have "admissible e'" and ops: "list_all ok_op ops" using 2(2) ok_op_def [of "Inl e'"] by simp_all
  then have keyed: "key x = l" if "(m(key e' \<mapsto> normal e')) l = Some x" for l x
    using that 2(3) [of l x] named(3) [of e'] by (auto split: if_splits)
  show ?case by (rule 2(1) [OF ops keyed 2(4) [unfolded spec.simps]])
next
  case (3 k' ops m)
  have keyed: "key x = l" if "(m(canon k' := None)) l = Some x" for l x
    using that 3(3) [of l x] by (auto split: if_splits)
  have "list_all ok_op ops" using 3(2) by simp
  then show ?case by (rule 3(1) [OF _ keyed 3(4) [unfolded spec.simps]])
qed simp

lemma run_keyed: "list_all ok_op ops \<Longrightarrow> spec ops (\<lambda>_. None) k = Some e \<Longrightarrow> key e = k"
  by (rule spec_keyed) simp_all

end

type_synonym table_op = "session_entry + jsv \<times> jsv"

fun table_run :: "table_op list \<Rightarrow> unit session_table \<Rightarrow> unit session_table" where
  "table_run [] t = t"
| "table_run (Inl e # ops) t = table_run ops (st_set e t)"
| "table_run (Inr (p, d) # ops) t = table_run ops (snd (st_delete p d t))"

definition device_of :: "jsv \<times> jsv \<Rightarrow> string \<times> string" where
  "device_of pd = (js_String (fst pd), normalizeDeviceKey (snd pd))"

definition entry_device :: "session_entry \<Rightarrow> string \<times> string" where
  "entry_device e = device_of (en_peerId (stored_entry e), en_deviceKey e)"

definition has_peer :: "session_entry \<Rightarrow> bool" where
  "has_peer e \<longleftrightarrow> is_string (en_peerId (stored_entry e)) \<and> en_peerId (stored_entry e) \<noteq> Str []"

fun table_spec :: "table_op list \<Rightarrow> (string \<times> string \<rightharpoonup> session_entry) \<Rightarrow> (string \<times> string \<rightharpoonup> session_entry)" where
  "table_spec [] m = m"
| "table_spec (Inl e # ops) m = table_spec ops (m(entry_device e \<mapsto> stored_entry e))"
| "table_spec (Inr pd # ops) m = table_spec ops (m(device_of pd := None))"

definition table_ok :: "unit session_table \<Rightarrow> bool" where
  "table_ok t \<longleftrightarrow> distinct (map fst t) \<and>
     (\<forall>(k, e) \<in> set t. k = sessionKey (en_peerId e) (en_deviceKey e) \<and> stored_entry e = e \<and> has_peer e)"

lemma stored_entry_fields [simp]:
  "en_deviceKey (stored_entry e) = Str (normalizeDeviceKey (en_deviceKey e))" "en_info (stored_entry e) = en_info e"
  by (simp_all add: stored_entry_def)

lemma stored_entry_idem: "has_peer e \<Longrightarrow> stored_entry (stored_entry e) = stored_entry e"
  by (auto simp: has_peer_def stored_entry_def js_orv_def elim!: is_stringE split: if_splits)

lemma table_ok_entry:
  "table_ok t \<Longrightarrow> (k, e) \<in> set t \<Longrightarrow> k = sessionKey (en_peerId e) (en_deviceKey e) \<and> stored_entry e = e \<and> has_peer e"
  by (auto simp: table_ok_def)

lemma sessionKey_device: "sessionKey p d = sessionKey q e \<longleftrightarrow> device_of (p, d) = device_of (q, e)"
  by (simp add: sessionKey_eq device_of_def)

lemma table_lookup_device: "table_ok t \<Longrightarrow> st_get t p d = Some e \<Longrightarrow> entry_device e = device_of (p, d)"
  using table_ok_entry [OF _ map_of_SomeD] sessionKey_device by (fastforce simp: st_get_def entry_device_def)

lemma table_entries: "table_ok t \<Longrightarrow> e \<in> set (st_values t) \<longleftrightarrow> (\<exists>pd. st_get t (fst pd) (snd pd) = Some e)"
proof
  assume ok: "table_ok t" and "e \<in> set (st_values t)"
  then obtain k where "(k, e) \<in> set t" by (auto simp: st_values_def)
  then show "\<exists>pd. st_get t (fst pd) (snd pd) = Some e" using table_ok_entry [OF ok] ok
    by (intro exI [of _ "(en_peerId e, en_deviceKey e)"]) (auto simp: st_get_def table_ok_def)
next
  assume "\<exists>pd. st_get t (fst pd) (snd pd) = Some e"
  then show "e \<in> set (st_values t)" using map_of_SomeD by (force simp: st_get_def st_values_def)
qed

lemma table_distinct:
  assumes "table_ok t"
  shows "distinct (map entry_device (st_values t))"
proof -
  have "inj_on entry_device (set (st_values t))"
  proof (rule inj_onI)
    fix e f assume "e \<in> set (st_values t)" "f \<in> set (st_values t)" and eq: "entry_device e = entry_device f"
    then obtain k l where kl: "(k, e) \<in> set t" "(l, f) \<in> set t" by (auto simp: st_values_def)
    then have "k = l" using table_ok_entry [OF assms] eq by (metis entry_device_def sessionKey_device)
    then show "e = f" using kl assms by (metis table_ok_def eq_key_imp_eq_value)
  qed
  moreover have "distinct (st_values t)"
  proof -
    have "map fst t = map (\<lambda>e. sessionKey (en_peerId e) (en_deviceKey e)) (st_values t)"
      using table_ok_entry [OF assms] by (auto simp: st_values_def)
    then show ?thesis using assms by (metis distinct_map table_ok_def)
  qed
  ultimately show ?thesis by (simp add: distinct_map)
qed

lemma table_ok_set:
  assumes "table_ok t" "has_peer e"
  shows "table_ok (st_set e t)"
  unfolding table_ok_def st_set_def
proof (intro conjI ballI)
  have "has_peer (stored_entry e)" using assms(2) stored_entry_idem [OF assms(2)] by (simp add: has_peer_def)
  fix x assume "x \<in> set (AList.update (sessionKey (en_peerId (stored_entry e)) (en_deviceKey (stored_entry e))) (stored_entry e) t)"
  then have "x \<in> set t \<or> x = (sessionKey (en_peerId (stored_entry e)) (en_deviceKey (stored_entry e)), stored_entry e)"
    by (auto dest: update_elem)
  then show "case x of (k, e) \<Rightarrow> k = sessionKey (en_peerId e) (en_deviceKey e) \<and> stored_entry e = e \<and> has_peer e"
    using assms \<open>has_peer (stored_entry e)\<close> stored_entry_idem [OF assms(2)] by (auto simp: table_ok_def)
qed (use assms in \<open>simp add: table_ok_def distinct_update\<close>)

interpretation session_store: entry_store
  "\<lambda>t pd. st_get t (fst pd) (snd pd)" st_set "\<lambda>pd t. snd (st_delete (fst pd) (snd pd) t)" st_values
  device_of entry_device stored_entry table_ok has_peer "[]"
proof
  fix t :: "unit session_table" and e :: session_entry and k k' :: "jsv \<times> jsv"
  show "table_ok []" by (simp add: table_ok_def)
  show "st_get [] (fst k) (snd k) = None" by (simp add: st_get_def)
  show "has_peer e \<Longrightarrow> entry_device (stored_entry e) = entry_device e"
    by (simp add: entry_device_def stored_entry_idem device_of_def)
  show "\<exists>k. device_of k = entry_device e" by (auto simp: entry_device_def)
  assume ok: "table_ok t"
  show "has_peer e \<Longrightarrow> table_ok (st_set e t)" by (rule table_ok_set [OF ok])
  show "st_get (st_set e t) (fst k) (snd k) = (if device_of k = entry_device e then Some (stored_entry e) else st_get t (fst k) (snd k))"
    if "has_peer e"
    by (auto simp: st_get_def st_set_def update_conv' sessionKey_device entry_device_def device_of_def)
  show "table_ok (snd (st_delete (fst k) (snd k) t))"
    using ok by (auto simp: table_ok_def st_delete_def distinct_delete delete_elem)
  show "st_get (snd (st_delete (fst k) (snd k) t)) (fst k') (snd k') = (if device_of k' = device_of k then None else st_get t (fst k') (snd k'))"
    by (auto simp: st_get_def st_delete_def delete_conv' sessionKey_device)
  show "(e \<in> set (st_values t)) = (\<exists>k. st_get t (fst k) (snd k) = Some e)" by (rule table_entries [OF ok])
  show "distinct (map entry_device (st_values t))" by (rule table_distinct [OF ok])
  show "st_get t (fst k) (snd k) = Some e \<Longrightarrow> entry_device e = device_of k"
    using table_lookup_device [OF ok] by simp
qed

lemma table_run_store: "table_run ops t = session_store.run ops t"
  by (induction ops t rule: table_run.induct) simp_all

lemma table_spec_store: "table_spec ops m = session_store.spec ops m"
  by (induction ops m rule: table_spec.induct) (simp_all add: fun_upd_def)

definition op_has_peer :: "table_op \<Rightarrow> bool" where
  "op_has_peer x = (case x of Inl e \<Rightarrow> has_peer e | Inr _ \<Rightarrow> True)"

lemma ops_ok: "list_all op_has_peer ops = list_all session_store.ok_op ops"
  by (simp add: op_has_peer_def session_store.ok_op_def list_all_iff split: sum.splits)

lemma entry_of_peer: "has_peer e \<Longrightarrow> stored_entry e = e \<Longrightarrow> en_peerId e = Str (fst (entry_device e))"
  by (auto simp: has_peer_def entry_device_def device_of_def elim!: is_stringE)

text \<open>
  Whatever sequence of sessions is opened, reopened and closed, the table behaves as a map from
  (peer, normalised device key) to the session stored last: a lookup finds it however the device key is
  written, and the sessions listed for a peer are those of the map, each device of the peer once.
\<close>

theorem session_table_is_map:
  assumes "list_all op_has_peer ops"
  shows "st_get (table_run ops []) (Str p) d = table_spec ops (\<lambda>_. None) (p, normalizeDeviceKey d) \<and>
     set (forPeer (table_run ops []) (Str p)) = {e. \<exists>k. table_spec ops (\<lambda>_. None) (p, k) = Some e} \<and>
     distinct (map (\<lambda>e. snd (entry_device e)) (forPeer (table_run ops []) (Str p)))"
proof -
  note ok = assms [unfolded ops_ok]
  let ?t = "table_run ops []" and ?m = "table_spec ops (\<lambda>_. None)"
  have valid: "table_ok ?t" using session_store.run_valid [OF ok] by (simp add: table_run_store)
  have get: "st_get ?t (Str p) d = ?m (p, normalizeDeviceKey d)" for p d
    using session_store.run_lookup [OF ok, of "(Str p, d)"] by (simp add: table_run_store table_spec_store device_of_def)
  have mem: "e \<in> set (st_values ?t) \<longleftrightarrow> ?m (entry_device e) = Some e" for e
    using session_store.run_entries [OF ok, of e] by (simp add: table_run_store table_spec_store)
  have peer: "en_peerId e = Str (fst (entry_device e))" if "e \<in> set (st_values ?t)" for e
    using that table_ok_entry [OF valid] entry_of_peer by (auto simp: st_values_def)
  have dev: "entry_device e = k" if "?m k = Some e" for k e
    using session_store.run_keyed [OF ok] that by (simp add: table_spec_store)
  have "set (forPeer ?t (Str p)) = {e. \<exists>k. ?m (p, k) = Some e}"
  proof (intro set_eqI iffI)
    fix e assume e: "e \<in> set (forPeer ?t (Str p))"
    then have "fst (entry_device e) = p" using peer [of e] by (simp add: forPeer_def)
    then have "?m (p, snd (entry_device e)) = Some e" using e mem [of e] by (metis filter_is_subset forPeer_def in_mono prod.collapse)
    then show "e \<in> {e. \<exists>k. ?m (p, k) = Some e}" by blast
  next
    fix e assume "e \<in> {e. \<exists>k. ?m (p, k) = Some e}"
    then obtain k where k: "?m (p, k) = Some e" by blast
    then have "e \<in> set (st_values ?t)" using mem [of e] dev [OF k] by simp
    then show "e \<in> set (forPeer ?t (Str p))" using peer [of e] dev [OF k] by (simp add: forPeer_def)
  qed
  moreover have "distinct (map (\<lambda>e. snd (entry_device e)) (forPeer ?t (Str p)))"
  proof -
    have "inj_on (\<lambda>e. snd (entry_device e)) (set (forPeer ?t (Str p)))"
    proof (rule inj_onI)
      fix e f assume ef: "e \<in> set (forPeer ?t (Str p))" "f \<in> set (forPeer ?t (Str p))" and eq: "snd (entry_device e) = snd (entry_device f)"
      then have "fst (entry_device e) = p" "fst (entry_device f) = p" using peer [of e] peer [of f] by (simp_all add: forPeer_def)
      then have "entry_device e = entry_device f" using eq by (simp add: prod_eq_iff)
      then show "e = f" using ef mem [of e] mem [of f] by (simp add: forPeer_def)
    qed
    moreover have "distinct (forPeer ?t (Str p))"
      using table_distinct [OF valid] by (simp add: forPeer_def distinct_map)
    ultimately show ?thesis by (simp add: distinct_map)
  qed
  ultimately show ?thesis using get by blast
qed

theorem session_table_is_map_witness:
  "\<exists>e. table_spec [Inl e, Inr (Str ''aa'', Str ''direct'')] (\<lambda>_. None) (''aa'', ''legacy'') = Some (stored_entry e) \<and>
     st_get (table_run [Inl e, Inr (Str ''aa'', Str ''direct'')] []) (Str ''aa'') Undef = Some (stored_entry e)"
proof -
  let ?e = "\<lparr>en_peerId = Str ''aa'', en_deviceKey = Undef, en_deviceName = Str ''Phone'', en_transport = Undef, en_info = Undef\<rparr> :: session_entry"
  have ok: "list_all op_has_peer [Inl ?e, Inr (Str ''aa'', Str ''direct'')]" by (simp add: op_has_peer_def has_peer_def stored_entry_def)
  have keys: "normalizeDeviceKey Undef = ''legacy''" "normalizeDeviceKey (Str ''direct'') = ''direct''" "normalizeDeviceKey (Str ''legacy'') = ''legacy''"
    using normalizeDeviceKey_fixed [of "''direct''"] normalizeDeviceKey_fixed [of "''legacy''"]
    by (simp_all add: LEGACY_DEVICE_KEY_def DIRECT_DEVICE_KEY_def normalizeDeviceKey_def js_trim_def)
  have "table_spec [Inl ?e, Inr (Str ''aa'', Str ''direct'')] (\<lambda>_. None) (''aa'', ''legacy'') = Some (stored_entry ?e)"
    by (simp add: entry_device_def device_of_def keys stored_entry_def)
  note spec = this
  have "st_get (table_run [Inl ?e, Inr (Str ''aa'', Str ''direct'')] []) (Str ''aa'') Undef = Some (stored_entry ?e)"
    using session_table_is_map [OF ok, of "''aa''" Undef] spec by (simp add: keys(1) del: table_run.simps table_spec.simps)
  then show ?thesis using spec by blast
qed

end
