(* ===== verification/Contact_Patch.thy ===== *)
theory Contact_Patch
  imports Group_Chat
begin

text \<open>
  \<open>src/renderer/app/contactPatch.js\<close>: how patches from handshakes and presence frames, and the sender
  names of incoming messages, are merged into the list of contacts. Contacts and patches are the stored
  objects; the clock is an argument.
\<close>

definition AI_CHAT_PEER_ID :: string where "AI_CHAT_PEER_ID = ''__ai_chat__''"
definition AI_CHAT_PEER_PREFIX :: string where "AI_CHAT_PEER_PREFIX = ''__ai_chat__:''"

definition isAiChatPeerId :: "jsv \<Rightarrow> bool" where
  "isAiChatPeerId peerId \<longleftrightarrow> peerId = Str AI_CHAT_PEER_ID
     \<or> js_startsWith (js_String (js_orv peerId (Str []))) AI_CHAT_PEER_PREFIX"

definition PLACEHOLDER_NAMES :: "string list" where
  "PLACEHOLDER_NAMES = [[], ''Anonymous'', ''BlueTalk user'']"

definition or_empty :: "jsv \<Rightarrow> string" where
  "or_empty v = js_String (js_orv v (Str []))"

definition isPlaceholderDisplayName :: "jsv \<Rightarrow> bool" where
  "isPlaceholderDisplayName name \<longleftrightarrow> js_trim (or_empty name) \<in> set PLACEHOLDER_NAMES"

definition shouldKeepExistingContactName :: "jsv \<Rightarrow> jsv \<Rightarrow> jsv \<Rightarrow> bool" where
  "shouldKeepExistingContactName existing incoming peerId =
     (let have = js_trim (or_empty existing); new = js_trim (or_empty incoming)
      in if incoming = Undef then have \<noteq> []
         else if have = [] then False
         else if isPlaceholderDisplayName (Str new) then True
         else if new = or_empty peerId \<and> have \<noteq> new then True
         else False)"

fun assign_defined :: "(string \<times> jsv) list \<Rightarrow> (string \<times> jsv) list \<Rightarrow> (string \<times> jsv) list" where
  "assign_defined [] merged = merged"
| "assign_defined ((key, v) # fs) merged = assign_defined fs (if v = Undef then merged else js_assign key v merged)"

definition merge_patch :: "(string \<times> jsv) list \<Rightarrow> jsv \<Rightarrow> (string \<times> jsv) list" where
  "merge_patch base patch =
     (let m1 = assign_defined (own_fields patch) base;
          m2 = (if hasOwn (own_fields patch) ''notifyMutedUntil'' \<and> get patch ''notifyMutedUntil'' = Undef
                then AList.delete ''notifyMutedUntil'' m1 else m1);
          m3 = (if hasOwn (own_fields patch) ''notifyMutedManual'' \<and> get patch ''notifyMutedManual'' = Bool False
                then AList.delete ''notifyMutedManual'' m2 else m2)
      in if shouldKeepExistingContactName (get (Obj base) ''name'') (get patch ''name'') (get patch ''id'')
         then js_assign ''name'' (get (Obj base) ''name'') m3 else m3)"

definition applyContactPatchToList :: "rat \<Rightarrow> jsv \<Rightarrow> jsv \<Rightarrow> jsv list" where
  "applyContactPatchToList clock prev patch =
     (let list = arr_or_empty prev
      in if \<not> js_Boolean (get patch ''id'') then list
         else case findIndex (\<lambda>contact. get contact ''id'' = get patch ''id'') list of
             Some idx \<Rightarrow> list[idx := Obj (merge_patch (own_fields (list ! idx)) patch)]
           | None \<Rightarrow> list @ [Obj (merge_patch [(''id'', get patch ''id''), (''addedAt'', Num (Fin clock))] patch)])"

definition upsertContactNameFromIncomingMessage :: "rat \<Rightarrow> jsv \<Rightarrow> jsv \<Rightarrow> jsv \<Rightarrow> jsv list \<times> bool" where
  "upsertContactNameFromIncomingMessage clock contacts peerId message =
     (let list = arr_or_empty contacts;
          name = (case get message ''sender'' of Str s \<Rightarrow> js_trim s | _ \<Rightarrow> [])
      in if \<not> js_Boolean peerId \<or> \<not> js_Boolean message \<or> get message ''from'' = Str ''self''
            \<or> isGroupChatId peerId \<or> isAiChatPeerId peerId then (list, False)
         else if name = [] \<or> isPlaceholderDisplayName (Str name) \<or> Str name = peerId then (list, False)
         else case findIndex (\<lambda>row. get row ''id'' = peerId) list of
             Some idx \<Rightarrow>
               (let existing = list ! idx; have = get existing ''name''
                in if \<not> isPlaceholderDisplayName have \<and> js_Boolean have \<and> have \<noteq> peerId then (list, False)
                   else (list[idx := spread existing [(''name'', Str name)]], True))
           | None \<Rightarrow> (list @ [Obj [(''id'', peerId), (''name'', Str name),
                                  (''addedAt'', Num (number_or (get message ''timestamp'') clock))]], True))"

section \<open>The first contact of an id\<close>

definition contact_of :: "jsv list \<Rightarrow> jsv \<Rightarrow> jsv option" where
  "contact_of cs peerId = find (\<lambda>c. get c ''id'' = peerId) cs"

definition real_name :: "string \<Rightarrow> string \<Rightarrow> bool" where
  "real_name peerId n \<longleftrightarrow> \<not> isPlaceholderDisplayName (Str n) \<and> js_trim n \<noteq> peerId \<and> n \<noteq> peerId"

definition known_as :: "jsv list \<Rightarrow> string \<Rightarrow> string \<Rightarrow> bool" where
  "known_as cs peerId n \<longleftrightarrow> (\<exists>c. contact_of cs (Str peerId) = Some c \<and> get c ''name'' = Str n)"

lemma contact_of_update:
  assumes "findIndex (\<lambda>c. get c ''id'' = p) cs = Some i" "get c' ''id'' = p"
  shows "contact_of (cs[i := c']) q = (if q = p then Some c' else contact_of cs q)"
  unfolding contact_of_def by (rule find_key_update [OF assms])

lemma contact_of_append:
  "contact_of (cs @ [c]) q = (case contact_of cs q of None \<Rightarrow> if get c ''id'' = q then Some c else None | Some x \<Rightarrow> Some x)"
  by (simp add: contact_of_def find_append split: option.splits)

lemma findIndex_contact: "findIndex (\<lambda>c. get c ''id'' = p) cs = None \<longleftrightarrow> contact_of cs p = None"
  by (simp add: findIndex_find_None contact_of_def)

lemma findIndex_contact_Some: "findIndex (\<lambda>c. get c ''id'' = p) cs = Some i \<Longrightarrow> contact_of cs p = Some (cs ! i)"
  unfolding contact_of_def by (rule findIndex_find)

section \<open>What a patch does\<close>

lemma map_of_assign_defined:
  "distinct (map fst fs) \<Longrightarrow> map_of (assign_defined fs m) k =
     (case map_of fs k of None \<Rightarrow> map_of m k
      | Some v \<Rightarrow> if v = Undef \<or> (k = ''__proto__'' \<and> \<not> hasOwn m k) then map_of m k else Some v)"
proof (induction fs m rule: assign_defined.induct)
  case (2 key v fs m)
  have "map_of fs key = None" using 2(2) by (simp add: map_of_eq_None_iff image_iff)
  then show ?case using 2 by (auto simp: map_of_js_assign hasOwn_def split: option.splits)
qed simp

lemma map_of_keep_own: "hasOwn fs k \<longleftrightarrow> (\<exists>v. map_of fs k = Some v)"
  by (auto simp: hasOwn_def)

lemma merge_patch_get:
  assumes "distinct (map fst fs)" "f \<noteq> ''__proto__''"
  shows "get (Obj (merge_patch base (Obj fs))) f =
     (if f = ''name'' \<and> shouldKeepExistingContactName (get (Obj base) ''name'') (get (Obj fs) ''name'') (get (Obj fs) ''id'')
      then get (Obj base) ''name''
      else if get (Obj fs) f \<noteq> Undef
      then (if f = ''notifyMutedManual'' \<and> get (Obj fs) f = Bool False then Undef else get (Obj fs) f)
      else if f = ''notifyMutedUntil'' \<and> hasOwn fs f then Undef
      else get (Obj base) f)"
proof -
  let ?u = "hasOwn fs ''notifyMutedUntil'' \<and> get (Obj fs) ''notifyMutedUntil'' = Undef"
    and ?m = "hasOwn fs ''notifyMutedManual'' \<and> get (Obj fs) ''notifyMutedManual'' = Bool False"
    and ?n = "shouldKeepExistingContactName (get (Obj base) ''name'') (get (Obj fs) ''name'') (get (Obj fs) ''id'')"
  have get: "get (Obj xs) f = (case map_of xs f of None \<Rightarrow> Undef | Some x \<Rightarrow> x)" for xs by (simp add: get_def)
  have m1: "map_of (assign_defined fs base) f = (if get (Obj fs) f \<noteq> Undef then Some (get (Obj fs) f) else map_of base f)"
    using assms(2) by (simp add: map_of_assign_defined [OF assms(1)] get split: option.splits)
  have del: "map_of (if c then AList.delete k xs else xs) f = (if c \<and> f = k then None else map_of xs f)" for c k and xs :: "(string \<times> jsv) list"
    by (simp add: delete_conv')
  have name: "map_of (if c then js_assign ''name'' v xs else xs) f = (if c \<and> f = ''name'' then Some v else map_of xs f)" for c v xs
    by (simp add: map_of_js_assign)
  have "map_of (merge_patch base (Obj fs)) f = (if ?n \<and> f = ''name'' then Some (get (Obj base) ''name'')
     else if ?m \<and> f = ''notifyMutedManual'' then None else if ?u \<and> f = ''notifyMutedUntil'' then None
     else if get (Obj fs) f \<noteq> Undef then Some (get (Obj fs) f) else map_of base f)"
    unfolding merge_patch_def Let_def own_fields_Obj name del m1 by simp
  moreover have "?m \<longleftrightarrow> get (Obj fs) ''notifyMutedManual'' = Bool False" by (auto simp: hasOwn_def get_def split: option.splits)
  ultimately show ?thesis unfolding get [of "merge_patch base (Obj fs)"]
    by (cases "f = ''name''"; cases "f = ''notifyMutedManual''"; cases "f = ''notifyMutedUntil''")
      (simp_all add: get_def [of "Obj base", symmetric, simplified] cong: option.case_cong)
qed

lemma real_name_facts:
  assumes "real_name p n"
  shows "js_trim n \<noteq> []" "n \<noteq> []" "n \<noteq> p" "js_trim n \<noteq> p" "\<not> isPlaceholderDisplayName (Str n)"
proof -
  have "js_trim (or_empty (Str n)) = js_trim n" by (simp add: or_empty_def)
  then show "js_trim n \<noteq> []" using assms by (auto simp: real_name_def isPlaceholderDisplayName_def PLACEHOLDER_NAMES_def)
  then show "n \<noteq> []" by (auto simp: js_trim_def)
qed (use assms in \<open>simp_all add: real_name_def\<close>)

definition poor_name :: "string \<Rightarrow> jsv \<Rightarrow> bool" where
  "poor_name p v \<longleftrightarrow> v = Undef \<or> isPlaceholderDisplayName (Str (js_trim (or_empty v))) \<or> js_trim (or_empty v) = p"

lemma keeps_real_name:
  assumes "real_name p n" "poor_name p v"
  shows "shouldKeepExistingContactName (Str n) v (Str p)"
proof -
  have "js_trim (or_empty (Str n)) = js_trim n" "or_empty (Str p) = p" by (simp_all add: or_empty_def)
  then show ?thesis using assms real_name_facts [OF assms(1)]
    by (auto simp: shouldKeepExistingContactName_def poor_name_def Let_def)
qed

lemma patched_id:
  "distinct (map fst fs) \<Longrightarrow> js_Boolean (get (Obj fs) ''id'') \<Longrightarrow> get (Obj (merge_patch base (Obj fs))) ''id'' = get (Obj fs) ''id''"
  by (auto simp: merge_patch_get)

lemma contact_of_patched:
  assumes "distinct (map fst fs)" "js_Boolean (get (Obj fs) ''id'')"
  shows "contact_of (applyContactPatchToList clock (Arr cs) (Obj fs)) p =
     (if p = get (Obj fs) ''id''
      then Some (Obj (merge_patch (case contact_of cs p of Some c \<Rightarrow> own_fields c
                                   | None \<Rightarrow> [(''id'', p), (''addedAt'', Num (Fin clock))]) (Obj fs)))
      else contact_of cs p)"
proof (cases "findIndex (\<lambda>c. get c ''id'' = get (Obj fs) ''id'') cs")
  case None
  then have "contact_of cs (get (Obj fs) ''id'') = None" by (simp add: findIndex_contact)
  then show ?thesis using None assms patched_id [OF assms]
    by (auto simp: applyContactPatchToList_def contact_of_append split: option.splits)
next
  case (Some i)
  show ?thesis using Some assms contact_of_update [OF Some patched_id [OF assms]] findIndex_contact_Some [OF Some]
    by (simp add: applyContactPatchToList_def)
qed

lemma patch_keeps_name:
  assumes "known_as cs p n" "real_name p n" "distinct (map fst fs)"
    and "get (Obj fs) ''id'' = Str p \<Longrightarrow> poor_name p (get (Obj fs) ''name'')"
  shows "known_as (applyContactPatchToList clock (Arr cs) (Obj fs)) p n"
proof (cases "js_Boolean (get (Obj fs) ''id'')")
  case False
  then show ?thesis using assms(1) by (simp add: applyContactPatchToList_def)
next
  case True
  obtain c where c: "contact_of cs (Str p) = Some c" "get c ''name'' = Str n" using assms(1) by (auto simp: known_as_def)
  then have "get (Obj (own_fields c)) ''name'' = Str n" by (cases c) simp_all
  then show ?thesis using c assms(3,4) keeps_real_name [OF assms(2)]
    by (auto simp: known_as_def contact_of_patched [OF assms(3) True] merge_patch_get [OF assms(3)])
qed

lemma upsert_keeps_name:
  assumes "known_as cs p n" "real_name p n"
  shows "known_as (fst (upsertContactNameFromIncomingMessage clock (Arr cs) q msg)) p n"
proof -
  obtain c where c: "contact_of cs (Str p) = Some c" "get c ''name'' = Str n" using assms(1) by (auto simp: known_as_def)
  have other: "known_as (cs @ [c']) p n" for c' using c by (simp add: known_as_def contact_of_append)
  have update: "known_as (cs[i := spread (cs ! i) [(''name'', Str m)]]) p n"
    if i: "findIndex (\<lambda>r. get r ''id'' = q) cs = Some i" and "q \<noteq> Str p" for i m
  proof -
    have "get (spread (cs ! i) [(''name'', Str m)]) ''id'' = q" using i by (simp add: get_spread findIndex_Some)
    then show ?thesis using contact_of_update [OF i] c that(2) by (simp add: known_as_def)
  qed
  show ?thesis
  proof (cases "q = Str p")
    case True
    then obtain i where i: "findIndex (\<lambda>r. get r ''id'' = q) cs = Some i" using c(1) findIndex_contact by fastforce
    have "cs ! i = c" using findIndex_contact_Some [OF i] c(1) True by simp
    then show ?thesis using assms(1) real_name_facts [OF assms(2)] c(2) True i
      by (simp add: upsertContactNameFromIncomingMessage_def Let_def)
  next
    case False
    then show ?thesis using assms(1) other update
      by (auto simp: upsertContactNameFromIncomingMessage_def Let_def split: option.splits)
  qed
qed

end
