(* ===== verification/Sync_Logic.thy ===== *)
theory Sync_Logic
  imports Contact_Patch JSON_Text
begin

text \<open>
  \<open>src/renderer/cloudAccount/syncLogic.js\<close>: what a device sends of its store to the devices of the same
  account and how it merges what it receives. A store value, a change in the outbox and an operation from
  the server are JavaScript objects; an object the code uses as a dictionary is the list of its own
  properties. \<open>Date.now()\<close> is an argument. Integer-like keys are enumerated in their order of
  insertion here, which no result below depends on.
\<close>

definition FILE_DATA_STRIP_BYTES :: nat where "FILE_DATA_STRIP_BYTES = 1572864"
definition PUSH_BATCH :: nat where "PUSH_BATCH = 100"
definition PUSH_BODY_MAX_BYTES :: nat where "PUSH_BODY_MAX_BYTES = 8 * 1024 * 1024"
definition PUSH_ITEM_MAX_BYTES :: nat where "PUSH_ITEM_MAX_BYTES = 3 * 1024 * 1024"

definition DEVICE_LOCAL_SETTINGS_KEYS :: "string list" where
  "DEVICE_LOCAL_SETTINGS_KEYS = [''peerPort'', ''peerPorts'', ''apiPort'', ''autoUpdateEnabled'', ''autoDownloadUpdates'',
     ''minimizeToTray'', ''launchAtLogin'', ''debugMode'', ''windowsNotifications'', ''uiResize'', ''uiCollapse'',
     ''onboardingUsernameDone'']"

definition ARRAY_STORE_KEYS :: "string list" where
  "ARRAY_STORE_KEYS = [''contacts'', ''groups'']"

definition MAP_STORE_KEYS :: "string list" where
  "MAP_STORE_KEYS = [''e2eeSessions'', ''chatReadReceipts'', ''chatLastViewedPeerTs'']"

definition utf8ByteLength :: "jsv \<Rightarrow> nat" where
  "utf8ByteLength v = (case v of Str s \<Rightarrow> length (utf8 s) | _ \<Rightarrow> 0)"

definition jsonBytes :: "jsv \<Rightarrow> nat" where
  "jsonBytes v = (if unprintable v then 0 else utf8ByteLength (Str (json v)))"

definition prepareMessageForSync :: "jsv \<Rightarrow> jsv" where
  "prepareMessageForSync message = (case message of
     Obj fs \<Rightarrow> (if is_string (get message ''fileData'') \<and> utf8ByteLength (get message ''fileData'') > FILE_DATA_STRIP_BYTES
               then Obj (js_assign ''syncStripped'' (Bool True) (AList.delete ''fileData'' fs)) else message)
   | _ \<Rightarrow> message)"

definition stripMessageFileData :: "jsv \<Rightarrow> jsv" where
  "stripMessageFileData message = (case message of
     Obj fs \<Rightarrow> (if hasOwn fs ''fileData'' then Obj (js_assign ''syncStripped'' (Bool True) (AList.delete ''fileData'' fs)) else message)
   | _ \<Rightarrow> message)"

definition isDeviceLocalSetting :: "string \<Rightarrow> bool" where
  "isDeviceLocalSetting field \<longleftrightarrow> field \<in> set DEVICE_LOCAL_SETTINGS_KEYS"

section \<open>Logical keys\<close>

definition logicalKeyOf :: "jsv \<Rightarrow> string" where
  "logicalKeyOf change =
     (let t = get change ''type''; s = (\<lambda>f. js_String (get change f))
      in if t = Str ''store-entry'' then ''store:'' @ s ''key'' @ '':'' @ s ''id''
         else if t = Str ''store'' then ''store:'' @ s ''key''
         else if t = Str ''chat-del'' then ''chat:'' @ s ''peerId''
         else if t = Str ''msg'' \<or> t = Str ''msg-del'' then ''msg:'' @ s ''peerId'' @ '':'' @ s ''messageId''
         else [])"

definition logicalKeyOfOp :: "jsv \<Rightarrow> string" where
  "logicalKeyOfOp op =
     (let t = get op ''t''; s = (\<lambda>f. js_String (get op f)); i = get op ''id''
      in if t = Str ''store-entry'' \<and> js_Boolean (get op ''key'') \<and> \<not> nullish i \<and> i \<noteq> Str []
         then ''store:'' @ s ''key'' @ '':'' @ s ''id''
         else if t = Str ''store'' \<and> js_Boolean (get op ''key'') then ''store:'' @ s ''key''
         else if t = Str ''chat-del'' then ''chat:'' @ s ''peerId''
         else if t = Str ''msg'' \<or> t = Str ''msg-del''
         then ''msg:'' @ s ''peerId'' @ '':'' @ js_String (js_orv (get op ''messageId'') (get (get op ''message'') ''messageId''))
         else [])"

section \<open>Entries of a store\<close>

definition valueEqual :: "jsv \<Rightarrow> jsv \<Rightarrow> bool" where
  "valueEqual a b \<longleftrightarrow> a = b \<or> (unprintable a = unprintable b \<and> (unprintable a \<or> json a = json b))"

definition arrayEntryId :: "string \<Rightarrow> jsv \<Rightarrow> string" where
  "arrayEntryId key item =
     (if \<not> js_Boolean item \<or> \<not> is_object item then []
      else if key = ''groups'' then js_String (js_orv (js_orv (get item ''id'') (get item ''groupId'')) (Str []))
      else js_String (js_orv (get item ''id'') (Str [])))"

type_synonym entries = "(string \<times> jsv) list"

definition put_setting :: "string \<times> jsv \<Rightarrow> entries \<Rightarrow> entries" where
  "put_setting = (\<lambda>(field, v) m. if isDeviceLocalSetting field then m else js_assign field v m)"

definition put_item :: "string \<Rightarrow> jsv \<Rightarrow> entries \<Rightarrow> entries" where
  "put_item key item m = (let i = arrayEntryId key item in if i \<noteq> [] then js_assign i item m else m)"

definition put_field :: "string \<times> jsv \<Rightarrow> entries \<Rightarrow> entries" where
  "put_field = (\<lambda>(i, item) m. if i \<noteq> [] then js_assign i item m else m)"

definition entriesOfStore :: "string \<Rightarrow> jsv \<Rightarrow> entries" where
  "entriesOfStore key v =
     (if key = ''settings'' then fold put_setting (own_fields v) []
      else if key \<in> set ARRAY_STORE_KEYS then fold (put_item key) (arr_or_empty v) []
      else if key \<in> set MAP_STORE_KEYS \<or> (case v of Obj _ \<Rightarrow> True | _ \<Rightarrow> False) then fold put_field (own_fields v) []
      else [])"

definition entry_change :: "string \<Rightarrow> string \<Rightarrow> (string \<times> jsv) \<Rightarrow> jsv" where
  "entry_change key i patch = Obj [(''type'', Str ''store-entry''), (''key'', Str key), (''id'', Str i), patch]"

definition diff_entry :: "string \<Rightarrow> entries \<Rightarrow> entries \<Rightarrow> string \<Rightarrow> jsv option" where
  "diff_entry key current prev i =
     (let hasCur = hasOwn current i; hasPrev = hasOwn prev i
      in if hasCur \<and> hasPrev \<and> valueEqual (get (Obj current) i) (get (Obj prev) i) then None
         else if \<not> hasCur \<and> hasPrev then Some (entry_change key i (''deleted'', Bool True))
         else if hasCur then Some (entry_change key i (''value'', get (Obj current) i))
         else None)"

definition diffStoreEntries :: "string \<Rightarrow> jsv \<Rightarrow> jsv \<Rightarrow> jsv list" where
  "diffStoreEntries key currentValue snapshotMap =
     (let current = entriesOfStore key currentValue; prev = own_fields snapshotMap
      in List.map_filter (diff_entry key current prev) (collect_new Some (map fst current @ map fst prev) []))"

definition has_name :: "jsv \<Rightarrow> jsv \<Rightarrow> bool" where
  "has_name incoming v =
     (let name = (case v of Str s \<Rightarrow> js_trim s | _ \<Rightarrow> [])
      in name \<noteq> [] \<and> \<not> isPlaceholderDisplayName (Str name) \<and> name \<noteq> js_String (js_orv (get incoming ''id'') (Str [])))"

definition keep_field :: "jsv \<Rightarrow> string \<Rightarrow> entries \<Rightarrow> entries" where
  "keep_field existing field merged =
     (let v = get (Obj merged) field
      in if (v = Undef \<or> v = Null \<or> v = Str []) \<and> js_Boolean (get existing field)
         then js_assign field (get existing field) merged else merged)"

definition mergeContactIdentity :: "jsv \<Rightarrow> jsv \<Rightarrow> jsv" where
  "mergeContactIdentity existing incoming =
     (if \<not> js_Boolean existing \<or> \<not> is_object existing then incoming
      else let m0 = own_fields incoming;
               m1 = (if \<not> has_name incoming (get (Obj m0) ''name'') \<and> has_name incoming (get existing ''name'')
                     then js_assign ''name'' (get existing ''name'') m0 else m0)
           in Obj (keep_field existing ''bio'' (keep_field existing ''profilePicture'' m1)))"

definition applyStoreEntryToValue :: "string \<Rightarrow> jsv \<Rightarrow> jsv \<Rightarrow> jsv \<Rightarrow> jsv" where
  "applyStoreEntryToValue key currentValue i patch =
     (let entryId = js_String (js_orv i (Str []))
      in if entryId = [] then currentValue
         else if key = ''settings'' \<and> isDeviceLocalSetting entryId then currentValue
         else if key \<in> set ARRAY_STORE_KEYS then
           (let list = arr_or_empty currentValue;
                idx = findIndex (\<lambda>item. arrayEntryId key item = entryId) list
            in if js_Boolean (get patch ''deleted'') then
                 (case idx of None \<Rightarrow> Arr list | Some j \<Rightarrow> Arr (take j list @ drop (Suc j) list))
               else let nextItem = get patch ''value''
                    in if \<not> js_Boolean nextItem \<or> \<not> is_object nextItem then Arr list
                       else case idx of
                           Some j \<Rightarrow> Arr (list[j := if key = ''contacts'' then mergeContactIdentity (list ! j) nextItem else nextItem])
                         | None \<Rightarrow> Arr (list @ [nextItem]))
         else if js_Boolean (get patch ''deleted'') then Obj (AList.delete entryId (own_fields currentValue))
         else Obj (js_assign entryId (get patch ''value'') (own_fields currentValue)))"

definition snapshotAfterEntry :: "entries \<Rightarrow> jsv \<Rightarrow> jsv \<Rightarrow> entries" where
  "snapshotAfterEntry snapshotMap i patch =
     (let entryId = js_String (js_orv i (Str []))
      in if entryId = [] then snapshotMap
         else if js_Boolean (get patch ''deleted'') then AList.delete entryId snapshotMap
         else js_assign entryId (get patch ''value'') snapshotMap)"

section \<open>The outbox\<close>

definition positive :: "jsnum \<Rightarrow> bool" where
  "positive n \<longleftrightarrow> js_less (Fin 0) n"

definition stamp :: "rat \<Rightarrow> jsv \<Rightarrow> jsv" where
  "stamp clock change = spread change
     [(''ts'', Num (if positive (js_Number (get change ''ts'')) then js_Number (get change ''ts'') else Fin clock))]"

definition replace_or_push :: "(jsv \<Rightarrow> bool) \<Rightarrow> jsv \<Rightarrow> jsv list \<Rightarrow> jsv list" where
  "replace_or_push P x xs = (case findIndex P xs of Some idx \<Rightarrow> xs[idx := x] | None \<Rightarrow> xs @ [x])"

definition kept_by_chat_del :: "jsv \<Rightarrow> jsv \<Rightarrow> bool" where
  "kept_by_chat_del stamped item \<longleftrightarrow>
     (if \<not> js_Boolean item then False
      else if get item ''type'' = Str ''chat-del'' \<and> get item ''peerId'' = get stamped ''peerId'' then False
      else if (get item ''type'' = Str ''msg'' \<or> get item ''type'' = Str ''msg-del'') \<and> get item ''peerId'' = get stamped ''peerId'' then False
      else True)"

definition mergeOutbox :: "rat \<Rightarrow> jsv list \<Rightarrow> jsv \<Rightarrow> jsv list" where
  "mergeOutbox clock outbox change =
     (if \<not> js_Boolean (get change ''type'') then outbox
      else let stamped = stamp clock change; key = logicalKeyOf stamped
           in if get stamped ''type'' = Str ''chat-del'' then filter (kept_by_chat_del stamped) outbox @ [stamped]
              else if get stamped ''type'' = Str ''msg-del'' then
                replace_or_push (\<lambda>item. logicalKeyOf item = key) stamped
                  (filter (\<lambda>item. \<not> (get item ''type'' = Str ''msg'' \<and> get item ''peerId'' = get stamped ''peerId''
                                      \<and> get item ''messageId'' = get stamped ''messageId'')) outbox)
              else if key = [] then outbox
              else replace_or_push (\<lambda>item. logicalKeyOf item = key) stamped outbox)"

definition dropOutboxIfRemoteNewer :: "jsv list \<Rightarrow> string \<Rightarrow> jsv \<Rightarrow> jsv list" where
  "dropOutboxIfRemoteNewer outbox logicalKey remoteTs =
     filter (\<lambda>item. logicalKeyOf item \<noteq> logicalKey \<or> js_less (number_or remoteTs 0) (number_or (get item ''ts'') 0)) outbox"

definition sent_mark :: "jsv \<Rightarrow> string" where
  "sent_mark item = logicalKeyOf item @ [CHR 0x00] @ js_number_string (number_or (get item ''ts'') 0)"

definition removeSentFromOutbox :: "jsv list \<Rightarrow> jsv list \<Rightarrow> jsv list" where
  "removeSentFromOutbox outbox sent = filter (\<lambda>item. sent_mark item \<notin> set (map sent_mark sent)) outbox"

definition pendingTsFor :: "jsv list \<Rightarrow> string \<Rightarrow> jsnum" where
  "pendingTsFor outbox logicalKey =
     fold (\<lambda>item m. if logicalKeyOf item = logicalKey then js_max m (number_or (get item ''ts'') 0) else m) outbox (Fin 0)"

text \<open>\<open>createMemoryOutbox\<close>: the outbox behind its interface; every operation answers with the items.\<close>

datatype outbox_op =
    Replace jsv
  | Enqueue rat jsv
  | RemoveSent "jsv list"
  | DropIfRemoteNewer string jsv

definition createMemoryOutbox :: "jsv \<Rightarrow> jsv list" where
  "createMemoryOutbox initial = arr_or_empty initial"

fun outbox_step :: "outbox_op \<Rightarrow> jsv list \<Rightarrow> jsv list" where
  "outbox_step (Replace new) items = arr_or_empty new"
| "outbox_step (Enqueue clock change) items = mergeOutbox clock items change"
| "outbox_step (RemoveSent sent) items = removeSentFromOutbox items sent"
| "outbox_step (DropIfRemoteNewer logicalKey remoteTs) items = dropOutboxIfRemoteNewer items logicalKey remoteTs"

section \<open>What to apply\<close>

definition js_ge :: "jsnum \<Rightarrow> jsnum \<Rightarrow> bool" where
  "js_ge a b \<longleftrightarrow> a \<noteq> NaN \<and> b \<noteq> NaN \<and> \<not> js_less a b"

definition shouldApplyStoreOp :: "jsv \<Rightarrow> jsv \<Rightarrow> bool" where
  "shouldApplyStoreOp incomingTs appliedTs = js_ge (number_or incomingTs 0) (number_or appliedTs 0)"

definition shouldApplyStoreEntry :: "jsv \<Rightarrow> jsnum \<Rightarrow> jsnum \<Rightarrow> bool" where
  "shouldApplyStoreEntry incomingTs appliedTs pendingLocalTs =
     (let incoming = number_or incomingTs 0
      in if js_less incoming (number_or (Num pendingLocalTs) 0) then False
         else js_ge incoming (number_or (Num appliedTs) 0))"

definition shouldApplyMessage :: "jsv \<Rightarrow> jsv \<Rightarrow> bool" where
  "shouldApplyMessage message chatDelTs =
     (let tombstone = number_or chatDelTs 0;
          n = js_Number (get message ''timestamp'')
      in if \<not> js_less (Fin 0) tombstone then True
         else js_less tombstone (if n = NaN \<or> n = Fin 0 then number_or (get message ''ts'') 0 else n))"

definition shouldSkipOwnOrigin :: "jsv \<Rightarrow> jsv \<Rightarrow> bool" where
  "shouldSkipOwnOrigin op origin \<longleftrightarrow> js_Boolean origin \<and> js_Boolean (get op ''origin'') \<and> get op ''origin'' = origin"

record sync_meta =
  sm_storeTs :: entries
  sm_chatDel :: entries
  sm_storeSnapshots :: "(string \<times> entries) list"
  sm_storeEntryTs :: entries

definition emptySyncMeta :: sync_meta where
  "emptySyncMeta = \<lparr>sm_storeTs = [], sm_chatDel = [], sm_storeSnapshots = [], sm_storeEntryTs = []\<rparr>"

definition normalizeSyncMeta :: "jsv \<Rightarrow> sync_meta" where
  "normalizeSyncMeta v =
     (if \<not> js_Boolean v \<or> \<not> is_object v then emptySyncMeta
      else \<lparr>sm_storeTs = own_fields (get v ''storeTs''),
             sm_chatDel = own_fields (get v ''chatDel''),
             sm_storeSnapshots = map (\<lambda>(key, snap). (key, own_fields snap))
               (filter (\<lambda>(key, snap). key \<noteq> ''__proto__'') (own_fields (get v ''storeSnapshots''))),
             sm_storeEntryTs = own_fields (get v ''storeEntryTs'')\<rparr>)"

definition entryTsKey :: "string \<Rightarrow> string \<Rightarrow> string" where
  "entryTsKey storeKey i = storeKey @ '':'' @ i"

definition assign_snapshot :: "string \<Rightarrow> entries \<Rightarrow> (string \<times> entries) list \<Rightarrow> (string \<times> entries) list" where
  "assign_snapshot key snap snaps = (if key = ''__proto__'' then snaps else AList.update key snap snaps)"

definition snapshot_of :: "sync_meta \<Rightarrow> string \<Rightarrow> entries" where
  "snapshot_of meta key = (case map_of (sm_storeSnapshots meta) key of Some s \<Rightarrow> s | None \<Rightarrow> [])"

definition meta_after_store :: "jsv \<Rightarrow> sync_meta \<Rightarrow> sync_meta" where
  "meta_after_store op m =
     (let key = js_String (get op ''key'')
      in if get op ''t'' = Str ''store'' \<and> js_Boolean (get op ''key'')
         then m\<lparr>sm_storeTs := js_assign key (Num (number_or (get op ''ts'') 0)) (sm_storeTs m),
                sm_storeSnapshots := assign_snapshot key (entriesOfStore key (get op ''value'')) (sm_storeSnapshots m)\<rparr>
         else m)"

definition meta_after_entry :: "jsv \<Rightarrow> sync_meta \<Rightarrow> sync_meta" where
  "meta_after_entry op m =
     (let key = js_String (get op ''key''); i = js_String (get op ''id'')
      in if get op ''t'' = Str ''store-entry'' \<and> js_Boolean (get op ''key'') \<and> \<not> nullish (get op ''id'') \<and> get op ''id'' \<noteq> Str []
         then m\<lparr>sm_storeEntryTs := js_assign (entryTsKey key i) (Num (number_or (get op ''ts'') 0)) (sm_storeEntryTs m),
                sm_storeSnapshots := assign_snapshot key
                  (snapshotAfterEntry (snapshot_of m key) (Str i)
                     (if js_Boolean (get op ''deleted'') then Obj [(''deleted'', Bool True)] else Obj [(''value'', get op ''value'')]))
                  (sm_storeSnapshots m)\<rparr>
         else m)"

definition meta_after_chat_del :: "jsv \<Rightarrow> sync_meta \<Rightarrow> sync_meta" where
  "meta_after_chat_del op m =
     (let peer = js_String (get op ''peerId''); ts = number_or (get op ''ts'') 0
      in if get op ''t'' = Str ''chat-del'' \<and> js_Boolean (get op ''peerId'')
            \<and> js_ge ts (number_or (index (Obj (sm_chatDel m)) peer) 0)
         then m\<lparr>sm_chatDel := js_assign peer (Num ts) (sm_chatDel m)\<rparr> else m)"

definition meta_after_msg :: "jsv \<Rightarrow> sync_meta \<Rightarrow> sync_meta" where
  "meta_after_msg op m =
     (let peer = js_String (get op ''peerId'');
          n = js_Number (get (get op ''message'') ''timestamp'');
          ts = (if n = NaN \<or> n = Fin 0 then number_or (get op ''ts'') 0 else n)
      in if get op ''t'' = Str ''msg'' \<and> js_Boolean (get op ''peerId'')
            \<and> js_less (number_or (index (Obj (sm_chatDel m)) peer) 0) ts
         then m\<lparr>sm_chatDel := AList.delete peer (sm_chatDel m)\<rparr> else m)"

definition appliedMetaAfterOp :: "sync_meta \<Rightarrow> jsv \<Rightarrow> sync_meta" where
  "appliedMetaAfterOp meta op = meta_after_msg op (meta_after_chat_del op (meta_after_entry op (meta_after_store op meta)))"

definition storeEntryAppliedTs :: "sync_meta \<Rightarrow> string \<Rightarrow> string \<Rightarrow> jsnum" where
  "storeEntryAppliedTs meta key i = number_or (index (Obj (sm_storeEntryTs meta)) (entryTsKey key i)) 0"

definition peersAndStoresFromOps :: "jsv list \<Rightarrow> jsv list \<times> jsv list" where
  "peersAndStoresFromOps ops =
     (fold (\<lambda>op peers.
        let p1 = (if js_Boolean (get op ''peerId'') then push_new (get op ''peerId'') peers else peers)
        in if get op ''t'' = Str ''msg'' \<and> js_Boolean (get (get op ''message'') ''peerId'')
           then push_new (get (get op ''message'') ''peerId'') p1 else p1) ops [],
      collect_new (\<lambda>op. if (get op ''t'' = Str ''store'' \<or> get op ''t'' = Str ''store-entry'') \<and> js_Boolean (get op ''key'')
                        then Some (get op ''key'') else None) ops [])"

section \<open>The entries of a store, by id\<close>

definition syncable :: "string \<Rightarrow> string \<Rightarrow> bool" where
  "syncable key i \<longleftrightarrow> i \<noteq> [] \<and> i \<noteq> ''__proto__'' \<and> \<not> (key = ''settings'' \<and> isDeviceLocalSetting i)"

text \<open>A store value with one entry for each id: distinct fields, or items with distinct ids.\<close>

definition store_ok :: "string \<Rightarrow> jsv \<Rightarrow> bool" where
  "store_ok key v \<longleftrightarrow>
     (if key \<in> set ARRAY_STORE_KEYS then distinct (filter (\<lambda>i. i \<noteq> []) (map (arrayEntryId key) (arr_or_empty v)))
      else distinct (map fst (own_fields v)) \<and> (key = ''settings'' \<longrightarrow> \<not> hasOwn (own_fields v) []))"

definition lookup_entry :: "string \<Rightarrow> jsv \<Rightarrow> string \<Rightarrow> jsv option" where
  "lookup_entry key v i =
     (if \<not> syncable key i then None
      else if key \<in> set ARRAY_STORE_KEYS then find (\<lambda>x. arrayEntryId key x = i) (arr_or_empty v)
      else map_of (own_fields v) i)"

lemma map_of_fold_assign:
  assumes "distinct (map fst fs)" "\<not> hasOwn m ''__proto__''"
  shows "map_of (fold (\<lambda>(i, x) m. if P i then js_assign i x m else m) fs m) i =
     (case (if P i \<and> i \<noteq> ''__proto__'' then map_of fs i else None) of None \<Rightarrow> map_of m i | Some x \<Rightarrow> Some x)"
  using assms
proof (induction fs arbitrary: m)
  case (Cons f fs)
  obtain j x where f: "f = (j, x)" by (cases f)
  have "map_of fs j = None" using Cons.prems(1) f by (simp add: map_of_eq_None_iff)
  moreover have "\<not> hasOwn (if P j then js_assign j x m else m) ''__proto__''"
    using Cons.prems(2) by (auto simp: hasOwn_def map_of_js_assign)
  ultimately show ?case using Cons f by (auto simp: map_of_js_assign split: option.splits)
qed simp

lemma map_of_fold_items:
  assumes "distinct (filter (\<lambda>i. i \<noteq> []) (map (arrayEntryId key) xs))" "\<not> hasOwn m ''__proto__''"
  shows "map_of (fold (put_item key) xs m) i =
     (case (if i \<noteq> [] \<and> i \<noteq> ''__proto__'' then find (\<lambda>x. arrayEntryId key x = i) xs else None) of None \<Rightarrow> map_of m i | Some x \<Rightarrow> Some x)"
  using assms
proof (induction xs arbitrary: m)
  case (Cons x xs)
  have "find (\<lambda>y. arrayEntryId key y = arrayEntryId key x) xs = None" if "arrayEntryId key x \<noteq> []"
  proof -
    have "arrayEntryId key x \<notin> arrayEntryId key ` set xs" using Cons.prems(1) that by auto
    then show ?thesis unfolding find_None_iff by (metis imageI)
  qed
  moreover have "\<not> hasOwn (put_item key x m) ''__proto__''"
    using Cons.prems(2) by (auto simp: hasOwn_def put_item_def Let_def map_of_js_assign)
  moreover have "distinct (filter (\<lambda>i. i \<noteq> []) (map (arrayEntryId key) xs))" using Cons.prems(1) by (simp split: if_splits)
  ultimately show ?case using Cons.IH [of "put_item key x m"] Cons.prems(2)
    by (auto simp: put_item_def Let_def map_of_js_assign hasOwn_def split: option.splits)
qed simp

lemma entries_lookup:
  assumes "store_ok key v"
  shows "map_of (entriesOfStore key v) i = lookup_entry key v i"
proof -
  have proto: "\<not> hasOwn [] ''__proto__''" by (simp add: hasOwn_def)
  consider "key = ''settings''" | "key \<in> set ARRAY_STORE_KEYS" "key \<noteq> ''settings''" | "key \<notin> set ARRAY_STORE_KEYS" "key \<noteq> ''settings''" by blast
  then show ?thesis
  proof cases
    case 1
    have notin: "''settings'' \<notin> set ARRAY_STORE_KEYS" by (simp add: ARRAY_STORE_KEYS_def)
    then have d: "distinct (map fst (own_fields v))" "map_of (own_fields v) [] = None" using assms 1 by (simp_all add: store_ok_def hasOwn_def)
    have "put_setting = (\<lambda>(i, x) m. if \<not> isDeviceLocalSetting i then js_assign i x m else m)" by (simp add: put_setting_def fun_eq_iff)
    then show ?thesis using map_of_fold_assign [OF d(1) proto, of "\<lambda>i. \<not> isDeviceLocalSetting i" i] 1 notin d(2)
      by (auto simp: entriesOfStore_def lookup_entry_def syncable_def split: option.splits)
  next
    case 2
    then have "distinct (filter (\<lambda>i. i \<noteq> []) (map (arrayEntryId key) (arr_or_empty v)))" using assms by (simp add: store_ok_def)
    from map_of_fold_items [OF this proto] show ?thesis using 2 by (simp add: entriesOfStore_def lookup_entry_def syncable_def split: option.splits)
  next
    case 3
    then have d: "distinct (map fst (own_fields v))" using assms by (simp add: store_ok_def)
    have "put_field = (\<lambda>(i, x) m. if i \<noteq> [] then js_assign i x m else m)" by (simp add: put_field_def)
    moreover have "entriesOfStore key v = fold put_field (own_fields v) []" using 3
      by (cases v) (simp_all add: entriesOfStore_def own_fields_def)
    ultimately show ?thesis using map_of_fold_assign [OF d proto, of "\<lambda>i. i \<noteq> []" i] 3
      by (auto simp: lookup_entry_def syncable_def split: option.splits)
  qed
qed

lemma lookup_not_syncable [simp]: "\<not> syncable key i \<Longrightarrow> lookup_entry key v i = None"
  by (simp add: lookup_entry_def)

text \<open>Whether a patch for the id \<open>i\<close> is one that the entries of a store can have.\<close>

definition patch_ok :: "string \<Rightarrow> string \<Rightarrow> jsv \<Rightarrow> bool" where
  "patch_ok key i patch \<longleftrightarrow> js_Boolean (get patch ''deleted'') \<or> key \<notin> set ARRAY_STORE_KEYS \<or> arrayEntryId key (get patch ''value'') = i"

lemma arrayEntryId_object: "arrayEntryId key x \<noteq> [] \<Longrightarrow> js_Boolean x \<and> is_object x"
  by (auto simp: arrayEntryId_def split: if_splits)

lemma distinct_ids_update: "j < length xs \<Longrightarrow> g x = g (xs ! j) \<Longrightarrow> map g (xs[j := x]) = map g xs"
  by (metis list_update_id map_update)

lemma apply_entry_array:
  assumes ok: "store_ok key v" and key: "key \<in> set ARRAY_STORE_KEYS" "key \<noteq> ''contacts''" and i: "syncable key i" and p: "patch_ok key i patch"
  defines "w \<equiv> applyStoreEntryToValue key v (Str i) patch"
  shows "lookup_entry key w j = (if j = i then (if js_Boolean (get patch ''deleted'') then None else Some (get patch ''value'')) else lookup_entry key v j)"
    and "store_ok key w"
proof -
  let ?g = "arrayEntryId key" and ?xs = "arr_or_empty v"
  have settings: "key \<noteq> ''settings''" using key(1) by (auto simp: ARRAY_STORE_KEYS_def)
  have ne: "i \<noteq> []" using i by (simp add: syncable_def)
  have d: "distinct (filter (\<lambda>k. k \<noteq> []) (map ?g ?xs))" using ok key by (simp add: store_ok_def)
  have di: "distinct (filter (\<lambda>k. k = i) (map ?g ?xs))" 
  proof -
    have "filter (\<lambda>k. k = i) (map ?g ?xs) = filter (\<lambda>k. k = i) (filter (\<lambda>k. k \<noteq> []) (map ?g ?xs))"
      unfolding filter_filter by (rule filter_cong) (use ne in auto)
    then show ?thesis using d by (simp only: distinct_filter)
  qed
  have "lookup_entry key w j = (if j = i then (if js_Boolean (get patch ''deleted'') then None else Some (get patch ''value'')) else lookup_entry key v j)
     \<and> store_ok key w"
  proof (cases "js_Boolean (get patch ''deleted'')")
    case True
    show ?thesis
    proof (cases "findIndex (\<lambda>x. ?g x = i) ?xs")
      case None
      then have "w = Arr ?xs" using True key ne settings by (simp add: w_def applyStoreEntryToValue_def Let_def)
      moreover have "find (\<lambda>x. ?g x = i) ?xs = None" using None by (simp add: findIndex_find_None)
      ultimately show ?thesis using True key d by (simp add: lookup_entry_def store_ok_def)
    next
      case (Some n)
      then have w: "w = Arr (take n ?xs @ drop (Suc n) ?xs)" using True key ne settings by (simp add: w_def applyStoreEntryToValue_def Let_def)
      have "n < length ?xs" using Some by (simp add: findIndex_Some)
      then have "map ?g ?xs = map ?g (take n ?xs) @ ?g (?xs ! n) # map ?g (drop (Suc n) ?xs)" by (metis id_take_nth_drop list.map(2) map_append)
      then have "distinct (filter (\<lambda>k. k \<noteq> []) (map ?g (take n ?xs @ drop (Suc n) ?xs)))" using d by (simp split: if_splits)
      then show ?thesis using True key w find_key_remove [OF Some di, of j] by (cases "j = i") (simp_all add: lookup_entry_def store_ok_def)
    qed
  next
    case False
    then have gi: "?g (get patch ''value'') = i" using p key by (simp add: patch_ok_def)
    then have obj: "js_Boolean (get patch ''value'')" "is_object (get patch ''value'')" using arrayEntryId_object ne by metis+
    show ?thesis
    proof (cases "findIndex (\<lambda>x. ?g x = i) ?xs")
      case None
      then have w: "w = Arr (?xs @ [get patch ''value''])" using False key ne settings obj by (simp add: w_def applyStoreEntryToValue_def Let_def)
      have "find (\<lambda>x. ?g x = i) ?xs = None" using None by (simp add: findIndex_find_None)
      moreover have "i \<notin> ?g ` set ?xs" using None by (auto simp: findIndex_None)
      ultimately show ?thesis using False key w gi d i
        by (auto simp: lookup_entry_def store_ok_def find_append split: option.splits)
    next
      case (Some n)
      then have w: "w = Arr (?xs[n := get patch ''value''])" using False key ne settings obj by (simp add: w_def applyStoreEntryToValue_def Let_def)
      have "map ?g (?xs[n := get patch ''value'']) = map ?g ?xs" using Some gi by (intro distinct_ids_update) (simp_all add: findIndex_Some)
      then show ?thesis using False key w gi d i find_key_update [OF Some gi, of j]
        by (cases "j = i") (simp_all add: lookup_entry_def store_ok_def)
    qed
  qed
  then show "lookup_entry key w j = (if j = i then (if js_Boolean (get patch ''deleted'') then None else Some (get patch ''value'')) else lookup_entry key v j)"
    and "store_ok key w" by simp_all
qed

lemma apply_entry_fields:
  fixes patch :: jsv
  assumes ok: "store_ok key v" and key: "key \<notin> set ARRAY_STORE_KEYS" and i: "syncable key i"
  defines "w \<equiv> applyStoreEntryToValue key v (Str i) patch"
  shows "lookup_entry key w j = (if j = i then (if js_Boolean (get patch ''deleted'') then None else Some (get patch ''value'')) else lookup_entry key v j)"
    and "store_ok key w"
proof -
  have i': "i \<noteq> []" "i \<noteq> ''__proto__''" "\<not> (key = ''settings'' \<and> isDeviceLocalSetting i)" using i by (auto simp: syncable_def)
  have w: "w = Obj (if js_Boolean (get patch ''deleted'') then AList.delete i (own_fields v) else js_assign i (get patch ''value'') (own_fields v))"
    using key i' by (auto simp: w_def applyStoreEntryToValue_def Let_def)
  show "lookup_entry key w j = (if j = i then (if js_Boolean (get patch ''deleted'') then None else Some (get patch ''value'')) else lookup_entry key v j)"
    using key i i' by (simp add: w lookup_entry_def delete_conv' map_of_js_assign)
  have "map_of (own_fields w) [] = map_of (own_fields v) []" using i'(1) by (auto simp: w delete_conv' map_of_js_assign)
  moreover have "distinct (map fst (own_fields w))" using ok key by (simp add: w store_ok_def distinct_delete distinct_js_assign)
  ultimately show "store_ok key w" using ok key by (simp add: store_ok_def hasOwn_def)
qed

lemma apply_entry:
  assumes "store_ok key v" "key \<noteq> ''contacts''" "syncable key i" "patch_ok key i patch"
  shows "lookup_entry key (applyStoreEntryToValue key v (Str i) patch) j =
      (if j = i then (if js_Boolean (get patch ''deleted'') then None else Some (get patch ''value'')) else lookup_entry key v j)"
    "store_ok key (applyStoreEntryToValue key v (Str i) patch)"
  using apply_entry_array [OF assms(1) _ assms(2-4)] apply_entry_fields [OF assms(1) _ assms(3)] by metis+

section \<open>The differences carry the entries over\<close>

definition same_entries :: "(string \<rightharpoonup> jsv) \<Rightarrow> (string \<rightharpoonup> jsv) \<Rightarrow> bool" where
  "same_entries e f \<longleftrightarrow> (\<forall>i. rel_option valueEqual (e i) (f i))"

definition apply_changes :: "string \<Rightarrow> jsv list \<Rightarrow> jsv \<Rightarrow> jsv" where
  "apply_changes key changes v = fold (\<lambda>c v. applyStoreEntryToValue key v (get c ''id'') c) changes v"

lemma valueEqual_refl [simp]: "valueEqual a a"
  by (simp add: valueEqual_def)

lemma valueEqual_sym: "valueEqual a b \<Longrightarrow> valueEqual b a"
  by (auto simp: valueEqual_def)

lemma valueEqual_trans: "valueEqual a b \<Longrightarrow> valueEqual b c \<Longrightarrow> valueEqual a c"
  by (auto simp: valueEqual_def)

lemma get_entry_change [simp]:
  "get (entry_change key i p) ''id'' = Str i" "get (entry_change key i p) ''key'' = Str key" "get (entry_change key i p) ''type'' = Str ''store-entry''"
  "fst p \<in> {''deleted'', ''value''} \<Longrightarrow> get (entry_change key i p) ''deleted'' = (if fst p = ''deleted'' then snd p else Undef)"
  "fst p \<in> {''deleted'', ''value''} \<Longrightarrow> get (entry_change key i p) ''value'' = (if fst p = ''value'' then snd p else Undef)"
  by (cases p; auto simp: entry_change_def)+

lemma get_map_of: "map_of fs i = Some x \<Longrightarrow> get (Obj fs) i = x"
  by (simp add: get_def)

lemma diff_entry_Some:
  assumes "diff_entry key cur prev i = Some c"
  shows "get c ''id'' = Str i \<and> (js_Boolean (get c ''deleted'') \<longleftrightarrow> map_of cur i = None) \<and>
     (\<forall>x. map_of cur i = Some x \<longrightarrow> get c ''value'' = x)"
  using assms by (auto simp: diff_entry_def Let_def hasOwn_def get_map_of split: if_splits)

lemma diff_entry_None:
  assumes "diff_entry key cur prev i = None"
  shows "rel_option valueEqual (map_of cur i) (map_of prev i)"
proof (cases "map_of cur i")
  case None
  then show ?thesis using assms by (cases "map_of prev i") (simp_all add: diff_entry_def hasOwn_def)
next
  case (Some x)
  then show ?thesis using assms by (cases "map_of prev i") (auto simp: diff_entry_def hasOwn_def Let_def get_map_of split: if_splits)
qed

lemma find_entry_id: "find (\<lambda>x. arrayEntryId key x = i) xs = Some y \<Longrightarrow> arrayEntryId key y = i"
  by (simp add: find_Some_iff) metis

lemma lookup_entry_id:
  "lookup_entry key v i = Some x \<Longrightarrow> key \<in> set ARRAY_STORE_KEYS \<Longrightarrow> arrayEntryId key x = i"
  by (auto simp: lookup_entry_def dest: find_entry_id split: if_splits)

lemma apply_diffs:
  assumes "store_ok key v" "key \<noteq> ''contacts''" "distinct ids"
    and "\<And>i x. cur i = Some x \<Longrightarrow> syncable key i \<and> (key \<in> set ARRAY_STORE_KEYS \<longrightarrow> arrayEntryId key x = i)"
    and "\<And>i c. i \<in> set ids \<Longrightarrow> d i = Some c \<Longrightarrow> syncable key i \<and> get c ''id'' = Str i \<and> (js_Boolean (get c ''deleted'') \<longleftrightarrow> cur i = None) \<and>
           (\<forall>x. cur i = Some x \<longrightarrow> get c ''value'' = x)"
  shows "store_ok key (apply_changes key (List.map_filter d ids) v) \<and>
     lookup_entry key (apply_changes key (List.map_filter d ids) v) j = (if j \<in> set ids \<and> d j \<noteq> None then cur j else lookup_entry key v j)"
  using assms(1,3,5)
proof (induction ids arbitrary: v)
  case Nil
  then show ?case by (simp add: apply_changes_def map_filter_simps)
next
  case (Cons i ids)
  have ids: "distinct ids" "i \<notin> set ids" using Cons.prems(2) by simp_all
  have h: "syncable key k \<and> get c ''id'' = Str k \<and> (js_Boolean (get c ''deleted'') \<longleftrightarrow> cur k = None) \<and>
           (\<forall>x. cur k = Some x \<longrightarrow> get c ''value'' = x)" if "k \<in> set ids" "d k = Some c" for k c
    using Cons.prems(3) [of k c] that by simp
  show ?case
  proof (cases "d i")
    case None
    then show ?thesis using Cons.IH [OF Cons.prems(1) ids(1) h] ids by (auto simp: map_filter_simps)
  next
    case (Some c)
    have c: "syncable key i" "get c ''id'' = Str i" "js_Boolean (get c ''deleted'') \<longleftrightarrow> cur i = None" "\<forall>x. cur i = Some x \<longrightarrow> get c ''value'' = x"
      using Cons.prems(3) [of i c] Some by simp_all
    have "patch_ok key i c" using c assms(4) by (cases "cur i") (auto simp: patch_ok_def)
    note step = apply_entry [OF Cons.prems(1) assms(2) c(1) this]
    have rec: "apply_changes key (List.map_filter d (i # ids)) v = apply_changes key (List.map_filter d ids) (applyStoreEntryToValue key v (Str i) c)"
      using Some c(2) by (simp add: apply_changes_def map_filter_simps)
    have "(if js_Boolean (get c ''deleted'') then None else Some (get c ''value'')) = cur i" using c by (cases "cur i") auto
    then show ?thesis using Cons.IH [OF step(2) ids(1) h] step(1) [of j] Some rec ids by auto
  qed
qed

text \<open>
  C15. Carrying the differences of a store to another device brings that device to the same entries. If
  the receiving device's entries are those of the snapshot the sender compares with, then after it has
  applied the sender's changes, its entries are the sender's, for the settings, the groups and the
  dictionaries; device-local settings on either side are left alone. The store \<open>contacts\<close> is excluded:
  applying a change to it merges contacts of one identity, so the entries need not be the sender's.
\<close>

theorem store_diff_transfers:
  assumes "key \<noteq> ''contacts''" "store_ok key v" "store_ok key w"
    and "same_entries (map_of (entriesOfStore key w)) (map_of (own_fields snapshot))"
  shows "same_entries (map_of (entriesOfStore key (apply_changes key (diffStoreEntries key v snapshot) w))) (map_of (entriesOfStore key v))"
proof -
  let ?cur = "entriesOfStore key v" and ?prev = "own_fields snapshot"
  let ?ids = "collect_new Some (map fst ?cur @ map fst ?prev) []"
  have cur: "syncable key i \<and> (key \<in> set ARRAY_STORE_KEYS \<longrightarrow> arrayEntryId key x = i)" if "map_of ?cur i = Some x" for i x
    using that lookup_entry_id by (cases "syncable key i") (auto simp: entries_lookup [OF assms(2)])
  have prev: "syncable key i" if "map_of ?prev i = Some x" for i x
    using assms(4) that lookup_not_syncable [of key i w]
    by (cases "syncable key i") (auto simp: same_entries_def entries_lookup [OF assms(3)] dest: spec [of _ i])
  have mem: "i \<in> set ?ids \<longleftrightarrow> map_of ?cur i \<noteq> None \<or> map_of ?prev i \<noteq> None" for i
    by (auto simp: set_collect_new map_of_eq_None_iff)
  have "distinct ?ids" by (simp add: distinct_collect_new)
  note all = apply_diffs [OF assms(3,1) this, of "map_of ?cur" "diff_entry key ?cur ?prev"]
  have result: "store_ok key (apply_changes key (diffStoreEntries key v snapshot) w) \<and>
     lookup_entry key (apply_changes key (diffStoreEntries key v snapshot) w) j =
       (if j \<in> set ?ids \<and> diff_entry key ?cur ?prev j \<noteq> None then map_of ?cur j else lookup_entry key w j)" for j
    unfolding diffStoreEntries_def Let_def
  proof (rule all)
    fix i c assume "i \<in> set ?ids" "diff_entry key ?cur ?prev i = Some c"
    then show "syncable key i \<and> get c ''id'' = Str i \<and> js_Boolean (get c ''deleted'') = (map_of ?cur i = None) \<and>
        (\<forall>x. map_of ?cur i = Some x \<longrightarrow> get c ''value'' = x)"
      using diff_entry_Some mem [of i] cur [of i] prev [of i] by blast
  qed (rule cur)
  have "rel_option valueEqual (lookup_entry key (apply_changes key (diffStoreEntries key v snapshot) w) j) (map_of ?cur j)" for j
  proof (cases "j \<in> set ?ids \<and> diff_entry key ?cur ?prev j \<noteq> None")
    case True
    then show ?thesis using result [of j] by (simp add: option.rel_refl)
  next
    case False
    have "rel_option valueEqual (map_of ?cur j) (map_of ?prev j)"
      using False mem [of j] diff_entry_None [of key ?cur ?prev j] by (cases "j \<in> set ?ids") auto
    moreover have "rel_option valueEqual (lookup_entry key w j) (map_of ?prev j)"
      using assms(4) by (simp add: same_entries_def entries_lookup [OF assms(3)])
    ultimately have "rel_option valueEqual (lookup_entry key w j) (map_of ?cur j)"
      by (cases "map_of ?cur j"; cases "map_of ?prev j"; cases "lookup_entry key w j") (auto intro: valueEqual_trans valueEqual_sym)
    then show ?thesis using False result [of j] by auto
  qed
  then show ?thesis using result by (simp add: same_entries_def entries_lookup)
qed

definition sample_groups :: "jsv" where
  "sample_groups = Arr [Obj [(''id'', Str ''group:1''), (''name'', Str ''A'')], Obj [(''groupId'', Str ''group:2'')]]"

theorem store_diff_transfers_witness:
  "same_entries (map_of (entriesOfStore ''groups'' (apply_changes ''groups'' (diffStoreEntries ''groups'' sample_groups Undef) (Arr []))))
     (map_of (entriesOfStore ''groups'' sample_groups))"
proof (rule store_diff_transfers)
  show "store_ok ''groups'' sample_groups" "store_ok ''groups'' (Arr [])"
    by (simp_all add: store_ok_def ARRAY_STORE_KEYS_def sample_groups_def arrayEntryId_def)
  show "same_entries (map_of (entriesOfStore ''groups'' (Arr []))) (map_of (own_fields Undef))"
    by (simp add: same_entries_def entriesOfStore_def ARRAY_STORE_KEYS_def own_fields_def)
qed simp

section \<open>The outbox keeps the latest change of each key\<close>

text \<open>Changes as the sync layer makes them: a known type, and strings for the names it carries.\<close>

definition change_ok :: "jsv \<Rightarrow> bool" where
  "change_ok c \<longleftrightarrow> (\<exists>fs. c = Obj fs) \<and>
     (get c ''type'' = Str ''store-entry'' \<and> is_string (get c ''key'') \<and> is_string (get c ''id'') \<or>
      get c ''type'' = Str ''store'' \<and> is_string (get c ''key'') \<or>
      get c ''type'' = Str ''chat-del'' \<and> is_string (get c ''peerId'') \<or>
      (get c ''type'' = Str ''msg'' \<or> get c ''type'' = Str ''msg-del'') \<and> is_string (get c ''peerId'') \<and> is_string (get c ''messageId''))"

definition outbox_ok :: "jsv list \<Rightarrow> bool" where
  "outbox_ok items \<longleftrightarrow> list_all change_ok items \<and> distinct (map logicalKeyOf items)"

definition change_at :: "jsv list \<Rightarrow> string \<Rightarrow> jsv option" where
  "change_at items k = find (\<lambda>x. logicalKeyOf x = k) items"

definition in_chat :: "jsv \<Rightarrow> jsv \<Rightarrow> bool" where
  "in_chat c x \<longleftrightarrow> (get x ''type'' = Str ''msg'' \<or> get x ''type'' = Str ''msg-del'') \<and> get x ''peerId'' = get c ''peerId''"

definition keep_if :: "('a \<Rightarrow> bool) \<Rightarrow> 'a option \<Rightarrow> 'a option" where
  "keep_if Q m = (case m of None \<Rightarrow> None | Some x \<Rightarrow> if Q x then Some x else None)"

fun outbox_spec :: "outbox_op \<Rightarrow> (string \<rightharpoonup> jsv) \<Rightarrow> (string \<rightharpoonup> jsv)" where
  "outbox_spec (Replace new) m = change_at (arr_or_empty new)"
| "outbox_spec (Enqueue clock c) m =
     (\<lambda>k. if k = logicalKeyOf c then Some (stamp clock c)
          else if get c ''type'' = Str ''chat-del'' then keep_if (\<lambda>x. \<not> in_chat c x) (m k) else m k)"
| "outbox_spec (RemoveSent sent) m = (\<lambda>k. keep_if (\<lambda>x. sent_mark x \<notin> set (map sent_mark sent)) (m k))"
| "outbox_spec (DropIfRemoteNewer logicalKey remoteTs) m =
     m(logicalKey := keep_if (\<lambda>x. js_less (number_or remoteTs 0) (number_or (get x ''ts'') 0)) (m logicalKey))"

definition outbox_op_ok :: "outbox_op \<Rightarrow> bool" where
  "outbox_op_ok op = (case op of Replace new \<Rightarrow> outbox_ok (arr_or_empty new) | Enqueue _ c \<Rightarrow> change_ok c | _ \<Rightarrow> True)"

lemma get_stamp: "f \<noteq> ''ts'' \<Longrightarrow> get (stamp clock c) f = get c f"
  by (simp add: stamp_def get_spread)

lemma stamp_facts:
  "logicalKeyOf (stamp clock c) = logicalKeyOf c" "change_ok c \<Longrightarrow> change_ok (stamp clock c)"
  by (simp_all add: logicalKeyOf_def Let_def get_stamp change_ok_def) (auto simp: stamp_def spread_def)

lemma key_not_empty: "change_ok c \<Longrightarrow> logicalKeyOf c \<noteq> []"
  by (auto simp: change_ok_def logicalKeyOf_def)

lemma chat_key:
  assumes "change_ok a" "change_ok b" "get b ''type'' = Str ''chat-del''" "logicalKeyOf a = logicalKeyOf b"
  shows "get a ''type'' = Str ''chat-del'' \<and> get a ''peerId'' = get b ''peerId''"
  using assms by (auto simp: change_ok_def logicalKeyOf_def elim!: is_stringE)

lemma msg_key:
  assumes "change_ok a" "get b ''type'' = Str ''msg''" "get a ''type'' = Str ''msg-del''"
    and "get b ''peerId'' = get a ''peerId''" "get b ''messageId'' = get a ''messageId''"
  shows "logicalKeyOf b = logicalKeyOf a"
  using assms by (simp add: logicalKeyOf_def)

lemma replace_or_push:
  assumes "distinct (map g xs)" "g x = k"
  shows "find (\<lambda>y. g y = j) (replace_or_push (\<lambda>y. g y = k) x xs) = (if j = k then Some x else find (\<lambda>y. g y = j) xs)"
    and "distinct (map g (replace_or_push (\<lambda>y. g y = k) x xs))"
    and "set (replace_or_push (\<lambda>y. g y = k) x xs) \<subseteq> insert x (set xs)"
proof -
  have "find (\<lambda>y. g y = j) (replace_or_push (\<lambda>y. g y = k) x xs) = (if j = k then Some x else find (\<lambda>y. g y = j) xs)
    \<and> distinct (map g (replace_or_push (\<lambda>y. g y = k) x xs)) \<and> set (replace_or_push (\<lambda>y. g y = k) x xs) \<subseteq> insert x (set xs)"
  proof (cases "findIndex (\<lambda>y. g y = k) xs")
    case None
    then have "find (\<lambda>y. g y = k) xs = None" "k \<notin> g ` set xs" by (simp_all add: findIndex_find_None find_key_None)
    then show ?thesis using None assms by (auto simp: replace_or_push_def find_append split: option.splits)
  next
    case (Some i)
    have "map g (xs[i := x]) = map g xs" using Some assms(2) by (intro distinct_ids_update) (simp_all add: findIndex_Some)
    then show ?thesis using Some assms find_key_update [OF Some assms(2), of j] set_update_subset_insert [of xs i x]
      by (simp add: replace_or_push_def)
  qed
  then show "find (\<lambda>y. g y = j) (replace_or_push (\<lambda>y. g y = k) x xs) = (if j = k then Some x else find (\<lambda>y. g y = j) xs)"
    "distinct (map g (replace_or_push (\<lambda>y. g y = k) x xs))" "set (replace_or_push (\<lambda>y. g y = k) x xs) \<subseteq> insert x (set xs)" by simp_all
qed

lemma outbox_filter:
  "outbox_ok items \<Longrightarrow> outbox_ok (filter Q items) \<and> change_at (filter Q items) k = keep_if Q (change_at items k)"
  by (auto simp: outbox_ok_def change_at_def find_key_filter keep_if_def list_all_iff distinct_map_filter)

lemma change_at_ok: "outbox_ok items \<Longrightarrow> change_at items k = Some x \<Longrightarrow> change_ok x \<and> logicalKeyOf x = k"
  by (auto simp: outbox_ok_def change_at_def list_all_iff dest: find_key)

lemma merge_replaced:
  assumes "outbox_ok items" "change_ok c" "logicalKeyOf c = k"
  shows "outbox_ok (replace_or_push (\<lambda>item. logicalKeyOf item = k) (stamp clock c) items) \<and>
     change_at (replace_or_push (\<lambda>item. logicalKeyOf item = k) (stamp clock c) items) j = (if j = k then Some (stamp clock c) else change_at items j)"
proof -
  note r = replace_or_push [of logicalKeyOf items "stamp clock c" k]
  have "distinct (map logicalKeyOf items)" "logicalKeyOf (stamp clock c) = k" using assms stamp_facts by (simp_all add: outbox_ok_def)
  from r [OF this] show ?thesis using assms stamp_facts(2) [OF assms(2)] by (auto simp: outbox_ok_def change_at_def list_all_iff)
qed

lemma merge_chat_del:
  assumes "outbox_ok items" "change_ok c" "get c ''type'' = Str ''chat-del''"
  shows "outbox_ok (filter (kept_by_chat_del (stamp clock c)) items @ [stamp clock c]) \<and>
     change_at (filter (kept_by_chat_del (stamp clock c)) items @ [stamp clock c]) k =
       (if k = logicalKeyOf c then Some (stamp clock c) else keep_if (\<lambda>x. \<not> in_chat c x) (change_at items k))"
proof -
  let ?Q = "kept_by_chat_del (stamp clock c)" and ?c = "logicalKeyOf c"
  have Q: "?Q x \<longleftrightarrow> \<not> in_chat c x \<and> logicalKeyOf x \<noteq> ?c" if "change_ok x" for x
  proof -
    have "js_Boolean x" using that by (auto simp: change_ok_def)
    moreover have "get x ''type'' = Str ''chat-del'' \<and> get x ''peerId'' = get c ''peerId'' \<longleftrightarrow> logicalKeyOf x = ?c"
      using chat_key [OF that assms(2,3)] assms(3) by (auto simp: logicalKeyOf_def)
    ultimately show ?thesis by (auto simp: kept_by_chat_del_def in_chat_def get_stamp)
  qed
  note f = outbox_filter [OF assms(1), of ?Q]
  have none: "change_at (filter ?Q items) ?c = None" using f [of ?c] Q change_at_ok [OF assms(1), of ?c]
    by (auto simp: keep_if_def split: option.splits)
  have "change_at (filter ?Q items @ [stamp clock c]) k = (if k = ?c then Some (stamp clock c) else keep_if (\<lambda>x. \<not> in_chat c x) (change_at items k))"
  proof (cases "k = ?c")
    case True
    then show ?thesis using none by (simp add: change_at_def find_append stamp_facts)
  next
    case False
    then have "change_at (filter ?Q items @ [stamp clock c]) k = change_at (filter ?Q items) k"
      by (simp add: change_at_def find_append stamp_facts split: option.splits)
    also have "\<dots> = keep_if (\<lambda>x. \<not> in_chat c x) (change_at items k)" using f [of k] Q change_at_ok [OF assms(1), of k] False
      by (auto simp: keep_if_def split: option.splits)
    finally show ?thesis using False by simp
  qed
  moreover have "?c \<notin> logicalKeyOf ` set (filter ?Q items)" using none by (simp add: change_at_def find_key_None)
  ultimately show ?thesis using f stamp_facts assms(2) by (auto simp: outbox_ok_def)
qed

lemma outbox_step_spec:
  assumes "outbox_ok items" "outbox_op_ok op"
  shows "outbox_ok (outbox_step op items) \<and> change_at (outbox_step op items) = outbox_spec op (change_at items)"
proof (cases op)
  case (Enqueue clock c)
  then have c: "change_ok c" using assms(2) by (simp add: outbox_op_ok_def)
  have ty: "js_Boolean (get c ''type'')" using c by (auto simp: change_ok_def)
  note [simp] = get_stamp stamp_facts key_not_empty [OF c]
  consider "get c ''type'' = Str ''chat-del''" | "get c ''type'' = Str ''msg-del''"
    | "get c ''type'' \<noteq> Str ''chat-del''" "get c ''type'' \<noteq> Str ''msg-del''" by blast
  then show ?thesis
  proof cases
    case 1
    then show ?thesis using ty Enqueue merge_chat_del [OF assms(1) c 1] by (simp add: mergeOutbox_def Let_def fun_eq_iff)
  next
    case 2
    let ?Q = "\<lambda>item. \<not> (get item ''type'' = Str ''msg'' \<and> get item ''peerId'' = get (stamp clock c) ''peerId''
                                      \<and> get item ''messageId'' = get (stamp clock c) ''messageId'')"
    note f = outbox_filter [OF assms(1), of ?Q]
    have "change_at (filter ?Q items) k = change_at items k" if "k \<noteq> logicalKeyOf c" for k
      using f [of k] change_at_ok [OF assms(1), of k] msg_key [OF c _ 2] that by (auto simp: keep_if_def split: option.splits)
    then show ?thesis using ty Enqueue 2 merge_replaced [OF f [THEN conjunct1] c refl, of clock] by (auto simp: mergeOutbox_def Let_def fun_eq_iff)
  next
    case 3
    then show ?thesis using ty Enqueue merge_replaced [OF assms(1) c refl] by (simp add: mergeOutbox_def Let_def fun_eq_iff)
  qed
next
  case (RemoveSent sent)
  then show ?thesis using outbox_filter [OF assms(1)] by (simp add: removeSentFromOutbox_def fun_eq_iff)
next
  case (DropIfRemoteNewer lk ts)
  have "keep_if (\<lambda>item. logicalKeyOf item \<noteq> lk \<or> P item) (change_at items k) =
      (if k = lk then keep_if P (change_at items k) else change_at items k)" for P k
    using change_at_ok [OF assms(1), of k] by (auto simp: keep_if_def split: option.splits)
  then show ?thesis using DropIfRemoteNewer outbox_filter [OF assms(1)] by (simp add: dropOutboxIfRemoteNewer_def fun_eq_iff)
qed (use assms in \<open>simp add: outbox_op_ok_def\<close>)

text \<open>
  C16. The outbox is a map from logical keys to the latest change of each. Whatever is enqueued, sent or
  superseded by the server in whatever order, there is one change for each key, a newer change replaces
  the older one, deleting a chat drops the changes of its messages, and nothing else is lost.
\<close>

theorem outbox_refines_map:
  assumes "list_all outbox_op_ok ops"
  shows "outbox_ok (fold outbox_step ops []) \<and> change_at (fold outbox_step ops []) = fold outbox_spec ops (\<lambda>_. None)"
proof -
  have "outbox_ok items \<Longrightarrow> outbox_ok (fold outbox_step ops items) \<and>
     change_at (fold outbox_step ops items) = fold outbox_spec ops (change_at items)" for items
    using assms
  proof (induction ops arbitrary: items)
    case (Cons op ops)
    then show ?case using outbox_step_spec [of items op] by simp
  qed simp
  moreover have "outbox_ok []" "change_at [] = (\<lambda>_. None)" by (simp_all add: outbox_ok_def change_at_def fun_eq_iff)
  ultimately show ?thesis by metis
qed

theorem outbox_refines_map_witness:
  "change_at (fold outbox_step [Enqueue 5 (Obj [(''type'', Str ''msg''), (''peerId'', Str ''p''), (''messageId'', Str ''m'')]),
      Enqueue 6 (Obj [(''type'', Str ''chat-del''), (''peerId'', Str ''p'')])] []) ''msg:p:m'' = None"
proof -
  let ?ops = "[Enqueue 5 (Obj [(''type'', Str ''msg''), (''peerId'', Str ''p''), (''messageId'', Str ''m'')]),
      Enqueue 6 (Obj [(''type'', Str ''chat-del''), (''peerId'', Str ''p'')])]"
  have "list_all outbox_op_ok ?ops" by (simp add: outbox_op_ok_def change_ok_def)
  note r = outbox_refines_map [OF this, THEN conjunct2]
  have "fold outbox_spec ?ops (\<lambda>_. None) ''msg:p:m'' = None"
    by (simp add: keep_if_def in_chat_def logicalKeyOf_def get_stamp)
  then show ?thesis unfolding r .
qed

end
