(* ===== verification/Sync_Engine.thy ===== *)
theory Sync_Engine
  imports Sync_Logic "HOL-Library.Multiset" "HOL-Library.Sublist"
begin

text \<open>
  \<open>src/renderer/cloudAccount/syncEngine.js\<close>: applying the operations of other devices (\<open>applyOp\<close>,
  \<open>pullRemote\<close>), and pushing the outbox (\<open>buildOp\<close>, \<open>sealWithinLimit\<close>, \<open>pushPrepared\<close>,
  \<open>pushOutbox\<close>). The store is the dictionary behind \<open>store.get\<close> and \<open>store.set\<close>; calls to the message
  store are the list of \<open>msg_call\<close>s with its answers as arguments. The server is a state with a push
  function, sealing and opening an item are functions, all three parameters. Timers, listeners and the
  debounced persistence of the outbox are not modelled; \<open>running\<close> stays true during a cycle.
\<close>

section \<open>Applying an operation\<close>

definition SYNCED_STORE_KEYS :: "string list" where
  "SYNCED_STORE_KEYS = [''contacts'', ''settings'', ''e2eeSessions'', ''groups'', ''chatReadReceipts'', ''chatLastViewedPeerTs'']"

definition synced_key :: "jsv \<Rightarrow> bool" where
  "synced_key v = (case v of Str k \<Rightarrow> k \<in> set SYNCED_STORE_KEYS | _ \<Rightarrow> False)"

datatype msg_call =
    DeleteChat jsv
  | DeleteMessage jsv jsv
  | Append jsv jsv
  | PatchMessage jsv jsv jsv

record sync_state =
  ss_store :: entries
  ss_meta :: sync_meta

definition store_value :: "entries \<Rightarrow> string \<Rightarrow> jsv" where
  "store_value store key = (case map_of store key of Some v \<Rightarrow> v
     | None \<Rightarrow> if key = ''contacts'' \<or> key = ''groups'' then Arr [] else Obj [])"

definition apply_entry_op :: "jsv \<Rightarrow> jsv list \<Rightarrow> sync_state \<Rightarrow> sync_state \<times> bool" where
  "apply_entry_op op outbox st =
     (let key = js_String (get op ''key''); i = get op ''id''
      in if \<not> synced_key (get op ''key'') \<or> nullish i \<or> i = Str [] then (st, False)
         else if \<not> shouldApplyStoreEntry (get op ''ts'') (storeEntryAppliedTs (ss_meta st) key (js_String i))
                    (pendingTsFor outbox (logicalKeyOfOp op)) then (st, False)
         else (\<lparr>ss_store = AList.update key (applyStoreEntryToValue key (store_value (ss_store st) key) i op) (ss_store st),
                ss_meta = appliedMetaAfterOp (ss_meta st) op\<rparr>, True))"

definition store_entry_op :: "jsv \<Rightarrow> string \<Rightarrow> jsv \<Rightarrow> jsv" where
  "store_entry_op op i v = Obj [(''t'', Str ''store-entry''), (''key'', get op ''key''), (''id'', Str i), (''value'', v),
     (''ts'', get op ''ts''), (''origin'', get op ''origin'')]"

fun apply_store_entries :: "jsv \<Rightarrow> string \<Rightarrow> jsv list \<Rightarrow> entries \<Rightarrow> jsv \<times> sync_meta \<times> bool \<Rightarrow> jsv \<times> sync_meta \<times> bool" where
  "apply_store_entries op key outbox [] acc = acc"
| "apply_store_entries op key outbox ((i, v) # es) (current, meta, appliedAny) =
     (if \<not> shouldApplyStoreEntry (get op ''ts'') (storeEntryAppliedTs meta key i)
            (pendingTsFor outbox (''store:'' @ key @ '':'' @ i))
      then apply_store_entries op key outbox es (current, meta, appliedAny)
      else apply_store_entries op key outbox es
        (applyStoreEntryToValue key current (Str i) (Obj [(''value'', v)]), appliedMetaAfterOp meta (store_entry_op op i v), True))"

definition apply_store_op :: "jsv \<Rightarrow> jsv list \<Rightarrow> sync_state \<Rightarrow> sync_state \<times> bool" where
  "apply_store_op op outbox st =
     (let key = js_String (get op ''key'')
      in if \<not> synced_key (get op ''key'') then (st, False)
         else if \<not> shouldApplyStoreOp (get op ''ts'') (index (Obj (sm_storeTs (ss_meta st))) key) then (st, False)
         else let (current, meta, appliedAny) = apply_store_entries op key outbox (entriesOfStore key (get op ''value''))
                    (store_value (ss_store st) key, ss_meta st, False)
              in if appliedAny then (\<lparr>ss_store = AList.update key current (ss_store st), ss_meta = appliedMetaAfterOp meta op\<rparr>, True)
                 else (st, False))"

definition chat_del_of :: "sync_meta \<Rightarrow> jsv \<Rightarrow> jsv" where
  "chat_del_of meta peerId = index (Obj (sm_chatDel meta)) (js_String peerId)"

definition without_id :: "jsv \<Rightarrow> jsv" where
  "without_id message = Obj (AList.delete ''messageId'' (own_fields message))"

definition applyOp :: "jsv \<Rightarrow> jsv \<Rightarrow> jsv list \<Rightarrow> sync_state \<Rightarrow> sync_state \<times> bool \<times> msg_call list" where
  "applyOp answer op outbox st =
     (let t = get op ''t''; peerId = get op ''peerId''; message = get op ''message''; messageId = get op ''messageId''
      in if t = Str ''store-entry'' then (case apply_entry_op op outbox st of (st', a) \<Rightarrow> (st', a, []))
         else if t = Str ''store'' then (case apply_store_op op outbox st of (st', a) \<Rightarrow> (st', a, []))
         else if t = Str ''chat-del'' \<and> js_Boolean peerId then
           (st\<lparr>ss_meta := appliedMetaAfterOp (ss_meta st) op\<rparr>, True, [DeleteChat peerId])
         else if t = Str ''msg-del'' \<and> js_Boolean peerId \<and> js_Boolean messageId then
           (if \<not> shouldApplyMessage (Obj [(''timestamp'', get op ''ts'')]) (chat_del_of (ss_meta st) peerId) then (st, False, [])
            else (st, True, [DeleteMessage peerId messageId]))
         else if t = Str ''msg'' \<and> js_Boolean peerId \<and> js_Boolean message then
           (if \<not> shouldApplyMessage message (chat_del_of (ss_meta st) peerId) then (st, False, [])
            else (st\<lparr>ss_meta := appliedMetaAfterOp (ss_meta st) op\<rparr>, True,
                  Append peerId message #
                  (if get answer ''appended'' = Bool False \<and> js_Boolean (get message ''messageId'')
                   then [PatchMessage peerId (get message ''messageId'') (without_id message)] else [])))
         else (st, False, []))"

section \<open>Pulling\<close>

record pull_state =
  pu_sync :: sync_state
  pu_outbox :: "jsv list"
  pu_after :: jsnum
  pu_applied :: "jsv list"
  pu_calls :: "msg_call list"

definition later_seq :: "jsv \<Rightarrow> jsnum \<Rightarrow> jsnum" where
  "later_seq seq after = (case seq of Num n \<Rightarrow> if js_less after n then n else after | _ \<Rightarrow> after)"

definition pull_item :: "(jsv \<Rightarrow> jsv option) \<Rightarrow> jsv \<Rightarrow> jsv \<times> jsv \<Rightarrow> pull_state \<Rightarrow> pull_state" where
  "pull_item openSyncItem origin ia st =
     (let (item, answer) = ia
      in case openSyncItem item of
          None \<Rightarrow> st\<lparr>pu_after := later_seq (get item ''seq'') (pu_after st)\<rparr>
        | Some op \<Rightarrow>
            let logical = logicalKeyOfOp op;
                remoteTs = js_orv (get item ''ts'') (get op ''ts'');
                outbox = (if logical \<noteq> [] then dropOutboxIfRemoteNewer (pu_outbox st) logical remoteTs else pu_outbox st);
                st1 = st\<lparr>pu_outbox := outbox, pu_after := later_seq (get item ''seq'') (pu_after st)\<rparr>
            in if shouldSkipOwnOrigin op origin then st1
               else let (sync, applied, calls) = applyOp answer op outbox (pu_sync st)
                    in st1\<lparr>pu_sync := sync, pu_applied := pu_applied st @ (if applied then [op] else []),
                           pu_calls := pu_calls st @ calls\<rparr>)"

definition pull_page :: "(jsv \<Rightarrow> jsv option) \<Rightarrow> jsv \<Rightarrow> jsv \<times> jsv list \<Rightarrow> pull_state \<Rightarrow> pull_state \<times> bool" where
  "pull_page openSyncItem origin pa st =
     (let (page, answers) = pa;
          items = arr_or_empty (get page ''items'');
          st1 = fold (pull_item openSyncItem origin) (zip items answers) st
      in (st1\<lparr>pu_after := later_seq (get page ''latestSeq'') (pu_after st1)\<rparr>,
          get page ''more'' = Bool True \<and> items \<noteq> []))"

text \<open>The pages the server answers with, and for each the answers of the message store to its items.\<close>

fun pull_pages :: "(jsv \<Rightarrow> jsv option) \<Rightarrow> jsv \<Rightarrow> (jsv \<times> jsv list) list \<Rightarrow> pull_state \<Rightarrow> pull_state" where
  "pull_pages openSyncItem origin [] st = st"
| "pull_pages openSyncItem origin (p # ps) st =
     (case pull_page openSyncItem origin p st of (st', again) \<Rightarrow> if again then pull_pages openSyncItem origin ps st' else st')"

definition hydrate_contacts :: "rat \<Rightarrow> jsv list \<Rightarrow> entries \<Rightarrow> entries \<times> bool" where
  "hydrate_contacts clock applied store =
     (let inbound = filter (\<lambda>op. get op ''t'' = Str ''msg'' \<and> js_Boolean (get op ''peerId'') \<and> js_Boolean (get op ''message'')) applied;
          (contacts, changed) = fold (\<lambda>op (contacts, changed).
             case upsertContactNameFromIncomingMessage clock contacts (get op ''peerId'') (get op ''message'') of
               (names, ch) \<Rightarrow> if ch then (Arr names, True) else (contacts, changed)) inbound (store_value store ''contacts'', False)
      in if inbound \<noteq> [] \<and> changed then (AList.update ''contacts'' contacts store, True) else (store, False))"

definition pullRemote ::
  "(jsv \<Rightarrow> jsv option) \<Rightarrow> jsv \<Rightarrow> rat \<Rightarrow> (jsv \<times> jsv list) list \<Rightarrow> jsv \<Rightarrow> sync_state \<Rightarrow> jsv list \<Rightarrow>
     pull_state \<times> (jsv list \<times> jsv list) option" where
  "pullRemote openSyncItem origin clock pages lastSeq sync outbox =
     (let st = pull_pages openSyncItem origin pages
            \<lparr>pu_sync = sync, pu_outbox = outbox, pu_after = number_or lastSeq 0, pu_applied = [], pu_calls = []\<rparr>;
          (store, hydrated) = hydrate_contacts clock (pu_applied st) (ss_store (pu_sync st));
          (peers, storeKeys) = peersAndStoresFromOps (pu_applied st)
      in (st\<lparr>pu_sync := (pu_sync st)\<lparr>ss_store := store\<rparr>\<rparr>,
          if pu_applied st \<noteq> [] \<or> hydrated
          then Some (peers, if hydrated then push_new (Str ''contacts'') storeKeys else storeKeys) else None))"

section \<open>Pushing\<close>

definition PUSH_BODY_SAFETY :: nat where "PUSH_BODY_SAFETY = 4096"

definition buildOp :: "rat \<Rightarrow> entries \<Rightarrow> (jsv \<Rightarrow> jsv \<Rightarrow> jsv) \<Rightarrow> jsv \<Rightarrow> jsv \<Rightarrow> (string \<times> jsv) option" where
  "buildOp clock store findMessage change origin =
     (let ts = Num (number_or (get change ''ts'') clock); t = get change ''type''; peerId = get change ''peerId'';
          messageId = get change ''messageId''; key = js_String (get change ''key''); i = js_String (get change ''id'');
          stored = (case map_of store key of None \<Rightarrow> Null | Some v \<Rightarrow> v)
      in if t = Str ''store-entry'' then
           (let es = entriesOfStore key stored
            in if js_Boolean (get change ''deleted'') then
                 Some (logicalKeyOf change, Obj [(''t'', Str ''store-entry''), (''key'', get change ''key''), (''id'', get change ''id''),
                   (''deleted'', Bool True), (''ts'', ts), (''origin'', origin)])
               else if \<not> hasOwn es i then None
               else Some (logicalKeyOf change, Obj [(''t'', Str ''store-entry''), (''key'', get change ''key''), (''id'', get change ''id''),
                   (''value'', get (Obj es) i), (''ts'', ts), (''origin'', origin)]))
         else if t = Str ''store'' then
           Some (''store:'' @ key, Obj [(''t'', Str ''store''), (''key'', get change ''key''), (''value'', stored), (''ts'', ts), (''origin'', origin)])
         else if t = Str ''chat-del'' then
           Some (''chat:'' @ js_String peerId, Obj [(''t'', Str ''chat-del''), (''peerId'', peerId), (''ts'', ts), (''origin'', origin)])
         else if t = Str ''msg-del'' then
           Some (''msg:'' @ js_String peerId @ '':'' @ js_String messageId,
             Obj [(''t'', Str ''msg-del''), (''peerId'', peerId), (''messageId'', messageId), (''ts'', ts), (''origin'', origin)])
         else if t = Str ''msg'' then
           (let message = js_orv (get change ''message'') (findMessage peerId messageId)
            in if \<not> js_Boolean message then None
               else Some (''msg:'' @ js_String peerId @ '':'' @ js_String messageId,
                 Obj [(''t'', Str ''msg''), (''peerId'', peerId), (''message'', prepareMessageForSync message), (''origin'', origin)]))
         else None)"

definition sealWithinLimit :: "(string \<Rightarrow> jsv \<Rightarrow> jsv) \<Rightarrow> string \<times> jsv \<Rightarrow> jsv option" where
  "sealWithinLimit seal built =
     (let (logicalKey, op) = built; item = seal logicalKey op
      in if jsonBytes item \<le> PUSH_ITEM_MAX_BYTES then Some item
         else if get op ''t'' = Str ''msg'' \<and> js_Boolean (get (get op ''message'') ''fileData'') then
           (let item2 = seal logicalKey (spread op [(''message'', stripMessageFileData (get op ''message''))])
            in if jsonBytes item2 \<le> PUSH_ITEM_MAX_BYTES then Some item2 else None)
         else None)"

datatype push_answer = Pushed | TooLarge | Failed string

record 's push_env =
  pe_clock :: rat
  pe_store :: entries
  pe_find :: "jsv \<Rightarrow> jsv \<Rightarrow> jsv"
  pe_origin :: jsv
  pe_seal :: "string \<Rightarrow> jsv \<Rightarrow> jsv"
  pe_push :: "'s \<Rightarrow> jsv list \<Rightarrow> 's \<times> push_answer"

record 's push_state =
  ps_outbox :: "jsv list"
  ps_meta :: sync_meta
  ps_server :: 's
  ps_requests :: "jsv list list"

definition push_body :: "jsv list \<Rightarrow> nat" where
  "push_body items = jsonBytes (Obj [(''items'', Arr items)])"

definition sealed_of :: "'s push_env \<Rightarrow> jsv \<Rightarrow> jsv option" where
  "sealed_of env change =
     (case buildOp (pe_clock env) (pe_store env) (pe_find env) change (pe_origin env) of
        None \<Rightarrow> None | Some built \<Rightarrow> sealWithinLimit (pe_seal env) built)"

fun fill_batch :: "'s push_env \<Rightarrow> jsv list \<Rightarrow> jsv list \<Rightarrow> (jsv \<times> jsv) list \<Rightarrow> jsv list \<times> (jsv \<times> jsv) list" where
  "fill_batch env [] outbox batch = (outbox, batch)"
| "fill_batch env (change # changes) outbox batch =
     (if length batch \<ge> PUSH_BATCH then (outbox, batch)
      else case sealed_of env change of
        None \<Rightarrow> fill_batch env changes (removeSentFromOutbox outbox [change]) batch
      | Some item \<Rightarrow>
          (let nextBody = push_body (map fst batch @ [item])
           in if length batch > 0 \<and> nextBody > PUSH_BODY_MAX_BYTES - PUSH_BODY_SAFETY then (outbox, batch)
              else if nextBody > PUSH_BODY_MAX_BYTES - PUSH_BODY_SAFETY \<and> length batch = 0
              then fill_batch env changes (removeSentFromOutbox outbox [change]) batch
              else fill_batch env changes outbox (batch @ [(item, change)])))"

definition push_request :: "'s push_env \<Rightarrow> jsv list \<Rightarrow> 's push_state \<Rightarrow> 's push_state \<times> push_answer" where
  "push_request env items st =
     (let (server, answer) = pe_push env (ps_server st) items
      in (st\<lparr>ps_server := server, ps_requests := ps_requests st @ [items]\<rparr>, answer))"

definition remove_sent :: "(jsv \<times> jsv) list \<Rightarrow> 's push_state \<Rightarrow> 's push_state" where
  "remove_sent batch st = st\<lparr>ps_outbox := removeSentFromOutbox (ps_outbox st) (map snd batch)\<rparr>"

definition push_single :: "'s push_env \<Rightarrow> jsv \<times> jsv \<Rightarrow> 's push_state \<Rightarrow> 's push_state \<times> string option" where
  "push_single env ic st =
     (case push_request env [fst ic] st of (st', answer) \<Rightarrow>
        (case answer of Failed kind \<Rightarrow> (st', Some kind) | _ \<Rightarrow> (remove_sent [ic] st', None)))"

fun push_singles :: "'s push_env \<Rightarrow> (jsv \<times> jsv) list \<Rightarrow> 's push_state \<Rightarrow> 's push_state \<times> string option" where
  "push_singles env [] st = (st, None)"
| "push_singles env (ic # ics) st =
     (case push_single env ic st of (st', Some kind) \<Rightarrow> (st', Some kind) | (st', None) \<Rightarrow> push_singles env ics st')"

definition pushPrepared :: "'s push_env \<Rightarrow> (jsv \<times> jsv) list \<Rightarrow> 's push_state \<Rightarrow> 's push_state \<times> string option" where
  "pushPrepared env batch st =
     (if batch = [] then (st, None)
      else case push_request env (map fst batch) st of (st', answer) \<Rightarrow>
        (case answer of
           Pushed \<Rightarrow> (remove_sent batch st', None)
         | Failed kind \<Rightarrow> (st', Some kind)
         | TooLarge \<Rightarrow> if length batch = 1 then (remove_sent batch st', None) else push_singles env batch st'))"

definition note_pushed :: "entries \<Rightarrow> jsv \<Rightarrow> sync_meta \<Rightarrow> sync_meta" where
  "note_pushed store change meta =
     (let key = js_String (get change ''key'');
          es = entriesOfStore key (case map_of store key of None \<Rightarrow> Null | Some v \<Rightarrow> v)
      in if get change ''type'' \<noteq> Str ''store-entry'' then meta
         else appliedMetaAfterOp meta (Obj ([(''t'', Str ''store-entry''), (''key'', get change ''key''), (''id'', get change ''id''),
                (''ts'', get change ''ts'')] @
                (if js_Boolean (get change ''deleted'') then [(''deleted'', Bool True)]
                 else [(''value'', js_coalesce (index (Obj es) (js_String (get change ''id''))) (get change ''value''))]))))"

definition classifyError :: "bool \<Rightarrow> jsv \<Rightarrow> jsv \<Rightarrow> string" where
  "classifyError isCloudApiError status code =
     (if isCloudApiError \<and> (status = JInt 401 \<or> code = Str ''unauthorized'' \<or> code = Str ''invalid_credentials'') then ''auth''
      else if isCloudApiError \<and> code = Str ''too_large'' then ''too_large''
      else if isCloudApiError \<and> status = JInt 413 then (if code = Str ''quota'' then ''quota'' else ''too_large'')
      else if isCloudApiError \<and> code = Str ''quota'' then ''quota''
      else ''network'')"

section \<open>Filling the outbox\<close>

definition stored_value :: "entries \<Rightarrow> string \<Rightarrow> jsv" where
  "stored_value store key = (case map_of store key of None \<Rightarrow> Null | Some v \<Rightarrow> v)"

definition enqueue :: "rat \<Rightarrow> entries \<Rightarrow> sync_meta \<Rightarrow> jsv \<Rightarrow> jsv list \<Rightarrow> jsv list" where
  "enqueue clock store meta change outbox =
     (if get change ''type'' = Str ''store'' then
        (let key = js_String (get change ''key'');
             n = js_Number (get change ''ts'');
             ts = (if positive n then n else Fin clock)
         in fold (\<lambda>diff ob. mergeOutbox clock ob (spread diff [(''ts'', Num ts)]))
              (diffStoreEntries key (stored_value store key) (Obj (snapshot_of meta key))) outbox)
      else if js_Boolean (get change ''type'') then mergeOutbox clock outbox change
      else outbox)"

definition chat_changes :: "rat \<Rightarrow> string \<times> jsv list \<Rightarrow> jsv list" where
  "chat_changes now chat =
     (let (peerId, messages) = chat
      in if peerId = [] \<or> peerId = ''self'' then []
         else List.map_filter (\<lambda>message.
           if \<not> js_Boolean (get message ''messageId'') then None
           else Some (Obj [(''type'', Str ''msg''), (''peerId'', Str peerId), (''messageId'', get message ''messageId''),
                           (''ts'', Num (number_or (get message ''timestamp'') now))])) messages)"

fun first_name :: "rat \<Rightarrow> jsv \<Rightarrow> string \<Rightarrow> jsv list \<Rightarrow> jsv \<times> bool" where
  "first_name now contacts peerId [] = (contacts, False)"
| "first_name now contacts peerId (message # messages) =
     (case upsertContactNameFromIncomingMessage now contacts (Str peerId) message of
        (names, True) \<Rightarrow> (Arr names, True) | (_, False) \<Rightarrow> first_name now contacts peerId messages)"

definition chat_names :: "rat \<Rightarrow> string \<times> jsv list \<Rightarrow> jsv \<times> bool \<Rightarrow> jsv \<times> bool" where
  "chat_names now chat acc =
     (if fst chat = [] \<or> fst chat = ''self'' then acc
      else case first_name now (fst acc) (fst chat) (rev (snd chat)) of (contacts, changed) \<Rightarrow> (contacts, changed \<or> snd acc))"

definition fullUpload :: "rat \<Rightarrow> entries \<Rightarrow> (string \<times> jsv list) list \<Rightarrow> jsv list \<Rightarrow> entries \<times> jsv list" where
  "fullUpload now store chats outbox =
     (let (contacts, changed) = fold (chat_names now) chats
            (case map_of store ''contacts'' of None \<Rightarrow> Arr [] | Some v \<Rightarrow> v, False);
          store' = (if changed then AList.update ''contacts'' contacts store else store);
          changes = concat (map (chat_changes now) chats) @
            concat (map (\<lambda>key. map (\<lambda>diff. spread diff [(''ts'', Num (Fin now))]) (diffStoreEntries key (stored_value store' key) (Obj [])))
              SYNCED_STORE_KEYS)
      in (store', fold (\<lambda>change ob. mergeOutbox now ob change) changes outbox))"

section \<open>Turns of a push\<close>

lemma length_removeSent: "length (removeSentFromOutbox outbox sent) \<le> length outbox"
  by (simp add: removeSentFromOutbox_def)

lemma removeSent_sub: "set (removeSentFromOutbox outbox sent) \<subseteq> set outbox"
  by (auto simp: removeSentFromOutbox_def)

text \<open>Nothing that happens in a turn adds to the outbox, and what is sent or discarded leaves it.\<close>

definition sub_outbox :: "jsv list \<Rightarrow> jsv list \<Rightarrow> bool" where
  "sub_outbox a b \<longleftrightarrow> (\<exists>P. a = filter P b)"

lemma sub_outbox_refl [intro]: "sub_outbox a a"
  unfolding sub_outbox_def by (rule exI [of _ "\<lambda>_. True"]) simp

lemma sub_outbox_trans [trans]: "sub_outbox a b \<Longrightarrow> sub_outbox b c \<Longrightarrow> sub_outbox a c"
  by (auto simp: sub_outbox_def)

lemma sub_outbox_removeSent [intro]: "sub_outbox (removeSentFromOutbox a s) a"
  by (auto simp: sub_outbox_def removeSentFromOutbox_def)

lemma sub_outbox_less: "sub_outbox a b \<Longrightarrow> c \<in> set b \<Longrightarrow> c \<notin> set a \<Longrightarrow> length a < length b"
  by (auto simp: sub_outbox_def intro: length_filter_less)

lemma removed_not_in: "c \<in> set sent \<Longrightarrow> sub_outbox a (removeSentFromOutbox b sent) \<Longrightarrow> c \<notin> set a"
  by (auto simp: sub_outbox_def removeSentFromOutbox_def)

lemma fill_batch_cases:
  obtains (full) "fill_batch env (c # cs) outbox batch = (outbox, batch)" "batch \<noteq> []"
    | (discard) "fill_batch env (c # cs) outbox batch = fill_batch env cs (removeSentFromOutbox outbox [c]) batch"
        "sealed_of env c = None \<or> (\<exists>item. sealed_of env c = Some item \<and> push_body [item] > PUSH_BODY_MAX_BYTES - PUSH_BODY_SAFETY)"
    | (take) item where "fill_batch env (c # cs) outbox batch = fill_batch env cs outbox (batch @ [(item, c)])"
        "sealed_of env c = Some item" "length batch < PUSH_BATCH" "push_body (map fst batch @ [item]) \<le> PUSH_BODY_MAX_BYTES - PUSH_BODY_SAFETY"
proof (cases "length batch \<ge> PUSH_BATCH")
  case True
  then have "batch \<noteq> []" by (auto simp: PUSH_BATCH_def)
  then show ?thesis using full True by simp
next
  case small: False
  show ?thesis
  proof (cases "sealed_of env c")
    case None
    then show ?thesis using discard small by simp
  next
    case (Some item)
    let ?big = "push_body (map fst batch @ [item]) > PUSH_BODY_MAX_BYTES - PUSH_BODY_SAFETY"
    consider "?big" "batch \<noteq> []" | "?big" "batch = []" | "\<not> ?big" by blast
    then show ?thesis
    proof cases
      case 1
      then show ?thesis using full small Some by simp
    next
      case 2
      have "fill_batch env (c # cs) outbox batch = fill_batch env cs (removeSentFromOutbox outbox [c]) batch"
        using 2 small Some by (simp add: PUSH_BATCH_def)
      then show ?thesis using discard Some 2 by simp
    next
      case 3
      then have "fill_batch env (c # cs) outbox batch = fill_batch env cs outbox (batch @ [(item, c)])" using small Some by simp
      then show ?thesis using take [OF _ Some] small 3 by simp
    qed
  qed
qed

declare fill_batch.simps(2) [simp del]

lemma fill_batch_sub: "sub_outbox (fst (fill_batch env cs outbox batch)) outbox"
proof (induction cs arbitrary: outbox batch)
  case (Cons c cs)
  show ?case
    by (rule fill_batch_cases [of env c cs outbox batch])
      (use Cons.IH sub_outbox_trans [OF Cons.IH sub_outbox_removeSent] in auto)
qed auto

lemma fill_batch_extends: "prefix batch (snd (fill_batch env cs outbox batch))"
proof (induction cs arbitrary: outbox batch)
  case (Cons c cs)
  show ?case
    by (rule fill_batch_cases [of env c cs outbox batch]) (use Cons.IH append_prefixD [OF Cons.IH] in auto)
qed simp

lemma fill_batch_head:
  "sub_outbox (fst (fill_batch env (c # cs) outbox [])) (removeSentFromOutbox outbox [c]) \<or>
     (\<exists>item rest. snd (fill_batch env (c # cs) outbox []) = (item, c) # rest)"
proof (rule fill_batch_cases [of env c cs outbox "[]"])
  assume "fill_batch env (c # cs) outbox [] = fill_batch env cs (removeSentFromOutbox outbox [c]) []"
  then show ?thesis using fill_batch_sub by (intro disjI1) simp
next
  fix item assume "fill_batch env (c # cs) outbox [] = fill_batch env cs outbox ([] @ [(item, c)])"
  then show ?thesis using fill_batch_extends [of "[(item, c)]" env cs outbox] by (auto elim!: prefixE)
qed simp

lemma push_single_result:
  "sub_outbox (ps_outbox (fst (push_single env ic st))) (ps_outbox st) \<and>
     (snd (push_single env ic st) = None \<longrightarrow> ps_outbox (fst (push_single env ic st)) = removeSentFromOutbox (ps_outbox st) [snd ic])"
  by (auto simp: push_single_def push_request_def remove_sent_def case_prod_unfold Let_def split: push_answer.splits)

lemma push_singles_sub: "sub_outbox (ps_outbox (fst (push_singles env batch st))) (ps_outbox st)"
proof (induction batch arbitrary: st)
  case (Cons ic ics)
  obtain st1 e where st1: "push_single env ic st = (st1, e)" by (cases "push_single env ic st")
  then have "sub_outbox (ps_outbox st1) (ps_outbox st)" using push_single_result [of env ic st] by simp
  then show ?case using st1 Cons sub_outbox_trans by (cases e) auto
qed auto

lemma push_singles_removed:
  "push_singles env batch st = (st', None) \<Longrightarrow> (item, c) \<in> set batch \<Longrightarrow> c \<notin> set (ps_outbox st')"
proof (induction batch arbitrary: st)
  case (Cons ic ics)
  obtain st1 where st1: "push_single env ic st = (st1, None)" "push_singles env ics st1 = (st', None)"
    using Cons.prems(1) by (auto split: prod.splits option.splits)
  have "ps_outbox st1 = removeSentFromOutbox (ps_outbox st) [snd ic]" using push_single_result [of env ic st] st1(1) by simp
  moreover have "sub_outbox (ps_outbox st') (ps_outbox st1)" using push_singles_sub [of env ics st1] st1(2) by simp
  ultimately have "snd ic \<notin> set (ps_outbox st')" using removed_not_in [of "snd ic" "[snd ic]"] by simp
  then show ?case using Cons.IH [OF st1(2)] Cons.prems(2) by auto
qed simp

lemma pushPrepared_sub: "sub_outbox (ps_outbox (fst (pushPrepared env batch st))) (ps_outbox st)"
  using push_singles_sub [of env batch "fst (push_request env (map fst batch) st)"]
  by (auto simp: pushPrepared_def push_request_def remove_sent_def case_prod_unfold Let_def split: push_answer.splits)

lemma remove_sent_not_in: "(item, c) \<in> set batch \<Longrightarrow> c \<notin> set (ps_outbox (remove_sent batch st))"
  using removed_not_in [of c "map snd batch"] by (force simp: remove_sent_def)

lemma pushPrepared_removed:
  assumes "pushPrepared env batch st = (st', None)" "(item, c) \<in> set batch"
  shows "c \<notin> set (ps_outbox st')"
proof -
  obtain st1 a where r: "push_request env (map fst batch) st = (st1, a)" by (cases "push_request env (map fst batch) st")
  have "batch \<noteq> []" using assms(2) by auto
  then have "st' = remove_sent batch st1 \<or> push_singles env batch st1 = (st', None)"
    using assms(1) r by (auto simp: pushPrepared_def split: push_answer.splits if_splits)
  then show ?thesis using remove_sent_not_in [OF assms(2)] push_singles_removed [OF _ assms(2)] by blast
qed

text \<open>
  One turn of the loop: a batch is filled, pushed, and what was pushed is noted in the metadata. A turn
  that neither sends nor discards anything ends the loop, as does an error.
\<close>

definition push_turn :: "'s push_env \<Rightarrow> 's push_state \<Rightarrow> 's push_state \<times> string option \<times> bool" where
  "push_turn env st =
     (let (outbox, batch) = fill_batch env (ps_outbox st) (ps_outbox st) [];
          st1 = st\<lparr>ps_outbox := outbox\<rparr>
      in if batch = [] then (st1, None, length outbox \<noteq> length (ps_outbox st))
         else case pushPrepared env batch st1 of
             (st2, Some kind) \<Rightarrow> (st2, Some kind, False)
           | (st2, None) \<Rightarrow> (st2\<lparr>ps_meta := fold (note_pushed (pe_store env)) (map snd batch) (ps_meta st2)\<rparr>, None, True))"

lemma push_turn_outbox:
  assumes "push_turn env st = (st', e, again)"
  shows "sub_outbox (ps_outbox st') (ps_outbox st)"
    and "ps_outbox st \<noteq> [] \<Longrightarrow> e = None \<Longrightarrow> again \<and> length (ps_outbox st') < length (ps_outbox st)"
proof -
  obtain outbox batch where fb: "fill_batch env (ps_outbox st) (ps_outbox st) [] = (outbox, batch)"
    by (cases "fill_batch env (ps_outbox st) (ps_outbox st) []")
  have sub: "sub_outbox outbox (ps_outbox st)" using fill_batch_sub [of env "ps_outbox st" "ps_outbox st" "[]"] fb by simp
  obtain st2 e2 where pp: "pushPrepared env batch (st\<lparr>ps_outbox := outbox\<rparr>) = (st2, e2)"
    by (cases "pushPrepared env batch (st\<lparr>ps_outbox := outbox\<rparr>)")
  have sub2: "sub_outbox (ps_outbox st2) (ps_outbox st)"
    using pushPrepared_sub [of env batch "st\<lparr>ps_outbox := outbox\<rparr>"] pp sub_outbox_trans [OF _ sub] by simp
  show "sub_outbox (ps_outbox st') (ps_outbox st)"
    using assms fb pp sub sub2 by (auto simp: push_turn_def Let_def split: if_splits option.splits)
  assume ne: "ps_outbox st \<noteq> []" and e: "e = None"
  then obtain c cs where c: "ps_outbox st = c # cs" by (cases "ps_outbox st") auto
  show "again \<and> length (ps_outbox st') < length (ps_outbox st)"
  proof (cases batch)
    case Nil
    then have "sub_outbox outbox (removeSentFromOutbox (ps_outbox st) [c])" using fill_batch_head [of env c cs "ps_outbox st"] fb c by simp
    then have "length outbox < length (ps_outbox st)" using sub_outbox_less [OF sub, of c] removed_not_in [of c "[c]"] c by simp
    then show ?thesis using assms fb Nil by (auto simp: push_turn_def)
  next
    case (Cons ic ics)
    then have st': "e2 = None" "again" "ps_outbox st' = ps_outbox st2" using assms fb pp e by (auto simp: push_turn_def split: option.splits)
    obtain item x where ic: "ic = (item, x)" by (cases ic)
    consider "c \<notin> set outbox" | "x = c" using fill_batch_head [of env c cs "ps_outbox st"] fb c Cons ic removed_not_in [of c "[c]"] by fastforce
    then have "c \<notin> set (ps_outbox st2)"
    proof cases
      case 1
      then show ?thesis using pushPrepared_sub [of env batch "st\<lparr>ps_outbox := outbox\<rparr>"] pp by (auto simp: sub_outbox_def)
    next
      case 2
      then show ?thesis using pushPrepared_removed [OF pp [unfolded st'(1)], of item c] Cons ic by simp
    qed
    then show ?thesis using st' sub_outbox_less [OF sub2, of c] c by simp
  qed
qed

function pushOutbox :: "'s push_env \<Rightarrow> 's push_state \<Rightarrow> 's push_state \<times> string option" where
  "pushOutbox env st =
     (if ps_outbox st = [] then (st, None)
      else case push_turn env st of
          (st', Some kind, again) \<Rightarrow> (st', Some kind)
        | (st', None, again) \<Rightarrow> if again then pushOutbox env st' else (st', None))"
  by pat_completeness auto
termination
  by (relation "measure (\<lambda>(env, st). length (ps_outbox st))") (auto dest!: push_turn_outbox(2) [OF sym])

declare pushOutbox.simps [simp del]

section \<open>A push ends with an empty outbox\<close>

lemma pushOutbox_cases:
  assumes "pushOutbox env st = (st', e)"
  obtains "ps_outbox st = []" "st' = st" "e = None"
    | kind st1 again where "push_turn env st = (st1, Some kind, again)" "st' = st1" "e = Some kind"
    | st1 where "ps_outbox st \<noteq> []" "push_turn env st = (st1, None, True)" "length (ps_outbox st1) < length (ps_outbox st)"
        "pushOutbox env st1 = (st', e)"
proof (cases "ps_outbox st = []")
  case True
  then show ?thesis using that(1) assms by (simp add: pushOutbox.simps)
next
  case False
  obtain st1 e1 again where t: "push_turn env st = (st1, e1, again)" by (cases "push_turn env st") auto
  show ?thesis
  proof (cases e1)
    case None
    then show ?thesis using that(3) [of st1] t push_turn_outbox(2) [OF t False] False assms by (simp add: pushOutbox.simps [of env st])
  next
    case (Some kind)
    then show ?thesis using that(2) [of st1 kind again] t False assms by (simp add: pushOutbox.simps [of env st])
  qed
qed

definition never_fails :: "'s push_env \<Rightarrow> bool" where
  "never_fails env \<longleftrightarrow> (\<forall>s items kind. snd (pe_push env s items) \<noteq> Failed kind)"

lemma push_singles_ok: "never_fails env \<Longrightarrow> snd (push_singles env batch st) = None"
proof (induction batch arbitrary: st)
  case (Cons ic ics)
  have "snd (push_single env ic st) = None" using Cons.prems
    by (auto simp: push_single_def push_request_def never_fails_def case_prod_unfold Let_def split: push_answer.splits)
  then show ?case using Cons by (cases "push_single env ic st") simp
qed simp

lemma pushPrepared_ok: "never_fails env \<Longrightarrow> snd (pushPrepared env batch st) = None"
  using push_singles_ok
  by (auto simp: pushPrepared_def push_request_def never_fails_def case_prod_unfold Let_def split: push_answer.splits)

lemma push_turn_ok:
  assumes "never_fails env" "push_turn env st = (st', e, again)"
  shows "e = None"
proof -
  obtain outbox batch where fb: "fill_batch env (ps_outbox st) (ps_outbox st) [] = (outbox, batch)"
    by (cases "fill_batch env (ps_outbox st) (ps_outbox st) []")
  obtain st2 where "pushPrepared env batch (st\<lparr>ps_outbox := outbox\<rparr>) = (st2, None)"
    using pushPrepared_ok [OF assms(1), of batch "st\<lparr>ps_outbox := outbox\<rparr>"] by (cases "pushPrepared env batch (st\<lparr>ps_outbox := outbox\<rparr>)") auto
  then show ?thesis using assms(2) fb by (auto simp: push_turn_def Let_def split: if_splits)
qed

text \<open>
  C13. Pushing ends, and unless the server fails it ends with an empty outbox: whatever is queued and
  however often the server answers that a batch or an item is too large, every change is either accepted
  or discarded, and the loop does not spin.
\<close>

theorem push_drains_outbox:
  assumes "never_fails env"
  shows "\<exists>st'. pushOutbox env st = (st', None) \<and> ps_outbox st' = []"
proof (induction "length (ps_outbox st)" arbitrary: st rule: less_induct)
  case less
  obtain st' e where r: "pushOutbox env st = (st', e)" by (cases "pushOutbox env st")
  show ?case
  proof (rule pushOutbox_cases [OF r])
    assume "ps_outbox st = []" "st' = st" "e = None"
    then show ?thesis using r by simp
  next
    fix kind st1 again assume "push_turn env st = (st1, Some kind, again)"
    then show ?thesis using push_turn_ok [OF assms] by fastforce
  next
    fix st1 assume "length (ps_outbox st1) < length (ps_outbox st)" "pushOutbox env st1 = (st', e)"
    then show ?thesis using less [of st1] r by simp
  qed
qed

definition sample_env :: "nat push_env" where
  "sample_env = \<lparr>pe_clock = 7, pe_store = [], pe_find = (\<lambda>_ _. Null), pe_origin = Str ''device-1'',
     pe_seal = (\<lambda>k op. Obj [(''key'', Str k)]), pe_push = (\<lambda>n items. (Suc n, if length items > 1 then TooLarge else Pushed))\<rparr>"

definition sample_push :: "nat push_state" where
  "sample_push = \<lparr>ps_outbox = [Obj [(''type'', Str ''chat-del''), (''peerId'', Str ''p''), (''ts'', JInt 1)],
     Obj [(''type'', Str ''chat-del''), (''peerId'', Str ''q''), (''ts'', JInt 2)]], ps_meta = emptySyncMeta, ps_server = 0, ps_requests = []\<rparr>"

theorem push_drains_outbox_witness:
  "\<exists>st'. pushOutbox sample_env sample_push = (st', None) \<and> ps_outbox st' = []"
  by (rule push_drains_outbox) (simp add: never_fails_def sample_env_def)

section \<open>Requests stay within the limits of the server\<close>

lemma utf8_append: "utf8 (s @ t) = utf8 s @ utf8 t"
  by (simp add: utf8_def)

lemma push_body_single: "push_body [item] \<le> jsonBytes item + 16"
proof -
  have "length (utf8 (json item)) \<le> jsonBytes item + 4"
    by (cases item) (auto simp: jsonBytes_def utf8ByteLength_def unprintable_def utf8_def utf8_char_def char_code_def)
  moreover have "push_body [item] = length (utf8 (json item)) + 12"
    by (simp add: push_body_def jsonBytes_def utf8ByteLength_def unprintable_def utf8_append quote_def)
      (simp add: utf8_def utf8_char_def char_code_def quote_char_def)
  ultimately show ?thesis by simp
qed

definition request_ok :: "jsv list \<Rightarrow> bool" where
  "request_ok items \<longleftrightarrow> items \<noteq> [] \<and> length items \<le> PUSH_BATCH \<and> list_all (\<lambda>i. jsonBytes i \<le> PUSH_ITEM_MAX_BYTES) items \<and>
     push_body items \<le> PUSH_BODY_MAX_BYTES - PUSH_BODY_SAFETY"

lemma sealed_of_small: "sealed_of env c = Some item \<Longrightarrow> jsonBytes item \<le> PUSH_ITEM_MAX_BYTES"
  by (auto simp: sealed_of_def sealWithinLimit_def Let_def split: option.splits prod.splits if_splits)

lemma single_request_ok: "jsonBytes item \<le> PUSH_ITEM_MAX_BYTES \<Longrightarrow> request_ok [item]"
  using push_body_single [of item]
  by (simp add: request_ok_def PUSH_BATCH_def PUSH_ITEM_MAX_BYTES_def PUSH_BODY_MAX_BYTES_def PUSH_BODY_SAFETY_def)

lemma fill_batch_ok:
  "batch = [] \<or> request_ok (map fst batch) \<Longrightarrow> snd (fill_batch env cs outbox batch) = [] \<or> request_ok (map fst (snd (fill_batch env cs outbox batch)))"
proof (induction cs arbitrary: outbox batch)
  case (Cons c cs)
  show ?case
  proof (rule fill_batch_cases [of env c cs outbox batch])
    fix item assume t: "fill_batch env (c # cs) outbox batch = fill_batch env cs outbox (batch @ [(item, c)])"
      "sealed_of env c = Some item" "length batch < PUSH_BATCH" "push_body (map fst batch @ [item]) \<le> PUSH_BODY_MAX_BYTES - PUSH_BODY_SAFETY"
    then have "request_ok (map fst (batch @ [(item, c)]))" using Cons.prems sealed_of_small [OF t(2)] by (auto simp: request_ok_def)
    then show ?thesis using Cons.IH t(1) by simp
  qed (use Cons in simp_all)
qed simp

lemma push_singles_requests:
  "list_all (\<lambda>ic. jsonBytes (fst ic) \<le> PUSH_ITEM_MAX_BYTES) batch \<Longrightarrow> list_all request_ok (ps_requests st) \<Longrightarrow>
     list_all request_ok (ps_requests (fst (push_singles env batch st)))"
proof (induction batch arbitrary: st)
  case (Cons ic ics)
  obtain st1 e where st1: "push_single env ic st = (st1, e)" by (cases "push_single env ic st")
  then have "ps_requests st1 = ps_requests st @ [[fst ic]]"
    by (auto simp: push_single_def push_request_def remove_sent_def case_prod_unfold Let_def split: push_answer.splits)
  then have "list_all request_ok (ps_requests st1)" using Cons.prems single_request_ok by simp
  then show ?case using Cons st1 by (cases e) simp_all
qed simp

lemma pushPrepared_requests:
  assumes "request_ok (map fst batch)" "list_all request_ok (ps_requests st)"
  shows "list_all request_ok (ps_requests (fst (pushPrepared env batch st)))"
proof -
  obtain st1 a where r: "push_request env (map fst batch) st = (st1, a)" by (cases "push_request env (map fst batch) st")
  then have "ps_requests st1 = ps_requests st @ [map fst batch]" by (auto simp: push_request_def case_prod_unfold Let_def)
  then have ok: "list_all request_ok (ps_requests st1)" using assms by simp
  moreover have "list_all (\<lambda>ic. jsonBytes (fst ic) \<le> PUSH_ITEM_MAX_BYTES) batch" using assms(1) by (simp add: request_ok_def list_all_iff)
  ultimately show ?thesis using push_singles_requests [of batch st1 env] r assms(2)
    by (auto simp: pushPrepared_def remove_sent_def split: push_answer.splits)
qed

lemma push_turn_requests:
  assumes "push_turn env st = (st', e, again)" "list_all request_ok (ps_requests st)"
  shows "list_all request_ok (ps_requests st')"
proof -
  obtain outbox batch where fb: "fill_batch env (ps_outbox st) (ps_outbox st) [] = (outbox, batch)"
    by (cases "fill_batch env (ps_outbox st) (ps_outbox st) []")
  obtain st2 e2 where pp: "pushPrepared env batch (st\<lparr>ps_outbox := outbox\<rparr>) = (st2, e2)"
    by (cases "pushPrepared env batch (st\<lparr>ps_outbox := outbox\<rparr>)")
  have "list_all request_ok (ps_requests st2)" if "batch \<noteq> []"
    using that fill_batch_ok [of "[]" env "ps_outbox st" "ps_outbox st"] fb
      pushPrepared_requests [of batch "st\<lparr>ps_outbox := outbox\<rparr>" env] pp assms(2) by simp
  then show ?thesis using assms fb pp by (auto simp: push_turn_def Let_def split: if_splits option.splits)
qed

text \<open>
  C14. Every request to the server is within its limits: at most 100 items, no item of more than 3 MB, a
  body below 8 MB; also when a batch was refused and its items are sent one by one, and when a push
  ends with an error.
\<close>

theorem push_requests_bounded:
  "list_all request_ok (ps_requests st) \<Longrightarrow> list_all request_ok (ps_requests (fst (pushOutbox env st)))"
proof (induction "length (ps_outbox st)" arbitrary: st rule: less_induct)
  case less
  obtain st' e where r: "pushOutbox env st = (st', e)" by (cases "pushOutbox env st")
  show ?case
  proof (rule pushOutbox_cases [OF r])
    fix st1 assume st1: "push_turn env st = (st1, None, True)" "length (ps_outbox st1) < length (ps_outbox st)" "pushOutbox env st1 = (st', e)"
    then show ?thesis using less(1) [OF st1(2) push_turn_requests [OF st1(1) less(2)]] r by simp
  qed (use less(2) push_turn_requests [OF _ less(2)] r in auto)
qed

theorem push_requests_bounded_witness:
  "list_all request_ok (ps_requests (fst (pushOutbox sample_env sample_push)))"
  by (rule push_requests_bounded) (simp add: sample_push_def)

section \<open>Devices converge\<close>

definition op_key :: "jsv \<Rightarrow> string" where "op_key op = js_String (get op ''key'')"
definition op_id :: "jsv \<Rightarrow> string" where "op_id op = js_String (get op ''id'')"
definition op_new :: "jsv \<Rightarrow> jsv option" where
  "op_new op = (if js_Boolean (get op ''deleted'') then None else Some (get op ''value''))"

text \<open>An operation on one entry, as another device sends it.\<close>

definition entry_op_ok :: "jsv \<Rightarrow> bool" where
  "entry_op_ok op \<longleftrightarrow> get op ''t'' = Str ''store-entry'' \<and> get op ''key'' = Str (op_key op) \<and> get op ''id'' = Str (op_id op) \<and>
     op_key op \<in> set SYNCED_STORE_KEYS \<and> op_key op \<noteq> ''contacts'' \<and> syncable (op_key op) (op_id op) \<and>
     (\<exists>r. get op ''ts'' = Num (Fin r)) \<and> patch_ok (op_key op) (op_id op) op"

definition not_pending :: "jsv list \<Rightarrow> jsv \<Rightarrow> bool" where
  "not_pending outbox op \<longleftrightarrow> \<not> js_less (number_or (get op ''ts'') 0) (pendingTsFor outbox (logicalKeyOfOp op))"

definition entry_register :: "sync_state \<Rightarrow> string \<Rightarrow> string \<Rightarrow> jsnum \<times> jsv option" where
  "entry_register st key i = (storeEntryAppliedTs (ss_meta st) key i, lookup_entry key (store_value (ss_store st) key) i)"

definition sync_ok :: "sync_state \<Rightarrow> bool" where
  "sync_ok st \<longleftrightarrow> (\<forall>key \<in> set SYNCED_STORE_KEYS. key \<noteq> ''contacts'' \<longrightarrow> store_ok key (store_value (ss_store st) key))"

definition last_writer :: "jsv \<Rightarrow> jsnum \<times> jsv option \<Rightarrow> jsnum \<times> jsv option" where
  "last_writer op r = (if js_less (number_or (get op ''ts'') 0) (fst r) then r else (number_or (get op ''ts'') 0, op_new op))"

lemma last_writer_commute:
  "number_or (get a ''ts'') 0 \<noteq> number_or (get b ''ts'') 0 \<or> a = b \<Longrightarrow> last_writer a (last_writer b r) = last_writer b (last_writer a r)"
  using number_or_not_NaN [of "get a ''ts''" 0] number_or_not_NaN [of "get b ''ts''" 0]
  by (cases "number_or (get a ''ts'') 0"; cases "number_or (get b ''ts'') 0"; cases "fst r"; auto simp: last_writer_def js_less_def)

lemma synced_key_colon: "key \<in> set SYNCED_STORE_KEYS \<Longrightarrow> CHR '':'' \<notin> set key"
  by (auto simp: SYNCED_STORE_KEYS_def)

lemma split_first: "\<lbrakk>x @ [c] @ a = y @ [c] @ b; c \<notin> set x; c \<notin> set y\<rbrakk> \<Longrightarrow> x = y \<and> a = b"
proof (induction x arbitrary: y)
  case Nil
  then show ?case by (cases y) auto
next
  case (Cons h x)
  then show ?case by (cases y) auto
qed

lemma entryTsKey_inj:
  "key \<in> set SYNCED_STORE_KEYS \<Longrightarrow> key' \<in> set SYNCED_STORE_KEYS \<Longrightarrow> entryTsKey key i = entryTsKey key' i' \<longleftrightarrow> key = key' \<and> i = i'"
  unfolding entryTsKey_def using split_first [of key "CHR '':''" i key' i'] synced_key_colon by auto

lemma entryTsKey_plain: "key \<in> set SYNCED_STORE_KEYS \<Longrightarrow> entryTsKey key i \<noteq> ''__proto__''"
  by (auto simp: SYNCED_STORE_KEYS_def entryTsKey_def)

lemma meta_after_entry_op:
  assumes "entry_op_ok op"
  shows "appliedMetaAfterOp meta op = meta_after_entry op meta"
  using assms by (simp add: appliedMetaAfterOp_def meta_after_store_def meta_after_chat_del_def meta_after_msg_def entry_op_ok_def Let_def)

lemma applied_ts_after:
  assumes "entry_op_ok op" "key \<in> set SYNCED_STORE_KEYS"
  shows "storeEntryAppliedTs (appliedMetaAfterOp meta op) key i =
     (if key = op_key op \<and> i = op_id op then number_or (get op ''ts'') 0 else storeEntryAppliedTs meta key i)"
proof -
  have op: "op_key op \<in> set SYNCED_STORE_KEYS" "get op ''t'' = Str ''store-entry''" "get op ''key'' = Str (op_key op)" "get op ''id'' = Str (op_id op)"
    "op_key op \<noteq> []" "op_id op \<noteq> []"
    using assms(1) by (auto simp: entry_op_ok_def syncable_def SYNCED_STORE_KEYS_def)
  have ts: "sm_storeEntryTs (appliedMetaAfterOp meta op) =
      js_assign (entryTsKey (op_key op) (op_id op)) (Num (number_or (get op ''ts'') 0)) (sm_storeEntryTs meta)"
    unfolding meta_after_entry_op [OF assms(1)] using op by (simp add: meta_after_entry_def Let_def)
  have "number_or (Num (number_or v 0)) 0 = number_or v 0" for v by (simp add: number_or_def Let_def)
  then show ?thesis using entryTsKey_inj [OF assms(2) op(1), of i "op_id op"] entryTsKey_plain [OF op(1), of "op_id op"]
    by (auto simp: storeEntryAppliedTs_def ts index_def map_of_js_assign)
qed

lemma number_or_again [simp]: "n \<noteq> NaN \<Longrightarrow> number_or (Num n) 0 = n"
  by (simp add: number_or_def)

lemma pendingTs_not_NaN: "pendingTsFor outbox k \<noteq> NaN"
proof -
  have "m \<noteq> NaN \<Longrightarrow> fold (\<lambda>item m. if logicalKeyOf item = k then js_max m (number_or (get item ''ts'') 0) else m) outbox m \<noteq> NaN" for m
    by (induction outbox arbitrary: m) (auto simp: js_max_def number_or_not_NaN)
  then show ?thesis by (simp add: pendingTsFor_def)
qed

lemma should_apply:
  assumes "not_pending outbox op"
  shows "shouldApplyStoreEntry (get op ''ts'') t (pendingTsFor outbox (logicalKeyOfOp op)) \<longleftrightarrow> t = NaN \<and> \<not> js_less (number_or (get op ''ts'') 0) (Fin 0) \<or> t \<noteq> NaN \<and> \<not> js_less (number_or (get op ''ts'') 0) t"
  using assms number_or_not_NaN [of "get op ''ts''" 0]
  by (cases "t = NaN") (simp_all add: shouldApplyStoreEntry_def not_pending_def pendingTs_not_NaN js_ge_def number_or_def Let_def)

lemma store_value_update: "store_value (AList.update key v store) k = (if k = key then v else store_value store k)"
  by (simp add: store_value_def update_conv')

lemma apply_entry_register:
  assumes "sync_ok st" "entry_op_ok op" "not_pending outbox op" "key \<in> set SYNCED_STORE_KEYS"
  shows "sync_ok (fst (applyOp answer op outbox st)) \<and> entry_register (fst (applyOp answer op outbox st)) key i =
     (if key = op_key op \<and> i = op_id op then last_writer op (entry_register st key i) else entry_register st key i)"
proof -
  let ?k = "op_key op" and ?i = "op_id op" and ?t = "storeEntryAppliedTs (ss_meta st) (op_key op) (op_id op)"
  have op: "?k \<in> set SYNCED_STORE_KEYS" "get op ''t'' = Str ''store-entry''" "get op ''key'' = Str ?k" "get op ''id'' = Str ?i" "?k \<noteq> ''contacts''"
    "syncable ?k ?i" "?i \<noteq> []" "patch_ok ?k ?i op" using assms(2) by (auto simp: entry_op_ok_def syncable_def)
  have t: "?t \<noteq> NaN" by (simp add: storeEntryAppliedTs_def number_or_not_NaN)
  have "applyOp answer op outbox st = (let r = apply_entry_op op outbox st in (fst r, snd r, []))" using op(2) by (simp add: applyOp_def Let_def case_prod_unfold)
  then have a: "fst (applyOp answer op outbox st) =
      (if js_less (number_or (get op ''ts'') 0) ?t then st
       else \<lparr>ss_store = AList.update ?k (applyStoreEntryToValue ?k (store_value (ss_store st) ?k) (Str ?i) op) (ss_store st),
              ss_meta = appliedMetaAfterOp (ss_meta st) op\<rparr>)"
    using op(1-4,7) should_apply [OF assms(3), of ?t] t by (simp add: apply_entry_op_def Let_def synced_key_def)
  have "store_ok ?k (store_value (ss_store st) ?k)" using assms(1) op by (simp add: sync_ok_def)
  note step = apply_entry [OF this op(5,6,8)]
  show ?thesis
  proof (cases "js_less (number_or (get op ''ts'') 0) ?t")
    case True
    then show ?thesis using a assms(1) by (auto simp: last_writer_def entry_register_def)
  next
    case False
    then have "sync_ok (fst (applyOp answer op outbox st))" using a assms(1) step(2) by (auto simp: sync_ok_def store_value_update)
    moreover have "entry_register (fst (applyOp answer op outbox st)) key i =
      (if key = ?k \<and> i = ?i then last_writer op (entry_register st key i) else entry_register st key i)"
      using a False step(1) applied_ts_after [OF assms(2,4)]
      by (auto simp: entry_register_def store_value_update last_writer_def op_new_def)
    ultimately show ?thesis by blast
  qed
qed

text \<open>
  The operations a device may receive besides whole stores: an operation on one entry, one on a contact (it touches
  nothing but the contacts), or one on messages and chats.
\<close>

definition writes :: "string \<Rightarrow> string \<Rightarrow> jsv \<Rightarrow> bool" where
  "writes key i op \<longleftrightarrow> get op ''t'' = Str ''store-entry'' \<and> op_key op = key \<and> op_id op = i"

definition remote_op_ok :: "jsv \<Rightarrow> bool" where
  "remote_op_ok op \<longleftrightarrow> get op ''t'' \<noteq> Str ''store'' \<and>
     (get op ''t'' = Str ''store-entry'' \<longrightarrow> get op ''key'' = Str ''contacts'' \<or> entry_op_ok op)"

lemma apply_entry_pending:
  assumes "sync_ok st" "entry_op_ok op" "key \<noteq> op_key op \<or> i \<noteq> op_id op" "key \<in> set SYNCED_STORE_KEYS"
  shows "sync_ok (fst (applyOp answer op outbox st)) \<and> entry_register (fst (applyOp answer op outbox st)) key i = entry_register st key i"
proof (cases "not_pending outbox op")
  case True
  then show ?thesis using apply_entry_register [OF assms(1,2) True assms(4), of answer i] assms(3) by auto
next
  case False
  then have "fst (applyOp answer op outbox st) = st"
    using assms(2) pendingTs_not_NaN [of outbox "logicalKeyOfOp op"]
    by (simp add: entry_op_ok_def applyOp_def apply_entry_op_def shouldApplyStoreEntry_def not_pending_def Let_def case_prod_unfold)
  then show ?thesis using assms(1) by simp
qed

lemma apply_contact_op:
  assumes "sync_ok st" "get op ''t'' = Str ''store-entry''" "get op ''key'' = Str ''contacts''" "key \<in> set SYNCED_STORE_KEYS" "key \<noteq> ''contacts''"
  shows "sync_ok (fst (applyOp answer op outbox st)) \<and> entry_register (fst (applyOp answer op outbox st)) key i = entry_register st key i"
proof -
  have contacts: "''contacts'' \<in> set SYNCED_STORE_KEYS" by (simp add: SYNCED_STORE_KEYS_def)
  have "storeEntryAppliedTs (appliedMetaAfterOp (ss_meta st) op) key i = storeEntryAppliedTs (ss_meta st) key i"
    using assms(2,3,5) entryTsKey_inj [OF assms(4) contacts, of i] entryTsKey_plain [OF contacts]
    by (simp add: appliedMetaAfterOp_def meta_after_store_def meta_after_entry_def meta_after_chat_del_def meta_after_msg_def
        storeEntryAppliedTs_def index_def map_of_js_assign Let_def)
  then show ?thesis using assms
    by (auto simp: applyOp_def apply_entry_op_def Let_def sync_ok_def entry_register_def store_value_update)
qed

lemma apply_other_op:
  assumes "sync_ok st" "get op ''t'' \<noteq> Str ''store-entry''" "get op ''t'' \<noteq> Str ''store''"
  shows "sync_ok (fst (applyOp answer op outbox st)) \<and> entry_register (fst (applyOp answer op outbox st)) key i = entry_register st key i"
proof -
  have "sm_storeEntryTs (appliedMetaAfterOp m op) = sm_storeEntryTs m" for m
    using assms(2,3) by (simp add: appliedMetaAfterOp_def meta_after_store_def meta_after_entry_def meta_after_chat_del_def meta_after_msg_def Let_def)
  then show ?thesis using assms by (auto simp: applyOp_def Let_def sync_ok_def entry_register_def storeEntryAppliedTs_def)
qed

lemma apply_op_register:
  assumes "sync_ok st" "remote_op_ok op" "writes key i op \<longrightarrow> not_pending outbox op" "key \<in> set SYNCED_STORE_KEYS" "key \<noteq> ''contacts''"
  shows "sync_ok (fst (applyOp answer op outbox st)) \<and> entry_register (fst (applyOp answer op outbox st)) key i =
     (if writes key i op then last_writer op (entry_register st key i) else entry_register st key i)"
proof (cases "get op ''t'' = Str ''store-entry''")
  case True
  then consider "get op ''key'' = Str ''contacts''" | "entry_op_ok op" using assms(2) by (auto simp: remote_op_ok_def)
  then show ?thesis
  proof cases
    case 1
    then show ?thesis using apply_contact_op [OF assms(1) True 1 assms(4,5)] assms(5) by (simp add: writes_def op_key_def)
  next
    case 2
    show ?thesis
    proof (cases "writes key i op")
      case w: True
      then show ?thesis using apply_entry_register [OF assms(1) 2 _ assms(4)] assms(3) by (simp add: writes_def)
    next
      case False
      then show ?thesis using apply_entry_pending [OF assms(1) 2 _ assms(4)] True by (auto simp: writes_def)
    qed
  qed
next
  case False
  then show ?thesis using apply_other_op [OF assms(1) False] assms(2) by (simp add: writes_def remote_op_ok_def)
qed

definition apply_ops :: "jsv list \<Rightarrow> (jsv \<times> jsv) list \<Rightarrow> sync_state \<Rightarrow> sync_state" where
  "apply_ops outbox ops st = fold (\<lambda>(op, answer) st. fst (applyOp answer op outbox st)) ops st"

lemma apply_ops_register:
  assumes "sync_ok st" "list_all remote_op_ok (map fst ops)" "\<forall>op \<in> set (map fst ops). writes key i op \<longrightarrow> not_pending outbox op"
    and "key \<in> set SYNCED_STORE_KEYS" "key \<noteq> ''contacts''"
  shows "entry_register (apply_ops outbox ops st) key i = fold last_writer (filter (writes key i) (map fst ops)) (entry_register st key i)"
  using assms(1-3)
proof (induction ops arbitrary: st)
  case (Cons oa ops)
  obtain op answer where oa: "oa = (op, answer)" by (cases oa)
  note step = apply_op_register [of st op key i outbox answer]
  show ?case using Cons step assms(4,5) by (auto simp: apply_ops_def oa)
qed (simp add: apply_ops_def)

text \<open>
  C12. Devices converge on an entry of a synced store, up to four exclusions the statement names. Two devices that have the
  same entry and receive the same operations (of all kinds: on this entry, on others, on contacts, messages and chats), each in its own order
  and interleaved with whatever the message store answers, have the same entry afterwards, with the same time stamp.
  Excluded are entries of \<open>contacts\<close> (its operations merge identities), streams with whole-store operations (\<open>t = 'store'\<close>), two
  different operations on this entry with the same time stamp, of which the later one to arrive wins (\<open>ties_follow_the_order\<close>), and
  a device whose outbox holds a newer change of this entry, which keeps its own.
\<close>

theorem devices_converge:
  assumes "sync_ok a" "sync_ok b" "mset (map fst opsA) = mset (map fst opsB)" "list_all remote_op_ok (map fst opsA)"
    and "key \<in> set SYNCED_STORE_KEYS" "key \<noteq> ''contacts''" "entry_register a key i = entry_register b key i"
    and "\<forall>x \<in> set (map fst opsA). writes key i x \<longrightarrow> not_pending outboxA x \<and> not_pending outboxB x"
    and "\<forall>x \<in> set (map fst opsA). \<forall>y \<in> set (map fst opsA).
      writes key i x \<and> writes key i y \<and> number_or (get x ''ts'') 0 = number_or (get y ''ts'') 0 \<longrightarrow> x = y"
  shows "entry_register (apply_ops outboxA opsA a) key i = entry_register (apply_ops outboxB opsB b) key i"
proof -
  have set: "set (map fst opsB) = set (map fst opsA)" using assms(3) mset_eq_setD by metis
  have "list_all remote_op_ok (map fst opsB)" using assms(4) set by (simp add: list_all_iff)
  then have b: "entry_register (apply_ops outboxB opsB b) key i = fold last_writer (filter (writes key i) (map fst opsB)) (entry_register b key i)"
    using assms(8) set by (intro apply_ops_register assms(2,5,6)) simp_all
  have a: "entry_register (apply_ops outboxA opsA a) key i = fold last_writer (filter (writes key i) (map fst opsA)) (entry_register a key i)"
    using assms(8) by (intro apply_ops_register assms(1,4,5,6)) simp
  have "mset (filter (writes key i) (map fst opsA)) = mset (filter (writes key i) (map fst opsB))" using assms(3) by simp
  moreover have "last_writer x \<circ> last_writer y = last_writer y \<circ> last_writer x"
    if "x \<in> set (filter (writes key i) (map fst opsA))" "y \<in> set (filter (writes key i) (map fst opsA))" for x y
    using that assms(9) last_writer_commute [of x y] by (auto simp: fun_eq_iff)
  ultimately have "fold last_writer (filter (writes key i) (map fst opsA)) = fold last_writer (filter (writes key i) (map fst opsB))"
    by (rule fold_multiset_equiv [rotated])
  then show ?thesis using a b assms(7) by simp
qed

definition sample_op :: "jsv \<Rightarrow> int \<Rightarrow> jsv" where
  "sample_op v t = Obj [(''t'', Str ''store-entry''), (''key'', Str ''chatReadReceipts''), (''id'', Str ''peer''), (''value'', v), (''ts'', JInt t)]"

lemma sample_op_facts:
  "get (sample_op v t) ''t'' = Str ''store-entry''" "get (sample_op v t) ''key'' = Str ''chatReadReceipts''"
  "get (sample_op v t) ''id'' = Str ''peer''" "get (sample_op v t) ''ts'' = JInt t"
  by (simp_all add: sample_op_def)

lemma sample_op_ok: "entry_op_ok (sample_op v t)" "op_key (sample_op v t) = ''chatReadReceipts''" "op_id (sample_op v t) = ''peer''"
  by (simp_all add: entry_op_ok_def op_key_def op_id_def sample_op_facts SYNCED_STORE_KEYS_def syncable_def patch_ok_def ARRAY_STORE_KEYS_def)

abbreviation empty_sync :: sync_state where
  "empty_sync \<equiv> \<lparr>ss_store = [], ss_meta = emptySyncMeta\<rparr>"

lemma empty_sync_ok: "sync_ok empty_sync"
  by (simp add: sync_ok_def SYNCED_STORE_KEYS_def store_ok_def store_value_def ARRAY_STORE_KEYS_def hasOwn_def)

definition sample_chat_del :: jsv where
  "sample_chat_del = Obj [(''t'', Str ''chat-del''), (''peerId'', Str ''peer''), (''ts'', JInt 3)]"

theorem devices_converge_witness:
  "entry_register (apply_ops [] [(sample_op (JInt 5) 1, Null), (sample_chat_del, Null), (sample_op (JInt 9) 2, Null)] empty_sync) ''chatReadReceipts'' ''peer'' =
   entry_register (apply_ops [] [(sample_op (JInt 9) 2, Undef), (sample_op (JInt 5) 1, Undef), (sample_chat_del, Null)] empty_sync) ''chatReadReceipts'' ''peer''"
proof (rule devices_converge)
  let ?ops = "[(sample_op (JInt 5) 1, Null), (sample_chat_del, Null), (sample_op (JInt 9) 2, Null)]"
  show "list_all remote_op_ok (map fst ?ops)"
    by (simp add: remote_op_ok_def sample_op_ok sample_op_facts) (simp add: sample_chat_del_def)
  show "\<forall>x \<in> set (map fst ?ops). writes ''chatReadReceipts'' ''peer'' x \<longrightarrow> not_pending [] x \<and> not_pending [] x"
    by (simp add: not_pending_def pendingTsFor_def sample_op_facts number_or_def) (simp add: writes_def sample_chat_del_def)
  show "\<forall>x \<in> set (map fst ?ops). \<forall>y \<in> set (map fst ?ops). writes ''chatReadReceipts'' ''peer'' x \<and> writes ''chatReadReceipts'' ''peer'' y \<and>
      number_or (get x ''ts'') 0 = number_or (get y ''ts'') 0 \<longrightarrow> x = y"
    by (simp add: sample_op_facts number_or_def) (simp add: writes_def sample_chat_del_def)
qed (simp_all add: SYNCED_STORE_KEYS_def empty_sync_ok add_mset_commute)

text \<open>Two operations with the same time stamp: the one that arrives last stays.\<close>

lemma tie_later_wins: "snd (entry_register (apply_ops [] [(sample_op v 1, Null), (sample_op w 1, Null)] empty_sync) ''chatReadReceipts'' ''peer'') = Some w"
proof -
  have ts: "number_or (get (sample_op x 1) ''ts'') 0 = Fin 1" "op_new (sample_op x 1) = Some x" for x
    by (simp_all add: sample_op_facts number_or_def op_new_def) (simp_all add: sample_op_def)
  have "snd (last_writer (sample_op w 1) (last_writer (sample_op v 1) r)) = Some w" if "fst r = Fin 0" for r
    using that by (simp add: last_writer_def ts js_less_def)
  moreover have "fst (entry_register empty_sync ''chatReadReceipts'' ''peer'') = Fin 0"
    by (simp add: entry_register_def storeEntryAppliedTs_def emptySyncMeta_def index_def entryTsKey_def number_or_def object_prototype_def)
  moreover have "not_pending [] (sample_op x 1)" for x by (simp add: not_pending_def pendingTsFor_def ts js_less_def)
  ultimately show ?thesis
    using apply_ops_register [OF empty_sync_ok, of "[(sample_op v 1, Null), (sample_op w 1, Null)]" "''chatReadReceipts''" "''peer''" "[]"]
    by (simp add: remote_op_ok_def sample_op_ok sample_op_facts(1) writes_def SYNCED_STORE_KEYS_def)
qed

lemma ties_follow_the_order:
  "snd (entry_register (apply_ops [] [(sample_op (JInt 5) 1, Null), (sample_op (JInt 9) 1, Null)] empty_sync) ''chatReadReceipts'' ''peer'') = Some (JInt 9)"
  "snd (entry_register (apply_ops [] [(sample_op (JInt 9) 1, Null), (sample_op (JInt 5) 1, Null)] empty_sync) ''chatReadReceipts'' ''peer'') = Some (JInt 5)"
  by (rule tie_later_wins)+

section \<open>A push sends every change once\<close>

lemma sealed_fits: "sealed_of env c = Some item \<Longrightarrow> push_body [item] \<le> PUSH_BODY_MAX_BYTES - PUSH_BODY_SAFETY"
  using single_request_ok [OF sealed_of_small] by (auto simp: request_ok_def)

lemma remove_middle:
  assumes "distinct (map sent_mark (xs @ ys @ zs))"
  shows "removeSentFromOutbox (xs @ ys @ zs) ys = xs @ zs"
proof -
  have "sent_mark ` set xs \<inter> sent_mark ` set ys = {}" "sent_mark ` set ys \<inter> sent_mark ` set zs = {}"
    using assms by auto
  then have "\<forall>x \<in> set xs \<union> set zs. sent_mark x \<notin> set (map sent_mark ys)" "\<forall>y \<in> set ys. sent_mark y \<in> set (map sent_mark ys)"
    by auto
  then show ?thesis by (simp add: removeSentFromOutbox_def)
qed

text \<open>
  While a batch is filled the outbox is what has been taken followed by what is to come, and the items
  to send are those taken followed by those of the rest.
\<close>

lemma fill_batch_order:
  assumes "distinct (map sent_mark (map snd batch @ cs))" "fill_batch env cs (map snd batch @ cs) batch = (outbox, batch')"
  shows "\<exists>rest. outbox = map snd batch' @ rest \<and> distinct (map sent_mark outbox) \<and>
     map fst batch' @ List.map_filter (sealed_of env) rest = map fst batch @ List.map_filter (sealed_of env) cs"
  using assms
proof (induction cs arbitrary: batch)
  case (Cons c cs)
  show ?case
  proof (rule fill_batch_cases [of env c cs "map snd batch @ c # cs" batch])
    assume d: "fill_batch env (c # cs) (map snd batch @ c # cs) batch = fill_batch env cs (removeSentFromOutbox (map snd batch @ c # cs) [c]) batch"
      "sealed_of env c = None \<or> (\<exists>item. sealed_of env c = Some item \<and> push_body [item] > PUSH_BODY_MAX_BYTES - PUSH_BODY_SAFETY)"
    then have none: "sealed_of env c = None" using sealed_fits by fastforce
    have "removeSentFromOutbox (map snd batch @ [c] @ cs) [c] = map snd batch @ cs" using Cons.prems(1) by (intro remove_middle) simp
    moreover have "distinct (map sent_mark (map snd batch @ cs))" using Cons.prems(1) by simp
    ultimately show ?thesis using Cons.IH [of batch] Cons.prems(2) d(1) none by (simp add: map_filter_simps)
  next
    fix item assume "fill_batch env (c # cs) (map snd batch @ c # cs) batch = fill_batch env cs (map snd batch @ c # cs) (batch @ [(item, c)])"
      "sealed_of env c = Some item"
    then show ?thesis using Cons.IH [of "batch @ [(item, c)]"] Cons.prems by (simp add: map_filter_simps)
  qed (use Cons.prems in \<open>auto simp: map_filter_simps\<close>)
qed (auto simp: map_filter_simps simp del: map_map)

definition accepts_all :: "'s push_env \<Rightarrow> bool" where
  "accepts_all env \<longleftrightarrow> (\<forall>s items. snd (pe_push env s items) = Pushed)"

lemma push_turn_order:
  assumes "accepts_all env" "distinct (map sent_mark (ps_outbox st))" "push_turn env st = (st', None, again)"
  shows "distinct (map sent_mark (ps_outbox st')) \<and> (\<exists>items. concat (ps_requests st') = concat (ps_requests st) @ items \<and>
     items @ List.map_filter (sealed_of env) (ps_outbox st') = List.map_filter (sealed_of env) (ps_outbox st))"
proof -
  obtain outbox batch where fb: "fill_batch env (ps_outbox st) (ps_outbox st) [] = (outbox, batch)"
    by (cases "fill_batch env (ps_outbox st) (ps_outbox st) []")
  then obtain rest where rest: "outbox = map snd batch @ rest" "distinct (map sent_mark outbox)"
      "map fst batch @ List.map_filter (sealed_of env) rest = List.map_filter (sealed_of env) (ps_outbox st)"
    using fill_batch_order [of "[]" "ps_outbox st" env outbox batch] assms(2) by auto
  show ?thesis
  proof (cases "batch = []")
    case True
    then have "ps_outbox st' = rest" "ps_requests st' = ps_requests st" using assms(3) fb rest(1) by (auto simp: push_turn_def)
    then show ?thesis using rest True by simp
  next
    case False
    have "removeSentFromOutbox outbox (map snd batch) = rest" using remove_middle [of "[]" "map snd batch" rest] rest by simp
    then have "ps_outbox st' = rest" "ps_requests st' = ps_requests st @ [map fst batch]"
      using assms(1,3) fb False
      by (auto simp: push_turn_def pushPrepared_def push_request_def remove_sent_def accepts_all_def Let_def case_prod_unfold)
    then show ?thesis using rest by simp
  qed
qed

text \<open>
  With a server that accepts, a push sends the sealed items of the changes in the outbox, each once
  and in their order, however they are cut into requests; a change is left out only when there is
  nothing to send for it or its item is above the limit.
\<close>

theorem push_sends_each_once:
  assumes "accepts_all env" "distinct (map sent_mark (ps_outbox st))" "ps_requests st = []"
  shows "concat (ps_requests (fst (pushOutbox env st))) = List.map_filter (sealed_of env) (ps_outbox st)"
proof -
  have ok: "never_fails env" using assms(1) by (simp add: never_fails_def accepts_all_def)
  have "concat (ps_requests (fst (pushOutbox env st))) = concat (ps_requests st) @ List.map_filter (sealed_of env) (ps_outbox st)"
    using assms(2)
  proof (induction "length (ps_outbox st)" arbitrary: st rule: less_induct)
    case less
    obtain st' e where r: "pushOutbox env st = (st', e)" by (cases "pushOutbox env st")
    show ?case
    proof (rule pushOutbox_cases [OF r])
      fix kind st1 again assume "push_turn env st = (st1, Some kind, again)"
      then show ?thesis using push_turn_ok [OF ok] by fastforce
    next
      fix st1 assume st1: "push_turn env st = (st1, None, True)" "length (ps_outbox st1) < length (ps_outbox st)" "pushOutbox env st1 = (st', e)"
      obtain items where "distinct (map sent_mark (ps_outbox st1))" "concat (ps_requests st1) = concat (ps_requests st) @ items"
          "items @ List.map_filter (sealed_of env) (ps_outbox st1) = List.map_filter (sealed_of env) (ps_outbox st)"
        using push_turn_order [OF assms(1) less(2) st1(1)] by blast
      then show ?thesis using less(1) [OF st1(2)] r st1(3) by simp
    qed (use r in \<open>simp add: map_filter_simps\<close>)
  qed
  then show ?thesis using assms(3) by simp
qed

theorem push_sends_each_once_witness:
  "concat (ps_requests (fst (pushOutbox (sample_env\<lparr>pe_push := \<lambda>n items. (n, Pushed)\<rparr>) sample_push))) =
     List.map_filter (sealed_of (sample_env\<lparr>pe_push := \<lambda>n items. (n, Pushed)\<rparr>)) (ps_outbox sample_push)"
proof (rule push_sends_each_once)
  show "distinct (map sent_mark (ps_outbox sample_push))"
    by (simp add: sample_push_def sent_mark_def logicalKeyOf_def)
qed (simp_all add: accepts_all_def sample_push_def)

end
