(* ===== verification/Realtime_Text.thy ===== *)
theory Realtime_Text
  imports JS_Values
begin

text \<open>
  The text operations of \<open>src/shared/plugin-realtime.mjs\<close>: applying an operation to a text, normalising one
  that a peer sent, and transforming an operation past another one that was applied first. Positions
  and lengths are JavaScript numbers, since a peer may send any.
\<close>

section \<open>Numbers\<close>

definition js_add :: "jsnum \<Rightarrow> jsnum \<Rightarrow> jsnum" where
  "js_add a b = (case (a, b) of
     (NaN, _) \<Rightarrow> NaN | (_, NaN) \<Rightarrow> NaN | (Fin x, Fin y) \<Rightarrow> Fin (x + y)
   | (PosInf, NegInf) \<Rightarrow> NaN | (NegInf, PosInf) \<Rightarrow> NaN
   | (PosInf, _) \<Rightarrow> PosInf | (_, PosInf) \<Rightarrow> PosInf | (NegInf, _) \<Rightarrow> NegInf | (_, NegInf) \<Rightarrow> NegInf)"

definition js_neg :: "jsnum \<Rightarrow> jsnum" where
  "js_neg a = (case a of NaN \<Rightarrow> NaN | PosInf \<Rightarrow> NegInf | NegInf \<Rightarrow> PosInf | Fin x \<Rightarrow> Fin (- x))"

definition js_sub :: "jsnum \<Rightarrow> jsnum \<Rightarrow> jsnum" where
  "js_sub a b = js_add a (js_neg b)"

definition js_le :: "jsnum \<Rightarrow> jsnum \<Rightarrow> bool" where
  "js_le a b \<longleftrightarrow> js_less a b \<or> (a = b \<and> a \<noteq> NaN)"

definition js_floor :: "jsnum \<Rightarrow> jsnum" where
  "js_floor a = (case a of Fin x \<Rightarrow> Fin (of_int \<lfloor>x\<rfloor>) | _ \<Rightarrow> a)"

text \<open>\<open>Math.max(0, n)\<close> and \<open>Math.min(n, k)\<close> where \<open>n\<close> is not \<open>NaN\<close>.\<close>

definition at_least_0 :: "jsnum \<Rightarrow> jsnum" where
  "at_least_0 n = js_max (Fin 0) n"

definition at_most :: "jsnum \<Rightarrow> nat \<Rightarrow> jsnum" where
  "at_most n k = (if js_less n (Fin (of_nat k)) then n else Fin (of_nat k))"

text \<open>\<open>s.slice(0, n)\<close> and \<open>s.slice(n)\<close> for \<open>n\<close> not negative: the number is truncated.\<close>

definition slice_to :: "string \<Rightarrow> jsnum \<Rightarrow> string" where
  "slice_to s n = (case n of Fin r \<Rightarrow> take (nat \<lfloor>r\<rfloor>) s | PosInf \<Rightarrow> s | _ \<Rightarrow> [])"

definition slice_from :: "string \<Rightarrow> jsnum \<Rightarrow> string" where
  "slice_from s n = (case n of Fin r \<Rightarrow> drop (nat \<lfloor>r\<rfloor>) s | PosInf \<Rightarrow> [] | _ \<Rightarrow> s)"

lemma js_arith [simp]:
  "js_add (Fin x) (Fin y) = Fin (x + y)" "js_sub (Fin x) (Fin y) = Fin (x - y)" "js_le (Fin x) (Fin y) = (x \<le> y)"
  "js_floor (Fin x) = Fin (of_int \<lfloor>x\<rfloor>)" "at_least_0 (Fin x) = Fin (max 0 x)" "at_most (Fin x) k = Fin (min x (of_nat k))"
  by (auto simp: js_add_def js_sub_def js_neg_def js_le_def js_floor_def at_least_0_def at_most_def js_max_def)

lemma slice_Fin [simp]: "slice_to s (Fin (of_nat n)) = take n s" "slice_from s (Fin (of_nat n)) = drop n s"
  by (simp_all add: slice_to_def slice_from_def)

section \<open>Operations on a text\<close>

definition applyTextOp :: "jsv \<Rightarrow> jsv \<Rightarrow> string" where
  "applyTextOp state op =
     (let text = js_String (js_coalesce state (Str []));
          pos = at_least_0 (at_most (number_or (get op ''pos'') 0) (length text))
      in if get op ''type'' = Str ''insert'' then
           slice_to text pos @ js_String (js_coalesce (get op ''text'') (Str [])) @ slice_from text pos
         else if get op ''type'' = Str ''delete'' then
           slice_to text pos @ slice_from text (js_add pos (at_least_0 (number_or (get op ''len'') 0)))
         else if get op ''type'' = Str ''replace'' then js_String (js_coalesce (get op ''value'') (Str []))
         else text)"

datatype text_op = Insert jsnum string | Delete jsnum jsnum

definition text_op_obj :: "text_op \<Rightarrow> jsv" where
  "text_op_obj op = (case op of
     Insert p t \<Rightarrow> Obj [(''type'', Str ''insert''), (''pos'', Num p), (''text'', Str t)]
   | Delete p n \<Rightarrow> Obj [(''type'', Str ''delete''), (''pos'', Num p), (''len'', Num n)])"

definition norm_num :: "jsv \<Rightarrow> jsnum" where
  "norm_num v = at_least_0 (js_floor (number_or v 0))"

definition normalizeTextOp :: "jsv \<Rightarrow> text_op option" where
  "normalizeTextOp op =
     (if \<not> js_Boolean op \<or> \<not> is_object op then None
      else if get op ''type'' = Str ''insert'' then
        Some (Insert (norm_num (get op ''pos'')) (js_String (js_coalesce (get op ''text'') (Str []))))
      else if get op ''type'' = Str ''delete'' then Some (Delete (norm_num (get op ''pos'')) (norm_num (get op ''len'')))
      else None)"

fun transform_op :: "text_op \<Rightarrow> text_op \<Rightarrow> text_op option" where
  "transform_op (Insert p t) (Insert q u) = Some (if js_le q p then Insert (js_add p (Fin (of_nat (length u)))) t else Insert p t)"
| "transform_op (Delete p n) (Insert q u) =
     (if js_le q p then Some (Delete (js_add p (Fin (of_nat (length u)))) n)
      else if js_le (js_add p n) q then Some (Delete p n) else None)"
| "transform_op (Insert p t) (Delete q m) =
     (if js_le p q then Some (Insert p t)
      else if js_le (js_add q m) p then Some (Insert (js_sub p m) t) else None)"
| "transform_op (Delete p n) (Delete q m) =
     (if js_le (js_add p n) q then Some (Delete p n)
      else if js_le (js_add q m) p then Some (Delete (js_sub p m) n) else None)"

definition transformTextOp :: "jsv \<Rightarrow> jsv \<Rightarrow> text_op option" where
  "transformTextOp op against =
     (case (normalizeTextOp op, normalizeTextOp against) of
        (Some mine, Some other) \<Rightarrow> transform_op mine other | _ \<Rightarrow> None)"

section \<open>Operations that fit a text\<close>

definition jn :: "nat \<Rightarrow> jsnum" where
  "jn n = Fin (of_nat n)"

fun fits :: "text_op \<Rightarrow> nat \<Rightarrow> bool" where
  "fits (Insert p t) k = (\<exists>i. p = jn i \<and> i \<le> k)"
| "fits (Delete p n) k = (\<exists>i m. p = jn i \<and> n = jn m \<and> i + m \<le> k)"

definition run_op :: "text_op \<Rightarrow> string \<Rightarrow> string" where
  "run_op op s = applyTextOp (Str s) (text_op_obj op)"

lemma jn_simps [simp]:
  "js_add (jn a) (jn b) = jn (a + b)" "js_le (jn a) (jn b) = (a \<le> b)" "js_less (jn a) (jn b) = (a < b)"
  "b \<le> a \<Longrightarrow> js_sub (jn a) (jn b) = jn (a - b)" "jn a = jn b \<longleftrightarrow> a = b"
  by (simp_all add: jn_def of_nat_diff)

lemma jn_read [simp]:
  "number_or (Num (jn i)) 0 = jn i" "at_least_0 (jn i) = jn i" "at_most (jn i) k = jn (min i k)" "js_floor (jn i) = jn i"
  "slice_to s (jn i) = take i s" "slice_from s (jn i) = drop i s"
  by (simp_all add: jn_def number_or_def Let_def min_def)

lemma run_insert: "i \<le> length s \<Longrightarrow> run_op (Insert (jn i) t) s = take i s @ t @ drop i s"
  by (simp add: run_op_def applyTextOp_def text_op_obj_def js_coalesce_def Let_def)

lemma run_delete: "i \<le> length s \<Longrightarrow> run_op (Delete (jn i) (jn m)) s = take i s @ drop (i + m) s"
  by (simp add: run_op_def applyTextOp_def text_op_obj_def js_coalesce_def Let_def)

lemma normalize_text_op_obj: "fits op k \<Longrightarrow> normalizeTextOp (text_op_obj op) = Some op"
  by (cases op) (auto simp: normalizeTextOp_def text_op_obj_def norm_num_def js_coalesce_def is_object_def)

text \<open>The same on a text cut where the operation works.\<close>

lemma run_cut:
  "i = length x \<Longrightarrow> run_op (Insert (jn i) t) (x @ y) = x @ t @ y"
  "i = length x \<Longrightarrow> n = length y \<Longrightarrow> run_op (Delete (jn i) (jn n)) (x @ y @ z) = x @ z"
  by (simp_all add: run_insert run_delete)

lemma cut2:
  assumes "p \<le> q" "q \<le> length s"
  obtains x y z where "s = x @ y @ z" "length x = p" "length y = q - p"
  using that [of "take p s" "take (q - p) (drop p s)" "drop q s"] assms by (simp flip: append_assoc take_add)

lemma cut4:
  assumes "p + n \<le> q" "q + m \<le> length s"
  obtains x d y e z where "s = x @ d @ y @ e @ z" "length x = p" "length d = n" "length y = q - (p + n)" "length e = m"
proof -
  obtain x w z where 1: "s = x @ w @ z" "length x = p" "length w = q + m - p" using cut2 [of p "q + m" s] assms by auto
  have "n \<le> q - p" "q - p \<le> length w" using assms 1(3) by auto
  then obtain d v u where 2: "w = d @ v @ u" "length d = n" "length v = q - p - n" by (rule cut2)
  have "length u = m" using 1 2 assms by auto
  then show ?thesis using that [of x d v u z] 1 2 by simp
qed

section \<open>Transforming commutes with applying\<close>

text \<open>
  Two operations clash when a deletion covers the place where the other inserts, or when two deletions
  overlap. \<open>transform_under\<close> is the other half of the square: it moves the operation that was applied
  first past the one that came later, and leaves it in front where both insert at one place.
\<close>

fun clash :: "text_op \<Rightarrow> text_op \<Rightarrow> bool" where
  "clash (Insert p t) (Insert q u) = False"
| "clash (Delete p n) (Insert q u) = (js_less p q \<and> js_less q (js_add p n))"
| "clash (Insert p t) (Delete q m) = (js_less q p \<and> js_less p (js_add q m))"
| "clash (Delete p n) (Delete q m) = (js_less q (js_add p n) \<and> js_less p (js_add q m))"

fun transform_under :: "text_op \<Rightarrow> text_op \<Rightarrow> text_op option" where
  "transform_under (Insert p t) (Insert q u) = Some (if js_less q p then Insert (js_add p (Fin (of_nat (length u)))) t else Insert p t)"
| "transform_under a b = transform_op a b"

lemma Fin_of_nat: "Fin (of_nat n) = jn n"
  by (simp add: jn_def)

lemma transform_clash:
  "fits a k \<Longrightarrow> fits b k \<Longrightarrow> (transform_op a b = None \<longleftrightarrow> clash a b) \<and> (transform_under b a = None \<longleftrightarrow> clash a b)"
  by (cases a; cases b) auto

definition square :: "text_op \<Rightarrow> text_op \<Rightarrow> string \<Rightarrow> bool" where
  "square a b s \<longleftrightarrow> (\<forall>a' b'. transform_op a b = Some a' \<longrightarrow> transform_under b a = Some b' \<longrightarrow>
     run_op a' (run_op b s) = run_op b' (run_op a s) \<and> fits a' (length (run_op b s)) \<and> fits b' (length (run_op a s)))"

lemma square_insert_insert:
  assumes "p \<le> length s" "q \<le> length s"
  shows "square (Insert (jn p) t) (Insert (jn q) u) s"
proof (cases "q \<le> p")
  case True
  then obtain x y z where s: "s = x @ y @ z" "length x = q" "length y = p - q" using cut2 [of q p s] assms by auto
  have "run_op (Insert (jn q) u) s = x @ u @ y @ z" "run_op (Insert (jn p) t) s = (x @ y) @ t @ z"
    using s True run_cut(1) [of q x u "y @ z"] run_cut(1) [of p "x @ y" t z] by simp_all
  moreover have "run_op (Insert (jn (p + length u)) t) ((x @ u @ y) @ z) = (x @ u @ y) @ t @ z"
    "run_op (Insert (jn q) u) (x @ y @ t @ z) = x @ u @ y @ t @ z"
    using s True by (intro run_cut(1); simp)+
  ultimately show ?thesis using s True by (auto simp: square_def Fin_of_nat)
next
  case False
  then obtain x y z where s: "s = x @ y @ z" "length x = p" "length y = q - p" using cut2 [of p q s] assms by auto
  have "run_op (Insert (jn q) u) s = (x @ y) @ u @ z" "run_op (Insert (jn p) t) s = x @ t @ y @ z"
    using s False run_cut(1) [of q "x @ y" u z] run_cut(1) [of p x t "y @ z"] by simp_all
  moreover have "run_op (Insert (jn p) t) (x @ y @ u @ z) = x @ t @ y @ u @ z"
    "run_op (Insert (jn (q + length t)) u) ((x @ t @ y) @ z) = (x @ t @ y) @ u @ z"
    using s False by (intro run_cut(1); simp)+
  ultimately show ?thesis using s False by (auto simp: square_def Fin_of_nat)
qed

lemma square_delete_insert:
  assumes "p + n \<le> length s" "q \<le> length s"
  shows "square (Delete (jn p) (jn n)) (Insert (jn q) u) s \<and> square (Insert (jn q) u) (Delete (jn p) (jn n)) s"
proof -
  consider "q \<le> p" | "p + n \<le> q" "p < q" | "p < q" "q < p + n" by linarith
  then show ?thesis
  proof cases
    case 1
    then obtain x y d z where s: "s = x @ y @ d @ z" "length x = q" "length y = p - q" "length d = n"
      using cut4 [of q 0 p n s] assms by (metis add.right_neutral append_Nil length_0_conv)
    have "run_op (Insert (jn q) u) s = x @ u @ y @ d @ z" "run_op (Delete (jn p) (jn n)) s = (x @ y) @ z"
      using s 1 run_cut(1) [of q x u "y @ d @ z"] run_cut(2) [of p "x @ y" n d z] by simp_all
    moreover have "run_op (Delete (jn (p + length u)) (jn n)) ((x @ u @ y) @ d @ z) = (x @ u @ y) @ z"
      "run_op (Insert (jn q) u) (x @ y @ z) = x @ u @ y @ z"
      using s 1 by (intro run_cut; simp)+
    ultimately show ?thesis using s 1 assms by (auto simp: square_def Fin_of_nat)
  next
    case 2
    then obtain x d y z where s: "s = x @ d @ y @ z" "length x = p" "length d = n" "length y = q - (p + n)"
      using cut4 [of p n q 0 s] assms by (metis add.right_neutral append_Nil length_0_conv)
    have "run_op (Insert (jn q) u) s = (x @ d @ y) @ u @ z" "run_op (Delete (jn p) (jn n)) s = x @ y @ z"
      using s 2 run_cut(1) [of q "x @ d @ y" u z] run_cut(2) [of p x n d "y @ z"] by simp_all
    moreover have "run_op (Delete (jn p) (jn n)) (x @ d @ y @ u @ z) = x @ y @ u @ z"
      "run_op (Insert (jn (q - n)) u) ((x @ y) @ z) = (x @ y) @ u @ z"
      using s 2 by (intro run_cut; simp)+
    ultimately show ?thesis using s 2 assms by (auto simp: square_def Fin_of_nat)
  next
    case 3
    then show ?thesis by (auto simp: square_def)
  qed
qed

lemma square_delete_delete:
  assumes "p + n \<le> length s" "q + m \<le> length s"
  shows "square (Delete (jn p) (jn n)) (Delete (jn q) (jn m)) s"
proof -
  have disjoint: "square (Delete (jn p) (jn n)) (Delete (jn q) (jn m)) s \<and> square (Delete (jn q) (jn m)) (Delete (jn p) (jn n)) s"
    if pq: "p + n \<le> q" "q + m \<le> length s" for p n q m
  proof -
    obtain x d y e z where s: "s = x @ d @ y @ e @ z" "length x = p" "length d = n" "length y = q - (p + n)" "length e = m"
      by (rule cut4 [OF pq])
    have "run_op (Delete (jn q) (jn m)) s = (x @ d @ y) @ z" "run_op (Delete (jn p) (jn n)) s = x @ y @ e @ z"
      using s pq run_cut(2) [of q "x @ d @ y" m e z] run_cut(2) [of p x n d "y @ e @ z"] by simp_all
    moreover have "run_op (Delete (jn p) (jn n)) (x @ d @ y @ z) = x @ y @ z"
      "run_op (Delete (jn (q - n)) (jn m)) ((x @ y) @ e @ z) = (x @ y) @ z"
      using s pq by (intro run_cut; simp)+
    ultimately show ?thesis using s pq by (cases "q + m \<le> p") (auto simp: square_def run_delete)
  qed
  consider "p + n \<le> q" | "q + m \<le> p" | "q < p + n" "p < q + m" by linarith
  then show ?thesis
  proof cases
    case 1
    then show ?thesis using disjoint assms by blast
  next
    case 2
    then show ?thesis using disjoint assms by blast
  next
    case 3
    then show ?thesis by (simp add: square_def)
  qed
qed

lemma transform_square: "fits a (length s) \<Longrightarrow> fits b (length s) \<Longrightarrow> square a b s"
  using square_insert_insert square_delete_insert square_delete_delete by (cases a; cases b) auto

text \<open>
  C21. Transforming an operation past one that was applied first is a correct operational transform: when
  the two fit a text, transforming fails exactly when they touch the same place, and otherwise applying
  the transformed operation after the other gives the text that the two give in the other order.
\<close>

theorem transform_commutes:
  assumes "fits a (length s)" "fits b (length s)"
  shows "if clash a b then transformTextOp (text_op_obj a) (text_op_obj b) = None
    else \<exists>a' b'. transformTextOp (text_op_obj a) (text_op_obj b) = Some a' \<and> transform_under b a = Some b' \<and>
      run_op a' (run_op b s) = run_op b' (run_op a s)"
proof -
  have t: "transformTextOp (text_op_obj a) (text_op_obj b) = transform_op a b"
    using normalize_text_op_obj [OF assms(1)] normalize_text_op_obj [OF assms(2)] by (simp add: transformTextOp_def)
  show ?thesis using transform_clash [OF assms] transform_square [OF assms] unfolding t by (auto simp: square_def)
qed

theorem transform_commutes_witness:
  "\<exists>a' b'. transformTextOp (text_op_obj (Delete (jn 1) (jn 2))) (text_op_obj (Insert (jn 0) ''xy'')) = Some a' \<and>
     transform_under (Insert (jn 0) ''xy'') (Delete (jn 1) (jn 2)) = Some b' \<and>
     run_op a' (run_op (Insert (jn 0) ''xy'') ''abcd'') = run_op b' (run_op (Delete (jn 1) (jn 2)) ''abcd'')"
  using transform_commutes [of "Delete (jn 1) (jn 2)" "''abcd''" "Insert (jn 0) ''xy''"] by simp

section \<open>Transforming past a history\<close>

fun past :: "text_op \<Rightarrow> text_op list \<Rightarrow> (text_op \<times> text_op list) option" where
  "past a [] = Some (a, [])"
| "past a (t # ts) =
     (case (transform_op a t, transform_under t a) of
        (Some a', Some t') \<Rightarrow> map_option (\<lambda>(a'', ts'). (a'', t' # ts')) (past a' ts)
      | _ \<Rightarrow> None)"

fun all_fit :: "text_op list \<Rightarrow> string \<Rightarrow> bool" where
  "all_fit [] s = True"
| "all_fit (t # ts) s = (fits t (length s) \<and> all_fit ts (run_op t s))"

lemma past_square:
  "fits a (length s) \<Longrightarrow> all_fit ts s \<Longrightarrow> past a ts = Some (a', ts') \<Longrightarrow>
     run_op a' (fold run_op ts s) = fold run_op ts' (run_op a s) \<and> fits a' (length (fold run_op ts s)) \<and> length ts' = length ts"
proof (induction ts arbitrary: a s ts')
  case (Cons t ts)
  obtain b t' us where b: "transform_op a t = Some b" "transform_under t a = Some t'" "past b ts = Some (a', us)" "ts' = t' # us"
    using Cons.prems(3) by (auto split: option.splits)
  have sq: "run_op b (run_op t s) = run_op t' (run_op a s)" "fits b (length (run_op t s))"
    using transform_square [of a s t] Cons.prems b by (auto simp: square_def)
  show ?case using Cons.IH [OF sq(2) _ b(3)] Cons.prems(2) sq(1) b(4) by simp
qed simp

lemma past_transforms:
  "fits a (length s) \<Longrightarrow> all_fit ts s \<Longrightarrow>
     foldl (\<lambda>c t. case c of None \<Rightarrow> None | Some c \<Rightarrow> transform_op c t) (Some a) ts = map_option fst (past a ts)"
proof (induction ts arbitrary: a s)
  case (Cons t ts)
  have none: "foldl (\<lambda>c t. case c of None \<Rightarrow> None | Some c \<Rightarrow> transform_op c t) None us = None" for us by (induction us) simp_all
  show ?case
  proof (cases "transform_op a t")
    case None
    then show ?thesis by (simp add: none)
  next
    case (Some b)
    then obtain t' where t': "transform_under t a = Some t'" using transform_clash [of a "length s" t] Cons.prems by (cases "transform_under t a") auto
    have "fits b (length (run_op t s))" using transform_square [of a s t] Cons.prems Some t' by (auto simp: square_def)
    then show ?thesis using Cons.IH [of b "run_op t s"] Cons.prems Some t' by (cases "past b ts") auto
  qed
qed simp

end
