(* ===== verification/Realtime_Document.thy ===== *)
theory Realtime_Document
  imports Realtime_Text
begin

text \<open>
  Shared documents of \<open>src/shared/plugin-realtime.mjs\<close>: the class \<open>SharedDocument\<close>. The host applies
  operations, transforms those based on an older revision, and tells every member the new state; the
  others forward their operations to it and follow what it tells. What a document uses of its room (the
  ids that go into an envelope, the other members, the own peer id) is the argument \<open>ctx\<close>, and what it
  sends or emits is a list of effects (\<open>SendMany\<close> stands for \<open>peer.sendMany\<close>, or for the loop of \<open>peer.send\<close>
  where the transport has no such function). Peer ids are compared as values.
\<close>

section \<open>Messages\<close>

text \<open>No caller passes the optional revision of an envelope.\<close>

definition REALTIME_KIND :: string where "REALTIME_KIND = ''plugin-realtime''"

definition buildRealtimeEnvelope :: "string \<Rightarrow> string \<Rightarrow> string \<Rightarrow> jsv \<Rightarrow> jsv" where
  "buildRealtimeEnvelope pluginId roomId wire payload =
     Obj [(''kind'', Str REALTIME_KIND),
          (''pluginRealtime'', Obj [(''pluginId'', Str pluginId), (''roomId'', Str roomId), (''wire'', Str wire), (''payload'', payload)])]"

datatype rt_effect =
    Send jsv jsv
  | SendMany "jsv list" jsv
  | Broadcast jsv
  | Emit string jsv
  | RoomEmit string jsv
  | ManagerEmit string jsv
  | ResolveJoin string bool
  | Warn string

record room_ctx =
  rc_pluginId :: string
  rc_roomId :: string
  rc_others :: "jsv list"
  rc_self :: jsv

definition sendWire :: "room_ctx \<Rightarrow> jsv \<Rightarrow> string \<Rightarrow> jsv \<Rightarrow> rt_effect list" where
  "sendWire ctx peerId wire payload =
     (if \<not> js_Boolean peerId then []
      else [Send peerId (buildRealtimeEnvelope (rc_pluginId ctx) (rc_roomId ctx) wire payload)])"

definition sendWireMany :: "room_ctx \<Rightarrow> jsv list \<Rightarrow> string \<Rightarrow> jsv \<Rightarrow> rt_effect list" where
  "sendWireMany ctx peerIds wire payload =
     (let ids = filter js_Boolean peerIds
      in if ids = [] then [] else [SendMany ids (buildRealtimeEnvelope (rc_pluginId ctx) (rc_roomId ctx) wire payload)])"

section \<open>The document\<close>

definition OP_LOG_LIMIT :: nat where "OP_LOG_LIMIT = 128"
definition SEEN_OPS_PER_PEER :: nat where "SEEN_OPS_PER_PEER = 16"

record sdoc =
  sd_docId :: string
  sd_isHost :: bool
  sd_hostPeerId :: jsv
  sd_state :: jsv
  sd_revision :: jsnum
  sd_opLog :: "(jsnum \<times> jsv) list"
  sd_seenOps :: "(jsv \<times> (string \<times> bool) list) list"

record op_meta =
  om_opId :: string
  om_replaces :: string
  om_from :: jsv

definition SharedDocument :: "string \<Rightarrow> jsv \<Rightarrow> bool \<Rightarrow> jsv \<Rightarrow> sdoc" where
  "SharedDocument docId initial isHost hostPeerId =
     \<lparr>sd_docId = docId, sd_isHost = isHost, sd_hostPeerId = hostPeerId, sd_state = initial, sd_revision = Fin 0,
      sd_opLog = [], sd_seenOps = []\<rparr>"

definition broadcastSync :: "room_ctx \<Rightarrow> sdoc \<Rightarrow> rt_effect list" where
  "broadcastSync ctx d = sendWireMany ctx (rc_others ctx) ''doc-sync''
     (Obj [(''docId'', Str (sd_docId d)), (''state'', sd_state d), (''revision'', Num (sd_revision d))])"

definition logOp :: "jsv \<Rightarrow> sdoc \<Rightarrow> sdoc" where
  "logOp op d = d\<lparr>sd_opLog := keep_last OP_LOG_LIMIT (sd_opLog d @ [(sd_revision d, op)])\<rparr>"

definition change_event :: "sdoc \<Rightarrow> string \<Rightarrow> rt_effect" where
  "change_event d origin = Emit ''change'' (Obj [(''state'', sd_state d), (''revision'', Num (sd_revision d)), (''origin'', Str origin)])"

definition setState :: "room_ctx \<Rightarrow> jsv \<Rightarrow> sdoc \<Rightarrow> bool \<times> sdoc \<times> rt_effect list" where
  "setState ctx nextState d =
     (if \<not> sd_isHost d then (False, d, [Warn ''setState ignored''])
      else let d1 = logOp (Obj [(''type'', Str ''replace'')]) (d\<lparr>sd_state := nextState, sd_revision := js_add (sd_revision d) (Fin 1)\<rparr>)
           in (True, d1, change_event d1 ''local'' # broadcastSync ctx d1))"

definition seen_of :: "sdoc \<Rightarrow> jsv \<Rightarrow> string \<Rightarrow> bool option" where
  "seen_of d from opId = (case map_of (sd_seenOps d) from of None \<Rightarrow> None | Some seen \<Rightarrow> map_of seen opId)"

definition rememberOp :: "jsv \<Rightarrow> string \<Rightarrow> bool \<Rightarrow> sdoc \<Rightarrow> sdoc" where
  "rememberOp from opId applied d =
     (if opId = [] then d
      else let seen = (case map_of (sd_seenOps d) from of None \<Rightarrow> [] | Some s \<Rightarrow> s);
               seen1 = (if map_of seen opId = None \<and> length seen \<ge> SEEN_OPS_PER_PEER then tl seen else seen)
           in d\<lparr>sd_seenOps := AList.update from (AList.update opId applied seen1) (sd_seenOps d)\<rparr>)"

definition rebaseOp :: "jsv \<Rightarrow> jsnum \<Rightarrow> sdoc \<Rightarrow> text_op option" where
  "rebaseOp op baseRevision d =
     (if js_less (sd_revision d) baseRevision then None
      else let pending = filter (\<lambda>e. js_less baseRevision (fst e)) (sd_opLog d)
           in if Fin (of_nat (length pending)) \<noteq> js_sub (sd_revision d) baseRevision then None
              else foldl (\<lambda>current e. case current of None \<Rightarrow> None | Some c \<Rightarrow> transformTextOp (text_op_obj c) (snd e))
                     (normalizeTextOp op) pending)"

definition effective_op :: "jsv \<Rightarrow> jsnum \<Rightarrow> sdoc \<Rightarrow> jsv option" where
  "effective_op op baseRevision d =
     (if baseRevision = sd_revision d then Some op
      else if is_string (sd_state d) then map_option text_op_obj (rebaseOp op baseRevision d) else None)"

definition next_state :: "jsv \<Rightarrow> jsv \<Rightarrow> jsv option" where
  "next_state state effective =
     (if is_string state \<and> js_Boolean effective \<and> is_object effective \<and> js_Boolean (get effective ''type'')
      then Some (Str (applyTextOp state effective))
      else if js_Boolean effective \<and> is_object effective \<and> get effective ''type'' = Str ''set'' then Some (get effective ''value'')
      else None)"

definition logged_op :: "jsv \<Rightarrow> jsv" where
  "logged_op effective = (case normalizeTextOp effective of Some t \<Rightarrow> text_op_obj t | None \<Rightarrow> Obj [(''type'', Str ''replace'')])"

definition apply_effective :: "room_ctx \<Rightarrow> jsv \<Rightarrow> jsnum \<Rightarrow> op_meta \<Rightarrow> sdoc \<Rightarrow> bool \<times> sdoc \<times> rt_effect list" where
  "apply_effective ctx op baseRevision m d =
     (case effective_op op baseRevision d of
        None \<Rightarrow> (False, rememberOp (om_from m) (om_opId m) False d, [Warn ''stale op rejected''])
      | Some effective \<Rightarrow>
          (case next_state (sd_state d) effective of
             None \<Rightarrow> (False, rememberOp (om_from m) (om_opId m) False d, [Warn ''unsupported op''])
           | Some state \<Rightarrow>
               let d1 = logOp (logged_op effective) (d\<lparr>sd_state := state, sd_revision := js_add (sd_revision d) (Fin 1)\<rparr>);
                   d2 = rememberOp (om_from m) (om_opId m) True d1
               in (True, d2, change_event d2 ''local'' # broadcastSync ctx d2)))"

definition applyOpAsHost :: "room_ctx \<Rightarrow> jsv \<Rightarrow> jsnum \<Rightarrow> op_meta \<Rightarrow> sdoc \<Rightarrow> bool \<times> sdoc \<times> rt_effect list" where
  "applyOpAsHost ctx op baseRevision m d =
     (case (if om_opId m = [] then None else seen_of d (om_from m) (om_opId m)) of
        Some applied \<Rightarrow> (applied, d, [])
      | None \<Rightarrow>
          if om_replaces m \<noteq> [] \<and> seen_of d (om_from m) (om_replaces m) = Some True
          then (False, rememberOp (om_from m) (om_opId m) False d, [])
          else apply_effective ctx op baseRevision m
                 (if om_replaces m \<noteq> [] \<and> seen_of d (om_from m) (om_replaces m) = None
                  then rememberOp (om_from m) (om_replaces m) False d else d))"

definition applyOp_local :: "room_ctx \<Rightarrow> jsv \<Rightarrow> jsv \<Rightarrow> string \<Rightarrow> string \<Rightarrow> sdoc \<Rightarrow> bool \<times> sdoc \<times> rt_effect list" where
  "applyOp_local ctx op baseRevision opId replaces d =
     (let base = (case js_Number baseRevision of Fin r \<Rightarrow> Fin r | _ \<Rightarrow> sd_revision d)
      in if sd_isHost d then
           applyOpAsHost ctx op base \<lparr>om_opId = opId, om_replaces = replaces, om_from = js_orv (rc_self ctx) (Str ''(self)'')\<rparr> d
         else (True, d, sendWire ctx (sd_hostPeerId d) ''doc-op''
                (Obj ([(''docId'', Str (sd_docId d)), (''baseRevision'', Num base), (''op'', op)] @
                      (if opId \<noteq> [] then [(''opId'', Str opId)] else []) @
                      (if replaces \<noteq> [] then [(''replacesOpId'', Str replaces)] else [])))))"

definition sync_wire :: "jsv \<Rightarrow> jsv \<Rightarrow> sdoc \<Rightarrow> sdoc \<times> rt_effect list" where
  "sync_wire from payload d =
     (let rev = number_or (get payload ''revision'') 0;
          newer = js_le (sd_revision d) rev;
          d1 = (if newer then d\<lparr>sd_state := get payload ''state'', sd_revision := rev\<rparr> else d)
      in (d1, (if newer then [change_event d1 ''remote'', Emit ''remote-op'' (Obj [(''from'', from), (''payload'', payload)])] else []) @
              (if js_Boolean (get payload ''ackOpId'')
               then [Emit ''op-ack'' (Obj [(''opId'', Str (js_String (get payload ''ackOpId''))),
                                           (''applied'', Bool (get payload ''ackApplied'' = Bool True))])] else [])))"

definition opt_string :: "jsv \<Rightarrow> string" where
  "opt_string v = (if js_Boolean v then js_String v else [])"

definition op_wire :: "room_ctx \<Rightarrow> jsv \<Rightarrow> jsv \<Rightarrow> sdoc \<Rightarrow> sdoc \<times> rt_effect list" where
  "op_wire ctx from payload d =
     (let (ok, d1, effs) = applyOpAsHost ctx (get payload ''op'') (number_or (get payload ''baseRevision'') 0)
            \<lparr>om_opId = opt_string (get payload ''opId''), om_replaces = opt_string (get payload ''replacesOpId''), om_from = from\<rparr> d
      in (d1, effs @ sendWire ctx from ''doc-sync''
            (Obj ([(''docId'', Str (sd_docId d1)), (''state'', sd_state d1), (''revision'', Num (sd_revision d1))] @
                  (if js_Boolean (get payload ''opId'')
                   then [(''ackOpId'', Str (js_String (get payload ''opId''))), (''ackApplied'', Bool ok)] else [])))))"

definition handleWire :: "room_ctx \<Rightarrow> string \<Rightarrow> jsv \<Rightarrow> jsv \<Rightarrow> sdoc \<Rightarrow> sdoc \<times> rt_effect list" where
  "handleWire ctx wire from payload d =
     (if \<not> js_Boolean payload \<or> get payload ''docId'' \<noteq> Str (sd_docId d) then (d, [])
      else if wire = ''doc-sync'' then sync_wire from payload d
      else if wire = ''doc-op'' \<and> sd_isHost d \<and> js_Boolean from then op_wire ctx from payload d
      else (d, []))"

section \<open>Operations based on an older revision\<close>

text \<open>The log of a document that got from revision \<open>b\<close> to its own by the operations \<open>ts\<close>.\<close>

definition log_since :: "nat \<Rightarrow> text_op list \<Rightarrow> sdoc \<Rightarrow> bool" where
  "log_since b ts d \<longleftrightarrow> sd_revision d = jn (b + length ts) \<and>
     filter (\<lambda>e. js_less (jn b) (fst e)) (sd_opLog d) = zip (map jn [b + 1..<b + 1 + length ts]) (map text_op_obj ts)"

lemma rebase_history:
  assumes "log_since b ts d" "fits a (length s)" "all_fit ts s"
  shows "rebaseOp (text_op_obj a) (jn b) d = map_option fst (past a ts)"
proof -
  let ?f = "\<lambda>current e. case current of None \<Rightarrow> None | Some c \<Rightarrow> transformTextOp (text_op_obj c) (snd e)"
  have fold: "foldl ?f (Some a) (zip ns (map text_op_obj ts)) = map_option fst (past a ts)"
    if "length ns = length ts" for ns
    using that assms(2,3)
  proof (induction ts arbitrary: a s ns)
    case (Cons t ts)
    then obtain n ms where ns: "ns = n # ms" "length ms = length ts" by (cases ns) auto
    have none: "foldl ?f None us = None" for us by (induction us) simp_all
    have t: "transformTextOp (text_op_obj a) (text_op_obj t) = transform_op a t"
      using normalize_text_op_obj [of a "length s"] normalize_text_op_obj [of t "length s"] Cons.prems by (simp add: transformTextOp_def)
    show ?case
    proof (cases "transform_op a t")
      case None
      then show ?thesis by (simp add: ns none t)
    next
      case (Some c)
      then obtain t' where t': "transform_under t a = Some t'" using transform_clash [of a "length s" t] Cons.prems by (cases "transform_under t a") auto
      have "fits c (length (run_op t s))" using transform_square [of a s t] Cons.prems Some t' by (auto simp: square_def)
      then show ?thesis using Cons.IH [OF ns(2), of c "run_op t s"] Cons.prems Some t' t ns(1) by (cases "past c ts") auto
    qed
  qed simp
  have "\<not> js_less (sd_revision d) (jn b)" using assms(1) by (simp add: log_since_def)
  moreover have "js_sub (sd_revision d) (jn b) = Fin (of_nat (length ts))" using assms(1) by (simp add: log_since_def Fin_of_nat)
  ultimately show ?thesis
    using assms(1) fold [of "map jn [b + 1..<b + 1 + length ts]"] normalize_text_op_obj [OF assms(2)]
    by (simp add: rebaseOp_def log_since_def Let_def del: upt_Suc)
qed

definition fresh_meta :: "op_meta \<Rightarrow> sdoc \<Rightarrow> bool" where
  "fresh_meta m d \<longleftrightarrow> (om_opId m = [] \<or> seen_of d (om_from m) (om_opId m) = None) \<and>
     (om_replaces m = [] \<or> seen_of d (om_from m) (om_replaces m) \<noteq> Some True)"

lemma rememberOp_keeps [simp]:
  "sd_state (rememberOp f i b d) = sd_state d" "sd_revision (rememberOp f i b d) = sd_revision d"
  "sd_opLog (rememberOp f i b d) = sd_opLog d" "sd_docId (rememberOp f i b d) = sd_docId d" "sd_isHost (rememberOp f i b d) = sd_isHost d"
  by (simp_all add: rememberOp_def Let_def)

lemma logOp_keeps [simp]:
  "sd_state (logOp x d) = sd_state d" "sd_revision (logOp x d) = sd_revision d" "sd_seenOps (logOp x d) = sd_seenOps d"
  "sd_docId (logOp x d) = sd_docId d" "sd_isHost (logOp x d) = sd_isHost d"
  by (simp_all add: logOp_def)

lemma rebase_remember [simp]: "rebaseOp op b (rememberOp f i x d) = rebaseOp op b d"
  by (simp add: rebaseOp_def)

lemma jn_Suc [simp]: "js_add (jn n) (Fin 1) = jn (Suc n)"
  by (simp add: jn_def)

lemma jn_eq_add: "jn b = jn (b + n) \<longleftrightarrow> n = 0"
  by simp

lemma effective_history:
  assumes "log_since b ts d" "fits a (length s)" "all_fit ts s" "sd_state d = Str (fold run_op ts s)"
  shows "effective_op (text_op_obj a) (jn b) d = map_option (text_op_obj \<circ> fst) (past a ts)"
proof (cases ts)
  case Nil
  then show ?thesis using assms(1) by (simp add: effective_op_def log_since_def)
next
  case (Cons t us)
  then have "jn b \<noteq> sd_revision d" using assms(1) by (simp add: log_since_def)
  then show ?thesis using rebase_history [OF assms(1-3)] assms(4) by (simp add: effective_op_def option.map_comp)
qed

lemma next_state_op: "next_state (Str s) (text_op_obj a) = Some (Str (run_op a s))"
  by (cases a) (simp_all add: next_state_def text_op_obj_def run_op_def is_object_def)

text \<open>
  C17. An operation based on an older revision keeps its meaning. When a fresh operation that fits the
  text of revision \<open>b\<close> reaches a host that has applied \<open>ts\<close> since, the host rejects it exactly when it
  clashes with one of them on the way, and otherwise the new text is the one that the operation and then
  the operations of \<open>ts\<close>, moved past it, give on the text its author saw.
\<close>

theorem stale_op_rebased:
  assumes "log_since b ts d" "fits a (length s)" "all_fit ts s" "sd_state d = Str (fold run_op ts s)" "fresh_meta m d"
  shows "case applyOpAsHost ctx (text_op_obj a) (jn b) m d of (ok, d', effs) \<Rightarrow>
     (case past a ts of
        None \<Rightarrow> \<not> ok \<and> sd_state d' = sd_state d \<and> sd_revision d' = sd_revision d
      | Some (a', ts') \<Rightarrow> ok \<and> sd_revision d' = jn (b + length ts + 1) \<and> length ts' = length ts \<and>
          sd_state d' = Str (fold run_op ts' (run_op a s)) \<and> sd_state d' = Str (run_op a' (fold run_op ts s)))"
proof -
  define d0 where "d0 = (if om_replaces m \<noteq> [] \<and> seen_of d (om_from m) (om_replaces m) = None then rememberOp (om_from m) (om_replaces m) False d else d)"
  have same: "sd_state d0 = sd_state d" "sd_revision d0 = sd_revision d" "sd_opLog d0 = sd_opLog d" by (simp_all add: d0_def)
  have host: "applyOpAsHost ctx (text_op_obj a) (jn b) m d = apply_effective ctx (text_op_obj a) (jn b) m d0"
    using assms(5) by (auto simp: applyOpAsHost_def fresh_meta_def d0_def split: option.splits)
  have "log_since b ts d0" using assms(1) by (simp add: log_since_def same)
  then have eff: "effective_op (text_op_obj a) (jn b) d0 = map_option (text_op_obj \<circ> fst) (past a ts)"
    using effective_history assms(2-4) same(1) by simp
  show ?thesis
  proof (cases "past a ts")
    case None
    then show ?thesis using host eff same by (simp add: apply_effective_def)
  next
    case (Some r)
    obtain a' ts' where r: "r = (a', ts')" by (cases r)
    have rev: "js_add (sd_revision d) (Fin 1) = jn (b + length ts + 1)"
      using assms(1) by (simp add: log_since_def jn_def)
    show ?thesis using host eff same Some r rev past_square [OF assms(2,3), of a' ts'] assms(4)
      by (simp add: apply_effective_def next_state_op Let_def)
  qed
qed

definition sample_ctx :: room_ctx where
  "sample_ctx = \<lparr>rc_pluginId = ''notes'', rc_roomId = ''r1'', rc_others = [Str ''bob''], rc_self = Str ''alice''\<rparr>"

definition sample_doc :: sdoc where
  "sample_doc = \<lparr>sd_docId = ''default'', sd_isHost = True, sd_hostPeerId = Str ''alice'', sd_state = Str ''Xabc'', sd_revision = jn 2,
     sd_opLog = [(jn 1, Obj [(''type'', Str ''replace'')]), (jn 2, text_op_obj (Insert (jn 0) ''X''))], sd_seenOps = []\<rparr>"

theorem stale_op_rebased_witness:
  "case applyOpAsHost sample_ctx (text_op_obj (Delete (jn 1) (jn 1))) (jn 1) \<lparr>om_opId = ''o1'', om_replaces = [], om_from = Str ''bob''\<rparr> sample_doc of
     (ok, d', effs) \<Rightarrow> ok \<and> sd_revision d' = jn 3 \<and> sd_state d' = Str ''Xac''"
proof -
  let ?a = "Delete (jn 1) (jn 1)" and ?ts = "[Insert (jn 0) ''X'']" and ?m = "\<lparr>om_opId = ''o1'', om_replaces = [], om_from = Str ''bob''\<rparr>"
  have past: "past ?a ?ts = Some (Delete (jn 2) (jn 1), [Insert (jn 0) ''X''])" by (simp add: Fin_of_nat numeral_2_eq_2)
  have txts: "run_op (Insert (jn 0) ''X'') ''abc'' = ''Xabc''" "run_op (Delete (jn 2) (jn 1)) ''Xabc'' = ''Xac''"
    by (simp_all add: run_insert run_delete numeral_2_eq_2)
  have "log_since 1 ?ts sample_doc" by (simp add: log_since_def sample_doc_def numeral_2_eq_2)
  moreover have "fits ?a (length ''abc'')" "all_fit ?ts ''abc''" by simp_all
  moreover have "sd_state sample_doc = Str (fold run_op ?ts ''abc'')" "fresh_meta ?m sample_doc"
    by (simp_all add: sample_doc_def txts fresh_meta_def seen_of_def)
  ultimately show ?thesis using stale_op_rebased [of 1 ?ts sample_doc ?a "''abc''" ?m sample_ctx]
    by (auto simp: past txts txts [unfolded numeral_2_eq_2 One_nat_def] numeral_3_eq_3)
qed


section \<open>Runs of a document\<close>

text \<open>
  What can happen to a document: the plugin sets its state, the plugin applies an operation, and a
  message arrives.
\<close>

datatype doc_input =
    SetState jsv
  | LocalOp jsv jsv string string
  | WireIn string jsv jsv

fun doc_step :: "room_ctx \<Rightarrow> doc_input \<Rightarrow> sdoc \<Rightarrow> sdoc \<times> rt_effect list" where
  "doc_step ctx (SetState v) d = snd (setState ctx v d)"
| "doc_step ctx (LocalOp op base i r) d = snd (applyOp_local ctx op base i r d)"
| "doc_step ctx (WireIn wire from payload) d = handleWire ctx wire from payload d"

fun doc_run :: "room_ctx \<Rightarrow> doc_input list \<Rightarrow> sdoc \<Rightarrow> sdoc \<times> rt_effect list" where
  "doc_run ctx [] d = (d, [])"
| "doc_run ctx (i # is) d =
     (let (d1, e1) = doc_step ctx i d; (d2, e2) = doc_run ctx is d1 in (d2, e1 @ e2))"

lemma doc_run_fst: "fst (doc_run ctx (i # is) d) = fst (doc_run ctx is (fst (doc_step ctx i d)))"
  by (simp split: prod.splits)

section \<open>The window of remembered operations\<close>

definition seen_list :: "sdoc \<Rightarrow> jsv \<Rightarrow> (string \<times> bool) list" where
  "seen_list d from = (case map_of (sd_seenOps d) from of None \<Rightarrow> [] | Some s \<Rightarrow> s)"

definition remember_in :: "string \<Rightarrow> bool \<Rightarrow> (string \<times> bool) list \<Rightarrow> (string \<times> bool) list" where
  "remember_in i b s = AList.update i b (if map_of s i = None \<and> length s \<ge> SEEN_OPS_PER_PEER then tl s else s)"

lemma seen_of_list: "seen_of d from i = map_of (seen_list d from) i"
  by (simp add: seen_of_def seen_list_def split: option.splits)

lemma seen_list_remember [simp]:
  "seen_list (rememberOp f i b d) g = (if g = f \<and> i \<noteq> [] then remember_in i b (seen_list d g) else seen_list d g)"
  by (auto simp: seen_list_def rememberOp_def remember_in_def Let_def update_conv' split: option.splits)

lemma seen_list_logOp [simp]: "seen_list (logOp x d) g = seen_list d g"
  by (simp add: seen_list_def)

lemma seen_list_update [simp]:
  "seen_list (d\<lparr>sd_state := s, sd_revision := r\<rparr>) g = seen_list d g"
  by (simp add: seen_list_def)

text \<open>The window of one author: no id twice, and at most sixteen of them.\<close>

definition window_ok :: "(string \<times> bool) list \<Rightarrow> bool" where
  "window_ok s \<longleftrightarrow> distinct (map fst s) \<and> length s \<le> SEEN_OPS_PER_PEER"

lemma keys_remember_in:
  "map fst (remember_in i b s) =
     (if i \<in> set (map fst s) then map fst s
      else (if length s \<ge> SEEN_OPS_PER_PEER then tl (map fst s) else map fst s) @ [i])"
proof (cases "i \<in> set (map fst s)")
  case True
  then have "map_of s i \<noteq> None" by (simp add: map_of_eq_None_iff)
  then have "\<not> map_of s i = None" by simp
  then show ?thesis using True by (simp only: remember_in_def update_keys simp_thms if_True if_False)
next
  case False
  then have "map_of s i = None" "i \<notin> set (map fst (tl s))"
    by (simp add: map_of_eq_None_iff) (use False in \<open>cases s; auto\<close>)
  then show ?thesis using False by (simp add: remember_in_def update_keys map_tl del: set_map)
qed

lemma window_remember_in: "window_ok s \<Longrightarrow> window_ok (remember_in i b s)"
proof -
  assume "window_ok s"
  then have "distinct (map fst (remember_in i b s)) \<and> length (map fst (remember_in i b s)) \<le> SEEN_OPS_PER_PEER"
    unfolding keys_remember_in window_ok_def SEEN_OPS_PER_PEER_def
    by (cases s) (auto simp: distinct_tl)
  then show ?thesis by (simp add: window_ok_def)
qed

text \<open>The id \<open>i\<close> is remembered with \<open>b\<close>, and what was remembered after it are ids of \<open>T\<close>.\<close>

definition remembered :: "string set \<Rightarrow> string \<Rightarrow> bool \<Rightarrow> (string \<times> bool) list \<Rightarrow> bool" where
  "remembered T i b s \<longleftrightarrow> window_ok s \<and> map_of s i = Some b \<and> (\<exists>xs ys. map fst s = xs @ i # ys \<and> set ys \<subseteq> T)"

lemma map_of_remember_in:
  "map_of (remember_in j c s) i = (if i = j then Some c
     else map_of (if map_of s j = None \<and> length s \<ge> SEEN_OPS_PER_PEER then tl s else s) i)"
  by (simp add: remember_in_def update_conv')

lemma remembered_keeps:
  assumes "remembered T i b s" "j \<in> T" "j \<noteq> i" "finite T" "card T < SEEN_OPS_PER_PEER"
  shows "remembered T i b (remember_in j c s)"
proof -
  obtain xs ys where s: "map fst s = xs @ i # ys" "set ys \<subseteq> T" "window_ok s" "map_of s i = Some b"
    using assms(1) by (auto simp: remembered_def)
  have new: "window_ok (remember_in j c s)" using s(3) by (rule window_remember_in)
  show ?thesis
  proof (cases "j \<in> set (map fst s) \<or> length s < SEEN_OPS_PER_PEER")
    case True
    then have "map_of (remember_in j c s) i = Some b"
      using s(4) assms(3) by (auto simp: map_of_remember_in map_of_eq_None_iff)
    moreover have "map fst (remember_in j c s) = xs @ i # (if j \<in> set (map fst s) then ys else ys @ [j])"
      using True s(1) by (auto simp: keys_remember_in)
    moreover have "set (if j \<in> set (map fst s) then ys else ys @ [j]) \<subseteq> T" using s(2) assms(2) by simp
    ultimately show ?thesis using new unfolding remembered_def by blast
  next
    case False
    then have full: "length (map fst s) \<ge> SEEN_OPS_PER_PEER" and j: "j \<notin> set (map fst s)" by auto
    have "xs \<noteq> []"
    proof
      assume "xs = []"
      then have "distinct (j # ys)" "length (j # ys) \<ge> SEEN_OPS_PER_PEER"
        using s(1,3) j full by (auto simp: window_ok_def)
      moreover have "set (j # ys) \<subseteq> T" using s(2) assms(2) by simp
      ultimately show False using assms(4,5) card_mono [of T "set (j # ys)"] by (metis distinct_card le_less_trans not_le)
    qed
    then obtain x xs' where xs: "xs = x # xs'" by (cases xs) auto
    then obtain e s' where e: "s = e # s'" using s(1) by (cases s) auto
    obtain k v where kv: "e = (k, v)" by (cases e)
    have keys: "k = x" "map fst s' = xs' @ i # ys" using s(1) xs e kv by auto
    have "x \<noteq> i" using s(1,3) xs by (auto simp: window_ok_def)
    have none: "map_of s j = None" using j by (simp add: map_of_eq_None_iff)
    have len: "length s \<ge> SEEN_OPS_PER_PEER" using full by simp
    have "map_of s' i = Some b" using s(4) e kv keys(1) \<open>x \<noteq> i\<close> by simp
    then have val: "map_of (remember_in j c s) i = Some b"
      using none len assms(3) e by (simp add: map_of_remember_in)
    have "map fst (remember_in j c s) = xs' @ i # (ys @ [j])"
      using j len e keys(2) by (simp add: keys_remember_in del: set_map)
    moreover have "set (ys @ [j]) \<subseteq> T" using s(2) assms(2) by simp
    ultimately show ?thesis using new val unfolding remembered_def by blast
  qed
qed

text \<open>The ids of the operations of one author in a run, those they replace included.\<close>

fun input_ids :: "room_ctx \<Rightarrow> jsv \<Rightarrow> doc_input \<Rightarrow> string list" where
  "input_ids ctx author (SetState v) = []"
| "input_ids ctx author (LocalOp op base i r) = (if author = js_orv (rc_self ctx) (Str ''(self)'') then [i, r] else [])"
| "input_ids ctx author (WireIn wire from payload) =
     (if author = from then [opt_string (get payload ''opId''), opt_string (get payload ''replacesOpId'')] else [])"

definition ids_by :: "room_ctx \<Rightarrow> jsv \<Rightarrow> doc_input list \<Rightarrow> string list" where
  "ids_by ctx author is = filter (\<lambda>i. i \<noteq> []) (concat (map (input_ids ctx author) is))"

text \<open>
  What the host does to an author's window: nothing, or it remembers one or two of the ids of the
  operation, and none that it had remembered before.
\<close>

definition window_step :: "string list \<Rightarrow> (string \<times> bool) list \<Rightarrow> (string \<times> bool) list \<Rightarrow> bool" where
  "window_step ids s s' \<longleftrightarrow> s' = s \<or>
     (\<exists>i b. i \<in> set ids \<and> i \<noteq> [] \<and> map_of s i = None \<and> s' = remember_in i b s) \<or>
     (\<exists>i b j c. i \<in> set ids \<and> i \<noteq> [] \<and> j \<in> set ids \<and> j \<noteq> [] \<and> map_of s i = None \<and> map_of s j = None \<and>
        s' = remember_in j c (remember_in i b s))"

lemma window_steps:
  "window_step ids s s"
  "i \<in> set ids \<Longrightarrow> i \<noteq> [] \<Longrightarrow> map_of s i = None \<Longrightarrow> window_step ids s (remember_in i b s)"
  "i \<in> set ids \<Longrightarrow> i \<noteq> [] \<Longrightarrow> map_of s i = None \<Longrightarrow> j \<in> set ids \<Longrightarrow> j \<noteq> [] \<Longrightarrow> map_of s j = None \<Longrightarrow>
     window_step ids s (remember_in j c (remember_in i b s))"
  unfolding window_step_def by blast+

lemma apply_effective_window:
  "seen_list (fst (snd (apply_effective ctx op base m d))) author =
     (if author = om_from m \<and> om_opId m \<noteq> []
      then remember_in (om_opId m) (fst (apply_effective ctx op base m d)) (seen_list d author) else seen_list d author)"
  by (auto simp: apply_effective_def Let_def split: option.splits)

lemma host_window:
  "window_step (if author = om_from m then [om_opId m, om_replaces m] else [])
     (seen_list d author) (seen_list (fst (snd (applyOpAsHost ctx op base m d))) author)"
proof (cases "author = om_from m")
  case False
  then show ?thesis by (simp add: applyOpAsHost_def apply_effective_window window_steps(1) split: option.splits)
next
  case True
  show ?thesis
  proof (cases "if om_opId m = [] then None else seen_of d author (om_opId m)")
    case None
    then have fresh: "om_opId m \<noteq> [] \<Longrightarrow> map_of (seen_list d author) (om_opId m) = None" by (simp add: seen_of_list)
    show ?thesis
      using None True fresh
      by (simp add: applyOpAsHost_def apply_effective_window seen_of_list window_steps)
  next
    case (Some a)
    then have "applyOpAsHost ctx op base m d = (a, d, [])" by (simp only: applyOpAsHost_def True option.case)
    then show ?thesis by (simp add: window_steps(1))
  qed
qed

lemma host_window_ids:
  assumes "om_opId m = i" "om_replaces m = r" "om_from m = f"
  shows "window_step (if author = f then [i, r] else []) (seen_list d author) (seen_list (fst (snd (applyOpAsHost ctx op base m d))) author)"
  using host_window [of author m d ctx op base] unfolding assms .

lemma doc_step_window:
  "window_step (input_ids ctx author i) (seen_list d author) (seen_list (fst (doc_step ctx i d)) author)"
proof (cases i)
  case (SetState v)
  then show ?thesis by (simp add: setState_def window_steps(1) Let_def)
next
  case (LocalOp op base j r)
  have "fst (doc_step ctx i d) = d \<or> (\<exists>b. fst (doc_step ctx i d) = fst (snd (applyOpAsHost ctx op b
      \<lparr>om_opId = j, om_replaces = r, om_from = js_orv (rc_self ctx) (Str ''(self)'')\<rparr> d)))"
    using LocalOp by (auto simp: applyOp_local_def Let_def)
  then show ?thesis
  proof
    assume "\<exists>b. fst (doc_step ctx i d) = fst (snd (applyOpAsHost ctx op b
      \<lparr>om_opId = j, om_replaces = r, om_from = js_orv (rc_self ctx) (Str ''(self)'')\<rparr> d))"
    then obtain b where b: "fst (doc_step ctx i d) = fst (snd (applyOpAsHost ctx op b
      \<lparr>om_opId = j, om_replaces = r, om_from = js_orv (rc_self ctx) (Str ''(self)'')\<rparr> d))" ..
    show ?thesis unfolding b unfolding LocalOp input_ids.simps by (rule host_window_ids; simp)
  qed (simp add: window_steps(1))
next
  case (WireIn wire sender payload)
  have "fst (op_wire ctx sender payload d) = fst (snd (applyOpAsHost ctx (get payload ''op'') (number_or (get payload ''baseRevision'') 0)
      \<lparr>om_opId = opt_string (get payload ''opId''), om_replaces = opt_string (get payload ''replacesOpId''), om_from = sender\<rparr> d))"
    by (simp add: op_wire_def Let_def split: prod.splits)
  then have op: "window_step (input_ids ctx author i) (seen_list d author) (seen_list (fst (op_wire ctx sender payload d)) author)"
    using WireIn by (simp only: input_ids.simps) (rule host_window_ids; simp)
  have sync: "seen_list (fst (sync_wire sender payload d)) author = seen_list d author"
    by (simp add: sync_wire_def Let_def)
  have "fst (doc_step ctx i d) \<in> {d, fst (sync_wire sender payload d), fst (op_wire ctx sender payload d)}"
    using WireIn by (simp add: handleWire_def)
  then show ?thesis using op sync by (elim insertE) (simp_all only: window_steps(1) empty_iff)
qed

lemma window_step_ok: "window_step ids s s' \<Longrightarrow> window_ok s \<Longrightarrow> window_ok s'"
  by (auto simp: window_step_def intro: window_remember_in)

lemma window_step_remembered:
  assumes "window_step ids s s'" "remembered T i b s" "set (filter (\<lambda>j. j \<noteq> []) ids) - {i} \<subseteq> T" "finite T" "card T < SEEN_OPS_PER_PEER"
  shows "remembered T i b s'"
proof -
  have i: "map_of s i \<noteq> None" using assms(2) by (simp add: remembered_def)
  have T: "j \<in> T \<and> j \<noteq> i" if "j \<in> set ids" "j \<noteq> []" "map_of s j = None" for j using that assms(3) i by auto
  show ?thesis using assms(1) unfolding window_step_def
    using T remembered_keeps [OF _ _ _ assms(4,5)] assms(2) by blast
qed

lemma doc_run_window: "window_ok (seen_list d author) \<Longrightarrow> window_ok (seen_list (fst (doc_run ctx is d)) author)"
proof (induction "is" arbitrary: d)
  case (Cons i "is")
  have "window_ok (seen_list (fst (doc_step ctx i d)) author)" using window_step_ok [OF doc_step_window] Cons.prems by blast
  then show ?case unfolding doc_run_fst by (rule Cons.IH)
qed simp

lemma doc_run_remembered:
  assumes "remembered T i b (seen_list d author)" "set (ids_by ctx author is) - {i} \<subseteq> T" "finite T" "card T < SEEN_OPS_PER_PEER"
  shows "remembered T i b (seen_list (fst (doc_run ctx is d)) author)"
  using assms(1,2)
proof (induction "is" arbitrary: d)
  case (Cons j "is")
  have "remembered T i b (seen_list (fst (doc_step ctx j d)) author)"
    by (rule window_step_remembered [OF doc_step_window Cons.prems(1) _ assms(3,4)]) (use Cons.prems(2) in \<open>auto simp: ids_by_def\<close>)
  moreover have "set (ids_by ctx author is) - {i} \<subseteq> T" using Cons.prems(2) by (auto simp: ids_by_def)
  ultimately show ?case unfolding doc_run_fst by (rule Cons.IH)
qed simp

lemma remembered_new:
  assumes "window_ok s" "map_of s i = None"
  shows "remembered {} i b (remember_in i b s)"
proof -
  have "i \<notin> set (map fst s)" using assms(2) by (simp add: map_of_eq_None_iff)
  then show ?thesis using window_remember_in [OF assms(1)] unfolding remembered_def
    by (simp add: map_of_remember_in keys_remember_in del: set_map)
qed

lemma remembered_mono: "remembered S i b s \<Longrightarrow> S \<subseteq> T \<Longrightarrow> remembered T i b s"
  unfolding remembered_def by blast

lemma fresh_op_remembered:
  assumes "window_ok (seen_list d (om_from m))" "om_opId m \<noteq> []" "seen_of d (om_from m) (om_opId m) = None"
  shows "remembered {} (om_opId m) (fst (applyOpAsHost ctx op base m d)) (seen_list (fst (snd (applyOpAsHost ctx op base m d))) (om_from m))"
proof -
  let ?s = "seen_list d (om_from m)"
  have none: "map_of ?s (om_opId m) = None" using assms(3) by (simp add: seen_of_list)
  have twice: "remembered {} (om_opId m) b (remember_in (om_opId m) b (remember_in j c ?s))" if "map_of ?s j = None" for j b c
  proof (cases "j = om_opId m")
    case False
    then have "map_of (remember_in j c ?s) (om_opId m) = None"
      using none by (cases ?s) (auto simp: map_of_remember_in split: if_splits)
    then show ?thesis using remembered_new window_remember_in assms(1) by blast
  next
    case True
    have "i \<in> set (map fst (remember_in i c s))" for i s by (simp add: keys_remember_in del: set_map)
    then have "map fst (remember_in j b (remember_in j c ?s)) = map fst (remember_in j c ?s)"
      by (subst keys_remember_in) simp
    moreover have "remembered {} j c (remember_in j c ?s)" using remembered_new assms(1) that by blast
    ultimately show ?thesis using True window_remember_in assms(1) unfolding remembered_def by (simp add: map_of_remember_in)
  qed
  show ?thesis
    using assms(2,3) none twice remembered_new [OF assms(1) none]
    by (simp add: applyOpAsHost_def apply_effective_window seen_of_list)
qed

lemma new_window [simp]: "seen_list (SharedDocument docId initial h host) author = []"
  by (simp add: seen_list_def SharedDocument_def)

text \<open>
  A retry is answered and not applied again. After the host has answered an operation with a new id,
  and whatever happens to the document next, as long as the author has used fewer than sixteen other ids
  since, the operation arriving again gets the same answer, leaves the document alone and is not
  broadcast.
\<close>

theorem retry_applied_once:
  assumes "doc_run ctx before (SharedDocument docId initial True host) = (d, e)"
    "om_opId m \<noteq> []" "seen_of d (om_from m) (om_opId m) = None"
    "applyOpAsHost ctx op base m d = (ok, d1, e1)" "doc_run ctx later d1 = (d2, e2)"
    "card (set (ids_by ctx (om_from m) later) - {om_opId m}) < SEEN_OPS_PER_PEER"
    "om_opId m' = om_opId m" "om_from m' = om_from m"
  shows "applyOpAsHost ctx op' base' m' d2 = (ok, d2, [])"
proof -
  let ?T = "set (ids_by ctx (om_from m) later) - {om_opId m}"
  have "window_ok (seen_list d (om_from m))"
    using doc_run_window [of "SharedDocument docId initial True host" "om_from m" ctx before] assms(1) by (simp add: window_ok_def)
  from fresh_op_remembered [OF this assms(2,3), of ctx op base] have "remembered {} (om_opId m) ok (seen_list d1 (om_from m))"
    using assms(4) by simp
  then have "remembered ?T (om_opId m) ok (seen_list d1 (om_from m))" by (rule remembered_mono) simp
  then have "remembered ?T (om_opId m) ok (seen_list (fst (doc_run ctx later d1)) (om_from m))"
    by (rule doc_run_remembered) (use assms(6) in simp_all)
  then have "seen_of d2 (om_from m) (om_opId m) = Some ok" using assms(5) by (simp add: remembered_def seen_of_list)
  then show ?thesis using assms(2,7,8) by (simp add: applyOpAsHost_def)
qed

definition bob_op :: "jsv" where
  "bob_op = Obj [(''docId'', Str ''notes''), (''baseRevision'', JInt 2), (''op'', text_op_obj (Insert (Fin 3) ''!'')), (''opId'', Str ''o2'')]"

definition alice_doc :: sdoc where
  "alice_doc = fst (doc_run sample_ctx [SetState (Str ''abc'')] (SharedDocument ''notes'' (Str []) True (Str ''alice'')))"

theorem retry_applied_once_witness:
  "case applyOpAsHost sample_ctx (text_op_obj (Insert (Fin 0) ''X'')) (Fin 1) \<lparr>om_opId = ''o1'', om_replaces = [], om_from = Str ''bob''\<rparr> alice_doc of
     (ok, d1, e1) \<Rightarrow> (case doc_run sample_ctx [WireIn ''doc-op'' (Str ''bob'') bob_op] d1 of
       (d2, e2) \<Rightarrow> ok \<and> sd_state d2 = Str ''Xab!c'' \<and>
         applyOpAsHost sample_ctx (text_op_obj (Insert (Fin 0) ''X'')) (Fin 1) \<lparr>om_opId = ''o1'', om_replaces = [], om_from = Str ''bob''\<rparr> d2 = (True, d2, []))"
proof -
  let ?m = "\<lparr>om_opId = ''o1'', om_replaces = [], om_from = Str ''bob''\<rparr>" and ?a = "text_op_obj (Insert (Fin 0) ''X'')"
  let ?d0 = "SharedDocument ''notes'' (Str []) True (Str ''alice'')" and ?later = "[WireIn ''doc-op'' (Str ''bob'') bob_op]"
  obtain ok d1 e1 where one: "applyOpAsHost sample_ctx ?a (Fin 1) ?m alice_doc = (ok, d1, e1)" by (metis surj_pair)
  obtain d2 e2 where two: "doc_run sample_ctx ?later d1 = (d2, e2)" by (metis surj_pair)
  have zero: "doc_run sample_ctx [SetState (Str ''abc'')] ?d0 = (alice_doc, snd (doc_run sample_ctx [SetState (Str ''abc'')] ?d0))"
    by (simp add: alice_doc_def)
  have seen: "seen_of alice_doc (Str ''bob'') ''o1'' = None" by code_simp
  have ids: "set (ids_by sample_ctx (Str ''bob'') ?later) - {''o1''} = {''o2''}"
    by (simp add: ids_by_def bob_op_def opt_string_def)
  have "fst (applyOpAsHost sample_ctx ?a (Fin 1) ?m alice_doc) \<and>
      sd_state (fst (doc_run sample_ctx ?later (fst (snd (applyOpAsHost sample_ctx ?a (Fin 1) ?m alice_doc))))) = Str ''Xab!c''" by code_simp
  then show ?thesis
    using retry_applied_once [OF zero, of ?m ?a "Fin 1" ok d1 e1 ?later d2 e2 ?m ?a "Fin 1"] one two seen ids
    by (simp add: SEEN_OPS_PER_PEER_def)
qed

section \<open>What the members see\<close>

text \<open>The states the host sends out.\<close>

definition sync_of :: "jsv \<Rightarrow> jsv list" where
  "sync_of envelope = (let body = get envelope ''pluginRealtime'' in if get body ''wire'' = Str ''doc-sync'' then [get body ''payload''] else [])"

fun sent_sync :: "rt_effect \<Rightarrow> jsv list" where
  "sent_sync (Send peerId envelope) = sync_of envelope"
| "sent_sync (SendMany peerIds envelope) = sync_of envelope"
| "sent_sync _ = []"

definition doc_syncs :: "rt_effect list \<Rightarrow> jsv list" where
  "doc_syncs effs = concat (map sent_sync effs)"

definition describes :: "string \<Rightarrow> jsv \<Rightarrow> jsnum \<Rightarrow> jsv \<Rightarrow> bool" where
  "describes docId state revision p \<longleftrightarrow>
     get p ''docId'' = Str docId \<and> get p ''state'' = state \<and> get p ''revision'' = Num revision"

lemma doc_syncs_simps [simp]:
  "doc_syncs [] = []" "doc_syncs (x # xs) = sent_sync x @ doc_syncs xs" "doc_syncs (xs @ ys) = doc_syncs xs @ doc_syncs ys"
  by (simp_all add: doc_syncs_def)

lemma sync_of_envelope [simp]: "sync_of (buildRealtimeEnvelope p r wire payload) = (if wire = ''doc-sync'' then [payload] else [])"
  by (simp add: sync_of_def buildRealtimeEnvelope_def)







lemma describes_shift: "xs ! i = (x # xs) ! Suc i"
  by simp


section \<open>A member follows\<close>


lemma handle_sync:
  assumes "describes (sd_docId c) s (jn i) p" "sd_revision c = jn k"
  shows "fst (handleWire ctx ''doc-sync'' sender p c) = (if k \<le> i then c\<lparr>sd_state := s, sd_revision := jn i\<rparr> else c)"
proof -
  have "js_Boolean p" using assms(1) by (cases p) (auto simp: describes_def)
  then show ?thesis using assms by (simp add: handleWire_def sync_wire_def describes_def Let_def)
qed






section \<open>What the checks let through\<close>

text \<open>
  On a document whose state is a text, an operation of type \<open>set\<close> is accepted, logged and broadcast, but
  does not set anything: the text branch comes first and knows no such type.
\<close>

lemma set_on_text_changes_nothing:
  assumes "sd_state d = Str s" "om_opId m = []" "om_replaces m = []"
  shows "case applyOpAsHost ctx (Obj [(''type'', Str ''set''), (''value'', v)]) (sd_revision d) m d of
     (ok, d', effs) \<Rightarrow> ok \<and> sd_state d' = Str s \<and> sd_revision d' = js_add (sd_revision d) (Fin 1)"
  using assms by (simp add: applyOpAsHost_def apply_effective_def effective_op_def next_state_def is_object_def applyTextOp_def js_coalesce_def Let_def)

text \<open>The host takes a \<open>doc-sync\<close> of anyone for its own document, as long as the revision is not below its own.\<close>

lemma host_takes_foreign_sync:
  assumes "js_Boolean sender" "describes (sd_docId d) v (jn i) p" "sd_revision d = jn k" "k \<le> i"
  shows "sd_state (fst (handleWire ctx ''doc-sync'' sender p d)) = v"
  using handle_sync [OF assms(2,3)] assms(4) by simp

end
