(* ===== verification/Realtime_Room.thy ===== *)
theory Realtime_Room
  imports Realtime_Document
begin

text \<open>
  Rooms of \<open>src/shared/plugin-realtime.mjs\<close>: the classes \<open>RealtimeRoom\<close> and \<open>RealtimeManager\<close>. A room has
  a host, whose table of members decides, and clients that copy it when they join; the manager of each
  device finds the room a message is for, records invitations and announced rooms. The clock, the
  random room id and the own peer id are arguments. What plugins do in their event handlers, and what a
  pending join resolves to after its room is gone, is not modelled.
\<close>

section \<open>Reading a message\<close>

definition PRESENCE_STALE_MS :: rat where "PRESENCE_STALE_MS = 90000"

definition isRealtimeMessage :: "jsv \<Rightarrow> bool" where
  "isRealtimeMessage msg = (js_Boolean msg \<and> is_object msg \<and> get msg ''kind'' = Str REALTIME_KIND \<and> js_Boolean (get msg ''pluginRealtime''))"

record parsed_message =
  pm_pluginId :: string
  pm_roomId :: string
  pm_wire :: string
  pm_revision :: jsv
  pm_payload :: jsv
  pm_from :: jsv
  pm_timestamp :: jsv

definition parseRealtimeMessage :: "jsnum \<Rightarrow> jsv \<Rightarrow> string \<Rightarrow> parsed_message option" where
  "parseRealtimeMessage now msg pluginId =
     (if \<not> isRealtimeMessage msg then None
      else let body = get msg ''pluginRealtime'' in
        if \<not> js_Boolean body \<or> \<not> is_object body then None
        else if pluginId \<noteq> [] \<and> get body ''pluginId'' \<noteq> Str pluginId then None
        else Some \<lparr>pm_pluginId = js_String (js_orv (get body ''pluginId'') (Str [])), pm_roomId = js_String (js_orv (get body ''roomId'') (Str [])),
               pm_wire = js_String (js_orv (get body ''wire'') (Str [])),
               pm_revision = (if is_number (get body ''revision'') then get body ''revision'' else Undef),
               pm_payload = get body ''payload'',
               pm_from = (if is_string (get msg ''from'') then get msg ''from'' else Undef),
               pm_timestamp = (if is_number (get msg ''timestamp'') then get msg ''timestamp'' else Num now)\<rparr>)"

definition isRoomPresenceStale :: "jsnum \<Rightarrow> jsv \<Rightarrow> bool" where
  "isRoomPresenceStale now timestamp =
     (if \<not> js_Boolean timestamp then True
      else case timestamp of Num t \<Rightarrow> js_less (Fin PRESENCE_STALE_MS) (js_sub now t) | _ \<Rightarrow> True)"

section \<open>A room\<close>

record room =
  rm_roomId :: string
  rm_name :: string
  rm_access :: string
  rm_maxPeers :: jsnum
  rm_isHost :: bool
  rm_hostPeerId :: jsv
  rm_selfPeerId :: jsv
  rm_members :: "(jsv \<times> jsv) list"
  rm_closed :: bool
  rm_documents :: "(string \<times> sdoc) list"
  rm_joining :: bool

text \<open>The plugin's id and the clock.\<close>

record room_env =
  re_pluginId :: string
  re_now :: jsnum

definition member :: "jsv \<Rightarrow> jsv \<Rightarrow> jsv \<Rightarrow> jsv" where
  "member peerId name joinedAt = Obj [(''peerId'', peerId), (''name'', name), (''joinedAt'', joinedAt)]"

definition memberPeerIds :: "room \<Rightarrow> jsv list" where
  "memberPeerIds r = filter (\<lambda>i. i \<noteq> rm_selfPeerId r) (map fst (rm_members r))"

definition ctx_of :: "room_env \<Rightarrow> room \<Rightarrow> room_ctx" where
  "ctx_of env r = \<lparr>rc_pluginId = re_pluginId env, rc_roomId = rm_roomId r, rc_others = memberPeerIds r, rc_self = rm_selfPeerId r\<rparr>"

definition room_size :: "room \<Rightarrow> jsnum" where
  "room_size r = jn (length (rm_members r))"

definition publishPresence :: "room_env \<Rightarrow> room \<Rightarrow> rt_effect list" where
  "publishPresence env r = [Broadcast (buildRealtimeEnvelope (re_pluginId env) (rm_roomId r) ''room-presence''
     (Obj [(''roomId'', Str (rm_roomId r)), (''name'', Str (rm_name r)), (''hostPeerId'', rm_hostPeerId r), (''access'', Str (rm_access r)),
           (''memberCount'', Num (room_size r)), (''maxPeers'', Num (rm_maxPeers r)),
           (''joinable'', Bool (js_less (room_size r) (rm_maxPeers r))), (''timestamp'', Num (re_now env))]))]"

definition clearPresence :: "room_env \<Rightarrow> room \<Rightarrow> rt_effect list" where
  "clearPresence env r = [Broadcast (buildRealtimeEnvelope (re_pluginId env) (rm_roomId r) ''room-presence-clear''
     (Obj [(''roomId'', Str (rm_roomId r)), (''hostPeerId'', rm_hostPeerId r), (''timestamp'', Num (re_now env))]))]"

definition RealtimeRoom :: "room_env \<Rightarrow> string \<Rightarrow> string \<Rightarrow> string \<Rightarrow> jsnum \<Rightarrow> bool \<Rightarrow> jsv \<Rightarrow> jsv \<Rightarrow> room \<times> rt_effect list" where
  "RealtimeRoom env roomId name access maxPeers isHost hostPeerId selfPeerId =
     (let r = \<lparr>rm_roomId = roomId, rm_name = name, rm_access = access, rm_maxPeers = maxPeers, rm_isHost = isHost, rm_hostPeerId = hostPeerId,
                rm_selfPeerId = selfPeerId, rm_members = (if isHost then [(selfPeerId, member selfPeerId (Str ''host'') (Num (re_now env)))] else []),
                rm_closed = False, rm_documents = [], rm_joining = False\<rparr>
      in (r, if isHost \<and> access = ''public'' then publishPresence env r else []))"

definition room_broadcast :: "room_env \<Rightarrow> jsv \<Rightarrow> room \<Rightarrow> bool \<times> rt_effect list" where
  "room_broadcast env payload r =
     (if rm_closed r then (False, [])
      else if memberPeerIds r = [] then (True, [])
      else (True, sendWireMany (ctx_of env r) (memberPeerIds r) ''room-msg'' payload))"

definition sendTo :: "room_env \<Rightarrow> jsv \<Rightarrow> jsv \<Rightarrow> room \<Rightarrow> bool \<times> rt_effect list" where
  "sendTo env peerId payload r =
     (if rm_closed r \<or> \<not> js_Boolean peerId then (False, []) else (True, sendWire (ctx_of env r) peerId ''room-msg'' payload))"

definition createDocument :: "room_env \<Rightarrow> jsv \<Rightarrow> room \<Rightarrow> room \<times> rt_effect list" where
  "createDocument env opts r =
     (let docId = js_String (js_orv (get opts ''docId'') (Str ''default''))
      in if map_of (rm_documents r) docId \<noteq> None then (r, [])
         else let doc = SharedDocument docId (get opts ''initial'') (rm_isHost r) (rm_hostPeerId r);
                  (doc1, effs) = (if rm_isHost r then snd (setState (ctx_of env r) (js_coalesce (get opts ''initial'') (Str [])) doc) else (doc, []))
              in (r\<lparr>rm_documents := rm_documents r @ [(docId, doc1)]\<rparr>, effs))"

definition room_leave :: "room_env \<Rightarrow> room \<Rightarrow> room \<times> rt_effect list" where
  "room_leave env r =
     (if rm_closed r then (r, [])
      else (r\<lparr>rm_closed := True, rm_documents := [], rm_members := []\<rparr>,
        (if rm_isHost r then clearPresence env r @
           (if memberPeerIds r \<noteq> [] then sendWireMany (ctx_of env r) (memberPeerIds r) ''room-closed'' (Obj [(''roomId'', Str (rm_roomId r))]) else [])
         else if js_Boolean (rm_hostPeerId r)
         then sendWire (ctx_of env r) (rm_hostPeerId r) ''room-leave'' (Obj [(''roomId'', Str (rm_roomId r)), (''peerId'', rm_selfPeerId r)])
         else []) @ [RoomEmit ''closed'' (Obj [(''roomId'', Str (rm_roomId r))])]))"

section \<open>Messages to a room\<close>

definition doc_sync_to :: "room_env \<Rightarrow> jsv \<Rightarrow> room \<Rightarrow> sdoc \<Rightarrow> rt_effect list" where
  "doc_sync_to env peer r d = sendWire (ctx_of env r) peer ''doc-sync''
     (Obj [(''docId'', Str (sd_docId d)), (''state'', sd_state d), (''revision'', Num (sd_revision d))])"

definition public_presence :: "room_env \<Rightarrow> room \<Rightarrow> rt_effect list" where
  "public_presence env r = (if rm_access r = ''public'' then publishPresence env r else [])"

definition reject_join :: "room_env \<Rightarrow> jsv \<Rightarrow> string \<Rightarrow> room \<Rightarrow> rt_effect list" where
  "reject_join env peer reason r = sendWire (ctx_of env r) peer ''room-join-reject'' (Obj [(''reason'', Str reason), (''roomId'', Str (rm_roomId r))])"

definition admit :: "room_env \<Rightarrow> jsv \<Rightarrow> jsv \<Rightarrow> room \<Rightarrow> room \<times> rt_effect list" where
  "admit env from payload r =
     (let name = (if js_Boolean (get payload ''name'') then Str (js_String (get payload ''name'')) else from);
          r1 = r\<lparr>rm_members := AList.update from (member from name (Num (re_now env))) (rm_members r)\<rparr>;
          others = filter (\<lambda>i. i \<noteq> from) (memberPeerIds r1)
      in (r1,
        sendWire (ctx_of env r1) from ''room-join-ok'' (Obj [(''roomId'', Str (rm_roomId r)), (''name'', Str (rm_name r)),
          (''hostPeerId'', rm_hostPeerId r), (''members'', Arr (map snd (rm_members r1)))]) @
        (if others \<noteq> [] then sendWireMany (ctx_of env r1) others ''room-msg''
           (Obj [(''type'', Str ''peer-joined''), (''peerId'', from), (''name'', name)]) else []) @
        [RoomEmit ''peer-joined'' (Obj [(''peerId'', from), (''name'', name)])] @
        public_presence env r1 @ concat (map (doc_sync_to env from r1 \<circ> snd) (rm_documents r1))))"

definition handleHostWire :: "room_env \<Rightarrow> bool \<Rightarrow> string \<Rightarrow> jsv \<Rightarrow> jsv \<Rightarrow> room \<Rightarrow> room \<times> rt_effect list" where
  "handleHostWire env invited wire from payload r =
     (if wire = ''room-join'' then
        if js_le (rm_maxPeers r) (room_size r) then (r, reject_join env from ''full'' r)
        else if rm_access r = ''invite'' \<and> \<not> invited then (r, reject_join env from ''invite-required'' r)
        else admit env from payload r
      else if wire = ''room-leave'' \<and> map_of (rm_members r) from \<noteq> None then
        let r1 = r\<lparr>rm_members := AList.delete from (rm_members r)\<rparr>
        in (r1, RoomEmit ''peer-left'' (Obj [(''peerId'', from)]) #
              snd (room_broadcast env (Obj [(''type'', Str ''peer-left''), (''peerId'', from)]) r1) @ public_presence env r1)
      else (r, []))"

fun add_members :: "room_env \<Rightarrow> jsv list \<Rightarrow> (jsv \<times> jsv) list \<Rightarrow> (jsv \<times> jsv) list" where
  "add_members env [] members = members"
| "add_members env (m # ms) members =
     add_members env ms (if js_Boolean (get m ''peerId'')
       then AList.update (get m ''peerId'')
              (member (get m ''peerId'') (get m ''name'') (js_orv (get m ''joinedAt'') (Num (re_now env)))) members
       else members)"

definition handleClientWire :: "room_env \<Rightarrow> string \<Rightarrow> jsv \<Rightarrow> jsv \<Rightarrow> room \<Rightarrow> room \<times> rt_effect list" where
  "handleClientWire env wire from payload r =
     (if wire = ''room-join-ok'' \<and> from = rm_hostPeerId r then
        let r1 = r\<lparr>rm_members := add_members env (arr_or_empty (get payload ''members'')) [], rm_joining := False\<rparr>
        in (r1, RoomEmit ''joined'' (Obj [(''roomId'', Str (rm_roomId r)), (''members'', Arr (map snd (rm_members r1)))]) #
              (if rm_joining r then [ResolveJoin (rm_roomId r) True] else []))
      else if wire = ''room-join-reject'' \<and> from = rm_hostPeerId r then
        let (r1, effs) = room_leave env (r\<lparr>rm_joining := False\<rparr>)
        in (r1, RoomEmit ''join-rejected'' (Obj [(''reason'', js_orv (get payload ''reason'') (Str ''unknown''))]) #
              (if rm_joining r then [ResolveJoin (rm_roomId r) False] else []) @ effs)
      else if wire = ''room-closed'' \<and> from = rm_hostPeerId r then
        let (r1, effs) = room_leave env r
        in (r1, RoomEmit ''closed'' (Obj [(''roomId'', Str (rm_roomId r)), (''reason'', Str ''host-closed'')]) # effs)
      else if wire = ''room-msg'' \<and> get payload ''type'' = Str ''peer-joined'' then
        (r\<lparr>rm_members := AList.update (get payload ''peerId'')
             (member (get payload ''peerId'') (js_orv (get payload ''name'') (get payload ''peerId'')) (Num (re_now env))) (rm_members r)\<rparr>,
         [RoomEmit ''peer-joined'' (Obj [(''peerId'', get payload ''peerId''), (''name'', get payload ''name'')])])
      else if wire = ''room-msg'' \<and> get payload ''type'' = Str ''peer-left'' then
        (r\<lparr>rm_members := AList.delete (get payload ''peerId'') (rm_members r)\<rparr>, [RoomEmit ''peer-left'' (Obj [(''peerId'', get payload ''peerId'')])])
      else (r, []))"

fun docs_handle :: "room_ctx \<Rightarrow> string \<Rightarrow> jsv \<Rightarrow> jsv \<Rightarrow> (string \<times> sdoc) list \<Rightarrow> (string \<times> sdoc) list \<times> rt_effect list" where
  "docs_handle ctx wire from payload [] = ([], [])"
| "docs_handle ctx wire from payload ((i, d) # ds) =
     (let (d1, e1) = handleWire ctx wire from payload d; (ds1, e2) = docs_handle ctx wire from payload ds in ((i, d1) # ds1, e1 @ e2))"

definition handleIncoming :: "room_env \<Rightarrow> bool \<Rightarrow> string \<Rightarrow> jsv \<Rightarrow> jsv \<Rightarrow> room \<Rightarrow> room \<times> rt_effect list" where
  "handleIncoming env invited wire from payload r =
     (if rm_closed r \<or> \<not> js_Boolean from then (r, [])
      else let (docs, e1) = docs_handle (ctx_of env r) wire from payload (rm_documents r);
               r1 = r\<lparr>rm_documents := docs\<rparr>
           in if wire = ''room-msg'' then (r1, e1 @ [RoomEmit ''message'' (Obj [(''from'', from), (''payload'', payload)])])
              else let (r2, e2) = (if rm_isHost r then handleHostWire env invited wire from payload r1
                                   else handleClientWire env wire from payload r1)
                   in (r2, e1 @ e2))"

section \<open>The manager\<close>

record manager =
  mg_pluginId :: string
  mg_rooms :: "(string \<times> room) list"
  mg_invites :: "(string \<times> jsv list) list"
  mg_discovered :: "(string \<times> jsv) list"

definition RealtimeManager :: "string \<Rightarrow> manager" where
  "RealtimeManager pluginId = \<lparr>mg_pluginId = pluginId, mg_rooms = [], mg_invites = [], mg_discovered = []\<rparr>"

definition env_of :: "jsnum \<Rightarrow> manager \<Rightarrow> room_env" where
  "env_of now m = \<lparr>re_pluginId = mg_pluginId m, re_now = now\<rparr>"

definition getRoom :: "manager \<Rightarrow> string \<Rightarrow> room option" where
  "getRoom m roomId = (case map_of (mg_rooms m) roomId of Some r \<Rightarrow> if rm_closed r then None else Some r | None \<Rightarrow> None)"

definition room_name :: "jsv \<Rightarrow> string" where
  "room_name opts = js_slice 64 (js_String (js_orv (get opts ''name'') (Str ''Room'')))"

definition js_min :: "jsnum \<Rightarrow> jsnum \<Rightarrow> jsnum" where
  "js_min a b = (if js_less b a then b else a)"

definition max_peers :: "jsv \<Rightarrow> jsnum" where
  "max_peers opts = js_max (Fin 2) (js_min (Fin 64) (number_or (get opts ''maxPeers'') 16))"

definition createRoom :: "jsnum \<Rightarrow> jsv \<Rightarrow> string \<Rightarrow> jsv \<Rightarrow> manager \<Rightarrow> room option \<times> manager \<times> rt_effect list" where
  "createRoom now selfId randomId opts m =
     (if \<not> js_Boolean selfId then (None, m, [Warn ''createRoom: no self peer id''])
      else let roomId = js_String (js_orv (get opts ''roomId'') (Str randomId))
           in case map_of (mg_rooms m) roomId of
                Some r \<Rightarrow> (Some r, m, [])
              | None \<Rightarrow>
                  let (r, effs) = RealtimeRoom (env_of now m) roomId (room_name opts)
                        (if get opts ''access'' = Str ''public'' then ''public'' else ''invite'') (max_peers opts) True selfId selfId
                  in (Some r, m\<lparr>mg_rooms := mg_rooms m @ [(roomId, r)]\<rparr>, effs))"

definition joinRoom :: "jsnum \<Rightarrow> jsv \<Rightarrow> jsv \<Rightarrow> manager \<Rightarrow> manager \<times> rt_effect list" where
  "joinRoom now selfId opts m =
     (let roomId = js_String (js_orv (get opts ''roomId'') (Str []));
          hostPeerId = js_String (js_orv (get opts ''hostPeerId'') (Str []))
      in if \<not> js_Boolean selfId \<or> roomId = [] \<or> hostPeerId = [] then (m, [ResolveJoin roomId False])
         else if map_of (mg_rooms m) roomId \<noteq> None then (m, [ResolveJoin roomId True])
         else let r = (fst (RealtimeRoom (env_of now m) roomId (room_name opts) ''invite'' (Fin 16) False (Str hostPeerId) selfId))\<lparr>rm_joining := True\<rparr>
              in (m\<lparr>mg_rooms := mg_rooms m @ [(roomId, r)]\<rparr>,
                  sendWire (ctx_of (env_of now m) r) (Str hostPeerId) ''room-join''
                    (Obj [(''roomId'', Str roomId), (''name'', js_orv (get opts ''name'') selfId), (''peerId'', selfId)])))"

definition isInvited :: "jsv \<Rightarrow> string \<Rightarrow> manager \<Rightarrow> bool" where
  "isInvited peerId roomId m = (case map_of (mg_invites m) roomId of None \<Rightarrow> False | Some ids \<Rightarrow> peerId \<in> set ids)"

definition recordInvite :: "string \<Rightarrow> jsv \<Rightarrow> manager \<Rightarrow> manager" where
  "recordInvite roomId peerId m =
     (if roomId = [] \<or> \<not> js_Boolean peerId then m
      else m\<lparr>mg_invites := AList.update roomId
               (push_new peerId (case map_of (mg_invites m) roomId of None \<Rightarrow> [] | Some ids \<Rightarrow> ids)) (mg_invites m)\<rparr>)"

definition removeRoom :: "string \<Rightarrow> manager \<Rightarrow> manager" where
  "removeRoom roomId m = m\<lparr>mg_rooms := AList.delete roomId (mg_rooms m), mg_invites := AList.delete roomId (mg_invites m)\<rparr>"

text \<open>A room that has closed itself has called \<open>_removeRoom\<close>.\<close>

definition put_room :: "room \<Rightarrow> manager \<Rightarrow> manager" where
  "put_room r m = (if rm_closed r then removeRoom (rm_roomId r) m else m\<lparr>mg_rooms := AList.update (rm_roomId r) r (mg_rooms m)\<rparr>)"

definition invite :: "jsnum \<Rightarrow> string \<Rightarrow> jsv \<Rightarrow> manager \<Rightarrow> bool \<times> manager \<times> rt_effect list" where
  "invite now roomId peerId m =
     (case map_of (mg_rooms m) roomId of
        None \<Rightarrow> (False, m, [])
      | Some r \<Rightarrow>
          if \<not> rm_isHost r \<or> rm_closed r \<or> \<not> js_Boolean peerId then (False, m, [])
          else (True, recordInvite (rm_roomId r) peerId m,
            sendWire (ctx_of (env_of now m) r) peerId ''room-invite''
              (Obj [(''roomId'', Str (rm_roomId r)), (''name'', Str (rm_name r)), (''hostPeerId'', rm_hostPeerId r), (''access'', Str (rm_access r))])))"

definition leaveRoom :: "jsnum \<Rightarrow> string \<Rightarrow> manager \<Rightarrow> manager \<times> rt_effect list" where
  "leaveRoom now roomId m =
     (case map_of (mg_rooms m) roomId of
        None \<Rightarrow> (m, [])
      | Some r \<Rightarrow> let (r1, effs) = room_leave (env_of now m) r in (put_room r1 m, effs))"

definition joinTimeout :: "jsnum \<Rightarrow> string \<Rightarrow> manager \<Rightarrow> manager \<times> rt_effect list" where
  "joinTimeout now roomId m =
     (case map_of (mg_rooms m) roomId of
        None \<Rightarrow> (m, [])
      | Some r \<Rightarrow> if \<not> rm_joining r then (m, [])
          else let (r1, effs) = room_leave (env_of now m) (r\<lparr>rm_joining := False\<rparr>) in (put_room r1 m, effs @ [ResolveJoin roomId False]))"

definition note_presence :: "jsnum \<Rightarrow> string \<Rightarrow> jsv \<Rightarrow> jsv \<Rightarrow> manager \<Rightarrow> manager \<times> rt_effect list" where
  "note_presence now roomId from payload m =
     (if isRoomPresenceStale now (get payload ''timestamp'') then (m, [])
      else let key = js_String (get payload ''hostPeerId'') @ '':'' @ roomId;
               entry = Obj [(''roomId'', Str roomId),
                            (''hostPeerId'', Str (js_String (js_orv (js_orv (get payload ''hostPeerId'') from) (Str [])))),
                            (''name'', Str (js_String (js_orv (get payload ''name'') (Str ''Room'')))),
                            (''memberCount'', Num (number_or (get payload ''memberCount'') 0)),
                            (''timestamp'', js_orv (get payload ''timestamp'') (Num now))]
           in (m\<lparr>mg_discovered := AList.update key entry (mg_discovered m)\<rparr>, [ManagerEmit ''room-discovered'' entry]))"

definition to_room :: "jsnum \<Rightarrow> string \<Rightarrow> string \<Rightarrow> jsv \<Rightarrow> jsv \<Rightarrow> manager \<Rightarrow> manager \<times> rt_effect list" where
  "to_room now roomId wire from payload m =
     (case map_of (mg_rooms m) roomId of
        None \<Rightarrow> (m, [])
      | Some r \<Rightarrow> if rm_closed r then (m, [])
          else let (r1, effs) = handleIncoming (env_of now m) (isInvited from roomId m) wire from payload r in (put_room r1 m, effs))"

definition onPeerMessage :: "jsnum \<Rightarrow> jsv \<Rightarrow> manager \<Rightarrow> manager \<times> rt_effect list" where
  "onPeerMessage now msg m =
     (case parseRealtimeMessage now msg (mg_pluginId m) of
        None \<Rightarrow> (m, [])
      | Some p \<Rightarrow>
          let roomId = pm_roomId p; wire = pm_wire p; from = pm_from p; payload = pm_payload p
          in if wire = ''room-presence'' \<and> js_Boolean payload then note_presence now roomId from payload m
             else if wire = ''room-presence-clear'' then
               let host = js_orv (get payload ''hostPeerId'') from
               in (m\<lparr>mg_discovered := AList.delete (js_String host @ '':'' @ roomId) (mg_discovered m)\<rparr>,
                   [ManagerEmit ''room-closed'' (Obj [(''roomId'', Str roomId), (''hostPeerId'', host)])])
             else if wire = ''room-invite'' \<and> js_Boolean from then
               (recordInvite roomId from m,
                [ManagerEmit ''room-invite'' (Obj [(''roomId'', Str roomId), (''hostPeerId'', js_orv (get payload ''hostPeerId'') from),
                   (''name'', get payload ''name''), (''from'', from)])])
             else to_room now roomId wire (js_orv from (get msg ''from'')) payload m)"

fun leave_all :: "jsnum \<Rightarrow> string list \<Rightarrow> manager \<Rightarrow> manager \<times> rt_effect list" where
  "leave_all now [] m = (m, [])"
| "leave_all now (i # is) m = (let (m1, e1) = leaveRoom now i m; (m2, e2) = leave_all now is m1 in (m2, e1 @ e2))"

definition manager_dispose :: "jsnum \<Rightarrow> manager \<Rightarrow> manager \<times> rt_effect list" where
  "manager_dispose now m =
     (let (m1, effs) = leave_all now (map fst (mg_rooms m)) m in (m1\<lparr>mg_rooms := [], mg_invites := [], mg_discovered := []\<rparr>, effs))"

section \<open>Runs of a manager\<close>

definition with_document :: "string \<Rightarrow> (sdoc \<Rightarrow> sdoc \<times> rt_effect list) \<Rightarrow> room \<Rightarrow> room \<times> rt_effect list" where
  "with_document docId f r =
     (case map_of (rm_documents r) docId of
        None \<Rightarrow> (r, [])
      | Some d \<Rightarrow> let (d1, effs) = f d in (r\<lparr>rm_documents := AList.update docId d1 (rm_documents r)\<rparr>, effs))"

definition with_room :: "string \<Rightarrow> (room \<Rightarrow> room \<times> rt_effect list) \<Rightarrow> manager \<Rightarrow> manager \<times> rt_effect list" where
  "with_room roomId f m =
     (case getRoom m roomId of
        None \<Rightarrow> (m, [])
      | Some r \<Rightarrow> let (r1, effs) = f r in (put_room r1 m, effs))"

datatype mg_input =
    Create jsv string jsv
  | Join jsv jsv
  | Invite string jsv
  | Leave string
  | JoinTimeout string
  | Message jsv
  | NewDocument string jsv
  | DocumentInput string string doc_input
  | Dispose

fun mg_step :: "jsnum \<Rightarrow> mg_input \<Rightarrow> manager \<Rightarrow> manager \<times> rt_effect list" where
  "mg_step now (Create selfId randomId opts) m = snd (createRoom now selfId randomId opts m)"
| "mg_step now (Join selfId opts) m = joinRoom now selfId opts m"
| "mg_step now (Invite roomId peerId) m = snd (invite now roomId peerId m)"
| "mg_step now (Leave roomId) m = leaveRoom now roomId m"
| "mg_step now (JoinTimeout roomId) m = joinTimeout now roomId m"
| "mg_step now (Message msg) m = onPeerMessage now msg m"
| "mg_step now (NewDocument roomId opts) m = with_room roomId (createDocument (env_of now m) opts) m"
| "mg_step now (DocumentInput roomId docId i) m =
     with_room roomId (\<lambda>r. with_document docId (doc_step (ctx_of (env_of now m) r) i) r) m"
| "mg_step now Dispose m = manager_dispose now m"

fun mg_run :: "(jsnum \<times> mg_input) list \<Rightarrow> manager \<Rightarrow> manager \<times> rt_effect list" where
  "mg_run [] m = (m, [])"
| "mg_run ((now, i) # is) m = (let (m1, e1) = mg_step now i m; (m2, e2) = mg_run is m1 in (m2, e1 @ e2))"

section \<open>How a room changes\<close>

text \<open>What a room is never changes, and the host's table of members only in these ways.\<close>

definition same_room :: "room \<Rightarrow> room \<Rightarrow> bool" where
  "same_room r r' \<longleftrightarrow> rm_roomId r' = rm_roomId r \<and> rm_isHost r' = rm_isHost r \<and> rm_access r' = rm_access r \<and>
     rm_maxPeers r' = rm_maxPeers r \<and> rm_selfPeerId r' = rm_selfPeerId r \<and> rm_hostPeerId r' = rm_hostPeerId r"

inductive room_change :: "(jsv \<Rightarrow> bool) \<Rightarrow> room \<Rightarrow> room \<Rightarrow> bool" for invited r r' where
  closes: "same_room r r' \<Longrightarrow> rm_closed r' \<Longrightarrow> room_change invited r r'"
| keeps: "same_room r r' \<Longrightarrow> rm_members r' = rm_members r \<Longrightarrow> room_change invited r r'"
| removes: "same_room r r' \<Longrightarrow> rm_isHost r \<Longrightarrow> rm_members r' = AList.delete i (rm_members r) \<Longrightarrow> room_change invited r r'"
| admits: "same_room r r' \<Longrightarrow> rm_isHost r \<Longrightarrow> rm_members r' = AList.update i v (rm_members r) \<Longrightarrow>
    \<not> js_le (rm_maxPeers r) (room_size r) \<Longrightarrow> (rm_access r = ''invite'' \<Longrightarrow> invited i) \<Longrightarrow> room_change invited r r'"
| copies: "same_room r r' \<Longrightarrow> \<not> rm_isHost r \<Longrightarrow>
    (distinct (map fst (rm_members r)) \<Longrightarrow> distinct (map fst (rm_members r'))) \<Longrightarrow> room_change invited r r'"

lemma same_room_refl [simp]: "same_room r r"
  by (simp add: same_room_def)

lemma same_room_simps [simp]:
  "same_room (r\<lparr>rm_documents := ds\<rparr>) r' = same_room r r'" "same_room r (r'\<lparr>rm_documents := ds\<rparr>) = same_room r r'"
  "same_room (r\<lparr>rm_joining := j\<rparr>) r' = same_room r r'" "same_room r (r'\<lparr>rm_joining := j\<rparr>) = same_room r r'"
  "same_room r (r'\<lparr>rm_members := ms\<rparr>) = same_room r r'" "same_room r (r'\<lparr>rm_closed := c\<rparr>) = same_room r r'"
  by (simp_all add: same_room_def)

lemma room_size_documents [simp]: "room_size (r\<lparr>rm_documents := ds\<rparr>) = room_size r"
  by (simp add: room_size_def)

lemma room_change_documents:
  "room_change invited (r\<lparr>rm_documents := ds\<rparr>) r' \<Longrightarrow> room_change invited r r'"
  by (cases rule: room_change.cases, assumption) (simp_all add: room_change.intros)

lemma leave_same [simp]: "same_room r (fst (room_leave env r))" and leave_closes [simp]: "rm_closed (fst (room_leave env r))"
  by (simp_all add: room_leave_def)

lemma admit_members:
  "\<exists>v. rm_members (fst (admit env i payload r)) = AList.update i v (rm_members r)" "same_room r (fst (admit env i payload r))"
  by (auto simp: admit_def Let_def)

lemma host_change:
  assumes "rm_isHost r"
  shows "room_change (\<lambda>j. j = i \<and> invited) r (fst (handleHostWire env invited wire i payload r))"
proof -
  obtain v where v: "rm_members (fst (admit env i payload r)) = AList.update i v (rm_members r)" using admit_members(1) by blast
  have "room_change (\<lambda>j. j = i \<and> invited) r (fst (admit env i payload r))"
    if "\<not> js_le (rm_maxPeers r) (room_size r)" "rm_access r = ''invite'' \<longrightarrow> invited"
    using that assms v admit_members(2) by (auto intro!: admits)
  moreover have "room_change (\<lambda>j. j = i \<and> invited) r (r\<lparr>rm_members := AList.delete i (rm_members r)\<rparr>)"
    using assms by (auto intro!: removes)
  moreover have "room_change (\<lambda>j. j = i \<and> invited) r r" by (simp add: keeps)
  ultimately show ?thesis by (auto simp: handleHostWire_def Let_def)
qed

lemma distinct_add_members: "distinct (map fst ms) \<Longrightarrow> distinct (map fst (add_members env xs ms))"
  by (induction env xs ms rule: add_members.induct) (simp_all add: distinct_update)

lemma client_change:
  assumes "\<not> rm_isHost r"
  shows "room_change invited r (fst (handleClientWire env wire i payload r))"
proof -
  let ?r' = "fst (handleClientWire env wire i payload r)"
  obtain r1 e1 r2 e2 where leave: "room_leave env r = (r1, e1)" "room_leave env (r\<lparr>rm_joining := False\<rparr>) = (r2, e2)" by (metis surj_pair)
  have "same_room r r1" "rm_closed r1" "same_room r r2" "rm_closed r2"
    using leave_same [of _ env] leave_closes [of env] leave by (metis fst_conv same_room_simps(3))+
  then have "same_room r ?r' \<and> (rm_closed ?r' \<or> (distinct (map fst (rm_members r)) \<longrightarrow> distinct (map fst (rm_members ?r'))))"
    by (simp add: handleClientWire_def Let_def distinct_add_members distinct_update distinct_delete leave)
  then show ?thesis using assms by (auto intro: closes copies)
qed

lemma incoming_change: "room_change (\<lambda>j. j = i \<and> invited) r (fst (handleIncoming env invited wire i payload r))"
proof (cases "rm_closed r \<or> \<not> js_Boolean i")
  case True
  then show ?thesis by (simp add: handleIncoming_def keeps)
next
  case False
  obtain docs e1 where docs: "docs_handle (ctx_of env r) wire i payload (rm_documents r) = (docs, e1)" by (metis surj_pair)
  let ?r1 = "r\<lparr>rm_documents := docs\<rparr>"
  have "fst (handleIncoming env invited wire i payload r) = (if wire = ''room-msg'' then ?r1
      else if rm_isHost r then fst (handleHostWire env invited wire i payload ?r1) else fst (handleClientWire env wire i payload ?r1))"
    using False docs by (simp add: handleIncoming_def Let_def split: prod.splits)
  then have "room_change (\<lambda>j. j = i \<and> invited) ?r1 (fst (handleIncoming env invited wire i payload r))"
    using host_change [of ?r1 i invited env wire payload] client_change [of ?r1 "\<lambda>j. j = i \<and> invited" env wire i payload]
    by (simp add: keeps)
  then show ?thesis by (rule room_change_documents)
qed

section \<open>The rooms of a manager\<close>

text \<open>The host's plugin invites a peer to a room; a peer sends the host a \<open>room-invite\<close> for that room.\<close>

definition host_invited :: "(jsnum \<times> mg_input) list \<Rightarrow> string \<Rightarrow> jsv \<Rightarrow> bool" where
  "host_invited hist roomId p \<longleftrightarrow> Invite roomId p \<in> set (map snd hist)"

definition sent_invite :: "string \<Rightarrow> (jsnum \<times> mg_input) list \<Rightarrow> string \<Rightarrow> jsv \<Rightarrow> bool" where
  "sent_invite pluginId hist roomId p \<longleftrightarrow> (\<exists>(now, x) \<in> set hist. case x of
       Message msg \<Rightarrow> (case parseRealtimeMessage now msg pluginId of
          Some q \<Rightarrow> pm_wire q = ''room-invite'' \<and> pm_roomId q = roomId \<and> pm_from q = p | None \<Rightarrow> False)
     | _ \<Rightarrow> False)"

text \<open>The inputs after which the manager's table \<open>invites\<close> may hold a peer: either of the two.\<close>

definition invited_in :: "string \<Rightarrow> (jsnum \<times> mg_input) list \<Rightarrow> string \<Rightarrow> jsv \<Rightarrow> bool" where
  "invited_in pluginId hist roomId p = list_ex (\<lambda>(now, x). case x of
       Invite i q \<Rightarrow> i = roomId \<and> q = p
     | Message msg \<Rightarrow> (case parseRealtimeMessage now msg pluginId of
          Some q \<Rightarrow> pm_wire q = ''room-invite'' \<and> pm_roomId q = roomId \<and> pm_from q = p | None \<Rightarrow> False)
     | _ \<Rightarrow> False) hist"

definition host_ok :: "(jsv \<Rightarrow> bool) \<Rightarrow> room \<Rightarrow> bool" where
  "host_ok invited r \<longleftrightarrow>
     (case rm_maxPeers r of Fin q \<Rightarrow> 2 \<le> q \<and> q \<le> 64 \<and> of_nat (length (rm_members r)) < q + 1 | _ \<Rightarrow> False) \<and>
     (rm_access r = ''invite'' \<longrightarrow> list_all (\<lambda>p. p = rm_selfPeerId r \<or> invited p) (map fst (rm_members r)))"

definition room_ok :: "(jsv \<Rightarrow> bool) \<Rightarrow> string \<Rightarrow> room \<Rightarrow> bool" where
  "room_ok invited i r \<longleftrightarrow> rm_roomId r = i \<and> \<not> rm_closed r \<and> distinct (map fst (rm_members r)) \<and> (rm_isHost r \<longrightarrow> host_ok invited r)"

definition manager_ok :: "(jsnum \<times> mg_input) list \<Rightarrow> manager \<Rightarrow> bool" where
  "manager_ok hist m \<longleftrightarrow>
     list_all (\<lambda>(i, r). room_ok (invited_in (mg_pluginId m) hist i) i r) (mg_rooms m) \<and>
     list_all (\<lambda>(i, ps). list_all (invited_in (mg_pluginId m) hist i) ps) (mg_invites m)"

lemma invited_in_cases: "invited_in pluginId hist roomId p \<Longrightarrow> host_invited hist roomId p \<or> sent_invite pluginId hist roomId p"
  unfolding invited_in_def host_invited_def sent_invite_def list_ex_iff
  by (force split: mg_input.splits)

lemma length_update_le: "length (AList.update k v al) \<le> Suc (length al)"
  by (induction al) auto

lemma length_delete_le: "length (AList.delete k al) \<le> length al"
  by (simp add: AList.delete_eq)

lemma host_ok_change:
  assumes "host_ok P r" "room_change Q r r'" "rm_isHost r" "\<not> rm_closed r'" "\<And>j. Q j \<Longrightarrow> P j"
  shows "host_ok P r'"
proof -
  obtain q where q: "rm_maxPeers r = Fin q" "2 \<le> q" "q \<le> 64" "of_nat (length (rm_members r)) < q + 1"
    using assms(1) by (auto simp: host_ok_def split: jsnum.splits)
  have who: "p = rm_selfPeerId r \<or> P p" if "rm_access r = ''invite''" "p \<in> fst ` set (rm_members r)" for p
    using assms(1) that by (auto simp: host_ok_def list_all_iff)
  show ?thesis
    using assms(2)
  proof cases
    case keeps
    then show ?thesis using q who by (auto simp: host_ok_def same_room_def list_all_iff)
  next
    case (removes i)
    then have "of_nat (length (rm_members r')) < q + 1"
      using q(4) length_delete_le [of i "rm_members r"] by (simp add: le_less_trans [OF of_nat_mono])
    then show ?thesis using removes q who by (auto simp: host_ok_def same_room_def list_all_iff delete_elem)
  next
    case (admits i v)
    then have "of_nat (length (rm_members r)) < q" using q(1) by (simp add: room_size_def jn_def)
    then have "of_nat (length (rm_members r')) < q + 1"
      using admits length_update_le [of i v "rm_members r"] of_nat_mono [of "length (rm_members r')" "Suc (length (rm_members r))"]
      by (metis (no_types, lifting) add.commute add_less_cancel_right le_less_trans of_nat_Suc)
    moreover have "p = rm_selfPeerId r \<or> P p" if "rm_access r = ''invite''" "p \<in> fst ` set (rm_members r')" for p
      using that admits who assms(5) by (auto simp only: dom_update)
    ultimately show ?thesis using admits q by (auto simp: host_ok_def same_room_def list_all_iff)
  qed (use assms(3,4) in simp_all)
qed

lemma room_ok_change:
  assumes "room_ok P i r" "room_change Q r r'" "\<not> rm_closed r'" "\<And>j. Q j \<Longrightarrow> P j"
  shows "room_ok P i r'"
proof -
  have host: "rm_isHost r \<Longrightarrow> host_ok P r'" using host_ok_change [OF _ assms(2) _ assms(3,4)] assms(1) by (simp add: room_ok_def)
  show ?thesis using assms(2)
    by cases (use assms(1,3) host in \<open>simp_all add: room_ok_def same_room_def distinct_update distinct_delete\<close>)
qed

lemma room_ok_mono: "room_ok P i r \<Longrightarrow> (\<And>j. P j \<Longrightarrow> Q j) \<Longrightarrow> room_ok Q i r"
  by (auto simp: room_ok_def host_ok_def list_all_iff)

lemma invited_in_append [simp]: "invited_in p (xs @ ys) i j = (invited_in p xs i j \<or> invited_in p ys i j)"
  by (simp add: invited_in_def)

lemma manager_ok_mono: "manager_ok hist m \<Longrightarrow> manager_ok (hist @ later) m"
  unfolding manager_ok_def
  by (auto simp: list_all_iff intro: room_ok_mono)

lemma manager_ok_room:
  assumes "manager_ok hist m" "map_of (mg_rooms m) i = Some r"
  shows "room_ok (invited_in (mg_pluginId m) hist i) i r"
  using assms map_of_SomeD [OF assms(2)] by (auto simp: manager_ok_def list_all_iff)

lemma put_room_ok:
  assumes "manager_ok hist m" "rm_roomId r = i" "\<not> rm_closed r \<Longrightarrow> room_ok (invited_in (mg_pluginId m) hist i) i r"
  shows "manager_ok hist (put_room r m)"
  using assms by (auto simp: manager_ok_def put_room_def removeRoom_def list_all_iff delete_elem dest!: update_elem)

lemma manager_change:
  assumes "manager_ok hist m" "map_of (mg_rooms m) i = Some r" "room_change Q r r'"
    "\<And>j. Q j \<Longrightarrow> invited_in (mg_pluginId m) hist i j"
  shows "manager_ok hist (put_room r' m)"
proof (rule put_room_ok [OF assms(1)])
  note ok = manager_ok_room [OF assms(1,2)]
  show "rm_roomId r' = i" using assms(3) ok by cases (auto simp: same_room_def room_ok_def)
  show "room_ok (invited_in (mg_pluginId m) hist i) i r'" if "\<not> rm_closed r'"
    by (rule room_ok_change [OF ok assms(3) that assms(4)])
qed

lemma create_ok:
  assumes "manager_ok hist m"
  shows "manager_ok hist (fst (snd (createRoom now selfId randomId opts m)))"
proof -
  have max: "case max_peers opts of Fin q \<Rightarrow> 2 \<le> q \<and> q \<le> 64 | _ \<Rightarrow> False"
    using number_or_not_NaN [of "get opts ''maxPeers''" 16] unfolding max_peers_def
    by (cases "number_or (get opts ''maxPeers'') 16") (simp_all add: js_max_def js_min_def js_less_def)
  then have "host_ok P (fst (RealtimeRoom env roomId name access (max_peers opts) True selfId selfId))" for P env roomId name access
    by (auto simp: host_ok_def RealtimeRoom_def Let_def split: jsnum.splits)
  moreover have "rm_roomId r = roomId \<and> \<not> rm_closed r \<and> distinct (map fst (rm_members r))"
    if "r = fst (RealtimeRoom env roomId name access (max_peers opts) True selfId selfId)" for r env roomId name access
    using that by (simp add: RealtimeRoom_def Let_def)
  ultimately have new: "room_ok P roomId (fst (RealtimeRoom env roomId name access (max_peers opts) True selfId selfId))" for P env roomId name access
    by (simp add: room_ok_def)
  define roomId where "roomId = js_String (js_orv (get opts ''roomId'') (Str randomId))"
  define access where "access = (if get opts ''access'' = Str ''public'' then ''public'' else ''invite'')"
  obtain r effs where r: "RealtimeRoom (env_of now m) roomId (room_name opts) access (max_peers opts) True selfId selfId = (r, effs)" by (metis surj_pair)
  have "room_ok P roomId r" for P using new [of P roomId "env_of now m" "room_name opts" access] r by simp
  moreover have "createRoom now selfId randomId opts m =
      (if \<not> js_Boolean selfId then (None, m, [Warn ''createRoom: no self peer id''])
       else case map_of (mg_rooms m) roomId of Some r \<Rightarrow> (Some r, m, []) | None \<Rightarrow> (Some r, m\<lparr>mg_rooms := mg_rooms m @ [(roomId, r)]\<rparr>, effs))"
    by (simp only: createRoom_def roomId_def [symmetric] access_def [symmetric] Let_def r prod.case)
  ultimately show ?thesis using assms by (simp add: manager_ok_def split: option.splits)
qed

lemma join_ok:
  assumes "manager_ok hist m"
  shows "manager_ok hist (fst (joinRoom now selfId opts m))"
  using assms by (simp add: joinRoom_def manager_ok_def Let_def room_ok_def RealtimeRoom_def)

lemma record_ok:
  assumes "manager_ok hist m" "invited_in (mg_pluginId m) hist i p"
  shows "manager_ok hist (recordInvite i p m)"
proof -
  have old: "\<forall>p \<in> set ps. invited_in (mg_pluginId m) hist j p" if "(j, ps) \<in> set (mg_invites m)" for j ps
    using assms(1) that by (auto simp: manager_ok_def list_all_iff)
  have "invited_in (mg_pluginId m) hist j q" if "(j, ps) \<in> set (mg_invites (recordInvite i p m))" "q \<in> set ps" for j ps q
    using that old assms(2) map_of_SomeD [of "mg_invites m" i]
    by (fastforce simp: recordInvite_def dest!: update_elem split: if_splits option.splits)
  moreover have "mg_rooms (recordInvite i p m) = mg_rooms m" "mg_pluginId (recordInvite i p m) = mg_pluginId m"
    by (simp_all add: recordInvite_def)
  ultimately show ?thesis using assms(1) by (auto simp: manager_ok_def list_all_iff)
qed

lemma put_ok:
  assumes "manager_ok hist m" "map_of (mg_rooms m) i = Some r" "room_change (\<lambda>_. False) r (fst x)"
  shows "manager_ok hist (fst (case x of (r1, effs) \<Rightarrow> (put_room r1 m, f effs)))"
  using manager_change [OF assms] by (cases x) simp

lemma leave_ok: "manager_ok hist m \<Longrightarrow> manager_ok hist (fst (leaveRoom now i m))"
proof (cases "map_of (mg_rooms m) i")
  case (Some r)
  assume "manager_ok hist m"
  then show ?thesis unfolding leaveRoom_def Some option.case Let_def
    by (rule put_ok [OF _ Some closes [OF leave_same leave_closes], where f = id, simplified])
qed (simp add: leaveRoom_def)

lemma timeout_ok:
  assumes "manager_ok hist m"
  shows "manager_ok hist (fst (joinTimeout now i m))"
proof (cases "map_of (mg_rooms m) i")
  case (Some r)
  have "room_change (\<lambda>_. False) r (fst (room_leave (env_of now m) (r\<lparr>rm_joining := False\<rparr>)))"
    by (rule closes) (simp_all add: room_leave_def)
  from put_ok [OF assms Some this, of "\<lambda>effs. effs @ [ResolveJoin i False]"] assms Some show ?thesis
    by (simp add: joinTimeout_def)
qed (simp add: joinTimeout_def assms)

lemma incoming_ok:
  assumes "manager_ok hist m"
  shows "manager_ok hist (fst (to_room now i wire sender payload m))"
proof (cases "map_of (mg_rooms m) i")
  case (Some r)
  have "invited_in (mg_pluginId m) hist i j" if "j = sender \<and> isInvited sender i m" for j
    using that assms by (auto simp: isInvited_def manager_ok_def list_all_iff dest!: map_of_SomeD split: option.splits)
  from manager_change [OF assms Some incoming_change this] assms Some show ?thesis
    by (simp add: to_room_def split: prod.splits) (metis fst_conv)
qed (simp add: to_room_def assms)

lemma presence_ok [simp]:
  "manager_ok hist (m\<lparr>mg_discovered := ds\<rparr>) = manager_ok hist m"
  by (simp add: manager_ok_def)

lemma message_ok:
  assumes "manager_ok hist m"
  shows "manager_ok (hist @ [(now, Message msg)]) (fst (onPeerMessage now msg m))"
proof -
  let ?hist = "hist @ [(now, Message msg)]"
  have ok: "manager_ok ?hist m" by (rule manager_ok_mono [OF assms])
  show ?thesis
  proof (cases "parseRealtimeMessage now msg (mg_pluginId m)")
    case (Some p)
    have "manager_ok ?hist (recordInvite (pm_roomId p) (pm_from p) m)" if "pm_wire p = ''room-invite''"
      by (rule record_ok [OF ok]) (use that Some in \<open>simp add: invited_in_def\<close>)
    then show ?thesis using ok incoming_ok [OF ok] Some
      by (simp add: onPeerMessage_def note_presence_def Let_def)
  qed (simp add: onPeerMessage_def ok)
qed

lemma with_room_ok:
  assumes "manager_ok hist m" "\<And>r. room_change (\<lambda>_. False) r (fst (f r))"
  shows "manager_ok hist (fst (with_room i f m))"
proof (cases "getRoom m i")
  case (Some r)
  then have "map_of (mg_rooms m) i = Some r" by (simp add: getRoom_def split: option.splits if_splits)
  from put_ok [OF assms(1) this assms(2), of id] Some show ?thesis by (simp add: with_room_def)
qed (simp add: with_room_def assms)

lemma document_change: "room_change P r (fst (createDocument env opts r))" "room_change P r (fst (with_document docId f r))"
  by (auto simp: createDocument_def with_document_def Let_def split: option.splits prod.splits intro!: keeps)

lemma leave_all_ok: "manager_ok hist m \<Longrightarrow> manager_ok hist (fst (leave_all now is m))"
proof (induction "is" arbitrary: m)
  case (Cons i "is")
  have "fst (leave_all now (i # is) m) = fst (leave_all now is (fst (leaveRoom now i m)))" by (simp split: prod.splits)
  then show ?case using Cons.IH [OF leave_ok [OF Cons.prems]] by simp
qed simp

lemma step_ok: "manager_ok hist m \<Longrightarrow> manager_ok (hist @ [(now, i)]) (fst (mg_step now i m))"
proof (cases i)
  case (Invite roomId p)
  assume "manager_ok hist m"
  then have ok: "manager_ok (hist @ [(now, i)]) m" by (rule manager_ok_mono)
  have "manager_ok (hist @ [(now, i)]) (recordInvite (rm_roomId r) p m)" if "map_of (mg_rooms m) roomId = Some r" for r
    by (rule record_ok [OF ok]) (use manager_ok_room [OF ok that] Invite in \<open>simp add: room_ok_def invited_in_def\<close>)
  then show ?thesis using ok Invite by (simp add: invite_def split: option.splits)
next
  case Dispose
  assume "manager_ok hist m"
  then show ?thesis using Dispose by (simp add: manager_dispose_def manager_ok_def split: prod.splits)
qed (auto intro!: manager_ok_mono create_ok join_ok leave_ok timeout_ok message_ok with_room_ok document_change)

lemma run_ok: "manager_ok hist m \<Longrightarrow> manager_ok (hist @ is) (fst (mg_run is m))"
proof (induction "is" arbitrary: m hist)
  case (Cons x "is")
  obtain now i where x: "x = (now, i)" by (cases x)
  have "fst (mg_run (x # is) m) = fst (mg_run is (fst (mg_step now i m)))" by (simp add: x split: prod.splits)
  then show ?case using Cons.IH [OF step_ok [OF Cons.prems, of now i]] x by simp
qed simp

lemma new_manager_ok: "manager_ok [] (RealtimeManager pluginId)"
  by (simp add: manager_ok_def RealtimeManager_def)

lemma put_room_plugin [simp]: "mg_pluginId (put_room r m) = mg_pluginId m"
  by (simp add: put_room_def removeRoom_def)

lemma recordInvite_plugin [simp]: "mg_pluginId (recordInvite i p m) = mg_pluginId m"
  by (simp add: recordInvite_def)

lemma leaveRoom_plugin [simp]: "mg_pluginId (fst (leaveRoom now i m)) = mg_pluginId m"
  by (simp add: leaveRoom_def split: option.splits prod.splits)

lemma leave_all_plugin [simp]: "mg_pluginId (fst (leave_all now is m)) = mg_pluginId m"
proof (induction "is" arbitrary: m)
  case (Cons i "is")
  have "fst (leave_all now (i # is) m) = fst (leave_all now is (fst (leaveRoom now i m)))" by (simp split: prod.splits)
  then show ?case using Cons.IH by simp
qed simp

lemma step_plugin [simp]: "mg_pluginId (fst (mg_step now i m)) = mg_pluginId m"
proof (cases i)
  case Dispose
  then show ?thesis using leave_all_plugin [of now "map fst (mg_rooms m)" m]
    by (cases "leave_all now (map fst (mg_rooms m)) m") (simp add: manager_dispose_def)
next
  case (Message msg)
  then show ?thesis
    by (simp add: onPeerMessage_def note_presence_def to_room_def Let_def split: option.splits prod.splits)
qed (simp_all add: createRoom_def joinRoom_def invite_def joinTimeout_def with_room_def Let_def split: option.splits prod.splits)

lemma run_plugin [simp]: "mg_pluginId (fst (mg_run is m)) = mg_pluginId m"
proof (induction "is" arbitrary: m)
  case (Cons x "is")
  obtain now i where x: "x = (now, i)" by (cases x)
  have "fst (mg_run (x # is) m) = fst (mg_run is (fst (mg_step now i m)))" by (simp add: x split: prod.splits)
  then show ?case using Cons.IH by simp
qed simp

lemma run_room:
  assumes "mg_run is (RealtimeManager pluginId) = (m, effs)" "(i, r) \<in> set (mg_rooms m)"
  shows "room_ok (invited_in pluginId is i) i r"
proof -
  have "mg_pluginId (RealtimeManager pluginId) = pluginId" by (simp add: RealtimeManager_def)
  then have "mg_pluginId m = pluginId" using run_plugin [of "is" "RealtimeManager pluginId"] assms(1) by simp
  then show ?thesis using run_ok [OF new_manager_ok, of "is" pluginId] assms by (auto simp: manager_ok_def list_all_iff)
qed

text \<open>
  The rooms of a device are well formed whatever its plugin and the other peers do: each room is
  stored under its own id and open, no peer is twice in its table of members, and a room the device
  hosts has a limit between 2 and 64 and no more members than the limit rounded up.
\<close>

theorem rooms_well_formed:
  assumes "mg_run is (RealtimeManager pluginId) = (m, effs)" "(i, r) \<in> set (mg_rooms m)"
  shows "rm_roomId r = i \<and> \<not> rm_closed r \<and> distinct (map fst (rm_members r)) \<and>
    (rm_isHost r \<longrightarrow> (\<exists>q. rm_maxPeers r = Fin q \<and> 2 \<le> q \<and> q \<le> 64 \<and> of_nat (length (rm_members r)) < q + 1))"
  using run_room [OF assms] by (auto simp: room_ok_def host_ok_def split: jsnum.splits)

text \<open>
  C19. In an invite-only room, a member other than the host was invited by the host's plugin, unless that member itself sent the
  host a \<open>room-invite\<close> for the room. The exception is real: \<open>_onPeerMessage\<close> records the sender of a \<open>room-invite\<close> as invited,
  so a peer nobody invited gets in that way (\<open>stranger_invites_himself\<close> below), against the documentation of invite-only rooms.
  There is no other way in: not through the room's documents, another room, a repeated join or a room that was closed and made anew.
\<close>

theorem members_invited_by_host:
  assumes "mg_run is (RealtimeManager pluginId) = (m, effs)" "(i, r) \<in> set (mg_rooms m)"
    "rm_isHost r" "rm_access r = ''invite''" "p \<in> set (map fst (rm_members r))" "p \<noteq> rm_selfPeerId r"
    "\<not> sent_invite pluginId is i p"
  shows "host_invited is i p"
  using run_room [OF assms(1,2)] assms(3-7) invited_in_cases [of pluginId "is" i p] by (auto simp: room_ok_def host_ok_def list_all_iff)

definition peer_message :: "string \<Rightarrow> string \<Rightarrow> jsv \<Rightarrow> mg_input" where
  "peer_message sender wire payload = Message (spread (buildRealtimeEnvelope ''notes'' ''r1'' wire payload) [(''from'', Str sender)])"

definition invited_run :: "(jsnum \<times> mg_input) list" where
  "invited_run = [(Fin 1, Create (Str ''alice'') [] (Obj [(''roomId'', Str ''r1'')])), (Fin 2, Invite ''r1'' (Str ''bob'')),
     (Fin 3, peer_message ''bob'' ''room-join'' (Obj []))]"

definition invited_room :: room where
  "invited_room = snd (hd (mg_rooms (fst (mg_run invited_run (RealtimeManager ''notes'')))))"

lemma invited_room_stored: "(''r1'', invited_room) \<in> set (mg_rooms (fst (mg_run invited_run (RealtimeManager ''notes''))))"
  by code_simp

theorem rooms_well_formed_witness:
  "rm_members invited_room \<noteq> [] \<and> distinct (map fst (rm_members invited_room))"
proof -
  have "rm_members invited_room \<noteq> []" by code_simp
  then show ?thesis using rooms_well_formed [OF prod.collapse [symmetric] invited_room_stored] by simp
qed

theorem members_invited_by_host_witness: "host_invited invited_run ''r1'' (Str ''bob'')"
proof -
  have "rm_isHost invited_room" "rm_access invited_room = ''invite''" "Str ''bob'' \<in> set (map fst (rm_members invited_room))"
    "Str ''bob'' \<noteq> rm_selfPeerId invited_room" by code_simp+
  moreover have "pm_wire q \<noteq> ''room-invite''"
    if "parseRealtimeMessage (Fin 3) (case peer_message ''bob'' ''room-join'' (Obj []) of Message msg \<Rightarrow> msg | _ \<Rightarrow> Null) ''notes'' = Some q" for q
  proof -
    have "map_option pm_wire (parseRealtimeMessage (Fin 3) (case peer_message ''bob'' ''room-join'' (Obj []) of Message msg \<Rightarrow> msg | _ \<Rightarrow> Null) ''notes'') = Some ''room-join''"
      by code_simp
    then show ?thesis using that by auto
  qed
  then have "\<not> sent_invite ''notes'' invited_run ''r1'' (Str ''bob'')"
    by (auto simp: sent_invite_def invited_run_def peer_message_def split: option.splits)
  ultimately show ?thesis by (intro members_invited_by_host [OF prod.collapse [symmetric] invited_room_stored])
qed

text \<open>
  The invitation need not come from the host: an unknown peer that sends the host a \<open>room-invite\<close> for the
  host's own room is recorded as invited, and its \<open>room-join\<close> is then accepted.
\<close>

lemma stranger_invites_himself:
  "let m = fst (mg_run [(Fin 1, Create (Str ''alice'') [] (Obj [(''roomId'', Str ''r1'')])),
       (Fin 2, peer_message ''mallory'' ''room-invite'' (Obj [])), (Fin 3, peer_message ''mallory'' ''room-join'' (Obj []))] (RealtimeManager ''notes''))
   in case map_of (mg_rooms m) ''r1'' of Some r \<Rightarrow> rm_access r = ''invite'' \<and> Str ''mallory'' \<in> set (map fst (rm_members r)) | None \<Rightarrow> False"
  by code_simp

text \<open>What the host tells its members about others joining and leaving does not reach their tables.\<close>

lemma room_messages_change_no_members:
  "rm_members (fst (handleIncoming env invited ''room-msg'' sender payload r)) = rm_members r"
  by (simp add: handleIncoming_def Let_def split: prod.splits)

section \<open>Joining\<close>

text \<open>The messages a peer gets out of a list of effects, and a peer that handles one.\<close>

definition sent_to :: "jsv \<Rightarrow> rt_effect list \<Rightarrow> jsv list" where
  "sent_to p effs = concat (map (\<lambda>e. case e of Send q envelope \<Rightarrow> if q = p then [envelope] else []
     | SendMany ids envelope \<Rightarrow> if p \<in> set ids then [envelope] else [] | _ \<Rightarrow> []) effs)"

definition receive :: "room_env \<Rightarrow> jsv \<Rightarrow> jsv \<Rightarrow> room \<Rightarrow> room" where
  "receive env sender envelope c =
     (let body = get envelope ''pluginRealtime''
      in fst (handleIncoming env False (js_String (get body ''wire'')) sender (get body ''payload'') c))"

text \<open>A table of members with the entries the host makes, at a clock that is not at zero.\<close>

definition entries_ok :: "(jsv \<times> jsv) list \<Rightarrow> bool" where
  "entries_ok ms \<longleftrightarrow> distinct (map fst ms) \<and>
     list_all (\<lambda>(k, v). js_Boolean k \<and> v = member k (get v ''name'') (get v ''joinedAt'') \<and> js_Boolean (get v ''joinedAt'')) ms"

definition documents_ok :: "(string \<times> sdoc) list \<Rightarrow> bool" where
  "documents_ok ds \<longleftrightarrow> distinct (map fst ds) \<and> list_all (\<lambda>(i, d). sd_docId d = i) ds"

lemma sent_to_simps [simp]:
  "sent_to p [] = []" "sent_to p (xs @ ys) = sent_to p xs @ sent_to p ys"
  "sent_to p (RoomEmit n v # xs) = sent_to p xs" "sent_to p (Broadcast v # xs) = sent_to p xs"
  by (simp_all add: sent_to_def)

lemma sent_to_sends:
  "js_Boolean p \<Longrightarrow> sent_to p (sendWire ctx p wire payload) = [buildRealtimeEnvelope (rc_pluginId ctx) (rc_roomId ctx) wire payload]"
  "p \<notin> set ps \<Longrightarrow> sent_to p (sendWireMany ctx ps wire payload) = []"
  by (auto simp: sent_to_def sendWire_def sendWireMany_def Let_def)

lemma receive_envelope:
  "receive env sender (buildRealtimeEnvelope plugin roomId wire payload) c = fst (handleIncoming env False wire sender payload c)"
  by (simp add: receive_def buildRealtimeEnvelope_def)

lemma update_new_member: "k \<notin> set (map fst al) \<Longrightarrow> AList.update k v al = al @ [(k, v)]"
  by (induction al) auto

lemma add_members_same:
  "entries_ok ms \<Longrightarrow> distinct (map fst acc @ map fst ms) \<Longrightarrow> add_members env (map snd ms) acc = acc @ ms"
proof (induction ms arbitrary: acc)
  case (Cons e ms)
  obtain k v where e: "e = (k, v)" "js_Boolean k" "v = member k (get v ''name'') (get v ''joinedAt'')" "js_Boolean (get v ''joinedAt'')"
    using Cons.prems(1) by (cases e) (auto simp: entries_ok_def)
  have k: "get v ''peerId'' = k" by (subst e(3)) (simp add: member_def)
  have "entries_ok ms" using Cons.prems(1) by (simp add: entries_ok_def)
  moreover have "AList.update k (member k (get v ''name'') (js_orv (get v ''joinedAt'') (Num (re_now env)))) acc = acc @ [e]"
    using Cons.prems(2) e by (subst update_new_member) (auto simp: js_orv_def)
  ultimately show ?case using Cons.IH [of "acc @ [e]"] Cons.prems(2) e(1,2) k by simp
qed simp

lemma docs_handle_other:
  "wire \<noteq> ''doc-sync'' \<Longrightarrow> wire \<noteq> ''doc-op'' \<Longrightarrow> docs_handle ctx wire sender payload ds = (ds, [])"
  by (induction ds) (auto simp: handleWire_def)

lemma map_of_docs_handle:
  "map_of (fst (docs_handle ctx wire sender payload ds)) i = map_option (\<lambda>d. fst (handleWire ctx wire sender payload d)) (map_of ds i)"
  by (induction ds) (auto split: prod.splits)

definition sync_message :: "room_env \<Rightarrow> string \<Rightarrow> sdoc \<Rightarrow> jsv" where
  "sync_message env roomId d = buildRealtimeEnvelope (re_pluginId env) roomId ''doc-sync''
     (Obj [(''docId'', Str (sd_docId d)), (''state'', sd_state d), (''revision'', Num (sd_revision d))])"

lemma admitted_messages:
  assumes "js_Boolean p" "p \<noteq> rm_selfPeerId r"
  shows "sent_to p (snd (admit env p payload r)) =
    buildRealtimeEnvelope (re_pluginId env) (rm_roomId r) ''room-join-ok'' (Obj [(''roomId'', Str (rm_roomId r)), (''name'', Str (rm_name r)),
      (''hostPeerId'', rm_hostPeerId r), (''members'', Arr (map snd (rm_members (fst (admit env p payload r)))))]) #
    map (sync_message env (rm_roomId r) \<circ> snd) (rm_documents r)"
proof -
  have docs: "sent_to p (concat (map (doc_sync_to env p r1 \<circ> snd) ds)) = map (sync_message env (rm_roomId r1) \<circ> snd) ds" for r1 ds
    by (induction ds) (simp_all add: doc_sync_to_def sent_to_sends(1) assms(1) sync_message_def ctx_of_def)
  have "sent_to p (public_presence env r1) = []" for r1 by (simp add: public_presence_def publishPresence_def)
  then show ?thesis by (simp add: admit_def Let_def docs sent_to_sends assms(1)) (simp add: ctx_of_def)
qed

text \<open>A client's documents while messages of the host arrive.\<close>

lemma receive_sync:
  assumes "\<not> rm_isHost c" "\<not> rm_closed c" "js_Boolean sender"
  shows "receive env sender (sync_message env' roomId d) c = c\<lparr>rm_documents := fst (docs_handle (ctx_of env c) ''doc-sync'' sender
    (Obj [(''docId'', Str (sd_docId d)), (''state'', sd_state d), (''revision'', Num (sd_revision d))]) (rm_documents c))\<rparr>"
  using assms by (simp add: sync_message_def receive_envelope handleIncoming_def handleClientWire_def Let_def split: prod.splits)

definition receive_all :: "room_env \<Rightarrow> jsv \<Rightarrow> jsv list \<Rightarrow> room \<Rightarrow> room" where
  "receive_all env sender envelopes c = fold (receive env sender) envelopes c"

definition client_room :: "room \<Rightarrow> bool" where
  "client_room c \<longleftrightarrow> \<not> rm_isHost c \<and> \<not> rm_closed c"

lemma receive_one:
  assumes "client_room c" "js_Boolean sender" "map_of (rm_documents c) i = Some cd" "sd_docId cd = i"
    "sd_revision cd = jn k" "sd_revision d = jn n"
  shows "map_of (rm_documents (receive env sender (sync_message env' roomId d) c)) i =
      Some (if sd_docId d = i \<and> k \<le> n then cd\<lparr>sd_state := sd_state d, sd_revision := jn n\<rparr> else cd)"
    and "rm_members (receive env sender (sync_message env' roomId d) c) = rm_members c"
    and "client_room (receive env sender (sync_message env' roomId d) c)"
proof -
  let ?p = "Obj [(''docId'', Str (sd_docId d)), (''state'', sd_state d), (''revision'', Num (jn n))]"
  have "fst (handleWire ctx ''doc-sync'' sender ?p cd) = (if sd_docId d = i \<and> k \<le> n then cd\<lparr>sd_state := sd_state d, sd_revision := jn n\<rparr> else cd)" for ctx
  proof (cases "sd_docId d = i")
    case True
    then show ?thesis using handle_sync [of cd "sd_state d" n ?p k] assms(4,5) by (simp add: describes_def)
  next
    case False
    then show ?thesis using assms(4) by (simp add: handleWire_def)
  qed
  then show "map_of (rm_documents (receive env sender (sync_message env' roomId d) c)) i =
      Some (if sd_docId d = i \<and> k \<le> n then cd\<lparr>sd_state := sd_state d, sd_revision := jn n\<rparr> else cd)"
    using assms by (simp add: receive_sync client_room_def map_of_docs_handle)
qed (use assms in \<open>simp_all add: receive_sync client_room_def\<close>)

definition latest_of :: "(string \<times> sdoc) list \<Rightarrow> string \<Rightarrow> sdoc \<Rightarrow> sdoc \<Rightarrow> bool" where
  "latest_of ds i cd cd' \<longleftrightarrow> (case map_of ds i of None \<Rightarrow> cd' = cd | Some d \<Rightarrow> sd_state cd' = sd_state d \<and> sd_revision cd' = sd_revision d)"

lemma receive_syncs:
  assumes "client_room c" "js_Boolean sender" "documents_ok ds" "list_all (\<lambda>(i, d). \<exists>n. sd_revision d = jn n) ds"
    "map_of (rm_documents c) i = Some cd" "sd_docId cd = i" "sd_revision cd = jn k" "\<forall>d n. (i, d) \<in> set ds \<and> sd_revision d = jn n \<longrightarrow> k \<le> n"
  shows "\<exists>cd'. map_of (rm_documents (receive_all env sender (map (sync_message env' roomId \<circ> snd) ds) c)) i = Some cd' \<and> latest_of ds i cd cd'"
    and "rm_members (receive_all env sender (map (sync_message env' roomId \<circ> snd) ds) c) = rm_members c"
proof -
  have "(\<exists>cd'. map_of (rm_documents (receive_all env sender (map (sync_message env' roomId \<circ> snd) ds) c)) i = Some cd' \<and> latest_of ds i cd cd') \<and>
      rm_members (receive_all env sender (map (sync_message env' roomId \<circ> snd) ds) c) = rm_members c"
    using assms(1,3-8)
  proof (induction ds arbitrary: c cd k)
    case (Cons e ds)
    obtain j d n where e: "e = (j, d)" "sd_revision d = jn n" "sd_docId d = j"
      using Cons.prems(2,3) by (cases e) (auto simp: documents_ok_def)
    let ?c1 = "receive env sender (sync_message env' roomId d) c"
    define cd1 where "cd1 = (if j = i \<and> k \<le> n then cd\<lparr>sd_state := sd_state d, sd_revision := jn n\<rparr> else cd)"
    note one = receive_one [OF Cons.prems(1) assms(2) Cons.prems(4-6) e(2), of env env' roomId]
    have c1: "map_of (rm_documents ?c1) i = Some cd1" using one(1) e(3) by (simp add: cd1_def)
    obtain k1 where cd1: "sd_docId cd1 = i" "sd_revision cd1 = jn k1" "j \<noteq> i \<Longrightarrow> cd1 = cd \<and> k1 = k"
      using Cons.prems(5,6) by (cases "j = i \<and> k \<le> n") (auto simp: cd1_def)
    have rest: "documents_ok ds" "list_all (\<lambda>(i, d). \<exists>n. sd_revision d = jn n) ds" "j = i \<Longrightarrow> i \<notin> fst ` set ds"
      using Cons.prems(2,3) e(1) by (auto simp: documents_ok_def)
    have older: "\<forall>d n. (i, d) \<in> set ds \<and> sd_revision d = jn n \<longrightarrow> k1 \<le> n"
      using rest(3) cd1(3) Cons.prems(7) by (cases "j = i") (auto simp: image_iff)
    obtain cd' where cd': "map_of (rm_documents (receive_all env sender (map (sync_message env' roomId \<circ> snd) ds) ?c1)) i = Some cd'" "latest_of ds i cd1 cd'"
        "rm_members (receive_all env sender (map (sync_message env' roomId \<circ> snd) ds) ?c1) = rm_members c"
      using Cons.IH [OF one(3) rest(1,2) c1 cd1(1,2) older] unfolding one(2) by blast
    have "latest_of (e # ds) i cd cd'"
    proof (cases "j = i")
      case True
      then have "cd' = cd1" using cd'(2) rest(3) by (simp add: latest_of_def map_of_eq_None_iff [THEN iffD2])
      moreover have "k \<le> n" using Cons.prems(7) [rule_format, of d n] e(1,2) True by simp
      ultimately show ?thesis using True e by (simp add: latest_of_def cd1_def)
    next
      case False
      then show ?thesis using cd'(2) cd1(3) e(1) by (simp add: latest_of_def)
    qed
    moreover have "receive_all env sender (map (sync_message env' roomId \<circ> snd) (e # ds)) c =
        receive_all env sender (map (sync_message env' roomId \<circ> snd) ds) ?c1" by (simp add: receive_all_def e(1))
    ultimately show ?case using cd' by metis
  qed (simp add: receive_all_def latest_of_def)
  then show "\<exists>cd'. map_of (rm_documents (receive_all env sender (map (sync_message env' roomId \<circ> snd) ds) c)) i = Some cd' \<and> latest_of ds i cd cd'"
    and "rm_members (receive_all env sender (map (sync_message env' roomId \<circ> snd) ds) c) = rm_members c" by blast+
qed

lemma receive_syncs_members:
  "client_room c \<Longrightarrow> js_Boolean sender \<Longrightarrow> rm_members (receive_all env sender (map (sync_message env' roomId \<circ> snd) ds) c) = rm_members c"
  by (induction ds arbitrary: c) (simp_all add: receive_all_def receive_sync client_room_def)

lemma docs_handle_keys: "map fst (fst (docs_handle ctx wire sender payload ds)) = map fst ds"
  by (induction ds) (auto split: prod.splits)

lemma receive_syncs_keys:
  "client_room c \<Longrightarrow> js_Boolean sender \<Longrightarrow>
     map fst (rm_documents (receive_all env sender (map (sync_message env' roomId \<circ> snd) ds) c)) = map fst (rm_documents c)"
  by (induction ds arbitrary: c) (simp_all add: receive_all_def receive_sync client_room_def docs_handle_keys)

text \<open>
  C20. Joining brings the room's members and the documents the peer has opened. When a host admits a peer, the messages it sends to that
  peer, handled in order, leave the peer with the host's table of members, every entry of it, itself among them; and each document
  that the peer had opened under an id the host has, and that is not newer than the host's, has the host's state and revision.
  No document is opened by joining: the peer's ids of documents are those it had before. A document the peer opens after it has joined gets nothing
  from the joining either (\<open>document_opened_late_is_empty\<close>).
\<close>

theorem join_brings_state:
  assumes "rm_isHost r" "\<not> rm_closed r" "js_Boolean p" "p \<noteq> rm_selfPeerId r" "js_Boolean (rm_selfPeerId r)"
    "handleIncoming env invited ''room-join'' p payload r = (r', effs)"
    "\<not> js_le (rm_maxPeers r) (room_size r)" "rm_access r = ''invite'' \<longrightarrow> invited"
    "entries_ok (rm_members r')" "documents_ok (rm_documents r)" "list_all (\<lambda>(i, d). \<exists>n. sd_revision d = jn n) (rm_documents r)"
    "client_room c" "rm_hostPeerId c = rm_selfPeerId r"
  shows "let c' = receive_all cenv (rm_selfPeerId r) (sent_to p effs) c in
    rm_members c' = rm_members r' \<and> p \<in> set (map fst (rm_members r')) \<and>
    map fst (rm_documents c') = map fst (rm_documents c) \<and>
    (\<forall>i d n cd k. map_of (rm_documents r) i = Some d \<and> sd_revision d = jn n \<and>
         map_of (rm_documents c) i = Some cd \<and> sd_docId cd = i \<and> sd_revision cd = jn k \<and> k \<le> n \<longrightarrow>
       (\<exists>cd'. map_of (rm_documents c') i = Some cd' \<and> sd_state cd' = sd_state d \<and> sd_revision cd' = sd_revision d))"
proof -
  let ?h = "rm_selfPeerId r"
  have admit: "r' = fst (admit env p payload r)" "effs = snd (admit env p payload r)"
    using assms(1-3,6-8) by (auto simp: handleIncoming_def docs_handle_other handleHostWire_def split: prod.splits if_splits)
  define c1 where "c1 = c\<lparr>rm_members := add_members cenv (map snd (rm_members r')) [], rm_joining := False\<rparr>"
  have "fst (handleIncoming cenv False ''room-join-ok'' ?h (Obj [(''roomId'', Str (rm_roomId r)), (''name'', Str (rm_name r)),
      (''hostPeerId'', rm_hostPeerId r), (''members'', Arr (map snd (rm_members r')))]) c) = c1"
    using assms(5,12,13) by (simp add: handleIncoming_def docs_handle_other handleClientWire_def client_room_def c1_def Let_def)
  then have all: "receive_all cenv ?h (sent_to p effs) c = receive_all cenv ?h (map (sync_message env (rm_roomId r) \<circ> snd) (rm_documents r)) c1"
    using admitted_messages [OF assms(3,4), of env payload] by (simp add: admit receive_all_def receive_envelope)
  have c1: "client_room c1" "rm_documents c1 = rm_documents c" using assms(12) by (simp_all add: client_room_def c1_def)
  have "rm_members c1 = rm_members r'" using add_members_same [OF assms(9), of "[]"] assms(9) by (simp add: c1_def entries_ok_def)
  then have members: "rm_members (receive_all cenv ?h (sent_to p effs) c) = rm_members r'"
    unfolding all receive_syncs_members [OF c1(1) assms(5)] .
  have p: "p \<in> set (map fst (rm_members r'))" using admit_members(1) [of env p payload r] admit(1) by (auto simp: dom_update)
  have docs: "\<exists>cd'. map_of (rm_documents (receive_all cenv ?h (sent_to p effs) c)) i = Some cd' \<and> sd_state cd' = sd_state d \<and> sd_revision cd' = sd_revision d"
    if "map_of (rm_documents r) i = Some d" "sd_revision d = jn n" "map_of (rm_documents c) i = Some cd" "sd_docId cd = i" "sd_revision cd = jn k" "k \<le> n"
    for i d n cd k
  proof -
    have "\<forall>d' n'. (i, d') \<in> set (rm_documents r) \<and> sd_revision d' = jn n' \<longrightarrow> k \<le> n'"
    proof (intro allI impI)
      fix d' n' assume d': "(i, d') \<in> set (rm_documents r) \<and> sd_revision d' = jn n'"
      then have "map_of (rm_documents r) i = Some d'" using assms(10) by (simp add: documents_ok_def)
      then show "k \<le> n'" using that d' by (simp add: jn_def)
    qed
    then show ?thesis using receive_syncs(1) [OF c1(1) assms(5,10,11), of i cd k cenv env "rm_roomId r"] that c1(2)
      unfolding all latest_of_def by simp
  qed
  have keys: "map fst (rm_documents (receive_all cenv ?h (sent_to p effs) c)) = map fst (rm_documents c)"
    unfolding all receive_syncs_keys [OF c1(1) assms(5)] c1(2) ..
  show ?thesis unfolding Let_def using members p docs keys by blast
qed

text \<open>A document that a member of a room opens sends nothing: the host is not asked for the state, and the document stays as it was created.\<close>

lemma document_opened_late_is_empty:
  assumes "\<not> rm_isHost c" "map_of (rm_documents c) (js_String (js_orv (get opts ''docId'') (Str ''default''))) = None"
  shows "snd (createDocument env opts c) = []" "\<exists>d. rm_documents (fst (createDocument env opts c)) = rm_documents c @ [d] \<and> sd_revision (snd d) = Fin 0"
  using assms by (simp_all add: createDocument_def SharedDocument_def Let_def)

definition host_room :: room where
  "host_room = fst (createDocument \<lparr>re_pluginId = ''notes'', re_now = Fin 2\<rparr> (Obj [(''initial'', Str ''hello'')])
     (fst (RealtimeRoom \<lparr>re_pluginId = ''notes'', re_now = Fin 1\<rparr> ''r1'' ''Room'' ''public'' (Fin 16) True (Str ''alice'') (Str ''alice''))))"

definition guest_room :: room where
  "guest_room = fst (createDocument \<lparr>re_pluginId = ''notes'', re_now = Fin 2\<rparr> (Obj [])
     (fst (RealtimeRoom \<lparr>re_pluginId = ''notes'', re_now = Fin 1\<rparr> ''r1'' ''Room'' ''invite'' (Fin 16) False (Str ''alice'') (Str ''bob''))))"

theorem join_brings_state_witness:
  "let c = receive_all \<lparr>re_pluginId = ''notes'', re_now = Fin 4\<rparr> (Str ''alice'')
       (sent_to (Str ''bob'') (snd (handleIncoming \<lparr>re_pluginId = ''notes'', re_now = Fin 3\<rparr> False ''room-join'' (Str ''bob'') (Obj []) host_room))) guest_room
   in map fst (rm_members c) = [Str ''alice'', Str ''bob''] \<and>
     (\<exists>d. map_of (rm_documents c) ''default'' = Some d \<and> sd_state d = Str ''hello'')"
proof -
  let ?env = "\<lparr>re_pluginId = ''notes'', re_now = Fin 3\<rparr>"
  define x where "x = handleIncoming ?env False ''room-join'' (Str ''bob'') (Obj []) host_room"
  have run: "handleIncoming ?env False ''room-join'' (Str ''bob'') (Obj []) host_room = (fst x, snd x)" by (simp add: x_def)
  have host: "rm_isHost host_room" "\<not> rm_closed host_room" "rm_selfPeerId host_room = Str ''alice''"
      "\<not> js_le (rm_maxPeers host_room) (room_size host_room)" "rm_access host_room = ''public''"
      "documents_ok (rm_documents host_room)" "map_option sd_revision (map_of (rm_documents host_room) ''default'') = Some (Fin 1)"
      "map_option sd_state (map_of (rm_documents host_room) ''default'') = Some (Str ''hello'')" "map fst (rm_documents host_room) = [''default'']"
    by code_simp+
  have guest: "client_room guest_room" "rm_hostPeerId guest_room = Str ''alice''"
      "map_option sd_docId (map_of (rm_documents guest_room) ''default'') = Some ''default''"
      "map_option sd_revision (map_of (rm_documents guest_room) ''default'') = Some (Fin 0)"
    by code_simp+
  have members: "entries_ok (rm_members (fst x))" "map fst (rm_members (fst x)) = [Str ''alice'', Str ''bob'']"
    unfolding x_def by code_simp+
  obtain d cd where d: "rm_documents host_room = [(''default'', d)]" "map_of (rm_documents guest_room) ''default'' = Some cd"
    using host(9) guest(3) by (cases "rm_documents host_room") auto
  have revs: "sd_revision d = jn 1" "sd_state d = Str ''hello''" "sd_docId cd = ''default''" "sd_revision cd = jn 0"
    using host(7,8) guest(3,4) d by (simp_all add: jn_def)
  let ?c = "receive_all \<lparr>re_pluginId = ''notes'', re_now = Fin 4\<rparr> (Str ''alice'') (sent_to (Str ''bob'') (snd x)) guest_room"
  have "rm_members ?c = rm_members (fst x) \<and>
      (\<forall>i d n cd k. map_of (rm_documents host_room) i = Some d \<and> sd_revision d = jn n \<and> map_of (rm_documents guest_room) i = Some cd \<and> sd_docId cd = i \<and>
           sd_revision cd = jn k \<and> k \<le> n \<longrightarrow>
         (\<exists>cd'. map_of (rm_documents ?c) i = Some cd' \<and> sd_state cd' = sd_state d \<and> sd_revision cd' = sd_revision d))"
    using join_brings_state [OF host(1,2) _ _ _ run host(4) _ members(1) host(6) _ guest(1), of "\<lparr>re_pluginId = ''notes'', re_now = Fin 4\<rparr>"]
      host(3,5) guest(2) d(1) revs(1) by (simp add: Let_def)
  moreover have "map_of (rm_documents host_room) ''default'' = Some d" using d(1) by simp
  ultimately show ?thesis unfolding x_def [symmetric] Let_def using d(2) revs members(2) by (metis zero_le)
qed

end
