(* ===== verification/Uno_Rules.thy ===== *)
theory Uno_Rules
  imports JSON_Text "HOL-Library.Multiset"
begin

text \<open>
  The cards, rules and settings of the UNO game: \<open>deck.js\<close>, \<open>rules.js\<close> and the guards of \<open>net.js\<close> under
  \<open>assets/bundled-plugins/uno\<close>. The random numbers of a shuffle are an argument. The settings a table falls
  back to are sanitised settings themselves.
\<close>

section \<open>The deck\<close>

record card =
  c_id :: string
  c_color :: string
  c_value :: string

definition COLORS :: "string list" where
  "COLORS = [''red'', ''yellow'', ''green'', ''blue'']"

definition NUMBER_VALUES :: "string list" where
  "NUMBER_VALUES = [''0'', ''1'', ''2'', ''3'', ''4'', ''5'', ''6'', ''7'', ''8'', ''9'']"

definition ACTION_VALUES :: "string list" where
  "ACTION_VALUES = [''skip'', ''reverse'', ''draw2'']"

definition push_card :: "string \<Rightarrow> string \<Rightarrow> string \<Rightarrow> card list \<Rightarrow> card list" where
  "push_card name color value deck =
     deck @ [\<lparr>c_id = name @ ''_'' @ nat_digits (length deck), c_color = color, c_value = value\<rparr>]"

definition push_pair :: "string \<Rightarrow> string \<Rightarrow> card list \<Rightarrow> card list" where
  "push_pair color value deck =
     push_card (hd color # ''_'' @ value @ ''_b'') color value (push_card (hd color # ''_'' @ value @ ''_a'') color value deck)"

definition push_color :: "string \<Rightarrow> card list \<Rightarrow> card list" where
  "push_color color deck =
     fold (push_pair color) ACTION_VALUES (fold (push_pair color) (tl NUMBER_VALUES) (push_card (hd color # ''_0'') color ''0'' deck))"

definition push_wilds :: "nat \<Rightarrow> card list \<Rightarrow> card list" where
  "push_wilds i deck =
     push_card (''wild4_'' @ nat_digits i) ''wild'' ''wild4'' (push_card (''wild_'' @ nat_digits i) ''wild'' ''wild'' deck)"

definition buildDeck :: "card list" where
  "buildDeck = fold push_wilds [0..<4] (fold push_color COLORS [])"

text \<open>The shuffle goes down from the last place; \<open>buf i\<close> is the random number drawn for place \<open>i\<close>.\<close>

definition swap :: "nat \<Rightarrow> nat \<Rightarrow> 'a list \<Rightarrow> 'a list" where
  "swap i j xs = xs[i := xs ! j, j := xs ! i]"

fun shuffle_from :: "(nat \<Rightarrow> nat) \<Rightarrow> nat \<Rightarrow> 'a list \<Rightarrow> 'a list" where
  "shuffle_from buf 0 xs = xs"
| "shuffle_from buf (Suc i) xs = shuffle_from buf i (swap (Suc i) (buf (Suc i) mod (Suc (Suc i))) xs)"

definition shuffle :: "(nat \<Rightarrow> nat) \<Rightarrow> 'a list \<Rightarrow> 'a list" where
  "shuffle buf xs = (if length xs < 2 then xs else shuffle_from buf (length xs - 1) xs)"

definition isSpecialStartCard :: "card \<Rightarrow> bool" where
  "isSpecialStartCard c = (c_color c = ''wild'' \<or> c_value c \<in> set ACTION_VALUES)"

definition cardPoints :: "card \<Rightarrow> rat" where
  "cardPoints c =
     (if c_value c = ''wild'' \<or> c_value c = ''wild4'' then 50
      else if c_value c \<in> set ACTION_VALUES then 20
      else case js_string_number (c_value c) of Fin n \<Rightarrow> n | _ \<Rightarrow> 0)"

section \<open>Settings\<close>

definition js_round_int :: "rat \<Rightarrow> int" where
  "js_round_int r = \<lfloor>r + 1 / 2\<rfloor>"

definition clampInt :: "jsv \<Rightarrow> int \<Rightarrow> int \<Rightarrow> int \<Rightarrow> int" where
  "clampInt value lo hi fallback =
     (case js_Number value of Fin r \<Rightarrow> max lo (min hi (js_round_int r)) | _ \<Rightarrow> fallback)"

record settings =
  us_tableName :: string
  us_maxPlayers :: int
  us_turnTimeSec :: int
  us_autoStart :: bool
  us_gameMode :: string
  us_houseRules :: string
  us_targetScore :: int
  us_penaltyCards :: int
  us_lobbyAccess :: string

definition defaultSettings :: settings where
  "defaultSettings = \<lparr>us_tableName = ''UNO-Tisch'', us_maxPlayers = 4, us_turnTimeSec = 0, us_autoStart = False,
     us_gameMode = ''single'', us_houseRules = ''official'', us_targetScore = 500, us_penaltyCards = 2, us_lobbyAccess = ''invite''\<rparr>"

definition setting :: "jsv \<Rightarrow> string \<Rightarrow> jsv \<Rightarrow> jsv" where
  "setting input f base = (case map_of (own_fields input) f of Some v \<Rightarrow> v | None \<Rightarrow> base)"

definition int_or :: "int \<Rightarrow> int \<Rightarrow> int" where
  "int_or n d = (if n = 0 then d else n)"

definition clean_name :: "jsv \<Rightarrow> string" where
  "clean_name v = (let s = js_slice 48 (js_trim (js_String (js_orv v (Str ''UNO-Tisch'')))) in if s = [] then ''UNO-Tisch'' else s)"

definition sanitizeSettings :: "jsv \<Rightarrow> settings \<Rightarrow> int \<Rightarrow> settings" where
  "sanitizeSettings input fallback minSeats =
     \<lparr>us_tableName = clean_name (setting input ''tableName'' (Str (us_tableName fallback))),
      us_maxPlayers = clampInt (setting input ''maxPlayers'' (JInt (us_maxPlayers fallback))) (max 2 minSeats) 8 (max 4 minSeats),
      us_turnTimeSec = clampInt (setting input ''turnTimeSec'' (JInt (us_turnTimeSec fallback))) 0 300 (us_turnTimeSec fallback),
      us_autoStart = (setting input ''autoStart'' (Bool (us_autoStart fallback)) = Bool True),
      us_gameMode = (if setting input ''gameMode'' (Str (us_gameMode fallback)) = Str ''points'' then ''points'' else ''single''),
      us_houseRules = (if setting input ''houseRules'' (Str (us_houseRules fallback)) = Str ''casual'' then ''casual'' else ''official''),
      us_targetScore = clampInt (setting input ''targetScore'' (JInt (us_targetScore fallback))) 100 10000 (int_or (us_targetScore fallback) 500),
      us_penaltyCards = clampInt (setting input ''penaltyCards'' (JInt (us_penaltyCards fallback))) 1 10 (int_or (us_penaltyCards fallback) 2),
      us_lobbyAccess = (if setting input ''lobbyAccess'' (Str (us_lobbyAccess fallback)) = Str ''public'' then ''public'' else ''invite'')\<rparr>"

section \<open>Legal cards\<close>

definition topEffectiveColor :: "card option \<Rightarrow> string option \<Rightarrow> string option" where
  "topEffectiveColor topCard activeColor =
     (case topCard of None \<Rightarrow> activeColor | Some c \<Rightarrow> if c_color c = ''wild'' then activeColor else Some (c_color c))"

definition hasMatchingColor :: "card list \<Rightarrow> string option \<Rightarrow> bool" where
  "hasMatchingColor hand color =
     (case color of None \<Rightarrow> False | Some c \<Rightarrow> c \<noteq> [] \<and> c \<noteq> ''wild'' \<and> list_ex (\<lambda>x. c_color x = c) hand)"

definition canPlay :: "card \<Rightarrow> card option \<Rightarrow> string option \<Rightarrow> string \<Rightarrow> card list \<Rightarrow> bool" where
  "canPlay c topCard activeColor houseRules hand =
     (case topCard of
        None \<Rightarrow> False
      | Some t \<Rightarrow>
          if c_color c = ''wild'' then
            (if c_value c = ''wild4'' \<and> houseRules = ''official''
             then \<not> hasMatchingColor hand (topEffectiveColor topCard activeColor) else True)
          else if Some (c_color c) = topEffectiveColor topCard activeColor then True
          else c_value c = c_value t)"

definition canStackDraw :: "card \<Rightarrow> string option \<Rightarrow> string \<Rightarrow> bool" where
  "canStackDraw c pendingDrawType houseRules =
     (if houseRules \<noteq> ''casual'' then False
      else if pendingDrawType = Some ''draw2'' then c_value c = ''draw2'' \<or> c_value c = ''wild4''
      else if pendingDrawType = Some ''draw4'' then c_value c = ''wild4''
      else False)"

definition isValidColor :: "string \<Rightarrow> bool" where
  "isValidColor color = (color \<in> set COLORS)"

section \<open>Incoming data\<close>

record uno_action =
  ua_type :: string
  ua_cardId :: "string option"
  ua_color :: "string option"

definition string_field :: "jsv \<Rightarrow> string \<Rightarrow> string option" where
  "string_field v f = (case get v f of Str s \<Rightarrow> Some s | _ \<Rightarrow> None)"

definition sanitizeIncomingAction :: "jsv \<Rightarrow> uno_action option" where
  "sanitizeIncomingAction action =
     (if \<not> js_Boolean action \<or> \<not> is_object action then None
      else case string_field action ''type'' of
        None \<Rightarrow> None
      | Some t \<Rightarrow> if t = [] then None
          else Some \<lparr>ua_type = t, ua_cardId = string_field action ''cardId'', ua_color = string_field action ''color''\<rparr>)"

definition sanitizeName :: "jsv \<Rightarrow> string \<Rightarrow> string" where
  "sanitizeName name fallback =
     (let s = js_slice 48 (js_trim (js_String (if nullish name then Str [] else name))) in if s = [] then fallback else s)"

section \<open>Numbers\<close>

text \<open>JavaScript's \<open>%\<close> has the sign of its left operand.\<close>

definition js_mod :: "int \<Rightarrow> int \<Rightarrow> int" where
  "js_mod a b = (if a < 0 then - ((- a) mod b) else a mod b)"

section \<open>Facts\<close>

lemma mset_swap: "i < length xs \<Longrightarrow> j < length xs \<Longrightarrow> mset (swap i j xs) = mset xs"
  by (simp add: swap_def mset_swap)

lemma mset_shuffle_from: "i < length xs \<Longrightarrow> mset (shuffle_from buf i xs) = mset xs"
proof (induction i arbitrary: xs)
  case (Suc i)
  let ?j = "buf (Suc i) mod Suc (Suc i)"
  have "?j < Suc (Suc i)" by simp
  then have j: "?j < length xs" using Suc.prems by linarith
  have "length (swap (Suc i) ?j xs) = length xs" by (simp add: swap_def)
  then show ?case using Suc.IH [of "swap (Suc i) ?j xs"] Suc.prems mset_swap [OF Suc.prems j] by simp
qed simp

lemma mset_shuffle [simp]: "mset (shuffle buf xs) = mset xs"
  by (simp add: shuffle_def mset_shuffle_from)

lemma length_shuffle [simp]: "length (shuffle buf xs) = length xs"
  by (metis mset_shuffle size_mset)

lemma shuffle_Nil [simp]: "shuffle buf xs = [] \<longleftrightarrow> xs = []"
  by (metis length_0_conv length_shuffle)

text \<open>The ids end in the place of the card in the deck, so no id occurs twice.\<close>

definition id_number :: "string \<Rightarrow> nat" where
  "id_number i = number_of_digits 10 (rev (takeWhile is_digit (rev i)))"

definition numbered :: "card list \<Rightarrow> bool" where
  "numbered deck \<longleftrightarrow> map (id_number \<circ> c_id) deck = [0..<length deck]"

lemma id_number_push: "id_number (name @ ''_'' @ nat_digits n) = n"
proof -
  have "\<not> is_digit (CHR ''_'')" by (simp add: is_digit_def)
  moreover have "\<forall>x \<in> set (rev (nat_digits n)). is_digit x" using nat_digits_facts [of n] by (simp add: list_all_iff)
  then have "takeWhile is_digit (rev (nat_digits n) @ CHR ''_'' # rev name) = rev (nat_digits n)"
    using \<open>\<not> is_digit (CHR ''_'')\<close> by (subst takeWhile_append2) auto
  then show ?thesis using nat_digits_facts [of n] by (simp add: id_number_def)
qed

lemma numbered_push:
  "numbered deck \<Longrightarrow> numbered (push_card name color value deck)" "length (push_card name color value deck) = Suc (length deck)"
  using id_number_push [of name] by (simp_all add: numbered_def push_card_def)

lemma numbered_pair:
  "numbered deck \<Longrightarrow> numbered (push_pair color value deck)" "length (push_pair color value deck) = length deck + 2"
  by (simp_all add: push_pair_def numbered_push)

lemma numbered_pairs:
  "numbered deck \<Longrightarrow> numbered (fold (push_pair color) values deck)" "length (fold (push_pair color) values deck) = length deck + 2 * length values"
  by (induction "values" arbitrary: deck) (simp_all add: numbered_pair)

lemma numbered_color:
  "numbered deck \<Longrightarrow> numbered (push_color color deck)" "length (push_color color deck) = length deck + 25"
  by (simp_all add: push_color_def numbered_pairs numbered_push ACTION_VALUES_def NUMBER_VALUES_def numbered_pair)

lemma numbered_wilds:
  "numbered deck \<Longrightarrow> numbered (push_wilds i deck)" "length (push_wilds i deck) = length deck + 2"
  by (simp_all add: push_wilds_def numbered_push)

lemma numbered_deck: "numbered buildDeck" "length buildDeck = 108"
proof -
  have wilds: "numbered (fold push_wilds is d)" if "numbered d" for "is" d
    using that by (induction "is" arbitrary: d) (simp_all add: numbered_wilds)
  have len: "length (fold push_wilds is d) = length d + 2 * length is" for "is" d
    by (induction "is" arbitrary: d) (simp_all add: numbered_wilds)
  show "numbered buildDeck" unfolding buildDeck_def COLORS_def
    by (rule wilds) (simp add: numbered_color numbered_def [of "[]"])
  show "length buildDeck = 108" unfolding buildDeck_def COLORS_def len by (simp add: numbered_color)
qed

lemma distinct_deck: "distinct (map c_id buildDeck)"
proof -
  have "distinct (map id_number (map c_id buildDeck))" using numbered_deck(1) by (simp add: numbered_def)
  then show ?thesis by (simp only: distinct_map)
qed

definition settings_ok :: "settings \<Rightarrow> bool" where
  "settings_ok s \<longleftrightarrow> us_tableName s \<noteq> [] \<and> 2 \<le> us_maxPlayers s \<and> 0 \<le> us_turnTimeSec s \<and> us_turnTimeSec s \<le> 300 \<and>
     us_gameMode s \<in> {''points'', ''single''} \<and> us_houseRules s \<in> {''casual'', ''official''} \<and>
     100 \<le> us_targetScore s \<and> us_targetScore s \<le> 10000 \<and> 1 \<le> us_penaltyCards s \<and> us_penaltyCards s \<le> 10"

lemma clampInt_bounds: "lo \<le> hi \<Longrightarrow> lo \<le> d \<Longrightarrow> d \<le> hi \<Longrightarrow> lo \<le> clampInt v lo hi d \<and> clampInt v lo hi d \<le> hi"
  by (auto simp: clampInt_def split: jsnum.splits)

lemma clampInt_lower: "lo \<le> d \<Longrightarrow> lo \<le> clampInt v lo hi d"
  by (auto simp: clampInt_def split: jsnum.splits)

lemma sanitize_settings_ok: "settings_ok fallback \<Longrightarrow> settings_ok (sanitizeSettings input fallback minSeats)"
  using clampInt_bounds [of 0 300 "us_turnTimeSec fallback"] clampInt_bounds [of 100 10000 "int_or (us_targetScore fallback) 500"]
    clampInt_bounds [of 1 10 "int_or (us_penaltyCards fallback) 2"]
    clampInt_lower [of "max 2 minSeats" "max 4 minSeats" "setting input ''maxPlayers'' (JInt (us_maxPlayers fallback))" 8]
  by (auto simp: settings_ok_def sanitizeSettings_def clean_name_def int_or_def Let_def)

lemma default_settings_ok: "settings_ok defaultSettings"
  by (simp add: settings_ok_def defaultSettings_def)

end
