(* ===== verification/Uno_Game.thy ===== *)
theory Uno_Game
  imports Uno_Rules
begin

text \<open>
  The host of a UNO game, \<open>assets/bundled-plugins/uno/engine.js\<close>: the state that \<open>createHost\<close> closes over
  and each of its functions. The host's id, the id of the game, the random numbers of the shuffles, the
  connected peers and the blocked contacts are arguments. A timer that runs out is an operation. What the
  host shows and sends (status texts, the last event, the public state, hands), the timers' bookkeeping
  and the saved game are not modelled: none of it is read by the game. Peer ids are not empty.
\<close>

section \<open>State\<close>

datatype uno_phase = Lobby | Playing | RoundOver | MatchOver

record uplayer =
  up_peerId :: string
  up_name :: string
  up_seat :: int
  up_hand :: "card list"
  up_saidUno :: bool
  up_score :: rat
  up_connected :: bool

record uno =
  ug_cfg :: settings
  ug_players :: "uplayer list"
  ug_phase :: uno_phase
  ug_direction :: int
  ug_activeColor :: "string option"
  ug_drawPile :: "card list"
  ug_discardPile :: "card list"
  ug_toActIdx :: int
  ug_dealerIdx :: int
  ug_roundNumber :: int
  ug_roundWinner :: "string option"
  ug_matchWinner :: "string option"
  ug_pendingColorChoice :: "string option"
  ug_pendingDrawStack :: nat
  ug_pendingDrawType :: "string option"
  ug_drewCanPass :: "string option"
  ug_pendingUnoPeer :: "string option"
  ug_invitedPeers :: "string list"
  ug_shuffles :: nat

record uno_env =
  ue_selfId :: string
  ue_selfName :: jsv
  ue_gameId :: string
  ue_random :: "nat \<Rightarrow> nat \<Rightarrow> nat"
  ue_connected :: "string list"
  ue_blocked :: "string list"

section \<open>Players\<close>

definition find_player :: "uno \<Rightarrow> string \<Rightarrow> nat option" where
  "find_player g peerId = findIndex (\<lambda>p. up_peerId p = peerId) (ug_players g)"

definition playerIndex :: "uno \<Rightarrow> string \<Rightarrow> int" where
  "playerIndex g peerId = (case find_player g peerId of None \<Rightarrow> - 1 | Some i \<Rightarrow> int i)"

definition player_at :: "uno \<Rightarrow> int \<Rightarrow> uplayer option" where
  "player_at g i = (if 0 \<le> i \<and> i < int (length (ug_players g)) then Some (ug_players g ! nat i) else None)"

definition set_player :: "nat \<Rightarrow> (uplayer \<Rightarrow> uplayer) \<Rightarrow> uno \<Rightarrow> uno" where
  "set_player i f g = g\<lparr>ug_players := (ug_players g)[i := f (ug_players g ! i)]\<rparr>"

definition offline :: "uno \<Rightarrow> int \<Rightarrow> bool" where
  "offline g i = (case player_at g i of None \<Rightarrow> False | Some p \<Rightarrow> \<not> up_connected p)"

definition activePlayers :: "uno \<Rightarrow> uplayer list" where
  "activePlayers g = filter up_connected (ug_players g)"

definition actor_id :: "uno \<Rightarrow> string option" where
  "actor_id g = map_option up_peerId (player_at g (ug_toActIdx g))"

definition step_index :: "uno \<Rightarrow> int \<Rightarrow> int" where
  "step_index g i = js_mod (i + ug_direction g + int (length (ug_players g))) (int (length (ug_players g)))"

fun skip_offline :: "nat \<Rightarrow> uno \<Rightarrow> int \<Rightarrow> int" where
  "skip_offline 0 g i = i"
| "skip_offline (Suc k) g i = (if offline g i then skip_offline k g (step_index g i) else i)"

definition next_seat :: "uno \<Rightarrow> int \<Rightarrow> int" where
  "next_seat g i = skip_offline (length (ug_players g)) g (step_index g i)"

definition nextIndex :: "uno \<Rightarrow> int \<Rightarrow> nat \<Rightarrow> int" where
  "nextIndex g from steps = (if ug_players g = [] then - 1 else (next_seat g ^^ steps) from)"

section \<open>Cards\<close>

definition topCard :: "uno \<Rightarrow> card option" where
  "topCard g = (if ug_discardPile g = [] then None else Some (last (ug_discardPile g)))"

definition ensureDrawPile :: "uno_env \<Rightarrow> uno \<Rightarrow> bool \<times> uno" where
  "ensureDrawPile env g =
     (if ug_drawPile g \<noteq> [] then (True, g)
      else if length (ug_discardPile g) \<le> 1 then (False, g)
      else let g1 = g\<lparr>ug_drawPile := shuffle (ue_random env (ug_shuffles g)) (butlast (ug_discardPile g)),
                      ug_discardPile := [last (ug_discardPile g)], ug_shuffles := Suc (ug_shuffles g)\<rparr>
           in (ug_drawPile g1 \<noteq> [], g1))"

fun drawCardsFor :: "uno_env \<Rightarrow> nat \<Rightarrow> nat \<Rightarrow> uno \<Rightarrow> card list \<times> uno" where
  "drawCardsFor env i 0 g = ([], g)"
| "drawCardsFor env i (Suc k) g =
     (let (ok, g1) = ensureDrawPile env g
      in if \<not> ok then ([], g1)
         else let c = last (ug_drawPile g1);
                  g2 = set_player i (\<lambda>p. p\<lparr>up_hand := up_hand p @ [c]\<rparr>) (g1\<lparr>ug_drawPile := butlast (ug_drawPile g1)\<rparr>);
                  (drawn, g3) = drawCardsFor env i k g2
              in (c # drawn, g3))"

definition checkUnoPenalty :: "uno_env \<Rightarrow> string \<Rightarrow> uno \<Rightarrow> uno" where
  "checkUnoPenalty env peerId g =
     (case find_player g peerId of
        None \<Rightarrow> g
      | Some i \<Rightarrow> let p = ug_players g ! i
          in if length (up_hand p) \<noteq> 1 \<or> up_saidUno p then g
             else snd (drawCardsFor env i (nat (us_penaltyCards (ug_cfg g))) g))"

section \<open>The end of a round\<close>

definition hand_points :: "card list \<Rightarrow> rat" where
  "hand_points cards = foldl (\<lambda>s c. s + cardPoints c) 0 cards"

definition applyPointsForRound :: "string \<Rightarrow> uno \<Rightarrow> uno" where
  "applyPointsForRound winner g =
     (if us_gameMode (ug_cfg g) \<noteq> ''points'' then g
      else case find_player g winner of
        None \<Rightarrow> g
      | Some i \<Rightarrow>
          let points = foldl (\<lambda>s p. if up_peerId p = winner then s else s + hand_points (up_hand p)) 0 (ug_players g);
              g1 = set_player i (\<lambda>p. p\<lparr>up_score := up_score p + points\<rparr>) g
          in if of_int (us_targetScore (ug_cfg g)) \<le> up_score (ug_players g1 ! i)
             then g1\<lparr>ug_matchWinner := Some winner, ug_phase := MatchOver\<rparr> else g1)"

definition finishRound :: "string \<Rightarrow> uno \<Rightarrow> uno" where
  "finishRound winner g =
     (let g1 = applyPointsForRound winner (g\<lparr>ug_roundWinner := Some winner, ug_pendingColorChoice := None, ug_pendingDrawStack := 0,
                 ug_pendingDrawType := None, ug_drewCanPass := None, ug_pendingUnoPeer := None\<rparr>)
      in if ug_phase g1 \<noteq> MatchOver then g1\<lparr>ug_phase := RoundOver\<rparr> else g1)"

section \<open>Effects of cards\<close>

definition advance :: "nat \<Rightarrow> uno \<Rightarrow> uno" where
  "advance steps g = g\<lparr>ug_toActIdx := nextIndex g (ug_toActIdx g) steps\<rparr>"

definition resolveSkip :: "uno \<Rightarrow> uno" where
  "resolveSkip g = advance 2 g"

definition resolveReverse :: "uno \<Rightarrow> uno" where
  "resolveReverse g =
     (if length (ug_players g) = 2 then resolveSkip g else advance 1 (g\<lparr>ug_direction := ug_direction g * - 1\<rparr>))"

text \<open>\<open>resolveDrawTwo\<close> and \<open>resolveDrawFour\<close> differ in the number of cards and the type of the stack.\<close>

definition resolve_draw :: "uno_env \<Rightarrow> nat \<Rightarrow> string \<Rightarrow> uno \<Rightarrow> uno" where
  "resolve_draw env n kind g =
     (if us_houseRules (ug_cfg g) = ''casual''
      then advance 1 (g\<lparr>ug_pendingDrawStack := ug_pendingDrawStack g + n, ug_pendingDrawType := Some kind\<rparr>)
      else let nextIdx = nextIndex g (ug_toActIdx g) 1; g1 = snd (drawCardsFor env (nat nextIdx) n g)
           in g1\<lparr>ug_toActIdx := nextIndex g1 nextIdx 1\<rparr>)"

definition resolveDrawTwo :: "uno_env \<Rightarrow> uno \<Rightarrow> uno" where
  "resolveDrawTwo env g = resolve_draw env 2 ''draw2'' g"

definition resolveDrawFour :: "uno_env \<Rightarrow> uno \<Rightarrow> uno" where
  "resolveDrawFour env g = resolve_draw env 4 ''draw4'' g"

definition forceDrawStack :: "uno_env \<Rightarrow> string \<Rightarrow> uno \<Rightarrow> uno" where
  "forceDrawStack env peerId g =
     (case find_player g peerId of
        None \<Rightarrow> g
      | Some i \<Rightarrow> if ug_pendingDrawStack g \<le> 0 then g
          else let g1 = (snd (drawCardsFor env i (ug_pendingDrawStack g) g))
                     \<lparr>ug_pendingDrawStack := 0, ug_pendingDrawType := None, ug_drewCanPass := None\<rparr>
               in g1\<lparr>ug_toActIdx := nextIndex g1 (playerIndex g1 peerId) 1\<rparr>)"

definition afterCardPlayed :: "uno_env \<Rightarrow> nat \<Rightarrow> card \<Rightarrow> uno \<Rightarrow> bool \<times> uno" where
  "afterCardPlayed env i c g =
     (let p = ug_players g ! i;
          g1 = set_player i (\<lambda>p. p\<lparr>up_saidUno := False\<rparr>)
                 (if length (up_hand p) = 1 then g\<lparr>ug_pendingUnoPeer := Some (up_peerId p)\<rparr> else g)
      in if up_hand p = [] then (True, finishRound (up_peerId p) g1)
         else (False,
           if c_value c = ''skip'' then resolveSkip g1
           else if c_value c = ''reverse'' then resolveReverse g1
           else if c_value c = ''draw2'' then resolveDrawTwo env g1
           else advance 1 g1))"

section \<open>Actions of players\<close>

text \<open>The penalty of a player who did not call UNO, taken when the next one moves.\<close>

definition penalise :: "uno_env \<Rightarrow> string \<Rightarrow> uno \<Rightarrow> uno" where
  "penalise env peerId g =
     (case ug_pendingUnoPeer g of
        Some q \<Rightarrow> if q \<noteq> peerId then checkUnoPenalty env q g else g
      | None \<Rightarrow> g)"

definition play_allowed :: "uno \<Rightarrow> uplayer \<Rightarrow> card \<Rightarrow> bool" where
  "play_allowed g p c =
     (if ug_pendingDrawStack g > 0 \<and> us_houseRules (ug_cfg g) = ''casual''
      then canStackDraw c (ug_pendingDrawType g) (us_houseRules (ug_cfg g))
      else if ug_pendingDrawStack g > 0 then False
      else canPlay c (topCard g) (ug_activeColor g) (us_houseRules (ug_cfg g)) (up_hand p))"

definition may_move :: "string \<Rightarrow> uno \<Rightarrow> nat option" where
  "may_move peerId g =
     (case find_player g peerId of
        None \<Rightarrow> None
      | Some i \<Rightarrow> if ug_toActIdx g \<noteq> int i \<or> ug_phase g \<noteq> Playing \<or> ug_pendingColorChoice g \<noteq> None then None else Some i)"

definition lay_card :: "nat \<Rightarrow> nat \<Rightarrow> uno \<Rightarrow> uno" where
  "lay_card i k g =
     (let c = up_hand (ug_players g ! i) ! k
      in set_player i (\<lambda>p. p\<lparr>up_hand := take k (up_hand p) @ drop (Suc k) (up_hand p)\<rparr>) (g\<lparr>ug_discardPile := ug_discardPile g @ [c]\<rparr>))"

definition playCard :: "uno_env \<Rightarrow> string \<Rightarrow> string option \<Rightarrow> uno \<Rightarrow> bool \<times> uno" where
  "playCard env peerId cardId g =
     (case may_move peerId g of
        None \<Rightarrow> (False, g)
      | Some i \<Rightarrow>
        (let p = ug_players g ! i
         in case findIndex (\<lambda>c. Some (c_id c) = cardId) (up_hand p) of
              None \<Rightarrow> (False, g)
            | Some k \<Rightarrow>
              (let c = up_hand p ! k
               in if \<not> play_allowed g p c then (False, g)
                  else let g1 = lay_card i k ((penalise env peerId g)\<lparr>ug_pendingUnoPeer := None, ug_drewCanPass := None\<rparr>)
                       in if c_color c = ''wild'' then (True, g1\<lparr>ug_pendingColorChoice := Some peerId\<rparr>)
                          else (True, snd (afterCardPlayed env i c (g1\<lparr>ug_activeColor := Some (c_color c)\<rparr>))))))"

definition is_wild4 :: "card option \<Rightarrow> bool" where
  "is_wild4 c = (case c of None \<Rightarrow> False | Some c \<Rightarrow> c_value c = ''wild4'')"

definition chooseColor :: "uno_env \<Rightarrow> string \<Rightarrow> string option \<Rightarrow> uno \<Rightarrow> bool \<times> uno" where
  "chooseColor env peerId color g =
     (if ug_pendingColorChoice g \<noteq> Some peerId then (False, g)
      else case color of
        None \<Rightarrow> (False, g)
      | Some col \<Rightarrow>
          if \<not> isValidColor col then (False, g)
          else let g1 = g\<lparr>ug_activeColor := Some col, ug_pendingColorChoice := None\<rparr>
               in (True,
                 if (case find_player g peerId of None \<Rightarrow> False | Some i \<Rightarrow> up_hand (ug_players g ! i) = [])
                 then finishRound peerId (if is_wild4 (topCard g) then resolveDrawFour env g1 else g1)
                 else if is_wild4 (topCard g) then resolveDrawFour env g1
                 else advance 1 g1))"

definition drawCard :: "uno_env \<Rightarrow> string \<Rightarrow> uno \<Rightarrow> bool \<times> uno" where
  "drawCard env peerId g =
     (case may_move peerId g of
        None \<Rightarrow> (False, g)
      | Some i \<Rightarrow>
        (let g1 = (case ug_pendingUnoPeer g of
               Some q \<Rightarrow> if q \<noteq> peerId then (checkUnoPenalty env q g)\<lparr>ug_pendingUnoPeer := None\<rparr> else g
             | None \<Rightarrow> g)
         in if ug_pendingDrawStack g1 > 0 then (True, forceDrawStack env peerId g1)
            else case drawCardsFor env i 1 g1 of
              ([], g2) \<Rightarrow> (True, advance 1 (g2\<lparr>ug_drewCanPass := None\<rparr>))
            | (c # cs, g2) \<Rightarrow>
                (True,
                 if canPlay c (topCard g2) (ug_activeColor g2) (us_houseRules (ug_cfg g2)) (up_hand (ug_players g2 ! i))
                 then g2\<lparr>ug_drewCanPass := Some peerId\<rparr>
                 else advance 1 (g2\<lparr>ug_drewCanPass := None\<rparr>))))"

definition passTurn :: "uno_env \<Rightarrow> string \<Rightarrow> uno \<Rightarrow> bool \<times> uno" where
  "passTurn env peerId g =
     (if ug_drewCanPass g \<noteq> Some peerId then (False, g)
      else (True, advance 1 ((penalise env peerId (g\<lparr>ug_drewCanPass := None\<rparr>))\<lparr>ug_pendingUnoPeer := None\<rparr>)))"

definition callUno :: "string \<Rightarrow> uno \<Rightarrow> bool \<times> uno" where
  "callUno peerId g =
     (case find_player g peerId of
        None \<Rightarrow> (False, g)
      | Some i \<Rightarrow>
          if length (up_hand (ug_players g ! i)) \<noteq> 1 then (False, g)
          else (True, set_player i (\<lambda>p. p\<lparr>up_saidUno := True\<rparr>)
             (if ug_pendingUnoPeer g = Some peerId then g\<lparr>ug_pendingUnoPeer := None\<rparr> else g)))"

definition applyAction :: "uno_env \<Rightarrow> string \<Rightarrow> uno_action \<Rightarrow> uno \<Rightarrow> bool \<times> uno" where
  "applyAction env peerId a g =
     (if ua_type a = ''play'' then playCard env peerId (ua_cardId a) g
      else if ua_type a = ''chooseColor'' then chooseColor env peerId (ua_color a) g
      else if ua_type a = ''draw'' then drawCard env peerId g
      else if ua_type a = ''pass'' then passTurn env peerId g
      else if ua_type a = ''callUno'' then callUno peerId g
      else (False, g))"

section \<open>Joining and leaving\<close>

definition findSeat :: "uno \<Rightarrow> int" where
  "findSeat g =
     (case List.find (\<lambda>s. s \<notin> set (map up_seat (ug_players g))) (map int [0..<nat (us_maxPlayers (ug_cfg g))]) of
        None \<Rightarrow> - 1 | Some s \<Rightarrow> s)"

definition addPlayer :: "string \<Rightarrow> jsv \<Rightarrow> uno \<Rightarrow> bool \<times> uno" where
  "addPlayer peerId name g =
     (case find_player g peerId of
        Some i \<Rightarrow> (True, set_player i (\<lambda>p. p\<lparr>up_connected := True, up_name := sanitizeName name (up_name p)\<rparr>) g)
      | None \<Rightarrow>
          if us_maxPlayers (ug_cfg g) \<le> int (length (ug_players g)) then (False, g)
          else let seat = findSeat g
               in if seat < 0 then (False, g)
                  else (True, g\<lparr>ug_players := sort_key up_seat (ug_players g @
                    [\<lparr>up_peerId = peerId, up_name = sanitizeName name peerId, up_seat = seat, up_hand = [], up_saidUno = False,
                      up_score = 0, up_connected = True\<rparr>])\<rparr>))"

definition clear_if :: "string \<Rightarrow> string option \<Rightarrow> string option" where
  "clear_if peerId v = (if v = Some peerId then None else v)"

definition forget_peer :: "string \<Rightarrow> uno \<Rightarrow> uno" where
  "forget_peer peerId g = g\<lparr>ug_drewCanPass := clear_if peerId (ug_drewCanPass g), ug_pendingUnoPeer := clear_if peerId (ug_pendingUnoPeer g)\<rparr>"

definition remove_at :: "nat \<Rightarrow> uno \<Rightarrow> uno" where
  "remove_at i g =
     (let toAct = (if int i < ug_toActIdx g then ug_toActIdx g - 1 else ug_toActIdx g);
          ps = take i (ug_players g) @ drop (Suc i) (ug_players g)
      in g\<lparr>ug_players := ps, ug_toActIdx := (if int (length ps) \<le> toAct then 0 else toAct),
           ug_dealerIdx := (if int (length ps) \<le> ug_dealerIdx g then max 0 (int (length ps) - 1) else ug_dealerIdx g)\<rparr>)"

definition dropPlayer :: "uno_env \<Rightarrow> string \<Rightarrow> uno \<Rightarrow> uno" where
  "dropPlayer env peerId g =
     (case find_player g peerId of
        None \<Rightarrow> g
      | Some i \<Rightarrow>
          if peerId = ue_selfId env then g
          else let g1 = forget_peer peerId (remove_at i g);
                   g2 = g1\<lparr>ug_pendingColorChoice := clear_if peerId (ug_pendingColorChoice g1)\<rparr>
               in if ug_phase g2 = Playing \<and> length (activePlayers g2) < 2 then g2\<lparr>ug_phase := Lobby\<rparr>
                  else if ug_phase g2 = Playing \<and> int i = ug_toActIdx g \<and> offline g2 (ug_toActIdx g2) then advance 1 g2
                  else g2)"

definition release_turn :: "uno_env \<Rightarrow> string \<Rightarrow> nat \<Rightarrow> uno \<Rightarrow> uno" where
  "release_turn env peerId i g =
     (if ug_pendingColorChoice g = Some peerId then
        let g1 = g\<lparr>ug_pendingColorChoice := None,
                   ug_activeColor := Some (case ug_activeColor g of None \<Rightarrow> hd COLORS | Some c \<Rightarrow> if c = [] then hd COLORS else c)\<rparr>
        in if is_wild4 (topCard g) \<and> us_houseRules (ug_cfg g) = ''official'' then resolveDrawFour env g1 else advance 1 g1
      else if int i = ug_toActIdx g then
        let g1 = g\<lparr>ug_pendingDrawStack := 0, ug_pendingDrawType := None\<rparr>
        in if 2 \<le> length (activePlayers g1) then advance 1 g1 else g1
      else g)"

definition handleDisconnect :: "uno_env \<Rightarrow> string \<Rightarrow> uno \<Rightarrow> uno" where
  "handleDisconnect env peerId g =
     (if peerId = ue_selfId env then g
      else case find_player g peerId of
        None \<Rightarrow> g
      | Some i \<Rightarrow>
          if ug_phase g \<noteq> Playing then dropPlayer env peerId g
          else if \<not> up_connected (ug_players g ! i) then g
          else forget_peer peerId (release_turn env peerId i (set_player i (\<lambda>p. p\<lparr>up_connected := False\<rparr>) g)))"

definition reconnectPlayer :: "uno_env \<Rightarrow> string \<Rightarrow> uno \<Rightarrow> bool \<times> uno" where
  "reconnectPlayer env peerId g =
     (case find_player g peerId of
        None \<Rightarrow> (False, g)
      | Some i \<Rightarrow> if peerId = ue_selfId env then (False, g)
          else (True, set_player i (\<lambda>p. p\<lparr>up_connected := True\<rparr>) g))"

definition kickPlayer :: "uno_env \<Rightarrow> string \<Rightarrow> uno \<Rightarrow> bool \<times> uno" where
  "kickPlayer env peerId g =
     (if peerId = ue_selfId env \<or> find_player g peerId = None then (False, g) else (True, dropPlayer env peerId g))"

section \<open>A round\<close>

text \<open>The loop of \<open>pickStarterCard\<close>: cards are taken off the pile until one may start.\<close>

fun skip_specials :: "card list \<Rightarrow> card list \<Rightarrow> card option \<times> card list \<times> card list" where
  "skip_specials [] skipped = (None, [], skipped)"
| "skip_specials (c # cs) skipped = (if isSpecialStartCard c then skip_specials cs (skipped @ [c]) else (Some c, cs, skipped))"

definition pickStarterCard :: "uno_env \<Rightarrow> uno \<Rightarrow> uno" where
  "pickStarterCard env g =
     (let rnd = ue_random env (ug_shuffles g); g1 = g\<lparr>ug_shuffles := Suc (ug_shuffles g)\<rparr>
      in case skip_specials (rev (ug_drawPile g)) [] of
        (Some c, rest, skipped) \<Rightarrow>
          (if skipped = [] then g else g1)\<lparr>ug_discardPile := ug_discardPile g @ [c], ug_activeColor := Some (c_color c),
             ug_drawPile := (if skipped = [] then rev rest else shuffle rnd (rev rest @ skipped))\<rparr>
      | (None, rest, skipped) \<Rightarrow>
          (case skipped of
             [] \<Rightarrow> g\<lparr>ug_drawPile := []\<rparr>
           | c # cs \<Rightarrow> g1\<lparr>ug_discardPile := ug_discardPile g @ [c],
               ug_activeColor := Some (if c_color c = ''wild'' then COLORS ! (rnd 0 mod length COLORS) else c_color c),
               ug_drawPile := shuffle rnd cs\<rparr>))"

text \<open>The loop that empties each hand and deals seven cards.\<close>

fun deal :: "uno_env \<Rightarrow> nat list \<Rightarrow> uno \<Rightarrow> uno" where
  "deal env [] g = g"
| "deal env (i # is) g =
     deal env is (snd (drawCardsFor env i 7 (set_player i (\<lambda>p. p\<lparr>up_hand := [], up_saidUno := False\<rparr>) g)))"

definition startGame :: "uno_env \<Rightarrow> uno \<Rightarrow> bool \<times> uno" where
  "startGame env g =
     (if ug_phase g \<noteq> Lobby \<and> ug_phase g \<noteq> RoundOver then (False, g)
      else if length (ug_players g) < 2 then (False, g)
      else if length (activePlayers g) < 2 then (False, g)
      else let g1 = g\<lparr>ug_roundWinner := None, ug_pendingColorChoice := None, ug_pendingDrawStack := 0, ug_pendingDrawType := None,
                      ug_drewCanPass := None, ug_pendingUnoPeer := None, ug_direction := 1, ug_discardPile := [],
                      ug_drawPile := shuffle (ue_random env (ug_shuffles g)) buildDeck, ug_shuffles := Suc (ug_shuffles g)\<rparr>;
               g2 = pickStarterCard env (deal env [0..<length (ug_players g1)] g1)
           in if topCard g2 = None then (False, g2\<lparr>ug_phase := Lobby\<rparr>)
              else let g3 = g2\<lparr>ug_roundNumber := ug_roundNumber g2 + 1,
                               ug_dealerIdx := (if ug_dealerIdx g2 < 0 then 0 else nextIndex g2 (ug_dealerIdx g2) 1)\<rparr>
                   in (True, g3\<lparr>ug_toActIdx := nextIndex g3 (ug_dealerIdx g3) 1, ug_phase := Playing\<rparr>))"

section \<open>Timers and messages\<close>

definition turnTimeout :: "uno_env \<Rightarrow> uno \<Rightarrow> uno" where
  "turnTimeout env g =
     (if ug_phase g \<noteq> Playing \<or> ug_toActIdx g < 0 then g
      else case actor_id g of
        None \<Rightarrow> g
      | Some peerId \<Rightarrow>
          if ug_pendingColorChoice g = Some peerId then
            snd (chooseColor env peerId (Some (case ug_activeColor g of None \<Rightarrow> ''red'' | Some c \<Rightarrow> if c = [] then ''red'' else c)) g)
          else if ug_pendingDrawStack g > 0 \<and> us_houseRules (ug_cfg g) = ''official'' then forceDrawStack env peerId g
          else snd (drawCard env peerId g))"

definition autoStart :: "uno_env \<Rightarrow> uno \<Rightarrow> uno" where
  "autoStart env g = (if ug_phase g = Lobby then snd (startGame env g) else g)"

definition join_wire :: "uno_env \<Rightarrow> string \<Rightarrow> jsv \<Rightarrow> uno \<Rightarrow> uno" where
  "join_wire env from body g =
     (case find_player g from of
        Some i \<Rightarrow> set_player i (\<lambda>p. p\<lparr>up_connected := True, up_name := sanitizeName (get body ''name'') (up_name p)\<rparr>) g
      | None \<Rightarrow>
          if ug_phase g \<noteq> Lobby \<and> ug_phase g \<noteq> RoundOver then g
          else if us_lobbyAccess (ug_cfg g) \<noteq> ''public'' \<and> from \<noteq> ue_selfId env \<and> from \<notin> set (ug_invitedPeers g) then g
          else snd (addPlayer from (get body ''name'') g))"

definition onWire :: "uno_env \<Rightarrow> string \<Rightarrow> jsv \<Rightarrow> uno \<Rightarrow> uno" where
  "onWire env from body g =
     (if \<not> js_Boolean (get body ''wire'') then g
      else if get body ''wire'' = Str ''join'' \<and> get body ''gameId'' = Str (ue_gameId env) then join_wire env from body g
      else if get body ''wire'' = Str ''leave'' then dropPlayer env from g
      else if get body ''wire'' = Str ''action'' \<and> get body ''gameId'' = Str (ue_gameId env)
      then (case sanitizeIncomingAction (get body ''action'') of None \<Rightarrow> g | Some a \<Rightarrow> snd (applyAction env from a g))
      else g)"

section \<open>The host\<close>

definition updateSettings :: "jsv \<Rightarrow> uno \<Rightarrow> uno" where
  "updateSettings patch g =
     g\<lparr>ug_cfg := sanitizeSettings patch (ug_cfg g) (fold max (map (\<lambda>p. up_seat p + 1) (ug_players g)) 2)\<rparr>"

definition invitePeer :: "uno_env \<Rightarrow> string \<Rightarrow> uno \<Rightarrow> bool \<times> uno" where
  "invitePeer env peerId g =
     (if peerId = [] \<or> find_player g peerId \<noteq> None then (False, g)
      else if peerId \<notin> set (ue_connected env) \<or> peerId \<in> set (ue_blocked env) then (False, g)
      else (True, g\<lparr>ug_invitedPeers := push_new peerId (ug_invitedPeers g)\<rparr>))"

definition bootstrapHost :: "uno_env \<Rightarrow> uno \<Rightarrow> uno" where
  "bootstrapHost env g = snd (addPlayer (ue_selfId env) (js_orv (ue_selfName env) (Str ''Host'')) g)"

text \<open>A new table; a saved one starts with its players, scores and number of rounds.\<close>

definition createHost :: "jsv \<Rightarrow> uno" where
  "createHost input =
     \<lparr>ug_cfg = sanitizeSettings input defaultSettings 2, ug_players = [], ug_phase = Lobby, ug_direction = 1, ug_activeColor = None,
      ug_drawPile = [], ug_discardPile = [], ug_toActIdx = - 1, ug_dealerIdx = - 1, ug_roundNumber = 0, ug_roundWinner = None, ug_matchWinner = None,
      ug_pendingColorChoice = None, ug_pendingDrawStack = 0, ug_pendingDrawType = None, ug_drewCanPass = None, ug_pendingUnoPeer = None,
      ug_invitedPeers = [], ug_shuffles = 0\<rparr>"

end
