(* ===== verification/Uno_Facts.thy ===== *)
theory Uno_Facts
  imports Uno_Game
begin

text \<open>
  What the UNO host guarantees over any sequence of inputs: cards are conserved, the turn is always that
  of a seat at the table, only the player whose turn it is can move, and only legal cards are accepted.
\<close>

named_theorems uno_frame \<open>what an operation of the host leaves alone\<close>

section \<open>Seats\<close>

text \<open>Who sits where and is connected: all that finding players and passing the turn depends on.\<close>

definition seats :: "uno \<Rightarrow> (string \<times> bool) list" where
  "seats g = map (\<lambda>p. (up_peerId p, up_connected p)) (ug_players g)"

lemma findIndex_map: "findIndex P (map f xs) = findIndex (\<lambda>x. P (f x)) xs"
  by (induction xs) simp_all

lemma find_player_seats: "find_player g x = findIndex (\<lambda>s. fst s = x) (seats g)"
  by (simp add: find_player_def seats_def findIndex_map)

lemma length_seats: "length (ug_players g) = length (seats g)"
  by (simp add: seats_def)

lemma no_players_seats: "ug_players g = [] \<longleftrightarrow> seats g = []"
  by (simp add: seats_def)

lemma offline_seats: "offline g i = (0 \<le> i \<and> i < int (length (seats g)) \<and> \<not> snd (seats g ! nat i))"
  by (auto simp: offline_def player_at_def seats_def)

lemma actor_seats: "actor_id g = (if 0 \<le> ug_toActIdx g \<and> ug_toActIdx g < int (length (seats g)) then Some (fst (seats g ! nat (ug_toActIdx g))) else None)"
  by (auto simp: actor_id_def player_at_def seats_def)

lemma active_seats: "length (activePlayers g) = length (filter snd (seats g))"
  by (simp add: activePlayers_def seats_def filter_map comp_def)

lemma skip_offline_cong:
  "seats g = seats h \<Longrightarrow> ug_direction g = ug_direction h \<Longrightarrow> skip_offline k g i = skip_offline k h i"
  by (induction k arbitrary: i) (simp_all add: offline_seats step_index_def length_seats)

lemma nextIndex_cong:
  assumes "seats g = seats h" "ug_direction g = ug_direction h"
  shows "nextIndex g i k = nextIndex h i k"
proof -
  have "next_seat g i = next_seat h i" for i
    using skip_offline_cong [OF assms] assms by (simp add: next_seat_def step_index_def length_seats)
  then have "next_seat g = next_seat h" by blast
  then show ?thesis using assms(1) by (simp add: nextIndex_def no_players_seats)
qed

lemma find_player_Some:
  assumes "find_player g x = Some i"
  shows "i < length (ug_players g)" "up_peerId (ug_players g ! i) = x"
  using assms by (auto simp: find_player_def findIndex_Some)

lemma map_set_nth: "f (h (xs ! i)) = f (xs ! i) \<Longrightarrow> map f (xs[i := h (xs ! i)]) = map f xs"
  by (cases "i < length xs") (simp_all add: map_update list_update_beyond, metis list_update_id nth_map)

lemma seats_set_player [simp]:
  "(\<And>p. up_peerId (f p) = up_peerId p) \<Longrightarrow> (\<And>p. up_connected (f p) = up_connected p) \<Longrightarrow> seats (set_player i f g) = seats g"
  unfolding seats_def set_player_def by (simp add: map_set_nth)

lemma set_player_frame [simp, uno_frame]:
  "ug_cfg (set_player i f g) = ug_cfg g" "ug_phase (set_player i f g) = ug_phase g" "ug_direction (set_player i f g) = ug_direction g"
  "ug_activeColor (set_player i f g) = ug_activeColor g" "ug_drawPile (set_player i f g) = ug_drawPile g"
  "ug_discardPile (set_player i f g) = ug_discardPile g" "ug_toActIdx (set_player i f g) = ug_toActIdx g"
  "ug_dealerIdx (set_player i f g) = ug_dealerIdx g"
  "ug_pendingColorChoice (set_player i f g) = ug_pendingColorChoice g" "ug_pendingDrawStack (set_player i f g) = ug_pendingDrawStack g"
  "ug_pendingDrawType (set_player i f g) = ug_pendingDrawType g" "ug_drewCanPass (set_player i f g) = ug_drewCanPass g"
  "ug_pendingUnoPeer (set_player i f g) = ug_pendingUnoPeer g" "ug_roundWinner (set_player i f g) = ug_roundWinner g"
  "length (ug_players (set_player i f g)) = length (ug_players g)"
  by (simp_all add: set_player_def)

lemma seats_updates [simp]:
  "seats (g\<lparr>ug_phase := ph\<rparr>) = seats g" "seats (g\<lparr>ug_direction := dd\<rparr>) = seats g" "seats (g\<lparr>ug_activeColor := cc\<rparr>) = seats g"
  "seats (g\<lparr>ug_drawPile := cs\<rparr>) = seats g" "seats (g\<lparr>ug_discardPile := cs\<rparr>) = seats g" "seats (g\<lparr>ug_toActIdx := ti\<rparr>) = seats g"
  "seats (g\<lparr>ug_dealerIdx := ti\<rparr>) = seats g" "seats (g\<lparr>ug_roundNumber := ti\<rparr>) = seats g" "seats (g\<lparr>ug_roundWinner := w\<rparr>) = seats g"
  "seats (g\<lparr>ug_matchWinner := w\<rparr>) = seats g" "seats (g\<lparr>ug_pendingColorChoice := w\<rparr>) = seats g" "seats (g\<lparr>ug_pendingDrawStack := k\<rparr>) = seats g"
  "seats (g\<lparr>ug_pendingDrawType := w\<rparr>) = seats g" "seats (g\<lparr>ug_drewCanPass := w\<rparr>) = seats g" "seats (g\<lparr>ug_pendingUnoPeer := w\<rparr>) = seats g"
  "seats (g\<lparr>ug_invitedPeers := ps\<rparr>) = seats g" "seats (g\<lparr>ug_shuffles := k\<rparr>) = seats g" "seats (g\<lparr>ug_cfg := cfg\<rparr>) = seats g"
  by (simp_all add: seats_def)

section \<open>Cards\<close>

definition cards_of :: "uno \<Rightarrow> card multiset" where
  "cards_of g = mset (concat (map up_hand (ug_players g))) + mset (ug_drawPile g) + mset (ug_discardPile g)"

lemma hands_update:
  "i < length ps \<Longrightarrow> mset (concat (map up_hand (ps[i := p]))) + mset (up_hand (ps ! i)) = mset (concat (map up_hand ps)) + mset (up_hand p)"
proof (induction ps arbitrary: i)
  case (Cons q ps)
  show ?case
  proof (cases i)
    case 0
    then show ?thesis by (simp add: ac_simps)
  next
    case (Suc j)
    then show ?thesis using Cons.IH [of j] Cons.prems by (simp add: ac_simps)
  qed
qed simp

lemma cards_set_player:
  "i < length (ug_players g) \<Longrightarrow> cards_of (set_player i f g) + mset (up_hand (ug_players g ! i)) = cards_of g + mset (up_hand (f (ug_players g ! i)))"
  using hands_update [of i "ug_players g" "f (ug_players g ! i)"] by (simp add: cards_of_def set_player_def ac_simps)

lemma cards_set_player_same:
  "(\<And>p. up_hand (f p) = up_hand p) \<Longrightarrow> cards_of (set_player i f g) = cards_of g"
  unfolding cards_of_def set_player_def by (simp add: map_set_nth)

lemma cards_updates [simp]:
  "cards_of (g\<lparr>ug_phase := ph\<rparr>) = cards_of g" "cards_of (g\<lparr>ug_direction := dd\<rparr>) = cards_of g" "cards_of (g\<lparr>ug_activeColor := cc\<rparr>) = cards_of g"
  "cards_of (g\<lparr>ug_toActIdx := ti\<rparr>) = cards_of g" "cards_of (g\<lparr>ug_dealerIdx := ti\<rparr>) = cards_of g" "cards_of (g\<lparr>ug_roundNumber := ti\<rparr>) = cards_of g"
  "cards_of (g\<lparr>ug_roundWinner := w\<rparr>) = cards_of g" "cards_of (g\<lparr>ug_matchWinner := w\<rparr>) = cards_of g" "cards_of (g\<lparr>ug_pendingColorChoice := w\<rparr>) = cards_of g"
  "cards_of (g\<lparr>ug_pendingDrawStack := k\<rparr>) = cards_of g" "cards_of (g\<lparr>ug_pendingDrawType := w\<rparr>) = cards_of g" "cards_of (g\<lparr>ug_drewCanPass := w\<rparr>) = cards_of g"
  "cards_of (g\<lparr>ug_pendingUnoPeer := w\<rparr>) = cards_of g" "cards_of (g\<lparr>ug_invitedPeers := ps\<rparr>) = cards_of g" "cards_of (g\<lparr>ug_shuffles := k\<rparr>) = cards_of g"
  "cards_of (g\<lparr>ug_cfg := cfg\<rparr>) = cards_of g"
  by (simp_all add: cards_of_def)

lemma mset_butlast: "xs \<noteq> [] \<Longrightarrow> add_mset (last xs) (mset (butlast xs)) = mset xs"
  by (cases xs rule: rev_cases) simp_all

lemma ensure_cards: "cards_of (snd (ensureDrawPile env g)) = cards_of g"
proof (cases "ug_drawPile g \<noteq> [] \<or> length (ug_discardPile g) \<le> 1")
  case False
  then have "ug_discardPile g \<noteq> []" by auto
  then show ?thesis using False mset_butlast [of "ug_discardPile g"]
    by (simp add: ensureDrawPile_def Let_def cards_of_def)
qed (auto simp: ensureDrawPile_def)

text \<open>All that drawing cards leaves alone.\<close>

definition frame_of where
  "frame_of g = (seats g, ug_cfg g, ug_phase g, ug_direction g, ug_activeColor g, topCard g, ug_toActIdx g, ug_dealerIdx g,
     ug_pendingColorChoice g, ug_pendingDrawStack g, ug_pendingDrawType g, ug_drewCanPass g, ug_pendingUnoPeer g, ug_roundWinner g)"

lemma ensure_players [uno_frame]: "ug_players (snd (ensureDrawPile env g)) = ug_players g"
  by (simp add: ensureDrawPile_def Let_def)

lemma ensure_frame: "frame_of (snd (ensureDrawPile env g)) = frame_of g"
  by (auto simp: frame_of_def ensureDrawPile_def Let_def topCard_def)

lemma ensure_pile: "fst (ensureDrawPile env g) \<longleftrightarrow> ug_drawPile (snd (ensureDrawPile env g)) \<noteq> []"
  by (simp add: ensureDrawPile_def Let_def)

text \<open>One card drawn.\<close>

definition draw_one :: "uno_env \<Rightarrow> nat \<Rightarrow> uno \<Rightarrow> uno" where
  "draw_one env i g = (let g1 = snd (ensureDrawPile env g) in
     set_player i (\<lambda>p. p\<lparr>up_hand := up_hand p @ [last (ug_drawPile g1)]\<rparr>) (g1\<lparr>ug_drawPile := butlast (ug_drawPile g1)\<rparr>))"

lemma drawCardsFor_Suc:
  "drawCardsFor env i (Suc k) g =
     (if fst (ensureDrawPile env g)
      then (last (ug_drawPile (snd (ensureDrawPile env g))) # fst (drawCardsFor env i k (draw_one env i g)), snd (drawCardsFor env i k (draw_one env i g)))
      else ([], snd (ensureDrawPile env g)))"
  by (simp add: draw_one_def Let_def split: prod.splits)

declare drawCardsFor.simps(2) [simp del]

lemma draw_one_cards:
  assumes "i < length (ug_players g)" "fst (ensureDrawPile env g)"
  shows "cards_of (draw_one env i g) = cards_of g"
proof -
  define g1 where "g1 = snd (ensureDrawPile env g)"
  have pile: "ug_drawPile g1 \<noteq> []" "ug_players g1 = ug_players g" using assms(2) ensure_pile uno_frame by (simp_all add: g1_def)
  have "cards_of (g1\<lparr>ug_drawPile := butlast (ug_drawPile g1)\<rparr>) + {#last (ug_drawPile g1)#} = cards_of g1"
    using mset_butlast [OF pile(1)] by (simp add: cards_of_def ac_simps)
  moreover have "cards_of (draw_one env i g) = cards_of (g1\<lparr>ug_drawPile := butlast (ug_drawPile g1)\<rparr>) + {#last (ug_drawPile g1)#}"
    using cards_set_player [of i "g1\<lparr>ug_drawPile := butlast (ug_drawPile g1)\<rparr>" "\<lambda>p. p\<lparr>up_hand := up_hand p @ [last (ug_drawPile g1)]\<rparr>"] assms(1) pile(2)
    by (simp add: draw_one_def g1_def [symmetric] Let_def)
  ultimately show ?thesis using ensure_cards [of env g] by (simp add: g1_def)
qed

lemma draw_one_frame: "frame_of (draw_one env i g) = frame_of g"
proof -
  have "frame_of (set_player i (\<lambda>p. p\<lparr>up_hand := up_hand p @ [c]\<rparr>) (h\<lparr>ug_drawPile := cs\<rparr>)) = frame_of h" for c h cs
    by (simp add: frame_of_def topCard_def)
  then show ?thesis by (simp add: draw_one_def Let_def ensure_frame)
qed

lemma draw_frame: "frame_of (snd (drawCardsFor env i k g)) = frame_of g"
  by (induction k arbitrary: g) (simp_all add: drawCardsFor_Suc draw_one_frame ensure_frame)

lemmas draw_fields [uno_frame] = draw_frame [unfolded frame_of_def prod.inject]

lemma draw_one_seats: "seats (draw_one env i g) = seats g"
  using draw_one_frame [of env i g] by (simp add: frame_of_def)

lemma draw_cards: "i < length (ug_players g) \<Longrightarrow> cards_of (snd (drawCardsFor env i k g)) = cards_of g"
proof (induction k arbitrary: g)
  case (Suc k)
  have "length (ug_players (draw_one env i g)) = length (ug_players g)" by (simp add: length_seats draw_one_seats)
  then show ?case using Suc draw_one_cards ensure_cards by (simp add: drawCardsFor_Suc)
qed simp

section \<open>Whose turn it is\<close>

definition ids :: "uno \<Rightarrow> string list" where
  "ids g = map fst (seats g)"

definition in_range :: "uno \<Rightarrow> bool" where
  "in_range g \<longleftrightarrow> 0 \<le> ug_toActIdx g \<and> ug_toActIdx g < int (length (ids g))"

definition playing_ok :: "uno \<Rightarrow> bool" where
  "playing_ok g \<longleftrightarrow> 2 \<le> length (ids g) \<and> in_range g \<and>
     (ug_pendingColorChoice g \<noteq> None \<longrightarrow> ug_pendingColorChoice g = actor_id g) \<and>
     (ug_drewCanPass g \<noteq> None \<longrightarrow> ug_drewCanPass g = actor_id g)"

definition turn_ok :: "uno \<Rightarrow> bool" where
  "turn_ok g \<longleftrightarrow> (ug_direction g = 1 \<or> ug_direction g = - 1) \<and> distinct (ids g) \<and>
     (\<forall>p. ug_pendingColorChoice g = Some p \<longrightarrow> ug_drewCanPass g = None \<and> p \<in> set (ids g) \<and> in_range g) \<and>
     (ug_phase g = Playing \<longrightarrow> playing_ok g)"

definition settled :: "uno \<Rightarrow> bool" where
  "settled g \<longleftrightarrow> ug_pendingColorChoice g = None \<and> (ug_phase g = Playing \<longrightarrow> ug_drewCanPass g = None)"

lemma ids_updates [simp]:
  "ids (g\<lparr>ug_phase := ph\<rparr>) = ids g" "ids (g\<lparr>ug_direction := dd\<rparr>) = ids g" "ids (g\<lparr>ug_activeColor := cc\<rparr>) = ids g"
  "ids (g\<lparr>ug_drawPile := cs\<rparr>) = ids g" "ids (g\<lparr>ug_discardPile := cs\<rparr>) = ids g" "ids (g\<lparr>ug_toActIdx := ti\<rparr>) = ids g"
  "ids (g\<lparr>ug_dealerIdx := ti\<rparr>) = ids g" "ids (g\<lparr>ug_roundNumber := ti\<rparr>) = ids g" "ids (g\<lparr>ug_roundWinner := w\<rparr>) = ids g"
  "ids (g\<lparr>ug_matchWinner := w\<rparr>) = ids g" "ids (g\<lparr>ug_pendingColorChoice := w\<rparr>) = ids g" "ids (g\<lparr>ug_pendingDrawStack := k\<rparr>) = ids g"
  "ids (g\<lparr>ug_pendingDrawType := w\<rparr>) = ids g" "ids (g\<lparr>ug_drewCanPass := w\<rparr>) = ids g" "ids (g\<lparr>ug_pendingUnoPeer := w\<rparr>) = ids g"
  "ids (g\<lparr>ug_invitedPeers := ps\<rparr>) = ids g" "ids (g\<lparr>ug_shuffles := k\<rparr>) = ids g" "ids (g\<lparr>ug_cfg := cfg\<rparr>) = ids g"
  by (simp_all add: ids_def)

lemma actor_ids: "actor_id g = (if in_range g then Some (ids g ! nat (ug_toActIdx g)) else None)"
  by (auto simp: actor_seats ids_def in_range_def)

lemma actor_in_ids: "actor_id g = Some x \<Longrightarrow> x \<in> set (ids g) \<and> in_range g"
  by (auto simp: actor_ids in_range_def nth_mem split: if_splits)

lemma actor_cong: "ids g = ids h \<Longrightarrow> ug_toActIdx g = ug_toActIdx h \<Longrightarrow> actor_id g = actor_id h"
  by (simp add: actor_ids in_range_def)

lemma actor_updates [simp]:
  "actor_id (g\<lparr>ug_drewCanPass := w\<rparr>) = actor_id g" "in_range (g\<lparr>ug_drewCanPass := w\<rparr>) = in_range g"
  "actor_id (g\<lparr>ug_pendingColorChoice := w\<rparr>) = actor_id g" "in_range (g\<lparr>ug_pendingColorChoice := w\<rparr>) = in_range g"
  by (simp_all add: actor_ids in_range_def)

lemma ids_players: "ids g = map up_peerId (ug_players g)"
  by (simp add: ids_def seats_def comp_def)

lemma find_player_ids: "find_player g x = findIndex (\<lambda>i. i = x) (ids g)"
  by (simp add: find_player_def ids_players findIndex_map)

lemma ids_set_player [simp]: "(\<And>p. up_peerId (f p) = up_peerId p) \<Longrightarrow> ids (set_player i f g) = ids g"
  unfolding ids_players set_player_def by (simp add: map_set_nth)

text \<open>What the invariant of the turn depends on.\<close>

definition turn_of where
  "turn_of g = (ids g, ug_direction g, ug_phase g, ug_toActIdx g, ug_pendingColorChoice g, ug_drewCanPass g)"

lemma turn_ok_cong: "turn_of g = turn_of h \<Longrightarrow> turn_ok g = turn_ok h"
  by (simp add: turn_of_def turn_ok_def playing_ok_def actor_ids in_range_def)

lemma turn_of_frame: "frame_of g = frame_of h \<Longrightarrow> turn_of g = turn_of h"
  by (simp add: frame_of_def turn_of_def ids_def)

lemma turn_of_set_player [simp]: "(\<And>p. up_peerId (f p) = up_peerId p) \<Longrightarrow> turn_of (set_player i f g) = turn_of g"
  by (simp add: turn_of_def)

lemma js_mod_range: "0 < n \<Longrightarrow> 0 \<le> a \<Longrightarrow> 0 \<le> js_mod a n \<and> js_mod a n < n"
  by (simp add: js_mod_def)

lemma step_index_range:
  assumes "ug_direction g = 1 \<or> ug_direction g = - 1" "seats g \<noteq> []" "0 \<le> i"
  shows "0 \<le> step_index g i \<and> step_index g i < int (length (seats g))"
proof -
  have "0 < length (seats g)" using assms(2) by simp
  then have pos: "1 \<le> int (length (seats g))" by linarith
  moreover have "0 \<le> i + ug_direction g + int (length (seats g))" using assms(1,3) pos by linarith
  ultimately show ?thesis unfolding step_index_def length_seats by (intro js_mod_range) auto
qed

lemma skip_offline_range:
  assumes "ug_direction g = 1 \<or> ug_direction g = - 1" "seats g \<noteq> []"
  shows "0 \<le> i \<and> i < int (length (seats g)) \<Longrightarrow> 0 \<le> skip_offline k g i \<and> skip_offline k g i < int (length (seats g))"
  by (induction k arbitrary: i) (use step_index_range [OF assms] in auto)

lemma nextIndex_range:
  assumes "ug_direction g = 1 \<or> ug_direction g = - 1" "seats g \<noteq> []" "0 \<le> i" "i < int (length (seats g))"
  shows "0 \<le> nextIndex g i k \<and> nextIndex g i k < int (length (seats g))"
proof -
  have "0 \<le> (next_seat g ^^ k) i \<and> (next_seat g ^^ k) i < int (length (seats g))"
    by (induction k) (use assms step_index_range skip_offline_range in \<open>simp_all add: next_seat_def\<close>)
  then show ?thesis using assms(2) by (simp add: nextIndex_def no_players_seats)
qed

lemma advance_fields [simp, uno_frame]:
  "seats (advance k g) = seats g" "ids (advance k g) = ids g" "ug_phase (advance k g) = ug_phase g" "ug_direction (advance k g) = ug_direction g"
  "ug_pendingColorChoice (advance k g) = ug_pendingColorChoice g" "ug_drewCanPass (advance k g) = ug_drewCanPass g"
  "cards_of (advance k g) = cards_of g" "ug_players (advance k g) = ug_players g" "ug_cfg (advance k g) = ug_cfg g"
  "ug_discardPile (advance k g) = ug_discardPile g"
  by (simp_all add: advance_def ids_def)

lemma moved_ok:
  assumes "turn_ok g" "settled g" "ids h = ids g" "ug_direction h = 1 \<or> ug_direction h = - 1" "ug_phase h = ug_phase g"
    "ug_pendingColorChoice h = ug_pendingColorChoice g" "ug_drewCanPass h = ug_drewCanPass g" "ug_phase g = Playing \<Longrightarrow> in_range h"
  shows "turn_ok h"
  using assms by (simp add: turn_ok_def playing_ok_def settled_def)

lemma turn_range:
  assumes "turn_ok g" "in_range g"
  shows "0 \<le> nextIndex g (ug_toActIdx g) k \<and> nextIndex g (ug_toActIdx g) k < int (length (seats g))"
  by (rule nextIndex_range) (use assms in \<open>auto simp: turn_ok_def in_range_def ids_def\<close>)

lemma playing_range: "turn_ok g \<Longrightarrow> ug_phase g = Playing \<Longrightarrow> in_range g"
  by (simp add: turn_ok_def playing_ok_def)

lemma advance_ok:
  assumes "turn_ok g" "settled g"
  shows "turn_ok (advance k g)"
proof (rule moved_ok [OF assms])
  show "in_range (advance k g)" if "ug_phase g = Playing"
    using turn_range [OF assms(1) playing_range [OF assms(1) that], of k] by (simp add: in_range_def advance_def ids_def)
qed (use assms(1) in \<open>simp_all add: turn_ok_def\<close>)

lemma resolveReverse_ok:
  assumes "turn_ok g" "settled g"
  shows "turn_ok (resolveReverse g)" "cards_of (resolveReverse g) = cards_of g"
proof -
  have "turn_ok (g\<lparr>ug_direction := - ug_direction g\<rparr>)"
    by (rule moved_ok [OF assms]) (use assms(1) playing_range [OF assms(1)] in \<open>auto simp: turn_ok_def in_range_def\<close>)
  moreover have "settled (g\<lparr>ug_direction := - ug_direction g\<rparr>)" using assms(2) by (simp add: settled_def)
  ultimately show "turn_ok (resolveReverse g)"
    using advance_ok assms by (simp add: resolveReverse_def resolveSkip_def)
qed (simp add: resolveReverse_def resolveSkip_def)

lemma resolve_draw_ok:
  assumes "turn_ok g" "settled g" "in_range g"
  shows "turn_ok (resolve_draw env n kind g)" "cards_of (resolve_draw env n kind g) = cards_of g"
    "ug_phase (resolve_draw env n kind g) = ug_phase g"
proof -
  let ?i = "nextIndex g (ug_toActIdx g) 1" and ?g' = "resolve_draw env n kind g"
  have stack: "turn_ok (advance 1 (g\<lparr>ug_pendingDrawStack := k, ug_pendingDrawType := w\<rparr>))" for k w
    by (rule advance_ok) (use assms turn_ok_cong [of "g\<lparr>ug_pendingDrawStack := k, ug_pendingDrawType := w\<rparr>" g] in \<open>simp_all add: turn_of_def settled_def\<close>)
  have i: "0 \<le> ?i" "?i < int (length (seats g))" using turn_range [OF assms(1,3)] by auto
  have "nat ?i < length (ug_players g)" using i by (simp add: length_seats)
  then have cards: "cards_of (snd (drawCardsFor env (nat ?i) n g)) = cards_of g" by (rule draw_cards)
  let ?g1 = "snd (drawCardsFor env (nat ?i) n g)"
  have ids1: "ids ?g1 = ids g" by (simp add: ids_def uno_frame)
  have "0 \<le> nextIndex ?g1 ?i 1 \<and> nextIndex ?g1 ?i 1 < int (length (seats ?g1))"
    by (rule nextIndex_range) (use i assms(1) in \<open>auto simp: uno_frame turn_ok_def\<close>)
  then have "turn_ok (?g1\<lparr>ug_toActIdx := nextIndex ?g1 ?i 1\<rparr>)"
    by (intro moved_ok [OF assms(1,2)]) (use assms in \<open>auto simp: uno_frame turn_ok_def in_range_def ids_def\<close>)
  then show "turn_ok ?g'" using stack by (simp add: resolve_draw_def Let_def)
  show "cards_of ?g' = cards_of g" "ug_phase ?g' = ug_phase g"
    using cards by (simp_all add: resolve_draw_def Let_def uno_frame)
qed

text \<open>An operation that keeps the cards and the invariant of the turn.\<close>

definition sound :: "uno \<Rightarrow> uno \<Rightarrow> bool" where
  "sound g h \<longleftrightarrow> cards_of h = cards_of g \<and> (turn_ok g \<longrightarrow> turn_ok h)"

lemma sound_refl [simp]: "sound g g"
  by (simp add: sound_def)

lemma sound_trans: "sound g h \<Longrightarrow> sound h k \<Longrightarrow> sound g k"
  by (simp add: sound_def)

lemma sound_cong: "turn_of h = turn_of g \<Longrightarrow> cards_of h = cards_of g \<Longrightarrow> sound g h"
  using turn_ok_cong [of h g] by (simp add: sound_def)

lemma sound_draw: "i < length (ug_players g) \<Longrightarrow> sound g (snd (drawCardsFor env i k g))"
  by (intro sound_cong turn_of_frame draw_frame draw_cards)

lemma penalty_sound: "sound g (checkUnoPenalty env x g)" "frame_of (checkUnoPenalty env x g) = frame_of g"
proof -
  have "sound g (snd (drawCardsFor env i k g))" if "find_player g x = Some i" for i k
    by (rule sound_draw) (rule find_player_Some(1) [OF that])
  then show "sound g (checkUnoPenalty env x g)" by (simp add: checkUnoPenalty_def Let_def split: option.splits)
  show "frame_of (checkUnoPenalty env x g) = frame_of g"
    using draw_frame by (simp add: checkUnoPenalty_def Let_def split: option.splits)
qed

lemma penalise_sound: "sound g (penalise env x g)" "frame_of (penalise env x g) = frame_of g"
  using penalty_sound by (simp_all add: penalise_def split: option.splits)

lemma finishRound_sound: "turn_ok g \<Longrightarrow> turn_ok (finishRound w g)" "cards_of (finishRound w g) = cards_of g" "ug_phase (finishRound w g) \<noteq> Playing"
proof -
  have points: "ids (applyPointsForRound w h) = ids h" "ug_direction (applyPointsForRound w h) = ug_direction h" "cards_of (applyPointsForRound w h) = cards_of h"
    "ug_phase (applyPointsForRound w h) = ug_phase h \<or> ug_phase (applyPointsForRound w h) = MatchOver" for h
    by (auto simp: applyPointsForRound_def Let_def cards_set_player_same ids_def split: option.splits)
  have upd: "ids (h\<lparr>ug_phase := ph\<rparr>) = ids h" for h ph by (simp add: ids_def)
  show phase: "ug_phase (finishRound w g) \<noteq> Playing"
    using points(4) by (auto simp: finishRound_def Let_def)
  show "cards_of (finishRound w g) = cards_of g" by (simp add: finishRound_def Let_def points)
  have "ids (finishRound w g) = ids g" "ug_direction (finishRound w g) = ug_direction g"
    by (simp_all add: finishRound_def Let_def points upd)
  moreover have "ug_pendingColorChoice (finishRound w g) = None"
    by (simp add: finishRound_def applyPointsForRound_def Let_def split: option.splits)
  ultimately show "turn_ok g \<Longrightarrow> turn_ok (finishRound w g)" using phase by (simp add: turn_ok_def)
qed

lemma resolve_sound:
  assumes "turn_ok g" "ug_phase g = Playing" "settled g" "in_range g"
  shows "turn_ok (snd (afterCardPlayed env i c g))" "cards_of (snd (afterCardPlayed env i c g)) = cards_of g"
proof -
  let ?p = "ug_players g ! i"
  define g1 where "g1 = set_player i (\<lambda>p. p\<lparr>up_saidUno := False\<rparr>) (if length (up_hand ?p) = 1 then g\<lparr>ug_pendingUnoPeer := Some (up_peerId ?p)\<rparr> else g)"
  have t: "turn_of g1 = turn_of g" "cards_of g1 = cards_of g" by (simp_all add: g1_def turn_of_def ids_def cards_set_player_same)
  then have g1: "turn_ok g1" "settled g1" "in_range g1" using assms turn_ok_cong [OF t(1)] by (simp_all add: turn_of_def settled_def in_range_def)
  show "turn_ok (snd (afterCardPlayed env i c g))" "cards_of (snd (afterCardPlayed env i c g)) = cards_of g"
    unfolding afterCardPlayed_def Let_def g1_def [symmetric]
    using finishRound_sound [where g = g1] resolve_draw_ok [OF g1] resolveReverse_ok [OF g1(1,2)] advance_ok [OF g1(1,2)] g1(1) t(2)
    by (simp_all add: resolveSkip_def resolveDrawTwo_def)
qed

lemma may_move_Some:
  assumes "may_move x g = Some i"
  shows "find_player g x = Some i" "ug_toActIdx g = int i" "ug_phase g = Playing" "ug_pendingColorChoice g = None" "i < length (ug_players g)" "actor_id g = Some x"
proof -
  show f: "find_player g x = Some i" and "ug_toActIdx g = int i" "ug_phase g = Playing" "ug_pendingColorChoice g = None"
    using assms by (auto simp: may_move_def split: option.splits if_splits)
  then show "i < length (ug_players g)" "actor_id g = Some x"
    using find_player_Some [OF f] by (simp_all add: actor_id_def player_at_def)
qed

lemma lay_card_facts:
  assumes "i < length (ug_players g)" "k < length (up_hand (ug_players g ! i))"
  shows "cards_of (lay_card i k g) = cards_of g" "seats (lay_card i k g) = seats g" "turn_of (lay_card i k g) = turn_of g"
proof -
  let ?h = "up_hand (ug_players g ! i)"
  define g1 where "g1 = g\<lparr>ug_discardPile := ug_discardPile g @ [?h ! k]\<rparr>"
  let ?f = "\<lambda>p. p\<lparr>up_hand := take k (up_hand p) @ drop (Suc k) (up_hand p)\<rparr>"
  have lay: "lay_card i k g = set_player i ?f g1" by (simp add: lay_card_def g1_def Let_def)
  have "mset ?h = mset (take k ?h @ ?h ! k # drop (Suc k) ?h)" using assms(2) by (simp add: id_take_nth_drop [symmetric])
  then have hand: "mset ?h = mset (take k ?h @ drop (Suc k) ?h) + {#?h ! k#}" by simp
  have "cards_of (set_player i ?f g1) + mset ?h = cards_of g1 + mset (take k ?h @ drop (Suc k) ?h)"
    using cards_set_player [of i g1 ?f] assms(1) by (simp add: g1_def)
  moreover have "cards_of g1 = cards_of g + {#?h ! k#}" by (simp add: g1_def cards_of_def)
  ultimately show "cards_of (lay_card i k g) = cards_of g" using lay hand by (simp add: ac_simps)
  show "seats (lay_card i k g) = seats g" by (simp add: lay g1_def)
  show "turn_of (lay_card i k g) = turn_of g" by (simp add: lay g1_def turn_of_def ids_def)
qed

lemma draw_one_other: "i \<noteq> j \<Longrightarrow> ug_players (draw_one env j g) ! i = ug_players g ! i"
  by (simp add: draw_one_def Let_def set_player_def uno_frame)

lemma draw_other: "i \<noteq> j \<Longrightarrow> ug_players (snd (drawCardsFor env j k g)) ! i = ug_players g ! i"
  by (induction k arbitrary: g) (simp_all add: drawCardsFor_Suc draw_one_other uno_frame)

lemma penalty_other:
  assumes "find_player g x = Some i" "q \<noteq> x"
  shows "ug_players (checkUnoPenalty env q g) ! i = ug_players g ! i"
proof -
  have "j \<noteq> i" if "find_player g q = Some j" for j
    using find_player_Some [OF assms(1)] find_player_Some [OF that] assms(2) by auto
  then show ?thesis using draw_other by (auto simp: checkUnoPenalty_def Let_def split: option.splits)
qed

lemma penalise_other: "find_player g x = Some i \<Longrightarrow> ug_players (penalise env x g) ! i = ug_players g ! i"
  using penalty_other by (simp add: penalise_def split: option.splits)

text \<open>An accepted card, as the host takes it from the hand and lays it down.\<close>

definition laid :: "uno_env \<Rightarrow> string \<Rightarrow> nat \<Rightarrow> nat \<Rightarrow> uno \<Rightarrow> uno" where
  "laid env x i k g = lay_card i k ((penalise env x g)\<lparr>ug_pendingUnoPeer := None, ug_drewCanPass := None\<rparr>)"

lemma laid_facts:
  assumes "may_move x g = Some i" "k < length (up_hand (ug_players g ! i))"
  shows "cards_of (laid env x i k g) = cards_of g" "ids (laid env x i k g) = ids g" "ug_phase (laid env x i k g) = Playing"
    "ug_toActIdx (laid env x i k g) = int i" "settled (laid env x i k g)" "turn_ok g \<Longrightarrow> turn_ok (laid env x i k g)"
    "ug_discardPile (laid env x i k g) \<noteq> [] \<and> last (ug_discardPile (laid env x i k g)) = up_hand (ug_players g ! i) ! k"
    "ug_players (laid env x i k g) ! i = (ug_players g ! i)\<lparr>up_hand := take k (up_hand (ug_players g ! i)) @ drop (Suc k) (up_hand (ug_players g ! i))\<rparr>"
proof -
  note may = may_move_Some [OF assms(1)]
  define g0 where "g0 = (penalise env x g)\<lparr>ug_pendingUnoPeer := None, ug_drewCanPass := None\<rparr>"
  have laid: "laid env x i k g = lay_card i k g0" by (simp add: laid_def g0_def)
  have pen: "frame_of (penalise env x g) = frame_of g" "cards_of (penalise env x g) = cards_of g"
    using penalise_sound [where g = g and env = env and x = x] by (simp_all add: sound_def)
  have g0: "seats g0 = seats g" "ug_phase g0 = Playing" "ug_toActIdx g0 = int i" "ug_direction g0 = ug_direction g" "settled g0" "cards_of g0 = cards_of g"
    using pen may by (simp_all add: g0_def frame_of_def settled_def)
  have same: "ug_players g0 ! i = ug_players g ! i" using penalise_other [OF may(1)] by (simp add: g0_def)
  have i: "i < length (ug_players g0)" "k < length (up_hand (ug_players g0 ! i))" using may(5) assms(2) g0(1) same by (simp_all add: length_seats)
  note lay = lay_card_facts [OF i]
  have t: "turn_of (laid env x i k g) = turn_of g0" by (simp add: laid lay)
  show "cards_of (laid env x i k g) = cards_of g" "ids (laid env x i k g) = ids g" using g0 lay by (simp_all add: laid ids_def)
  show "ug_phase (laid env x i k g) = Playing" "ug_toActIdx (laid env x i k g) = int i" "settled (laid env x i k g)"
    using t g0 by (simp_all add: turn_of_def settled_def)
  have "turn_ok g0" if "turn_ok g"
    using that g0 may pen(1) by (simp add: turn_ok_def playing_ok_def ids_def in_range_def g0_def frame_of_def)
  then show "turn_ok g \<Longrightarrow> turn_ok (laid env x i k g)" using turn_ok_cong [OF t] by simp
  show "ug_discardPile (laid env x i k g) \<noteq> [] \<and> last (ug_discardPile (laid env x i k g)) = up_hand (ug_players g ! i) ! k"
    using same by (simp add: laid lay_card_def Let_def)
  show "ug_players (laid env x i k g) ! i = (ug_players g ! i)\<lparr>up_hand := take k (up_hand (ug_players g ! i)) @ drop (Suc k) (up_hand (ug_players g ! i))\<rparr>"
    using same i(1) by (simp add: laid lay_card_def set_player_def Let_def)
qed

lemma playCard_cases:
  obtains (rejected) "playCard env x cardId g = (False, g)"
  | (accepted) i k where "may_move x g = Some i" "findIndex (\<lambda>c. Some (c_id c) = cardId) (up_hand (ug_players g ! i)) = Some k"
      "k < length (up_hand (ug_players g ! i))" "play_allowed g (ug_players g ! i) (up_hand (ug_players g ! i) ! k)"
      "playCard env x cardId g = (True,
         if c_color (up_hand (ug_players g ! i) ! k) = ''wild'' then (laid env x i k g)\<lparr>ug_pendingColorChoice := Some x\<rparr>
         else snd (afterCardPlayed env i (up_hand (ug_players g ! i) ! k)
                ((laid env x i k g)\<lparr>ug_activeColor := Some (c_color (up_hand (ug_players g ! i) ! k))\<rparr>)))"
proof (cases "may_move x g")
  case None
  then show ?thesis by (intro rejected) (simp add: playCard_def)
next
  case (Some i)
  note may = Some
  show ?thesis
  proof (cases "findIndex (\<lambda>c. Some (c_id c) = cardId) (up_hand (ug_players g ! i))")
    case None
    then show ?thesis by (intro rejected) (simp add: playCard_def may)
  next
    case (Some k)
    then have "k < length (up_hand (ug_players g ! i))" by (simp add: findIndex_Some)
    then show ?thesis using accepted [OF may Some] rejected Some may
      by (cases "play_allowed g (ug_players g ! i) (up_hand (ug_players g ! i) ! k)") (simp_all add: playCard_def laid_def Let_def)
  qed
qed

lemma choice_ok:
  assumes "turn_ok g" "settled g" "actor_id g = Some x" "ug_phase g = Playing"
  shows "turn_ok (g\<lparr>ug_pendingColorChoice := Some x\<rparr>)"
proof -
  have "actor_id (g\<lparr>ug_pendingColorChoice := Some x\<rparr>) = Some x" using assms(3) by (simp add: actor_ids in_range_def split: if_splits)
  then show ?thesis using assms actor_in_ids [OF assms(3)] by (simp add: turn_ok_def playing_ok_def settled_def in_range_def)
qed

lemma playCard_sound:
  assumes "turn_ok g"
  shows "turn_ok (snd (playCard env x cardId g))" "cards_of (snd (playCard env x cardId g)) = cards_of g"
proof -
  have "turn_ok (snd (playCard env x cardId g)) \<and> cards_of (snd (playCard env x cardId g)) = cards_of g"
  proof (cases rule: playCard_cases [of env x cardId g])
    case (accepted i k)
    note may = may_move_Some [OF accepted(1)] and laid = laid_facts [OF accepted(1,3), of env]
    let ?g1 = "laid env x i k g" and ?c = "up_hand (ug_players g ! i) ! k"
    have g1: "turn_ok ?g1" by (rule laid(6) [OF assms])
    have "actor_id ?g1 = Some x" using may(2,6) laid(2,4) by (simp add: actor_ids in_range_def split: if_splits)
    then have "turn_ok (?g1\<lparr>ug_pendingColorChoice := Some x\<rparr>)" by (rule choice_ok [OF g1 laid(5) _ laid(3)])
    moreover have "turn_ok (?g1\<lparr>ug_activeColor := Some col\<rparr>)" "settled (?g1\<lparr>ug_activeColor := Some col\<rparr>)" "in_range (?g1\<lparr>ug_activeColor := Some col\<rparr>)" for col
      using g1 laid(5) playing_range [OF g1 laid(3)] turn_ok_cong [of "?g1\<lparr>ug_activeColor := Some col\<rparr>" ?g1] by (simp_all add: turn_of_def settled_def in_range_def)
    ultimately show ?thesis using accepted(5) resolve_sound [of "?g1\<lparr>ug_activeColor := Some (c_color ?c)\<rparr>" env i ?c] laid(1,3) by simp
  qed (use assms in simp)
  then show "turn_ok (snd (playCard env x cardId g))" "cards_of (snd (playCard env x cardId g)) = cards_of g" by blast+
qed

lemma sound_turn_of: "frame_of h = frame_of g \<Longrightarrow> settled h = settled g \<and> in_range h = in_range g \<and> ug_phase h = ug_phase g \<and> ids h = ids g"
  by (simp add: frame_of_def settled_def in_range_def ids_def)

lemma forceDrawStack_sound:
  assumes "turn_ok g" "ug_pendingColorChoice g = None"
  shows "turn_ok (forceDrawStack env x g)" "cards_of (forceDrawStack env x g) = cards_of g"
proof -
  have "turn_ok (forceDrawStack env x g) \<and> cards_of (forceDrawStack env x g) = cards_of g"
  proof (cases "find_player g x")
    case (Some i)
    note i = find_player_Some(1) [OF Some]
    define g1 where "g1 = (snd (drawCardsFor env i (ug_pendingDrawStack g) g))\<lparr>ug_pendingDrawStack := 0, ug_pendingDrawType := None, ug_drewCanPass := None\<rparr>"
    have cards: "cards_of g1 = cards_of g" using draw_cards [OF i] by (simp add: g1_def)
    have seats1: "seats g1 = seats g" "ug_direction g1 = ug_direction g" "ug_phase g1 = ug_phase g" "ug_toActIdx g1 = ug_toActIdx g" "settled g1"
      using assms(2) by (simp_all add: g1_def uno_frame settled_def)
    then have ok1: "turn_ok g1" using assms by (simp add: turn_ok_def playing_ok_def in_range_def ids_def settled_def)
    have "playerIndex g1 x = int i" using Some seats1(1) by (simp add: playerIndex_def find_player_seats)
    then have "0 \<le> nextIndex g1 (playerIndex g1 x) 1 \<and> nextIndex g1 (playerIndex g1 x) 1 < int (length (seats g1))"
      using i seats1(1) ok1 by (intro nextIndex_range) (auto simp: length_seats turn_ok_def)
    then have "turn_ok (g1\<lparr>ug_toActIdx := nextIndex g1 (playerIndex g1 x) 1\<rparr>)"
      by (intro moved_ok [OF ok1 seats1(5)]) (use ok1 in \<open>auto simp: turn_ok_def in_range_def ids_def\<close>)
    then show ?thesis using assms(1) cards by (simp add: forceDrawStack_def Some g1_def [symmetric] Let_def)
  qed (simp add: forceDrawStack_def assms)
  then show "turn_ok (forceDrawStack env x g)" "cards_of (forceDrawStack env x g) = cards_of g" by blast+
qed

lemma chooseColor_sound:
  assumes "turn_ok g"
  shows "turn_ok (snd (chooseColor env x color g))" "cards_of (snd (chooseColor env x color g)) = cards_of g"
proof -
  define g1 where "g1 col = g\<lparr>ug_activeColor := Some col, ug_pendingColorChoice := None\<rparr>" for col
  have "turn_ok (snd (chooseColor env x color g)) \<and> cards_of (snd (chooseColor env x color g)) = cards_of g"
  proof (cases "ug_pendingColorChoice g = Some x")
    case True
    then have g: "ug_drewCanPass g = None" "in_range g" using assms by (simp_all add: turn_ok_def)
    have ok1: "turn_ok (g1 col)" "settled (g1 col)" "in_range (g1 col)" "cards_of (g1 col) = cards_of g" for col
      using assms g by (simp_all add: g1_def turn_ok_def playing_ok_def settled_def in_range_def)
    show ?thesis
      using assms finishRound_sound ok1 resolve_draw_ok [OF ok1(1-3)] advance_ok [OF ok1(1,2)]
      by (simp add: chooseColor_def Let_def g1_def [symmetric] resolveDrawFour_def split: option.splits)
  qed (simp add: chooseColor_def assms)
  then show "turn_ok (snd (chooseColor env x color g))" "cards_of (snd (chooseColor env x color g)) = cards_of g" by blast+
qed

lemma drawCard_sound:
  assumes "turn_ok g"
  shows "turn_ok (snd (drawCard env x g))" "cards_of (snd (drawCard env x g)) = cards_of g"
proof -
  have "turn_ok (snd (drawCard env x g)) \<and> cards_of (snd (drawCard env x g)) = cards_of g"
  proof (cases "may_move x g")
    case (Some i)
    note may = may_move_Some [OF Some]
    define g1 where "g1 = (case ug_pendingUnoPeer g of Some q \<Rightarrow> if q \<noteq> x then (checkUnoPenalty env q g)\<lparr>ug_pendingUnoPeer := None\<rparr> else g | None \<Rightarrow> g)"
    have pen: "frame_of (checkUnoPenalty env q g) = frame_of g" "cards_of (checkUnoPenalty env q g) = cards_of g" for q
      using penalty_sound [where g = g and env = env and x = q] by (simp_all add: sound_def)
    have t1: "turn_of g1 = turn_of g" "cards_of g1 = cards_of g" "length (ug_players g1) = length (ug_players g)"
      using pen turn_of_frame [OF pen(1)] by (auto simp: g1_def turn_of_def frame_of_def length_seats split: option.splits)
    then have g1: "turn_ok g1" "ug_pendingColorChoice g1 = None" "i < length (ug_players g1)" "actor_id g1 = Some x" "ug_phase g1 = Playing"
      using assms turn_ok_cong [OF t1(1)] may by (simp_all add: turn_of_def actor_ids in_range_def split: if_splits)
    obtain cs g2 where draw: "drawCardsFor env i 1 g1 = (cs, g2)" by (metis surj_pair)
    have f2: "frame_of g2 = frame_of g1" using draw_frame [of env i 1 g1] draw by simp
    have g2: "turn_of g2 = turn_of g1" "cards_of g2 = cards_of g"
      using turn_of_frame [OF f2] draw_cards [OF g1(3), of env 1] draw t1(2) by simp_all
    have drew: "turn_ok (g2\<lparr>ug_drewCanPass := v\<rparr>)" "settled (g2\<lparr>ug_drewCanPass := None\<rparr>)" if "v = None \<or> v = Some x" for v
    proof -
      have "actor_id g2 = Some x" "turn_ok g2" "ug_pendingColorChoice g2 = None"
        using g1 g2(1) turn_ok_cong [OF g2(1)] actor_cong [of g2 g1] by (simp_all add: turn_of_def)
      then show "turn_ok (g2\<lparr>ug_drewCanPass := v\<rparr>)" "settled (g2\<lparr>ug_drewCanPass := None\<rparr>)"
        using that by (auto simp: turn_ok_def playing_ok_def settled_def)
    qed
    have "drawCard env x g = (True, if ug_pendingDrawStack g1 > 0 then forceDrawStack env x g1
        else if cs = [] then advance 1 (g2\<lparr>ug_drewCanPass := None\<rparr>)
        else if canPlay (hd cs) (topCard g2) (ug_activeColor g2) (us_houseRules (ug_cfg g2)) (up_hand (ug_players g2 ! i))
        then g2\<lparr>ug_drewCanPass := Some x\<rparr> else advance 1 (g2\<lparr>ug_drewCanPass := None\<rparr>))"
      using draw by (simp add: drawCard_def Some g1_def [symmetric] Let_def split: list.splits)
    then show ?thesis
      using forceDrawStack_sound [OF g1(1,2)] advance_ok [OF drew(1) [of None] drew(2) [of None]] drew(1) g2(2) t1(2) by simp
  qed (simp add: drawCard_def assms)
  then show "turn_ok (snd (drawCard env x g))" "cards_of (snd (drawCard env x g)) = cards_of g" by blast+
qed

lemma passTurn_sound:
  assumes "turn_ok g"
  shows "turn_ok (snd (passTurn env x g))" "cards_of (snd (passTurn env x g)) = cards_of g"
proof -
  define g1 where "g1 = (penalise env x (g\<lparr>ug_drewCanPass := None\<rparr>))\<lparr>ug_pendingUnoPeer := None\<rparr>"
  have pen: "turn_of (penalise env x h) = turn_of h" "cards_of (penalise env x h) = cards_of h" for h
    using turn_of_frame [OF penalise_sound(2)] penalise_sound(1) [where g = h and env = env and x = x] by (simp_all add: sound_def)
  have "turn_of g1 = turn_of (g\<lparr>ug_drewCanPass := None\<rparr>)" using pen [of "g\<lparr>ug_drewCanPass := None\<rparr>"] by (simp add: g1_def turn_of_def)
  moreover have "turn_ok (g\<lparr>ug_drewCanPass := None\<rparr>)" using assms by (simp add: turn_ok_def playing_ok_def)
  ultimately have ok: "turn_ok g1" "ug_pendingColorChoice g1 = ug_pendingColorChoice g" "ug_drewCanPass g1 = None"
    using turn_ok_cong [of g1 "g\<lparr>ug_drewCanPass := None\<rparr>"] by (simp_all add: turn_of_def)
  have "turn_ok (advance 1 g1)" if "ug_drewCanPass g = Some x"
    by (rule advance_ok [OF ok(1)]) (use ok assms that in \<open>auto simp: settled_def turn_ok_def\<close>)
  then show "turn_ok (snd (passTurn env x g))" using assms by (simp add: passTurn_def g1_def [symmetric])
  show "cards_of (snd (passTurn env x g)) = cards_of g" using pen by (simp add: passTurn_def)
qed

lemma callUno_sound: "turn_ok g \<Longrightarrow> turn_ok (snd (callUno x g))" "cards_of (snd (callUno x g)) = cards_of g"
proof -
  have "turn_of (snd (callUno x g)) = turn_of g" by (simp add: callUno_def turn_of_def split: option.splits)
  then show "turn_ok g \<Longrightarrow> turn_ok (snd (callUno x g))" using turn_ok_cong by blast
  show "cards_of (snd (callUno x g)) = cards_of g" by (simp add: callUno_def cards_set_player_same split: option.splits)
qed

lemma applyAction_sound:
  assumes "turn_ok g"
  shows "turn_ok (snd (applyAction env x a g))" "cards_of (snd (applyAction env x a g)) = cards_of g"
  using assms playCard_sound chooseColor_sound drawCard_sound passTurn_sound callUno_sound by (simp_all add: applyAction_def)

lemma turnTimeout_sound:
  assumes "turn_ok g"
  shows "turn_ok (turnTimeout env g)" "cards_of (turnTimeout env g) = cards_of g"
proof -
  have none: "ug_pendingColorChoice g = None" if "ug_phase g = Playing" "actor_id g = Some x" "ug_pendingColorChoice g \<noteq> Some x" for x
    using assms that by (auto simp: turn_ok_def playing_ok_def)
  show "turn_ok (turnTimeout env g)" "cards_of (turnTimeout env g) = cards_of g"
    using assms none chooseColor_sound [OF assms] drawCard_sound [OF assms] forceDrawStack_sound [OF assms]
    by (simp_all add: turnTimeout_def split: option.splits)
qed

end
