(* ===== verification/Uno_Table.thy ===== *)
theory Uno_Table
  imports Uno_Facts
begin

text \<open>
  The UNO table over any sequence of inputs: players come and go, rounds start, actions and timers arrive.
  The cards in play are always those of one deck, less what players took with them; the turn is always
  that of a seat at the table; and nobody but the player whose turn it is can move.
\<close>

section \<open>Joining\<close>

lemma cards_players:
  "mset (concat (map up_hand ps)) = mset (concat (map up_hand (ug_players g))) \<Longrightarrow> cards_of (g\<lparr>ug_players := ps\<rparr>) = cards_of g"
  by (simp add: cards_of_def)

lemma mset_hands: "mset (concat (map up_hand ps)) = sum_mset (image_mset (\<lambda>p. mset (up_hand p)) (mset ps))"
  by (induction ps) simp_all

lemma hands_insert: "up_hand p = [] \<Longrightarrow> mset (concat (map up_hand (sort_key up_seat (ps @ [p])))) = mset (concat (map up_hand ps))"
  by (simp add: mset_hands)

lemma join_cards: "cards_of (snd (addPlayer x name g)) = cards_of g"
  by (auto simp: addPlayer_def Let_def cards_set_player_same hands_insert intro!: cards_players split: option.splits)

lemma join_turn:
  assumes "turn_ok g" "ug_phase g \<noteq> Playing"
  shows "turn_ok (snd (addPlayer x name g))"
proof (cases "find_player g x")
  case None
  then have new: "x \<notin> set (ids g)" by (auto simp: find_player_ids findIndex_None)
  define p where "p = \<lparr>up_peerId = x, up_name = sanitizeName name x, up_seat = findSeat g, up_hand = [], up_saidUno = False, up_score = 0, up_connected = True\<rparr>"
  define ps where "ps = sort_key up_seat (ug_players g @ [p])"
  have ids: "mset (ids (g\<lparr>ug_players := ps\<rparr>)) = mset (ids g @ [x])" by (simp add: ps_def p_def ids_players)
  have "distinct (ids (g\<lparr>ug_players := ps\<rparr>))" using mset_eq_imp_distinct_iff [OF ids] new assms(1) by (simp add: turn_ok_def)
  moreover have "set (ids (g\<lparr>ug_players := ps\<rparr>)) = insert x (set (ids g))" using mset_eq_setD [OF ids] by simp
  moreover have "length (ids (g\<lparr>ug_players := ps\<rparr>)) = Suc (length (ids g))" using mset_eq_length [OF ids] by simp
  ultimately have "turn_ok (g\<lparr>ug_players := ps\<rparr>)" using assms by (auto simp: turn_ok_def in_range_def)
  then show ?thesis using assms(1) None by (simp add: addPlayer_def Let_def ps_def p_def)
next
  case (Some i)
  have "turn_of (set_player i (\<lambda>p. p\<lparr>up_connected := True, up_name := sanitizeName name (up_name p)\<rparr>) g) = turn_of g" by simp
  from turn_ok_cong [OF this] show ?thesis using assms(1) Some by (simp add: addPlayer_def)
qed

section \<open>Leaving\<close>

definition without :: "nat \<Rightarrow> 'a list \<Rightarrow> 'a list" where
  "without i xs = take i xs @ drop (Suc i) xs"

lemma without_facts:
  assumes "i < length xs"
  shows "length (without i xs) = length xs - 1" "mset xs = add_mset (xs ! i) (mset (without i xs))"
    "distinct xs \<Longrightarrow> distinct (without i xs) \<and> xs ! i \<notin> set (without i xs)" "set xs = insert (xs ! i) (set (without i xs))"
    "j < length xs \<Longrightarrow> j \<noteq> i \<Longrightarrow> without i xs ! (if i < j then j - 1 else j) = xs ! j"
proof -
  have xs: "xs = take i xs @ xs ! i # drop (Suc i) xs" by (rule id_take_nth_drop [OF assms])
  show "length (without i xs) = length xs - 1" using assms by (simp add: without_def)
  show m: "mset xs = add_mset (xs ! i) (mset (without i xs))" by (subst xs) (simp add: without_def)
  show "distinct xs \<Longrightarrow> distinct (without i xs) \<and> xs ! i \<notin> set (without i xs)"
    by (subst (asm) xs) (simp add: without_def)
  show "set xs = insert (xs ! i) (set (without i xs))" using arg_cong [OF m, of set_mset] by simp
  show "without i xs ! (if i < j then j - 1 else j) = xs ! j" if "j < length xs" "j \<noteq> i"
    using that assms by (auto simp: without_def nth_append min_def)
qed

lemma map_without: "map f (without i xs) = without i (map f xs)"
  by (simp add: without_def take_map drop_map)

definition removed :: "string \<Rightarrow> nat \<Rightarrow> uno \<Rightarrow> uno" where
  "removed x i g = (let g1 = forget_peer x (remove_at i g) in g1\<lparr>ug_pendingColorChoice := clear_if x (ug_pendingColorChoice g1)\<rparr>)"

lemma removed_fields:
  "ids (removed x i g) = without i (ids g)" "ug_direction (removed x i g) = ug_direction g" "ug_phase (removed x i g) = ug_phase g"
  "ug_pendingColorChoice (removed x i g) = clear_if x (ug_pendingColorChoice g)" "ug_drewCanPass (removed x i g) = clear_if x (ug_drewCanPass g)"
  by (simp_all add: removed_def forget_peer_def remove_at_def Let_def ids_players without_def take_map drop_map)

lemma removed_cards: "i < length (ug_players g) \<Longrightarrow> cards_of g = cards_of (removed x i g) + mset (up_hand (ug_players g ! i))"
proof -
  assume i: "i < length (ug_players g)"
  have "ug_players g = take i (ug_players g) @ ug_players g ! i # drop (Suc i) (ug_players g)" by (rule id_take_nth_drop [OF i])
  then have "mset (concat (map up_hand (ug_players g))) = mset (concat (map up_hand (take i (ug_players g) @ ug_players g ! i # drop (Suc i) (ug_players g))))" by simp
  then show ?thesis by (simp add: cards_of_def removed_def forget_peer_def remove_at_def Let_def ac_simps)
qed

lemma removed_range:
  assumes "i < length (ids g)" "in_range g" "2 \<le> length (ids g)"
  shows "in_range (removed x i g)" "int i \<noteq> ug_toActIdx g \<Longrightarrow> actor_id (removed x i g) = actor_id g"
proof -
  have act: "ug_toActIdx (removed x i g) = (let t = (if int i < ug_toActIdx g then ug_toActIdx g - 1 else ug_toActIdx g) in if int (length (ids g) - 1) \<le> t then 0 else t)"
    using assms(1) by (auto simp: removed_def forget_peer_def remove_at_def Let_def ids_players)
  show "in_range (removed x i g)"
    using assms act without_facts(1) [OF assms(1)] by (auto simp: in_range_def removed_fields(1) Let_def)
  then show "actor_id (removed x i g) = actor_id g" if "int i \<noteq> ug_toActIdx g"
  proof -
    define t where "t = nat (ug_toActIdx g)"
    have t: "t < length (ids g)" "t \<noteq> i" "ug_toActIdx g = int t" using assms(2) that by (auto simp: in_range_def t_def)
    have "nat (ug_toActIdx (removed x i g)) = (if i < t then t - 1 else t)"
      using act t assms(1) by (auto simp: Let_def)
    then show ?thesis
      using \<open>in_range (removed x i g)\<close> assms(2) without_facts(5) [OF assms(1) t(1,2)] t by (simp add: actor_ids removed_fields(1))
  qed
qed

lemma clear_if_simps [simp]: "clear_if x None = None" "clear_if x v = Some y \<longleftrightarrow> v = Some y \<and> y \<noteq> x"
  by (auto simp: clear_if_def)

lemma drop_cases:
  assumes "find_player g x = Some i" "x \<noteq> ue_selfId env"
  shows "dropPlayer env x g = (if ug_phase g = Playing \<and> length (activePlayers (removed x i g)) < 2 then (removed x i g)\<lparr>ug_phase := Lobby\<rparr>
      else if ug_phase g = Playing \<and> int i = ug_toActIdx g \<and> offline (removed x i g) (ug_toActIdx (removed x i g)) then advance 1 (removed x i g)
      else removed x i g)"
  unfolding dropPlayer_def assms(1) option.case Let_def removed_def [unfolded Let_def, symmetric]
  using assms(2) by (simp add: removed_fields)

lemma removed_turn:
  assumes "turn_ok g" "find_player g x = Some i"
  shows "ug_phase g \<noteq> Playing \<or> 2 \<le> length (ids (removed x i g)) \<Longrightarrow> turn_ok (removed x i g)"
    and "turn_ok ((removed x i g)\<lparr>ug_phase := Lobby\<rparr>)"
    and "ug_phase g = Playing \<Longrightarrow> int i = ug_toActIdx g \<Longrightarrow> settled (removed x i g)"
proof -
  have i: "i < length (ids g)" "ids g ! i = x" using find_player_Some [OF assms(2)] by (simp_all add: ids_players)
  note w = without_facts [OF i(1)]
  have dist: "distinct (ids g)" using assms(1) by (simp add: turn_ok_def)
  have here: "actor_id g = Some x" if "ug_phase g = Playing" "int i = ug_toActIdx g"
    using that(2) [symmetric] i by (simp add: actor_ids in_range_def)
  have choice: "ug_drewCanPass (removed x i g) = None \<and> p \<in> set (ids (removed x i g)) \<and> in_range (removed x i g)"
    if "ug_pendingColorChoice (removed x i g) = Some p" for p
  proof -
    have p: "ug_pendingColorChoice g = Some p" "p \<noteq> x" using that by (simp_all add: removed_fields)
    then have g: "ug_drewCanPass g = None" "p \<in> set (ids g)" "in_range g" using assms(1) by (simp_all add: turn_ok_def)
    then have "p \<in> set (without i (ids g))" using w(4) i(2) p(2) by auto
    then have "2 \<le> length (ids g)" using w(1) i(1) by (cases "without i (ids g)") auto
    then show ?thesis using removed_range(1) [OF i(1) g(3)] g(1) \<open>p \<in> set (without i (ids g))\<close> by (simp add: removed_fields)
  qed
  have base: "(ug_direction g = 1 \<or> ug_direction g = - 1) \<and> distinct (without i (ids g))"
    using assms(1) w(3) [OF dist] by (simp add: turn_ok_def)
  have playing: "playing_ok (removed x i g)" if "ug_phase g = Playing" "2 \<le> length (ids (removed x i g))"
  proof -
    have g: "playing_ok g" using assms(1) that(1) by (simp add: turn_ok_def)
    then have r: "in_range g" "2 \<le> length (ids g)" by (simp_all add: playing_ok_def)
    note range = removed_range [OF i(1) r]
    have kept: "clear_if x v = actor_id (removed x i g)" if nn: "clear_if x v \<noteq> None" and va: "v \<noteq> None \<longrightarrow> v = actor_id g" for v
    proof -
      obtain y where y: "v = Some y" "y \<noteq> x" using nn by (cases v) (simp_all add: clear_if_def split: if_splits)
      then have "int i \<noteq> ug_toActIdx g" using va here [OF \<open>ug_phase g = Playing\<close>] by fastforce
      then show ?thesis using range(2) va y by (cases "actor_id g") (simp_all add: clear_if_def)
    qed
    show ?thesis using kept \<open>2 \<le> length (ids (removed x i g))\<close> range(1) g by (simp add: playing_ok_def removed_fields)
  qed
  show "turn_ok (removed x i g)" if "ug_phase g \<noteq> Playing \<or> 2 \<le> length (ids (removed x i g))"
    using that base choice playing unfolding turn_ok_def removed_fields by blast
  show "turn_ok ((removed x i g)\<lparr>ug_phase := Lobby\<rparr>)"
    using base choice unfolding turn_ok_def removed_fields by (auto simp: in_range_def removed_fields)
  show "settled (removed x i g)" if play: "ug_phase g = Playing" and turn: "int i = ug_toActIdx g"
  proof -
    have "clear_if x v = None" if "v \<noteq> None \<longrightarrow> v = actor_id g" for v
      using that here [OF play turn] by (cases v) (simp_all add: clear_if_def)
    then show ?thesis using assms(1) play by (simp add: settled_def removed_fields turn_ok_def playing_ok_def)
  qed
qed

lemma drop_turn:
  assumes "turn_ok g"
  shows "turn_ok (dropPlayer env x g)"
proof (cases "find_player g x = None \<or> x = ue_selfId env")
  case False
  then obtain i where i: "find_player g x = Some i" "x \<noteq> ue_selfId env" by auto
  note r = removed_turn [OF assms i(1)]
  have "length (activePlayers (removed x i g)) \<le> length (ids (removed x i g))" by (simp add: active_seats ids_def)
  then have "turn_ok (removed x i g)" if "\<not> (ug_phase g = Playing \<and> length (activePlayers (removed x i g)) < 2)"
    using r(1) that by linarith
  then show ?thesis using r(2,3) advance_ok by (simp add: drop_cases [OF i])
qed (auto simp: dropPlayer_def assms split: option.splits)

text \<open>A player has left with a hand of cards.\<close>

definition left_with :: "uno \<Rightarrow> uno \<Rightarrow> bool" where
  "left_with g h \<longleftrightarrow> (\<exists>p \<in> set (ug_players g). up_peerId p \<notin> set (ids h) \<and> cards_of g = cards_of h + mset (up_hand p))"

lemma drop_cards:
  assumes "turn_ok g"
  shows "dropPlayer env x g = g \<or> left_with g (dropPlayer env x g)"
proof (cases "find_player g x = None \<or> x = ue_selfId env")
  case False
  then obtain i where i: "find_player g x = Some i" "x \<noteq> ue_selfId env" by auto
  note p = find_player_Some [OF i(1)]
  have ids: "ids (dropPlayer env x g) = without i (ids g)" "cards_of (dropPlayer env x g) = cards_of (removed x i g)"
    by (simp_all add: drop_cases [OF i] removed_fields)
  have "x \<notin> set (without i (ids g))" using without_facts(3) [of i "ids g"] p assms by (auto simp: ids_players turn_ok_def)
  then show ?thesis using removed_cards [OF p(1), of x] p ids unfolding left_with_def by (metis nth_mem)
qed (auto simp: dropPlayer_def split: option.splits)

lemma forget_fields:
  "ids (forget_peer x g) = ids g" "cards_of (forget_peer x g) = cards_of g" "ug_phase (forget_peer x g) = ug_phase g"
  by (simp_all add: forget_peer_def)

lemma forget_turn: "turn_ok g \<Longrightarrow> turn_ok (forget_peer x g)"
proof -
  have "turn_of (forget_peer x g) = turn_of (g\<lparr>ug_drewCanPass := clear_if x (ug_drewCanPass g)\<rparr>)"
    by (simp add: forget_peer_def turn_of_def)
  moreover assume "turn_ok g"
  then have "turn_ok (g\<lparr>ug_drewCanPass := clear_if x (ug_drewCanPass g)\<rparr>)"
    by (auto simp: turn_ok_def playing_ok_def clear_if_def)
  ultimately show ?thesis using turn_ok_cong by blast
qed

lemma forget_advance: "forget_peer x (advance k g) = advance k (forget_peer x g)"
  using nextIndex_cong [of "forget_peer x g" g] by (simp add: forget_peer_def advance_def)

lemma disconnect_sound:
  assumes "turn_ok g" "ug_phase g = Playing"
  shows "turn_ok (handleDisconnect env x g)" "cards_of (handleDisconnect env x g) = cards_of g"
proof -
  have "turn_ok (handleDisconnect env x g) \<and> cards_of (handleDisconnect env x g) = cards_of g"
  proof (cases "x = ue_selfId env \<or> find_player g x = None \<or> (\<exists>i. find_player g x = Some i \<and> \<not> up_connected (ug_players g ! i))")
    case False
    then obtain i where i: "x \<noteq> ue_selfId env" "find_player g x = Some i" "up_connected (ug_players g ! i)" by auto
    define g0 where "g0 = set_player i (\<lambda>p. p\<lparr>up_connected := False\<rparr>) g"
    have t0: "turn_of g0 = turn_of g" "cards_of g0 = cards_of g" by (simp_all add: g0_def cards_set_player_same)
    then have g0: "turn_ok g0" "ug_phase g0 = Playing" using assms turn_ok_cong [OF t0(1)] by (simp_all add: turn_of_def)
    have actor: "actor_id g0 = Some x" if "int i = ug_toActIdx g0"
    proof -
      have "ids g0 ! i = x" "i < length (ids g0)" using find_player_Some [OF i(2)] t0(1) by (simp_all add: turn_of_def) (simp_all add: ids_players)
      then show ?thesis unfolding actor_ids in_range_def that [symmetric] by simp
    qed
    have h: "handleDisconnect env x g = forget_peer x (release_turn env x i g0)"
      using i assms(2) by (simp add: handleDisconnect_def g0_def)
    show ?thesis
    proof (cases "ug_pendingColorChoice g0 = Some x")
      case True
      define g1 where "g1 = g0\<lparr>ug_pendingColorChoice := None,
        ug_activeColor := Some (case ug_activeColor g0 of None \<Rightarrow> hd COLORS | Some c \<Rightarrow> if c = [] then hd COLORS else c)\<rparr>"
      have g1: "turn_ok g1" "settled g1" "in_range g1" "cards_of g1 = cards_of g"
        using g0 True t0(2) by (simp_all add: g1_def turn_ok_def playing_ok_def settled_def in_range_def)
      have "release_turn env x i g0 = (if is_wild4 (topCard g0) \<and> us_houseRules (ug_cfg g0) = ''official'' then resolveDrawFour env g1 else advance 1 g1)"
        using True by (simp add: release_turn_def g1_def Let_def)
      then show ?thesis using h forget_turn resolve_draw_ok [OF g1(1-3)] advance_ok [OF g1(1,2)] g1(4)
        by (simp add: forget_fields resolveDrawFour_def)
    next
      case False
      define g1 where "g1 = g0\<lparr>ug_pendingDrawStack := 0, ug_pendingDrawType := None\<rparr>"
      have t1: "turn_of g1 = turn_of g0" "cards_of g1 = cards_of g" using t0(2) by (simp_all add: g1_def turn_of_def)
      have ok1: "turn_ok (forget_peer x g1)" using forget_turn turn_ok_cong [OF t1(1)] g0(1) by simp
      have "settled (forget_peer x g1)" if "int i = ug_toActIdx g0"
        using actor [OF that] g0 False t1(1) by (auto simp: settled_def forget_peer_def clear_if_def turn_of_def turn_ok_def playing_ok_def)
      then show ?thesis using h False ok1 advance_ok [OF ok1] forget_turn [OF g0(1)] t0(2) t1(2)
        by (simp add: release_turn_def g1_def [symmetric] Let_def forget_advance forget_fields)
    qed
  qed (auto simp: handleDisconnect_def assms split: option.splits)
  then show "turn_ok (handleDisconnect env x g)" "cards_of (handleDisconnect env x g) = cards_of g" by blast+
qed

end
