(* ===== verification/Uno_Round.thy ===== *)
theory Uno_Round
  imports Uno_Table
begin

text \<open>
  The start of a round of UNO: the loop that deals, the first card, and the seats of the table, of which
  there are at most eight, so that the deck is always enough.
\<close>

section \<open>Dealing\<close>

lemma draw_one_enough:
  assumes "ug_drawPile g \<noteq> []"
  shows "ug_drawPile (draw_one env i g) = butlast (ug_drawPile g)" "ug_discardPile (draw_one env i g) = ug_discardPile g"
    "fst (ensureDrawPile env g)" "i < length (ug_players g) \<Longrightarrow> length (up_hand (ug_players (draw_one env i g) ! i)) = Suc (length (up_hand (ug_players g ! i)))"
  using assms by (simp_all add: draw_one_def ensureDrawPile_def Let_def set_player_def)

lemma draw_one_length: "length (ug_players (draw_one env i g)) = length (ug_players g)"
  by (simp add: length_seats draw_one_seats)

lemma draw_length: "length (ug_players (snd (drawCardsFor env i k g))) = length (ug_players g)"
  by (simp add: length_seats uno_frame)

lemma draw_enough:
  assumes "k \<le> length (ug_drawPile g)" "i < length (ug_players g)"
  shows "length (ug_drawPile (snd (drawCardsFor env i k g))) = length (ug_drawPile g) - k \<and>
    ug_discardPile (snd (drawCardsFor env i k g)) = ug_discardPile g \<and>
    length (up_hand (ug_players (snd (drawCardsFor env i k g)) ! i)) = length (up_hand (ug_players g ! i)) + k"
  using assms
proof (induction k arbitrary: g)
  case (Suc k)
  then have "ug_drawPile g \<noteq> []" by auto
  note one = draw_one_enough [OF this]
  show ?case using Suc.IH [of "draw_one env i g"] Suc.prems one by (simp add: drawCardsFor_Suc draw_one_length)
qed simp

text \<open>The hands that a deal takes back.\<close>

definition hands_at :: "nat list \<Rightarrow> uno \<Rightarrow> card multiset" where
  "hands_at is g = mset (concat (map (\<lambda>i. up_hand (ug_players g ! i)) is))"

definition deal_one :: "uno_env \<Rightarrow> nat \<Rightarrow> uno \<Rightarrow> uno" where
  "deal_one env i g = snd (drawCardsFor env i 7 (set_player i (\<lambda>p. p\<lparr>up_hand := [], up_saidUno := False\<rparr>) g))"

lemma deal_Cons: "deal env (i # is) g = deal env is (deal_one env i g)"
  by (simp add: deal_one_def)

declare deal.simps(2) [simp del]

lemma deal_one_facts:
  assumes "i < length (ug_players g)"
  shows "frame_of (deal_one env i g) = frame_of g" "cards_of (deal_one env i g) + mset (up_hand (ug_players g ! i)) = cards_of g"
    "j \<noteq> i \<Longrightarrow> ug_players (deal_one env i g) ! j = ug_players g ! j" "length (ug_players (deal_one env i g)) = length (ug_players g)"
    "7 \<le> length (ug_drawPile g) \<Longrightarrow> length (up_hand (ug_players (deal_one env i g) ! i)) = 7 \<and>
       length (ug_drawPile (deal_one env i g)) = length (ug_drawPile g) - 7 \<and> ug_discardPile (deal_one env i g) = ug_discardPile g"
proof -
  let ?f = "\<lambda>p. p\<lparr>up_hand := [], up_saidUno := False\<rparr>"
  define g0 where "g0 = set_player i ?f g"
  have one: "deal_one env i g = snd (drawCardsFor env i 7 g0)" by (simp add: deal_one_def g0_def)
  have i: "i < length (ug_players g0)" using assms by (simp add: g0_def)
  have "frame_of g0 = frame_of g" by (simp add: frame_of_def topCard_def g0_def)
  then show "frame_of (deal_one env i g) = frame_of g" using draw_frame one by simp
  have "cards_of g0 + mset (up_hand (ug_players g ! i)) = cards_of g" using cards_set_player [OF assms, of ?f] by (simp add: g0_def)
  then show "cards_of (deal_one env i g) + mset (up_hand (ug_players g ! i)) = cards_of g" using draw_cards [OF i] one by simp
  show "ug_players (deal_one env i g) ! j = ug_players g ! j" if "j \<noteq> i" using draw_other [OF that] that one by (simp add: g0_def set_player_def)
  show "length (ug_players (deal_one env i g)) = length (ug_players g)" using one by (simp add: draw_length g0_def)
  show "length (up_hand (ug_players (deal_one env i g) ! i)) = 7 \<and>
       length (ug_drawPile (deal_one env i g)) = length (ug_drawPile g) - 7 \<and> ug_discardPile (deal_one env i g) = ug_discardPile g"
    if "7 \<le> length (ug_drawPile g)"
  proof -
    have "7 \<le> length (ug_drawPile g0)" "ug_discardPile g0 = ug_discardPile g" "ug_drawPile g0 = ug_drawPile g" "up_hand (ug_players g0 ! i) = []"
      using that assms by (simp_all add: g0_def set_player_def)
    then show ?thesis using draw_enough [OF _ i, of 7 env] one by simp
  qed
qed

lemma deal_facts:
  assumes "distinct is" "\<forall>i \<in> set is. i < length (ug_players g)"
  shows "frame_of (deal env is g) = frame_of g \<and> cards_of (deal env is g) + hands_at is g = cards_of g"
  using assms
proof (induction "is" arbitrary: g)
  case (Cons i "is")
  note one = deal_one_facts [where i = i and g = g and env = env]
  have "ug_players (deal_one env i g) ! j = ug_players g ! j" if "j \<in> set is" for j
    using one(3) [of j] that Cons.prems by (cases "j = i") simp_all
  then have "hands_at is (deal_one env i g) = hands_at is g" by (simp add: hands_at_def cong: map_cong)
  then show ?case using Cons.IH [of "deal_one env i g"] Cons.prems one by (simp add: deal_Cons hands_at_def ac_simps)
qed (simp add: hands_at_def)

lemma deal_sizes:
  assumes "distinct is" "\<forall>i \<in> set is. i < length (ug_players g)" "7 * length is \<le> length (ug_drawPile g)"
  shows "length (ug_drawPile (deal env is g)) = length (ug_drawPile g) - 7 * length is \<and> ug_discardPile (deal env is g) = ug_discardPile g \<and>
     (\<forall>i \<in> set is. length (up_hand (ug_players (deal env is g) ! i)) = 7) \<and>
     (\<forall>j. j \<notin> set is \<longrightarrow> ug_players (deal env is g) ! j = ug_players g ! j)"
  using assms
proof (induction "is" arbitrary: g)
  case (Cons i "is")
  note one = deal_one_facts [where i = i and g = g and env = env]
  have "7 \<le> length (ug_drawPile g)" using Cons.prems(3) by simp
  then show ?case using Cons.IH [of "deal_one env i g"] Cons.prems one by (auto simp: deal_Cons)
qed simp

section \<open>The first card\<close>

lemma skip_specials_cards:
  "skip_specials pile skipped = (r, rest, skipped') \<Longrightarrow>
     mset (case r of None \<Rightarrow> [] | Some c \<Rightarrow> [c]) + mset rest + mset skipped' = mset pile + mset skipped \<and> (r = None \<longrightarrow> rest = [])"
  by (induction pile skipped rule: skip_specials.induct) (auto split: if_splits)

lemma skip_specials_first:
  assumes "c \<in> set pile" "\<not> isSpecialStartCard c"
  shows "\<exists>c rest skipped'. skip_specials pile skipped = (Some c, rest, skipped') \<and> \<not> isSpecialStartCard c"
  using assms(1) by (induction pile skipped rule: skip_specials.induct) (use assms(2) in auto)

lemma starter_cards: "cards_of (pickStarterCard env g) = cards_of g"
proof -
  obtain r rest skipped where s: "skip_specials (rev (ug_drawPile g)) [] = (r, rest, skipped)" by (metis surj_pair)
  have all: "mset (case r of None \<Rightarrow> [] | Some c \<Rightarrow> [c]) + mset rest + mset skipped = mset (ug_drawPile g)" "r = None \<longrightarrow> rest = []"
    using skip_specials_cards [OF s] by simp_all
  show ?thesis using s all by (auto simp: pickStarterCard_def cards_of_def Let_def split: option.splits list.splits)
qed

lemma starter_frame:
  "seats (pickStarterCard env g) = seats g" "ug_direction (pickStarterCard env g) = ug_direction g" "ug_dealerIdx (pickStarterCard env g) = ug_dealerIdx g"
  "ug_pendingColorChoice (pickStarterCard env g) = ug_pendingColorChoice g" "ug_drewCanPass (pickStarterCard env g) = ug_drewCanPass g"
  "ug_players (pickStarterCard env g) = ug_players g" "ug_cfg (pickStarterCard env g) = ug_cfg g" "ug_phase (pickStarterCard env g) = ug_phase g"
  by (simp_all add: pickStarterCard_def Let_def split: option.splits list.splits prod.splits)

lemma starter_found:
  assumes "c \<in> set (ug_drawPile g)" "\<not> isSpecialStartCard c" "ug_discardPile g = []"
  shows "\<exists>d. ug_discardPile (pickStarterCard env g) = [d] \<and> \<not> isSpecialStartCard d \<and> ug_activeColor (pickStarterCard env g) = Some (c_color d) \<and>
     length (ug_drawPile (pickStarterCard env g)) = length (ug_drawPile g) - 1"
proof -
  obtain d rest skipped where s: "skip_specials (rev (ug_drawPile g)) [] = (Some d, rest, skipped)" "\<not> isSpecialStartCard d"
    using skip_specials_first [of c "rev (ug_drawPile g)" "[]"] assms by auto
  have "mset (d # rest @ skipped) = mset (ug_drawPile g)" using skip_specials_cards [OF s(1)] by simp
  from mset_eq_length [OF this] have "length (ug_drawPile g) = Suc (length rest + length skipped)" by simp
  then have "length (ug_drawPile g) - 1 = length rest + length skipped" by simp
  then show ?thesis using s assms(3) by (simp add: pickStarterCard_def Let_def)
qed

section \<open>The start\<close>

definition cleared :: "uno_env \<Rightarrow> uno \<Rightarrow> uno" where
  "cleared env g = g\<lparr>ug_roundWinner := None, ug_pendingColorChoice := None, ug_pendingDrawStack := 0, ug_pendingDrawType := None,
     ug_drewCanPass := None, ug_pendingUnoPeer := None, ug_direction := 1, ug_discardPile := [],
     ug_drawPile := shuffle (ue_random env (ug_shuffles g)) buildDeck, ug_shuffles := Suc (ug_shuffles g)\<rparr>"

definition dealt :: "uno_env \<Rightarrow> uno \<Rightarrow> uno" where
  "dealt env g = deal env [0..<length (ug_players g)] (cleared env g)"

definition started :: "uno_env \<Rightarrow> uno \<Rightarrow> uno" where
  "started env g = (let g3 = (pickStarterCard env (dealt env g))\<lparr>ug_roundNumber := ug_roundNumber (pickStarterCard env (dealt env g)) + 1,
       ug_dealerIdx := (if ug_dealerIdx (pickStarterCard env (dealt env g)) < 0 then 0
         else nextIndex (pickStarterCard env (dealt env g)) (ug_dealerIdx (pickStarterCard env (dealt env g))) 1)\<rparr>
     in g3\<lparr>ug_toActIdx := nextIndex g3 (ug_dealerIdx g3) 1, ug_phase := Playing\<rparr>)"

lemma startGame_eq:
  "startGame env g =
     (if ug_phase g \<noteq> Lobby \<and> ug_phase g \<noteq> RoundOver \<or> length (activePlayers g) < 2 then (False, g)
      else if topCard (pickStarterCard env (dealt env g)) = None then (False, (pickStarterCard env (dealt env g))\<lparr>ug_phase := Lobby\<rparr>)
      else (True, started env g))"
proof -
  have "length (activePlayers g) \<le> length (ug_players g)" by (simp add: activePlayers_def)
  then show ?thesis by (auto simp: startGame_def started_def dealt_def cleared_def Let_def)
qed

lemma dealt_facts:
  "frame_of (dealt env g) = frame_of (cleared env g)" "cards_of (dealt env g) = mset buildDeck"
proof -
  have "[0..<length (ug_players g)] = [0..<length (ug_players (cleared env g))]" by (simp add: cleared_def)
  then have d: "dealt env g = deal env [0..<length (ug_players (cleared env g))] (cleared env g)" by (simp add: dealt_def)
  note deal = deal_facts [of "[0..<length (ug_players (cleared env g))]" "cleared env g" env]
  show "frame_of (dealt env g) = frame_of (cleared env g)" using deal d by simp
  have "map (\<lambda>i. up_hand (ug_players h ! i)) [0..<length (ug_players h)] = map up_hand (ug_players h)" for h :: uno
    by (intro nth_equalityI) simp_all
  then have "hands_at [0..<length (ug_players h)] h + mset (ug_drawPile h) + mset (ug_discardPile h) = cards_of h" for h :: uno
    by (simp add: hands_at_def cards_of_def)
  from this [of "cleared env g"]
  have "hands_at [0..<length (ug_players (cleared env g))] (cleared env g) + mset buildDeck = cards_of (cleared env g)" by (simp add: cleared_def)
  moreover have "cards_of (dealt env g) + hands_at [0..<length (ug_players (cleared env g))] (cleared env g) = cards_of (cleared env g)"
    using deal d by simp
  ultimately show "cards_of (dealt env g) = mset buildDeck" by (metis add.commute add_left_imp_eq)
qed

lemma started_facts:
  assumes "distinct (ids g)" "2 \<le> length (activePlayers g)"
  shows "turn_ok (started env g)" "cards_of (started env g) = mset buildDeck"
    "turn_ok ((pickStarterCard env (dealt env g))\<lparr>ug_phase := Lobby\<rparr>)" "cards_of (pickStarterCard env (dealt env g)) = mset buildDeck"
    "seats (started env g) = seats g"
proof -
  define g2 where "g2 = pickStarterCard env (dealt env g)"
  have g2: "seats g2 = seats g" "ug_direction g2 = 1" "ug_pendingColorChoice g2 = None" "ug_drewCanPass g2 = None" "cards_of g2 = mset buildDeck"
    using dealt_facts [of env g] by (simp_all add: g2_def starter_frame starter_cards frame_of_def) (simp_all add: cleared_def)
  have nxt: "0 \<le> nextIndex h i 1 \<and> nextIndex h i 1 < int (length (seats h))" if "0 \<le> i" "ug_direction h = 1" "seats h \<noteq> []" for h i
    using step_index_range [of h i] skip_offline_range [of h "step_index h i"] that by (simp add: nextIndex_def no_players_seats next_seat_def)
  have two: "2 \<le> length (seats g)" using assms(2) length_filter_le [of snd "seats g"] unfolding active_seats by linarith
  then have ne: "seats g \<noteq> []" by auto
  define g3 where "g3 = g2\<lparr>ug_roundNumber := ug_roundNumber g2 + 1, ug_dealerIdx := (if ug_dealerIdx g2 < 0 then 0 else nextIndex g2 (ug_dealerIdx g2) 1)\<rparr>"
  have "0 \<le> ug_dealerIdx g3" using nxt [of "ug_dealerIdx g2" g2] g2 ne by (auto simp: g3_def)
  then have turn: "0 \<le> nextIndex g3 (ug_dealerIdx g3) 1 \<and> nextIndex g3 (ug_dealerIdx g3) 1 < int (length (seats g))"
    using nxt [of "ug_dealerIdx g3" g3] g2 ne by (auto simp: g3_def)
  have s: "started env g = g3\<lparr>ug_toActIdx := nextIndex g3 (ug_dealerIdx g3) 1, ug_phase := Playing\<rparr>"
    by (simp add: started_def g3_def g2_def Let_def)
  have ids: "ids g3 = ids g" "ids g2 = ids g" by (simp_all add: ids_def g3_def g2)
  show "turn_ok (started env g)" using turn two assms(1) ids g2
    by (simp add: s turn_ok_def playing_ok_def in_range_def) (simp add: g3_def ids_def)
  show "cards_of (started env g) = mset buildDeck" "seats (started env g) = seats g" using g2 by (simp_all add: s g3_def)
  show "turn_ok ((pickStarterCard env (dealt env g))\<lparr>ug_phase := Lobby\<rparr>)" "cards_of (pickStarterCard env (dealt env g)) = mset buildDeck"
    using g2 ids assms(1) by (simp_all add: g2_def [symmetric] turn_ok_def)
qed

lemma start_sound:
  assumes "turn_ok g"
  shows "turn_ok (snd (startGame env g))" "cards_of (snd (startGame env g)) = cards_of g \<or> cards_of (snd (startGame env g)) = mset buildDeck"
  using assms started_facts [of g env] by (auto simp: startGame_eq turn_ok_def [of g])

section \<open>Seats\<close>

definition seated :: "uno \<Rightarrow> bool" where
  "seated g \<longleftrightarrow> settings_ok (ug_cfg g) \<and> us_maxPlayers (ug_cfg g) \<le> 8 \<and> distinct (map up_seat (ug_players g)) \<and>
     sorted (map up_seat (ug_players g)) \<and> (\<forall>s \<in> set (map up_seat (ug_players g)). 0 \<le> s \<and> s < us_maxPlayers (ug_cfg g))"

definition chairs where
  "chairs g = (map up_seat (ug_players g), ug_cfg g)"

lemma seated_cong: "chairs g = chairs h \<Longrightarrow> seated g = seated h"
  by (simp add: chairs_def seated_def)

lemma seats_bound: "seated g \<Longrightarrow> length (ug_players g) \<le> 8"
proof -
  assume g: "seated g"
  then have "set (map up_seat (ug_players g)) \<subseteq> {0..<8}" by (auto simp: seated_def)
  then have "card (set (map up_seat (ug_players g))) \<le> 8" using card_mono [of "{0..<8::int}"] by simp
  moreover have "card (set (map up_seat (ug_players g))) = length (ug_players g)"
    using g distinct_card [of "map up_seat (ug_players g)"] by (simp add: seated_def)
  ultimately show ?thesis by simp
qed

section \<open>A full deal\<close>

lemma special_cards: "length (filter isSpecialStartCard buildDeck) = 32"
  by code_simp

lemma plain_card_left:
  assumes "mset pile \<subseteq># mset buildDeck" "32 < length pile"
  shows "\<exists>c \<in> set pile. \<not> isSpecialStartCard c"
proof (rule ccontr)
  assume "\<not> (\<exists>c \<in> set pile. \<not> isSpecialStartCard c)"
  then have "filter isSpecialStartCard pile = pile" by (simp add: filter_id_conv)
  moreover have "mset (filter isSpecialStartCard pile) \<subseteq># mset (filter isSpecialStartCard buildDeck)"
    using multiset_filter_mono [OF assms(1), of isSpecialStartCard] by simp
  then have "length (filter isSpecialStartCard pile) \<le> 32" using size_mset_mono special_cards by (metis size_mset)
  ultimately show False using assms(2) by simp
qed

text \<open>What a table looks like when a round begins.\<close>

definition fresh_round :: "uno \<Rightarrow> bool" where
  "fresh_round h \<longleftrightarrow> ug_phase h = Playing \<and> (\<forall>p \<in> set (ug_players h). length (up_hand p) = 7) \<and>
     length (ug_drawPile h) + 7 * length (ug_players h) + 1 = 108 \<and> cards_of h = mset buildDeck \<and> in_range h \<and>
     (\<exists>c. ug_discardPile h = [c] \<and> \<not> isSpecialStartCard c \<and> ug_activeColor h = Some (c_color c))"

lemma start_fresh:
  assumes "seated g" "turn_ok g" "ug_phase g = Lobby \<or> ug_phase g = RoundOver" "2 \<le> length (activePlayers g)"
  shows "fst (startGame env g) \<and> fresh_round (snd (startGame env g)) \<and> ids (snd (startGame env g)) = ids g"
proof -
  let ?n = "length (ug_players g)"
  have n: "?n \<le> 8" by (rule seats_bound [OF assms(1)])
  have len: "length (ug_players (cleared env g)) = ?n" "length (ug_drawPile (cleared env g)) = 108" "ug_discardPile (cleared env g) = []"
    by (simp_all add: cleared_def numbered_deck)
  have sizes: "length (ug_drawPile (dealt env g)) = 108 - 7 * ?n" "ug_discardPile (dealt env g) = []"
    "\<forall>i < ?n. length (up_hand (ug_players (dealt env g) ! i)) = 7"
    using deal_sizes [of "[0..<?n]" "cleared env g" env] n len by (simp_all add: dealt_def)
  have cards: "cards_of (dealt env g) = mset buildDeck" and seats: "seats (dealt env g) = seats g"
    using dealt_facts [of env g] by (simp_all add: frame_of_def) (simp add: cleared_def)
  have "mset (ug_drawPile (dealt env g)) \<subseteq># mset buildDeck" by (simp add: cards [symmetric] cards_of_def)
  then obtain c where c: "c \<in> set (ug_drawPile (dealt env g))" "\<not> isSpecialStartCard c" using plain_card_left sizes(1) n by fastforce
  obtain d where d: "ug_discardPile (pickStarterCard env (dealt env g)) = [d]" "\<not> isSpecialStartCard d"
    "ug_activeColor (pickStarterCard env (dealt env g)) = Some (c_color d)"
    "length (ug_drawPile (pickStarterCard env (dealt env g))) = length (ug_drawPile (dealt env g)) - 1"
    using starter_found [OF c sizes(2), of env] by blast
  have start: "startGame env g = (True, started env g)" using assms(3,4) d by (auto simp: startGame_eq topCard_def)
  have dist: "distinct (ids g)" using assms(2) by (simp add: turn_ok_def)
  note st = started_facts [OF dist assms(4), of env]
  have same: "ug_players (started env g) = ug_players (dealt env g)" "ug_drawPile (started env g) = ug_drawPile (pickStarterCard env (dealt env g))"
    "ug_discardPile (started env g) = [d]" "ug_activeColor (started env g) = Some (c_color d)" "ug_phase (started env g) = Playing"
    using d by (simp_all add: started_def Let_def starter_frame)
  have np: "length (ug_players (dealt env g)) = ?n" using seats by (simp add: length_seats)
  have "in_range (started env g)" using playing_range [OF st(1) same(5)] .
  moreover have "\<forall>p \<in> set (ug_players (started env g)). length (up_hand p) = 7"
    using sizes(3) np by (auto simp: same(1) in_set_conv_nth)
  ultimately show ?thesis using start same d st(2,5) sizes n np by (simp add: fresh_round_def ids_def)
qed

section \<open>The next seat\<close>

text \<open>The seats after \<open>i\<close> in the direction of play are \<open>i + d\<close>, \<open>i + 2 d\<close>, \<open>\<dots>\<close>, modulo their number; the next one to play is the first that is not offline.\<close>

definition next_connected :: "uno \<Rightarrow> int \<Rightarrow> int" where
  "next_connected g i =
     (let n = length (ug_players g); seat = (\<lambda>m. (i + ug_direction g * int m) mod int n)
      in case List.find (\<lambda>m. \<not> offline g (seat m)) [1..<Suc n] of Some m \<Rightarrow> seat m | None \<Rightarrow> seat 1)"

lemma step_index_mod:
  assumes "ug_direction g = 1 \<or> ug_direction g = - 1" "ug_players g \<noteq> []"
  shows "step_index g ((i + ug_direction g * int m) mod int (length (ug_players g))) = (i + ug_direction g * int (Suc m)) mod int (length (ug_players g))"
proof -
  let ?n = "int (length (ug_players g))"
  have pos: "0 < ?n" using assms(2) by simp
  have "0 \<le> (i + ug_direction g * int m) mod ?n + ug_direction g + ?n"
    using assms(1) pos pos_mod_sign [OF pos, of "i + ug_direction g * int m"] by linarith
  then have "step_index g ((i + ug_direction g * int m) mod ?n) = ((i + ug_direction g * int m) mod ?n + ug_direction g + ?n) mod ?n"
    by (simp add: step_index_def js_mod_def)
  also have "\<dots> = (i + ug_direction g * int m + ug_direction g) mod ?n" by (simp add: mod_simps)
  finally show ?thesis by (simp add: algebra_simps)
qed

lemma skip_offline_find:
  fixes g :: uno and i :: int
  assumes "ug_direction g = 1 \<or> ug_direction g = - 1" "ug_players g \<noteq> []"
  defines "seat \<equiv> \<lambda>m. (i + ug_direction g * int m) mod int (length (ug_players g))"
  shows "skip_offline k g (seat m) = (case List.find (\<lambda>m. \<not> offline g (seat m)) [m..<m + k] of Some j \<Rightarrow> seat j | None \<Rightarrow> seat (m + k))"
proof (induction k arbitrary: m)
  case (Suc k)
  have "step_index g (seat m) = seat (Suc m)" using step_index_mod [OF assms(1,2)] by (simp add: seat_def)
  moreover have "[m..<m + Suc k] = m # [Suc m..<Suc m + k]" by (simp add: upt_conv_Cons)
  ultimately show ?case using Suc.IH [of "Suc m"] by (simp del: upt_Suc cong: option.case_cong)
qed simp

lemma nextIndex_first_connected:
  assumes "ug_direction g = 1 \<or> ug_direction g = - 1" "0 \<le> i" "i < int (length (ug_players g))"
  shows "nextIndex g i 1 = next_connected g i"
proof -
  let ?n = "length (ug_players g)"
  define seat where "seat m = (i + ug_direction g * int m) mod int ?n" for m
  have ne: "ug_players g \<noteq> []" using assms by auto
  have "i + ug_direction g * int (1 + ?n) = (i + ug_direction g * int 1) + ug_direction g * int ?n" by (simp add: algebra_simps)
  then have around: "seat (1 + ?n) = seat 1" by (simp only: seat_def mod_mult_self1)
  have "step_index g i = seat 1" using step_index_mod [OF assms(1) ne, of i 0] assms by (simp add: seat_def)
  then have "nextIndex g i 1 = skip_offline ?n g (seat 1)" using ne by (simp add: nextIndex_def next_seat_def)
  also have "\<dots> = (case List.find (\<lambda>m. \<not> offline g (seat m)) [1..<1 + ?n] of Some j \<Rightarrow> seat j | None \<Rightarrow> seat (1 + ?n))"
    by (rule skip_offline_find [OF assms(1) ne, where i = i, folded seat_def])
  also have "seat (1 + ?n) = seat 1" by (rule around)
  finally show ?thesis by (simp add: next_connected_def seat_def Let_def del: upt_Suc cong: option.case_cong)
qed

end
