(* ===== verification/Uno_Run.thy ===== *)
theory Uno_Run
  imports Uno_Round
begin

text \<open>
  Runs of a UNO table: any sequence of messages, timers and calls of the host's page, each with the peers and
  random numbers of its moment. The properties of the game are stated here.
\<close>

section \<open>Seats and settings\<close>

lemma chairs_updates [simp]:
  "chairs (g\<lparr>ug_phase := ph\<rparr>) = chairs g" "chairs (g\<lparr>ug_direction := dd\<rparr>) = chairs g" "chairs (g\<lparr>ug_activeColor := cc\<rparr>) = chairs g"
  "chairs (g\<lparr>ug_drawPile := cs\<rparr>) = chairs g" "chairs (g\<lparr>ug_discardPile := cs\<rparr>) = chairs g" "chairs (g\<lparr>ug_toActIdx := ti\<rparr>) = chairs g"
  "chairs (g\<lparr>ug_dealerIdx := ti\<rparr>) = chairs g" "chairs (g\<lparr>ug_roundNumber := ti\<rparr>) = chairs g" "chairs (g\<lparr>ug_roundWinner := w\<rparr>) = chairs g"
  "chairs (g\<lparr>ug_matchWinner := w\<rparr>) = chairs g" "chairs (g\<lparr>ug_pendingColorChoice := w\<rparr>) = chairs g" "chairs (g\<lparr>ug_pendingDrawStack := k\<rparr>) = chairs g"
  "chairs (g\<lparr>ug_pendingDrawType := w\<rparr>) = chairs g" "chairs (g\<lparr>ug_drewCanPass := w\<rparr>) = chairs g" "chairs (g\<lparr>ug_pendingUnoPeer := w\<rparr>) = chairs g"
  "chairs (g\<lparr>ug_invitedPeers := ps\<rparr>) = chairs g" "chairs (g\<lparr>ug_shuffles := k\<rparr>) = chairs g"
  by (simp_all add: chairs_def)

lemma chairs_set_player [simp]: "(\<And>p. up_seat (f p) = up_seat p) \<Longrightarrow> chairs (set_player i f g) = chairs g"
  unfolding chairs_def set_player_def by (simp add: map_set_nth)

lemma chairs_draw [simp]: "chairs (snd (drawCardsFor env i k g)) = chairs g"
proof (induction k arbitrary: g)
  case (Suc k)
  have "chairs (snd (ensureDrawPile env h)) = chairs h" for h by (simp add: ensureDrawPile_def Let_def)
  then show ?case using Suc.IH by (simp add: drawCardsFor_Suc draw_one_def Let_def)
qed simp

lemma chairs_actions [simp]:
  "chairs (checkUnoPenalty env x g) = chairs g" "chairs (penalise env x g) = chairs g" "chairs (applyPointsForRound x g) = chairs g"
  "chairs (finishRound x g) = chairs g" "chairs (advance k g) = chairs g" "chairs (resolve_draw env n kind g) = chairs g"
  "chairs (forceDrawStack env x g) = chairs g" "chairs (lay_card i k g) = chairs g" "chairs (forget_peer x g) = chairs g"
proof -
  show pen: "chairs (checkUnoPenalty env x g) = chairs g" for x by (simp add: checkUnoPenalty_def Let_def split: option.splits)
  show "chairs (penalise env x g) = chairs g" by (simp add: penalise_def pen split: option.splits)
  show points: "chairs (applyPointsForRound x g) = chairs g" for x g by (simp add: applyPointsForRound_def Let_def split: option.splits)
  show "chairs (finishRound x g) = chairs g" by (simp add: finishRound_def Let_def points)
  show adv: "chairs (advance k g) = chairs g" for k g by (simp add: advance_def)
  show "chairs (resolve_draw env n kind g) = chairs g" by (simp add: resolve_draw_def Let_def adv)
  show "chairs (forceDrawStack env x g) = chairs g" by (simp add: forceDrawStack_def Let_def split: option.splits)
  show "chairs (lay_card i k g) = chairs g" by (simp add: lay_card_def Let_def)
  show "chairs (forget_peer x g) = chairs g" by (simp add: forget_peer_def)
qed

lemma chairs_played [simp]: "chairs (snd (afterCardPlayed env i c g)) = chairs g"
  by (simp add: afterCardPlayed_def Let_def resolveSkip_def resolveReverse_def resolveDrawTwo_def)

lemma chairs_drawCard [simp]: "chairs (snd (drawCard env x g)) = chairs g"
proof -
  have "chairs h = chairs g" if "drawCardsFor env i 1 g' = (cs, h)" "chairs g' = chairs g" for i g' cs h
    using that by (metis chairs_draw snd_conv)
  then show ?thesis by (fastforce simp: drawCard_def Let_def split: option.splits list.splits prod.splits)
qed

lemma chairs_action [simp]: "chairs (snd (applyAction env x a g)) = chairs g"
  by (simp add: applyAction_def playCard_def chooseColor_def passTurn_def callUno_def resolveDrawFour_def Let_def split: option.splits)

lemma chairs_timeout [simp]: "chairs (turnTimeout env g) = chairs g"
  using chairs_action [of env _ "\<lparr>ua_type = ''chooseColor'', ua_cardId = None, ua_color = _\<rparr>" g]
  by (simp add: turnTimeout_def applyAction_def split: option.splits)

lemma chairs_deal [simp]: "chairs (deal env is g) = chairs g"
  by (induction "is" arbitrary: g) (simp_all add: deal_Cons deal_one_def)

lemma chairs_start [simp]: "chairs (snd (startGame env g)) = chairs g"
proof -
  have "chairs (pickStarterCard env h) = chairs h" for h by (simp add: chairs_def starter_frame)
  then show ?thesis by (simp add: startGame_eq started_def dealt_def cleared_def Let_def)
qed

lemma chairs_release [simp]: "chairs (release_turn env x i g) = chairs g"
  by (simp add: release_turn_def resolveDrawFour_def Let_def)

lemma seated_removed: "seated g \<Longrightarrow> i < length (ug_players g) \<Longrightarrow> seated (removed x i g)"
proof -
  assume g: "seated g" "i < length (ug_players g)"
  have seats: "map up_seat (ug_players (removed x i g)) = without i (map up_seat (ug_players g))" "ug_cfg (removed x i g) = ug_cfg g"
    by (simp_all add: removed_def forget_peer_def remove_at_def Let_def without_def take_map drop_map)
  have "sorted (without i xs)" if "sorted xs" "i < length xs" for xs :: "int list"
    using that(1) by (subst (asm) id_take_nth_drop [OF that(2)]) (auto simp: without_def sorted_append)
  moreover have "set (without i (map up_seat (ug_players g))) \<subseteq> set (map up_seat (ug_players g))"
    using without_facts(4) [of i "map up_seat (ug_players g)"] g(2) by auto
  ultimately show ?thesis using g without_facts(3) [of i "map up_seat (ug_players g)"] unfolding seated_def seats by auto
qed

lemma seated_fields: "seated (g\<lparr>ug_phase := ph\<rparr>) = seated g" "seated (advance k g) = seated g"
  by (rule seated_cong, simp)+

lemma seated_same: "chairs h = chairs g \<Longrightarrow> seated g \<Longrightarrow> seated h"
  using seated_cong by blast

lemma seated_drop: "seated g \<Longrightarrow> seated (dropPlayer env x g)"
proof (cases "find_player g x = None \<or> x = ue_selfId env")
  case False
  then obtain i where i: "find_player g x = Some i" "x \<noteq> ue_selfId env" by auto
  assume "seated g"
  then have "seated (removed x i g)" using seated_removed find_player_Some(1) [OF i(1)] by blast
  then show ?thesis by (simp add: drop_cases [OF i] seated_fields)
qed (auto simp: dropPlayer_def split: option.splits)

lemma free_seat:
  assumes "findSeat g = s" "0 \<le> s"
  shows "s < us_maxPlayers (ug_cfg g) \<and> s \<notin> set (map up_seat (ug_players g))"
proof -
  have "List.find (\<lambda>s. s \<notin> set (map up_seat (ug_players g))) (map int [0..<nat (us_maxPlayers (ug_cfg g))]) = Some s"
    using assms by (auto simp: findSeat_def split: option.splits)
  then show ?thesis by (auto simp: find_Some_iff)
qed

lemma seated_join: "seated g \<Longrightarrow> seated (snd (addPlayer x name g))"
proof (cases "find_player g x")
  case None
  assume g: "seated g"
  show ?thesis
  proof (cases "us_maxPlayers (ug_cfg g) \<le> int (length (ug_players g)) \<or> findSeat g < 0")
    case False
    define p where "p = \<lparr>up_peerId = x, up_name = sanitizeName name x, up_seat = findSeat g, up_hand = [], up_saidUno = False, up_score = 0, up_connected = True\<rparr>"
    define ps where "ps = sort_key up_seat (ug_players g @ [p])"
    have h: "snd (addPlayer x name g) = g\<lparr>ug_players := ps\<rparr>" using None False by (simp add: addPlayer_def Let_def ps_def p_def)
    note free = free_seat [OF refl, of g]
    have m: "mset (map up_seat ps) = mset (findSeat g # map up_seat (ug_players g))" by (simp add: ps_def p_def)
    have "distinct (map up_seat ps)" using mset_eq_imp_distinct_iff [OF m] free False g by (simp add: seated_def)
    moreover have "set (map up_seat ps) = insert (findSeat g) (set (map up_seat (ug_players g)))" using mset_eq_setD [OF m] by simp
    moreover have "sorted (map up_seat ps)" by (simp add: ps_def)
    ultimately show ?thesis using g free False unfolding h seated_def by simp
  qed (use g None in \<open>auto simp: addPlayer_def Let_def\<close>)
next
  case (Some i)
  assume "seated g"
  then show ?thesis by (rule seated_same [rotated]) (simp add: addPlayer_def Some)
qed

lemma fold_max_ge: "(\<forall>x \<in> set xs. x \<le> fold max xs a) \<and> a \<le> fold max xs (a::int)"
proof (induction xs arbitrary: a)
  case (Cons x xs)
  show ?case using Cons.IH [of "max x a"] by (simp add: max.bounded_iff)
qed simp

lemma fold_max_le: "(\<forall>x \<in> set xs. x \<le> b) \<Longrightarrow> a \<le> b \<Longrightarrow> fold max xs a \<le> (b::int)"
  by (induction xs arbitrary: a) auto

lemma seated_settings: "seated g \<Longrightarrow> seated (updateSettings patch g)"
proof -
  assume g: "seated g"
  define m where "m = fold max (map (\<lambda>p. up_seat p + 1) (ug_players g)) 2"
  have top: "\<forall>p \<in> set (ug_players g). up_seat p + 1 \<le> 8" using g by (fastforce simp: seated_def)
  have m: "m \<le> 8" unfolding m_def by (rule fold_max_le) (use top in auto)
  have ge: "2 \<le> m" "\<forall>p \<in> set (ug_players g). up_seat p < m"
    using fold_max_ge [of "map (\<lambda>p. up_seat p + 1) (ug_players g)" 2] by (auto simp: m_def)
  have "m \<le> us_maxPlayers (sanitizeSettings patch (ug_cfg g) m) \<and> us_maxPlayers (sanitizeSettings patch (ug_cfg g) m) \<le> 8"
    using clampInt_bounds [of "max 2 m" 8 "max 4 m"] m ge(1) by (simp add: sanitizeSettings_def)
  moreover have "ug_cfg (updateSettings patch g) = sanitizeSettings patch (ug_cfg g) m" "ug_players (updateSettings patch g) = ug_players g"
    by (simp_all add: updateSettings_def m_def)
  moreover have "settings_ok (sanitizeSettings patch (ug_cfg g) m)" using g sanitize_settings_ok by (simp add: seated_def)
  ultimately show ?thesis using g ge(2) by (fastforce simp: seated_def)
qed

section \<open>Runs\<close>

datatype uno_input =
    Uno_Message string jsv
  | Uno_Disconnect string
  | Uno_Reconnect string
  | Uno_Remove string
  | Uno_Kick string
  | Uno_Start
  | Uno_Auto_Start
  | Uno_Turn_Timeout
  | Uno_Action string uno_action
  | Uno_Settings jsv
  | Uno_Invite string

fun uno_step :: "uno_env \<times> uno_input \<Rightarrow> uno \<Rightarrow> uno" where
  "uno_step (env, Uno_Message from body) g = onWire env from body g"
| "uno_step (env, Uno_Disconnect p) g = handleDisconnect env p g"
| "uno_step (env, Uno_Reconnect p) g = snd (reconnectPlayer env p g)"
| "uno_step (env, Uno_Remove p) g = dropPlayer env p g"
| "uno_step (env, Uno_Kick p) g = snd (kickPlayer env p g)"
| "uno_step (env, Uno_Start) g = snd (startGame env g)"
| "uno_step (env, Uno_Auto_Start) g = autoStart env g"
| "uno_step (env, Uno_Turn_Timeout) g = turnTimeout env g"
| "uno_step (env, Uno_Action p a) g = snd (applyAction env p a g)"
| "uno_step (env, Uno_Settings patch) g = updateSettings patch g"
| "uno_step (env, Uno_Invite p) g = snd (invitePeer env p g)"

definition uno_run :: "uno_env \<Rightarrow> jsv \<Rightarrow> (uno_env \<times> uno_input) list \<Rightarrow> uno" where
  "uno_run env input = (\<lambda>xs. fold uno_step xs (bootstrapHost env (createHost input)))"

text \<open>What one input may do to the cards: keep them, deal a new deck, or let a player leave with a hand.\<close>

definition cards_step :: "uno \<Rightarrow> uno \<Rightarrow> bool" where
  "cards_step g h \<longleftrightarrow> cards_of h = cards_of g \<or> cards_of h = mset buildDeck \<or> left_with g h"

definition table_ok :: "uno \<Rightarrow> bool" where
  "table_ok g \<longleftrightarrow> turn_ok g \<and> seated g \<and> cards_of g \<subseteq># mset buildDeck"

definition table_step :: "uno \<Rightarrow> uno \<Rightarrow> bool" where
  "table_step g h \<longleftrightarrow> turn_ok h \<and> seated h \<and> cards_step g h"

lemma table_stepI [intro]: "turn_ok h \<Longrightarrow> chairs h = chairs g \<Longrightarrow> seated g \<Longrightarrow> cards_of h = cards_of g \<Longrightarrow> table_step g h"
  using seated_same by (auto simp: table_step_def cards_step_def)

lemma table_refl: "turn_ok g \<Longrightarrow> seated g \<Longrightarrow> table_step g g"
  by (simp add: table_step_def cards_step_def)

lemma step_action: "turn_ok g \<Longrightarrow> seated g \<Longrightarrow> table_step g (snd (applyAction env x a g))"
  using applyAction_sound by (intro table_stepI) simp_all

lemma step_drop: "turn_ok g \<Longrightarrow> seated g \<Longrightarrow> table_step g (dropPlayer env x g)"
  using drop_turn [of g env x] drop_cards [of g env x] seated_drop [of g env x] by (auto simp: table_step_def cards_step_def)

lemma step_disconnect: "turn_ok g \<Longrightarrow> seated g \<Longrightarrow> table_step g (handleDisconnect env x g)"
proof (cases "ug_phase g = Playing")
  case True
  assume g: "turn_ok g" "seated g"
  have "chairs (handleDisconnect env x g) = chairs g" using True by (simp add: handleDisconnect_def split: option.splits)
  then show ?thesis using disconnect_sound [OF g(1) True] g by (intro table_stepI) simp_all
next
  case False
  assume g: "turn_ok g" "seated g"
  then show ?thesis using False step_drop table_refl [OF g] by (simp add: handleDisconnect_def split: option.splits)
qed

lemma step_start: "turn_ok g \<Longrightarrow> seated g \<Longrightarrow> table_step g (snd (startGame env g))"
  using start_sound [of g env] seated_same [OF chairs_start, of g env] by (auto simp: table_step_def cards_step_def)

lemma step_back: "turn_ok g \<Longrightarrow> seated g \<Longrightarrow> (\<And>p. up_peerId (f p) = up_peerId p) \<Longrightarrow> (\<And>p. up_seat (f p) = up_seat p) \<Longrightarrow>
    (\<And>p. up_hand (f p) = up_hand p) \<Longrightarrow> table_step g (set_player i f g)"
  by (intro table_stepI) (simp_all add: turn_ok_cong [of "set_player i f g" g] cards_set_player_same)

lemma step_join: "turn_ok g \<Longrightarrow> seated g \<Longrightarrow> table_step g (join_wire env x body g)"
proof (cases "find_player g x")
  case None
  assume g: "turn_ok g" "seated g"
  then show ?thesis using None table_refl [OF g] join_turn [OF g(1)] join_cards seated_join
    by (simp add: join_wire_def table_step_def cards_step_def)
next
  case (Some i)
  assume "turn_ok g" "seated g"
  then show ?thesis using Some by (simp add: join_wire_def step_back)
qed

lemma step_table: "turn_ok g \<Longrightarrow> seated g \<Longrightarrow> table_step g (uno_step inp g)"
proof -
  assume g: "turn_ok g" "seated g"
  obtain env i where inp: "inp = (env, i)" by (cases inp) auto
  note refl = table_refl [OF g] and steps = step_action [OF g] step_drop [OF g] step_disconnect [OF g] step_start [OF g] step_back [OF g] step_join [OF g]
  show ?thesis
  proof (cases i)
    case (Uno_Message x body)
    then show ?thesis using refl steps by (simp add: inp onWire_def split: option.splits)
  next
    case (Uno_Reconnect x)
    then show ?thesis using refl steps by (simp add: inp reconnectPlayer_def split: option.splits)
  next
    case Uno_Turn_Timeout
    then show ?thesis using g turnTimeout_sound [OF g(1)] by (simp add: inp table_stepI)
  next
    case (Uno_Settings patch)
    have "turn_ok (updateSettings patch g)" using g(1) turn_ok_cong [of "updateSettings patch g" g] by (simp add: updateSettings_def turn_of_def)
    then show ?thesis using Uno_Settings g seated_settings by (simp add: inp table_step_def cards_step_def) (simp add: updateSettings_def)
  next
    case (Uno_Invite x)
    have "turn_ok (g\<lparr>ug_invitedPeers := ps\<rparr>)" for ps using g(1) turn_ok_cong [of "g\<lparr>ug_invitedPeers := ps\<rparr>" g] by (simp add: turn_of_def)
    then show ?thesis using Uno_Invite g refl by (auto simp: inp invitePeer_def)
  qed (use refl steps in \<open>simp_all add: inp autoStart_def kickPlayer_def\<close>)
qed

lemma left_cards: "left_with g h \<Longrightarrow> cards_of h \<subseteq># cards_of g"
  by (auto simp: left_with_def)

lemma table_step_ok: "table_ok g \<Longrightarrow> table_step g h \<Longrightarrow> table_ok h"
  using left_cards by (fastforce simp: table_ok_def table_step_def cards_step_def intro: subset_mset.order_trans)

lemma run_snoc: "uno_run env input (xs @ [x]) = uno_step x (uno_run env input xs)"
  by (simp add: uno_run_def)

lemma uno_create_ok: "turn_ok (createHost input) \<and> seated (createHost input) \<and> cards_of (createHost input) = {#}"
proof -
  have "us_maxPlayers (sanitizeSettings input defaultSettings 2) \<le> 8" using clampInt_bounds [of 2 8 4] by (simp add: sanitizeSettings_def)
  then show ?thesis using sanitize_settings_ok [OF default_settings_ok]
    by (simp add: createHost_def turn_ok_def ids_players seated_def cards_of_def)
qed

lemma uno_run_ok: "table_ok (uno_run env input xs)"
proof (induction xs rule: rev_induct)
  case Nil
  have "ug_phase (createHost input) \<noteq> Playing" by (simp add: createHost_def)
  then show ?case using uno_create_ok [of input] join_turn [of "createHost input"] seated_join join_cards
    by (simp add: uno_run_def bootstrapHost_def table_ok_def)
next
  case (snoc x xs)
  then have "table_step (uno_run env input xs) (uno_step x (uno_run env input xs))" by (intro step_table) (simp_all add: table_ok_def)
  then show ?case using table_step_ok snoc by (simp add: run_snoc)
qed

lemmas run_turn = uno_run_ok [unfolded table_ok_def, THEN conjunct1]
lemmas run_seated = uno_run_ok [unfolded table_ok_def, THEN conjunct2, THEN conjunct1]
lemmas run_cards = uno_run_ok [unfolded table_ok_def, THEN conjunct2, THEN conjunct2]

section \<open>Actions\<close>

lemma drawCard_rejected: "fst (drawCard env x g) = (may_move x g \<noteq> None)" "may_move x g = None \<Longrightarrow> drawCard env x g = (False, g)"
proof -
  have drew: "fst (case d of ([], g2) \<Rightarrow> (True, h2 g2) | (c # cs, g2) \<Rightarrow> (True, h3 c g2))" for d :: "'a list \<times> 'b" and h2 :: "'b \<Rightarrow> 'c" and h3
    by (cases d) (simp split: list.split)
  show "fst (drawCard env x g) = (may_move x g \<noteq> None)" by (simp add: drawCard_def Let_def drew split: option.split)
qed (simp add: drawCard_def)

lemma rejected_unchanged:
  assumes "\<not> fst (applyAction env x a g)"
  shows "snd (applyAction env x a g) = g"
proof -
  have "\<not> fst (playCard env x c g) \<Longrightarrow> snd (playCard env x c g) = g" for c
    by (cases rule: playCard_cases [of env x c g]) simp_all
  moreover have "\<not> fst (drawCard env x g) \<Longrightarrow> snd (drawCard env x g) = g" using drawCard_rejected [where env = env and x = x and g = g] by auto
  moreover have "\<not> fst (chooseColor env x c g) \<Longrightarrow> snd (chooseColor env x c g) = g" for c
    by (cases c) (simp_all add: chooseColor_def Let_def split: if_splits)
  moreover have "\<not> fst (passTurn env x g) \<Longrightarrow> snd (passTurn env x g) = g" "\<not> fst (callUno x g) \<Longrightarrow> snd (callUno x g) = g"
    by (simp_all add: passTurn_def callUno_def split: if_splits option.splits)
  ultimately show ?thesis using assms by (simp add: applyAction_def split: if_splits)
qed

lemma accepted_actor:
  assumes "turn_ok g" "ug_phase g = Playing" "fst (applyAction env x a g)" "ua_type a \<noteq> ''callUno''"
  shows "actor_id g = Some x"
proof -
  have may: "actor_id g = Some x" if "may_move x g \<noteq> None" using that may_move_Some(6) by fastforce
  have pending: "actor_id g = Some x" if "ug_pendingColorChoice g = Some x \<or> ug_drewCanPass g = Some x"
    using that assms(1,2) by (auto simp: turn_ok_def playing_ok_def)
  have "may_move x g \<noteq> None \<or> ug_pendingColorChoice g = Some x \<or> ug_drewCanPass g = Some x"
    using assms(3,4) drawCard_rejected(1) [where env = env and x = x and g = g]
    by (simp add: applyAction_def playCard_def chooseColor_def passTurn_def split: if_splits option.splits)
  then show ?thesis using may pending by blast
qed

lemma finish_top: "topCard (finishRound x g) = topCard g"
  by (simp add: finishRound_def applyPointsForRound_def topCard_def Let_def split: option.splits)

lemma played_top: "topCard (snd (afterCardPlayed env i c g)) = topCard g"
proof -
  have adv: "topCard (advance k h) = topCard h" "topCard (h\<lparr>ug_toActIdx := ti\<rparr>) = topCard h"
    "topCard (h\<lparr>ug_pendingDrawStack := n, ug_pendingDrawType := w\<rparr>) = topCard h" for k h ti n w by (simp_all add: topCard_def)
  have draw: "topCard (resolve_draw env n kind h) = topCard h" for n kind h
    by (simp add: resolve_draw_def Let_def adv uno_frame)
  have same: "topCard (set_player i f h) = topCard h" "topCard (h\<lparr>ug_pendingUnoPeer := w\<rparr>) = topCard h" "topCard (h\<lparr>ug_direction := d\<rparr>) = topCard h" for f h w d
    by (simp_all add: topCard_def)
  show ?thesis
    by (simp add: afterCardPlayed_def Let_def finish_top adv draw same resolveSkip_def resolveReverse_def resolveDrawTwo_def)
qed

lemma accepted_top:
  assumes "playCard env x cardId g = (True, h)" "may_move x g = Some i"
    "findIndex (\<lambda>c. Some (c_id c) = cardId) (up_hand (ug_players g ! i)) = Some k"
  shows "topCard h = Some (up_hand (ug_players g ! i) ! k)"
proof (cases rule: playCard_cases [of env x cardId g])
  case (accepted j l)
  then have jl: "j = i" "l = k" using assms(2,3) by simp_all
  note laid = laid_facts [OF accepted(1,3), of env]
  have "topCard (laid env x i k g) = Some (up_hand (ug_players g ! i) ! k)" using laid(7) jl by (simp add: topCard_def)
  moreover have "topCard (u\<lparr>ug_pendingColorChoice := v\<rparr>) = topCard u" "topCard (u\<lparr>ug_activeColor := v\<rparr>) = topCard u" for u v
    by (simp_all add: topCard_def)
  ultimately show ?thesis using assms(1) accepted(5) jl by (auto simp: played_top split: if_splits)
qed (use assms in simp)

section \<open>Properties\<close>

lemma distinct_part:
  assumes "mset xs \<subseteq># mset ys" "distinct ys"
  shows "distinct xs"
proof -
  obtain zs where "mset ys = mset (xs @ zs)" using assms(1) by (metis ex_mset mset_append mset_subset_eq_exists_conv)
  from mset_eq_imp_distinct_iff [OF this] show ?thesis using assms(2) by simp
qed

text \<open>C22. Whatever messages, timers and calls arrive, the hands and piles hold cards of one deck and no card twice; each
input keeps the cards, deals a new deck, or lets one player leave with the hand.\<close>

theorem cards_conserved:
  "cards_step (uno_run env input xs) (uno_run env input (xs @ [x])) \<and> cards_of (uno_run env input xs) \<subseteq># mset buildDeck \<and>
   distinct (map c_id (concat (map up_hand (ug_players (uno_run env input xs))) @ ug_drawPile (uno_run env input xs) @ ug_discardPile (uno_run env input xs)))"
proof (intro conjI)
  let ?g = "uno_run env input xs"
  show "cards_step ?g (uno_run env input (xs @ [x]))"
    using step_table [OF run_turn run_seated] by (simp add: run_snoc table_step_def)
  show sub: "cards_of ?g \<subseteq># mset buildDeck" by (rule run_cards)
  let ?cs = "concat (map up_hand (ug_players ?g)) @ ug_drawPile ?g @ ug_discardPile ?g"
  have "mset (map c_id ?cs) \<subseteq># mset (map c_id buildDeck)" using image_mset_subseteq_mono [OF sub, of c_id] by (simp add: cards_of_def ac_simps)
  then show "distinct (map c_id ?cs)" by (rule distinct_part [OF _ distinct_deck])
qed

text \<open>C23. While a round is played there are two players or more, the turn is that of a seat at the table, and only the
player of that seat may owe a color or be allowed to pass.\<close>

theorem turn_at_the_table:
  assumes "ug_phase (uno_run env input xs) = Playing"
  shows "2 \<le> length (ug_players (uno_run env input xs)) \<and>
    (\<exists>x. actor_id (uno_run env input xs) = Some x \<and> ug_pendingColorChoice (uno_run env input xs) \<in> {None, Some x} \<and>
       ug_drewCanPass (uno_run env input xs) \<in> {None, Some x} \<and>
       (ug_pendingColorChoice (uno_run env input xs) \<noteq> None \<longrightarrow> ug_drewCanPass (uno_run env input xs) = None))"
proof -
  have g: "turn_ok (uno_run env input xs)" by (rule run_turn)
  then have "playing_ok (uno_run env input xs)" using assms by (simp add: turn_ok_def)
  then show ?thesis using g by (auto simp: playing_ok_def turn_ok_def actor_ids ids_players)
qed

text \<open>C24. The seats of a table are numbered below its limit, which is at most eight, no two players share one, and the players
stand in the order of their seats; the settings stay within their ranges.\<close>

theorem seats_well_formed:
  "seated (uno_run env input xs) \<and> length (ug_players (uno_run env input xs)) \<le> 8 \<and> distinct (map up_peerId (ug_players (uno_run env input xs)))"
  using run_seated seats_bound [OF run_seated] run_turn by (simp add: turn_ok_def ids_players)

text \<open>With two connected players in the lobby or after a round, starting succeeds: everyone has seven cards, one plain card lies
open and gives the color, and the other cards of the deck are on the pile.\<close>

theorem round_dealt:
  assumes "ug_phase (uno_run env input xs) = Lobby \<or> ug_phase (uno_run env input xs) = RoundOver" "2 \<le> length (activePlayers (uno_run env input xs))"
  shows "fst (startGame env' (uno_run env input xs)) \<and> fresh_round (snd (startGame env' (uno_run env input xs)))"
  using start_fresh [OF run_seated run_turn assms] by blast

text \<open>C25. An action that changes a round that is played comes from the player whose turn it is, a call of UNO apart; an action
that is rejected changes nothing.\<close>

theorem only_the_actor_moves:
  assumes "turn_ok g" "ug_phase g = Playing" "applyAction env x a g = (ok, h)" "h \<noteq> g"
  shows "ok \<and> (ua_type a = ''callUno'' \<or> actor_id g = Some x)"
  using rejected_unchanged [of env x a g] accepted_actor [OF assms(1,2), of env x a] assms(3,4) by auto

text \<open>
  The rules of UNO for a card, rule by rule and without the code's order of tests: a card of the color or of the value of the open card,
  a card of the color chosen for an open wild card, a wild card at any time, a wild draw four by the official rules only from a hand
  with no card of the color in force; and nothing but another drawing card, where house rules allow it, while cards to draw are stacked.
\<close>

definition open_color :: "uno \<Rightarrow> string \<Rightarrow> bool" where
  "open_color g col \<longleftrightarrow> (\<exists>t. topCard g = Some t \<and> (if c_color t = ''wild'' then ug_activeColor g = Some col else c_color t = col))"

inductive uno_legal :: "uno \<Rightarrow> card list \<Rightarrow> card \<Rightarrow> bool" for g hand c where
  same_color: "ug_pendingDrawStack g = 0 \<Longrightarrow> c_color c \<noteq> ''wild'' \<Longrightarrow> open_color g (c_color c) \<Longrightarrow> uno_legal g hand c"
| same_value: "ug_pendingDrawStack g = 0 \<Longrightarrow> c_color c \<noteq> ''wild'' \<Longrightarrow> topCard g = Some t \<Longrightarrow> c_value c = c_value t \<Longrightarrow> uno_legal g hand c"
| wild: "ug_pendingDrawStack g = 0 \<Longrightarrow> c_color c = ''wild'' \<Longrightarrow> topCard g \<noteq> None \<Longrightarrow>
    c_value c \<noteq> ''wild4'' \<or> us_houseRules (ug_cfg g) \<noteq> ''official'' \<Longrightarrow> uno_legal g hand c"
| wild4: "ug_pendingDrawStack g = 0 \<Longrightarrow> c_color c = ''wild'' \<Longrightarrow> topCard g \<noteq> None \<Longrightarrow>
    (\<And>x. x \<in> set hand \<Longrightarrow> c_color x \<noteq> ''wild'' \<Longrightarrow> c_color x \<noteq> [] \<Longrightarrow> \<not> open_color g (c_color x)) \<Longrightarrow> uno_legal g hand c"
| stack_two: "ug_pendingDrawStack g > 0 \<Longrightarrow> us_houseRules (ug_cfg g) = ''casual'' \<Longrightarrow> ug_pendingDrawType g = Some ''draw2'' \<Longrightarrow>
    c_value c = ''draw2'' \<or> c_value c = ''wild4'' \<Longrightarrow> uno_legal g hand c"
| stack_four: "ug_pendingDrawStack g > 0 \<Longrightarrow> us_houseRules (ug_cfg g) = ''casual'' \<Longrightarrow> ug_pendingDrawType g = Some ''draw4'' \<Longrightarrow>
    c_value c = ''wild4'' \<Longrightarrow> uno_legal g hand c"

definition hand_of :: "uno \<Rightarrow> string \<Rightarrow> card list" where
  "hand_of g x = (case List.find (\<lambda>p. up_peerId p = x) (ug_players g) of None \<Rightarrow> [] | Some p \<Rightarrow> up_hand p)"

lemma find_findIndex: "List.find P xs = map_option (nth xs) (findIndex P xs)"
  by (induction xs) (auto simp: option.map_comp comp_def)

lemma may_move_iff:
  assumes "turn_ok g"
  shows "may_move x g = Some i \<longleftrightarrow> ug_phase g = Playing \<and> actor_id g = Some x \<and> ug_pendingColorChoice g = None \<and> ug_toActIdx g = int i"
proof
  assume r: "ug_phase g = Playing \<and> actor_id g = Some x \<and> ug_pendingColorChoice g = None \<and> ug_toActIdx g = int i"
  then have "i < length (ids g)" "ids g ! i = x" by (auto simp: actor_ids in_range_def split: if_splits)
  moreover have "distinct (ids g)" using assms by (simp add: turn_ok_def)
  ultimately have "find_player g x = Some i" by (auto simp: find_player_ids findIndex_Some nth_eq_iff_index_eq)
  then show "may_move x g = Some i" using r by (simp add: may_move_def)
qed (auto dest: may_move_Some)

lemma not_matching: "\<not> hasMatchingColor hand col \<longleftrightarrow> (\<forall>x \<in> set hand. c_color x \<noteq> ''wild'' \<longrightarrow> c_color x \<noteq> [] \<longrightarrow> col \<noteq> Some (c_color x))"
  by (auto simp: hasMatchingColor_def list_ex_iff split: option.splits)

lemma open_color_top: "topCard g = Some t \<Longrightarrow> topEffectiveColor (topCard g) (ug_activeColor g) = Some col \<longleftrightarrow> open_color g col"
  by (simp add: topEffectiveColor_def open_color_def)

lemma canPlay_legal:
  assumes "ug_pendingDrawStack g = 0"
  shows "canPlay c (topCard g) (ug_activeColor g) (us_houseRules (ug_cfg g)) hand \<longleftrightarrow> uno_legal g hand c"
proof (cases "topCard g")
  case None
  then show ?thesis using assms by (simp add: canPlay_def uno_legal.simps open_color_def)
next
  case (Some t)
  show ?thesis using assms Some open_color_top [OF Some]
    by (auto simp: canPlay_def uno_legal.simps not_matching eq_commute [of "Some _" "topEffectiveColor _ _"])
qed

lemma allowed_legal: "play_allowed g p c \<longleftrightarrow> uno_legal g (up_hand p) c"
proof (cases "ug_pendingDrawStack g = 0")
  case True
  then show ?thesis using canPlay_legal [OF True] by (simp add: play_allowed_def)
next
  case False
  then show ?thesis by (auto simp: play_allowed_def canStackDraw_def uno_legal.simps)
qed

text \<open>
  C26. A card is accepted exactly when the rules allow it: it is the player's turn, no color is owed, the card is in the player's hand, and it fits the open card,
  the color in force or the stack. It is the open card afterwards, and no card is lost.
\<close>

theorem accepted_card_is_legal:
  assumes "turn_ok g" "applyAction env x a g = (ok, h)" "ua_type a = ''play''"
  shows "(ok \<longleftrightarrow> ug_phase g = Playing \<and> actor_id g = Some x \<and> ug_pendingColorChoice g = None \<and>
      (\<exists>c. List.find (\<lambda>c. Some (c_id c) = ua_cardId a) (hand_of g x) = Some c \<and> uno_legal g (hand_of g x) c)) \<and>
    (ok \<longrightarrow> topCard h = List.find (\<lambda>c. Some (c_id c) = ua_cardId a) (hand_of g x)) \<and> cards_of h = cards_of g"
proof -
  have play: "playCard env x (ua_cardId a) g = (ok, h)" using assms(2,3) by (simp add: applyAction_def)
  have hand: "hand_of g x = up_hand (ug_players g ! i)" if "may_move x g = Some i" for i
    using may_move_Some(1) [OF that] by (simp add: hand_of_def find_findIndex find_player_def)
  have "cards_of h = cards_of g" using applyAction_sound(2) [OF assms(1), of env x a] assms(2) by simp
  moreover have "topCard h = List.find (\<lambda>c. Some (c_id c) = ua_cardId a) (hand_of g x)" if ok
  proof -
    show ?thesis
    proof (cases rule: playCard_cases [of env x "ua_cardId a" g])
      case (accepted i k)
      then show ?thesis using accepted_top [of env x "ua_cardId a" g h i k] play that hand by (simp add: find_findIndex)
    qed (use play that in simp)
  qed
  moreover have "ok \<longleftrightarrow> (\<exists>i c. may_move x g = Some i \<and> List.find (\<lambda>c. Some (c_id c) = ua_cardId a) (hand_of g x) = Some c \<and> uno_legal g (hand_of g x) c)"
    using play hand unfolding playCard_def
    by (cases "may_move x g") (auto simp: Let_def find_findIndex allowed_legal split: option.splits if_splits)
  moreover have "(\<exists>i. may_move x g = Some i) \<longleftrightarrow> ug_phase g = Playing \<and> actor_id g = Some x \<and> ug_pendingColorChoice g = None"
    using may_move_iff [OF assms(1), of x] actor_in_ids [of g x] by (auto simp: in_range_def intro: exI [of _ "nat (ug_toActIdx g)"])
  ultimately show ?thesis by blast
qed

text \<open>C27. The turn passes to the first seat that is not offline, in the direction of play; the loop of the code with its guard and
the definition by that search agree.\<close>

theorem turn_passes_to_first_connected:
  assumes "ug_direction g = 1 \<or> ug_direction g = - 1" "0 \<le> i" "i < int (length (ug_players g))"
  shows "nextIndex g i 1 = next_connected g i"
  by (rule nextIndex_first_connected [OF assms])

section \<open>Examples\<close>

definition uno_env_ex :: uno_env where
  "uno_env_ex = \<lparr>ue_selfId = ''h'', ue_selfName = Str ''Host'', ue_gameId = ''g'', ue_random = \<lambda>_ i. i, ue_connected = [''h'', ''b''], ue_blocked = []\<rparr>"

definition uno_input_ex :: jsv where
  "uno_input_ex = Obj [(''lobbyAccess'', Str ''public'')]"

definition uno_join_ex :: "(uno_env \<times> uno_input) list" where
  "uno_join_ex = [(uno_env_ex, Uno_Message ''b'' (Obj [(''wire'', Str ''join''), (''gameId'', Str ''g''), (''name'', Str ''Bob'')]))]"

definition two_seats :: "card list \<Rightarrow> card list \<Rightarrow> uplayer list" where
  "two_seats a b = [\<lparr>up_peerId = ''h'', up_name = ''Host'', up_seat = 0, up_hand = a, up_saidUno = False, up_score = 0, up_connected = True\<rparr>,
     \<lparr>up_peerId = ''b'', up_name = ''Bob'', up_seat = 1, up_hand = b, up_saidUno = False, up_score = 0, up_connected = True\<rparr>]"

definition card_ex :: "string \<Rightarrow> string \<Rightarrow> card" where
  "card_ex color v = \<lparr>c_id = color @ v, c_color = color, c_value = v\<rparr>"

text \<open>A round between two players: a red 1 is open and it is the turn of \<open>b\<close>.\<close>

definition uno_round_ex :: uno where
  "uno_round_ex = (createHost uno_input_ex)\<lparr>
     ug_players := two_seats [card_ex ''red'' ''2'', card_ex ''blue'' ''2''] [card_ex ''red'' ''3'', card_ex ''wild'' ''wild''],
     ug_phase := Playing, ug_activeColor := Some ''red'', ug_toActIdx := 1, ug_dealerIdx := 0,
     ug_drawPile := [card_ex ''red'' ''9'', card_ex ''green'' ''5'', card_ex ''red'' ''5''], ug_discardPile := [card_ex ''red'' ''1'']\<rparr>"

definition play_ex :: "card \<Rightarrow> uno_action" where
  "play_ex c = \<lparr>ua_type = ''play'', ua_cardId = Some (c_id c), ua_color = None\<rparr>"

definition simple_ex :: "string \<Rightarrow> uno_action" where
  "simple_ex t = \<lparr>ua_type = t, ua_cardId = None, ua_color = None\<rparr>"

lemma lobby_of_two:
  "ug_phase (uno_run uno_env_ex uno_input_ex uno_join_ex) = Lobby \<and> 2 \<le> length (activePlayers (uno_run uno_env_ex uno_input_ex uno_join_ex))"
proof -
  have "uno_run uno_env_ex uno_input_ex uno_join_ex = (createHost uno_input_ex)\<lparr>ug_players := two_seats [] []\<rparr>" by code_simp
  then show ?thesis by (simp add: createHost_def two_seats_def activePlayers_def)
qed

lemma round_turn: "turn_ok uno_round_ex" "ug_phase uno_round_ex = Playing"
  by (simp_all add: uno_round_ex_def createHost_def turn_ok_def playing_ok_def ids_players two_seats_def in_range_def)

theorem round_dealt_witness:
  "\<exists>h. startGame uno_env_ex (uno_run uno_env_ex uno_input_ex uno_join_ex) = (True, h) \<and> fresh_round h"
  using round_dealt [of uno_env_ex uno_input_ex uno_join_ex uno_env_ex] lobby_of_two
  by (cases "startGame uno_env_ex (uno_run uno_env_ex uno_input_ex uno_join_ex)") simp

theorem turn_at_the_table_witness:
  "ug_phase (uno_run uno_env_ex uno_input_ex (uno_join_ex @ [(uno_env_ex, Uno_Start)])) = Playing \<and>
   (\<exists>x. actor_id (uno_run uno_env_ex uno_input_ex (uno_join_ex @ [(uno_env_ex, Uno_Start)])) = Some x)"
proof -
  have "ug_phase (uno_run uno_env_ex uno_input_ex (uno_join_ex @ [(uno_env_ex, Uno_Start)])) = Playing"
    using start_fresh [OF run_seated run_turn, of uno_env_ex uno_input_ex uno_join_ex uno_env_ex] lobby_of_two
    by (simp add: run_snoc fresh_round_def)
  then show ?thesis using turn_at_the_table by blast
qed

theorem only_the_actor_moves_witness:
  "actor_id uno_round_ex = Some ''b'' \<and> fst (applyAction uno_env_ex ''b'' (simple_ex ''draw'') uno_round_ex)"
proof -
  have "length (ug_drawPile (snd (applyAction uno_env_ex ''b'' (simple_ex ''draw'') uno_round_ex))) = 2" by code_simp
  moreover have "length (ug_drawPile uno_round_ex) = 3" by (simp add: uno_round_ex_def)
  ultimately have "snd (applyAction uno_env_ex ''b'' (simple_ex ''draw'') uno_round_ex) \<noteq> uno_round_ex" by auto
  from only_the_actor_moves [OF round_turn surjective_pairing this] show ?thesis by (simp add: simple_ex_def)
qed

theorem accepted_card_is_legal_witness:
  "\<exists>h. applyAction uno_env_ex ''b'' (play_ex (card_ex ''red'' ''3'')) uno_round_ex = (True, h) \<and> topCard h = Some (card_ex ''red'' ''3'') \<and>
     cards_of h = cards_of uno_round_ex"
proof -
  obtain ok h where r: "applyAction uno_env_ex ''b'' (play_ex (card_ex ''red'' ''3'')) uno_round_ex = (ok, h)"
    by (cases "applyAction uno_env_ex ''b'' (play_ex (card_ex ''red'' ''3'')) uno_round_ex")
  have f: "List.find (\<lambda>c. Some (c_id c) = ua_cardId (play_ex (card_ex ''red'' ''3''))) (hand_of uno_round_ex ''b'') = Some (card_ex ''red'' ''3'')"
    by code_simp
  have "ug_pendingDrawStack uno_round_ex = 0" "actor_id uno_round_ex = Some ''b''" "ug_pendingColorChoice uno_round_ex = None"
    "topCard uno_round_ex = Some (card_ex ''red'' ''1'')" by code_simp+
  then have "uno_legal uno_round_ex hand (card_ex ''red'' ''3'')" for hand by (intro same_color) (simp_all add: open_color_def card_ex_def)
  then show ?thesis using accepted_card_is_legal [OF round_turn(1) r] f r round_turn(2) \<open>actor_id uno_round_ex = Some ''b''\<close>
      \<open>ug_pendingColorChoice uno_round_ex = None\<close> by (simp add: play_ex_def)
qed

theorem turn_passes_to_first_connected_witness:
  "nextIndex uno_round_ex 1 1 = 0 \<and> next_connected uno_round_ex 1 = 0"
proof -
  have "nextIndex uno_round_ex 1 1 = 0" by code_simp
  then show ?thesis using turn_passes_to_first_connected [of uno_round_ex 1] by (simp add: uno_round_ex_def createHost_def two_seats_def)
qed

section \<open>What the rules do not cover\<close>

text \<open>A round stops when the player to move goes offline with one other player left and a third returns: the turn stays at the
offline seat, for which no timer runs.\<close>

definition three_ex :: uno where
  "three_ex = uno_round_ex\<lparr>ug_players := ug_players uno_round_ex @
     [\<lparr>up_peerId = ''c'', up_name = ''Carl'', up_seat = 2, up_hand = [card_ex ''red'' ''4''], up_saidUno = False, up_score = 0, up_connected = False\<rparr>]\<rparr>"

lemma turn_stays_offline:
  "let g = snd (reconnectPlayer uno_env_ex ''c'' (handleDisconnect uno_env_ex ''b'' three_ex))
   in ug_phase g = Playing \<and> length (activePlayers g) = 2 \<and> actor_id g = Some ''b'' \<and> offline g (ug_toActIdx g)"
  by code_simp

text \<open>A player who forgets to call UNO draws two cards when the next one moves, but not when the last card but one was wild.\<close>

definition moves_ex :: "(string \<times> uno_action) list \<Rightarrow> uno" where
  "moves_ex xs = fold (\<lambda>(x, a) g. snd (applyAction uno_env_ex x a g)) xs uno_round_ex"

lemma wild_forgets_uno:
  "map (length \<circ> up_hand) (ug_players (moves_ex [(''b'', play_ex (card_ex ''red'' ''3'')), (''h'', play_ex (card_ex ''red'' ''2''))])) = [1, 3]"
  "map (length \<circ> up_hand) (ug_players (moves_ex [(''b'', play_ex (card_ex ''wild'' ''wild'')),
     (''b'', \<lparr>ua_type = ''chooseColor'', ua_cardId = None, ua_color = Some ''red''\<rparr>), (''h'', play_ex (card_ex ''red'' ''2''))])) = [1, 1]"
  by code_simp+

text \<open>A player who drew a card and may pass can draw again instead, as often as the cards fit.\<close>

lemma draws_again:
  "let g = snd (drawCard uno_env_ex ''b'' uno_round_ex) in ug_drewCanPass g = Some ''b'' \<and> fst (drawCard uno_env_ex ''b'' g) \<and>
     length (up_hand (ug_players (snd (drawCard uno_env_ex ''b'' g)) ! 1)) = 4"
  by code_simp

text \<open>New settings change the rules of the round that is being played.\<close>

lemma settings_apply_at_once:
  "let g = uno_round_ex\<lparr>ug_players := two_seats [] [card_ex ''red'' ''3'', card_ex ''wild'' ''wild4''], ug_toActIdx := 1\<rparr>;
       play = (\<lambda>g. fst (playCard uno_env_ex ''b'' (Some (c_id (card_ex ''wild'' ''wild4''))) g))
   in \<not> play g \<and> play (updateSettings (Obj [(''houseRules'', Str ''casual'')]) g)"
  by code_simp

end
