(* ===== verification/Poker_Hand.thy ===== *)
theory Poker_Hand
  imports Uno_Rules
begin

text \<open>
  Poker hands: \<open>cards.js\<close> and \<open>handRank.js\<close> under \<open>assets/bundled-plugins/poker\<close>. A card is a number below 52,
  its rank the rest modulo 13 and its suit the quotient. Scores are lists of numbers; an entry that is missing
  counts as 0 when scores are compared, so a rank that a search does not find is 0 here.
\<close>

section \<open>Cards\<close>

definition makeDeck :: "nat list" where
  "makeDeck = concat (map (\<lambda>s. map (\<lambda>r. s * 13 + r) [0..<13]) [0..<4])"

definition shuffle_deck :: "(nat \<Rightarrow> nat) \<Rightarrow> nat list \<Rightarrow> nat list" where
  "shuffle_deck buf xs = shuffle_from buf (length xs - 1) xs"

section \<open>Five cards\<close>

text \<open>Ranks with the number of their cards, by number and then rank, descending.\<close>

definition byFreq :: "nat list \<Rightarrow> (nat \<times> nat) list" where
  "byFreq r = rev (sort_key snd (map (\<lambda>k. (k, count_list r k)) (sort (remdups r))))"

definition straightHigh :: "nat list \<Rightarrow> nat option" where
  "straightHigh r =
     (let uniq = rev (sort (remdups r))
      in if length uniq = 5 then
           (if uniq ! 0 = 12 \<and> uniq ! 1 = 3 \<and> uniq ! 2 = 2 \<and> uniq ! 3 = 1 \<and> uniq ! 4 = 0 then Some 3
            else if uniq ! 0 - uniq ! 4 = 4 then Some (uniq ! 0) else None)
         else None)"

definition found :: "nat option \<Rightarrow> nat" where
  "found x = (case x of None \<Rightarrow> 0 | Some k \<Rightarrow> k)"

definition desc :: "nat list \<Rightarrow> nat list" where
  "desc xs = rev (sort xs)"

text \<open>What is scored: the ranks in descending order, and whether all suits are the same.\<close>

definition score_of :: "nat list \<Rightarrow> bool \<Rightarrow> nat list" where
  "score_of r flush =
     (let freq = byFreq r; high = straightHigh r
      in if flush \<and> high \<noteq> None then [8, the high]
         else if snd (freq ! 0) = 4 then [7, fst (freq ! 0), found (List.find (\<lambda>x. x \<noteq> fst (freq ! 0)) r)]
         else if snd (freq ! 0) = 3 \<and> snd (freq ! 1) = 2 then [6, fst (freq ! 0), fst (freq ! 1)]
         else if flush then 5 # r
         else if high \<noteq> None then [4, the high]
         else if snd (freq ! 0) = 3 then [3, fst (freq ! 0)] @ take 2 (desc (filter (\<lambda>x. x \<noteq> fst (freq ! 0)) r))
         else if snd (freq ! 0) = 2 \<and> snd (freq ! 1) = 2 then
           (let p1 = max (fst (freq ! 0)) (fst (freq ! 1)); p2 = min (fst (freq ! 0)) (fst (freq ! 1))
            in [2, p1, p2, found (List.find (\<lambda>x. x \<noteq> p1 \<and> x \<noteq> p2) r)])
         else if snd (freq ! 0) = 2 then [1, fst (freq ! 0)] @ take 3 (desc (filter (\<lambda>x. x \<noteq> fst (freq ! 0)) r))
         else 0 # r)"

definition scoreFive :: "nat list \<Rightarrow> nat list" where
  "scoreFive cards5 =
     (let suits = map (\<lambda>c. c div 13) cards5
      in score_of (desc (map (\<lambda>c. c mod 13) cards5)) (list_all (\<lambda>x. x = hd suits) suits))"

fun cmpScore :: "nat list \<Rightarrow> nat list \<Rightarrow> int" where
  "cmpScore [] [] = 0"
| "cmpScore (x # a) [] = (if x \<noteq> 0 then int x else cmpScore a [])"
| "cmpScore [] (y # b) = (if y \<noteq> 0 then - int y else cmpScore [] b)"
| "cmpScore (x # a) (y # b) = (if x \<noteq> y then int x - int y else cmpScore a b)"

section \<open>The best five of seven\<close>

text \<open>The places the five nested loops run through.\<close>

definition five_of_seven :: "nat list list" where
  "five_of_seven = concat (map (\<lambda>a. concat (map (\<lambda>b. concat (map (\<lambda>c. concat (map (\<lambda>d. map (\<lambda>e. [a, b, c, d, e])
     [d + 1..<7]) [c + 1..<7])) [b + 1..<7])) [a + 1..<7])) [0..<7])"

definition better :: "nat list option \<Rightarrow> nat list \<Rightarrow> nat list option" where
  "better best s = (case best of None \<Rightarrow> Some s | Some b \<Rightarrow> if cmpScore s b > 0 then Some s else best)"

definition best7 :: "nat list \<Rightarrow> nat list option" where
  "best7 cards7 = foldl (\<lambda>best places. better best (scoreFive (map (\<lambda>i. cards7 ! i) places))) None five_of_seven"

definition handLabel :: "nat list \<Rightarrow> string" where
  "handLabel score =
     (case map_of [(8, ''Straight Flush''), (7, ''Vierling''), (6, ''Full House''), (5, ''Flush''), (4, ''Straight''), (3, ''Drilling''),
        (2, ''Zwei Paare''), (1, ''Paar''), (0::nat, ''High Card'')] (hd score) of Some l \<Rightarrow> l | None \<Rightarrow> ''Hand'')"

section \<open>Scores are ordered\<close>

lemma cmp_refl [simp]: "cmpScore a a = 0"
  by (induction a) simp_all

lemma cmp_antisym: "cmpScore a b = - cmpScore b a"
  by (induction a b rule: cmpScore.induct) simp_all

text \<open>Missing entries are zeros: comparing is comparing numbers place by place.\<close>

definition entry :: "nat list \<Rightarrow> nat \<Rightarrow> nat" where
  "entry a i = (if i < length a then a ! i else 0)"

lemma entry_simps [simp]: "entry [] i = 0" "entry (x # a) 0 = x" "entry (x # a) (Suc i) = entry a i"
  by (simp_all add: entry_def)

definition below :: "nat list \<Rightarrow> nat list \<Rightarrow> bool" where
  "below a b \<longleftrightarrow> (\<exists>i. entry a i < entry b i \<and> (\<forall>j < i. entry a j = entry b j))"

lemma below_Cons:
  "below (x # a) (y # b) \<longleftrightarrow> x < y \<or> x = y \<and> below a b" "below (x # a) [] \<longleftrightarrow> x = 0 \<and> below a []" "below [] (y # b) \<longleftrightarrow> 0 < y \<or> y = 0 \<and> below [] b"
proof -
  have step: "(\<exists>i. f i < g i \<and> (\<forall>j < i. f j = g j)) \<longleftrightarrow> f 0 < g 0 \<or> f 0 = g 0 \<and> (\<exists>i. f (Suc i) < g (Suc i) \<and> (\<forall>j < i. f (Suc j) = g (Suc j)))"
    for f g :: "nat \<Rightarrow> nat"
  proof -
    have "(\<exists>i. P i) \<longleftrightarrow> P 0 \<or> (\<exists>i. P (Suc i))" for P :: "nat \<Rightarrow> bool" by (metis not0_implies_Suc)
    from this [of "\<lambda>i. f i < g i \<and> (\<forall>j < i. f j = g j)"] show ?thesis by (auto simp: All_less_Suc2)
  qed
  show "below (x # a) (y # b) \<longleftrightarrow> x < y \<or> x = y \<and> below a b" "below (x # a) [] \<longleftrightarrow> x = 0 \<and> below a []" "below [] (y # b) \<longleftrightarrow> 0 < y \<or> y = 0 \<and> below [] b"
    using step [of "entry (x # a)" "entry (y # b)"] step [of "entry (x # a)" "entry []"] step [of "entry []" "entry (y # b)"]
    by (auto simp: below_def)
qed

lemma cmp_below: "cmpScore a b < 0 \<longleftrightarrow> below a b"
  by (induction a b rule: cmpScore.induct) (auto simp: below_Cons, auto simp: below_def)

lemma cmp_above: "cmpScore a b > 0 \<longleftrightarrow> below b a"
  using cmp_below [of b a] cmp_antisym [of a b] by linarith

lemma below_trans: "below a b \<Longrightarrow> below b c \<Longrightarrow> below a c"
proof -
  assume "below a b" "below b c"
  then obtain i j where i: "entry a i < entry b i" "\<forall>k < i. entry a k = entry b k" and j: "entry b j < entry c j" "\<forall>k < j. entry b k = entry c k"
    by (auto simp: below_def)
  have "entry a (min i j) < entry c (min i j) \<and> (\<forall>k < min i j. entry a k = entry c k)"
    using i j by (cases i j rule: linorder_cases) auto
  then show ?thesis unfolding below_def by blast
qed

lemma below_total: "below a b \<or> below b a \<or> cmpScore a b = 0"
  using cmp_below [of a b] cmp_above [of a b] by linarith

lemma below_split: "below c a \<Longrightarrow> below c b \<or> below b a"
proof -
  assume "below c a"
  then obtain i where i: "entry c i < entry a i" "\<forall>j < i. entry c j = entry a j" by (auto simp: below_def)
  show ?thesis
  proof (cases "\<forall>j < i. entry b j = entry a j")
    case True
    then have "entry c i < entry b i \<or> entry b i < entry a i" using i(1) by linarith
    then show ?thesis using True i(2) unfolding below_def by metis
  next
    case False
    then obtain k where k: "entry b k \<noteq> entry a k" "k < i" "\<forall>j < k. entry b j = entry a j"
      using exists_least_iff [of "\<lambda>j. j < i \<and> entry b j \<noteq> entry a j"] by force
    then have "entry c k < entry b k \<or> entry b k < entry a k" using i(2) by fastforce
    then show ?thesis using k i(2) unfolding below_def by (metis order_less_trans)
  qed
qed

lemma cmp_le_trans: "cmpScore a b \<le> 0 \<Longrightarrow> cmpScore b c \<le> 0 \<Longrightarrow> cmpScore a c \<le> 0"
proof -
  have neg: "cmpScore x y \<le> 0 \<longleftrightarrow> \<not> below y x" for x y using cmp_above [of x y] by linarith
  assume "cmpScore a b \<le> 0" "cmpScore b c \<le> 0"
  then have "\<not> below b a" "\<not> below c b" by (simp_all add: neg)
  moreover have "below b a \<or> below c b" if "below c a"
    using that below_split by blast
  ultimately show "cmpScore a c \<le> 0" unfolding neg by blast
qed

lemma best_fold:
  "\<exists>m. foldl (\<lambda>b p. better b (f p)) (Some s) xs = Some m \<and> m \<in> insert s (f ` set xs) \<and> cmpScore s m \<le> 0 \<and> (\<forall>p \<in> set xs. cmpScore (f p) m \<le> 0)"
proof (induction xs arbitrary: s)
  case (Cons p xs)
  define t where "t = (if cmpScore (f p) s > 0 then f p else s)"
  have t: "better (Some s) (f p) = Some t" "t \<in> {s, f p}" by (simp_all add: better_def t_def)
  have st: "cmpScore s t \<le> 0" "cmpScore (f p) t \<le> 0" using cmp_antisym [of s "f p"] by (auto simp: t_def)
  obtain m where m: "foldl (\<lambda>b p. better b (f p)) (Some t) xs = Some m" "m \<in> insert t (f ` set xs)" "cmpScore t m \<le> 0" "\<forall>p \<in> set xs. cmpScore (f p) m \<le> 0"
    using Cons.IH [of t] by blast
  have "cmpScore s m \<le> 0" "cmpScore (f p) m \<le> 0" using cmp_le_trans [OF _ m(3)] st by blast+
  moreover have "m \<in> insert s (f ` set (p # xs))" using m(2) t(2) by auto
  ultimately show ?case using m(1,4) t(1) by simp
qed simp

lemma best7_facts:
  "\<exists>m. best7 cards = Some m \<and> m \<in> (\<lambda>places. scoreFive (map (\<lambda>i. cards ! i) places)) ` set five_of_seven \<and>
     (\<forall>places \<in> set five_of_seven. cmpScore (scoreFive (map (\<lambda>i. cards ! i) places)) m \<le> 0)"
proof -
  have five: "five_of_seven = [0, 1, 2, 3, 4] # tl five_of_seven" by code_simp
  let ?f = "\<lambda>places. scoreFive (map (\<lambda>i. cards ! i) places)"
  obtain m where m: "foldl (\<lambda>b p. better b (?f p)) (Some (?f [0, 1, 2, 3, 4])) (tl five_of_seven) = Some m"
    "m \<in> insert (?f [0, 1, 2, 3, 4]) (?f ` set (tl five_of_seven))" "cmpScore (?f [0, 1, 2, 3, 4]) m \<le> 0"
    "\<forall>p \<in> set (tl five_of_seven). cmpScore (?f p) m \<le> 0"
    using best_fold [of ?f "?f [0, 1, 2, 3, 4]" "tl five_of_seven"] by blast
  have "best7 cards = foldl (\<lambda>b p. better b (?f p)) (better None (?f [0, 1, 2, 3, 4])) (tl five_of_seven)"
    unfolding best7_def by (subst five) simp
  moreover have "set five_of_seven = insert [0, 1, 2, 3, 4] (set (tl five_of_seven))" by (subst five) simp
  ultimately show ?thesis using m by (simp add: better_def)
qed

lemma seven_choose_five:
  assumes "length cards = 7"
  shows "set (map (\<lambda>places. map (\<lambda>i. cards ! i) places) five_of_seven) = {five \<in> set (subseqs cards). length five = 5}"
proof -
  obtain a b c d e f g where cards: "cards = [a, b, c, d, e, f, g]"
    using assms by (auto simp: length_Suc_conv numeral_eq_Suc)
  have five: "five_of_seven = [[0, 1, 2, 3, 4], [0, 1, 2, 3, 5], [0, 1, 2, 3, 6], [0, 1, 2, 4, 5], [0, 1, 2, 4, 6], [0, 1, 2, 5, 6], [0, 1, 3, 4, 5],
      [0, 1, 3, 4, 6], [0, 1, 3, 5, 6], [0, 1, 4, 5, 6], [0, 2, 3, 4, 5], [0, 2, 3, 4, 6], [0, 2, 3, 5, 6], [0, 2, 4, 5, 6], [0, 3, 4, 5, 6],
      [1, 2, 3, 4, 5], [1, 2, 3, 4, 6], [1, 2, 3, 5, 6], [1, 2, 4, 5, 6], [1, 3, 4, 5, 6], [2, 3, 4, 5, 6]]" by code_simp
  have "{five \<in> set (subseqs cards). length five = 5} = set (filter (\<lambda>five. length five = 5) (subseqs cards))" by auto
  also have "\<dots> = set (map (\<lambda>places. map (\<lambda>i. cards ! i) places) five_of_seven)"
    unfolding five cards by (simp add: Let_def insert_commute)
  finally show ?thesis by simp
qed

section \<open>The categories of hands\<close>

text \<open>What the first number of a score stands for, by the number of cards of each rank.\<close>

definition ranks :: "nat list \<Rightarrow> nat list" where
  "ranks cards = map (\<lambda>c. c mod 13) cards"

definition has_group :: "nat list \<Rightarrow> nat \<Rightarrow> bool" where
  "has_group r n \<longleftrightarrow> (\<exists>k \<in> set r. count_list r k = n)"

definition two_pairs :: "nat list \<Rightarrow> bool" where
  "two_pairs r \<longleftrightarrow> (\<exists>j \<in> set r. \<exists>k \<in> set r. j \<noteq> k \<and> count_list r j = 2 \<and> count_list r k = 2)"

definition in_a_row :: "nat list \<Rightarrow> bool" where
  "in_a_row r \<longleftrightarrow> distinct r \<and> (Max (set r) = Min (set r) + 4 \<or> set r = {12, 3, 2, 1, 0})"

definition one_suit :: "nat list \<Rightarrow> bool" where
  "one_suit cards \<longleftrightarrow> (\<forall>c \<in> set cards. \<forall>d \<in> set cards. c div 13 = d div 13)"

definition category :: "nat list \<Rightarrow> bool \<Rightarrow> nat" where
  "category r flush =
     (if flush \<and> in_a_row r then 8 else if has_group r 4 then 7 else if has_group r 3 \<and> has_group r 2 then 6 else if flush then 5
      else if in_a_row r then 4 else if has_group r 3 then 3 else if two_pairs r then 2 else if has_group r 2 then 1 else 0)"

lemma scoreFive_score_of: "cards \<noteq> [] \<Longrightarrow> scoreFive cards = score_of (desc (ranks cards)) (one_suit cards)"
proof -
  assume "cards \<noteq> []"
  then have "list_all (\<lambda>x. x = hd (map (\<lambda>c. c div 13) cards)) (map (\<lambda>c. c div 13) cards) = one_suit cards"
    by (cases cards) (auto simp: one_suit_def list_all_iff)
  then show ?thesis by (simp add: scoreFive_def ranks_def Let_def)
qed

lemma category_desc: "category (desc r) flush = category r flush"
proof -
  have "count_list (desc r) k = count_list r k" for k by (simp add: desc_def flip: count_mset)
  moreover have "set (desc r) = set r" "distinct (desc r) = distinct r" by (simp_all add: desc_def)
  ultimately have "has_group (desc r) n = has_group r n" "two_pairs (desc r) = two_pairs r" "in_a_row (desc r) = in_a_row r" for n
    by (simp_all add: has_group_def two_pairs_def in_a_row_def)
  then show ?thesis by (simp add: category_def)
qed

text \<open>Straights, among ranks in descending order.\<close>

lemma row_sorted:
  fixes a b c d e :: nat
  assumes "a \<ge> b" "b \<ge> c" "c \<ge> d" "d \<ge> e"
  shows "in_a_row [a, b, c, d, e] \<longleftrightarrow> a > b \<and> b > c \<and> c > d \<and> d > e \<and> (a = e + 4 \<or> a = 12 \<and> b = 3 \<and> c = 2 \<and> d = 1 \<and> e = 0)"
proof (cases "a > b \<and> b > c \<and> c > d \<and> d > e")
  case True
  then have "sorted_list_of_set (set [e, d, c, b, a]) = [e, d, c, b, a]" by (intro sorted_list_of_set.idem_if_sorted_distinct) auto
  moreover have "sorted_list_of_set (set [0, 1, 2, 3, 12]) = [0, 1, 2, 3, 12::nat]" by (intro sorted_list_of_set.idem_if_sorted_distinct) auto
  moreover have "{a, b, c, d, e} = set [e, d, c, b, a]" "{12, 3, 2, 1, 0} = set [0, 1, 2, 3, 12::nat]" by auto
  ultimately have "{a, b, c, d, e} = {12, 3, 2, 1, 0} \<longleftrightarrow> [e, d, c, b, a] = [0, 1, 2, 3, 12]" by metis
  moreover have "Max {a, b, c, d, e} = a" "Min {a, b, c, d, e} = e" using True by (auto intro!: Max_eqI Min_eqI)
  ultimately show ?thesis using True unfolding in_a_row_def by (auto simp del: One_nat_def)
next
  case False
  then have "\<not> in_a_row [a, b, c, d, e]" using assms by (auto simp: in_a_row_def)
  then show ?thesis using False by blast
qed

lemma high_sorted:
  fixes a b c d e :: nat
  assumes "a \<ge> b" "b \<ge> c" "c \<ge> d" "d \<ge> e"
  shows "straightHigh [a, b, c, d, e] \<noteq> None \<longleftrightarrow> in_a_row [a, b, c, d, e]"
proof (cases "distinct [a, b, c, d, e]")
  case True
  then have s: "a > b" "b > c" "c > d" "d > e" using assms by auto
  then have "desc (remdups [a, b, c, d, e]) = [a, b, c, d, e]" by (simp add: desc_def)
  then show ?thesis using s unfolding row_sorted [OF assms] by (auto simp: straightHigh_def desc_def [symmetric] Let_def)
next
  case False
  have "length (remdups [a, b, c, d, e]) \<noteq> length [a, b, c, d, e]" unfolding length_remdups_eq using False by (metis distinct_remdups)
  then have "straightHigh [a, b, c, d, e] = None" by (simp add: straightHigh_def Let_def del: remdups.simps)
  moreover have "\<not> in_a_row [a, b, c, d, e]" using False unfolding in_a_row_def by blast
  ultimately show ?thesis by simp
qed

text \<open>The groups of equal ranks: \<open>fits r sizes\<close> when the groups of \<open>r\<close> have these sizes.\<close>

definition fits :: "nat list \<Rightarrow> nat list \<Rightarrow> bool" where
  "fits r sizes \<longleftrightarrow> map snd (byFreq r) = sizes \<and> (has_group r 2 \<longleftrightarrow> 2 \<in> set sizes) \<and> (has_group r 3 \<longleftrightarrow> 3 \<in> set sizes) \<and>
     (has_group r 4 \<longleftrightarrow> 4 \<in> set sizes) \<and> (two_pairs r \<longleftrightarrow> count_list sizes 2 = 2)"

lemmas fits_defs = fits_def byFreq_def has_group_def two_pairs_def

lemma fits_patterns:
  fixes a b c d e :: nat
  shows
    "a > b \<Longrightarrow> b > c \<Longrightarrow> c > d \<Longrightarrow> d > e \<Longrightarrow> fits [a, b, c, d, e] [1, 1, 1, 1, 1]"
    "a > b \<Longrightarrow> b > c \<Longrightarrow> c > d \<Longrightarrow> fits [a, a, b, c, d] [2, 1, 1, 1]"
    "a > b \<Longrightarrow> b > c \<Longrightarrow> c > d \<Longrightarrow> fits [a, b, b, c, d] [2, 1, 1, 1]"
    "a > b \<Longrightarrow> b > c \<Longrightarrow> c > d \<Longrightarrow> fits [a, b, c, c, d] [2, 1, 1, 1]"
    "a > b \<Longrightarrow> b > c \<Longrightarrow> c > d \<Longrightarrow> fits [a, b, c, d, d] [2, 1, 1, 1]"
    "a > b \<Longrightarrow> b > c \<Longrightarrow> fits [a, a, b, b, c] [2, 2, 1]"
    "a > b \<Longrightarrow> b > c \<Longrightarrow> fits [a, a, b, c, c] [2, 2, 1]"
    "a > b \<Longrightarrow> b > c \<Longrightarrow> fits [a, b, b, c, c] [2, 2, 1]"
    "a > b \<Longrightarrow> b > c \<Longrightarrow> fits [a, a, a, b, c] [3, 1, 1]"
    "a > b \<Longrightarrow> b > c \<Longrightarrow> fits [a, b, b, b, c] [3, 1, 1]"
    "a > b \<Longrightarrow> b > c \<Longrightarrow> fits [a, b, c, c, c] [3, 1, 1]"
    "a > b \<Longrightarrow> fits [a, a, a, b, b] [3, 2]"
    "a > b \<Longrightarrow> fits [a, a, b, b, b] [3, 2]"
    "a > b \<Longrightarrow> fits [a, a, a, a, b] [4, 1]"
    "a > b \<Longrightarrow> fits [a, b, b, b, b] [4, 1]"
  by (simp_all add: fits_defs)

lemma fits_sorted:
  fixes a b c d e :: nat
  assumes "a \<ge> b" "b \<ge> c" "c \<ge> d" "d \<ge> e" "a \<noteq> e"
  shows "\<exists>sizes \<in> {[1, 1, 1, 1, 1], [2, 1, 1, 1], [2, 2, 1], [3, 1, 1], [3, 2], [4, 1]}. fits [a, b, c, d, e] sizes"
  using assms by (auto simp: order_le_less intro: fits_patterns simp del: One_nat_def)

lemma groups_fit:
  assumes "fits r sizes" "sizes \<in> {[1, 1, 1, 1, 1], [2, 1, 1, 1], [2, 2, 1], [3, 1, 1], [3, 2], [4, 1]}"
  shows "snd (byFreq r ! 0) = 4 \<longleftrightarrow> has_group r 4" "snd (byFreq r ! 0) = 3 \<longleftrightarrow> has_group r 3"
    "snd (byFreq r ! 0) = 3 \<and> snd (byFreq r ! 1) = 2 \<longleftrightarrow> has_group r 3 \<and> has_group r 2"
    "snd (byFreq r ! 0) = 2 \<and> snd (byFreq r ! 1) = 2 \<longleftrightarrow> two_pairs r"
    "snd (byFreq r ! 0) = 2 \<longleftrightarrow> has_group r 2 \<and> \<not> has_group r 3"
proof -
  have size: "map snd (byFreq r) = sizes" using assms(1) by (simp add: fits_def)
  then have "length (byFreq r) = length sizes" by (metis length_map)
  moreover have "2 \<le> length sizes" using assms(2) by auto
  ultimately have "0 < length (byFreq r)" "1 < length (byFreq r)" by linarith+
  then have "snd (byFreq r ! 0) = sizes ! 0" "snd (byFreq r ! 1) = sizes ! 1"
    using nth_map [of 0 "byFreq r" snd] nth_map [of 1 "byFreq r" snd] unfolding size by simp_all
  then show "snd (byFreq r ! 0) = 4 \<longleftrightarrow> has_group r 4" "snd (byFreq r ! 0) = 3 \<longleftrightarrow> has_group r 3"
    "snd (byFreq r ! 0) = 3 \<and> snd (byFreq r ! 1) = 2 \<longleftrightarrow> has_group r 3 \<and> has_group r 2"
    "snd (byFreq r ! 0) = 2 \<and> snd (byFreq r ! 1) = 2 \<longleftrightarrow> two_pairs r"
    "snd (byFreq r ! 0) = 2 \<longleftrightarrow> has_group r 2 \<and> \<not> has_group r 3"
    using assms unfolding fits_def by (elim insertE emptyE; simp)+
qed

lemma hd_score_of:
  "hd (score_of r flush) =
     (if flush \<and> straightHigh r \<noteq> None then 8 else if snd (byFreq r ! 0) = 4 then 7
      else if snd (byFreq r ! 0) = 3 \<and> snd (byFreq r ! 1) = 2 then 6 else if flush then 5 else if straightHigh r \<noteq> None then 4
      else if snd (byFreq r ! 0) = 3 then 3 else if snd (byFreq r ! 0) = 2 \<and> snd (byFreq r ! 1) = 2 then 2 else if snd (byFreq r ! 0) = 2 then 1 else 0)"
  by (simp add: score_of_def Let_def)

lemma category_sorted:
  assumes "a \<ge> b" "b \<ge> c" "c \<ge> d" "d \<ge> e" "a \<noteq> e"
  shows "hd (score_of [a, b, c, d, e] flush) = category [a, b, c, d, e] flush"
proof -
  obtain sizes where "fits [a, b, c, d, e] sizes" "sizes \<in> {[1, 1, 1, 1, 1], [2, 1, 1, 1], [2, 2, 1], [3, 1, 1], [3, 2], [4, 1]}"
    using fits_sorted [OF assms] by blast
  note g = groups_fit [OF this] and high = high_sorted [OF assms(1-4)]
  show ?thesis unfolding hd_score_of category_def high g(3) g(4) unfolding g(1) g(2) g(5) by simp
qed

lemma desc_five:
  assumes "length r = 5"
  obtains a b c d e where "desc r = [a, b, c, d, e]" "a \<ge> b" "b \<ge> c" "c \<ge> d" "d \<ge> e" "set r = {a, b, c, d, e}"
proof -
  have len: "length (desc r) = 5" using assms by (simp add: desc_def)
  then obtain a b c d e where r: "desc r = [a, b, c, d, e]" by (auto simp: length_Suc_conv numeral_eq_Suc)
  have "sorted (rev (desc r))" "set (desc r) = set r" by (simp_all add: desc_def)
  then show ?thesis using that [OF r] r by simp
qed

text \<open>Two cards of one rank have different suits, so five different cards do not share a rank.\<close>

lemma not_five_of_a_kind:
  fixes cards :: "nat list"
  assumes "length cards = 5" "distinct cards" "\<forall>c \<in> set cards. c < 52"
  shows "\<not> (\<forall>c \<in> set cards. c mod 13 = k)"
proof
  assume k: "\<forall>c \<in> set cards. c mod 13 = k"
  have "set cards \<subseteq> (\<lambda>s. s * 13 + k) ` {0..<4}"
  proof
    fix c assume c: "c \<in> set cards"
    then have "c = (c div 13) * 13 + k" "c div 13 < 4" using assms(3) k div_mult_mod_eq [of c 13] by auto
    then show "c \<in> (\<lambda>s. s * 13 + k) ` {0..<4}" by auto
  qed
  then have "card (set cards) \<le> card ((\<lambda>s. s * 13 + k) ` {0..<4})" by (intro card_mono) auto
  also have "\<dots> \<le> 4" using card_image_le [of "{0::nat..<4}" "\<lambda>s. s * 13 + k"] by simp
  finally show False using assms(1,2) by (simp add: distinct_card)
qed

section \<open>Properties\<close>

text \<open>C33. The first number of the score of five cards of a deck is their category: straight flush, four of a kind, full house, flush,
straight, three of a kind, two pairs, a pair or nothing, by the number of cards of each rank.\<close>

theorem score_is_category:
  assumes "length cards = 5" "distinct cards" "\<forall>c \<in> set cards. c < 52"
  shows "hd (scoreFive cards) = category (ranks cards) (one_suit cards)"
proof -
  have len: "length (ranks cards) = 5" using assms(1) by (simp add: ranks_def)
  obtain a b c d e where r: "desc (ranks cards) = [a, b, c, d, e]" "a \<ge> b" "b \<ge> c" "c \<ge> d" "d \<ge> e" "set (ranks cards) = {a, b, c, d, e}"
    by (rule desc_five [OF len])
  have "a \<noteq> e"
  proof
    assume "a = e"
    then have "\<forall>x \<in> set (ranks cards). x = a" using r by auto
    then show False using not_five_of_a_kind [OF assms, of a] by (simp add: ranks_def)
  qed
  then have "hd (score_of [a, b, c, d, e] (one_suit cards)) = category [a, b, c, d, e] (one_suit cards)"
    by (intro category_sorted r)
  moreover have "cards \<noteq> []" using assms(1) by auto
  ultimately show ?thesis using category_desc [of "ranks cards"] r(1) by (simp add: scoreFive_score_of)
qed

theorem score_is_category_witness:
  "hd (scoreFive [0, 13, 26, 5, 18]) = category (ranks [0, 13, 26, 5, 18]) (one_suit [0, 13, 26, 5, 18])"
  by (rule score_is_category) simp_all

text \<open>C34. The best hand of seven cards is the score of five of them, and no five of them score more.\<close>

theorem best7_is_best:
  assumes "length cards = 7"
  shows "\<exists>m. best7 cards = Some m \<and> (\<exists>five \<in> set (subseqs cards). length five = 5 \<and> m = scoreFive five) \<and>
     (\<forall>five \<in> set (subseqs cards). length five = 5 \<longrightarrow> cmpScore (scoreFive five) m \<le> 0)"
proof -
  define hand where "hand places = map (\<lambda>i. cards ! i) places" for places
  have all: "{five \<in> set (subseqs cards). length five = 5} = hand ` set five_of_seven"
    using seven_choose_five [OF assms] by (simp add: hand_def)
  obtain m where m: "best7 cards = Some m" "m \<in> (\<lambda>places. scoreFive (hand places)) ` set five_of_seven"
    "\<forall>places \<in> set five_of_seven. cmpScore (scoreFive (hand places)) m \<le> 0"
    using best7_facts [of cards, folded hand_def] by blast
  obtain places where "places \<in> set five_of_seven" "m = scoreFive (hand places)" using m(2) by auto
  then have "hand places \<in> {five \<in> set (subseqs cards). length five = 5}" using all by simp
  moreover have "cmpScore (scoreFive five) m \<le> 0" if "five \<in> {five \<in> set (subseqs cards). length five = 5}" for five
    using that m(3) unfolding all by auto
  ultimately show ?thesis using m(1) \<open>m = scoreFive (hand places)\<close> by auto
qed

theorem best7_is_best_witness:
  "cmpScore (scoreFive [12, 25, 38, 51, 0]) (the (best7 [0, 12, 25, 38, 51, 1, 2])) \<le> 0"
proof -
  have sub: "[0, 12, 25, 38, 51] \<in> set (subseqs [0, 12, 25, 38, 51, 1, 2::nat])" by code_simp
  obtain m where "best7 [0, 12, 25, 38, 51, 1, 2] = Some m" "\<forall>five \<in> set (subseqs [0, 12, 25, 38, 51, 1, 2]). length five = 5 \<longrightarrow> cmpScore (scoreFive five) m \<le> 0"
    using best7_is_best [of "[0, 12, 25, 38, 51, 1, 2]"] by auto
  then have "cmpScore (scoreFive [0, 12, 25, 38, 51]) (the (best7 [0, 12, 25, 38, 51, 1, 2])) \<le> 0" using bspec [OF _ sub] by simp
  moreover have "scoreFive [12, 25, 38, 51, 0] = scoreFive [0, 12, 25, 38, 51]" by code_simp
  ultimately show ?thesis by simp
qed

end
