(* ===== verification/Poker_Bets.thy ===== *)
theory Poker_Bets
  imports Uno_Rules
begin

text \<open>
  Side pots and table settings of poker: \<open>assets/bundled-plugins/poker/betting.js\<close>. Contributions are an
  association list in the order of the keys of the code's object (peer ids do not look like array indices).
  \<open>clampInt\<close> is the same function as in the rules of UNO.
\<close>

section \<open>Side pots\<close>

record side_pot =
  sp_amount :: int
  sp_eligible :: "string list"

fun side_layers :: "(string \<times> int) list \<Rightarrow> int \<Rightarrow> int list \<Rightarrow> side_pot list" where
  "side_layers paid prev [] = []"
| "side_layers paid prev (cap # levels) =
     (let layer = cap - prev; elig = map fst (filter (\<lambda>c. cap \<le> snd c) paid)
      in \<lparr>sp_amount = layer * int (length elig), sp_eligible = elig\<rparr> # side_layers paid cap levels)"

definition buildSidePots :: "(string \<times> int) list \<Rightarrow> side_pot list" where
  "buildSidePots contrib =
     (let paid = filter (\<lambda>c. 0 < snd c) contrib
      in if paid = [] then [] else side_layers paid 0 (sort (remdups (map snd paid))))"

section \<open>Settings\<close>

record poker_settings =
  ps_tableName :: string
  ps_smallBlind :: int
  ps_bigBlind :: int
  ps_ante :: int
  ps_maxPlayers :: int
  ps_startingChips :: int
  ps_turnTimeSec :: int
  ps_minRaiseBB :: int
  ps_autoStart :: bool
  ps_lobbyAccess :: string

definition default_settings :: poker_settings where
  "default_settings = \<lparr>ps_tableName = ''Poker-Tisch'', ps_smallBlind = 10, ps_bigBlind = 20, ps_ante = 0, ps_maxPlayers = 6,
     ps_startingChips = 2000, ps_turnTimeSec = 0, ps_minRaiseBB = 1, ps_autoStart = False, ps_lobbyAccess = ''invite''\<rparr>"

definition table_name :: "jsv \<Rightarrow> string" where
  "table_name v = (let s = js_slice 48 (js_trim (js_String (js_orv v (Str ''Poker-Tisch'')))) in if s = [] then ''Poker-Tisch'' else s)"

definition sanitize_settings :: "jsv \<Rightarrow> poker_settings \<Rightarrow> int \<Rightarrow> poker_settings" where
  "sanitize_settings input fallback minSeats =
     (let small = clampInt (setting input ''smallBlind'' (JInt (ps_smallBlind fallback))) 1 1000000 (int_or (ps_smallBlind fallback) 10);
          big = clampInt (setting input ''bigBlind'' (JInt (ps_bigBlind fallback))) small 2000000 (max small (int_or (ps_bigBlind fallback) 20))
      in \<lparr>ps_tableName = table_name (setting input ''tableName'' (Str (ps_tableName fallback))),
          ps_smallBlind = small, ps_bigBlind = big,
          ps_ante = clampInt (setting input ''ante'' (JInt (ps_ante fallback))) 0 1000000 (ps_ante fallback),
          ps_maxPlayers = clampInt (setting input ''maxPlayers'' (JInt (ps_maxPlayers fallback))) (max 2 minSeats) 9 (max 6 minSeats),
          ps_startingChips = clampInt (setting input ''startingChips'' (JInt (ps_startingChips fallback))) (big * 2) 1000000000 (int_or (ps_startingChips fallback) 2000),
          ps_turnTimeSec = clampInt (setting input ''turnTimeSec'' (JInt (ps_turnTimeSec fallback))) 0 300 (ps_turnTimeSec fallback),
          ps_minRaiseBB = clampInt (setting input ''minRaiseBB'' (JInt (ps_minRaiseBB fallback))) 1 10 (int_or (ps_minRaiseBB fallback) 1),
          ps_autoStart = (setting input ''autoStart'' (Bool (ps_autoStart fallback)) = Bool True),
          ps_lobbyAccess = (if setting input ''lobbyAccess'' (Str (ps_lobbyAccess fallback)) = Str ''public'' then ''public'' else ''invite'')\<rparr>)"

section \<open>Facts\<close>

text \<open>Every layer takes from each contribution the part between its bounds.\<close>

lemma layers_cover:
  assumes "sorted (prev # levels)" "distinct (prev # levels)" "\<forall>c \<in> set paid. snd c \<le> prev \<or> snd c \<in> set levels"
  shows "sum_list (map sp_amount (side_layers paid prev levels)) = sum_list (map (\<lambda>c. max 0 (snd c - prev)) paid)"
  using assms
proof (induction levels arbitrary: prev)
  case Nil
  have "sum_list (map (\<lambda>c. max 0 (snd c - prev)) paid) = 0" if "\<forall>c \<in> set paid. snd c \<le> prev" for paid :: "(string \<times> int) list"
    using that by (induction paid) auto
  then show ?case using Nil.prems(3) by simp
next
  case (Cons cap levels)
  have cap: "prev < cap" using Cons.prems(1,2) by auto
  have "sum_list (map (\<lambda>c. max 0 (snd c - prev)) paid) = (cap - prev) * int (length (filter (\<lambda>c. cap \<le> snd c) paid)) + sum_list (map (\<lambda>c. max 0 (snd c - cap)) paid)"
    using Cons.prems(3)
  proof (induction paid)
    case (Cons c paid)
    have "snd c \<le> prev \<or> cap \<le> snd c" using Cons.prems \<open>sorted (prev # cap # levels)\<close> by auto
    then show ?case using Cons cap by (auto simp: algebra_simps)
  qed simp
  moreover have "\<forall>c \<in> set paid. snd c \<le> cap \<or> snd c \<in> set levels" using Cons.prems(3) cap by auto
  ultimately show ?case using Cons.IH [of cap] Cons.prems by (simp add: Let_def)
qed

lemma side_pots_sum: "sum_list (map sp_amount (buildSidePots contrib)) = sum_list (map (\<lambda>c. max 0 (snd c)) contrib)"
proof -
  define paid where "paid = filter (\<lambda>c. 0 < snd c) contrib"
  have "sum_list (map (\<lambda>c. max 0 (snd c)) contrib) = sum_list (map (\<lambda>c. max 0 (snd c)) paid)"
    unfolding paid_def by (induction contrib) auto
  moreover have "sum_list (map sp_amount (side_layers paid 0 (sort (remdups (map snd paid))))) = sum_list (map (\<lambda>c. max 0 (snd c - 0)) paid)"
    by (intro layers_cover) (auto simp: paid_def)
  ultimately show ?thesis by (auto simp: buildSidePots_def paid_def [symmetric] Let_def)
qed

lemma layers_amounts:
  assumes "sorted (prev # levels)" "pot \<in> set (side_layers paid prev levels)"
  shows "0 \<le> sp_amount pot \<and> set (sp_eligible pot) \<subseteq> fst ` set paid \<and> (distinct (map fst paid) \<longrightarrow> distinct (sp_eligible pot))"
  using assms by (induction levels arbitrary: prev) (auto simp: Let_def distinct_map_filter)

lemma side_pots_ids:
  assumes "pot \<in> set (buildSidePots contrib)"
  shows "0 \<le> sp_amount pot \<and> set (sp_eligible pot) \<subseteq> fst ` set contrib \<and> (distinct (map fst contrib) \<longrightarrow> distinct (sp_eligible pot))"
proof -
  define paid where "paid = filter (\<lambda>c. 0 < snd c) contrib"
  have "sorted (0 # sort (remdups (map snd paid)))" by (auto simp: paid_def)
  moreover have "pot \<in> set (side_layers paid 0 (sort (remdups (map snd paid))))"
    using assms by (simp add: buildSidePots_def paid_def [symmetric] Let_def split: if_splits)
  ultimately have "0 \<le> sp_amount pot \<and> set (sp_eligible pot) \<subseteq> fst ` set paid \<and> (distinct (map fst paid) \<longrightarrow> distinct (sp_eligible pot))"
    by (rule layers_amounts)
  moreover have "fst ` set paid \<subseteq> fst ` set contrib" "distinct (map fst contrib) \<longrightarrow> distinct (map fst paid)"
    by (auto simp: paid_def distinct_map_filter)
  ultimately show ?thesis by blast
qed

text \<open>A player who has put in \<open>c\<close> is eligible for the layers up to \<open>c\<close>.\<close>

lemma layers_reach:
  assumes "sorted (prev # levels)" "distinct (prev # levels)" "\<forall>d \<in> set paid. snd d \<le> prev \<or> snd d \<in> set levels" "distinct (map fst paid)" "(i, c) \<in> set paid"
  shows "sum_list (map sp_amount (filter (\<lambda>pot. i \<in> set (sp_eligible pot)) (side_layers paid prev levels))) = sum_list (map (\<lambda>d. max 0 (min c (snd d) - prev)) paid)"
  using assms(1-3)
proof (induction levels arbitrary: prev)
  case Nil
  have "sum_list (map (\<lambda>d. max 0 (min c (snd d) - prev)) paid) = 0" if "\<forall>d \<in> set paid. snd d \<le> prev" for paid :: "(string \<times> int) list"
    using that by (induction paid) auto
  then show ?case using Nil.prems(3) by simp
next
  case (Cons cap levels)
  have cap: "prev < cap" using Cons.prems(1,2) by auto
  have elig: "i \<in> fst ` {d \<in> set paid. cap \<le> snd d} \<longleftrightarrow> cap \<le> c" using assms(4,5) by (force simp: distinct_map inj_on_def)
  have "\<forall>d \<in> set paid. snd d \<le> cap \<or> snd d \<in> set levels" using Cons.prems(3) cap by auto
  then have IH: "sum_list (map sp_amount (filter (\<lambda>pot. i \<in> set (sp_eligible pot)) (side_layers paid cap levels))) = sum_list (map (\<lambda>d. max 0 (min c (snd d) - cap)) paid)"
    using Cons.IH [of cap] Cons.prems(1,2) by simp
  have gap: "\<forall>d \<in> set paid. snd d \<le> prev \<or> cap \<le> snd d" using Cons.prems(1,3) by auto
  then have gap_c: "c \<le> prev \<or> cap \<le> c" using assms(5) by auto
  have "sum_list (map (\<lambda>d. max 0 (min c (snd d) - prev)) ds) =
      (if cap \<le> c then (cap - prev) * int (length (filter (\<lambda>d. cap \<le> snd d) ds)) else 0) + sum_list (map (\<lambda>d. max 0 (min c (snd d) - cap)) ds)"
    if "\<forall>d \<in> set ds. snd d \<le> prev \<or> cap \<le> snd d" for ds :: "(string \<times> int) list"
    using that gap_c cap by (induction ds) (auto simp: algebra_simps min_def)
  from this [OF gap] show ?case using elig IH by (auto simp: Let_def)
qed

text \<open>C32. The side pots hold together what was paid in, and a player who has put in \<open>c\<close> can win from everyone at most \<open>c\<close>: the pots he is eligible
  for are the sum over all players of what they have put in, up to \<open>c\<close>.\<close>

theorem side_pots_match_stakes:
  assumes "distinct (map fst contrib)" "(i, c) \<in> set contrib"
  shows "sum_list (map sp_amount (buildSidePots contrib)) = sum_list (map (\<lambda>d. max 0 (snd d)) contrib) \<and>
    sum_list (map sp_amount (filter (\<lambda>pot. i \<in> set (sp_eligible pot)) (buildSidePots contrib))) = sum_list (map (\<lambda>d. max 0 (min c (snd d))) contrib)"
proof -
  define paid where "paid = filter (\<lambda>d. 0 < snd d) contrib"
  have dist: "distinct (map fst paid)" using assms(1) by (simp add: paid_def distinct_map_filter)
  have drop: "sum_list (map (\<lambda>d. max 0 (min c (snd d))) contrib) = sum_list (map (\<lambda>d. max 0 (min c (snd d) - 0)) paid)"
    unfolding paid_def by (induction contrib) auto
  have "sum_list (map sp_amount (filter (\<lambda>pot. i \<in> set (sp_eligible pot)) (buildSidePots contrib))) = sum_list (map (\<lambda>d. max 0 (min c (snd d) - 0)) paid)"
  proof (cases "0 < c")
    case True
    then have mem: "(i, c) \<in> set paid" using assms(2) by (simp add: paid_def)
    have "sum_list (map sp_amount (filter (\<lambda>pot. i \<in> set (sp_eligible pot)) (side_layers paid 0 (sort (remdups (map snd paid)))))) = sum_list (map (\<lambda>d. max 0 (min c (snd d) - 0)) paid)"
      by (rule layers_reach [OF _ _ _ dist mem]) (auto simp: paid_def)
    then show ?thesis by (auto simp: buildSidePots_def paid_def [symmetric] Let_def)
  next
    case False
    have "i \<notin> fst ` set paid" using False assms by (force simp: paid_def distinct_map inj_on_def)
    moreover have "set (sp_eligible pot) \<subseteq> fst ` set paid" if "pot \<in> set (buildSidePots contrib)" for pot
      using that layers_amounts [of 0 "sort (remdups (map snd paid))" pot paid]
      by (auto simp: buildSidePots_def paid_def [symmetric] Let_def split: if_splits) (auto simp: paid_def)
    ultimately have none: "filter (\<lambda>pot. i \<in> set (sp_eligible pot)) (buildSidePots contrib) = []" by (auto simp: filter_empty_conv)
    have "sum_list (map (\<lambda>d. max 0 (min c (snd d) - 0)) ds) = 0" for ds :: "(string \<times> int) list" using False by (induction ds) auto
    then show ?thesis using none by simp
  qed
  then show ?thesis using side_pots_sum drop by simp
qed

end
