(* ===== verification/Poker_Game.thy ===== *)
theory Poker_Game
  imports Poker_Hand Poker_Bets "HOL-Library.AList"
begin

text \<open>
  The host of a poker table, \<open>assets/bundled-plugins/poker/engine.js\<close>: the state that \<open>createHost\<close> closes over and
  each of its functions. The host's id and name, the id of the table, the random numbers of the shuffles, the connected
  peers and the blocked contacts are arguments. A timer that runs out and the debug bot act through \<open>applyAction\<close> and
  \<open>startHand\<close>. The result \<open>None\<close> stands for a step after which the code's chips are no longer numbers: a raise by
  \<open>NaN\<close>. What the host shows, sends and saves, and the bookkeeping of
  timers, are not modelled.
\<close>

section \<open>State\<close>

datatype pk_street = StIdle | StPreflop | StFlop | StTurn | StRiver | StShowdown

text \<open>While a hand is played the phase is the street.\<close>

datatype pk_phase = PkLobby | PkBetween | PkStreet pk_street

record pk_player =
  pp_peerId :: string
  pp_name :: jsv
  pp_seat :: int
  pp_chips :: int
  pp_folded :: bool
  pp_allIn :: bool
  pp_currentRoundBet :: int
  pp_totalBet :: int
  pp_hole :: "nat list"
  pp_inHand :: bool
  pp_isBot :: bool
  pp_connected :: bool
  pp_pendingChips :: int
  pp_handsPlayed :: int
  pp_handsWon :: int
  pp_chipsGranted :: int

record poker =
  pg_cfg :: poker_settings
  pg_players :: "pk_player list"
  pg_phase :: pk_phase
  pg_dealerIdx :: int
  pg_deck :: "nat list"
  pg_board :: "nat list"
  pg_pot :: int
  pg_currentBet :: int
  pg_minRaise :: int
  pg_street :: pk_street
  pg_toActIdx :: int
  pg_acted :: "string list"
  pg_lastRaise :: int
  pg_handNumber :: int
  pg_winners :: "(string \<times> int \<times> string) list"
  pg_invitedPeers :: "string list"
  pg_shuffles :: nat

record poker_env =
  pe_selfId :: string
  pe_selfName :: jsv
  pe_tableId :: string
  pe_random :: "nat \<Rightarrow> nat \<Rightarrow> nat"
  pe_connected :: "string list"
  pe_blocked :: "string list"

definition POKER_BOT_PEER_ID :: string where
  "POKER_BOT_PEER_ID = ''__bt_poker_bot_debug__''"

definition isPokerBotId :: "string \<Rightarrow> bool" where
  "isPokerBotId i = (i = POKER_BOT_PEER_ID)"

definition isPokerLobbyJoinable :: "pk_phase \<Rightarrow> bool" where
  "isPokerLobbyJoinable ph = (ph = PkLobby \<or> ph = PkBetween)"

section \<open>Players\<close>

definition pk_find :: "poker \<Rightarrow> string \<Rightarrow> nat option" where
  "pk_find g peerId = findIndex (\<lambda>p. pp_peerId p = peerId) (pg_players g)"

definition pk_at :: "poker \<Rightarrow> int \<Rightarrow> pk_player option" where
  "pk_at g i = (if 0 \<le> i \<and> i < int (length (pg_players g)) then Some (pg_players g ! nat i) else None)"

definition pk_set :: "nat \<Rightarrow> (pk_player \<Rightarrow> pk_player) \<Rightarrow> poker \<Rightarrow> poker" where
  "pk_set i f g = g\<lparr>pg_players := (pg_players g)[i := f (pg_players g ! i)]\<rparr>"

definition pk_all :: "(pk_player \<Rightarrow> pk_player) \<Rightarrow> poker \<Rightarrow> poker" where
  "pk_all f g = g\<lparr>pg_players := map f (pg_players g)\<rparr>"

definition in_play :: "pk_player \<Rightarrow> bool" where
  "in_play p = (pp_inHand p \<and> \<not> pp_folded p)"

definition can_act :: "pk_player \<Rightarrow> bool" where
  "can_act p = (pp_inHand p \<and> \<not> pp_folded p \<and> \<not> pp_allIn p)"

definition activeInHand :: "poker \<Rightarrow> pk_player list" where
  "activeInHand g = filter in_play (pg_players g)"

definition add_acted :: "string \<Rightarrow> poker \<Rightarrow> poker" where
  "add_acted peerId g = g\<lparr>pg_acted := push_new peerId (pg_acted g)\<rparr>"

definition nextLiveSeat :: "poker \<Rightarrow> int \<Rightarrow> int" where
  "nextLiveSeat g from =
     (let n = length (pg_players g); seat = (\<lambda>k. js_mod (from + int k) (int n))
      in case List.find (\<lambda>k. can_act (pg_players g ! nat (seat k))) [1..<Suc n] of
           None \<Rightarrow> - 1 | Some k \<Rightarrow> seat k)"

definition acts_at :: "poker \<Rightarrow> int \<Rightarrow> bool" where
  "acts_at g i = (case pk_at g i of None \<Rightarrow> False | Some p \<Rightarrow> can_act p)"

text \<open>The loops with a guard that look for a player who can act: the one that stops when the search is stuck, and the other.\<close>

fun seek_turn :: "nat \<Rightarrow> poker \<Rightarrow> int \<Rightarrow> int" where
  "seek_turn 0 g i = i"
| "seek_turn (Suc k) g i =
     (if acts_at g i then i
      else let nx = nextLiveSeat g i in if nx < 0 \<or> nx = i then i else seek_turn k g nx)"

fun seek_next :: "nat \<Rightarrow> poker \<Rightarrow> int \<Rightarrow> int" where
  "seek_next 0 g i = i"
| "seek_next (Suc k) g i = (if acts_at g i then i else seek_next k g (nextLiveSeat g i))"

definition pass_turn :: "poker \<Rightarrow> poker" where
  "pass_turn g = g\<lparr>pg_toActIdx := seek_next (length (pg_players g) + 2) g (nextLiveSeat g (pg_toActIdx g))\<rparr>"

section \<open>Streets\<close>

text \<open>\<open>Math.max\<close> of the bets of this round; there is always a player in the hand where the code asks for it.\<close>

definition max_of :: "int list \<Rightarrow> int" where
  "max_of xs = (case xs of [] \<Rightarrow> 0 | x # ys \<Rightarrow> foldl max x ys)"

definition maxBet :: "poker \<Rightarrow> int" where
  "maxBet g = max_of (map pp_currentRoundBet (activeInHand g))"

definition bettingComplete :: "poker \<Rightarrow> bool" where
  "bettingComplete g =
     (let live = filter (\<lambda>p. \<not> pp_allIn p) (activeInHand g)
      in if live = [] then True
         else list_all (\<lambda>p. pp_currentRoundBet p = maxBet g) live \<and> list_all (\<lambda>p. pp_peerId p \<in> set (pg_acted g)) live)"

definition new_round :: "poker \<Rightarrow> poker" where
  "new_round g = (pk_all (\<lambda>p. if pp_inHand p then p\<lparr>pp_currentRoundBet := 0\<rparr> else p) g)\<lparr>pg_currentBet := 0\<rparr>"

text \<open>One card is burnt and \<open>k\<close> cards are laid open.\<close>

definition open_cards :: "nat \<Rightarrow> poker \<Rightarrow> poker" where
  "open_cards k g =
     (let d = butlast (pg_deck g)
      in g\<lparr>pg_deck := take (length d - k) d, pg_board := pg_board g @ take k (rev d)\<rparr>)"

definition next_street :: "pk_street \<Rightarrow> (pk_street \<times> nat) option" where
  "next_street s = (case s of StPreflop \<Rightarrow> Some (StFlop, 3) | StFlop \<Rightarrow> Some (StTurn, 1) | StTurn \<Rightarrow> Some (StRiver, 1) | _ \<Rightarrow> None)"

function runoutBoard :: "poker \<Rightarrow> poker" where
  "runoutBoard g =
     (if pg_street g = StRiver then g
      else case next_street (pg_street g) of
        None \<Rightarrow> new_round g
      | Some (s, k) \<Rightarrow> runoutBoard ((open_cards k ((new_round g)\<lparr>pg_street := s\<rparr>))\<lparr>pg_phase := PkStreet s\<rparr>))"
  by auto

termination
  by (relation "measure (\<lambda>g. case pg_street g of StPreflop \<Rightarrow> 3 | StFlop \<Rightarrow> 2 | StTurn \<Rightarrow> 1 | _ \<Rightarrow> 0)")
    (auto simp: next_street_def open_cards_def Let_def split: pk_street.splits)

declare runoutBoard.simps [simp del]

definition advanceStreet :: "poker \<Rightarrow> poker" where
  "advanceStreet g =
     (let raise = ps_bigBlind (pg_cfg g) * ps_minRaiseBB (pg_cfg g);
          g1 = (new_round g)\<lparr>pg_minRaise := raise, pg_lastRaise := raise, pg_acted := []\<rparr>;
          g2 = (case next_street (pg_street g1) of None \<Rightarrow> g1 | Some (s, k) \<Rightarrow> open_cards k (g1\<lparr>pg_street := s\<rparr>));
          n = length (pg_players g2);
          first = (if length (filter pp_inHand (pg_players g2)) \<le> 2 then js_mod (pg_dealerIdx g2) (int n) else nextLiveSeat g2 (pg_dealerIdx g2))
      in g2\<lparr>pg_toActIdx := seek_turn (n + 3) g2 first, pg_phase := PkStreet (pg_street g2)\<rparr>)"

section \<open>The end of a hand\<close>

text \<open>Chips for each peer in turn, and one more as long as the remainder lasts.\<close>

fun pay_each :: "string list \<Rightarrow> int \<Rightarrow> int \<Rightarrow> poker \<Rightarrow> poker" where
  "pay_each [] share remainder g = g"
| "pay_each (i # is) share remainder g =
     (case pk_find g i of
        None \<Rightarrow> pay_each is share remainder g
      | Some k \<Rightarrow> pay_each is share (max 0 (remainder - 1)) (pk_set k (\<lambda>p. p\<lparr>pp_chips := pp_chips p + (share + (if remainder > 0 then 1 else 0))\<rparr>) g))"

fun paid_each :: "string list \<Rightarrow> int \<Rightarrow> int \<Rightarrow> string \<Rightarrow> (string \<times> int \<times> string) list" where
  "paid_each [] share remainder hand = []"
| "paid_each (i # is) share remainder hand =
     (i, share + (if remainder > 0 then 1 else 0), hand) # paid_each is share (max 0 (remainder - 1)) hand"

definition contributions :: "poker \<Rightarrow> (string \<times> int) list" where
  "contributions g = fold (\<lambda>p. if pp_inHand p then AList.update (pp_peerId p) (pp_totalBet p) else id) (pg_players g) []"

definition player_of :: "poker \<Rightarrow> string \<Rightarrow> pk_player option" where
  "player_of g i = map_option (\<lambda>k. pg_players g ! k) (pk_find g i)"

definition still_in :: "poker \<Rightarrow> string \<Rightarrow> bool" where
  "still_in g i = (case player_of g i of None \<Rightarrow> False | Some p \<Rightarrow> in_play p)"

definition hand_score :: "poker \<Rightarrow> string \<Rightarrow> nat list option" where
  "hand_score g i =
     (case player_of g i of
        None \<Rightarrow> None
      | Some p \<Rightarrow> let cards = pp_hole p @ pg_board g in if length cards = 7 then best7 cards else None)"

text \<open>
  Everybody in the hand has two cards, and at a showdown the board has five or, when the blinds have put everyone all in, none. Without a
  board the five cards that are scored are mostly \<open>undefined\<close>: the best score of two cards is four of a kind of rank \<open>NaN\<close>, here \<open>None\<close>.
  Comparing two such scores gives \<open>NaN\<close>, which is neither above zero nor zero.
\<close>

definition compare_scores :: "nat list option \<Rightarrow> nat list option \<Rightarrow> int option" where
  "compare_scores a b = (case (a, b) of (Some x, Some y) \<Rightarrow> Some (cmpScore x y) | _ \<Rightarrow> None)"

definition label_of :: "nat list option \<Rightarrow> string" where
  "label_of score = (case score of None \<Rightarrow> ''Vierling'' | Some s \<Rightarrow> handLabel s)"

text \<open>The best score so far, if there is one, and who has it.\<close>

fun best_hands :: "poker \<Rightarrow> string list \<Rightarrow> nat list option option \<times> string list \<Rightarrow> nat list option option \<times> string list" where
  "best_hands g [] acc = acc"
| "best_hands g (i # is) acc =
     (let sc = hand_score g i
      in best_hands g is (case (case fst acc of None \<Rightarrow> Some 1 | Some best \<Rightarrow> compare_scores sc best) of
           None \<Rightarrow> acc
         | Some cmp \<Rightarrow> if cmp > 0 then (Some sc, [i]) else if cmp = 0 then (fst acc, snd acc @ [i]) else acc))"

text \<open>One pot: back to those who paid when they all folded, to the best hands otherwise.\<close>

definition pay_pot :: "side_pot \<Rightarrow> poker \<Rightarrow> (string \<times> int \<times> string) list \<times> poker" where
  "pay_pot pot g =
     (let elig = filter (still_in g) (sp_eligible pot)
      in if elig = [] then
           (let k = int (length (sp_eligible pot)); share = sp_amount pot div k
            in ([], if sp_eligible pot = [] then g else pay_each (sp_eligible pot) share (sp_amount pot - share * k) g))
         else
           (let (best, winners) = best_hands g elig (None, []);
                k = int (length winners); share = sp_amount pot div k; remainder = sp_amount pot - share * k
            in (paid_each winners share remainder (case best of None \<Rightarrow> [] | Some s \<Rightarrow> label_of s), pay_each winners share remainder g)))"

fun pay_pots :: "side_pot list \<Rightarrow> poker \<Rightarrow> (string \<times> int \<times> string) list \<times> poker" where
  "pay_pots [] g = ([], g)"
| "pay_pots (pot # pots) g =
     (let (results, g1) = pay_pot pot g; (rest, g2) = pay_pots pots g1 in (results @ rest, g2))"

definition aggregate :: "(string \<times> int \<times> string) list \<Rightarrow> (string \<times> int \<times> string) list" where
  "aggregate results =
     fold (\<lambda>(i, amount, hand) m. AList.update i (case map_of m i of None \<Rightarrow> (amount, hand) | Some (a, h) \<Rightarrow> (a + amount, h)) m) results []"

definition count_win :: "string \<Rightarrow> poker \<Rightarrow> poker" where
  "count_win i g = (case pk_find g i of None \<Rightarrow> g | Some k \<Rightarrow> pk_set k (\<lambda>p. p\<lparr>pp_handsWon := pp_handsWon p + 1\<rparr>) g)"

definition hand_over :: "poker \<Rightarrow> poker" where
  "hand_over g = g\<lparr>pg_phase := PkBetween, pg_street := StIdle, pg_toActIdx := - 1\<rparr>"

definition showdown :: "poker \<Rightarrow> poker" where
  "showdown g =
     (let (results, g1) = pay_pots (buildSidePots (contributions g)) (g\<lparr>pg_phase := PkStreet StShowdown, pg_street := StShowdown\<rparr>);
          winners = aggregate results
      in hand_over (fold (count_win \<circ> fst) winners (g1\<lparr>pg_winners := winners\<rparr>)))"

definition awardUncontested :: "poker \<Rightarrow> bool \<times> poker" where
  "awardUncontested g =
     (case activeInHand g of
        [w] \<Rightarrow>
          (case pk_find g (pp_peerId w) of
             None \<Rightarrow> (False, g)
           | Some k \<Rightarrow> (True, hand_over ((pk_set k (\<lambda>p. p\<lparr>pp_chips := pp_chips p + pg_pot g, pp_handsWon := pp_handsWon p + 1\<rparr>) g)
               \<lparr>pg_winners := [(pp_peerId w, pg_pot g, ''Gewinn (alle anderen gefoldet)'')]\<rparr>)))
      | _ \<Rightarrow> (False, g))"

section \<open>The start of a hand\<close>

definition is_ready :: "pk_player \<Rightarrow> bool" where
  "is_ready p = (pp_chips p > 0 \<and> (pp_connected p \<or> pp_isBot p))"

definition grant_pending :: "pk_player \<Rightarrow> pk_player" where
  "grant_pending p = (if pp_pendingChips p > 0 then p\<lparr>pp_chips := min 1000000000 (pp_chips p + pp_pendingChips p), pp_pendingChips := 0\<rparr> else p)"

definition new_hand :: "pk_player \<Rightarrow> pk_player" where
  "new_hand p = p\<lparr>pp_folded := pp_chips p \<le> 0, pp_allIn := False, pp_currentRoundBet := 0, pp_totalBet := 0, pp_hole := [],
     pp_inHand := is_ready p, pp_handsPlayed := pp_handsPlayed p + (if is_ready p then 1 else 0)\<rparr>"

definition nextInHandIndex :: "poker \<Rightarrow> int \<Rightarrow> int" where
  "nextInHandIndex g from =
     (let n = length (pg_players g); index = (\<lambda>k. js_mod (from + int k + int n) (int n))
      in case List.find (\<lambda>k. pp_inHand (pg_players g ! nat (index k))) [1..<Suc n] of None \<Rightarrow> - 1 | Some k \<Rightarrow> index k)"

definition pay_ante :: "int \<Rightarrow> pk_player \<Rightarrow> pk_player" where
  "pay_ante ante p =
     (if \<not> pp_inHand p then p
      else let a = min ante (pp_chips p)
           in p\<lparr>pp_chips := pp_chips p - a, pp_totalBet := pp_totalBet p + a, pp_allIn := pp_allIn p \<or> pp_chips p - a = 0\<rparr>)"

definition antes :: "poker \<Rightarrow> poker" where
  "antes g =
     (let ante = max 0 (ps_ante (pg_cfg g))
      in if ante > 0
         then (pk_all (pay_ante ante) g)\<lparr>pg_pot := pg_pot g + sum_list (map (\<lambda>p. if pp_inHand p then min ante (pp_chips p) else 0) (pg_players g))\<rparr>
         else g)"

text \<open>Chips that a player puts into the pot: the blinds, a call, a raise, all in.\<close>

definition put_in :: "nat \<Rightarrow> int \<Rightarrow> poker \<Rightarrow> poker" where
  "put_in i pay g =
     (pk_set i (\<lambda>p. p\<lparr>pp_chips := pp_chips p - pay, pp_currentRoundBet := pp_currentRoundBet p + pay, pp_totalBet := pp_totalBet p + pay,
         pp_allIn := pp_allIn p \<or> pp_chips p - pay = 0\<rparr>) g)\<lparr>pg_pot := pg_pot g + pay\<rparr>"

definition post_blind :: "int \<Rightarrow> int \<Rightarrow> poker \<Rightarrow> poker" where
  "post_blind i blind g = put_in (nat i) (min blind (pp_chips (pg_players g ! nat i))) g"

fun deal_holes :: "pk_player list \<Rightarrow> nat list \<Rightarrow> pk_player list \<times> nat list" where
  "deal_holes [] deck = ([], deck)"
| "deal_holes (p # ps) deck =
     (if pp_inHand p
      then let (qs, d) = deal_holes ps (butlast (butlast deck)) in (p\<lparr>pp_hole := [last deck, last (butlast deck)]\<rparr> # qs, d)
      else let (qs, d) = deal_holes ps deck in (p # qs, d))"

text \<open>The table of a new hand: the players who are ready are in it, the deck is shuffled and the button moves on.\<close>

definition fresh_hand :: "poker_env \<Rightarrow> poker \<Rightarrow> poker" where
  "fresh_hand env g =
     (let raise = ps_bigBlind (pg_cfg g) * ps_minRaiseBB (pg_cfg g);
          g2 = pk_all new_hand (g\<lparr>pg_handNumber := pg_handNumber g + 1, pg_deck := shuffle_deck (pe_random env (pg_shuffles g)) makeDeck,
            pg_shuffles := Suc (pg_shuffles g), pg_board := [], pg_pot := 0, pg_currentBet := 0, pg_minRaise := raise, pg_lastRaise := raise, pg_acted := []\<rparr>)
      in g2\<lparr>pg_dealerIdx := nextInHandIndex g2 (pg_dealerIdx g2)\<rparr>)"

text \<open>Blinds, cards and the first player to act, with \<open>n\<close> players in the hand.\<close>

definition open_hand :: "nat \<Rightarrow> poker \<Rightarrow> poker" where
  "open_hand n g3 =
     (let d = pg_dealerIdx g3;
          sbIdx = (if n = 2 then d else nextInHandIndex g3 d);
          bbIdx = nextInHandIndex g3 sbIdx;
          g4 = post_blind bbIdx (ps_bigBlind (pg_cfg g3)) (post_blind sbIdx (ps_smallBlind (pg_cfg g3)) g3);
          (ps, deck) = deal_holes (pg_players g4) (pg_deck g4);
          g5 = g4\<lparr>pg_currentBet := max (pp_currentRoundBet (pg_players g4 ! nat sbIdx)) (pp_currentRoundBet (pg_players g4 ! nat bbIdx)),
            pg_players := ps, pg_deck := deck, pg_phase := PkStreet StPreflop, pg_street := StPreflop\<rparr>
      in g5\<lparr>pg_toActIdx := seek_turn (n + 3) g5 (if n = 2 then d else nextLiveSeat g5 bbIdx)\<rparr>)"

definition startHand :: "poker_env \<Rightarrow> poker \<Rightarrow> bool \<times> poker" where
  "startHand env g =
     (if pg_phase g \<noteq> PkLobby \<and> pg_phase g \<noteq> PkBetween then (False, g)
      else let g1 = pk_all grant_pending (g\<lparr>pg_winners := []\<rparr>); n = length (filter is_ready (pg_players g1))
        in if n < 2 then (False, g1)
           else let g6 = open_hand n (antes (fresh_hand env g1))
                in if (case pk_at g6 (pg_toActIdx g6) of None \<Rightarrow> True | Some p \<Rightarrow> pp_allIn p) then (False, showdown g6)
                   else (True, g6))"

section \<open>Actions\<close>

text \<open>The amount a raise asks for, \<open>Number(act.raiseTo) || (maxBet + Number(act.amount || 0))\<close>, rounded: \<open>None\<close> is \<open>NaN\<close>. An amount that is
infinite is limited by the chips of the player like any other.\<close>

definition requested_target :: "int \<Rightarrow> jsv \<Rightarrow> jsnum" where
  "requested_target high act =
     (let direct = js_Number (get act ''raiseTo'')
      in if js_Boolean (Num direct) then direct
         else case js_Number (js_orv (get act ''amount'') (JInt 0)) of Fin r \<Rightarrow> Fin (of_int high + r) | n \<Rightarrow> n)"

definition raise_target :: "int \<Rightarrow> int \<Rightarrow> jsnum \<Rightarrow> int option" where
  "raise_target playerMax minimum requested =
     (case requested of
        NaN \<Rightarrow> None
      | PosInf \<Rightarrow> Some playerMax
      | NegInf \<Rightarrow> Some (min playerMax minimum)
      | Fin r \<Rightarrow> Some (min playerMax (max minimum (js_round_int r))))"

text \<open>After a raise or all in: a full raise sets the size of the next one and everyone has to act again.\<close>

definition raised :: "nat \<Rightarrow> string \<Rightarrow> int \<Rightarrow> poker \<Rightarrow> poker" where
  "raised i peerId high g =
     (let bet = pp_currentRoundBet (pg_players g ! i); raiseSize = bet - high; g1 = g\<lparr>pg_currentBet := max (pg_currentBet g) bet\<rparr>
      in if pg_minRaise g1 \<le> raiseSize
         then g1\<lparr>pg_lastRaise := raiseSize, pg_minRaise := max (ps_bigBlind (pg_cfg g1) * ps_minRaiseBB (pg_cfg g1)) raiseSize, pg_acted := [peerId]\<rparr>
         else add_acted peerId g1)"

datatype action_result = Ignored | Broken | Acted poker

definition take_action :: "nat \<Rightarrow> string \<Rightarrow> jsv \<Rightarrow> poker \<Rightarrow> action_result" where
  "take_action i peerId act g =
     (let p = pg_players g ! i; high = maxBet g; toCall = high - pp_currentRoundBet p
      in if get act ''type'' = Str ''fold'' then Acted (add_acted peerId (pk_set i (\<lambda>p. p\<lparr>pp_folded := True\<rparr>) g))
         else if get act ''type'' = Str ''check'' then (if toCall \<noteq> 0 then Ignored else Acted (add_acted peerId g))
         else if get act ''type'' = Str ''call'' then Acted (add_acted peerId (put_in i (min toCall (pp_chips p)) g))
         else if get act ''type'' = Str ''raise'' then
           (if pp_currentRoundBet p + pp_chips p \<le> high then Ignored
            else case raise_target (pp_currentRoundBet p + pp_chips p) (high + pg_minRaise g) (requested_target high act) of
              None \<Rightarrow> Broken
            | Some target \<Rightarrow> Acted (raised i peerId high (put_in i (min (target - pp_currentRoundBet p) (pp_chips p)) g)))
         else if get act ''type'' = Str ''all_in'' then
           Acted (raised i peerId high (pk_set i (\<lambda>p. p\<lparr>pp_allIn := True\<rparr>) (put_in i (pp_chips p) g)))
         else Acted g)"

definition after_action :: "poker \<Rightarrow> poker" where
  "after_action g =
     (let (awarded, g1) = awardUncontested g
      in if awarded then g1
         else if bettingComplete g1 then
           (let anyLive = list_ex (\<lambda>p. \<not> pp_allIn p) (activeInHand g1);
                g2 = (if \<not> anyLive \<and> pg_street g1 \<noteq> StRiver then runoutBoard g1 else g1)
            in if \<not> anyLive \<or> pg_street g2 = StRiver then showdown g2 else advanceStreet g2)
         else pass_turn g1)"

definition apply_action :: "string \<Rightarrow> jsv \<Rightarrow> poker \<Rightarrow> poker option" where
  "apply_action peerId act g =
     (case pk_at g (pg_toActIdx g) of
        None \<Rightarrow> Some g
      | Some p \<Rightarrow>
          if pp_peerId p \<noteq> peerId \<or> \<not> can_act p then Some g
          else case take_action (nat (pg_toActIdx g)) peerId act g of
            Ignored \<Rightarrow> Some g
          | Broken \<Rightarrow> None
          | Acted h \<Rightarrow> Some (after_action h))"

section \<open>Joining and leaving\<close>

definition find_seat :: "poker \<Rightarrow> int" where
  "find_seat g =
     (case List.find (\<lambda>s. s \<notin> set (map pp_seat (pg_players g))) (map int [0..<nat (ps_maxPlayers (pg_cfg g))]) of None \<Rightarrow> - 1 | Some s \<Rightarrow> s)"

definition add_player :: "string \<Rightarrow> jsv \<Rightarrow> poker \<Rightarrow> bool \<times> poker" where
  "add_player peerId name g =
     (case pk_find g peerId of
        Some i \<Rightarrow> (True, pk_set i (\<lambda>p. p\<lparr>pp_connected := True, pp_name := Str (js_slice 48 (js_String (js_orv (js_orv name (pp_name p)) (Str peerId))))\<rparr>) g)
      | None \<Rightarrow>
          if ps_maxPlayers (pg_cfg g) \<le> int (length (pg_players g)) then (False, g)
          else let seat = find_seat g
               in if seat < 0 then (False, g)
                  else (True, g\<lparr>pg_players := sort_key pp_seat (pg_players g @
                    [\<lparr>pp_peerId = peerId, pp_name = js_orv name (Str (js_slice 8 peerId)), pp_seat = seat, pp_chips = ps_startingChips (pg_cfg g), pp_folded = False,
                      pp_allIn = False, pp_currentRoundBet = 0, pp_totalBet = 0, pp_hole = [], pp_inHand = False, pp_isBot = isPokerBotId peerId, pp_connected = True,
                      pp_pendingChips = 0, pp_handsPlayed = 0, pp_handsWon = 0, pp_chipsGranted = 0\<rparr>])\<rparr>))"

definition in_hand_phase :: "poker \<Rightarrow> bool" where
  "in_hand_phase g = (pg_phase g \<noteq> PkLobby \<and> pg_phase g \<noteq> PkBetween)"

definition back_to_lobby :: "poker \<Rightarrow> poker" where
  "back_to_lobby g = (if pg_players g = [] then g\<lparr>pg_phase := PkLobby, pg_street := StIdle\<rparr> else g)"

definition cut_player :: "nat \<Rightarrow> poker \<Rightarrow> poker" where
  "cut_player i g = g\<lparr>pg_players := take i (pg_players g) @ drop (Suc i) (pg_players g)\<rparr>"

definition remove_player :: "string \<Rightarrow> poker \<Rightarrow> poker option" where
  "remove_player peerId g =
     (case pk_find g peerId of
        None \<Rightarrow> Some g
      | Some i \<Rightarrow>
          if pp_inHand (pg_players g ! i) \<and> in_hand_phase g then
            (let g1 = pk_set i (\<lambda>p. p\<lparr>pp_connected := False\<rparr>) g
             in if int i = pg_toActIdx g1 then apply_action peerId (Obj [(''type'', Str ''fold'')]) g1
                else let (awarded, g2) = awardUncontested (add_acted peerId (pk_set i (\<lambda>p. p\<lparr>pp_folded := True\<rparr>) g1))
                     in Some (if awarded then g2 else back_to_lobby g2))
          else let g1 = cut_player i g; d = (if int i < pg_dealerIdx g then pg_dealerIdx g - 1 else pg_dealerIdx g); n = int (length (pg_players g1))
               in Some (back_to_lobby (g1\<lparr>pg_dealerIdx := (if n \<le> d then n - 1 else d)\<rparr>)))"

definition kick_from_pot :: "nat \<Rightarrow> poker \<Rightarrow> poker" where
  "kick_from_pot i g =
     (let g1 = cut_player i g; d = (if int i < pg_dealerIdx g then pg_dealerIdx g - 1 else pg_dealerIdx g); n = int (length (pg_players g1))
      in back_to_lobby (g1\<lparr>pg_dealerIdx := (if n \<le> d then max 0 (n - 1) else d)\<rparr>))"

definition kick_seat :: "nat \<Rightarrow> poker \<Rightarrow> poker" where
  "kick_seat i g =
     (let t = (if int i < pg_toActIdx g then pg_toActIdx g - 1 else pg_toActIdx g); n = int (length (pg_players g)) - 1
      in kick_from_pot i (g\<lparr>pg_toActIdx := (if n \<le> t then max 0 (n - 1) else t)\<rparr>))"

definition kick_player :: "poker_env \<Rightarrow> string \<Rightarrow> poker \<Rightarrow> bool \<times> poker" where
  "kick_player env peerId g =
     (if peerId = pe_selfId env then (False, g)
      else case pk_find g peerId of
        None \<Rightarrow> (False, g)
      | Some i \<Rightarrow>
          (let p = pg_players g ! i
           in if pp_inHand p \<and> in_hand_phase g \<and> \<not> pp_folded p then
                (let wasToAct = (case pk_at g (pg_toActIdx g) of None \<Rightarrow> False | Some q \<Rightarrow> pp_peerId q = peerId);
                     (awarded, g1) = awardUncontested (add_acted peerId (pk_set i (\<lambda>p. p\<lparr>pp_folded := True\<rparr>) g))
                 in if awarded then (True, kick_from_pot i g1)
                    else (True, kick_seat i (if wasToAct then pass_turn g1 else g1)))
              else (True, kick_seat i g)))"

section \<open>Messages and the host\<close>

definition on_wire :: "poker_env \<Rightarrow> string \<Rightarrow> jsv \<Rightarrow> poker \<Rightarrow> poker option" where
  "on_wire env from body g =
     (if \<not> js_Boolean body \<or> get body ''tableId'' \<noteq> Str (pe_tableId env) \<or> from = pe_selfId env then Some g
      else if get body ''wire'' = Str ''join'' then
        Some (if isPokerBotId from \<or> \<not> isPokerLobbyJoinable (pg_phase g) then g
              else if ps_lobbyAccess (pg_cfg g) \<noteq> ''public'' \<and> from \<notin> set (pg_invitedPeers g) then g
              else snd (add_player from (get body ''name'') g))
      else if get body ''wire'' = Str ''leave'' then remove_player from g
      else if get body ''wire'' = Str ''action'' then apply_action from (js_orv (get body ''action'') (Obj [])) g
      else Some g)"

definition update_settings :: "jsv \<Rightarrow> poker \<Rightarrow> poker" where
  "update_settings patch g =
     g\<lparr>pg_cfg := sanitize_settings patch (pg_cfg g) (fold max (map (\<lambda>p. pp_seat p + 1) (pg_players g)) 2)\<rparr>"

definition addChips :: "string \<Rightarrow> jsv \<Rightarrow> poker \<Rightarrow> bool \<times> poker" where
  "addChips peerId amount g =
     (let value = clampInt amount 1 1000000000 0
      in case pk_find g peerId of
           None \<Rightarrow> (False, g)
         | Some i \<Rightarrow> if value \<le> 0 then (False, g)
             else (True, pk_set i (\<lambda>p. p\<lparr>pp_chipsGranted := pp_chipsGranted p + value\<rparr>)
               (if in_hand_phase g then pk_set i (\<lambda>p. p\<lparr>pp_pendingChips := min 1000000000 (pp_pendingChips p + value)\<rparr>) g
                else pk_set i (\<lambda>p. p\<lparr>pp_chips := min 1000000000 (pp_chips p + value)\<rparr>) g)))"

definition removeChips :: "string \<Rightarrow> jsv \<Rightarrow> poker \<Rightarrow> bool \<times> poker" where
  "removeChips peerId amount g =
     (let value = clampInt amount 1 1000000000 0
      in case pk_find g peerId of
           None \<Rightarrow> (False, g)
         | Some i \<Rightarrow> if value \<le> 0 \<or> in_hand_phase g then (False, g)
             else (True, pk_set i (\<lambda>p. p\<lparr>pp_chips := max 0 (pp_chips p - value)\<rparr>) g))"

definition invite_peer :: "poker_env \<Rightarrow> string \<Rightarrow> poker \<Rightarrow> bool \<times> poker" where
  "invite_peer env peerId g =
     (if peerId = [] \<or> pk_find g peerId \<noteq> None then (False, g)
      else if peerId \<notin> set (pe_connected env) \<or> peerId \<in> set (pe_blocked env) then (False, g)
      else (True, g\<lparr>pg_invitedPeers := push_new peerId (pg_invitedPeers g)\<rparr>))"

definition addDebugBot :: "poker \<Rightarrow> bool \<times> poker" where
  "addDebugBot g = (if pk_find g POKER_BOT_PEER_ID \<noteq> None then (False, g) else add_player POKER_BOT_PEER_ID (Str ''Debug-Bot'') g)"

definition removeDebugBot :: "poker \<Rightarrow> poker option" where
  "removeDebugBot g = (if pk_find g POKER_BOT_PEER_ID = None then Some g else remove_player POKER_BOT_PEER_ID g)"

definition host_joins :: "poker_env \<Rightarrow> poker \<Rightarrow> poker" where
  "host_joins env g = snd (add_player (pe_selfId env) (js_orv (pe_selfName env) (Str ''Host'')) g)"

text \<open>A new table; a saved one starts with its players, their chips and the number of hands.\<close>

definition new_table :: "jsv \<Rightarrow> poker" where
  "new_table input =
     (let cfg = sanitize_settings input default_settings 2
      in \<lparr>pg_cfg = cfg, pg_players = [], pg_phase = PkLobby, pg_dealerIdx = - 1, pg_deck = [], pg_board = [], pg_pot = 0, pg_currentBet = 0,
          pg_minRaise = ps_bigBlind cfg, pg_street = StIdle, pg_toActIdx = - 1, pg_acted = [], pg_lastRaise = ps_bigBlind cfg, pg_handNumber = 0,
          pg_winners = [], pg_invitedPeers = [], pg_shuffles = 0\<rparr>)"

end
