(* ===== verification/Poker_Facts.thy ===== *)
theory Poker_Facts
  imports Poker_Game
begin

text \<open>
  Where the chips of a poker table are: in the stacks of the players and, while a hand is played, in the pot. What
  every operation of the host does with them.
\<close>

section \<open>Chips\<close>

definition stacks :: "poker \<Rightarrow> int" where
  "stacks g = sum_list (map pp_chips (pg_players g))"

definition stake :: "pk_player \<Rightarrow> int" where
  "stake p = (if pp_inHand p then pp_totalBet p else 0)"

definition stakes :: "poker \<Rightarrow> int" where
  "stakes g = sum_list (map stake (pg_players g))"

definition bank :: "poker \<Rightarrow> int" where
  "bank g = stacks g + (if in_hand_phase g then pg_pot g else 0)"

definition pending :: "poker \<Rightarrow> int" where
  "pending g = sum_list (map pp_pendingChips (pg_players g))"

definition pids :: "poker \<Rightarrow> string list" where
  "pids g = map pp_peerId (pg_players g)"

definition solvent :: "pk_player \<Rightarrow> bool" where
  "solvent p \<longleftrightarrow> 0 \<le> pp_chips p \<and> 0 \<le> pp_currentRoundBet p \<and> 0 \<le> pp_totalBet p \<and> 0 \<le> pp_pendingChips p"

definition blinds_ok :: "poker_settings \<Rightarrow> bool" where
  "blinds_ok c \<longleftrightarrow> 1 \<le> ps_smallBlind c \<and> ps_smallBlind c \<le> ps_bigBlind c \<and> 0 \<le> ps_ante c \<and> 1 \<le> ps_minRaiseBB c \<and> 0 \<le> ps_startingChips c"

definition idle :: "poker \<Rightarrow> bool" where
  "idle g \<longleftrightarrow> pg_toActIdx g = - 1 \<or> (\<forall>p \<in> set (pg_players g). \<not> pp_inHand p)"

definition bank_ok :: "poker \<Rightarrow> bool" where
  "bank_ok g \<longleftrightarrow> distinct (pids g) \<and> (\<forall>p \<in> set (pg_players g). solvent p) \<and> blinds_ok (pg_cfg g) \<and> 0 \<le> pg_minRaise g \<and>
     - 1 \<le> pg_dealerIdx g \<and> (\<not> in_hand_phase g \<longrightarrow> idle g)"

text \<open>The pot is what the players in the hand have put in; after a player was removed from a hand it is more.\<close>

definition pot_covered :: "poker \<Rightarrow> bool" where
  "pot_covered g \<longleftrightarrow> (in_hand_phase g \<longrightarrow> pg_pot g = stakes g)"

section \<open>One player changes\<close>

lemma sum_update: "i < length xs \<Longrightarrow> sum_list (map f (xs[i := x])) = sum_list (map f xs) - f (xs ! i) + (f x :: int)"
proof (induction xs arbitrary: i)
  case (Cons y xs)
  then show ?case by (cases i) simp_all
qed simp

lemma pk_find_Some: "pk_find g x = Some i \<Longrightarrow> i < length (pg_players g) \<and> pp_peerId (pg_players g ! i) = x"
  by (auto simp: pk_find_def findIndex_Some)

lemma pk_find_pids: "pk_find g x = None \<longleftrightarrow> x \<notin> set (pids g)"
  by (induction "pg_players g" arbitrary: g rule: list.induct)
     (auto simp: pk_find_def pids_def findIndex_None)

lemma pk_at_Some: "pk_at g i = Some p \<Longrightarrow> 0 \<le> i \<and> nat i < length (pg_players g) \<and> p = pg_players g ! nat i"
  by (auto simp: pk_at_def split: if_splits)

lemma pk_set_simps [simp]:
  "pg_cfg (pk_set i f g) = pg_cfg g" "pg_phase (pk_set i f g) = pg_phase g" "pg_pot (pk_set i f g) = pg_pot g" "pg_street (pk_set i f g) = pg_street g"
  "pg_toActIdx (pk_set i f g) = pg_toActIdx g" "pg_minRaise (pk_set i f g) = pg_minRaise g" "pg_dealerIdx (pk_set i f g) = pg_dealerIdx g"
  "pg_board (pk_set i f g) = pg_board g" "pg_deck (pk_set i f g) = pg_deck g" "pg_acted (pk_set i f g) = pg_acted g"
  "in_hand_phase (pk_set i f g) = in_hand_phase g" "length (pg_players (pk_set i f g)) = length (pg_players g)"
  by (simp_all add: pk_set_def in_hand_phase_def)

lemma pk_set_sums:
  assumes "i < length (pg_players g)"
  shows "stacks (pk_set i f g) = stacks g - pp_chips (pg_players g ! i) + pp_chips (f (pg_players g ! i))"
    "stakes (pk_set i f g) = stakes g - stake (pg_players g ! i) + stake (f (pg_players g ! i))"
    "pending (pk_set i f g) = pending g - pp_pendingChips (pg_players g ! i) + pp_pendingChips (f (pg_players g ! i))"
  using assms by (simp_all add: stacks_def stakes_def pending_def pk_set_def sum_update)

lemma pids_set [simp]: "(\<And>p. pp_peerId (f p) = pp_peerId p) \<Longrightarrow> pids (pk_set i f g) = pids g"
  by (cases "i < length (pg_players g)") (simp_all add: pids_def pk_set_def map_update list_update_beyond, metis list_update_id nth_map)

text \<open>What leaves everybody at the table, with his stake, and the pot.\<close>

definition frame_pk where
  "frame_pk g = (pids g, map pp_inHand (pg_players g), pg_cfg g, in_hand_phase g, pg_dealerIdx g)"

lemma set_players: "p \<in> set (pg_players (pk_set i f g)) \<Longrightarrow> p \<in> set (pg_players g) \<or> i < length (pg_players g) \<and> p = f (pg_players g ! i)"
  using set_update_subset_insert [of "pg_players g" i "f (pg_players g ! i)"]
  by (cases "i < length (pg_players g)") (auto simp: pk_set_def list_update_beyond)

lemma bank_ok_set:
  assumes "bank_ok g" "\<And>p. pp_peerId (f p) = pp_peerId p" "\<And>p. pp_inHand (f p) = pp_inHand p"
    "i < length (pg_players g) \<Longrightarrow> solvent (f (pg_players g ! i))"
  shows "bank_ok (pk_set i f g)"
proof -
  have "\<not> pp_inHand p" if "p \<in> set (pg_players (pk_set i f g))" "\<forall>p \<in> set (pg_players g). \<not> pp_inHand p" for p
    using set_players [OF that(1)] that(2) assms(3) by auto
  then have "idle g \<longrightarrow> idle (pk_set i f g)" by (auto simp: idle_def)
  then show ?thesis using assms set_players [of _ i f g] by (auto simp: bank_ok_def)
qed

lemma bank_updates [simp]:
  "stacks (g\<lparr>pg_acted := a\<rparr>) = stacks g" "stakes (g\<lparr>pg_acted := a\<rparr>) = stakes g" "stacks (g\<lparr>pg_toActIdx := t\<rparr>) = stacks g" "stakes (g\<lparr>pg_toActIdx := t\<rparr>) = stakes g"
  "stacks (g\<lparr>pg_phase := ph\<rparr>) = stacks g" "stakes (g\<lparr>pg_phase := ph\<rparr>) = stakes g" "stacks (g\<lparr>pg_street := st\<rparr>) = stacks g" "stakes (g\<lparr>pg_street := st\<rparr>) = stakes g"
  "stacks (g\<lparr>pg_pot := n\<rparr>) = stacks g" "stakes (g\<lparr>pg_pot := n\<rparr>) = stakes g" "stacks (g\<lparr>pg_currentBet := n\<rparr>) = stacks g" "stakes (g\<lparr>pg_currentBet := n\<rparr>) = stakes g"
  "stacks (g\<lparr>pg_minRaise := n\<rparr>) = stacks g" "stakes (g\<lparr>pg_minRaise := n\<rparr>) = stakes g" "stacks (g\<lparr>pg_lastRaise := n\<rparr>) = stacks g" "stakes (g\<lparr>pg_lastRaise := n\<rparr>) = stakes g"
  "stacks (g\<lparr>pg_deck := cs\<rparr>) = stacks g" "stakes (g\<lparr>pg_deck := cs\<rparr>) = stakes g" "stacks (g\<lparr>pg_board := cs\<rparr>) = stacks g" "stakes (g\<lparr>pg_board := cs\<rparr>) = stakes g"
  "stacks (g\<lparr>pg_winners := w\<rparr>) = stacks g" "stakes (g\<lparr>pg_winners := w\<rparr>) = stakes g" "stacks (g\<lparr>pg_dealerIdx := t\<rparr>) = stacks g" "stakes (g\<lparr>pg_dealerIdx := t\<rparr>) = stakes g"
  by (simp_all add: stacks_def stakes_def)

lemma pending_players: "pg_players h = pg_players g \<Longrightarrow> pending h = pending g"
  by (simp add: pending_def)

lemma pending_updates [simp]:
  "pending (g\<lparr>pg_acted := a\<rparr>) = pending g" "pending (g\<lparr>pg_toActIdx := t\<rparr>) = pending g" "pending (g\<lparr>pg_phase := ph\<rparr>) = pending g"
  "pending (g\<lparr>pg_street := st\<rparr>) = pending g" "pending (g\<lparr>pg_pot := n\<rparr>) = pending g" "pending (g\<lparr>pg_winners := w\<rparr>) = pending g"
  "pending (g\<lparr>pg_dealerIdx := t\<rparr>) = pending g"
  by (simp_all add: pending_def)

lemma phase_updates [simp]:
  "in_hand_phase (g\<lparr>pg_acted := a\<rparr>) = in_hand_phase g" "in_hand_phase (g\<lparr>pg_toActIdx := t\<rparr>) = in_hand_phase g" "in_hand_phase (g\<lparr>pg_street := ph\<rparr>) = in_hand_phase g"
  "in_hand_phase (g\<lparr>pg_pot := n\<rparr>) = in_hand_phase g" "in_hand_phase (g\<lparr>pg_currentBet := n\<rparr>) = in_hand_phase g" "in_hand_phase (g\<lparr>pg_minRaise := n\<rparr>) = in_hand_phase g"
  "in_hand_phase (g\<lparr>pg_lastRaise := n\<rparr>) = in_hand_phase g" "in_hand_phase (g\<lparr>pg_deck := cs\<rparr>) = in_hand_phase g" "in_hand_phase (g\<lparr>pg_board := cs\<rparr>) = in_hand_phase g"
  "in_hand_phase (g\<lparr>pg_winners := w\<rparr>) = in_hand_phase g" "in_hand_phase (g\<lparr>pg_dealerIdx := t\<rparr>) = in_hand_phase g"
  by (simp_all add: in_hand_phase_def)

section \<open>Paying out\<close>

lemma pk_find_set: "(\<And>p. pp_peerId (f p) = pp_peerId p) \<Longrightarrow> pk_find (pk_set i f g) x = pk_find g x"
proof -
  have "findIndex (\<lambda>p. pp_peerId p = x) ps = findIndex (\<lambda>y. y = x) (map pp_peerId ps)" for ps
    by (induction ps) simp_all
  then show "(\<And>p. pp_peerId (f p) = pp_peerId p) \<Longrightarrow> pk_find (pk_set i f g) x = pk_find g x"
    using pids_set [of f i g] unfolding pk_find_def pids_def by metis
qed

text \<open>A payment only adds to stacks.\<close>

definition paid_to :: "poker \<Rightarrow> int \<Rightarrow> poker \<Rightarrow> bool" where
  "paid_to g amount h \<longleftrightarrow> stacks h = stacks g + amount \<and> pids h = pids g \<and> stakes h = stakes g \<and> pending h = pending g \<and> (bank_ok g \<longrightarrow> bank_ok h) \<and>
     pg_pot h = pg_pot g \<and> pg_phase h = pg_phase g \<and> pg_board h = pg_board g \<and> pg_toActIdx h = pg_toActIdx g"

lemma paid_refl: "paid_to g 0 g"
  by (simp add: paid_to_def)

lemma paid_trans: "paid_to g a h \<Longrightarrow> paid_to h b k \<Longrightarrow> paid_to g (a + b) k"
  by (simp add: paid_to_def)

lemma paid_one:
  assumes "pk_find g i = Some k" "0 \<le> amount"
  shows "paid_to g amount (pk_set k (\<lambda>p. p\<lparr>pp_chips := pp_chips p + amount\<rparr>) g)"
proof -
  have k: "k < length (pg_players g)" using pk_find_Some [OF assms(1)] by simp
  have "bank_ok (pk_set k (\<lambda>p. p\<lparr>pp_chips := pp_chips p + amount\<rparr>) g)" if "bank_ok g"
    by (rule bank_ok_set [OF that]) (use k assms(2) that in \<open>auto simp: bank_ok_def solvent_def\<close>)
  then show ?thesis using k by (simp add: paid_to_def pk_set_sums stake_def)
qed

lemma pay_each_paid:
  assumes "\<forall>i \<in> set is. i \<in> set (pids g)" "0 \<le> share" "0 \<le> remainder"
  shows "paid_to g (share * int (length is) + min remainder (int (length is))) (pay_each is share remainder g)"
  using assms
proof (induction "is" arbitrary: g remainder)
  case Nil
  then show ?case by (simp add: paid_refl)
next
  case (Cons i "is")
  obtain k where k: "pk_find g i = Some k" using Cons.prems(1) pk_find_pids [of g i] by fastforce
  let ?a = "share + (if remainder > 0 then 1 else 0)" and ?h = "pk_set k (\<lambda>p. p\<lparr>pp_chips := pp_chips p + (share + (if remainder > 0 then 1 else 0))\<rparr>) g"
  have one: "paid_to g ?a ?h" by (rule paid_one [OF k]) (use Cons.prems in auto)
  have "paid_to ?h (share * int (length is) + min (max 0 (remainder - 1)) (int (length is))) (pay_each is share (max 0 (remainder - 1)) ?h)"
    by (rule Cons.IH) (use Cons.prems one in \<open>auto simp: paid_to_def\<close>)
  moreover have "?a + (share * int (length is) + min (max 0 (remainder - 1)) (int (length is))) = share * int (length (i # is)) + min remainder (int (length (i # is)))"
    using Cons.prems(3) by (simp add: algebra_simps min_def max_def)
  ultimately show ?case using paid_trans [OF one] k by fastforce
qed

text \<open>A pot is shared without a chip left over.\<close>

lemma share_all:
  assumes "0 \<le> amount" "0 < k"
  shows "amount div k * k + min (amount - amount div k * k) k = (amount :: int)"
  using assms by (simp add: minus_div_mult_eq_mod min_def order_less_imp_le)

section \<open>The best hands\<close>

text \<open>Among the players compared so far: the best score, and everyone who has it.\<close>

definition best_of :: "poker \<Rightarrow> string list \<Rightarrow> nat list option option \<times> string list \<Rightarrow> bool" where
  "best_of g seen acc \<longleftrightarrow>
     (if seen = [] then acc = (None, [])
      else \<exists>s. fst acc = Some (Some s) \<and> (\<forall>i \<in> set seen. \<exists>sc. hand_score g i = Some sc \<and> cmpScore sc s \<le> 0) \<and>
        snd acc = filter (\<lambda>i. cmpScore (the (hand_score g i)) s = 0) seen)"

lemma best_of_step:
  assumes "best_of g seen acc" "hand_score g i = Some sc"
  shows "best_of g (seen @ [i]) (case (case fst acc of None \<Rightarrow> Some 1 | Some best \<Rightarrow> compare_scores (Some sc) best) of
           None \<Rightarrow> acc
         | Some cmp \<Rightarrow> if cmp > 0 then (Some (Some sc), [i]) else if cmp = 0 then (fst acc, snd acc @ [i]) else acc)"
proof (cases "seen = []")
  case True
  then show ?thesis using assms by (simp add: best_of_def)
next
  case False
  then obtain s where s: "fst acc = Some (Some s)" "\<forall>j \<in> set seen. \<exists>t. hand_score g j = Some t \<and> cmpScore t s \<le> 0"
    "snd acc = filter (\<lambda>j. cmpScore (the (hand_score g j)) s = 0) seen" using assms(1) by (auto simp: best_of_def)
  show ?thesis
  proof (cases "cmpScore sc s > 0")
    case True
    have "cmpScore t sc \<le> 0 \<and> cmpScore t sc \<noteq> 0" if "cmpScore t s \<le> 0" for t
    proof -
      have "cmpScore s sc \<le> 0" using True cmp_antisym [of s sc] by simp
      moreover have "cmpScore t sc \<noteq> 0" using True that cmp_le_trans [of sc t s] cmp_antisym [of t sc] by fastforce
      ultimately show ?thesis using cmp_le_trans [OF that] by simp
    qed
    then have "\<forall>j \<in> set seen. \<exists>t. hand_score g j = Some t \<and> cmpScore t sc \<le> 0 \<and> cmpScore t sc \<noteq> 0" using s(2) by blast
    moreover from this have "filter (\<lambda>j. cmpScore (the (hand_score g j)) sc = 0) seen = []" by (force simp: filter_empty_conv)
    ultimately show ?thesis using True s(1) assms(2) by (auto simp: best_of_def compare_scores_def)
  next
    case False
    then show ?thesis using s assms(2) by (auto simp: best_of_def compare_scores_def)
  qed
qed

lemma best_hands_best:
  "best_of g seen acc \<Longrightarrow> \<forall>i \<in> set is. hand_score g i \<noteq> None \<Longrightarrow> best_of g (seen @ is) (best_hands g is acc)"
proof (induction "is" arbitrary: seen acc)
  case (Cons i "is")
  then obtain sc where sc: "hand_score g i = Some sc" by auto
  show ?case using Cons.IH [OF best_of_step [OF Cons.prems(1) sc]] Cons.prems(2) sc by (simp add: Let_def)
qed simp

text \<open>Somebody eligible always wins, also without a board.\<close>

lemma best_hands_some:
  "fst acc \<noteq> None \<Longrightarrow> snd acc \<noteq> [] \<Longrightarrow> snd (best_hands g is acc) \<noteq> [] \<and> set (snd (best_hands g is acc)) \<subseteq> set (snd acc) \<union> set is"
proof (induction "is" arbitrary: acc)
  case (Cons i "is")
  define acc1 where "acc1 = (case (case fst acc of None \<Rightarrow> Some 1 | Some best \<Rightarrow> compare_scores (hand_score g i) best) of
           None \<Rightarrow> acc
         | Some cmp \<Rightarrow> if cmp > 0 then (Some (hand_score g i), [i]) else if cmp = 0 then (fst acc, snd acc @ [i]) else acc)"
  have "fst acc1 \<noteq> None \<and> snd acc1 \<noteq> [] \<and> set (snd acc1) \<subseteq> set (snd acc) \<union> {i}" using Cons.prems by (auto simp: acc1_def split: option.splits)
  then show ?case using Cons.IH [of acc1] by (auto simp: Let_def acc1_def [symmetric])
qed simp

lemma best_hands_eligible:
  assumes "best_hands g elig (None, []) = (best, winners)" "elig \<noteq> []"
  shows "winners \<noteq> [] \<and> set winners \<subseteq> set elig"
  using assms best_hands_some [of "(Some (hand_score g (hd elig)), [hd elig])" g "tl elig"] by (cases elig) (auto simp: Let_def)

lemma best_hands_winners:
  assumes "best_hands g elig (None, []) = (best, winners)" "elig \<noteq> []" "\<forall>i \<in> set elig. hand_score g i \<noteq> None"
  obtains s where "best = Some (Some s)"
    "\<And>i. i \<in> set elig \<Longrightarrow> (i \<in> set winners \<longleftrightarrow> cmpScore (the (hand_score g i)) s = 0) \<and> cmpScore (the (hand_score g i)) s \<le> 0"
proof -
  have "best_of g elig (best, winners)" using best_hands_best [of g "[]" "(None, [])" elig] assms(1,3) by (simp add: best_of_def)
  then show ?thesis using assms(2) that by (fastforce simp: best_of_def)
qed

section \<open>Showdown\<close>

lemma still_in_pids: "still_in g i \<Longrightarrow> i \<in> set (pids g)"
  using pk_find_pids [of g i] by (auto simp: still_in_def player_of_def split: option.splits)

lemma pay_pot_paid:
  assumes "pay_pot pot g = (results, h)" "0 \<le> sp_amount pot" "set (sp_eligible pot) \<subseteq> set (pids g)" "sp_eligible pot \<noteq> []"
  shows "paid_to g (sp_amount pot) h"
proof -
  have pay: "paid_to g (sp_amount pot) (pay_each is (sp_amount pot div int (length is)) (sp_amount pot - sp_amount pot div int (length is) * int (length is)) g)"
    if "is \<noteq> []" "set is \<subseteq> set (pids g)" for "is"
  proof -
    have len: "0 < int (length is)" using that(1) by simp
    have "0 \<le> sp_amount pot div int (length is)" "0 \<le> sp_amount pot - sp_amount pot div int (length is) * int (length is)"
      using assms(2) len by (simp_all add: pos_imp_zdiv_nonneg_iff minus_div_mult_eq_mod)
    from pay_each_paid [OF _ this, of "is" g] show ?thesis using that(2) share_all [OF assms(2) len] by auto
  qed
  show ?thesis
  proof (cases "filter (still_in g) (sp_eligible pot) = []")
    case True
    then show ?thesis using assms pay [OF assms(4,3)] by (auto simp: pay_pot_def Let_def)
  next
    case False
    obtain best winners where w: "best_hands g (filter (still_in g) (sp_eligible pot)) (None, []) = (best, winners)"
      "h = pay_each winners (sp_amount pot div int (length winners)) (sp_amount pot - sp_amount pot div int (length winners) * int (length winners)) g"
      using assms(1) False by (auto simp: pay_pot_def Let_def split: prod.splits)
    have "winners \<noteq> []" "set winners \<subseteq> set (pids g)" using best_hands_eligible [OF w(1) False] assms(3) by auto
    from pay [OF this] show ?thesis by (simp add: w(2))
  qed
qed

lemma pay_pots_paid:
  assumes "pay_pots pots g = (results, h)" "\<forall>pot \<in> set pots. 0 \<le> sp_amount pot \<and> set (sp_eligible pot) \<subseteq> set (pids g) \<and> sp_eligible pot \<noteq> []"
  shows "paid_to g (sum_list (map sp_amount pots)) h"
  using assms
proof (induction pots arbitrary: g results)
  case Nil
  then show ?case by (simp add: paid_refl)
next
  case (Cons pot pots)
  obtain r1 g1 r2 where p: "pay_pot pot g = (r1, g1)" "pay_pots pots g1 = (r2, h)"
    using Cons.prems(1) by (auto simp: Let_def split: prod.splits)
  have one: "paid_to g (sp_amount pot) g1" using pay_pot_paid [OF p(1)] Cons.prems(2) by simp
  have "paid_to g1 (sum_list (map sp_amount pots)) h" using Cons.IH [OF p(2)] Cons.prems(2) one by (simp add: paid_to_def)
  from paid_trans [OF one this] show ?case by simp
qed

lemma alist_update_new: "k \<notin> fst ` set xs \<Longrightarrow> AList.update k v xs = xs @ [(k, v)]"
  by (induction xs) auto

lemma contributions_eq:
  assumes "distinct (pids g)"
  shows "contributions g = map (\<lambda>p. (pp_peerId p, pp_totalBet p)) (filter pp_inHand (pg_players g))"
proof -
  have "fold (\<lambda>p. if pp_inHand p then AList.update (pp_peerId p) (pp_totalBet p) else id) ps acc = acc @ map (\<lambda>p. (pp_peerId p, pp_totalBet p)) (filter pp_inHand ps)"
    if "distinct (map pp_peerId ps)" "fst ` set acc \<inter> pp_peerId ` set ps = {}" for ps and acc :: "(string \<times> int) list"
    using that
  proof (induction ps arbitrary: acc)
    case (Cons p ps)
    have "fst ` set (acc @ [(pp_peerId p, pp_totalBet p)]) \<inter> pp_peerId ` set ps = {}" using Cons.prems by auto
    then show ?case using Cons.IH [of "acc @ [(pp_peerId p, pp_totalBet p)]"] Cons.IH [of acc] Cons.prems by (auto simp: alist_update_new)
  qed simp
  from this [of "pg_players g" "[]"] show ?thesis using assms by (simp add: contributions_def pids_def)
qed

lemma layers_nonempty: "pot \<in> set (side_layers paid prev levels) \<Longrightarrow> set levels \<subseteq> snd ` set paid \<Longrightarrow> sp_eligible pot \<noteq> []"
  by (induction levels arbitrary: prev) (auto simp: Let_def filter_empty_conv, force)

lemma pots_nonempty: "pot \<in> set (buildSidePots contrib) \<Longrightarrow> sp_eligible pot \<noteq> []"
  by (auto simp: buildSidePots_def Let_def split: if_splits dest!: layers_nonempty)

lemma stakes_contributions:
  assumes "bank_ok g"
  shows "sum_list (map sp_amount (buildSidePots (contributions g))) = stakes g"
proof -
  have "sum_list (map (\<lambda>c. max 0 (snd c)) (map (\<lambda>p. (pp_peerId p, pp_totalBet p)) (filter pp_inHand ps))) = sum_list (map stake ps)"
    if "\<forall>p \<in> set ps. solvent p" for ps
    using that by (induction ps) (auto simp: stake_def solvent_def)
  then show ?thesis using assms by (simp add: side_pots_sum contributions_eq bank_ok_def stakes_def)
qed

lemma bank_ok_phase:
  assumes "bank_ok g" "in_hand_phase h \<or> pg_toActIdx h = - 1" "pg_players h = pg_players g" "pg_cfg h = pg_cfg g" "0 \<le> pg_minRaise h" "- 1 \<le> pg_dealerIdx h"
  shows "bank_ok h"
  using assms by (auto simp: bank_ok_def pids_def idle_def)

lemma count_wins: "paid_to g 0 (fold (count_win \<circ> fst) ws g)"
proof (induction ws arbitrary: g)
  case (Cons w ws)
  have "paid_to g 0 (count_win (fst w) g)"
  proof (cases "pk_find g (fst w)")
    case (Some k)
    have k: "k < length (pg_players g)" using pk_find_Some [OF Some] by simp
    have "bank_ok (pk_set k (\<lambda>p. p\<lparr>pp_handsWon := pp_handsWon p + 1\<rparr>) g)" if "bank_ok g"
      by (rule bank_ok_set [OF that]) (use k that in \<open>auto simp: bank_ok_def solvent_def\<close>)
    then show ?thesis using k Some by (simp add: count_win_def paid_to_def pk_set_sums stake_def)
  qed (simp add: count_win_def paid_refl)
  from paid_trans [OF this Cons.IH] show ?case by simp
qed (simp add: paid_refl)

lemma hand_over_ok: "bank_ok g \<Longrightarrow> bank_ok (hand_over g) \<and> bank (hand_over g) = stacks g \<and> pot_covered (hand_over g) \<and> \<not> in_hand_phase (hand_over g) \<and>
  pending (hand_over g) = pending g"
proof -
  assume g: "bank_ok g"
  have "bank_ok (hand_over g)" by (rule bank_ok_phase [OF g]) (use g in \<open>simp_all add: hand_over_def bank_ok_def\<close>)
  then show ?thesis by (simp add: hand_over_def bank_def pot_covered_def in_hand_phase_def)
qed

lemma showdown_bank:
  assumes "bank_ok g" "showdown g = h"
  shows "bank_ok h \<and> bank h = stacks g + stakes g \<and> pot_covered h \<and> \<not> in_hand_phase h \<and> pending h = pending g"
proof -
  define g0 where "g0 = g\<lparr>pg_phase := PkStreet StShowdown, pg_street := StShowdown\<rparr>"
  have g0: "bank_ok g0" "stacks g0 = stacks g" "stakes g0 = stakes g" "pids g0 = pids g" "pending g0 = pending g"
    using assms(1) by (simp_all add: g0_def bank_ok_def in_hand_phase_def pids_def)
  obtain results g1 where p: "pay_pots (buildSidePots (contributions g)) g0 = (results, g1)"
    "h = hand_over (fold (count_win \<circ> fst) (aggregate results) (g1\<lparr>pg_winners := aggregate results\<rparr>))"
    using assms(2) by (auto simp: showdown_def g0_def Let_def split: prod.splits)
  have "set (map fst (contributions g)) \<subseteq> set (pids g0)" using contributions_eq assms(1) g0(4) by (auto simp: bank_ok_def pids_def)
  then have "\<forall>pot \<in> set (buildSidePots (contributions g)). 0 \<le> sp_amount pot \<and> set (sp_eligible pot) \<subseteq> set (pids g0) \<and> sp_eligible pot \<noteq> []"
    using side_pots_ids pots_nonempty by fastforce
  from pay_pots_paid [OF p(1) this] have g1: "paid_to g0 (stakes g) g1" using stakes_contributions [OF assms(1)] by simp
  define g2 where "g2 = g1\<lparr>pg_winners := aggregate results\<rparr>"
  have "bank_ok g1" "stacks g1 = stacks g + stakes g" "pending g1 = pending g" using g1 g0 by (simp_all add: paid_to_def)
  then have g2: "bank_ok g2" "stacks g2 = stacks g + stakes g" "pending g2 = pending g" by (simp_all add: g2_def bank_ok_def pids_def idle_def)
  have "paid_to g2 0 (fold (count_win \<circ> fst) (aggregate results) g2)" by (rule count_wins)
  then show ?thesis using hand_over_ok [of "fold (count_win \<circ> fst) (aggregate results) g2"] g2 p(2) by (simp add: g2_def [symmetric] paid_to_def)
qed

lemma award_bank:
  assumes "bank_ok g" "in_hand_phase g" "0 \<le> pg_pot g" "awardUncontested g = (True, h)"
  shows "bank_ok h \<and> bank h = bank g \<and> \<not> in_hand_phase h \<and> pids h = pids g \<and> pending h = pending g"
proof -
  obtain w where act: "activeInHand g = [w]" using assms(4) by (auto simp: awardUncontested_def split: list.splits)
  then obtain k where k: "pk_find g (pp_peerId w) = Some k"
    using assms(4) by (cases "pk_find g (pp_peerId w)") (simp_all add: awardUncontested_def)
  have h: "h = hand_over ((pk_set k (\<lambda>p. p\<lparr>pp_chips := pp_chips p + pg_pot g, pp_handsWon := pp_handsWon p + 1\<rparr>) g)
      \<lparr>pg_winners := [(pp_peerId w, pg_pot g, ''Gewinn (alle anderen gefoldet)'')]\<rparr>)"
    using assms(4) act k by (simp add: awardUncontested_def)
  define g1 where "g1 = pk_set k (\<lambda>p. p\<lparr>pp_chips := pp_chips p + pg_pot g, pp_handsWon := pp_handsWon p + 1\<rparr>) g"
  have i: "k < length (pg_players g)" using pk_find_Some [OF k] by simp
  have "bank_ok g1" unfolding g1_def
    by (rule bank_ok_set [OF assms(1)]) (use i assms(1,3) in \<open>auto simp: bank_ok_def solvent_def\<close>)
  moreover have "stacks g1 = stacks g + pg_pot g" "pids g1 = pids g" "pending g1 = pending g" using i by (simp_all add: g1_def pk_set_sums)
  ultimately show ?thesis using hand_over_ok [of "g1\<lparr>pg_winners := [(pp_peerId w, pg_pot g, ''Gewinn (alle anderen gefoldet)'')]\<rparr>"] assms(2)
    by (simp add: h g1_def [symmetric] bank_ok_def pids_def idle_def bank_def hand_over_def)
qed

lemma award_refused: "awardUncontested g = (False, h) \<Longrightarrow> h = g"
  by (auto simp: awardUncontested_def split: list.splits option.splits)

section \<open>Steps within a hand\<close>

text \<open>Chips only move between stacks and the pot, and the stakes grow with the pot.\<close>

definition moves :: "poker \<Rightarrow> poker \<Rightarrow> bool" where
  "moves g h \<longleftrightarrow> bank_ok h \<and> in_hand_phase h \<and> stacks h + pg_pot h = stacks g + pg_pot g \<and> pg_pot h - stakes h = pg_pot g - stakes g \<and>
     pids h = pids g \<and> pg_pot g \<le> pg_pot h \<and> pending h = pending g"

lemma moves_refl: "bank_ok g \<Longrightarrow> in_hand_phase g \<Longrightarrow> moves g g"
  by (simp add: moves_def)

lemma moves_trans: "moves g h \<Longrightarrow> moves h k \<Longrightarrow> moves g k"
  by (simp add: moves_def)

lemma moves_ok: "moves g h \<Longrightarrow> bank_ok h \<and> in_hand_phase h \<and> 0 \<le> pg_minRaise h"
  unfolding moves_def bank_ok_def by blast

lemma moves_same:
  assumes "bank_ok g" "in_hand_phase h" "pg_players h = pg_players g" "pg_cfg h = pg_cfg g" "0 \<le> pg_minRaise h" "pg_dealerIdx h = pg_dealerIdx g" "pg_pot h = pg_pot g"
  shows "moves g h"
  using bank_ok_phase [OF assms(1), of h] assms by (simp add: moves_def stacks_def stakes_def pending_def pids_def bank_ok_def)

lemma moves_next:
  assumes "moves g0 g" "pg_players h = pg_players g" "pg_cfg h = pg_cfg g" "pg_phase h = pg_phase g" "pg_minRaise h = pg_minRaise g"
    "pg_dealerIdx h = pg_dealerIdx g" "pg_pot h = pg_pot g"
  shows "moves g h"
proof -
  have g: "bank_ok g" "in_hand_phase g" using assms(1) by (simp_all add: moves_def)
  then have "0 \<le> pg_minRaise h" "in_hand_phase h" using assms(4,5) by (simp_all add: bank_ok_def in_hand_phase_def)
  then show ?thesis using assms by (intro moves_same [OF g(1)])
qed

lemma moves_all:
  assumes "bank_ok g" "in_hand_phase g" "\<And>p. pp_peerId (f p) = pp_peerId p" "\<And>p. pp_chips (f p) = pp_chips p" "\<And>p. stake (f p) = stake p"
    "\<And>p. solvent p \<Longrightarrow> solvent (f p)" "\<And>p. pp_inHand (f p) = pp_inHand p" "\<And>p. pp_pendingChips (f p) = pp_pendingChips p"
  shows "moves g (pk_all f g)"
  using assms by (simp add: moves_def pk_all_def pending_def stacks_def stakes_def pids_def bank_ok_def in_hand_phase_def comp_def idle_def)

lemma new_round_moves:
  assumes "bank_ok g" "in_hand_phase g"
  shows "moves g (new_round g)"
proof -
  have all: "moves g (pk_all (\<lambda>p. if pp_inHand p then p\<lparr>pp_currentRoundBet := 0\<rparr> else p) g)"
    by (rule moves_all [OF assms]) (simp_all add: stake_def solvent_def)
  then have "moves (pk_all (\<lambda>p. if pp_inHand p then p\<lparr>pp_currentRoundBet := 0\<rparr> else p) g) (new_round g)"
    by (rule moves_next) (simp_all add: new_round_def)
  then show ?thesis using moves_trans [OF all] by blast
qed

lemma open_cards_moves: "bank_ok g \<Longrightarrow> in_hand_phase g \<Longrightarrow> moves g (open_cards k g)"
  by (intro moves_same) (simp_all add: open_cards_def Let_def bank_ok_def)

lemma runout_moves: "bank_ok g \<Longrightarrow> in_hand_phase g \<Longrightarrow> moves g (runoutBoard g)"
proof (induction g rule: runoutBoard.induct)
  case (1 g)
  note round = new_round_moves [OF 1(2,3)]
  show ?case
  proof (cases "pg_street g = StRiver")
    case True
    then show ?thesis using moves_refl 1 by (simp add: runoutBoard.simps)
  next
    case False
    show ?thesis
    proof (cases "next_street (pg_street g)")
      case None
      then show ?thesis using False round by (simp add: runoutBoard.simps)
    next
      case (Some sk)
      obtain s k where sk: "sk = (s, k)" by (cases sk)
      define g1 where "g1 = (open_cards k ((new_round g)\<lparr>pg_street := s\<rparr>))\<lparr>pg_phase := PkStreet s\<rparr>"
      have r: "bank_ok (new_round g)" "0 \<le> pg_minRaise (new_round g)" using moves_ok [OF round] by blast+
      have "in_hand_phase g1" by (simp add: g1_def in_hand_phase_def)
      then have "moves (new_round g) g1"
        by (rule moves_same [OF r(1)]) (use r(2) in \<open>simp_all add: g1_def open_cards_def Let_def\<close>)
      then have g1: "moves g g1" using round moves_trans by blast
      then have "moves g1 (runoutBoard g1)" using 1(1) [OF False Some sk [symmetric]] moves_ok [OF g1] by (simp add: g1_def)
      then show ?thesis using g1 moves_trans False Some sk by (simp add: runoutBoard.simps [of g] g1_def)
    qed
  qed
qed

lemma advance_moves: "bank_ok g \<Longrightarrow> in_hand_phase g \<Longrightarrow> moves g (advanceStreet g)"
proof -
  assume g: "bank_ok g" "in_hand_phase g"
  let ?h = "advanceStreet g"
  have fields: "pg_players ?h = pg_players (new_round g)" "pg_cfg ?h = pg_cfg (new_round g)" "pg_dealerIdx ?h = pg_dealerIdx (new_round g)" "pg_pot ?h = pg_pot (new_round g)"
    "pg_minRaise ?h = ps_bigBlind (pg_cfg g) * ps_minRaiseBB (pg_cfg g)" "in_hand_phase ?h"
    by (simp_all add: advanceStreet_def Let_def open_cards_def new_round_def pk_all_def in_hand_phase_def split: option.splits prod.splits)
  have round: "moves g (new_round g)" by (rule new_round_moves [OF g])
  have "0 \<le> pg_minRaise ?h" using g(1) fields(5) by (simp add: bank_ok_def blinds_ok_def)
  then have "moves (new_round g) ?h" using moves_ok [OF round] fields by (intro moves_same) simp_all
  then show ?thesis using moves_trans [OF round] by blast
qed

section \<open>Actions\<close>

lemma put_in_moves:
  assumes "bank_ok g" "in_hand_phase g" "i < length (pg_players g)" "pp_inHand (pg_players g ! i)" "0 \<le> pay" "pay \<le> pp_chips (pg_players g ! i)"
  shows "moves g (put_in i pay g)"
proof -
  define f where "f p = p\<lparr>pp_chips := pp_chips p - pay, pp_currentRoundBet := pp_currentRoundBet p + pay, pp_totalBet := pp_totalBet p + pay,
         pp_allIn := pp_allIn p \<or> pp_chips p - pay = 0\<rparr>" for p :: pk_player
  have h: "put_in i pay g = (pk_set i f g)\<lparr>pg_pot := pg_pot g + pay\<rparr>" by (simp add: put_in_def f_def [abs_def])
  have "bank_ok (pk_set i f g)" by (rule bank_ok_set [OF assms(1)]) (use assms in \<open>auto simp: f_def bank_ok_def solvent_def\<close>)
  then have "bank_ok (put_in i pay g)" by (simp add: h bank_ok_def pids_def idle_def)
  moreover have "stacks (pk_set i f g) = stacks g - pay" "stakes (pk_set i f g) = stakes g + pay" "pids (pk_set i f g) = pids g" "pending (pk_set i f g) = pending g"
    using assms(3,4) by (simp_all add: pk_set_sums stake_def f_def)
  ultimately show ?thesis using assms(2,5) by (simp add: moves_def h) (simp add: pids_def)
qed

lemma acted_moves: "moves g h \<Longrightarrow> moves g (add_acted x h)"
  using moves_trans [of g h "add_acted x h"] moves_next [of g h "add_acted x h"] by (simp add: add_acted_def)

lemma flag_moves:
  assumes "moves g0 g" "\<And>p. pp_peerId (f p) = pp_peerId p" "\<And>p. pp_chips (f p) = pp_chips p" "\<And>p. stake (f p) = stake p" "\<And>p. solvent (f p) = solvent p"
    "\<And>p. pp_inHand (f p) = pp_inHand p" "\<And>p. pp_pendingChips (f p) = pp_pendingChips p"
  shows "moves g0 (pk_set i f g)"
proof (cases "i < length (pg_players g)")
  case True
  have g: "bank_ok g" using moves_ok [OF assms(1)] by blast
  then have "solvent (pg_players g ! i)" using True by (simp add: bank_ok_def)
  then have "bank_ok (pk_set i f g)" by (intro bank_ok_set [OF g]) (simp_all add: assms)
  then show ?thesis using assms True by (simp add: moves_def pk_set_sums)
next
  case False
  then show ?thesis using assms(1) by (simp add: pk_set_def list_update_beyond)
qed

lemma raised_moves: "moves g0 g \<Longrightarrow> moves g0 (raised i x high g)"
proof -
  assume m: "moves g0 g"
  let ?h = "raised i x high g"
  have fields: "pg_players ?h = pg_players g" "pg_cfg ?h = pg_cfg g" "pg_phase ?h = pg_phase g" "pg_dealerIdx ?h = pg_dealerIdx g" "pg_pot ?h = pg_pot g"
    "pg_minRaise g \<le> pg_minRaise ?h"
    by (auto simp: raised_def Let_def add_acted_def)
  have "in_hand_phase ?h" using moves_ok [OF m] fields(3) by (simp add: in_hand_phase_def)
  then have "moves g ?h" using moves_ok [OF m] fields by (intro moves_same) auto
  then show ?thesis using moves_trans [OF m] by blast
qed

lemma max_of_ge: "x \<in> set xs \<Longrightarrow> x \<le> max_of xs"
proof -
  have "a \<le> foldl max a ys \<and> (\<forall>y \<in> set ys. y \<le> foldl max a ys)" for ys :: "int list" and a
  proof (induction ys arbitrary: a)
    case (Cons y ys)
    show ?case using Cons.IH [of "max a y"] by simp
  qed simp
  then show "x \<in> set xs \<Longrightarrow> x \<le> max_of xs" by (cases xs) (auto simp: max_of_def)
qed

lemma maxBet_ge: "i < length (pg_players g) \<Longrightarrow> in_play (pg_players g ! i) \<Longrightarrow> pp_currentRoundBet (pg_players g ! i) \<le> maxBet g"
  by (auto simp: maxBet_def activeInHand_def intro!: max_of_ge)

lemma take_action_moves:
  assumes "bank_ok g" "in_hand_phase g" "i < length (pg_players g)" "can_act (pg_players g ! i)" "take_action i x act g = Acted h"
  shows "moves g h"
proof -
  let ?p = "pg_players g ! i"
  have p: "pp_inHand ?p" "in_play ?p" "solvent ?p" using assms by (simp_all add: can_act_def in_play_def bank_ok_def)
  have high: "pp_currentRoundBet ?p \<le> maxBet g" by (rule maxBet_ge [OF assms(3) p(2)])
  have raise: "0 \<le> pg_minRaise g" using assms(1) by (simp add: bank_ok_def)
  have chips: "0 \<le> pp_chips ?p" using p(3) by (simp add: solvent_def)
  have pay: "moves g (put_in i n g)" if "0 \<le> n" "n \<le> pp_chips ?p" for n by (rule put_in_moves [OF assms(1-3) p(1) that])
  have refl: "moves g g" by (rule moves_refl [OF assms(1,2)])
  have target: "pp_currentRoundBet ?p \<le> t" if "raise_target (pp_currentRoundBet ?p + pp_chips ?p) (maxBet g + pg_minRaise g) n = Some t" for n t
    using that high raise chips by (auto simp: raise_target_def split: jsnum.splits)
  have fold: "moves g (pk_set i (\<lambda>p. p\<lparr>pp_folded := True\<rparr>) g)" by (rule flag_moves [OF refl]) (simp_all add: stake_def solvent_def)
  have all_in: "moves g (pk_set i (\<lambda>p. p\<lparr>pp_allIn := True\<rparr>) k)" if "moves g k" for k by (rule flag_moves [OF that]) (simp_all add: stake_def solvent_def)
  show ?thesis
    using assms(5) acted_moves [OF fold] acted_moves [OF refl] acted_moves [OF pay] raised_moves [OF pay] raised_moves [OF all_in [OF pay]] refl chips high target
    by (auto simp: take_action_def Let_def split: if_splits option.splits)
qed

text \<open>What a step of a hand does to the chips: a hand that ends pays the pot, or the part of it that players still at the table have put in.\<close>

definition lost :: "poker \<Rightarrow> int" where
  "lost g = (if in_hand_phase g then pg_pot g - stakes g else 0)"

definition settles :: "poker \<Rightarrow> poker \<Rightarrow> bool" where
  "settles g h \<longleftrightarrow> bank_ok h \<and> pending h = pending g \<and> bank h \<le> bank g \<and> bank g - lost g \<le> bank h \<and> (in_hand_phase h \<longrightarrow> bank h = bank g \<and> lost h = lost g)"

lemma settles_moves: "moves g h \<Longrightarrow> in_hand_phase g \<Longrightarrow> 0 \<le> lost g \<Longrightarrow> settles g h"
  by (simp add: moves_def settles_def bank_def lost_def)

lemma settles_after:
  assumes "moves g h" "in_hand_phase g" "settles h k"
  shows "settles g k"
  using assms by (simp add: moves_def settles_def bank_def lost_def)

lemma settles_refl: "bank_ok g \<Longrightarrow> 0 \<le> lost g \<Longrightarrow> settles g g"
  by (simp add: settles_def)

lemma pot_nonneg: "bank_ok g \<Longrightarrow> in_hand_phase g \<Longrightarrow> 0 \<le> lost g \<Longrightarrow> 0 \<le> pg_pot g"
proof -
  assume g: "bank_ok g" "in_hand_phase g" "0 \<le> lost g"
  have "0 \<le> sum_list (map stake (pg_players g))"
    by (rule sum_list_nonneg) (use g(1) in \<open>auto simp: bank_ok_def solvent_def stake_def\<close>)
  then show ?thesis using g by (simp add: lost_def stakes_def)
qed

lemma showdown_settles:
  assumes "moves g g1" "in_hand_phase g" "0 \<le> lost g" "showdown g1 = h"
  shows "settles g h"
proof -
  have g1: "bank_ok g1" "in_hand_phase g1" "0 \<le> lost g1" using moves_ok [OF assms(1)] assms(1-3) by (simp_all add: lost_def moves_def)
  have "settles g1 h" using showdown_bank [OF g1(1) assms(4)] g1(2,3) by (auto simp: settles_def bank_def lost_def)
  then show ?thesis by (rule settles_after [OF assms(1,2)])
qed

lemma award_settles:
  assumes "bank_ok g" "in_hand_phase g" "0 \<le> lost g" "awardUncontested g = (b, h)"
  shows "settles g h"
  using award_bank [OF assms(1,2) pot_nonneg [OF assms(1-3)]] award_refused [of g h] settles_refl [OF assms(1,3)] assms(3,4)
  by (cases b) (auto simp: settles_def)

lemma after_action_settles:
  assumes "bank_ok g" "in_hand_phase g" "0 \<le> lost g" "after_action g = h"
  shows "settles g h"
proof (cases "awardUncontested g")
  case (Pair b g1)
  show ?thesis
  proof (cases b)
    case True
    then show ?thesis using award_settles [OF assms(1-3) Pair] assms(4) Pair by (simp add: after_action_def)
  next
    case False
    then have g1: "g1 = g" using award_refused [of g g1] Pair by simp
    define live where "live = list_ex (\<lambda>p. \<not> pp_allIn p) (activeInHand g)"
    define g2 where "g2 = (if \<not> live \<and> pg_street g \<noteq> StRiver then runoutBoard g else g)"
    have m2: "moves g g2" using runout_moves moves_refl assms by (simp add: g2_def)
    have "after_action g = (if bettingComplete g then if \<not> live \<or> pg_street g2 = StRiver then showdown g2 else advanceStreet g2 else pass_turn g)"
      using Pair False g1 by (simp add: after_action_def Let_def live_def g2_def)
    moreover have "moves g (pass_turn g)" using moves_next [OF moves_refl, of g "pass_turn g"] assms by (simp add: pass_turn_def)
    moreover have "moves g (advanceStreet g2)" using advance_moves [of g2] moves_ok [OF m2] moves_trans [OF m2] by blast
    ultimately show ?thesis using showdown_settles [OF m2 assms(2,3)] settles_moves assms by (auto split: if_splits)
  qed
qed

lemma idle_cannot_act:
  assumes "bank_ok g" "\<not> in_hand_phase g" "pk_at g (pg_toActIdx g) = Some p"
  shows "\<not> can_act p"
proof -
  have "idle g" using assms by (simp add: bank_ok_def)
  moreover have "p \<in> set (pg_players g)" "pg_toActIdx g \<noteq> - 1" using pk_at_Some [OF assms(3)] by auto
  ultimately show ?thesis by (auto simp: idle_def can_act_def)
qed

lemma apply_action_settles:
  assumes "bank_ok g" "0 \<le> lost g" "apply_action x act g = Some h"
  shows "settles g h"
proof (cases "pk_at g (pg_toActIdx g)")
  case None
  then show ?thesis using settles_refl [OF assms(1,2)] assms(3) by (simp add: apply_action_def)
next
  case (Some p)
  show ?thesis
  proof (cases "pp_peerId p = x \<and> can_act p")
    case False
    then show ?thesis using settles_refl [OF assms(1,2)] assms(3) Some by (auto simp: apply_action_def)
  next
    case True
    then have hand: "in_hand_phase g" using idle_cannot_act [OF assms(1) _ Some] by blast
    note at = pk_at_Some [OF Some]
    show ?thesis
    proof (cases "take_action (nat (pg_toActIdx g)) x act g")
      case (Acted k)
      have m: "moves g k" by (rule take_action_moves [OF assms(1) hand _ _ Acted]) (use at True in auto)
      have "after_action k = h" using Acted assms(3) Some True by (simp add: apply_action_def)
      moreover have "0 \<le> lost k" using m assms(2) hand by (simp add: lost_def moves_def)
      ultimately have "settles k h" using after_action_settles moves_ok [OF m] by blast
      then show ?thesis by (rule settles_after [OF m hand])
    qed (use settles_refl [OF assms(1,2)] assms(3) Some True in \<open>auto simp: apply_action_def\<close>)
  qed
qed

end
