(* ===== verification/Poker_Run.thy ===== *)
theory Poker_Run
  imports Poker_Facts
begin

text \<open>
  A poker table over any sequence of messages, timers and calls of the host's page, each with the peers and random
  numbers of its moment: where its chips come from and where they go, and who wins a hand.
\<close>

section \<open>The start of a hand\<close>

lemma index_exists:
  assumes "0 < n" "- 1 \<le> from" "j < n"
  shows "\<exists>k. 1 \<le> k \<and> k \<le> n \<and> js_mod (from + int k + int n) (int n) = int j"
proof -
  define k where "k = nat ((int j - from - 1) mod int n) + 1"
  have k: "int k = (int j - from - 1) mod int n + 1" using assms(1) by (simp add: k_def)
  have "(int j - from - 1) mod int n < int n" "0 \<le> (int j - from - 1) mod int n" using assms(1) by simp_all
  then have "1 \<le> k" "k \<le> n" using k by linarith+
  moreover have "js_mod (from + int k + int n) (int n) = (from + int k + int n) mod int n" using assms(2) \<open>1 \<le> k\<close> by (simp add: js_mod_def)
  moreover have "from + int k + int n = (int j - from - 1) mod int n + (from + 1 + int n)" using k by simp
  then have "(from + int k + int n) mod int n = (int j - from - 1 + (from + 1 + int n)) mod int n" by (simp only: mod_add_left_eq)
  ultimately show ?thesis using assms(3) by auto
qed

definition seated_in_hand :: "poker \<Rightarrow> int \<Rightarrow> bool" where
  "seated_in_hand g i \<longleftrightarrow> 0 \<le> i \<and> nat i < length (pg_players g) \<and> pp_inHand (pg_players g ! nat i)"

lemma in_hand_same:
  assumes "map pp_inHand (pg_players h) = map pp_inHand (pg_players g)"
  shows "seated_in_hand h i = seated_in_hand g i"
proof -
  have n: "length (pg_players h) = length (pg_players g)" using map_eq_imp_length_eq [OF assms] .
  have "pp_inHand (pg_players h ! k) = pp_inHand (pg_players g ! k)" if "k < length (pg_players g)" for k
    using arg_cong [OF assms, of "\<lambda>xs. xs ! k"] that n by simp
  then show ?thesis using n by (auto simp: seated_in_hand_def)
qed

lemma next_in_hand:
  assumes "- 1 \<le> from" "seated_in_hand g j"
  shows "seated_in_hand g (nextInHandIndex g from)"
proof -
  let ?n = "length (pg_players g)" and ?idx = "\<lambda>k. js_mod (from + int k + int (length (pg_players g))) (int (length (pg_players g)))"
  have j: "0 \<le> j" "nat j < ?n" "pp_inHand (pg_players g ! nat j)" using assms(2) by (simp_all add: seated_in_hand_def)
  have n: "0 < ?n" using j(2) by linarith
  obtain k where k: "1 \<le> k" "k \<le> ?n" "?idx k = int (nat j)" using index_exists [OF n assms(1) j(2)] by blast
  then have "pp_inHand (pg_players g ! nat (?idx k))" using j(1,3) by simp
  moreover have "k \<in> set [1..<Suc ?n]" using k(1,2) by auto
  ultimately have "List.find (\<lambda>k. pp_inHand (pg_players g ! nat (?idx k))) [1..<Suc ?n] \<noteq> None" unfolding find_None_iff by blast
  then obtain m where m: "List.find (\<lambda>k. pp_inHand (pg_players g ! nat (?idx k))) [1..<Suc ?n] = Some m" by blast
  then have "pp_inHand (pg_players g ! nat (?idx m))" by (auto simp: find_Some_iff)
  moreover have "0 \<le> from + int m + int ?n" using assms(1) n by linarith
  then have "0 \<le> ?idx m \<and> ?idx m < int ?n" using n by (simp add: js_mod_def)
  moreover have "nextInHandIndex g from = ?idx m" using m by (simp add: nextInHandIndex_def Let_def)
  ultimately show ?thesis by (auto simp: seated_in_hand_def)
qed

lemma index_bound: "- 1 \<le> from \<Longrightarrow> - 1 \<le> nextInHandIndex g from"
proof (cases "\<exists>j. seated_in_hand g j")
  case True
  then show "- 1 \<le> from \<Longrightarrow> - 1 \<le> nextInHandIndex g from" using next_in_hand by (fastforce simp: seated_in_hand_def)
next
  case False
  have "nextInHandIndex g from = - 1" if "- 1 \<le> from"
  proof (rule ccontr)
    assume "nextInHandIndex g from \<noteq> - 1"
    then obtain k where k: "List.find (\<lambda>k. pp_inHand (pg_players g ! nat (js_mod (from + int k + int (length (pg_players g))) (int (length (pg_players g))))))
        [1..<Suc (length (pg_players g))] = Some k" by (auto simp: nextInHandIndex_def Let_def split: option.splits)
    then have n: "0 < length (pg_players g)" by (cases "pg_players g") auto
    let ?i = "js_mod (from + int k + int (length (pg_players g))) (int (length (pg_players g)))"
    have "pp_inHand (pg_players g ! nat ?i)" using k by (auto simp: find_Some_iff)
    moreover have "0 \<le> from + int k + int (length (pg_players g))" using that n by linarith
    then have "0 \<le> ?i \<and> ?i < int (length (pg_players g))" using n by (simp add: js_mod_def)
    ultimately have "seated_in_hand g ?i" by (auto simp: seated_in_hand_def)
    then show False using False by blast
  qed
  then show "- 1 \<le> from \<Longrightarrow> - 1 \<le> nextInHandIndex g from" by simp
qed

text \<open>The chips that were granted during a hand.\<close>

lemma grant_sums:
  assumes "\<forall>p \<in> set (pg_players g). solvent p"
  shows "stacks (pk_all grant_pending g) + pending (pk_all grant_pending g) \<le> stacks g + pending g"
proof -
  have "pp_chips (grant_pending p) + pp_pendingChips (grant_pending p) \<le> pp_chips p + pp_pendingChips p" for p
    by (simp add: grant_pending_def)
  then have "sum_list (map (\<lambda>p. pp_chips (grant_pending p) + pp_pendingChips (grant_pending p)) (pg_players g)) \<le>
      sum_list (map (\<lambda>p. pp_chips p + pp_pendingChips p) (pg_players g))" by (rule sum_list_mono)
  then show ?thesis by (simp add: stacks_def pending_def pk_all_def comp_def sum_list_addf)
qed

lemma grant_none: "\<forall>p \<in> set (pg_players g). pp_pendingChips p = 0 \<Longrightarrow> pk_all grant_pending g = g"
proof -
  assume "\<forall>p \<in> set (pg_players g). pp_pendingChips p = 0"
  then have "map grant_pending (pg_players g) = pg_players g" by (intro map_idI) (simp add: grant_pending_def)
  then show ?thesis by (simp add: pk_all_def)
qed

lemma bank_ok_all:
  assumes "bank_ok g" "\<And>p. pp_peerId (f p) = pp_peerId p" "\<And>p. solvent p \<Longrightarrow> solvent (f p)" "in_hand_phase g \<or> (\<forall>p. pp_inHand (f p) = pp_inHand p)"
  shows "bank_ok (pk_all f g)"
  using assms by (auto simp: bank_ok_def pk_all_def pids_def comp_def in_hand_phase_def idle_def)

lemma grant_ok: "bank_ok g \<Longrightarrow> bank_ok (pk_all grant_pending g)"
  by (rule bank_ok_all) (auto simp: grant_pending_def solvent_def)

text \<open>The antes and blinds of a table in the hand.\<close>

lemma antes_moves:
  assumes "bank_ok g" "in_hand_phase g"
  shows "moves g (antes g)"
proof (cases "max 0 (ps_ante (pg_cfg g)) > 0")
  case True
  define ante where "ante = max 0 (ps_ante (pg_cfg g))"
  define paid where "paid p = (if pp_inHand p then min ante (pp_chips p) else 0)" for p :: pk_player
  have h: "antes g = (pk_all (pay_ante ante) g)\<lparr>pg_pot := pg_pot g + sum_list (map paid (pg_players g))\<rparr>"
    using True by (simp add: antes_def ante_def [symmetric] paid_def [abs_def] Let_def)
  have one: "pp_chips (pay_ante ante p) = pp_chips p - paid p" "stake (pay_ante ante p) = stake p + paid p" "pp_peerId (pay_ante ante p) = pp_peerId p"
    "pp_pendingChips (pay_ante ante p) = pp_pendingChips p" for p
    by (simp_all add: pay_ante_def paid_def stake_def Let_def)
  have ok: "bank_ok (pk_all (pay_ante ante) g)"
    by (rule bank_ok_all [OF assms(1)]) (use True assms(2) in \<open>auto simp: pay_ante_def solvent_def Let_def ante_def\<close>)
  have sums: "stacks (pk_all (pay_ante ante) g) = stacks g - sum_list (map paid (pg_players g))"
    "stakes (pk_all (pay_ante ante) g) = stakes g + sum_list (map paid (pg_players g))"
    "pids (pk_all (pay_ante ante) g) = pids g" "pending (pk_all (pay_ante ante) g) = pending g"
    by (simp_all add: stacks_def stakes_def pids_def pending_def pk_all_def comp_def one sum_list_subtractf sum_list_addf)
  have "0 \<le> sum_list (map paid (pg_players g))"
    by (rule sum_list_nonneg) (use assms(1) True in \<open>auto simp: paid_def ante_def bank_ok_def solvent_def\<close>)
  moreover have "bank_ok (antes g)" "in_hand_phase (antes g)" "pids (antes g) = pids g"
    using ok assms(2) sums(3) by (simp_all add: h bank_ok_def idle_def pids_def in_hand_phase_def pk_all_def)
  ultimately show ?thesis using sums by (simp add: h moves_def) 
next
  case False
  then show ?thesis using moves_refl [OF assms] by (simp add: antes_def)
qed

lemma antes_same: "map pp_inHand (pg_players (antes g)) = map pp_inHand (pg_players g)" "pg_dealerIdx (antes g) = pg_dealerIdx g"
    "pg_cfg (antes g) = pg_cfg g" "antes (g\<lparr>pg_phase := ph\<rparr>) = (antes g)\<lparr>pg_phase := ph\<rparr>"
  by (simp_all add: antes_def Let_def pk_all_def pay_ante_def)

lemma post_blind_moves:
  assumes "moves g0 g" "seated_in_hand g i" "0 \<le> blind"
  shows "moves g0 (post_blind i blind g)"
proof -
  note g = moves_ok [OF assms(1)]
  have i: "nat i < length (pg_players g)" "pp_inHand (pg_players g ! nat i)" using assms(2) by (simp_all add: seated_in_hand_def)
  then have "0 \<le> pp_chips (pg_players g ! nat i)" using g by (simp add: bank_ok_def solvent_def)
  then have "moves g (post_blind i blind g)" unfolding post_blind_def using assms(3) i g by (intro put_in_moves) auto
  then show ?thesis by (rule moves_trans [OF assms(1)])
qed

lemma post_blind_same: "map pp_inHand (pg_players (post_blind i blind g)) = map pp_inHand (pg_players g)" "pg_cfg (post_blind i blind g) = pg_cfg g"
    "pg_dealerIdx (post_blind i blind g) = pg_dealerIdx g" "post_blind i blind (g\<lparr>pg_phase := ph\<rparr>) = (post_blind i blind g)\<lparr>pg_phase := ph\<rparr>"
proof -
  have "map pp_inHand (xs[k := y]) = map pp_inHand xs" if "pp_inHand y = pp_inHand (xs ! k)" for xs k y
    using that by (cases "k < length xs") (simp_all add: map_update list_update_beyond list_update_same_conv)
  from this [of _ "pg_players g" "nat i"] show "map pp_inHand (pg_players (post_blind i blind g)) = map pp_inHand (pg_players g)"
    by (simp add: post_blind_def put_in_def pk_set_def)
qed (simp_all add: post_blind_def put_in_def pk_set_def)

lemma deal_same: "(\<And>p cs. f (p\<lparr>pp_hole := cs\<rparr>) = f p) \<Longrightarrow> map f (fst (deal_holes ps deck)) = map f ps"
  by (induction ps deck rule: deal_holes.induct) (auto simp: Let_def split: prod.splits)

lemma deal_solvent: "\<forall>p \<in> set ps. solvent p \<Longrightarrow> \<forall>p \<in> set (fst (deal_holes ps deck)). solvent p"
  by (induction ps deck rule: deal_holes.induct) (auto simp: Let_def solvent_def split: prod.splits)

text \<open>The blinds of a table.\<close>

definition with_blinds :: "nat \<Rightarrow> poker \<Rightarrow> poker" where
  "with_blinds n g3 =
     (let sb = (if n = 2 then pg_dealerIdx g3 else nextInHandIndex g3 (pg_dealerIdx g3)); bb = nextInHandIndex g3 sb
      in post_blind bb (ps_bigBlind (pg_cfg g3)) (post_blind sb (ps_smallBlind (pg_cfg g3)) g3))"

lemma fresh_facts:
  assumes "bank_ok g"
  shows "bank_ok ((fresh_hand env g)\<lparr>pg_phase := PkStreet StPreflop\<rparr>)" "pg_pot (fresh_hand env g) = 0" "stakes (fresh_hand env g) = 0" "stacks (fresh_hand env g) = stacks g"
    "pending (fresh_hand env g) = pending g"
proof -
  have "stake (new_hand p) = 0" "pp_chips (new_hand p) = pp_chips p" "pp_pendingChips (new_hand p) = pp_pendingChips p" "pp_peerId (new_hand p) = pp_peerId p"
    "solvent p \<Longrightarrow> solvent (new_hand p)" for p by (simp_all add: new_hand_def stake_def solvent_def)
  note one = this
  show "stakes (fresh_hand env g) = 0" "stacks (fresh_hand env g) = stacks g" "pending (fresh_hand env g) = pending g" "pg_pot (fresh_hand env g) = 0"
    by (simp_all add: fresh_hand_def Let_def stakes_def stacks_def pending_def pk_all_def comp_def one)
  show "bank_ok ((fresh_hand env g)\<lparr>pg_phase := PkStreet StPreflop\<rparr>)"
    using assms by (simp add: bank_ok_def fresh_hand_def Let_def pids_def pk_all_def comp_def one in_hand_phase_def blinds_ok_def index_bound)
qed

lemma fresh_seat:
  assumes "bank_ok g" "0 < length (filter is_ready (pg_players g))"
  shows "seated_in_hand (fresh_hand env g) (pg_dealerIdx (fresh_hand env g))"
proof -
  obtain p where "p \<in> set (pg_players g)" "is_ready p" using assms(2) by (auto simp: filter_empty_conv)
  then obtain j where j: "j < length (pg_players g)" "is_ready (pg_players g ! j)" by (auto simp: in_set_conv_nth)
  define g2 where "g2 = pk_all new_hand (g\<lparr>pg_handNumber := pg_handNumber g + 1, pg_deck := shuffle_deck (pe_random env (pg_shuffles g)) makeDeck,
            pg_shuffles := Suc (pg_shuffles g), pg_board := [], pg_pot := 0, pg_currentBet := 0, pg_minRaise := ps_bigBlind (pg_cfg g) * ps_minRaiseBB (pg_cfg g),
            pg_lastRaise := ps_bigBlind (pg_cfg g) * ps_minRaiseBB (pg_cfg g), pg_acted := []\<rparr>)"
  have fresh: "fresh_hand env g = g2\<lparr>pg_dealerIdx := nextInHandIndex g2 (pg_dealerIdx g2)\<rparr>" by (simp add: fresh_hand_def g2_def Let_def)
  have "pg_dealerIdx g2 = pg_dealerIdx g" "seated_in_hand g2 (int j)" using j by (simp_all add: g2_def pk_all_def seated_in_hand_def new_hand_def)
  then have "seated_in_hand g2 (nextInHandIndex g2 (pg_dealerIdx g2))" using assms(1) by (intro next_in_hand) (simp_all add: bank_ok_def)
  then show ?thesis by (simp add: fresh seated_in_hand_def)
qed

lemma index_phase [simp]: "nextInHandIndex (g\<lparr>pg_phase := ph\<rparr>) i = nextInHandIndex g i"
  by (simp add: nextInHandIndex_def)

lemma blinds_phase: "with_blinds n (g\<lparr>pg_phase := ph\<rparr>) = (with_blinds n g)\<lparr>pg_phase := ph\<rparr>"
  by (simp add: with_blinds_def post_blind_same Let_def)

lemma blinds_moves:
  assumes "moves g0 g" "seated_in_hand g (pg_dealerIdx g)"
  shows "moves g0 (with_blinds n g)"
proof -
  define sb where "sb = (if n = 2 then pg_dealerIdx g else nextInHandIndex g (pg_dealerIdx g))"
  define bb where "bb = nextInHandIndex g sb"
  have g: "bank_ok g" using moves_ok [OF assms(1)] by simp
  have sb: "seated_in_hand g sb" using next_in_hand [OF _ assms(2)] assms(2) g by (simp add: sb_def bank_ok_def)
  then have "- 1 \<le> sb" by (simp add: seated_in_hand_def)
  then have bb: "seated_in_hand g bb" unfolding bb_def by (rule next_in_hand [OF _ sb])
  have blinds: "0 \<le> ps_smallBlind (pg_cfg g)" "0 \<le> ps_bigBlind (pg_cfg g)" using g by (simp_all add: bank_ok_def blinds_ok_def)
  have "moves g0 (post_blind sb (ps_smallBlind (pg_cfg g)) g)" by (rule post_blind_moves [OF assms(1) sb blinds(1)])
  then have "moves g0 (post_blind bb (ps_bigBlind (pg_cfg g)) (post_blind sb (ps_smallBlind (pg_cfg g)) g))"
    by (rule post_blind_moves) (use bb blinds(2) in \<open>simp_all add: in_hand_same [OF post_blind_same(1)]\<close>)
  then show ?thesis by (simp add: with_blinds_def sb_def bb_def Let_def)
qed

text \<open>The cards are dealt: everything but the holes and the deck stays.\<close>

lemma dealt_moves:
  assumes "moves g0 g" "pg_players h = fst (deal_holes (pg_players g) (pg_deck g))" "pg_cfg h = pg_cfg g" "in_hand_phase h" "pg_minRaise h = pg_minRaise g"
    "pg_dealerIdx h = pg_dealerIdx g" "pg_pot h = pg_pot g"
  shows "moves g0 h"
proof -
  have same: "map f (pg_players h) = map f (pg_players g)" if "\<And>p cs. f (p\<lparr>pp_hole := cs\<rparr>) = f p" for f :: "pk_player \<Rightarrow> 'b"
    unfolding assms(2) by (rule deal_same [OF that])
  have sums: "stacks h = stacks g" "stakes h = stakes g" "pending h = pending g" "pids h = pids g"
    by (simp_all add: stacks_def stakes_def pending_def pids_def same stake_def)
  note g = moves_ok [OF assms(1)]
  have "\<forall>p \<in> set (pg_players h). solvent p" unfolding assms(2) using g by (intro deal_solvent) (simp add: bank_ok_def)
  then have "bank_ok h" using g assms sums by (simp add: bank_ok_def)
  then show ?thesis using assms sums by (simp add: moves_def)
qed

lemma open_hand_moves:
  assumes "moves g0 ((with_blinds n g)\<lparr>pg_phase := PkStreet StPreflop\<rparr>)"
  shows "moves g0 (open_hand n g)"
  by (rule dealt_moves [OF assms]) (simp_all add: open_hand_def with_blinds_def Let_def in_hand_phase_def split: prod.splits)

lemma startHand_bank:
  assumes "bank_ok g" "startHand env g = (b, h)"
  shows "bank_ok h \<and> (in_hand_phase g \<longrightarrow> h = g) \<and> (\<not> in_hand_phase g \<longrightarrow> lost h = 0 \<and> bank h + pending h \<le> bank g + pending g \<and>
    ((\<forall>p \<in> set (pg_players g). pp_pendingChips p = 0) \<longrightarrow> bank h = bank g))"
proof -
  define g1 where "g1 = pk_all grant_pending (g\<lparr>pg_winners := []\<rparr>)"
  have w: "bank_ok (g\<lparr>pg_winners := []\<rparr>)" using assms(1) by (simp add: bank_ok_def pids_def idle_def)
  have g1: "bank_ok g1" unfolding g1_def by (rule grant_ok [OF w])
  have le: "stacks g1 + pending g1 \<le> stacks g + pending g" using grant_sums [of "g\<lparr>pg_winners := []\<rparr>"] w by (simp add: g1_def bank_ok_def)
  have eq: "stacks g1 = stacks g" if "\<forall>p \<in> set (pg_players g). pp_pendingChips p = 0" using grant_none [of "g\<lparr>pg_winners := []\<rparr>"] that by (simp add: g1_def)
  have phase: "in_hand_phase g1 = in_hand_phase g" by (simp add: g1_def pk_all_def in_hand_phase_def)
  define n where "n = length (filter is_ready (pg_players g1))"
  define k where "k = open_hand n (antes (fresh_hand env g1))"
  have run: "startHand env g = (if in_hand_phase g then (False, g) else if n < 2 then (False, g1)
      else if (case pk_at k (pg_toActIdx k) of None \<Rightarrow> True | Some p \<Rightarrow> pp_allIn p) then (False, showdown k) else (True, k))"
    by (simp add: startHand_def in_hand_phase_def g1_def n_def k_def Let_def)
  consider "in_hand_phase g" "h = g" | "\<not> in_hand_phase g" "h = g1" | "\<not> in_hand_phase g" "2 \<le> n" "showdown k = h \<or> h = k"
    using assms(2) unfolding run by (auto split: if_splits)
  then show ?thesis
  proof cases
    case 1
    then show ?thesis using assms(1) by simp
  next
    case 2
    then show ?thesis using g1 le eq phase by (simp add: lost_def bank_def)
  next
    case 3
    define G where "G = (fresh_hand env g1)\<lparr>pg_phase := PkStreet StPreflop\<rparr>"
    have G: "bank_ok G" "in_hand_phase G" "stakes G = 0" "pg_pot G = 0" "stacks G = stacks g1" "pending G = pending g1"
      using fresh_facts [OF g1, of env] by (simp_all add: G_def in_hand_phase_def)
    have "0 < length (filter is_ready (pg_players g1))" using 3(2) unfolding n_def by linarith
    then have "seated_in_hand G (pg_dealerIdx G)" using fresh_seat [OF g1, of env] by (simp add: G_def seated_in_hand_def)
    then have "seated_in_hand (antes G) (pg_dealerIdx (antes G))" by (simp add: in_hand_same [OF antes_same(1)] antes_same)
    then have "moves G (with_blinds n (antes G))" by (intro blinds_moves antes_moves [OF G(1,2)])
    then have "moves G ((with_blinds n (antes (fresh_hand env g1)))\<lparr>pg_phase := PkStreet StPreflop\<rparr>)" by (simp add: G_def antes_same blinds_phase)
    then have "moves G k" unfolding k_def by (rule open_hand_moves)
    then have "settles G h" using 3(3) showdown_settles [OF _ G(2), of k h] settles_moves [OF _ G(2), of k] G(3,4) by (auto simp: lost_def)
    then have "bank_ok h" "pending h = pending g1" "bank h = stacks g1" "lost h = 0" using G by (auto simp: settles_def lost_def bank_def)
    then show ?thesis using le eq 3(1) by (simp add: bank_def)
  qed
qed

section \<open>Joining and leaving\<close>

text \<open>Chips at the table, with those granted for the next hand, only get fewer, and none of the pot is lost that was not lost before.\<close>

definition keeps :: "poker \<Rightarrow> poker \<Rightarrow> bool" where
  "keeps g h \<longleftrightarrow> bank_ok h \<and> 0 \<le> lost h \<and> bank h + pending h \<le> bank g + pending g"

lemma keeps_refl: "bank_ok g \<Longrightarrow> 0 \<le> lost g \<Longrightarrow> keeps g g"
  by (simp add: keeps_def)

lemma keeps_trans: "keeps g h \<Longrightarrow> keeps h k \<Longrightarrow> keeps g k"
  by (simp add: keeps_def)

lemma keeps_settles: "settles g h \<Longrightarrow> 0 \<le> lost g \<Longrightarrow> keeps g h \<and> lost h \<le> lost g"
  by (cases "in_hand_phase h") (auto simp: settles_def keeps_def lost_def)

lemma sum_cut: "i < length xs \<Longrightarrow> sum_list (map f (take i xs @ drop (Suc i) xs)) = sum_list (map f xs) - (f (xs ! i) :: int)"
  using arg_cong [OF id_take_nth_drop [of i xs], of "\<lambda>ys. sum_list (map f ys)"] by simp

lemma cut_sub: "set (take i xs @ drop (Suc i) xs) \<subseteq> set xs"
  using set_take_subset [of i xs] set_drop_subset [of "Suc i" xs] by auto

lemma cut_distinct: "distinct (map f xs) \<Longrightarrow> distinct (map f (take i xs @ drop (Suc i) xs))"
proof (cases "i < length xs")
  case True
  then have "map f xs = map f (take i xs) @ f (xs ! i) # map f (drop (Suc i) xs)" using arg_cong [OF id_take_nth_drop, of i xs "map f"] by simp
  then show "distinct (map f xs) \<Longrightarrow> distinct (map f (take i xs @ drop (Suc i) xs))" by (auto simp: drop_map take_map)
qed simp

lemma cut_keeps:
  assumes "bank_ok g" "0 \<le> lost g" "i < length (pg_players g)" "pg_players h = pg_players (cut_player i g)" "pg_cfg h = pg_cfg g" "pg_minRaise h = pg_minRaise g"
    "pg_pot h = pg_pot g" "- 1 \<le> pg_dealerIdx h" "pg_phase h = pg_phase g \<or> pg_players h = [] \<and> \<not> in_hand_phase h"
    "pg_toActIdx g = - 1 \<longrightarrow> pg_toActIdx h = - 1"
  shows "keeps g h \<and> (stake (pg_players g ! i) = 0 \<longrightarrow> lost h \<le> lost g)"
proof -
  let ?p = "pg_players g ! i"
  have players: "pg_players h = take i (pg_players g) @ drop (Suc i) (pg_players g)" using assms(4) by (simp add: cut_player_def)
  have sums: "stacks h = stacks g - pp_chips ?p" "stakes h = stakes g - stake ?p" "pending h = pending g - pp_pendingChips ?p"
    unfolding stacks_def stakes_def pending_def players by (simp_all only: sum_cut [OF assms(3)])
  have p: "0 \<le> pp_chips ?p" "0 \<le> stake ?p" "0 \<le> pp_pendingChips ?p" using assms(1,3) by (auto simp: bank_ok_def solvent_def stake_def)
  have sub: "set (pg_players h) \<subseteq> set (pg_players g)" unfolding players by (rule cut_sub)
  have "idle h" if "\<not> in_hand_phase h"
    using that sub assms(1,9,10) by (auto simp: bank_ok_def idle_def in_hand_phase_def)
  then have "bank_ok h" using assms(1,5,6,8) sub cut_distinct [of pp_peerId "pg_players g" i] by (auto simp: bank_ok_def pids_def players)
  moreover have "0 \<le> lost h \<and> bank h + pending h \<le> bank g + pending g \<and> (stake ?p = 0 \<longrightarrow> lost h \<le> lost g)"
  proof (cases "in_hand_phase h")
    case True
    then have "in_hand_phase g" using assms(9) by (auto simp: in_hand_phase_def)
    then show ?thesis using True sums p assms(2,7) by (simp add: lost_def bank_def)
  next
    case False
    have "0 \<le> pg_pot g" if "in_hand_phase g" using pot_nonneg [OF assms(1) that assms(2)] .
    then show ?thesis using False sums p assms(2) by (auto simp: lost_def bank_def)
  qed
  ultimately show ?thesis by (simp add: keeps_def)
qed

lemma lobby_fields: "pg_players (back_to_lobby g) = pg_players g" "pg_cfg (back_to_lobby g) = pg_cfg g" "pg_minRaise (back_to_lobby g) = pg_minRaise g"
    "pg_pot (back_to_lobby g) = pg_pot g" "pg_dealerIdx (back_to_lobby g) = pg_dealerIdx g" "pg_toActIdx (back_to_lobby g) = pg_toActIdx g"
    "pg_phase (back_to_lobby g) = pg_phase g \<or> pg_players (back_to_lobby g) = [] \<and> \<not> in_hand_phase (back_to_lobby g)"
  by (simp_all add: back_to_lobby_def in_hand_phase_def)

lemma moved_settles: "moves g k \<Longrightarrow> in_hand_phase g \<Longrightarrow> 0 \<le> lost g \<Longrightarrow> awardUncontested k = (b, h) \<Longrightarrow> settles g h"
proof -
  assume m: "moves g k" "in_hand_phase g" "0 \<le> lost g" "awardUncontested k = (b, h)"
  then have "0 \<le> lost k" by (simp add: moves_def lost_def)
  then have "settles k h" using award_settles m(4) moves_ok [OF m(1)] by blast
  then show ?thesis by (rule settles_after [OF m(1,2)])
qed

lemma fold_moves: "bank_ok g \<Longrightarrow> in_hand_phase g \<Longrightarrow> moves g (add_acted x (pk_set i (\<lambda>p. p\<lparr>pp_folded := True\<rparr>) g))"
  by (intro acted_moves flag_moves moves_refl) (simp_all add: stake_def solvent_def)

lemma remove_keeps:
  assumes "bank_ok g" "0 \<le> lost g" "remove_player x g = Some h"
  shows "keeps g h \<and> lost h \<le> lost g"
proof (cases "pk_find g x")
  case None
  then show ?thesis using assms keeps_refl by (simp add: remove_player_def)
next
  case (Some i)
  note i = pk_find_Some [OF Some]
  show ?thesis
  proof (cases "pp_inHand (pg_players g ! i) \<and> in_hand_phase g")
    case True
    define g1 where "g1 = pk_set i (\<lambda>p. p\<lparr>pp_connected := False\<rparr>) g"
    have m: "moves g g1" unfolding g1_def using True assms(1) by (intro flag_moves moves_refl) (simp_all add: stake_def solvent_def)
    then have g1: "bank_ok g1" "in_hand_phase g1" "0 \<le> lost g1" using moves_ok [OF m] True assms(2) by (simp_all add: lost_def moves_def)
    have "settles g h"
    proof (cases "int i = pg_toActIdx g1")
      case act: True
      then have "settles g1 h" using apply_action_settles [OF g1(1,3)] assms(3) Some True by (simp add: remove_player_def g1_def [symmetric])
      then show ?thesis using settles_after [OF m] True by blast
    next
      case False
      obtain b g2 where a: "awardUncontested (add_acted x (pk_set i (\<lambda>p. p\<lparr>pp_folded := True\<rparr>) g1)) = (b, g2)" by fastforce
      have m2: "moves g (add_acted x (pk_set i (\<lambda>p. p\<lparr>pp_folded := True\<rparr>) g1))" by (rule moves_trans [OF m fold_moves [OF g1(1,2)]])
      have "settles g g2" using moved_settles [OF m2 _ assms(2) a] True by simp
      moreover have "pg_players g2 \<noteq> []" if "\<not> b"
      proof -
        have "b = False" using that by simp
        from award_refused [OF a [unfolded this]] have "g2 = add_acted x (pk_set i (\<lambda>p. p\<lparr>pp_folded := True\<rparr>) g1)" .
        then have "length (pg_players g2) = length (pg_players g)" by (simp add: add_acted_def g1_def)
        then show ?thesis using i by auto
      qed
      ultimately show ?thesis using a assms(3) Some True False by (auto simp: remove_player_def g1_def [symmetric] back_to_lobby_def Let_def split: if_splits)
    qed
    then show ?thesis using keeps_settles assms(2) by blast
  next
    case False
    define d where "d = (if int i < pg_dealerIdx g then pg_dealerIdx g - 1 else pg_dealerIdx g)"
    define n where "n = int (length (pg_players (cut_player i g)))"
    have "remove_player x g = Some (back_to_lobby ((cut_player i g)\<lparr>pg_dealerIdx := (if n \<le> d then n - 1 else d)\<rparr>))"
      unfolding remove_player_def Some d_def n_def Let_def option.case if_not_P [OF False] ..
    then have h: "h = back_to_lobby ((cut_player i g)\<lparr>pg_dealerIdx := (if n \<le> d then n - 1 else d)\<rparr>)" using assms(3) by simp
    have "- 1 \<le> d" "0 \<le> n" using assms(1) by (auto simp: d_def n_def bank_ok_def)
    then have "keeps g h \<and> (stake (pg_players g ! i) = 0 \<longrightarrow> lost h \<le> lost g)"
      unfolding h using i lobby_fields [of "(cut_player i g)\<lparr>pg_dealerIdx := (if n \<le> d then n - 1 else d)\<rparr>"]
      by (intro cut_keeps [OF assms(1,2), of i]) (simp_all add: cut_player_def)
    moreover have "lost h \<le> lost g" if "\<not> in_hand_phase g"
    proof -
      have "\<not> in_hand_phase h" using that lobby_fields(7) [of "(cut_player i g)\<lparr>pg_dealerIdx := (if n \<le> d then n - 1 else d)\<rparr>"]
        by (auto simp: h in_hand_phase_def cut_player_def)
      then show ?thesis using that by (simp add: lost_def)
    qed
    ultimately show ?thesis using False by (auto simp: stake_def)
  qed
qed

lemma kick_pot_keeps:
  assumes "bank_ok g" "0 \<le> lost g" "i < length (pg_players g)"
  shows "keeps g (kick_from_pot i g)"
proof -
  define d where "d = (if int i < pg_dealerIdx g then pg_dealerIdx g - 1 else pg_dealerIdx g)"
  define n where "n = int (length (pg_players (cut_player i g)))"
  define k where "k = (cut_player i g)\<lparr>pg_dealerIdx := (if n \<le> d then max 0 (n - 1) else d)\<rparr>"
  have "- 1 \<le> d" using assms(1) by (auto simp: d_def bank_ok_def)
  then have k: "pg_players k = pg_players (cut_player i g)" "pg_cfg k = pg_cfg g" "pg_minRaise k = pg_minRaise g" "pg_pot k = pg_pot g" "- 1 \<le> pg_dealerIdx k"
    "pg_phase k = pg_phase g" "pg_toActIdx k = pg_toActIdx g" by (simp_all add: k_def cut_player_def le_max_iff_disj)
  have "kick_from_pot i g = back_to_lobby k" by (simp add: kick_from_pot_def k_def d_def n_def Let_def)
  then show ?thesis using cut_keeps [OF assms, of "back_to_lobby k"] lobby_fields [of k] k by simp
qed

lemma kick_seat_keeps:
  assumes "bank_ok g" "0 \<le> lost g" "i < length (pg_players g)"
  shows "keeps g (kick_seat i g)"
proof -
  define t where "t = (if int i < pg_toActIdx g then pg_toActIdx g - 1 else pg_toActIdx g)"
  define n where "n = int (length (pg_players g)) - 1"
  define k where "k = g\<lparr>pg_toActIdx := (if n \<le> t then max 0 (n - 1) else t)\<rparr>"
  have "pg_toActIdx k = - 1" if "pg_toActIdx g = - 1" using that assms(3) by (cases "pg_players g") (auto simp: k_def t_def n_def)
  then have "bank_ok k" "0 \<le> lost k" "bank k + pending k = bank g + pending g"
    using assms(1,2) by (auto simp: k_def bank_ok_def pids_def idle_def lost_def bank_def in_hand_phase_def)
  moreover have "kick_seat i g = kick_from_pot i k" by (simp add: kick_seat_def k_def t_def n_def Let_def)
  ultimately show ?thesis using kick_pot_keeps [of k i] assms(3) by (simp add: k_def keeps_def)
qed

lemma pass_moves: "bank_ok g \<Longrightarrow> in_hand_phase g \<Longrightarrow> moves g (pass_turn g)"
  by (rule moves_next [OF moves_refl]) (simp_all add: pass_turn_def)

lemma kick_keeps:
  assumes "bank_ok g" "0 \<le> lost g"
  shows "keeps g (snd (kick_player env x g))"
proof (cases "pk_find g x")
  case None
  then show ?thesis using assms keeps_refl by (simp add: kick_player_def)
next
  case (Some i)
  note i = pk_find_Some [OF Some]
  define k where "k = add_acted x (pk_set i (\<lambda>p. p\<lparr>pp_folded := True\<rparr>) g)"
  obtain b g1 where a: "awardUncontested k = (b, g1)" by fastforce
  have award: "keeps g g1 \<and> length (pg_players g1) = length (pg_players g) \<and> (\<not> b \<longrightarrow> in_hand_phase g1)" if "in_hand_phase g"
  proof -
    have m: "moves g k" unfolding k_def by (rule fold_moves [OF assms(1) that])
    have k: "bank_ok k" "in_hand_phase k" "0 \<le> lost k" using moves_ok [OF m] m assms(2) that by (simp_all add: lost_def moves_def)
    have "length (pids k) = length (pids g)" using m by (simp add: moves_def)
    moreover have "length (pids g1) = length (pids k)"
    proof (cases b)
      case True
      then show ?thesis using award_bank [OF k(1,2) pot_nonneg [OF k]] a by simp
    next
      case False
      then show ?thesis using award_refused [of k g1] a by simp
    qed
    moreover have "\<not> b \<longrightarrow> g1 = k" using award_refused [of k g1] a by auto
    ultimately show ?thesis using keeps_settles [OF moved_settles [OF m that assms(2) a] assms(2)] k(2) by (simp add: pids_def)
  qed
  have pass: "keeps g1 (pass_turn g1) \<and> length (pg_players (pass_turn g1)) = length (pg_players g1)" if "in_hand_phase g1" "keeps g g1"
    using keeps_settles [OF settles_moves [OF pass_moves that(1)]] that by (simp add: keeps_def pass_turn_def)
  have i1: "i < length (pg_players g)" using i by simp
  show ?thesis
  proof (cases "x = pe_selfId env \<or> \<not> (pp_inHand (pg_players g ! i) \<and> in_hand_phase g \<and> \<not> pp_folded (pg_players g ! i))")
    case True
    then show ?thesis using Some keeps_refl [OF assms] kick_seat_keeps [OF assms i1] by (auto simp: kick_player_def Let_def)
  next
    case False
    then have hand: "in_hand_phase g" by simp
    have "keeps g1 (kick_from_pot i g1)" using award [OF hand] i1 by (intro kick_pot_keeps) (simp_all add: keeps_def)
    moreover have "keeps g1 (kick_seat i g1)" using award [OF hand] i1 by (intro kick_seat_keeps) (simp_all add: keeps_def)
    moreover have "keeps (pass_turn g1) (kick_seat i (pass_turn g1))" if "\<not> b" using award [OF hand] pass i1 that by (intro kick_seat_keeps) (simp_all add: keeps_def)
    ultimately have "keeps g (kick_from_pot i g1)" "keeps g (kick_seat i g1)" "\<not> b \<longrightarrow> keeps g (kick_seat i (pass_turn g1))"
      using award [OF hand] pass keeps_trans by blast+
    then show ?thesis using Some a False by (auto simp: kick_player_def Let_def k_def [symmetric] split: option.splits)
  qed
qed

text \<open>Whoever sits down brings the starting chips.\<close>

lemma sort_sum: "sum_list (map f (sort_key k xs)) = (sum_list (map f xs) :: int)"
proof -
  have "mset (map f (sort_key k xs)) = mset (map f xs)" by simp
  then show ?thesis by (metis sum_mset_sum_list)
qed

lemma sort_distinct: "distinct (map f (sort_key k xs)) = distinct (map f xs)"
proof -
  have "mset (map f (sort_key k xs)) = mset (map f xs)" by simp
  then show ?thesis by (rule mset_eq_imp_distinct_iff)
qed

lemma seat_new:
  assumes "bank_ok g" "0 \<le> lost g" "pp_peerId p \<notin> set (pids g)" "solvent p" "\<not> pp_inHand p" "pp_pendingChips p = 0"
  shows "bank_ok (g\<lparr>pg_players := sort_key pp_seat (pg_players g @ [p])\<rparr>) \<and> lost (g\<lparr>pg_players := sort_key pp_seat (pg_players g @ [p])\<rparr>) = lost g \<and>
    bank (g\<lparr>pg_players := sort_key pp_seat (pg_players g @ [p])\<rparr>) = bank g + pp_chips p \<and> pending (g\<lparr>pg_players := sort_key pp_seat (pg_players g @ [p])\<rparr>) = pending g"
  using assms by (auto simp: bank_ok_def pids_def sort_distinct idle_def in_hand_phase_def lost_def bank_def stacks_def stakes_def pending_def sort_sum stake_def)

lemma flags_same:
  assumes "bank_ok g" "\<And>p. pp_peerId (f p) = pp_peerId p" "\<And>p. pp_inHand (f p) = pp_inHand p" "\<And>p. pp_chips (f p) = pp_chips p" "\<And>p. stake (f p) = stake p"
    "\<And>p. solvent (f p) = solvent p" "\<And>p. pp_pendingChips (f p) = pp_pendingChips p"
  shows "bank_ok (pk_set i f g) \<and> lost (pk_set i f g) = lost g \<and> bank (pk_set i f g) = bank g \<and> pending (pk_set i f g) = pending g"
proof (cases "i < length (pg_players g)")
  case True
  then have "bank_ok (pk_set i f g)" using assms(1) by (intro bank_ok_set [OF assms(1,2,3)]) (simp_all add: assms bank_ok_def)
  then show ?thesis using True by (simp add: lost_def bank_def pk_set_sums assms)
next
  case False
  then show ?thesis using assms(1) by (simp add: pk_set_def list_update_beyond)
qed

definition brings :: "string \<Rightarrow> poker \<Rightarrow> int" where
  "brings x g = (if pk_find g x = None then ps_startingChips (pg_cfg g) else 0)"

definition grows :: "poker \<Rightarrow> int \<Rightarrow> poker \<Rightarrow> bool" where
  "grows g credit h \<longleftrightarrow> bank_ok h \<and> 0 \<le> lost h \<and> lost h \<le> lost g \<and> bank h + pending h \<le> bank g + pending g + credit"

lemma grows_refl: "bank_ok g \<Longrightarrow> 0 \<le> lost g \<Longrightarrow> 0 \<le> credit \<Longrightarrow> grows g credit g"
  by (simp add: grows_def)

lemma grows_keeps: "keeps g h \<and> lost h \<le> lost g \<Longrightarrow> grows g 0 h"
  by (simp add: grows_def keeps_def)

lemma brings_nonneg: "bank_ok g \<Longrightarrow> 0 \<le> brings x g"
  by (simp add: brings_def bank_ok_def blinds_ok_def)

lemma add_player_grows:
  assumes "bank_ok g" "0 \<le> lost g"
  shows "grows g (brings x g) (snd (add_player x name g))"
proof (cases "pk_find g x")
  case None
  have refl: "grows g (brings x g) g" by (rule grows_refl [OF assms brings_nonneg [OF assms(1)]])
  define p where "p = \<lparr>pp_peerId = x, pp_name = js_orv name (Str (js_slice 8 x)), pp_seat = find_seat g, pp_chips = ps_startingChips (pg_cfg g), pp_folded = False,
                      pp_allIn = False, pp_currentRoundBet = 0, pp_totalBet = 0, pp_hole = [], pp_inHand = False, pp_isBot = isPokerBotId x, pp_connected = True,
                      pp_pendingChips = 0, pp_handsPlayed = 0, pp_handsWon = 0, pp_chipsGranted = 0\<rparr>"
  have chips: "0 \<le> ps_startingChips (pg_cfg g)" using assms(1) by (simp add: bank_ok_def blinds_ok_def)
  have new: "x \<notin> set (pids g)" using None pk_find_pids by blast
  have "grows g (brings x g) (g\<lparr>pg_players := sort_key pp_seat (pg_players g @ [p])\<rparr>)"
    using seat_new [OF assms, of p] new chips assms(2) None by (simp add: p_def solvent_def grows_def brings_def)
  then show ?thesis using refl None by (simp add: add_player_def Let_def p_def)
next
  case (Some i)
  then show ?thesis using flags_same [OF assms(1), of "\<lambda>p. p\<lparr>pp_connected := True, pp_name := Str (js_slice 48 (js_String (js_orv (js_orv name (pp_name p)) (Str x))))\<rparr>" i] assms(2)
    by (simp add: add_player_def brings_def grows_def stake_def solvent_def)
qed

text \<open>Chips that the host grants or takes.\<close>

definition granted :: "jsv \<Rightarrow> int" where
  "granted amount = clampInt amount 1 1000000000 0"

lemma granted_nonneg: "0 \<le> granted amount"
  by (auto simp: granted_def clampInt_def split: jsnum.splits)

lemma set_sums_grow:
  assumes "bank_ok g" "0 \<le> lost g" "i < length (pg_players g)" "\<And>p. pp_peerId (f p) = pp_peerId p" "\<And>p. pp_inHand (f p) = pp_inHand p"
    "\<And>p. stake (f p) = stake p" "solvent (f (pg_players g ! i))"
    "pp_chips (f (pg_players g ! i)) + pp_pendingChips (f (pg_players g ! i)) \<le> pp_chips (pg_players g ! i) + pp_pendingChips (pg_players g ! i) + credit"
  shows "grows g credit (pk_set i f g)"
  using bank_ok_set [OF assms(1) assms(4,5) assms(7)] assms by (auto simp: grows_def lost_def bank_def pk_set_sums split: if_splits)

lemma addChips_grows:
  assumes "bank_ok g" "0 \<le> lost g"
  shows "grows g (granted amount) (snd (addChips x amount g))"
proof (cases "pk_find g x = None \<or> granted amount \<le> 0")
  case True
  then show ?thesis using grows_refl [OF assms granted_nonneg] by (auto simp: addChips_def granted_def Let_def split: option.splits)
next
  case False
  then obtain i where i: "pk_find g x = Some i" by auto
  note len = pk_find_Some [OF i]
  then have p: "solvent (pg_players g ! i)" using assms(1) by (simp add: bank_ok_def)
  define v where "v = granted amount"
  define f where "f p = (if in_hand_phase g then p\<lparr>pp_pendingChips := min 1000000000 (pp_pendingChips p + v)\<rparr> else p\<lparr>pp_chips := min 1000000000 (pp_chips p + v)\<rparr>)" for p :: pk_player
  have v: "0 < v" using False by (simp add: v_def)
  have step: "grows g v (pk_set i f g)"
    by (rule set_sums_grow [OF assms]) (use len p v in \<open>simp_all add: f_def stake_def solvent_def\<close>)
  define k where "k = pk_set i f g"
  have "grows k 0 (pk_set i (\<lambda>p. p\<lparr>pp_chipsGranted := pp_chipsGranted p + v\<rparr>) k)"
    using flags_same [of k "\<lambda>p. p\<lparr>pp_chipsGranted := pp_chipsGranted p + v\<rparr>" i] step by (simp add: k_def grows_def stake_def solvent_def)
  moreover have "snd (addChips x amount g) = pk_set i (\<lambda>p. p\<lparr>pp_chipsGranted := pp_chipsGranted p + v\<rparr>) k"
    using False i by (simp add: addChips_def granted_def v_def k_def f_def [abs_def] Let_def)
  ultimately show ?thesis using step by (simp add: k_def [symmetric] grows_def v_def)
qed

lemma removeChips_grows:
  assumes "bank_ok g" "0 \<le> lost g"
  shows "grows g 0 (snd (removeChips x amount g))"
proof (cases "pk_find g x = None \<or> granted amount \<le> 0 \<or> in_hand_phase g")
  case True
  then show ?thesis using grows_refl [OF assms] by (auto simp: removeChips_def granted_def Let_def split: option.splits)
next
  case False
  then obtain i where i: "pk_find g x = Some i" by auto
  note len = pk_find_Some [OF i]
  then have p: "solvent (pg_players g ! i)" using assms(1) by (simp add: bank_ok_def)
  have "grows g 0 (pk_set i (\<lambda>p. p\<lparr>pp_chips := max 0 (pp_chips p - granted amount)\<rparr>) g)"
    by (rule set_sums_grow [OF assms]) (use len p False in \<open>auto simp: stake_def solvent_def\<close>)
  then show ?thesis using False i by (simp add: removeChips_def granted_def Let_def)
qed

lemma clampInt_ge: "m \<le> lo \<Longrightarrow> m \<le> d \<Longrightarrow> m \<le> clampInt v lo hi d"
  by (auto simp: clampInt_def split: jsnum.splits)

lemma sanitize_blinds: "blinds_ok fallback \<Longrightarrow> blinds_ok (sanitize_settings input fallback seats)"
  by (auto simp: blinds_ok_def sanitize_settings_def Let_def int_or_def intro!: clampInt_ge clampInt_lower)

lemma settings_grow:
  assumes "bank_ok g" "0 \<le> lost g"
  shows "grows g 0 (update_settings patch g)"
  using assms sanitize_blinds [of "pg_cfg g" patch "fold max (map (\<lambda>p. pp_seat p + 1) (pg_players g)) 2"]
  by (auto simp: update_settings_def grows_def bank_ok_def pids_def idle_def lost_def bank_def in_hand_phase_def stacks_def stakes_def pending_def)

section \<open>Runs\<close>

datatype poker_input =
    PkWire string jsv
  | PkAct string jsv
  | PkStart
  | PkJoin
  | PkRemove string
  | PkKick string
  | PkSettings jsv
  | PkAddChips string jsv
  | PkRemoveChips string jsv
  | PkInvite string
  | PkBotIn
  | PkBotOut

definition poker_step :: "poker_env \<Rightarrow> poker_input \<Rightarrow> poker \<Rightarrow> poker option" where
  "poker_step env inp g =
     (case inp of
        PkWire from body \<Rightarrow> on_wire env from body g
      | PkAct x act \<Rightarrow> apply_action x act g
      | PkStart \<Rightarrow> Some (snd (startHand env g))
      | PkJoin \<Rightarrow> Some (host_joins env g)
      | PkRemove x \<Rightarrow> remove_player x g
      | PkKick x \<Rightarrow> Some (snd (kick_player env x g))
      | PkSettings patch \<Rightarrow> Some (update_settings patch g)
      | PkAddChips x amount \<Rightarrow> Some (snd (addChips x amount g))
      | PkRemoveChips x amount \<Rightarrow> Some (snd (removeChips x amount g))
      | PkInvite x \<Rightarrow> Some (snd (invite_peer env x g))
      | PkBotIn \<Rightarrow> Some (snd (addDebugBot g))
      | PkBotOut \<Rightarrow> removeDebugBot g)"

fun poker_run :: "(poker_env \<times> poker_input) list \<Rightarrow> poker \<Rightarrow> poker option" where
  "poker_run [] g = Some g"
| "poker_run ((env, inp) # xs) g = (case poker_step env inp g of None \<Rightarrow> None | Some h \<Rightarrow> poker_run xs h)"

text \<open>The chips that an input brings to the table: those of a new player and those the host grants.\<close>

definition credit :: "poker_env \<Rightarrow> poker_input \<Rightarrow> poker \<Rightarrow> int" where
  "credit env inp g =
     (case inp of
        PkWire from body \<Rightarrow> if get body ''wire'' = Str ''join'' then brings from g else 0
      | PkJoin \<Rightarrow> brings (pe_selfId env) g
      | PkAddChips x amount \<Rightarrow> granted amount
      | PkBotIn \<Rightarrow> brings POKER_BOT_PEER_ID g
      | _ \<Rightarrow> 0)"

fun credits :: "(poker_env \<times> poker_input) list \<Rightarrow> poker \<Rightarrow> int" where
  "credits [] g = 0"
| "credits ((env, inp) # xs) g = credit env inp g + (case poker_step env inp g of None \<Rightarrow> 0 | Some h \<Rightarrow> credits xs h)"

lemma settles_grows: "settles g h \<Longrightarrow> 0 \<le> lost g \<Longrightarrow> grows g 0 h"
  using grows_keeps keeps_settles by blast

lemma grows_more: "grows g 0 h \<Longrightarrow> 0 \<le> c \<Longrightarrow> grows g c h"
  by (simp add: grows_def)

lemma wire_grows:
  assumes "bank_ok g" "0 \<le> lost g" "on_wire env from body g = Some h"
  shows "grows g (credit env (PkWire from body) g) h"
proof -
  have c: "0 \<le> credit env (PkWire from body) g" using brings_nonneg [OF assms(1)] by (simp add: credit_def)
  have "grows g (credit env (PkWire from body) g) g" by (rule grows_refl [OF assms(1,2) c])
  moreover have "grows g (credit env (PkWire from body) g) (snd (add_player from (get body ''name'') g))" if "get body ''wire'' = Str ''join''"
    using add_player_grows [OF assms(1,2), of "from" "get body ''name''"] that by (simp add: credit_def)
  moreover have "grows g 0 k" if "remove_player from g = Some k" for k using grows_keeps [OF remove_keeps [OF assms(1,2) that]] .
  moreover have "grows g 0 k" if "apply_action from act g = Some k" for act k by (rule settles_grows [OF apply_action_settles [OF assms(1,2) that] assms(2)])
  ultimately show ?thesis using assms(3) grows_more [OF _ c] by (auto simp: on_wire_def split: if_splits)
qed

lemma start_grows:
  assumes "bank_ok g" "0 \<le> lost g" "startHand env g = (b, h)"
  shows "grows g 0 h"
  using startHand_bank [OF assms(1,3)] grows_refl [OF assms(1,2)] assms(2) by (cases "in_hand_phase g") (auto simp: grows_def lost_def)

lemma step_grows:
  assumes "bank_ok g" "0 \<le> lost g" "poker_step env inp g = Some h"
  shows "bank_ok h \<and> 0 \<le> lost h \<and> bank h + pending h \<le> bank g + pending g + credit env inp g \<and> ((\<forall>x. inp \<noteq> PkKick x) \<longrightarrow> lost h \<le> lost g)"
proof (cases "\<exists>x. inp = PkKick x")
  case True
  then show ?thesis using kick_keeps [OF assms(1,2)] assms(3) by (auto simp: poker_step_def keeps_def credit_def)
next
  case False
  have refl: "grows g 0 g" by (rule grows_refl [OF assms(1,2)]) simp
  have inv: "grows g 0 (g\<lparr>pg_invitedPeers := xs\<rparr>)" for xs
    using assms(1,2) by (auto simp: grows_def bank_ok_def pids_def idle_def lost_def bank_def in_hand_phase_def stacks_def stakes_def pending_def)
  have "grows g (credit env inp g) h"
  proof (cases inp)
    case (PkWire x body)
    then show ?thesis using wire_grows [OF assms(1,2)] assms(3) by (simp add: poker_step_def)
  next
    case (PkAct x act)
    then show ?thesis using settles_grows [OF apply_action_settles [OF assms(1,2)] assms(2)] assms(3) by (simp add: poker_step_def credit_def)
  next
    case PkStart
    then show ?thesis using start_grows [OF assms(1,2) surjective_pairing] assms(3) by (auto simp: poker_step_def credit_def)
  next
    case PkJoin
    then show ?thesis using add_player_grows [OF assms(1,2)] assms(3) by (auto simp: poker_step_def credit_def host_joins_def)
  next
    case (PkRemove x)
    then show ?thesis using grows_keeps [OF remove_keeps [OF assms(1,2)]] assms(3) by (simp add: poker_step_def credit_def)
  next
    case (PkKick x)
    then show ?thesis using False by blast
  next
    case (PkSettings patch)
    then show ?thesis using settings_grow [OF assms(1,2)] assms(3) by (auto simp: poker_step_def credit_def)
  next
    case (PkAddChips x amount)
    then show ?thesis using addChips_grows [OF assms(1,2)] assms(3) by (auto simp: poker_step_def credit_def)
  next
    case (PkRemoveChips x amount)
    then show ?thesis using removeChips_grows [OF assms(1,2)] assms(3) by (auto simp: poker_step_def credit_def)
  next
    case (PkInvite x)
    then show ?thesis using refl inv assms(3) by (auto simp: poker_step_def credit_def invite_peer_def)
  next
    case PkBotIn
    then show ?thesis using add_player_grows [OF assms(1,2)] grows_more [OF refl brings_nonneg [OF assms(1)]] assms(3) by (auto simp: poker_step_def credit_def addDebugBot_def)
  next
    case PkBotOut
    then show ?thesis using refl grows_keeps [OF remove_keeps [OF assms(1,2)]] assms(3) by (auto simp: poker_step_def credit_def removeDebugBot_def split: if_splits)
  qed
  then show ?thesis by (simp add: grows_def)
qed

definition no_kicks :: "(poker_env \<times> poker_input) list \<Rightarrow> bool" where
  "no_kicks xs \<longleftrightarrow> list_all (\<lambda>(env, inp). case inp of PkKick x \<Rightarrow> False | _ \<Rightarrow> True) xs"

lemma run_grows:
  "poker_run xs g = Some h \<Longrightarrow> bank_ok g \<Longrightarrow> 0 \<le> lost g \<Longrightarrow>
    bank_ok h \<and> 0 \<le> lost h \<and> bank h + pending h \<le> bank g + pending g + credits xs g \<and> (no_kicks xs \<longrightarrow> lost h \<le> lost g)"
proof (induction xs arbitrary: g)
  case Nil
  then show ?case by simp
next
  case (Cons x xs)
  obtain env inp where x: "x = (env, inp)" by (cases x)
  obtain k where k: "poker_step env inp g = Some k" "poker_run xs k = Some h" using Cons.prems(1) x by (auto split: option.splits)
  note step = step_grows [OF Cons.prems(2,3) k(1)]
  then have "bank_ok h \<and> 0 \<le> lost h \<and> bank h + pending h \<le> bank k + pending k + credits xs k \<and> (no_kicks xs \<longrightarrow> lost h \<le> lost k)" using Cons.IH [OF k(2)] by simp
  moreover have "no_kicks (x # xs) \<Longrightarrow> (\<forall>y. inp \<noteq> PkKick y) \<and> no_kicks xs" by (auto simp: no_kicks_def x)
  ultimately show ?case using step k(1) x by fastforce
qed

lemma defaults_ok: "blinds_ok default_settings"
  by (simp add: blinds_ok_def default_settings_def)

lemma new_table_ok: "bank_ok (new_table input) \<and> lost (new_table input) = 0 \<and> bank (new_table input) = 0 \<and> pending (new_table input) = 0"
proof -
  have "blinds_ok (sanitize_settings input default_settings 2)" by (rule sanitize_blinds [OF defaults_ok])
  then show ?thesis by (simp add: new_table_def Let_def bank_ok_def pids_def idle_def lost_def bank_def in_hand_phase_def stacks_def pending_def blinds_ok_def)
qed

lemma new_run:
  assumes "poker_run xs (new_table input) = Some g"
  shows "bank_ok g" "0 \<le> lost g" "bank g + pending g \<le> credits xs (new_table input)" "no_kicks xs \<Longrightarrow> lost g = 0"
  using run_grows [OF assms] new_table_ok [of input] by auto

section \<open>Who wins\<close>

lemma best7_some: "best7 cards \<noteq> None"
  using best7_facts [of cards] by auto

lemma paid_each_ids: "map fst (paid_each is share remainder hand) = is"
  by (induction "is" arbitrary: remainder) simp_all

lemma paid_each_sum: "0 \<le> remainder \<Longrightarrow> sum_list (map (\<lambda>r. fst (snd r)) (paid_each is share remainder hand)) = share * int (length is) + min remainder (int (length is))"
  by (induction "is" arbitrary: remainder) (auto simp: algebra_simps min_def)

lemma paid_each_share: "r \<in> set (paid_each is share remainder hand) \<Longrightarrow> fst (snd r) = share \<or> fst (snd r) = share + 1"
  by (induction "is" arbitrary: remainder) auto

lemma paid_each_nth:
  "n < length is \<Longrightarrow> fst (snd (paid_each is share remainder hand ! n)) = share + (if int n < remainder then 1 else 0)"
proof (induction "is" arbitrary: n remainder)
  case (Cons i "is")
  then show ?case by (cases n) auto
qed simp

definition chips_of :: "poker \<Rightarrow> string \<Rightarrow> int" where
  "chips_of g i = (case player_of g i of None \<Rightarrow> 0 | Some p \<Rightarrow> pp_chips p)"

text \<open>What a list of results gives a player.\<close>

definition won_by :: "string \<Rightarrow> (string \<times> int \<times> string) list \<Rightarrow> int" where
  "won_by i results = sum_list (map (\<lambda>r. fst (snd r)) (filter (\<lambda>r. fst r = i) results))"

lemma chips_paid_one:
  assumes "pk_find g j = Some k"
  shows "chips_of (pk_set k (\<lambda>p. p\<lparr>pp_chips := pp_chips p + a\<rparr>) g) i = chips_of g i + (if i = j then a else 0)"
proof (cases "pk_find g i")
  case None
  then show ?thesis using assms by (auto simp: chips_of_def player_of_def pk_find_set)
next
  case (Some l)
  note il = pk_find_Some [OF Some] and jk = pk_find_Some [OF assms]
  have lk: "l = k \<longleftrightarrow> i = j"
  proof
    assume "l = k"
    then show "i = j" using conjunct2 [OF il] conjunct2 [OF jk] by simp
  next
    assume "i = j"
    then show "l = k" using Some assms by simp
  qed
  have "pk_find (pk_set k (\<lambda>p. p\<lparr>pp_chips := pp_chips p + a\<rparr>) g) i = Some l" using Some by (simp add: pk_find_set)
  then have "chips_of (pk_set k (\<lambda>p. p\<lparr>pp_chips := pp_chips p + a\<rparr>) g) i = pp_chips (pg_players (pk_set k (\<lambda>p. p\<lparr>pp_chips := pp_chips p + a\<rparr>) g) ! l)"
    "chips_of g i = pp_chips (pg_players g ! l)" using Some by (simp_all add: chips_of_def player_of_def)
  moreover have "pg_players (pk_set k f g) ! l = (if l = k then f (pg_players g ! l) else pg_players g ! l)" for f
    using il by (simp add: pk_set_def)
  ultimately show ?thesis using lk by simp
qed

lemma pay_each_chips:
  "\<forall>j \<in> set is. j \<in> set (pids g) \<Longrightarrow> chips_of (pay_each is share remainder g) i = chips_of g i + won_by i (paid_each is share remainder hand)"
proof (induction "is" arbitrary: g remainder)
  case (Cons j "is")
  obtain k where k: "pk_find g j = Some k" using Cons.prems pk_find_pids [of g j] by fastforce
  let ?h = "pk_set k (\<lambda>p. p\<lparr>pp_chips := pp_chips p + (share + (if remainder > 0 then 1 else 0))\<rparr>) g"
  have "pids ?h = pids g" by (rule pids_set) simp
  then have "chips_of (pay_each is share (max 0 (remainder - 1)) ?h) i = chips_of ?h i + won_by i (paid_each is share (max 0 (remainder - 1)) hand)"
    using Cons by simp
  then show ?case using k chips_paid_one [OF k, of "share + (if remainder > 0 then 1 else 0)" i] by (auto simp: won_by_def)
qed (simp add: won_by_def)

text \<open>The hands nobody beats.\<close>

definition best_among :: "poker \<Rightarrow> string list \<Rightarrow> string set" where
  "best_among g elig = {i \<in> set elig. \<forall>j \<in> set elig. cmpScore (the (hand_score g j)) (the (hand_score g i)) \<le> 0}"

lemma winners_best:
  assumes "best_hands g elig (None, []) = (best, winners)" "elig \<noteq> []" "\<forall>i \<in> set elig. hand_score g i \<noteq> None"
  shows "set winners = best_among g elig"
proof -
  note w = best_hands_eligible [OF assms(1,2)]
  obtain s where m: "\<And>i. i \<in> set elig \<Longrightarrow> (i \<in> set winners \<longleftrightarrow> cmpScore (the (hand_score g i)) s = 0) \<and> cmpScore (the (hand_score g i)) s \<le> 0"
    by (rule best_hands_winners [OF assms]) blast
  obtain v where v: "v \<in> set winners" using w by (cases winners) auto
  have over: "cmpScore s (the (hand_score g i)) \<le> 0" if "i \<in> set winners" for i
    using m [of i] w that cmp_antisym [of s "the (hand_score g i)"] by auto
  show ?thesis
  proof (intro set_eqI iffI)
    fix i assume i: "i \<in> set winners"
    have "cmpScore (the (hand_score g j)) (the (hand_score g i)) \<le> 0" if "j \<in> set elig" for j
      by (rule cmp_le_trans [OF _ over [OF i]]) (use m [OF that] in simp)
    then show "i \<in> best_among g elig" using w i by (auto simp: best_among_def)
  next
    fix i assume i: "i \<in> best_among g elig"
    then have "cmpScore (the (hand_score g v)) (the (hand_score g i)) \<le> 0" using v w by (auto simp: best_among_def)
    then have "cmpScore s (the (hand_score g i)) \<le> 0" using over [OF v] cmp_le_trans by blast
    moreover have "i \<in> set elig" using i by (simp add: best_among_def)
    ultimately show "i \<in> set winners" using m [of i] cmp_antisym [of s "the (hand_score g i)"] by auto
  qed
qed

lemma winners_filter:
  assumes "best_hands g elig (None, []) = (best, winners)" "elig \<noteq> []" "\<forall>i \<in> set elig. hand_score g i \<noteq> None"
  shows "winners = filter (\<lambda>i. i \<in> best_among g elig) elig"
proof -
  have "best_of g elig (best, winners)" using best_hands_best [of g "[]" "(None, [])" elig] assms(1,3) by (simp add: best_of_def)
  then obtain P where P: "winners = filter P elig" using assms(2) by (auto simp: best_of_def)
  have "P i \<longleftrightarrow> i \<in> best_among g elig" if "i \<in> set elig" for i
    using winners_best [OF assms] that unfolding P by auto
  then show ?thesis unfolding P by (rule filter_cong [OF refl])
qed

section \<open>Properties\<close>

text \<open>C29. At a showdown of seven cards a pot for which somebody still in the hand is eligible goes to exactly the eligible players whose best five cards nobody
  eligible beats, in the order of the pot's list: each of them gets an equal share, and the first ones a chip more while chips are left over, which pays the
  pot to the last chip. Every player's stack grows by just what the result lists for that player, and all other stacks stay as they were.\<close>

theorem pot_goes_to_the_best_hands:
  assumes "pay_pot pot g = (results, h)" "filter (still_in g) (sp_eligible pot) \<noteq> []" "0 \<le> sp_amount pot"
    "\<forall>i \<in> set (sp_eligible pot). still_in g i \<longrightarrow> length (pp_hole (the (player_of g i)) @ pg_board g) = 7"
  shows "map fst results = filter (\<lambda>i. i \<in> best_among g (filter (still_in g) (sp_eligible pot))) (filter (still_in g) (sp_eligible pot)) \<and>
    sum_list (map (\<lambda>r. fst (snd r)) results) = sp_amount pot \<and>
    (\<forall>n < length results. fst (snd (results ! n)) =
       sp_amount pot div int (length results) + (if int n < sp_amount pot mod int (length results) then 1 else 0)) \<and>
    (\<forall>i. chips_of h i = chips_of g i + won_by i results) \<and> stacks h = stacks g + sp_amount pot"
proof -
  let ?elig = "filter (still_in g) (sp_eligible pot)"
  obtain best winners where w: "best_hands g ?elig (None, []) = (best, winners)" by fastforce
  have scores: "\<forall>i \<in> set ?elig. hand_score g i \<noteq> None"
    using assms(4) best7_some by (auto simp: hand_score_def still_in_def Let_def split: option.splits)
  define k where "k = int (length winners)"
  define share where "share = sp_amount pot div k"
  define hand where "hand = (case best of None \<Rightarrow> [] | Some s \<Rightarrow> label_of s)"
  have r: "results = paid_each winners share (sp_amount pot - share * k) hand" "h = pay_each winners share (sp_amount pot - share * k) g"
    using assms(1,2) w by (auto simp: pay_pot_def Let_def k_def share_def hand_def)
  have "winners \<noteq> []" "set winners \<subseteq> set ?elig" using best_hands_eligible [OF w assms(2)] by auto
  then have k: "0 < k" and ids: "\<forall>i \<in> set winners. i \<in> set (pids g)" using still_in_pids by (auto simp: k_def)
  have n: "0 \<le> share" "0 \<le> sp_amount pot - share * k" using assms(3) k by (simp_all add: share_def pos_imp_zdiv_nonneg_iff minus_div_mult_eq_mod)
  have all: "share * k + min (sp_amount pot - share * k) k = sp_amount pot" unfolding share_def by (rule share_all [OF assms(3) k])
  have "length results = length winners" using arg_cong [OF paid_each_ids, of length] by (simp add: r(1))
  then have "\<forall>n < length results. fst (snd (results ! n)) =
      sp_amount pot div int (length results) + (if int n < sp_amount pot mod int (length results) then 1 else 0)"
    using paid_each_nth [of _ winners share "sp_amount pot - share * k" hand] by (simp add: r(1) share_def k_def minus_div_mult_eq_mod)
  moreover have "sum_list (map (\<lambda>r. fst (snd r)) results) = sp_amount pot" using paid_each_sum [OF n(2)] all by (simp add: r(1) k_def)
  moreover have "map fst results = filter (\<lambda>i. i \<in> best_among g ?elig) ?elig"
    by (simp only: r(1) paid_each_ids winners_filter [OF w assms(2) scores])
  moreover have "\<forall>i. chips_of h i = chips_of g i + won_by i results" using pay_each_chips [OF ids] by (simp add: r)
  moreover have "stacks h = stacks g + sp_amount pot" using pay_each_paid [OF ids n] all by (simp add: r(2) paid_to_def k_def)
  ultimately show ?thesis by blast
qed

text \<open>C30. Whatever peers send and the host does, the chips on the table, those in the pot and those promised for the next hand are never more than
  what new players brought and the host granted.\<close>

theorem chips_never_from_nothing:
  assumes "poker_run xs (new_table input) = Some g"
  shows "bank g + pending g \<le> credits xs (new_table input)"
  by (rule new_run(3) [OF assms])

text \<open>C31. At every table that can be reached nobody has fewer than no chips, no bet is negative, no peer sits at the table twice, the blinds are in
  order and the pot holds at least what the players in the hand have put in.\<close>

theorem poker_table_in_order:
  assumes "poker_run xs (new_table input) = Some g"
  shows "distinct (map pp_peerId (pg_players g)) \<and> (\<forall>p \<in> set (pg_players g). solvent p) \<and> blinds_ok (pg_cfg g) \<and> (in_hand_phase g \<longrightarrow> stakes g \<le> pg_pot g)"
  using new_run(1,2) [OF assms] by (auto simp: bank_ok_def pids_def lost_def split: if_splits)


section \<open>A table of three\<close>

definition pk_env_ex :: poker_env where
  "pk_env_ex = \<lparr>pe_selfId = ''a'', pe_selfName = Str ''A'', pe_tableId = ''t'', pe_random = (\<lambda>_ _. 0), pe_connected = [], pe_blocked = []\<rparr>"

definition pk_join_ex :: "string \<Rightarrow> poker_input" where
  "pk_join_ex x = PkWire x (Obj [(''wire'', Str ''join''), (''tableId'', Str ''t''), (''name'', Str x)])"

definition pk_act_ex :: "string \<Rightarrow> string \<Rightarrow> poker_input" where
  "pk_act_ex x k = PkAct x (Obj [(''type'', Str k)])"

definition pk_inputs_ex :: "poker_input list \<Rightarrow> (poker_env \<times> poker_input) list" where
  "pk_inputs_ex inps = map (Pair pk_env_ex) (PkSettings (Obj [(''lobbyAccess'', Str ''public'')]) # PkJoin # pk_join_ex ''b'' # pk_join_ex ''c'' # inps)"

definition pk_table_ex :: "poker_input list \<Rightarrow> poker option" where
  "pk_table_ex inps = poker_run (pk_inputs_ex inps) (new_table Null)"

definition chips_ex :: "poker \<Rightarrow> (string \<times> int \<times> int) list" where
  "chips_ex g = map (\<lambda>p. (pp_peerId p, pp_chips p, pp_totalBet p)) (pg_players g)"

lemma three_dealt: "map_option (\<lambda>g. (pg_phase g, pg_toActIdx g, pg_pot g, chips_ex g)) (pk_table_ex [PkStart]) =
    Some (PkStreet StPreflop, 0, 30, [(''a'', 2000, 0), (''b'', 1990, 10), (''c'', 1980, 20)])"
  by code_simp

theorem side_pots_match_stakes_witness:
  "sum_list (map sp_amount (buildSidePots [(''a'', 10), (''b'', 30), (''c'', 20)])) = 60 \<and>
   sum_list (map sp_amount (filter (\<lambda>pot. ''a'' \<in> set (sp_eligible pot)) (buildSidePots [(''a'', 10), (''b'', 30), (''c'', 20)]))) = 30"
  using side_pots_match_stakes [of "[(''a'', 10), (''b'', 30), (''c'', 20)]" "''a''" 10] by simp

text \<open>Two players after the river: the first has folded.\<close>

definition pk_player_ex :: "string \<Rightarrow> int \<Rightarrow> bool \<Rightarrow> nat list \<Rightarrow> pk_player" where
  "pk_player_ex x seat folded hole = \<lparr>pp_peerId = x, pp_name = Str x, pp_seat = seat, pp_chips = 100, pp_folded = folded, pp_allIn = False, pp_currentRoundBet = 0,
     pp_totalBet = 50, pp_hole = hole, pp_inHand = True, pp_isBot = False, pp_connected = True, pp_pendingChips = 0, pp_handsPlayed = 1, pp_handsWon = 0, pp_chipsGranted = 0\<rparr>"

definition river_ex :: poker where
  "river_ex = (new_table Null)\<lparr>pg_players := [pk_player_ex ''a'' 0 True [0, 51], pk_player_ex ''b'' 1 False [50, 49]], pg_board := [45, 44, 43, 41, 39],
     pg_phase := PkStreet StRiver, pg_street := StRiver, pg_pot := 100\<rparr>"

theorem pot_goes_to_the_best_hands_witness:
  "\<exists>results h. pay_pot \<lparr>sp_amount = 100, sp_eligible = [''a'', ''b'']\<rparr> river_ex = (results, h) \<and>
     map fst results = [''b''] \<and> sum_list (map (\<lambda>r. fst (snd r)) results) = 100 \<and> chips_of h ''a'' = 100 \<and> chips_of h ''b'' = 200"
proof -
  let ?pot = "\<lparr>sp_amount = 100, sp_eligible = [''a'', ''b'']\<rparr>"
  have elig: "filter (still_in river_ex) (sp_eligible ?pot) = [''b'']" by code_simp
  have "length (pp_hole (the (player_of river_ex i)) @ pg_board river_ex) = 7" if "i = ''a'' \<or> i = ''b''" for i
    using that by (elim disjE; hypsubst; code_simp)
  then have cards: "\<forall>i \<in> set (sp_eligible ?pot). still_in river_ex i \<longrightarrow> length (pp_hole (the (player_of river_ex i)) @ pg_board river_ex) = 7" by simp
  obtain results h where pay: "pay_pot ?pot river_ex = (results, h)" by fastforce
  note pot = pot_goes_to_the_best_hands [OF pay _ _ cards, unfolded elig, simplified]
  have best: "best_among river_ex [''b''] = {''b''}" by (auto simp: best_among_def)
  have ids: "map fst results = [''b'']" using pot best by simp
  then obtain v where "results = [(''b'', v)]" by (cases results) auto
  moreover have "chips_of river_ex ''a'' = 100" "chips_of river_ex ''b'' = 100" by code_simp+
  ultimately have "chips_of h ''a'' = 100 \<and> chips_of h ''b'' = 200 \<and> fst v = 100" using pot by (simp add: won_by_def)
  then show ?thesis using pay ids pot by (intro exI [of _ results] exI [of _ h]) simp
qed

lemma three_started: "\<exists>g. poker_run (pk_inputs_ex [PkStart]) (new_table Null) = Some g \<and> pg_toActIdx g = 0 \<and> bank g = 6000 \<and> pending g = 0"
proof -
  have "map_option (\<lambda>g. (pg_toActIdx g, bank g, pending g)) (pk_table_ex [PkStart]) = Some (0, 6000, 0)" by code_simp
  then show ?thesis by (auto simp: pk_table_ex_def)
qed

theorem chips_never_from_nothing_witness:
  "\<exists>g. poker_run (pk_inputs_ex [PkStart]) (new_table Null) = Some g \<and> bank g + pending g = 6000 \<and> 6000 \<le> credits (pk_inputs_ex [PkStart]) (new_table Null)"
proof -
  obtain g where g: "poker_run (pk_inputs_ex [PkStart]) (new_table Null) = Some g" "bank g = 6000" "pending g = 0" using three_started by auto
  show ?thesis using g chips_never_from_nothing [OF g(1)] by simp
qed

theorem poker_table_in_order_witness:
  "\<exists>g. poker_run (pk_inputs_ex [PkStart]) (new_table Null) = Some g \<and> bank g = 6000 \<and> (\<forall>p \<in> set (pg_players g). solvent p)"
proof -
  obtain g where g: "poker_run (pk_inputs_ex [PkStart]) (new_table Null) = Some g" "bank g = 6000" using three_started by auto
  show ?thesis using g poker_table_in_order [OF g(1)] by blast
qed


section \<open>What the host does not cover\<close>

text \<open>A raise by an amount that is no number leaves the table without numbers.\<close>

lemma raise_by_no_number: "pk_table_ex [PkStart, PkAct ''a'' (Obj [(''type'', Str ''raise''), (''amount'', Str ''x'')])] = None"
  by code_simp

text \<open>The bets of a player who is kicked out of a hand stay in the pot, but a showdown does not pay them.\<close>

lemma kicked_bets_unpaid: "map_option (\<lambda>g. (pg_pot g, stakes g)) (pk_table_ex [PkStart, pk_act_ex ''a'' ''call'', PkKick ''b'']) = Some (50, 40)"
  by code_simp

lemma showdown_pays_stakes: "bank_ok g \<Longrightarrow> in_hand_phase g \<Longrightarrow> showdown g = h \<Longrightarrow> bank g - bank h = pg_pot g - stakes g"
  using showdown_bank [of g h] by (auto simp: bank_def)

text \<open>The only player who can still act is kicked: the turn is nowhere, and no action of anybody is heard.\<close>

lemma hand_without_turn:
  "map_option (\<lambda>g. (pg_phase g, pg_toActIdx g, length (activeInHand g))) (pk_table_ex [PkStart, pk_act_ex ''a'' ''all_in'', pk_act_ex ''b'' ''all_in'', PkKick ''c'']) =
     Some (PkStreet StPreflop, - 1, 2)"
  by code_simp

lemma nobody_is_heard: "pg_toActIdx g = - 1 \<Longrightarrow> apply_action x act g = Some g"
  by (simp add: apply_action_def pk_at_def)

text \<open>A player without chips leaves during a hand of the others: the turn moves on by one.\<close>

lemma leaving_shifts_turn:
  "map_option (\<lambda>g. map_option pp_peerId (pk_at g (pg_toActIdx g))) (pk_table_ex [pk_join_ex ''d'', PkRemoveChips ''b'' (JInt 2000), PkStart, pk_act_ex ''a'' ''call'']) =
     Some (Some ''c'')"
  "map_option (\<lambda>g. map_option pp_peerId (pk_at g (pg_toActIdx g))) (pk_table_ex [pk_join_ex ''d'', PkRemoveChips ''b'' (JInt 2000), PkStart, pk_act_ex ''a'' ''call'', PkRemove ''b'']) =
     Some (Some ''d'')"
  by code_simp+

text \<open>The blinds put everyone all in: no card is laid open, and the first at the table has the best hand whatever the cards are.\<close>

lemma blinds_end_the_hand:
  "map_option (\<lambda>g. (pg_phase g, pg_board g, pg_winners g, chips_ex g)) (pk_table_ex [PkRemove ''c'', PkRemoveChips ''a'' (JInt 1990), PkRemoveChips ''b'' (JInt 1990), PkStart]) =
     Some (PkBetween, [], [(''a'', 20, ''Vierling'')], [(''a'', 20, 10), (''b'', 0, 10)])"
  by code_simp

text \<open>An action of no known type passes the turn.\<close>

lemma unknown_action_passes:
  "map_option (\<lambda>g. (pg_toActIdx g, pg_pot g, list_ex pp_folded (pg_players g))) (pk_table_ex [PkStart, PkAct ''a'' (Obj [])]) = Some (1, 30, False)"
  by code_simp

end
