(* ===== verification/Spec2Isabelle.thy ===== *)
theory Spec2Isabelle
  imports Call_State Call_Limits Call_Wire Jitter_Buffer Playback_Ring Video_Fragments Video_Control Group_Chat Presence Chat_Features Peer_Session Session_Map Sync_Engine Realtime_Room Uno_Run Poker_Run
begin

text \<open>
  BlueTalk is a peer-to-peer messenger: a renderer in JavaScript (chats, groups, calls, games), a web
  bridge in JavaScript that speaks the peer protocol over a relay, and Rust back ends. This development
  models the logic of the JavaScript part, below \<open>src/\<close> of the repository, and proves what makes it
  correct. Each definition has the name of the function it translates, or names a step of one; the
  comment at the top of each theory says which file it models and what is an argument there.

  The vocabulary.
  \<^item> \<open>JS_Prelude\<close>: strings as lists of code units below 256, \<open>trim\<close>, \<open>findIndex\<close>, lists
    without repetition. \<open>JS_Values\<close>: the values a peer or the store controls (\<open>jsv\<close>), conversions,
    property access, \<open>{...x}\<close>, assignment to \<open>__proto__\<close>. \<open>JSON_Text\<close>: UTF-8,
    \<open>JSON.stringify\<close> and \<open>JSON.parse\<close>; the parser's fuel is the length of the text and is proved enough.
    \<open>Byte_Codec\<close>: the fields of binary headers.

  Calls (\<open>src/renderer/calls\<close>).
  \<^item> \<open>Call_State\<close> (\<open>callState.js\<close>), with \<open>Call_Devices\<close> and \<open>Video_Caps\<close>: the reducer of a call, every
    event as one definition. Its invariant over all reachable states, the table of its transitions, what
    every way of ending a call does, that a third party cannot disturb a call, and that two peers who call
    each other at once end up in the same call.
  \<^item> \<open>Call_Limits\<close>: the sanitisers of incoming call messages are projections onto well-formed messages.
  \<^item> \<open>Call_Wire\<close>, \<open>Video_Fragments\<close>: initialisation vectors, Opus packing, fragments of video frames and
    their reassembly within a budget. \<open>Jitter_Buffer\<close>, \<open>Playback_Ring\<close>, \<open>Video_Control\<close>: order and
    loss of packets, the ring as a queue, congestion and key frames.

  Chats (\<open>src/shared\<close> and \<open>src/renderer/app\<close>).
  \<^item> \<open>Group_Chat\<close>: groups and their events; who may change what, replays, normal forms, delivery.
  \<^item> \<open>Chat_Features\<close>: edits, mentions, search, drafts, pins. \<open>Presence\<close>: presence, typing, game lobbies.
    \<open>Contact_Patch\<close>: the merging of contacts.

  The peer protocol (\<open>src/bridge/webBridge/peerProtocol\<close>).
  \<^item> \<open>Peer_Bytes\<close>, \<open>Peer_Frames\<close>, \<open>Peer_Records\<close>, \<open>Peer_Handshake\<close>, \<open>Peer_Session\<close>: encodings,
    framing over a stream, encrypted records, the handshake of both roles, and the session. The primitives of
    the noble packages are the parameter \<open>crypto\<close>; the laws used of them (an opened record was sealed under
    that key and nonce, Diffie-Hellman agrees, a signature made with a key verifies under it) are the
    hypotheses \<open>aead_laws\<close>, \<open>dh_laws\<close>, \<open>sign_laws\<close>, and a sample instance satisfies them. Honest ends
    agree, a session is bound to signed hellos, messages arrive exactly and in order over any chunking of
    the stream, records are never replayed and nonces never repeat, and a session closes once.

  Devices of one account (\<open>src/bridge/webBridge/sessionMap.js\<close>, \<open>src/renderer/cloudAccount\<close>).
  \<^item> \<open>Session_Map\<close>: which side opens a tunnel, and the table of sessions as a map (locale \<open>entry_store\<close>,
    interpreted on the table).
  \<^item> \<open>Sync_Logic\<close>, \<open>Sync_Engine\<close>: the entries of a store, their differences, the outbox, applying what
    other devices send, and pushing. Differences carry the entries over, the outbox is a map from keys to
    the latest change, devices that receive the same operations in any order agree on the entries (contacts,
    whole-store operations and equal time stamps apart), and a push ends, keeps
    within the server's limits and sends every change once. Pushing recurses on the length of the outbox,
    so it needs no fuel; the server is a state and a function.

  The realtime API for plugins (\<open>src/shared/plugin-realtime.mjs\<close>).
  \<^item> \<open>Realtime_Text\<close>: operations on a text and their transformation; two operations on one text, each
    moved past the other, commute. \<open>Realtime_Document\<close>: shared documents. An operation based on an older
    revision keeps its meaning or is rejected, a retry is answered and not applied again, and members end
    with the host's document whatever the order of its messages.
  \<^item> \<open>Realtime_Room\<close>: rooms and the manager of a device, over any sequence of inputs. Rooms stay well
    formed, a member of an invite-only room was invited by the host unless it sent the host an invitation itself,
    and joining brings the host's table of members and the documents the peer has opened.

  Games (\<open>assets/bundled-plugins\<close>).
  \<^item> \<open>Uno_Rules\<close>, \<open>Uno_Game\<close> (\<open>uno/deck.js\<close>, \<open>rules.js\<close>, \<open>net.js\<close>, \<open>engine.js\<close>): the deck, the rules and the host of a
    UNO table. \<open>Uno_Facts\<close>, \<open>Uno_Table\<close> and \<open>Uno_Round\<close> hold the lemmas on actions, on players who come and go, and
    on the start of a round; \<open>Uno_Run\<close> states the properties over any sequence of inputs: cards are conserved, the
    turn is that of a seat at the table and passes to the first connected one, only that player can move, and exactly the cards
    are accepted that the rules, stated one by one, allow. A round starts with at most eight players, so the deck is always enough.
  \<^item> \<open>Poker_Hand\<close>, \<open>Poker_Bets\<close>, \<open>Poker_Game\<close> (\<open>poker/cards.js\<close>, \<open>handRank.js\<close>, \<open>betting.js\<close>, \<open>engine.js\<close>): hands,
    side pots and settings, and the host of a poker table. The score of five cards is compared with the categories of the
    rules, the best of seven with all choices of five, side pots with what each player has put in. \<open>Poker_Facts\<close> follows
    the chips through every operation; \<open>Poker_Run\<close> states over any sequence of inputs that chips never come from nothing,
    that no stack is negative, and that play without a kick conserves them, and lists inputs the host does not cover.
    Its loops run at most once per player or per street; the guards of the code are the fuel.

  Interfaces. \<open>length_prefix\<close> (\<open>Peer_Frames\<close>) is the contract of a framing and \<open>entry_store\<close> that of a
  keyed table; each is interpreted on the model's own definitions.

  Not modelled. Rendering, React hooks, WebAudio, WebCodecs, WebCrypto, IndexedDB and network I/O, which
  only call the modelled functions; timers, which are events of the state machines; the rounding of
  numbers to 53 bits; characters beyond Latin-1; the order of integer-like keys of objects. Of the logic in
  JavaScript: the manager of calls and its media pipelines, the relay client and the rest of the web
  bridge, the session of the cloud account, the handlers of the application's state, the kart game, the
  other bundled games, and of UNO and poker the saved tables and what a page shows. The Rust back ends and the
  relay server are not JavaScript and not modelled.
\<close>

end
